(* ===== verification/Prelude.thy ===== *)
theory Prelude
  imports Main "HOL-Library.Char_ord" "HOL-Library.List_Lexorder" "HOL-Library.Product_Lexorder"
    "HOL-Library.Sublist" "HOL-Library.AList" "HOL-Library.Code_Target_Nat" "HOL-Library.Code_Target_Int"
begin

text \<open>
  Shared vocabulary of the outctl development.

  \<^item> Python \<open>bytes\<close> are lists of \<^typ>\<open>char\<close> (a \<^typ>\<open>char\<close> is exactly one byte), Python
    \<open>str\<close> is a list of code points (\<^typ>\<open>nat\<close>), and \<open>lit\<close> turns an ASCII literal into the latter.
  \<^item> Python exceptions are values of \<open>exn\<close>, one constructor per exception class of the source, and a
    fallible function returns \<open>'a result\<close>, composed with \<open>bind_r\<close>.
  \<^item> \<open>stream_stage\<close> is the contract of an incremental byte or text processor (redactor, decoder,
    normalizer): feeding two chunks one after the other is feeding their concatenation.  What
    follows from it, that a stage cannot observe how its input was cut, is proved once here.
\<close>

section \<open>Types of the model\<close>

type_synonym bytes = "char list"
type_synonym pystr = "nat list"

definition lit :: "string \<Rightarrow> pystr" where
  "lit s = map of_char s"

lemma lit_simps [simp]: "lit [] = []" "lit (c # s) = of_char c # lit s"
  by (simp_all add: lit_def)

lemma length_lit [simp]: "length (lit s) = length s"
  by (simp add: lit_def)

lemma lit_eq_iff: "lit a = lit b \<longleftrightarrow> a = b"
  by (simp add: lit_def inj_map_eq_map inj_of_char)

lemma lit_ascii: "c \<in> set (lit s) \<Longrightarrow> c < 256"
  by (auto simp: lit_def)

datatype exn =
    ValueError string
  | TypeError string
  | AttributeError string
  | KeyError pystr
  | OSError
  | PolicyError string
  | PolicyNotFoundError pystr
  | PolicyCycleError pystr
  | PolicyCompileError string
  | PolicySourcePathError string
  | ExtensionResultTooLarge string
  | ExtensionProtocolError string
  | ExtensionDiscoveryError string
  | OverflowError string
  | SecretRegistryError string
  | ControlContractError string
  | CapabilityNegotiationError string
  | RolloutEvidenceError string
  | NativeEngineUnavailable string
  | KubernetesReadError string
  | ContractValidationError string
  | LaunchPlanError string
  | SessionFailed pystr exn
  | ObservationError string
  | AssertionError
  | CancelledError

type_synonym 'a result = "exn + 'a"

definition bind_r :: "'a result \<Rightarrow> ('a \<Rightarrow> 'b result) \<Rightarrow> 'b result" where
  "bind_r m f = (case m of Inl e \<Rightarrow> Inl e | Inr x \<Rightarrow> f x)"

definition check_r :: "bool \<Rightarrow> exn \<Rightarrow> unit result" where
  "check_r b e = (if b then Inr () else Inl e)"

lemma bind_r_simps [simp]: "bind_r (Inl e) f = Inl e" "bind_r (Inr x) f = f x"
  by (simp_all add: bind_r_def)

lemma bind_r_Inr_iff: "bind_r m f = Inr y \<longleftrightarrow> (\<exists>x. m = Inr x \<and> f x = Inr y)"
  by (cases m) auto

lemma bind_r_Inl_iff: "bind_r m f = Inl e \<longleftrightarrow> m = Inl e \<or> (\<exists>x. m = Inr x \<and> f x = Inl e)"
  by (cases m) auto

lemma check_r_Inr_iff [simp]: "check_r b e = Inr u \<longleftrightarrow> b"
  by (simp add: check_r_def)

lemma check_r_Inl_iff [simp]: "check_r b e = Inl e' \<longleftrightarrow> \<not> b \<and> e' = e"
  by (auto simp: check_r_def)

lemma check_r_True [simp]: "check_r True e = Inr ()"
  by (simp add: check_r_def)

lemma check_r_False [simp]: "check_r False e = Inl e"
  by (simp add: check_r_def)

lemmas result_iffs = bind_r_Inr_iff bind_r_Inl_iff

primrec mapM_r :: "('a \<Rightarrow> 'b result) \<Rightarrow> 'a list \<Rightarrow> 'b list result" where
  "mapM_r f [] = Inr []"
| "mapM_r f (x # xs) = bind_r (f x) (\<lambda>y. bind_r (mapM_r f xs) (\<lambda>ys. Inr (y # ys)))"

lemma mapM_r_length: "mapM_r f xs = Inr ys \<Longrightarrow> length ys = length xs"
  by (induction xs arbitrary: ys) (auto simp: bind_r_Inr_iff)

lemma mapM_r_all2: "mapM_r f xs = Inr ys \<longleftrightarrow> list_all2 (\<lambda>x y. f x = Inr y) xs ys"
  by (induction xs arbitrary: ys) (auto simp: bind_r_Inr_iff list_all2_Cons1)

text \<open>Which exceptions a computation may raise; proofs follow its structure by the rules below.\<close>

definition raises_only :: "(exn \<Rightarrow> bool) \<Rightarrow> 'a result \<Rightarrow> bool" where
  "raises_only V m \<longleftrightarrow> (case m of Inl e \<Rightarrow> V e | Inr _ \<Rightarrow> True)"

lemma raises_only_simps [simp]:
  "raises_only V (Inl e) \<longleftrightarrow> V e" "raises_only V (Inr x)" "raises_only V (check_r b e) \<longleftrightarrow> b \<or> V e"
  by (auto simp: raises_only_def check_r_def)

lemma raises_only_bind:
  "raises_only V m \<Longrightarrow> (\<And>x. m = Inr x \<Longrightarrow> raises_only V (f x)) \<Longrightarrow> raises_only V (bind_r m f)"
  by (cases m) (auto simp: raises_only_def)

lemma raises_only_mapM: "(\<And>x. x \<in> set xs \<Longrightarrow> raises_only V (f x)) \<Longrightarrow> raises_only V (mapM_r f xs)"
  by (induction xs) (auto intro!: raises_only_bind)

lemma raises_onlyD: "raises_only V m \<Longrightarrow> m = Inl e \<Longrightarrow> V e"
  by (simp add: raises_only_def)

section \<open>Incremental stages\<close>

text \<open>
  \<open>feed s xs\<close> consumes the chunk \<open>xs\<close> in state \<open>s\<close> and yields the new state and the output
  produced so far.  \<open>run_chunks\<close> is the driver loop of the source: one \<open>feed\<close> per chunk, the
  outputs in order.
\<close>

primrec run_chunks :: "('s \<Rightarrow> 'a list \<Rightarrow> 's \<times> 'b list) \<Rightarrow> 's \<Rightarrow> 'a list list \<Rightarrow> 's \<times> 'b list" where
  "run_chunks feed s [] = (s, [])"
| "run_chunks feed s (c # cs) =
     (let (s1, out1) = feed s c; (s2, out2) = run_chunks feed s1 cs in (s2, out1 @ out2))"

locale stream_stage =
  fixes feed :: "'s \<Rightarrow> 'a list \<Rightarrow> 's \<times> 'b list"
    and good :: "'s \<Rightarrow> bool"
  assumes feed_nil: "good s \<Longrightarrow> feed s [] = (s, [])"
    and feed_append: "good s \<Longrightarrow> feed s xs = (s1, o1) \<Longrightarrow> feed s1 ys = (s2, o2) \<Longrightarrow>
      feed s (xs @ ys) = (s2, o1 @ o2)"
    and good_feed: "good s \<Longrightarrow> feed s xs = (s1, o1) \<Longrightarrow> good s1"
begin

lemma run_chunks_concat: "good s \<Longrightarrow> run_chunks feed s cs = feed s (concat cs)"
proof (induction cs arbitrary: s)
  case Nil
  then show ?case by (simp add: feed_nil)
next
  case (Cons c cs)
  obtain s1 o1 where f1: "feed s c = (s1, o1)" by (cases "feed s c")
  obtain s2 o2 where f2: "feed s1 (concat cs) = (s2, o2)" by (cases "feed s1 (concat cs)")
  from Cons.prems f1 have "good s1" by (rule good_feed)
  then have "run_chunks feed s1 cs = (s2, o2)" using Cons.IH f2 by simp
  moreover have "feed s (c @ concat cs) = (s2, o1 @ o2)"
    using Cons.prems f1 f2 by (rule feed_append)
  ultimately show ?case by (simp add: f1)
qed

lemma run_chunks_good: "good s \<Longrightarrow> run_chunks feed s cs = (s1, o1) \<Longrightarrow> good s1"
  using run_chunks_concat good_feed by metis

corollary chunking_irrelevant:
  "good s \<Longrightarrow> concat cs = concat ds \<Longrightarrow> run_chunks feed s cs = run_chunks feed s ds"
  by (simp add: run_chunks_concat)

end

text \<open>Two stages in sequence are again a stage: the second consumes what the first emits.\<close>

definition seq_feed ::
  "('s \<Rightarrow> 'a list \<Rightarrow> 's \<times> 'b list) \<Rightarrow> ('t \<Rightarrow> 'b list \<Rightarrow> 't \<times> 'c list) \<Rightarrow>
   's \<times> 't \<Rightarrow> 'a list \<Rightarrow> ('s \<times> 't) \<times> 'c list" where
  "seq_feed f g st xs =
     (let (s1, o1) = f (fst st) xs; (t1, o2) = g (snd st) o1 in ((s1, t1), o2))"

locale stage_pipeline = first: stream_stage f goodf + second: stream_stage g goodg
  for f :: "'s \<Rightarrow> 'a list \<Rightarrow> 's \<times> 'b list" and goodf
    and g :: "'t \<Rightarrow> 'b list \<Rightarrow> 't \<times> 'c list" and goodg
begin

sublocale stream_stage "seq_feed f g" "\<lambda>st. goodf (fst st) \<and> goodg (snd st)"
proof (unfold_locales, goal_cases)
  case (1 s)
  then show ?case by (simp add: seq_feed_def first.feed_nil second.feed_nil)
next
  case (2 s xs s1 o1 ys s2 o2)
  obtain a1 b1 where f1: "f (fst s) xs = (a1, b1)" by (cases "f (fst s) xs")
  obtain c1 d1 where g1: "g (snd s) b1 = (c1, d1)" by (cases "g (snd s) b1")
  obtain a2 b2 where f2: "f a1 ys = (a2, b2)" by (cases "f a1 ys")
  obtain c2 d2 where g2: "g c1 b2 = (c2, d2)" by (cases "g c1 b2")
  from 2 f1 f2 have "f (fst s) (xs @ ys) = (a2, b1 @ b2)" by (blast intro: first.feed_append)
  moreover from 2 g1 g2 have "g (snd s) (b1 @ b2) = (c2, d1 @ d2)"
    by (blast intro: second.feed_append)
  ultimately show ?case using 2(2,3) f1 g1 f2 g2 by (auto simp: seq_feed_def)
next
  case (3 s xs s1 o1)
  then show ?case
    by (auto simp: seq_feed_def split: prod.splits dest: first.good_feed second.good_feed)
qed

end

section \<open>Lists\<close>

lemma prefix_drop_iff: "prefix v xs \<Longrightarrow> prefix v (xs @ ys)"
  by (simp add: prefix_append)

lemma prefix_append_long: "length v \<le> length xs \<Longrightarrow> prefix v (xs @ ys) \<longleftrightarrow> prefix v xs"
  by (auto simp: prefix_def append_eq_append_conv2)

lemma find_cong_set: "(\<And>x. x \<in> set xs \<Longrightarrow> P x = Q x) \<Longrightarrow> List.find P xs = List.find Q xs"
  by (rule find_cong) auto

lemma find_SomeD: "List.find P xs = Some x \<Longrightarrow> x \<in> set xs \<and> P x"
  by (auto simp: find_Some_iff)

lemma find_NoneD: "List.find P xs = None \<Longrightarrow> x \<in> set xs \<Longrightarrow> \<not> P x"
  by (auto simp: find_None_iff)

section \<open>Number formatting\<close>

fun digits_in :: "nat \<Rightarrow> nat \<Rightarrow> nat list" where
  "digits_in base n = (if base \<le> 1 \<or> n < base then [n] else digits_in base (n div base) @ [n mod base])"

declare digits_in.simps [simp del]

definition digit_char :: "nat \<Rightarrow> nat" where
  "digit_char d = (if d < 10 then 48 + d else 87 + d)"

definition decimal :: "nat \<Rightarrow> pystr" where
  "decimal n = map digit_char (digits_in 10 n)"

definition hex_padded :: "nat \<Rightarrow> nat \<Rightarrow> pystr" where
  "hex_padded width n =
     (let ds = map digit_char (digits_in 16 n) in replicate (width - length ds) 48 @ ds)"

lemma digits_in_bound: "1 < base \<Longrightarrow> d \<in> set (digits_in base n) \<Longrightarrow> d < base"
proof (induction base n rule: digits_in.induct)
  case (1 base n)
  then show ?case by (auto simp: digits_in.simps [of base n] split: if_splits)
qed

lemma digits_in_nonempty [simp]: "digits_in base n \<noteq> []"
  by (simp add: digits_in.simps [of base n])

lemma digits_in_value: "1 < base \<Longrightarrow> foldl (\<lambda>a d. base * a + d) 0 (digits_in base n) = n"
proof (induction base n rule: digits_in.induct)
  case (1 base n)
  then show ?case by (cases "n < base") (simp_all add: digits_in.simps [of base n])
qed

lemma digits_in_hd: "1 < base \<Longrightarrow> 0 < n \<Longrightarrow> hd (digits_in base n) \<noteq> 0"
proof (induction base n rule: digits_in.induct)
  case (1 base n)
  then show ?case by (cases "n < base") (simp_all add: digits_in.simps [of base n] div_greater_zero_iff)
qed

end
