(* ===== verification/Utf8.thy ===== *)
theory Utf8
  imports Prelude
begin

text \<open>
  The text codec of the projection pipeline: \<open>str.encode("utf-8")\<close> and the incremental decoder
  \<open>codecs.getincrementaldecoder("utf-8")(errors="replace")\<close>, with the replacement rule of
  CPython (one U+FFFD per maximal invalid prefix, one for a truncated sequence at the end of the
  stream).  Shown: the decoder is a \<open>stream_stage\<close>, so it cannot observe chunk boundaries; it
  produces scalar values only; decoding inverts encoding, and encoding inverts every decoding
  that contains no replacement character.  The two Unicode tables the source consults (general
  category and case folding) are at the end.
\<close>

section \<open>Encoding\<close>

definition is_scalar :: "nat \<Rightarrow> bool" where
  "is_scalar c \<longleftrightarrow> c < 0x110000 \<and> \<not> (0xD800 \<le> c \<and> c < 0xE000)"

lemma lit_scalar [simp]: "list_all is_scalar (lit s)"
  by (auto simp: list_all_iff is_scalar_def dest: lit_ascii)

definition utf8_encode_char :: "nat \<Rightarrow> bytes" where
  "utf8_encode_char c =
     (if c < 0x80 then [char_of c]
      else if c < 0x800 then [char_of (0xC0 + c div 64), char_of (0x80 + c mod 64)]
      else if c < 0x10000 then
        [char_of (0xE0 + c div 4096), char_of (0x80 + c div 64 mod 64), char_of (0x80 + c mod 64)]
      else
        [char_of (0xF0 + c div 262144), char_of (0x80 + c div 4096 mod 64),
         char_of (0x80 + c div 64 mod 64), char_of (0x80 + c mod 64)])"

definition utf8_encode :: "pystr \<Rightarrow> bytes" where
  "utf8_encode s = concat (map utf8_encode_char s)"

lemma utf8_encode_simps [simp]:
  "utf8_encode [] = []"
  "utf8_encode (c # s) = utf8_encode_char c @ utf8_encode s"
  "utf8_encode (s @ t) = utf8_encode s @ utf8_encode t"
  by (simp_all add: utf8_encode_def)

lemma utf8_encode_char_nonempty: "utf8_encode_char c \<noteq> []"
  by (simp add: utf8_encode_char_def)

section \<open>Decoding one item\<close>

datatype utf8_item = Char nat nat | Bad nat | Incomplete

definition is_cont :: "char \<Rightarrow> bool" where
  "is_cont b \<longleftrightarrow> 0x80 \<le> (of_char b :: nat) \<and> (of_char b :: nat) < 0xC0"

definition tail6 :: "char \<Rightarrow> nat" where
  "tail6 b = of_char b - 0x80"

text \<open>
  The next item at the head of a non-empty input: a code point and the number of bytes it takes,
  an invalid prefix and its length, or a proper prefix of a valid sequence.
\<close>

definition utf8_two :: "nat \<Rightarrow> bytes \<Rightarrow> utf8_item" where
  "utf8_two n rest =
     (case rest of [] \<Rightarrow> Incomplete
      | b1 # _ \<Rightarrow> if is_cont b1 then Char ((n - 0xC0) * 64 + tail6 b1) 2 else Bad 1)"

definition utf8_three :: "nat \<Rightarrow> bytes \<Rightarrow> utf8_item" where
  "utf8_three n rest =
     (case rest of [] \<Rightarrow> Incomplete
      | b1 # rest1 \<Rightarrow>
        if \<not> is_cont b1 \<or> (if (of_char b1 :: nat) < 0xA0 then n = 0xE0 else n = 0xED) then Bad 1
        else (case rest1 of [] \<Rightarrow> Incomplete
              | b2 # _ \<Rightarrow>
                if is_cont b2 then Char ((n - 0xE0) * 4096 + tail6 b1 * 64 + tail6 b2) 3 else Bad 2))"

definition utf8_four :: "nat \<Rightarrow> bytes \<Rightarrow> utf8_item" where
  "utf8_four n rest =
     (case rest of [] \<Rightarrow> Incomplete
      | b1 # rest1 \<Rightarrow>
        if \<not> is_cont b1 \<or> (if (of_char b1 :: nat) < 0x90 then n = 0xF0 else n = 0xF4) then Bad 1
        else (case rest1 of [] \<Rightarrow> Incomplete
              | b2 # rest2 \<Rightarrow>
                if \<not> is_cont b2 then Bad 2
                else (case rest2 of [] \<Rightarrow> Incomplete
                      | b3 # _ \<Rightarrow>
                        if is_cont b3
                        then Char ((n - 0xF0) * 262144 + tail6 b1 * 4096 + tail6 b2 * 64 + tail6 b3) 4
                        else Bad 3)))"

definition utf8_next :: "bytes \<Rightarrow> utf8_item" where
  "utf8_next bs =
     (case bs of [] \<Rightarrow> Incomplete
      | b # rest \<Rightarrow>
        let n = of_char b in
        if n < 0x80 then Char n 1
        else if n < 0xC2 then Bad 1
        else if n < 0xE0 then utf8_two n rest
        else if n < 0xF0 then utf8_three n rest
        else if n < 0xF5 then utf8_four n rest
        else Bad 1)"

lemmas utf8_next_defs = utf8_next_def utf8_two_def utf8_three_def utf8_four_def

lemma utf8_next_nil [simp]: "utf8_next [] = Incomplete"
  by (simp add: utf8_next_def)

lemma utf8_two_append: "utf8_two n r \<noteq> Incomplete \<Longrightarrow> utf8_two n (r @ ys) = utf8_two n r"
  by (cases r) (simp_all add: utf8_two_def)

lemma utf8_three_append: "utf8_three n r \<noteq> Incomplete \<Longrightarrow> utf8_three n (r @ ys) = utf8_three n r"
proof (cases r)
  case (Cons b1 r1)
  then show "utf8_three n r \<noteq> Incomplete \<Longrightarrow> utf8_three n (r @ ys) = utf8_three n r"
    by (cases r1) (auto simp: utf8_three_def split: if_splits)
qed (simp add: utf8_three_def)

lemma utf8_four_append: "utf8_four n r \<noteq> Incomplete \<Longrightarrow> utf8_four n (r @ ys) = utf8_four n r"
proof (cases r)
  case r: (Cons b1 r1)
  show "utf8_four n r \<noteq> Incomplete \<Longrightarrow> utf8_four n (r @ ys) = utf8_four n r"
  proof (cases r1)
    case (Cons b2 r2)
    then show "utf8_four n r \<noteq> Incomplete \<Longrightarrow> utf8_four n (r @ ys) = utf8_four n r"
      using r by (cases r2) (auto simp: utf8_four_def split: if_splits)
  qed (auto simp: r utf8_four_def split: if_splits)
qed (simp add: utf8_four_def)

lemmas utf8_tail_append = utf8_two_append utf8_three_append utf8_four_append

lemma utf8_next_append:
  "utf8_next bs \<noteq> Incomplete \<Longrightarrow> utf8_next (bs @ ys) = utf8_next bs"
  by (cases bs) (simp_all add: utf8_next_def Let_def utf8_tail_append split: if_splits)

lemma utf8_next_Char_len: "utf8_next bs = Char c n \<Longrightarrow> 0 < n \<and> n \<le> length bs"
  by (auto simp: utf8_next_defs Let_def split: list.splits if_splits)

lemma utf8_next_Bad_len: "utf8_next bs = Bad n \<Longrightarrow> 0 < n \<and> n \<le> length bs"
  by (auto simp: utf8_next_defs Let_def split: list.splits if_splits)

subsection \<open>An accepted sequence is the encoding of its code point\<close>

lemma cont_split:
  assumes "is_cont b"
  shows "char_of (0x80 + tail6 b) = b" and "tail6 b < 64"
  using assms by (auto simp: is_cont_def tail6_def)

lemma lead_split: "k \<le> (of_char b :: nat) \<Longrightarrow> char_of (k + (of_char b - k)) = b"
  by simp

lemma two_digits:
  assumes "y < 64"
  shows "(x * 64 + y) div 64 = (x :: nat)" and "(x * 64 + y) mod 64 = y"
  using assms by simp_all

lemma encode_two:
  assumes "2 \<le> x" "x < 32" "y < 64"
  shows "utf8_encode_char (x * 64 + y) = [char_of (0xC0 + x), char_of (0x80 + y)]"
  using assms by (simp add: utf8_encode_char_def two_digits)

lemma encode_three:
  assumes "x < 16" "y < 64" "z < 64" and "x = 0 \<Longrightarrow> 32 \<le> y"
  shows "utf8_encode_char (x * 4096 + y * 64 + z) =
    [char_of (0xE0 + x), char_of (0x80 + y), char_of (0x80 + z)]"
proof -
  let ?c = "x * 4096 + y * 64 + z"
  have c: "?c = (x * 64 + y) * 64 + z" by simp
  have d: "?c div 64 = x * 64 + y" "?c mod 64 = z"
    using two_digits [OF assms(3)] by (simp_all only: c)
  have "?c div 4096 = ?c div 64 div 64" by (simp add: div_mult2_eq [symmetric])
  then have e: "?c div 4096 = x" "?c div 64 mod 64 = y"
    using two_digits [OF assms(2)] by (simp_all only: d)
  have "0x800 \<le> ?c" using assms(4) by (cases "x = 0") auto
  moreover have "?c < 0x10000" using assms by simp
  ultimately show ?thesis by (simp add: utf8_encode_char_def d(2) e)
qed

lemma encode_four:
  assumes "w < 8" "x < 64" "y < 64" "z < 64" and "w = 0 \<Longrightarrow> 16 \<le> x"
  shows "utf8_encode_char (w * 262144 + x * 4096 + y * 64 + z) =
    [char_of (0xF0 + w), char_of (0x80 + x), char_of (0x80 + y), char_of (0x80 + z)]"
proof -
  let ?c = "w * 262144 + x * 4096 + y * 64 + z"
  have c: "?c = ((w * 64 + x) * 64 + y) * 64 + z" by simp
  have d: "?c div 64 = (w * 64 + x) * 64 + y" "?c mod 64 = z"
    using two_digits [OF assms(4)] by (simp_all only: c)
  have "?c div 4096 = ?c div 64 div 64" by (simp add: div_mult2_eq [symmetric])
  then have e: "?c div 4096 = w * 64 + x" "?c div 64 mod 64 = y"
    using two_digits [OF assms(3)] by (simp_all only: d)
  have "?c div 262144 = ?c div 4096 div 64" by (simp add: div_mult2_eq [symmetric])
  then have f: "?c div 262144 = w" "?c div 4096 mod 64 = x"
    using two_digits [OF assms(2)] by (simp_all only: e)
  have "0x10000 \<le> ?c" using assms(5) by (cases "w = 0") auto
  then show ?thesis by (simp add: utf8_encode_char_def d(2) e(2) f)
qed

lemma scalar_four:
  assumes "w \<le> 4" "x < 64" "y < 64" "z < 64" and "w = 0 \<Longrightarrow> 16 \<le> x" and "w = 4 \<Longrightarrow> x < 16"
  shows "is_scalar (w * 262144 + x * 4096 + y * 64 + z)"
proof -
  consider "w = 0" | "1 \<le> w" "w \<le> 3" | "w = 4" using assms(1) by linarith
  then show ?thesis using assms by cases (simp_all add: is_scalar_def)
qed

lemma utf8_two_sound:
  assumes "utf8_two (of_char b) rest = Char c n" "0xC2 \<le> (of_char b :: nat)" "(of_char b :: nat) < 0xE0"
  shows "is_scalar c \<and> take n (b # rest) = utf8_encode_char c"
proof -
  from assms(1) obtain b1 r where r: "rest = b1 # r" and k: "is_cont b1"
    and c: "c = (of_char b - 0xC0) * 64 + tail6 b1" and n: "n = 2"
    by (auto simp: utf8_two_def split: list.splits if_splits)
  let ?x = "of_char b - 0xC0 :: nat"
  have "utf8_encode_char c = [char_of (0xC0 + ?x), char_of (0x80 + tail6 b1)]"
    unfolding c using assms(2,3) cont_split(2) [OF k] by (intro encode_two) auto
  then have "utf8_encode_char c = [b, b1]" using assms(2) cont_split(1) [OF k] by simp
  moreover have "c < 0x800" using assms(2,3) cont_split(2) [OF k] by (simp add: c)
  ultimately show ?thesis by (simp add: r n is_scalar_def)
qed

lemma utf8_three_sound:
  assumes "utf8_three (of_char b) rest = Char c n" "0xE0 \<le> (of_char b :: nat)" "(of_char b :: nat) < 0xF0"
  shows "is_scalar c \<and> take n (b # rest) = utf8_encode_char c"
proof -
  from assms(1) obtain b1 b2 r where r: "rest = b1 # b2 # r" and k: "is_cont b1" "is_cont b2"
    and g: "0xA0 \<le> (of_char b1 :: nat) \<or> (of_char b :: nat) \<noteq> 0xE0"
      "(of_char b1 :: nat) < 0xA0 \<or> (of_char b :: nat) \<noteq> 0xED"
    and c: "c = (of_char b - 0xE0) * 4096 + tail6 b1 * 64 + tail6 b2" and n: "n = 3"
    by (auto simp: utf8_three_def split: list.splits if_splits)
  let ?x = "of_char b - 0xE0 :: nat"
  have t: "?x < 16" "?x = 0 \<Longrightarrow> 32 \<le> tail6 b1" "?x = 13 \<Longrightarrow> tail6 b1 < 32"
    using assms(2,3) g by (auto simp: tail6_def)
  have "utf8_encode_char c = [char_of (0xE0 + ?x), char_of (0x80 + tail6 b1), char_of (0x80 + tail6 b2)]"
    unfolding c using t cont_split(2) k by (intro encode_three) auto
  then have "utf8_encode_char c = [b, b1, b2]" using assms(2) cont_split(1) k by simp
  moreover consider "?x \<le> 12" | "?x = 13" | "14 \<le> ?x" by linarith
  then have "is_scalar c"
    using t cont_split(2) [OF k(1)] cont_split(2) [OF k(2)] by cases (simp_all add: is_scalar_def c)
  ultimately show ?thesis by (simp add: r n)
qed

lemma utf8_four_sound:
  assumes "utf8_four (of_char b) rest = Char c n" "0xF0 \<le> (of_char b :: nat)" "(of_char b :: nat) < 0xF5"
  shows "is_scalar c \<and> take n (b # rest) = utf8_encode_char c"
proof -
  from assms(1) obtain b1 b2 b3 r where r: "rest = b1 # b2 # b3 # r"
    and k: "is_cont b1" "is_cont b2" "is_cont b3"
    and g: "0x90 \<le> (of_char b1 :: nat) \<or> (of_char b :: nat) \<noteq> 0xF0"
      "(of_char b1 :: nat) < 0x90 \<or> (of_char b :: nat) \<noteq> 0xF4"
    and c: "c = (of_char b - 0xF0) * 262144 + tail6 b1 * 4096 + tail6 b2 * 64 + tail6 b3" and n: "n = 4"
    by (auto simp: utf8_four_def split: list.splits if_splits)
  let ?x = "of_char b - 0xF0 :: nat"
  have t: "?x \<le> 4" "?x = 0 \<Longrightarrow> 16 \<le> tail6 b1" "?x = 4 \<Longrightarrow> tail6 b1 < 16"
    using assms(2,3) g by (auto simp: tail6_def)
  have "utf8_encode_char c =
      [char_of (0xF0 + ?x), char_of (0x80 + tail6 b1), char_of (0x80 + tail6 b2), char_of (0x80 + tail6 b3)]"
    unfolding c using t cont_split(2) k by (intro encode_four) auto
  then have "utf8_encode_char c = [b, b1, b2, b3]" using assms(2) cont_split(1) k by simp
  moreover have "is_scalar c"
    unfolding c using t cont_split(2) k by (intro scalar_four) auto
  ultimately show ?thesis by (simp add: r n)
qed

lemma utf8_next_sound:
  assumes "utf8_next bs = Char c n"
  shows "is_scalar c" and "take n bs = utf8_encode_char c"
proof -
  from assms obtain b rest where bs: "bs = b # rest" by (cases bs) auto
  have "is_scalar c \<and> take n bs = utf8_encode_char c"
    using assms utf8_two_sound utf8_three_sound utf8_four_sound
    by (auto simp: utf8_next_def bs Let_def is_scalar_def utf8_encode_char_def split: if_splits)
  then show "is_scalar c" and "take n bs = utf8_encode_char c" by simp_all
qed

subsection \<open>Every scalar value decodes from its encoding\<close>

lemma of_char_lead:
  "a < 256 \<Longrightarrow> (of_char (char_of a) :: nat) = a"
  by simp

lemma cont_char: "x < 64 \<Longrightarrow> is_cont (char_of (0x80 + x)) \<and> tail6 (char_of (0x80 + x)) = x"
  by (simp add: is_cont_def tail6_def)

lemma utf8_next_two:
  assumes "2 \<le> x" "x < 32" "y < 64"
  shows "utf8_next (char_of (0xC0 + x) # char_of (0x80 + y) # r) = Char (x * 64 + y) 2"
  using assms cont_char [OF assms(3)] by (simp add: utf8_next_def utf8_two_def)

lemma utf8_next_three:
  assumes "x < 16" "y < 64" "z < 64" "x = 0 \<longrightarrow> 32 \<le> y" "x = 13 \<longrightarrow> y < 32"
  shows "utf8_next (char_of (0xE0 + x) # char_of (0x80 + y) # char_of (0x80 + z) # r) =
    Char (x * 4096 + y * 64 + z) 3"
  using assms cont_char [OF assms(2)] cont_char [OF assms(3)]
  by (auto simp: utf8_next_def utf8_three_def Let_def)

lemma utf8_next_four:
  assumes "w \<le> 4" "x < 64" "y < 64" "z < 64" "w = 0 \<longrightarrow> 16 \<le> x" "w = 4 \<longrightarrow> x < 16"
  shows "utf8_next (char_of (0xF0 + w) # char_of (0x80 + x) # char_of (0x80 + y) # char_of (0x80 + z) # r) =
    Char (w * 262144 + x * 4096 + y * 64 + z) 4"
  using assms cont_char [OF assms(2)] cont_char [OF assms(3)] cont_char [OF assms(4)]
  by (auto simp: utf8_next_def utf8_four_def Let_def)

lemma split_64:
  fixes c :: nat
  shows "c div 64 * 64 + c mod 64 = c"
    and "c div 4096 * 4096 + c div 64 mod 64 * 64 + c mod 64 = c"
    and "c div 262144 * 262144 + c div 4096 mod 64 * 4096 + c div 64 mod 64 * 64 + c mod 64 = c"
proof -
  show e1: "c div 64 * 64 + c mod 64 = c" for c :: nat by simp
  have d: "c div 4096 = c div 64 div 64" "c div 262144 = c div 64 div 64 div 64"
    by (simp_all add: div_mult2_eq [symmetric])
  show e2: "c div 4096 * 4096 + c div 64 mod 64 * 64 + c mod 64 = c"
    using e1 [of "c div 64"] e1 [of c] unfolding d by linarith
  show "c div 262144 * 262144 + c div 4096 mod 64 * 4096 + c div 64 mod 64 * 64 + c mod 64 = c"
    using e1 [of "c div 64 div 64"] e2 unfolding d by linarith
qed

lemma utf8_next_encode:
  assumes "is_scalar c"
  shows "utf8_next (utf8_encode_char c @ r) = Char c (length (utf8_encode_char c))"
proof -
  consider "c < 0x80" | "0x80 \<le> c" "c < 0x800" | "0x800 \<le> c" "c < 0x10000" | "0x10000 \<le> c"
    by linarith
  then show ?thesis
  proof cases
    case 1
    then show ?thesis by (simp add: utf8_encode_char_def utf8_next_def)
  next
    case 2
    then have "utf8_next (char_of (0xC0 + c div 64) # char_of (0x80 + c mod 64) # r) = Char c 2"
      using utf8_next_two [of "c div 64" "c mod 64" r] by (simp add: split_64 less_eq_div_iff_mult_less_eq)
    with 2 show ?thesis by (simp add: utf8_encode_char_def)
  next
    case 3
    have m: "c div 64 mod 64 < 64" "c mod 64 < 64" by simp_all
    have "c div 4096 = 0 \<longrightarrow> 32 \<le> c div 64 mod 64" using 3 m split_64(2) [of c] by linarith
    moreover have "c div 4096 = 13 \<longrightarrow> c div 64 mod 64 < 32"
      using assms m split_64(2) [of c] unfolding is_scalar_def by linarith
    ultimately show ?thesis
      using utf8_next_three [of "c div 4096" "c div 64 mod 64" "c mod 64" r] 3
      by (simp add: utf8_encode_char_def split_64)
  next
    case 4
    have m: "c div 4096 mod 64 < 64" "c div 64 mod 64 < 64" "c mod 64 < 64" by simp_all
    have "c div 262144 = 0 \<longrightarrow> 16 \<le> c div 4096 mod 64" using 4 m split_64(3) [of c] by linarith
    moreover have "c div 262144 = 4 \<longrightarrow> c div 4096 mod 64 < 16" "c div 262144 \<le> 4"
      using assms m split_64(3) [of c] unfolding is_scalar_def by linarith+
    ultimately show ?thesis
      using utf8_next_four [of "c div 262144" "c div 4096 mod 64" "c div 64 mod 64" "c mod 64" r] 4
      by (simp add: utf8_encode_char_def split_64)
  qed
qed

section \<open>The decoder\<close>

abbreviation replacement_char :: nat where "replacement_char \<equiv> 0xFFFD"

text \<open>Decodes as far as possible; the result is the text and the bytes kept for the next call.\<close>

function utf8_loop :: "bool \<Rightarrow> bytes \<Rightarrow> pystr \<times> bytes" where
  "utf8_loop final bs =
     (if bs = [] then ([], [])
      else case utf8_next bs of
        Char c n \<Rightarrow> map_prod (Cons c) id (utf8_loop final (drop n bs))
      | Bad n \<Rightarrow> map_prod (Cons replacement_char) id (utf8_loop final (drop n bs))
      | Incomplete \<Rightarrow> if final then ([replacement_char], []) else ([], bs))"
  by pat_completeness auto
termination
  by (relation "measure (\<lambda>(final, bs). length bs)") (auto dest: utf8_next_Char_len utf8_next_Bad_len)

declare utf8_loop.simps [simp del]

text \<open>\<open>decoder.decode(data, final=False)\<close> on a decoder whose buffer is \<open>buf\<close>.\<close>

definition decoder_feed :: "bytes \<Rightarrow> bytes \<Rightarrow> bytes \<times> pystr" where
  "decoder_feed buf data = (let (out, rest) = utf8_loop False (buf @ data) in (rest, out))"

definition decoder_final :: "bytes \<Rightarrow> bytes \<Rightarrow> pystr" where
  "decoder_final buf data = fst (utf8_loop True (buf @ data))"

definition decoder_ok :: "bytes \<Rightarrow> bool" where
  "decoder_ok buf \<longleftrightarrow> utf8_loop False buf = ([], buf)"

lemma utf8_loop_nil [simp]: "utf8_loop final [] = ([], [])"
  by (simp add: utf8_loop.simps)

lemma utf8_loop_append:
  "utf8_loop final (bs @ ys) =
     (let (out, rest) = utf8_loop False bs in map_prod ((@) out) id (utf8_loop final (rest @ ys)))"
proof (induction "False" bs rule: utf8_loop.induct)
  case (1 bs)
  show ?case
  proof (cases "bs = [] \<or> utf8_next bs = Incomplete")
    case True
    then have "utf8_loop False bs = ([], bs)" by (auto simp: utf8_loop.simps)
    then show ?thesis by (cases "utf8_loop final (bs @ ys)") simp
  next
    case False
    then have ne: "bs \<noteq> []" and nx: "utf8_next (bs @ ys) = utf8_next bs"
      by (auto simp: utf8_next_append)
    show ?thesis
    proof (cases "utf8_next bs")
      case (Char c n)
      then have d: "drop n (bs @ ys) = drop n bs @ ys" using utf8_next_Char_len by fastforce
      obtain o1 r1 where l1: "utf8_loop False (drop n bs) = (o1, r1)" by (rule prod.exhaust)
      obtain o2 r2 where l2: "utf8_loop final (r1 @ ys) = (o2, r2)" by (rule prod.exhaust)
      from 1(1) [OF ne Char] l1 l2 have "utf8_loop final (drop n bs @ ys) = (o1 @ o2, r2)" by simp
      with ne nx Char d l1 l2 show ?thesis
        by (simp add: utf8_loop.simps [of final "bs @ ys"] utf8_loop.simps [of False bs])
    next
      case (Bad n)
      then have d: "drop n (bs @ ys) = drop n bs @ ys" using utf8_next_Bad_len by fastforce
      obtain o1 r1 where l1: "utf8_loop False (drop n bs) = (o1, r1)" by (rule prod.exhaust)
      obtain o2 r2 where l2: "utf8_loop final (r1 @ ys) = (o2, r2)" by (rule prod.exhaust)
      from 1(2) [OF ne Bad] l1 l2 have "utf8_loop final (drop n bs @ ys) = (o1 @ o2, r2)" by simp
      with ne nx Bad d l1 l2 show ?thesis
        by (simp add: utf8_loop.simps [of final "bs @ ys"] utf8_loop.simps [of False bs])
    next
      case Incomplete
      with False show ?thesis by simp
    qed
  qed
qed

lemma decoder_ok_nil: "decoder_ok []"
  by (simp add: decoder_ok_def)

lemma utf8_loop_rest: "decoder_ok (snd (utf8_loop False bs))"
proof (induction "False" bs rule: utf8_loop.induct)
  case (1 bs)
  then show ?case
    by (cases "bs = []"; cases "utf8_next bs")
      (auto simp: utf8_loop.simps [of False bs] decoder_ok_def)
qed

interpretation decoder: stream_stage decoder_feed decoder_ok
proof (unfold_locales, goal_cases)
  case (1 s)
  then show ?case by (simp add: decoder_feed_def decoder_ok_def)
next
  case (2 s xs s1 o1 ys s2 o2)
  then show ?case
    using utf8_loop_append [of False "s @ xs" ys] by (auto simp: decoder_feed_def split: prod.splits)
next
  case (3 s xs s1 o1)
  then show ?case using utf8_loop_rest [of "s @ xs"] by (auto simp: decoder_feed_def split: prod.splits)
qed

text \<open>The text of a stream: what the decoder emits in total, however the stream is cut.\<close>

definition utf8_decode :: "bytes \<Rightarrow> pystr" where
  "utf8_decode bs = fst (utf8_loop True bs)"

lemma decoder_total:
  assumes "decoder_feed [] xs = (buf, out)"
  shows "out @ decoder_final buf ys = utf8_decode (xs @ ys)"
  using assms utf8_loop_append [of True xs ys]
  by (auto simp: decoder_feed_def decoder_final_def utf8_decode_def split: prod.splits)

lemma utf8_decode_unfold:
  "utf8_decode bs =
     (if bs = [] then []
      else case utf8_next bs of
        Char c n \<Rightarrow> c # utf8_decode (drop n bs)
      | Bad n \<Rightarrow> replacement_char # utf8_decode (drop n bs)
      | Incomplete \<Rightarrow> [replacement_char])"
  by (simp add: utf8_decode_def utf8_loop.simps [of True bs] split: utf8_item.splits)

lemma utf8_decode_scalar: "c \<in> set (utf8_decode bs) \<Longrightarrow> is_scalar c"
proof (induction "True" bs rule: utf8_loop.induct)
  case (1 bs)
  show ?case
    using 1 by (cases "utf8_next bs")
      (auto simp: utf8_decode_unfold [of bs] is_scalar_def [of replacement_char]
        dest: utf8_next_sound(1) split: if_splits)
qed

lemma utf8_encode_decode:
  "replacement_char \<notin> set (utf8_decode bs) \<Longrightarrow> utf8_encode (utf8_decode bs) = bs"
proof (induction "True" bs rule: utf8_loop.induct)
  case (1 bs)
  show ?case
  proof (cases "utf8_next bs")
    case (Char c n)
    have "bs \<noteq> []" using Char by auto
    with 1 Char have "utf8_encode (utf8_decode (drop n bs)) = drop n bs"
      by (simp add: utf8_decode_unfold [of bs])
    with \<open>bs \<noteq> []\<close> Char utf8_next_sound(2) [OF Char] show ?thesis
      by (simp add: utf8_decode_unfold [of bs]) (metis append_take_drop_id)
  qed (use 1 in \<open>auto simp: utf8_decode_unfold [of bs] split: if_splits\<close>)
qed

lemma utf8_decode_encode: "(\<And>c. c \<in> set s \<Longrightarrow> is_scalar c) \<Longrightarrow> utf8_decode (utf8_encode s) = s"
proof (induction s)
  case (Cons c s)
  then have "utf8_next (utf8_encode_char c @ utf8_encode s) = Char c (length (utf8_encode_char c))"
    by (simp add: utf8_next_encode)
  moreover have "utf8_encode_char c @ utf8_encode s \<noteq> []" by (simp add: utf8_encode_char_nonempty)
  ultimately show ?case
    using Cons by (simp add: utf8_decode_unfold [of "utf8_encode_char c @ utf8_encode s"])
qed (simp add: utf8_decode_unfold)

section \<open>Unicode tables\<close>

text \<open>
  \<open>unicodedata.category(c) in {"Cc", "Cf", "Cs"}\<close> for the Unicode 15 data of Python 3.12: the
  code point ranges of the control, format and surrogate categories.
\<close>

definition control_ranges :: "(nat \<times> nat) list" where
  "control_ranges =
     [(0x0, 0x1F), (0x7F, 0x9F), (0xAD, 0xAD), (0x600, 0x605), (0x61C, 0x61C), (0x6DD, 0x6DD),
      (0x70F, 0x70F), (0x890, 0x891), (0x8E2, 0x8E2), (0x180E, 0x180E), (0x200B, 0x200F),
      (0x202A, 0x202E), (0x2060, 0x2064), (0x2066, 0x206F), (0xD800, 0xDFFF), (0xFEFF, 0xFEFF),
      (0xFFF9, 0xFFFB), (0x110BD, 0x110BD), (0x110CD, 0x110CD), (0x13430, 0x1343F),
      (0x1BCA0, 0x1BCA3), (0x1D173, 0x1D17A), (0xE0001, 0xE0001), (0xE0020, 0xE007F)]"

definition control_category :: "nat \<Rightarrow> bool" where
  "control_category c \<longleftrightarrow> list_ex (\<lambda>(lo, hi). lo \<le> c \<and> c \<le> hi) control_ranges"

lemma control_range:
  "(lo, hi) \<in> set control_ranges \<Longrightarrow> lo \<le> c \<Longrightarrow> c \<le> hi \<Longrightarrow> control_category c"
  by (auto simp: control_category_def list_ex_iff)

lemma control_category_ascii:
  assumes "c < 0x80"
  shows "control_category c \<longleftrightarrow> c < 0x20 \<or> c = 0x7F"
proof
  assume "control_category c"
  then obtain lo hi where r: "(lo, hi) \<in> set control_ranges" "lo \<le> c" "c \<le> hi"
    by (auto simp: control_category_def list_ex_iff)
  have "list_all (\<lambda>(lo, hi). 0x80 \<le> lo \<or> hi < 0x20 \<or> lo = 0x7F) control_ranges"
    by (simp add: control_ranges_def)
  with r(1) have "0x80 \<le> lo \<or> hi < 0x20 \<or> lo = 0x7F" by (auto simp: list_all_iff)
  with r assms show "c < 0x20 \<or> c = 0x7F" by linarith
next
  assume "c < 0x20 \<or> c = 0x7F"
  moreover have "(0x0, 0x1F) \<in> set control_ranges" "(0x7F, 0x9F) \<in> set control_ranges"
    by (simp_all add: control_ranges_def)
  ultimately show "control_category c" using control_range by fastforce
qed

lemma not_control_scalar: "\<not> control_category c \<Longrightarrow> \<not> (0xD800 \<le> c \<and> c < 0xE000)"
proof -
  have "(0xD800, 0xDFFF) \<in> set control_ranges" by (simp add: control_ranges_def)
  then show "\<not> control_category c \<Longrightarrow> \<not> (0xD800 \<le> c \<and> c < 0xE000)"
    using control_range [of "0xD800" "0xDFFF" c] by linarith
qed

text \<open>
  \<open>str.casefold\<close> as far as ASCII is concerned: the upper-case letters and the code points whose
  full case folding contains an ASCII character.  Every other code point folds to non-ASCII
  characters only, which no ASCII search string can match, and is left unchanged here.
\<close>

definition casefold_table :: "(nat \<times> pystr) list" where
  "casefold_table =
     [(0xDF, [0x73, 0x73]), (0x130, [0x69, 0x307]), (0x149, [0x2BC, 0x6E]), (0x17F, [0x73]),
      (0x1F0, [0x6A, 0x30C]), (0x1E96, [0x68, 0x331]), (0x1E97, [0x74, 0x308]),
      (0x1E98, [0x77, 0x30A]), (0x1E99, [0x79, 0x30A]), (0x1E9A, [0x61, 0x2BE]),
      (0x1E9E, [0x73, 0x73]), (0x212A, [0x6B]), (0xFB00, [0x66, 0x66]), (0xFB01, [0x66, 0x69]),
      (0xFB02, [0x66, 0x6C]), (0xFB03, [0x66, 0x66, 0x69]), (0xFB04, [0x66, 0x66, 0x6C]),
      (0xFB05, [0x73, 0x74]), (0xFB06, [0x73, 0x74])]"

definition casefold_char :: "nat \<Rightarrow> pystr" where
  "casefold_char c =
     (if 0x41 \<le> c \<and> c \<le> 0x5A then [c + 32]
      else if c < 0x80 then [c]
      else case map_of casefold_table c of Some s \<Rightarrow> s | None \<Rightarrow> [c])"

definition casefold :: "pystr \<Rightarrow> pystr" where
  "casefold s = concat (map casefold_char s)"

end
