(* ===== verification/Collector.thy ===== *)
theory Collector
  imports Utf8
begin

text \<open>
  Hard limits and the collectors of \<open>projection.py\<close>: \<open>ProjectionLimits\<close>, \<open>_estimate_tokens\<close>,
  \<open>_line_count\<close>, \<open>_fits\<close>, \<open>_PrefixCollector\<close> (with \<open>finish\<close> and \<open>trim_to\<close>),
  \<open>_BoundedRecordBuffer\<close> and \<open>_FailureCollector\<close>, whose record extends that of the prefix
  collector as its class does.  Shown: the running counters agree with the counting functions;
  the prefix collector keeps everything exactly as long as the whole text fits; the record
  buffers never exceed their limits; and whatever either collector returns from \<open>finish\<close> fits
  the limits.
\<close>

section \<open>Limits\<close>

record projection_limits =
  max_bytes :: int
  max_lines :: int
  max_estimated_tokens :: int

definition mk_limits :: "int \<Rightarrow> int \<Rightarrow> int \<Rightarrow> projection_limits result" where
  "mk_limits b l t =
     (if b \<le> 0 then Inl (ValueError ''max_bytes must be positive'')
      else if l \<le> 0 then Inl (ValueError ''max_lines must be positive'')
      else if t \<le> 0 then Inl (ValueError ''max_estimated_tokens must be positive'')
      else Inr \<lparr>max_bytes = b, max_lines = l, max_estimated_tokens = t\<rparr>)"

definition limits_ok :: "projection_limits \<Rightarrow> bool" where
  "limits_ok L \<longleftrightarrow> 0 < max_bytes L \<and> 0 < max_lines L \<and> 0 < max_estimated_tokens L"

lemma mk_limits_ok: "mk_limits b l t = Inr L \<Longrightarrow> limits_ok L"
  by (auto simp: mk_limits_def limits_ok_def split: if_splits)

definition estimate_tokens :: "int \<Rightarrow> int" where
  "estimate_tokens n = (n + 3) div 4"

abbreviation newline :: nat where "newline \<equiv> 10"

fun line_step :: "int \<times> bool \<Rightarrow> nat \<Rightarrow> int \<times> bool" where
  "line_step (lines, counted) c =
     (if c = newline then (if counted then lines else lines + 1, False)
      else if counted then (lines, counted) else (lines + 1, True))"

definition line_count :: "pystr \<Rightarrow> int" where
  "line_count t = fst (foldl line_step (0, False) t)"

definition text_bytes :: "pystr \<Rightarrow> int" where
  "text_bytes t = int (length (utf8_encode t))"

definition over_limits :: "projection_limits \<Rightarrow> int \<Rightarrow> int \<Rightarrow> bool" where
  "over_limits L nbytes nlines \<longleftrightarrow>
     max_bytes L < nbytes \<or> max_lines L < nlines \<or> max_estimated_tokens L < estimate_tokens nbytes"

definition fits :: "pystr \<Rightarrow> projection_limits \<Rightarrow> bool" where
  "fits t L \<longleftrightarrow> text_bytes t \<le> max_bytes L \<and> line_count t \<le> max_lines L \<and>
     estimate_tokens (text_bytes t) \<le> max_estimated_tokens L"

lemma fits_over: "fits t L \<longleftrightarrow> \<not> over_limits L (text_bytes t) (line_count t)"
  by (auto simp: fits_def over_limits_def)

lemma text_bytes_simps [simp]:
  "text_bytes [] = 0" "text_bytes (s @ t) = text_bytes s + text_bytes t" "0 \<le> text_bytes s"
  by (simp_all add: text_bytes_def)

lemma text_bytes_Cons: "text_bytes (c # s) = text_bytes [c] + text_bytes s"
  by (simp add: text_bytes_def)

lemma line_step_mono: "fst lc \<le> fst (line_step lc c)"
  by (cases lc) auto

lemma line_steps_mono: "fst lc \<le> fst (foldl line_step lc t)"
  by (induction t arbitrary: lc) (auto intro: order_trans line_step_mono)

lemma line_count_prefix: "line_count s \<le> line_count (s @ t)"
  by (simp add: line_count_def line_steps_mono)

lemma line_steps_add:
  "foldl line_step (k + n, b) t = map_prod ((+) k) id (foldl line_step (n, b) t)"
  by (induction t arbitrary: n b) (auto simp: add.assoc)

lemma line_steps_le: "fst (foldl line_step (n, True) t) \<le> fst (foldl line_step (n, False) t)"
proof (induction t arbitrary: n)
  case (Cons c t)
  have "fst (foldl line_step (n, False) t) \<le> fst (foldl line_step (n + 1, False) t)"
    using line_steps_add [of 1 n False t] by (cases "foldl line_step (n, False) t") (simp add: add.commute)
  moreover have "fst (foldl line_step (n, True) t) \<le> fst (foldl line_step (n + 1, True) t)"
    using line_steps_add [of 1 n True t] by (cases "foldl line_step (n, True) t") (simp add: add.commute)
  ultimately show ?case using Cons by auto
qed simp

declare line_step.simps [simp del]

lemma line_count_append: "line_count (s @ t) \<le> line_count s + line_count t"
proof -
  obtain n b where nb: "foldl line_step (0, False) s = (n, b)" by (rule prod.exhaust)
  have "fst (foldl line_step (n, b) t) \<le> fst (foldl line_step (n, False) t)"
    using line_steps_le by (cases b) auto
  also have "\<dots> = n + line_count t"
    using line_steps_add [of n 0 False t]
    by (cases "foldl line_step (0, False) t") (simp add: line_count_def)
  finally show ?thesis by (simp add: line_count_def nb)
qed

lemma estimate_tokens_mono: "m \<le> n \<Longrightarrow> estimate_tokens m \<le> estimate_tokens n"
  by (simp add: estimate_tokens_def zdiv_mono1)

lemma fits_prefix: "fits (s @ t) L \<Longrightarrow> fits s L"
proof -
  assume f: "fits (s @ t) L"
  have "text_bytes s \<le> text_bytes (s @ t)" by simp
  moreover have "estimate_tokens (text_bytes s) \<le> estimate_tokens (text_bytes (s @ t))"
    by (rule estimate_tokens_mono) simp
  ultimately show "fits s L" using f line_count_prefix [of s t] by (simp only: fits_def) linarith
qed

section \<open>The prefix collector\<close>

record prefix_collector =
  pc_limits :: projection_limits
  characters :: pystr
  byte_count :: int
  pc_line_count :: int
  current_line_counted :: bool
  truncated :: bool

definition OMISSION_MARKER :: pystr where
  "OMISSION_MARKER = lit ''[... output omitted ...]''"

definition gap_markers :: "pystr list" where
  "gap_markers = [OMISSION_MARKER, lit ''[omitted]'', lit ''[...]'', [0x2026]]"

definition prefix_init :: "projection_limits \<Rightarrow> prefix_collector" where
  "prefix_init L = \<lparr>pc_limits = L, characters = [], byte_count = 0, pc_line_count = 0,
     current_line_counted = False, truncated = False\<rparr>"

fun add_chars :: "('a prefix_collector_scheme) \<Rightarrow> pystr \<Rightarrow> 'a prefix_collector_scheme" where
  "add_chars pc [] = pc"
| "add_chars pc (c # cs) =
     (let next_bytes = byte_count pc + text_bytes [c];
          (next_lines, next_counted) = line_step (pc_line_count pc, current_line_counted pc) c
      in if over_limits (pc_limits pc) next_bytes next_lines then pc\<lparr>truncated := True\<rparr>
         else add_chars (pc\<lparr>characters := characters pc @ [c], byte_count := next_bytes,
                            pc_line_count := next_lines, current_line_counted := next_counted\<rparr>) cs)"

definition prefix_add :: "'a prefix_collector_scheme \<Rightarrow> pystr \<Rightarrow> 'a prefix_collector_scheme" where
  "prefix_add pc text = (if truncated pc then pc else add_chars pc text)"

text \<open>The inner \<open>while True\<close> of \<open>finish\<close>: shorten the prefix until it fits with the marker.\<close>

definition with_marker :: "pystr \<Rightarrow> pystr \<Rightarrow> pystr" where
  "with_marker p marker =
     p @ (if p \<noteq> [] \<and> last p \<noteq> newline then [newline] else []) @ marker"

function shrink_to_marker :: "projection_limits \<Rightarrow> pystr \<Rightarrow> pystr \<Rightarrow> pystr option" where
  "shrink_to_marker L marker p =
     (if fits (with_marker p marker) L then Some (with_marker p marker)
      else if p = [] then None
      else shrink_to_marker L marker (butlast p))"
  by pat_completeness auto
termination
  by (relation "measure (\<lambda>(L, marker, p). length p)") auto

declare shrink_to_marker.simps [simp del]

fun try_markers :: "projection_limits \<Rightarrow> pystr list \<Rightarrow> pystr \<Rightarrow> pystr \<times> pystr option" where
  "try_markers L [] p = (lit ''.'', Some (lit ''.''))"
| "try_markers L (m # ms) p =
     (case shrink_to_marker L m p of Some cand \<Rightarrow> (cand, Some m) | None \<Rightarrow> try_markers L ms p)"

definition prefix_finish :: "'a prefix_collector_scheme \<Rightarrow> pystr \<times> pystr option" where
  "prefix_finish pc =
     (if \<not> truncated pc then (characters pc, None)
      else try_markers (pc_limits pc) gap_markers (characters pc))"

fun trim_chars :: "projection_limits \<Rightarrow> int \<Rightarrow> int \<times> bool \<Rightarrow> pystr \<Rightarrow> pystr \<times> int \<times> int \<times> bool" where
  "trim_chars L nbytes (nlines, counted) [] = ([], nbytes, nlines, counted)"
| "trim_chars L nbytes (nlines, counted) (c # cs) =
     (let next_bytes = nbytes + text_bytes [c];
          (next_lines, next_counted) = line_step (nlines, counted) c
      in if over_limits L next_bytes next_lines then ([], nbytes, nlines, counted)
         else let (kept, rest) = trim_chars L next_bytes (next_lines, next_counted) cs
              in (c # kept, rest))"

definition trim_to :: "projection_limits \<Rightarrow> 'a prefix_collector_scheme \<Rightarrow> 'a prefix_collector_scheme" where
  "trim_to L pc =
     (let (kept, nbytes, nlines, counted) = trim_chars L 0 (0, False) (characters pc)
      in pc\<lparr>characters := kept, byte_count := nbytes, pc_line_count := nlines,
            current_line_counted := counted\<rparr>)"

subsection \<open>The counters are those of the text kept, and the text kept fits\<close>

definition counters_agree :: "'a prefix_collector_scheme \<Rightarrow> bool" where
  "counters_agree pc \<longleftrightarrow> byte_count pc = text_bytes (characters pc) \<and>
     (pc_line_count pc, current_line_counted pc) = foldl line_step (0, False) (characters pc)"

definition prefix_inv :: "'a prefix_collector_scheme \<Rightarrow> bool" where
  "prefix_inv pc \<longleftrightarrow> counters_agree pc \<and> fits (characters pc) (pc_limits pc)"

lemma fits_Nil: "limits_ok L \<Longrightarrow> fits [] L"
  by (simp add: fits_def limits_ok_def line_count_def estimate_tokens_def)

lemma prefix_init_inv: "limits_ok L \<Longrightarrow> prefix_inv (prefix_init L)"
  by (simp add: prefix_inv_def prefix_init_def counters_agree_def fits_Nil)

lemma add_chars_limits [simp]: "pc_limits (add_chars pc t) = pc_limits pc"
  by (induction pc t rule: add_chars.induct) (auto simp: Let_def split: prod.splits)

lemma prefix_add_limits [simp]: "pc_limits (prefix_add pc t) = pc_limits pc"
  by (simp add: prefix_add_def)

lemma add_chars_step:
  assumes "counters_agree pc"
  shows "byte_count pc + text_bytes [c] = text_bytes (characters pc @ [c])"
    and "line_step (pc_line_count pc, current_line_counted pc) c =
      foldl line_step (0, False) (characters pc @ [c])"
  using assms by (simp_all add: counters_agree_def)

text \<open>
  Adding text keeps exactly the longest prefix that fits: nothing is dropped as long as the
  whole text fits, and otherwise the collector is marked truncated.
\<close>

lemma add_chars_spec:
  assumes "prefix_inv pc" "\<not> truncated pc"
  shows "prefix_inv (add_chars pc t) \<and>
    (truncated (add_chars pc t) \<longleftrightarrow> \<not> fits (characters pc @ t) (pc_limits pc)) \<and>
    prefix (characters (add_chars pc t)) (characters pc @ t) \<and>
    (\<not> truncated (add_chars pc t) \<longrightarrow> characters (add_chars pc t) = characters pc @ t)"
  using assms
proof (induction pc t rule: add_chars.induct)
  case (1 pc)
  then show ?case by (simp add: prefix_inv_def)
next
  case (2 pc c cs)
  obtain nl nc where st: "line_step (pc_line_count pc, current_line_counted pc) c = (nl, nc)"
    by (rule prod.exhaust)
  let ?nb = "byte_count pc + text_bytes [c]"
  have agree: "counters_agree pc" using "2.prems" by (simp add: prefix_inv_def)
  have nb: "?nb = text_bytes (characters pc @ [c])" by (rule add_chars_step(1) [OF agree])
  have fold: "foldl line_step (0, False) (characters pc @ [c]) = (nl, nc)"
    using add_chars_step(2) [OF agree] st by metis
  then have nl: "nl = line_count (characters pc @ [c])" by (simp add: line_count_def)
  show ?case
  proof (cases "over_limits (pc_limits pc) ?nb nl")
    case True
    then have "\<not> fits (characters pc @ [c]) (pc_limits pc)" unfolding fits_over nb nl by simp
    then have "\<not> fits ((characters pc @ [c]) @ cs) (pc_limits pc)" using fits_prefix by blast
    moreover have "add_chars pc (c # cs) = pc\<lparr>truncated := True\<rparr>" using True st by simp
    ultimately show ?thesis using "2.prems" by (simp add: prefix_inv_def counters_agree_def)
  next
    case False
    let ?pc = "pc\<lparr>characters := characters pc @ [c], byte_count := ?nb,
      pc_line_count := nl, current_line_counted := nc\<rparr>"
    have "prefix_inv ?pc"
      using False nb nl fold by (simp add: prefix_inv_def counters_agree_def fits_over)
    from "2.IH" [OF refl st [symmetric] refl _ this] False "2.prems"(2) st show ?thesis by simp
  qed
qed

lemma prefix_add_inv: "prefix_inv pc \<Longrightarrow> prefix_inv (prefix_add pc t)"
  using add_chars_spec by (auto simp: prefix_add_def)

lemma prefix_add_not_truncated:
  "prefix_inv pc \<Longrightarrow> \<not> truncated (prefix_add pc t) \<Longrightarrow>
     \<not> truncated pc \<and> characters (prefix_add pc t) = characters pc @ t"
  using add_chars_spec [of pc t] by (auto simp: prefix_add_def split: if_splits)

lemma prefix_add_truncated_iff:
  "prefix_inv pc \<Longrightarrow> \<not> truncated pc \<Longrightarrow>
     truncated (prefix_add pc t) \<longleftrightarrow> \<not> fits (characters pc @ t) (pc_limits pc)"
  using add_chars_spec [of pc t] by (simp add: prefix_add_def)

lemma prefix_add_truncated: "truncated pc \<Longrightarrow> truncated (prefix_add pc t)"
  by (simp add: prefix_add_def)

lemma prefix_add_prefix:
  "prefix_inv pc \<Longrightarrow> prefix (characters (prefix_add pc t)) (characters pc @ t)"
  using add_chars_spec [of pc t] by (simp add: prefix_add_def)

subsection \<open>What finish returns fits\<close>

lemma shrink_to_marker_fits: "shrink_to_marker L m p = Some cand \<Longrightarrow> fits cand L"
proof (induction L m p rule: shrink_to_marker.induct)
  case (1 L m p)
  then show ?case by (auto simp: shrink_to_marker.simps [of L m p] split: if_splits)
qed

lemma shrink_to_marker_shape:
  "shrink_to_marker L m p = Some cand \<Longrightarrow> \<exists>q. prefix q p \<and> cand = with_marker q m"
proof (induction L m p rule: shrink_to_marker.induct)
  case (1 L m p)
  show ?case
  proof (cases "fits (with_marker p m) L \<or> p = []")
    case True
    with "1.prems" have "cand = with_marker p m"
      by (auto simp: shrink_to_marker.simps [of L m p] split: if_splits)
    then show ?thesis by blast
  next
    case False
    with "1.prems" have "shrink_to_marker L m (butlast p) = Some cand"
      by (simp add: shrink_to_marker.simps [of L m p])
    with False "1.IH" obtain q where "prefix q (butlast p)" "cand = with_marker q m" by blast
    then show ?thesis using prefix_order.trans prefixeq_butlast by blast
  qed
qed

lemma full_stop_fits: "limits_ok L \<Longrightarrow> fits (lit ''.'') L"
  by (auto simp: fits_def limits_ok_def line_count_def text_bytes_def utf8_encode_char_def
      estimate_tokens_def line_step.simps)

lemma try_markers_fits: "limits_ok L \<Longrightarrow> fits (fst (try_markers L ms p)) L"
  by (induction ms) (auto simp: full_stop_fits shrink_to_marker_fits simp del: lit_simps split: option.splits)

lemma try_markers_Some: "snd (try_markers L ms p) \<noteq> None"
  by (induction ms) (auto split: option.splits)

lemma prefix_finish_fits:
  "(\<not> truncated pc \<Longrightarrow> prefix_inv pc) \<Longrightarrow> limits_ok (pc_limits pc) \<Longrightarrow>
     fits (fst (prefix_finish pc)) (pc_limits pc)"
  by (simp add: prefix_finish_def try_markers_fits prefix_inv_def)

lemma prefix_finish_None_iff: "snd (prefix_finish pc) = None \<longleftrightarrow> \<not> truncated pc"
  by (simp add: prefix_finish_def try_markers_Some)

section \<open>The bounded record buffer\<close>

record record_buffer =
  rb_limits :: projection_limits
  rolling :: bool
  records :: "(pystr \<times> int \<times> int) list"
  rb_byte_count :: int
  rb_line_count :: int

definition buffer_init :: "projection_limits \<Rightarrow> bool \<Rightarrow> record_buffer" where
  "buffer_init L roll = \<lparr>rb_limits = L, rolling = roll, records = [], rb_byte_count = 0, rb_line_count = 0\<rparr>"

definition buffer_full :: "projection_limits \<Rightarrow> int \<Rightarrow> int \<Rightarrow> bool" where
  "buffer_full L nbytes nlines \<longleftrightarrow> max_bytes L < nbytes \<or> max_lines L < nlines"

fun evict :: "projection_limits \<Rightarrow> int \<Rightarrow> int \<Rightarrow> (pystr \<times> int \<times> int) list \<Rightarrow> int \<Rightarrow> int \<Rightarrow>
    (pystr \<times> int \<times> int) list \<times> int \<times> int" where
  "evict L b l [] bc lc = ([], bc, lc)"
| "evict L b l ((t, rb, rl) # rs) bc lc =
     (if buffer_full L (bc + b) (lc + l) then evict L b l rs (bc - rb) (lc - rl)
      else ((t, rb, rl) # rs, bc, lc))"

definition buffer_add :: "record_buffer \<Rightarrow> pystr \<Rightarrow> record_buffer" where
  "buffer_add buf text =
     (let b = text_bytes text; l = line_count text in
      if buffer_full (rb_limits buf) b l then buf
      else let (rs, bc, lc) =
             (if rolling buf
              then evict (rb_limits buf) b l (records buf) (rb_byte_count buf) (rb_line_count buf)
              else (records buf, rb_byte_count buf, rb_line_count buf))
           in if buffer_full (rb_limits buf) (bc + b) (lc + l)
              then buf\<lparr>records := rs, rb_byte_count := bc, rb_line_count := lc\<rparr>
              else buf\<lparr>records := rs @ [(text, b, l)], rb_byte_count := bc + b, rb_line_count := lc + l\<rparr>)"

definition buffer_text :: "record_buffer \<Rightarrow> pystr" where
  "buffer_text buf = concat (map fst (records buf))"

definition sized :: "(pystr \<times> int \<times> int) list \<Rightarrow> int \<Rightarrow> int \<Rightarrow> bool" where
  "sized rs bc lc \<longleftrightarrow> (\<forall>(t, b, l) \<in> set rs. b = text_bytes t \<and> l = line_count t) \<and>
     bc = sum_list (map (\<lambda>(t, b, l). b) rs) \<and> lc = sum_list (map (\<lambda>(t, b, l). l) rs)"

definition buffer_inv :: "record_buffer \<Rightarrow> bool" where
  "buffer_inv buf \<longleftrightarrow> sized (records buf) (rb_byte_count buf) (rb_line_count buf) \<and>
     rb_byte_count buf \<le> max_bytes (rb_limits buf) \<and> rb_line_count buf \<le> max_lines (rb_limits buf)"

lemma line_count_nonneg: "0 \<le> line_count t"
  using line_steps_mono [of "(0, False)" t] by (simp add: line_count_def)

lemma evict_sized:
  assumes "sized rs bc lc" "evict L b l rs bc lc = (rs', bc', lc')" "\<not> buffer_full L b l"
  shows "sized rs' bc' lc' \<and> \<not> buffer_full L (bc' + b) (lc' + l) \<and> bc' \<le> bc \<and> lc' \<le> lc \<and>
    suffix rs' rs"
  using assms
proof (induction L b l rs bc lc rule: evict.induct)
  case (1 L b l bc lc)
  then show ?case by (auto simp: sized_def)
next
  case (2 L b l t rb rl rs bc lc)
  have nn: "0 \<le> rb" "0 \<le> rl" and sz: "sized rs (bc - rb) (lc - rl)"
    using "2.prems"(1) line_count_nonneg by (auto simp: sized_def)
  show ?case
  proof (cases "buffer_full L (bc + b) (lc + l)")
    case True
    with "2.prems" have "evict L b l rs (bc - rb) (lc - rl) = (rs', bc', lc')" by simp
    from "2.IH" [OF True sz this "2.prems"(3)] nn show ?thesis by (auto simp: suffix_Cons)
  next
    case False
    with "2.prems" show ?thesis by auto
  qed
qed

lemma sized_snoc:
  "sized rs bc lc \<Longrightarrow> sized (rs @ [(t, text_bytes t, line_count t)]) (bc + text_bytes t) (lc + line_count t)"
  by (auto simp: sized_def)

lemma buffer_add_frame [simp]:
  "rb_limits (buffer_add buf t) = rb_limits buf" "rolling (buffer_add buf t) = rolling buf"
  by (auto simp: buffer_add_def Let_def split: prod.splits)

lemma buffer_add_inv: assumes "buffer_inv buf" shows "buffer_inv (buffer_add buf t)"
proof (cases "buffer_full (rb_limits buf) (text_bytes t) (line_count t)")
  case True
  with assms show ?thesis by (simp add: buffer_add_def)
next
  case False
  let ?L = "rb_limits buf"
  obtain rs bc lc where e: "(if rolling buf
      then evict ?L (text_bytes t) (line_count t) (records buf) (rb_byte_count buf) (rb_line_count buf)
      else (records buf, rb_byte_count buf, rb_line_count buf)) = (rs, bc, lc)"
    by (rule prod_cases3)
  have "sized rs bc lc \<and> bc \<le> rb_byte_count buf \<and> lc \<le> rb_line_count buf"
  proof (cases "rolling buf")
    case True
    with e have "evict ?L (text_bytes t) (line_count t) (records buf) (rb_byte_count buf)
      (rb_line_count buf) = (rs, bc, lc)" by simp
    with evict_sized [OF _ this False] assms show ?thesis by (simp add: buffer_inv_def)
  next
    case False
    with e assms show ?thesis by (auto simp: buffer_inv_def)
  qed
  then have h: "sized rs bc lc" "bc \<le> max_bytes ?L" "lc \<le> max_lines ?L"
    using assms by (auto simp: buffer_inv_def)
  show ?thesis
    using e False h sized_snoc [OF h(1), of t]
    by (cases "buffer_full ?L (bc + text_bytes t) (lc + line_count t)")
      (simp_all add: buffer_add_def Let_def buffer_inv_def buffer_full_def)
qed

lemma sized_text:
  assumes "sized rs bc lc"
  shows "text_bytes (concat (map fst rs)) = bc \<and> line_count (concat (map fst rs)) \<le> lc"
  using assms
proof (induction rs arbitrary: bc lc)
  case Nil
  then show ?case by (simp add: sized_def line_count_def)
next
  case (Cons r rs)
  obtain t b l where r: "r = (t, b, l)" by (rule prod_cases3)
  from Cons.prems have h: "sized rs (bc - b) (lc - l)" "b = text_bytes t" "l = line_count t"
    by (auto simp: sized_def r)
  from Cons.IH [OF h(1)] h line_count_append [of t "concat (map fst rs)"] show ?case
    by (simp add: r)
qed

lemma buffer_text_bounds:
  assumes "buffer_inv buf"
  shows "text_bytes (buffer_text buf) \<le> max_bytes (rb_limits buf)"
    and "line_count (buffer_text buf) \<le> max_lines (rb_limits buf)"
  using assms sized_text [of "records buf"] by (force simp: buffer_inv_def buffer_text_def)+

lemma buffer_init_inv: "limits_ok L \<Longrightarrow> buffer_inv (buffer_init L roll)"
  by (simp add: buffer_inv_def buffer_init_def sized_def limits_ok_def)

text \<open>A rolling buffer keeps the most recent records: its content is a suffix of what was added.\<close>

lemma buffer_add_rolling:
  assumes "buffer_inv buf" "rolling buf" "\<not> buffer_full (rb_limits buf) (text_bytes t) (line_count t)"
  shows "suffix (records (buffer_add buf t)) (records buf @ [(t, text_bytes t, line_count t)]) \<and>
    last (records (buffer_add buf t)) = (t, text_bytes t, line_count t)"
proof -
  obtain rs bc lc where e: "evict (rb_limits buf) (text_bytes t) (line_count t) (records buf)
    (rb_byte_count buf) (rb_line_count buf) = (rs, bc, lc)" by (rule prod_cases3)
  from evict_sized [OF _ e assms(3)] assms(1)
  have "\<not> buffer_full (rb_limits buf) (bc + text_bytes t) (lc + line_count t)" "suffix rs (records buf)"
    by (simp_all add: buffer_inv_def)
  with e assms show ?thesis by (simp add: buffer_add_def Let_def)
qed

section \<open>The failure collector\<close>

record failure_collector = prefix_collector +
  selection_active :: bool
  failure_found :: bool
  before :: "pystr list"
  after_remaining :: nat
  anchors :: "record_buffer option"
  tail_buffer :: "record_buffer option"

definition FAILURE_CONTEXT_BEFORE :: nat where "FAILURE_CONTEXT_BEFORE = 3"
definition FAILURE_CONTEXT_AFTER :: nat where "FAILURE_CONTEXT_AFTER = 4"

definition failure_init :: "projection_limits \<Rightarrow> failure_collector" where
  "failure_init L = prefix_collector.extend (prefix_init L)
     (failure_collector.fields False False [] 0 None None)"

definition marker_line :: pystr where
  "marker_line = OMISSION_MARKER @ [newline]"

text \<open>
  The budget arithmetic of \<open>_activate_selection\<close>: the limits of the head, anchor and tail
  sections, or nothing when the limits leave no room for all three.
\<close>

definition section_limits :: "int \<Rightarrow> int \<Rightarrow> projection_limits" where
  "section_limits nbytes nlines =
     \<lparr>max_bytes = nbytes, max_lines = nlines, max_estimated_tokens = max 1 (nbytes div 4)\<rparr>"

definition sections_of :: "int \<Rightarrow> int \<Rightarrow> int \<Rightarrow> int \<Rightarrow> int \<Rightarrow> int \<Rightarrow>
    (projection_limits \<times> projection_limits \<times> projection_limits) option" where
  "sections_of head_bytes anchor_bytes tail_bytes head_lines anchor_lines tail_lines =
     (if head_bytes \<le> 0 \<or> anchor_bytes \<le> 0 \<or> tail_bytes \<le> 0 \<or>
         head_lines \<le> 0 \<or> anchor_lines \<le> 0 \<or> tail_lines \<le> 0
      then None
      else Some (section_limits head_bytes head_lines, section_limits anchor_bytes anchor_lines,
                 section_limits tail_bytes tail_lines))"

definition selection_budget ::
  "projection_limits \<Rightarrow> (projection_limits \<times> projection_limits \<times> projection_limits) option" where
  "selection_budget L =
     (let marker_bytes = text_bytes marker_line * 2;
          marker_lines = 2;
          byte_budget = min (max_bytes L) (max_estimated_tokens L * 4) - marker_bytes;
          line_budget = max_lines L - marker_lines
      in if byte_budget < 3 \<or> line_budget < 3 then None
         else let head_bytes = byte_budget div 4;
                  anchor_bytes = byte_budget div 2;
                  tail_bytes = byte_budget - head_bytes - anchor_bytes;
                  head_lines = line_budget div 4;
                  anchor_lines = line_budget div 2;
                  tail_lines = line_budget - head_lines - anchor_lines
              in sections_of head_bytes anchor_bytes tail_bytes head_lines anchor_lines tail_lines)"

definition activate_selection :: "failure_collector \<Rightarrow> failure_collector" where
  "activate_selection fc =
     (case selection_budget (pc_limits fc) of
        None \<Rightarrow> fc
      | Some (hl, al, tl') \<Rightarrow>
          (trim_to hl fc)\<lparr>anchors := Some (buffer_init al False),
                         tail_buffer := Some (buffer_init tl' True), selection_active := True\<rparr>)"

text \<open>
  The part of \<open>add\<close> after the selection is active; \<open>anc\<close> and \<open>tl\<close> are the two buffers whose
  presence the source asserts.
\<close>

definition select_record ::
  "failure_collector \<Rightarrow> record_buffer \<Rightarrow> record_buffer \<Rightarrow> pystr \<Rightarrow> bool \<Rightarrow> failure_collector" where
  "select_record fc anc tb text failure_anchor =
     (let fc = fc\<lparr>tail_buffer := Some (buffer_add tb text)\<rparr>;
          fc = (if failure_anchor then
                  let anc = (if after_remaining fc = 0 then foldl buffer_add anc (before fc) else anc)
                  in fc\<lparr>anchors := Some (buffer_add anc text), failure_found := True,
                        after_remaining := FAILURE_CONTEXT_AFTER\<rparr>
                else if after_remaining fc \<noteq> 0 then
                  fc\<lparr>anchors := Some (buffer_add anc text), after_remaining := after_remaining fc - 1\<rparr>
                else fc);
          bf = before fc @ [text]
      in fc\<lparr>before := (if FAILURE_CONTEXT_BEFORE < length bf then tl bf else bf)\<rparr>)"

definition failure_add :: "failure_collector \<Rightarrow> pystr \<Rightarrow> bool \<Rightarrow> failure_collector" where
  "failure_add fc text failure_anchor =
     (let was_truncated = truncated fc;
          fc = prefix_add fc text;
          fc = (if \<not> was_truncated \<and> truncated fc then activate_selection fc else fc)
      in if \<not> selection_active fc then fc
         else case (anchors fc, tail_buffer fc) of
             (Some anc, Some tb) \<Rightarrow> select_record fc anc tb text failure_anchor
           | _ \<Rightarrow> fc)"

definition close_section :: "pystr \<Rightarrow> pystr" where
  "close_section s = (if s = [] then [] else if last s = newline then s else s @ [newline])"

definition selected_text :: "pystr \<Rightarrow> pystr \<Rightarrow> pystr \<Rightarrow> pystr" where
  "selected_text hd_text anchor_text tail_text =
     close_section hd_text @ marker_line @ close_section anchor_text @ marker_line @
     close_section tail_text"

definition failure_finish :: "failure_collector \<Rightarrow> pystr \<times> pystr option" where
  "failure_finish fc =
     (if \<not> selection_active fc \<or> \<not> failure_found fc then prefix_finish fc
      else case (anchors fc, tail_buffer fc) of
          (Some anc, Some tb) \<Rightarrow>
            let text = selected_text (characters fc) (buffer_text anc) (buffer_text tb)
            in if fits text (pc_limits fc) then (text, Some OMISSION_MARKER)
               else prefix_finish (prefix_add (prefix_init (pc_limits fc)) text)
        | _ \<Rightarrow> prefix_finish fc)"

subsection \<open>Invariant and what finish returns\<close>

definition failure_inv :: "failure_collector \<Rightarrow> bool" where
  "failure_inv fc \<longleftrightarrow> (\<not> truncated fc \<longrightarrow> prefix_inv fc) \<and>
     (selection_active fc \<longrightarrow> truncated fc \<and>
       (\<exists>anc tb. anchors fc = Some anc \<and> tail_buffer fc = Some tb \<and> buffer_inv anc \<and> buffer_inv tb))"

lemma failure_init_simps [simp]:
  "pc_limits (failure_init L) = L" "characters (failure_init L) = []" "byte_count (failure_init L) = 0"
  "pc_line_count (failure_init L) = 0" "\<not> current_line_counted (failure_init L)"
  "\<not> truncated (failure_init L)" "\<not> selection_active (failure_init L)"
  by (simp_all add: failure_init_def prefix_init_def prefix_collector.defs failure_collector.defs)

lemma failure_init_inv: "limits_ok L \<Longrightarrow> failure_inv (failure_init L)"
  by (simp add: failure_inv_def prefix_inv_def counters_agree_def fits_Nil)

lemma add_chars_frame [simp]:
  "selection_active (add_chars fc t) = selection_active fc" "anchors (add_chars fc t) = anchors fc"
  "tail_buffer (add_chars fc t) = tail_buffer fc" "before (add_chars fc t) = before fc"
  "failure_found (add_chars fc t) = failure_found fc"
  by (induction fc t rule: add_chars.induct) (simp_all add: Let_def split: prod.splits)

lemma prefix_add_frame [simp]:
  "selection_active (prefix_add fc t) = selection_active fc" "anchors (prefix_add fc t) = anchors fc"
  "tail_buffer (prefix_add fc t) = tail_buffer fc" "failure_found (prefix_add fc t) = failure_found fc"
  by (simp_all add: prefix_add_def)

lemma trim_to_frame [simp]:
  "pc_limits (trim_to L fc) = pc_limits fc" "truncated (trim_to L fc) = truncated fc"
  by (simp_all add: trim_to_def split: prod.splits)

lemma activate_selection_frame [simp]:
  "pc_limits (activate_selection fc) = pc_limits fc" "truncated (activate_selection fc) = truncated fc"
  by (simp_all add: activate_selection_def split: option.splits)

text \<open>The three sections and the two marker lines share the budget; each section has some of it.\<close>

lemma sections_of_ok:
  assumes "sections_of hb ab tb hl al tl' = Some (H, A, T)"
  shows "limits_ok H \<and> limits_ok A \<and> limits_ok T \<and>
    max_bytes H + max_bytes A + max_bytes T = hb + ab + tb \<and>
    max_lines H + max_lines A + max_lines T = hl + al + tl'"
proof -
  have "0 < hb \<and> 0 < ab \<and> 0 < tb \<and> 0 < hl \<and> 0 < al \<and> 0 < tl'"
    and "H = section_limits hb hl" "A = section_limits ab al" "T = section_limits tb tl'"
    using assms by (simp_all add: sections_of_def split: if_splits)
  then show ?thesis by (simp add: limits_ok_def section_limits_def less_max_iff_disj)
qed

lemma selection_budget_ok:
  assumes "selection_budget L = Some (H, A, T)"
  shows "limits_ok H \<and> limits_ok A \<and> limits_ok T"
    and "max_bytes H + max_bytes A + max_bytes T + 2 * text_bytes marker_line =
      min (max_bytes L) (max_estimated_tokens L * 4)"
    and "max_lines H + max_lines A + max_lines T + 2 = max_lines L"
proof -
  let ?b = "min (max_bytes L) (max_estimated_tokens L * 4) - text_bytes marker_line * 2"
  let ?l = "max_lines L - 2"
  have "sections_of (?b div 4) (?b div 2) (?b - ?b div 4 - ?b div 2)
      (?l div 4) (?l div 2) (?l - ?l div 4 - ?l div 2) = Some (H, A, T)"
    using assms unfolding selection_budget_def Let_def by (metis option.distinct(1))
  from sections_of_ok [OF this]
  show "limits_ok H \<and> limits_ok A \<and> limits_ok T"
    and "max_bytes H + max_bytes A + max_bytes T + 2 * text_bytes marker_line =
      min (max_bytes L) (max_estimated_tokens L * 4)"
    and "max_lines H + max_lines A + max_lines T + 2 = max_lines L"
    by linarith+
qed

lemma activate_selection_inv:
  assumes "truncated fc" "failure_inv fc"
  shows "failure_inv (activate_selection fc)"
proof (cases "selection_budget (pc_limits fc)")
  case None
  with assms show ?thesis by (simp add: activate_selection_def)
next
  case (Some b)
  obtain hl al tl' where b: "b = (hl, al, tl')" by (rule prod_cases3)
  from selection_budget_ok [OF Some [unfolded b]] assms(1) show ?thesis
    by (simp add: activate_selection_def Some b failure_inv_def buffer_init_inv)
qed

lemma foldl_buffer_inv: "buffer_inv buf \<Longrightarrow> buffer_inv (foldl buffer_add buf ts)"
  by (induction ts arbitrary: buf) (auto intro: buffer_add_inv)

lemma select_record_frame [simp]:
  "pc_limits (select_record fc anc tb t a) = pc_limits fc"
  "truncated (select_record fc anc tb t a) = truncated fc"
  "characters (select_record fc anc tb t a) = characters fc"
  "selection_active (select_record fc anc tb t a) = selection_active fc"
  by (simp_all add: select_record_def Let_def)

lemma select_record_inv:
  assumes "failure_inv fc" "selection_active fc" "anchors fc = Some anc" "tail_buffer fc = Some tb"
  shows "failure_inv (select_record fc anc tb t a)"
proof -
  have "buffer_inv anc" "buffer_inv tb" "truncated fc" using assms by (auto simp: failure_inv_def)
  with assms show ?thesis
    by (auto simp: failure_inv_def select_record_def Let_def intro: buffer_add_inv foldl_buffer_inv)
qed

lemma failure_add_limits [simp]: "pc_limits (failure_add fc t a) = pc_limits fc"
  by (simp add: failure_add_def Let_def split: option.splits)

lemma prefix_add_failure_inv:
  assumes "failure_inv fc" shows "failure_inv (prefix_add fc t)"
proof (cases "truncated fc")
  case True
  with assms show ?thesis by (simp add: prefix_add_def)
next
  case False
  with assms prefix_add_inv [of fc t] show ?thesis by (simp add: failure_inv_def)
qed

lemma failure_add_inv: assumes "failure_inv fc" shows "failure_inv (failure_add fc t a)"
proof -
  let ?fc = "prefix_add fc t"
  let ?fc' = "if \<not> truncated fc \<and> truncated ?fc then activate_selection ?fc else ?fc"
  have "failure_inv ?fc" using assms by (rule prefix_add_failure_inv)
  then have "failure_inv ?fc'" by (simp add: activate_selection_inv)
  then show ?thesis
    unfolding failure_add_def Let_def
    by (auto simp: select_record_inv split: option.splits)
qed

lemma failure_add_truncated_iff:
  "truncated (failure_add fc t a) \<longleftrightarrow> truncated (prefix_add fc t)"
  by (simp add: failure_add_def Let_def split: option.splits)

lemma failure_add_exact:
  assumes "failure_inv fc" "\<not> truncated (failure_add fc t a)"
  shows "\<not> truncated fc \<and> characters (failure_add fc t a) = characters fc @ t"
proof -
  have nt: "\<not> truncated (prefix_add fc t)" using assms(2) by (simp add: failure_add_truncated_iff)
  then have "\<not> truncated fc" using prefix_add_truncated by blast
  then have "prefix_inv fc" "\<not> selection_active fc" using assms(1) by (auto simp: failure_inv_def)
  with prefix_add_not_truncated [OF _ nt] nt show ?thesis by (simp add: failure_add_def)
qed

lemma failure_add_keeps_truncated: "truncated fc \<Longrightarrow> truncated (failure_add fc t a)"
  by (simp add: failure_add_truncated_iff prefix_add_truncated)

lemma failure_finish_fits:
  assumes "failure_inv fc" "limits_ok (pc_limits fc)"
  shows "fits (fst (failure_finish fc)) (pc_limits fc)"
proof -
  have base: "fits (fst (prefix_finish fc)) (pc_limits fc)"
    using assms by (intro prefix_finish_fits) (auto simp: failure_inv_def)
  have "prefix_inv (prefix_add (prefix_init (pc_limits fc)) t)" for t
    using assms(2) by (intro prefix_add_inv prefix_init_inv)
  then have "fits (fst (prefix_finish (prefix_add (prefix_init (pc_limits fc)) t))) (pc_limits fc)" for t
    using prefix_finish_fits [of "prefix_add (prefix_init (pc_limits fc)) t"] assms(2)
    by (simp add: prefix_init_def)
  with base show ?thesis
    by (simp add: failure_finish_def Let_def split: option.splits)
qed

lemma failure_finish_None_iff:
  assumes "failure_inv fc" "limits_ok (pc_limits fc)"
  shows "snd (failure_finish fc) = None \<longleftrightarrow> \<not> truncated fc"
proof -
  have "truncated (prefix_add (prefix_init (pc_limits fc)) t)" if "\<not> fits t (pc_limits fc)" for t
    using prefix_add_truncated_iff [OF prefix_init_inv [OF assms(2)], of t] that
    by (simp add: prefix_init_def)
  then have "\<exists>y. snd (prefix_finish (prefix_add (prefix_init (pc_limits fc)) t)) = Some y"
    if "\<not> fits t (pc_limits fc)" for t
    using that prefix_finish_None_iff by (metis not_Some_eq)
  with assms(1) show ?thesis
    by (auto simp: failure_finish_def Let_def prefix_finish_None_iff failure_inv_def split: option.splits)
qed

lemma failure_finish_exact: "\<not> truncated fc \<Longrightarrow> failure_inv fc \<Longrightarrow> fst (failure_finish fc) = characters fc"
  by (auto simp: failure_finish_def prefix_finish_def failure_inv_def)

end
