(* ===== verification/Normalizer.thy ===== *)
theory Normalizer
  imports Collector Sha256
begin

text \<open>
  Display normalisation of \<open>projection.py\<close>: control neutralisation, failure anchors,
  \<open>_LogicalRecord\<close> and \<open>_ProjectionNormalizer\<close>.  The normalizer hands its records to a
  collector; that collaborator is the type parameter \<open>'c\<close> with its \<open>add\<close> method as an argument,
  and the locales \<open>record_sink\<close> and \<open>exact_sink\<close> state what the normalizer may rely on.  Shown
  for every such sink: only text free of control characters reaches it, and as long as no loss
  flag is raised what reached it, together with what is pending, is exactly the input.  Both
  locales are interpreted on \<open>_FailureCollector\<close>.
\<close>

section \<open>Control neutralisation\<close>

definition neutralize_character :: "nat \<Rightarrow> pystr \<times> bool" where
  "neutralize_character c =
     (if c = 10 \<or> c = 13 then ([c], False)
      else if c = 9 then (lit [CHR 0x5C, CHR ''t''], True)
      else if c < 0x20 \<or> c = 0x7F then (lit [CHR 0x5C, CHR ''x''] @ hex_padded 2 c, True)
      else if control_category c
        then (lit [CHR 0x5C, CHR ''u''] @ hex_padded (if c \<le> 0xFFFF then 4 else 8) c, True)
      else ([c], False))"

fun neutralize_controls :: "pystr \<Rightarrow> pystr \<times> bool" where
  "neutralize_controls [] = ([], False)"
| "neutralize_controls (c # s) =
     (let (out, changed) = neutralize_controls s in
      if c = 10 then (c # out, changed)
      else if c = 13 then (lit [CHR 0x5C, CHR ''r''] @ out, True)
      else if c = 9 then (lit [CHR 0x5C, CHR ''t''] @ out, True)
      else if c < 0x20 \<or> c = 0x7F then (lit [CHR 0x5C, CHR ''x''] @ hex_padded 2 c @ out, True)
      else if control_category c
        then (lit [CHR 0x5C, CHR ''u''] @ hex_padded (if c \<le> 0xFFFF then 4 else 8) c @ out, True)
      else (c # out, changed))"

definition display_ok :: "pystr \<Rightarrow> bool" where
  "display_ok t \<longleftrightarrow> (\<forall>c \<in> set t. c = newline \<or> \<not> control_category c)"

lemma display_ok_simps [simp]:
  "display_ok []" "display_ok (s @ t) \<longleftrightarrow> display_ok s \<and> display_ok t"
  "display_ok (c # t) \<longleftrightarrow> (c = newline \<or> \<not> control_category c) \<and> display_ok t"
  "display_ok (concat ss) \<longleftrightarrow> (\<forall>s \<in> set ss. display_ok s)"
  by (auto simp: display_ok_def)

lemma display_ok_prefix: "prefix s t \<Longrightarrow> display_ok t \<Longrightarrow> display_ok s"
  by (auto simp: prefix_def)

lemma printable_ok: "0x20 \<le> c \<Longrightarrow> c < 0x7F \<Longrightarrow> \<not> control_category c"
  by (subst control_category_ascii) auto

lemma display_ok_printable: "(\<And>c. c \<in> set t \<Longrightarrow> 0x20 \<le> c \<and> c < 0x7F) \<Longrightarrow> display_ok t"
  using printable_ok by (force simp: display_ok_def)

lemma digit_char_printable: "d < 16 \<Longrightarrow> 0x20 \<le> digit_char d \<and> digit_char d < 0x7F"
  by (auto simp: digit_char_def)

lemma display_ok_decimal [simp]: "display_ok (decimal n)"
  using digits_in_bound [of 10 _ n] digit_char_printable
  by (intro display_ok_printable) (fastforce simp: decimal_def)

lemma display_ok_hex [simp]: "display_ok (hex_padded w n)"
proof (rule display_ok_printable)
  fix c assume "c \<in> set (hex_padded w n)"
  then have "c = 48 \<or> c \<in> digit_char ` set (digits_in 16 n)"
    by (auto simp: hex_padded_def Let_def split: if_splits)
  then show "0x20 \<le> c \<and> c < 0x7F" using digits_in_bound [of 16 _ n] digit_char_printable by auto
qed

lemma display_ok_lit: "list_all (\<lambda>c. 0x20 \<le> (of_char c :: nat) \<and> (of_char c :: nat) < 0x7F) s \<Longrightarrow>
  display_ok (lit s)"
  by (rule display_ok_printable) (auto simp: lit_def list_all_iff)

lemma neutralize_character_ok:
  "c \<noteq> 13 \<Longrightarrow> display_ok (fst (neutralize_character c))"
  by (auto simp: neutralize_character_def printable_ok)

lemma neutralize_character_id:
  "\<not> snd (neutralize_character c) \<Longrightarrow> fst (neutralize_character c) = [c]"
  by (auto simp: neutralize_character_def split: if_splits)

lemma neutralize_controls_ok: "display_ok (fst (neutralize_controls s))"
  by (induction s) (auto simp: printable_ok Let_def split: prod.splits)

lemma neutralize_controls_id:
  "\<not> snd (neutralize_controls s) \<Longrightarrow> fst (neutralize_controls s) = s"
  by (induction s) (auto simp: Let_def split: prod.splits if_splits)

definition is_failure_anchor :: "pystr \<Rightarrow> bool" where
  "is_failure_anchor text \<longleftrightarrow>
     list_ex (\<lambda>anchor. sublist (lit anchor) (casefold text))
       [''traceback'', ''exception'', ''error'', ''failure'', ''failed'', ''fatal'', ''assertionerror'']"

section \<open>Logical records\<close>

definition LINE_CLIPPED_MARKER :: pystr where
  "LINE_CLIPPED_MARKER = lit '' [... line clipped ...]''"

definition MAX_REPRESENTATIVE_BYTES :: int where
  "MAX_REPRESENTATIVE_BYTES = 4 * 1024"

record logical_record =
  representative_bytes :: int
  lr_characters :: "pystr list"
  lr_byte_count :: int
  total_bytes :: int
  hashed :: bytes
  clipped :: bool

definition record_init :: "int \<Rightarrow> logical_record" where
  "record_init rep = \<lparr>representative_bytes = rep, lr_characters = [], lr_byte_count = 0,
     total_bytes = 0, hashed = [], clipped = False\<rparr>"

definition record_add :: "logical_record \<Rightarrow> pystr \<Rightarrow> logical_record" where
  "record_add r text =
     (let encoded = utf8_encode text;
          r = r\<lparr>hashed := hashed r @ encoded, total_bytes := total_bytes r + int (length encoded)\<rparr>
      in if clipped r then r
         else if representative_bytes r < lr_byte_count r + int (length encoded)
              then r\<lparr>clipped := True\<rparr>
         else r\<lparr>lr_characters := lr_characters r @ [text],
                lr_byte_count := lr_byte_count r + int (length encoded)\<rparr>)"

definition record_identity :: "logical_record \<Rightarrow> int \<times> string" where
  "record_identity r = (total_bytes r, sha256_hex (hashed r))"

definition record_empty :: "logical_record \<Rightarrow> bool" where
  "record_empty r \<longleftrightarrow> total_bytes r = 0"

definition render :: "logical_record \<Rightarrow> pystr" where
  "render r = (let text = concat (lr_characters r) in if clipped r then text @ LINE_CLIPPED_MARKER else text)"

definition record_ok :: "logical_record \<Rightarrow> bool" where
  "record_ok r \<longleftrightarrow> (\<forall>t \<in> set (lr_characters r). display_ok t) \<and>
     (\<not> clipped r \<longrightarrow> hashed r = utf8_encode (concat (lr_characters r))) \<and>
     total_bytes r = int (length (hashed r)) \<and>
     lr_byte_count r = text_bytes (concat (lr_characters r)) \<and>
     lr_byte_count r \<le> representative_bytes r \<and> (clipped r \<longrightarrow> 0 < total_bytes r)"

lemma record_init_ok: "0 \<le> n \<Longrightarrow> record_ok (record_init n)"
  by (simp add: record_ok_def record_init_def)

lemma record_add_ok:
  assumes "record_ok r" "display_ok t" shows "record_ok (record_add r t)"
proof -
  let ?n = "int (length (utf8_encode t))"
  have nn: "0 \<le> total_bytes r" "0 \<le> lr_byte_count r" using assms(1) by (auto simp: record_ok_def text_bytes_def)
  consider "clipped r" | "\<not> clipped r" "representative_bytes r < lr_byte_count r + ?n"
    | "\<not> clipped r" "lr_byte_count r + ?n \<le> representative_bytes r" by linarith
  then show ?thesis
  proof cases
    case 1
    with assms nn show ?thesis by (auto simp: record_ok_def record_add_def Let_def)
  next
    case 2
    moreover have "lr_byte_count r \<le> representative_bytes r" using assms(1) by (simp add: record_ok_def)
    ultimately have "0 < ?n" by linarith
    with 2 assms nn show ?thesis by (auto simp: record_ok_def record_add_def Let_def)
  next
    case 3
    with assms show ?thesis by (auto simp: record_ok_def record_add_def Let_def text_bytes_def)
  qed
qed

lemma LINE_CLIPPED_MARKER_ok [simp]: "display_ok LINE_CLIPPED_MARKER"
  unfolding LINE_CLIPPED_MARKER_def by (rule display_ok_lit) simp

lemma render_ok: "record_ok r \<Longrightarrow> display_ok (render r)"
  by (simp add: record_ok_def render_def Let_def)

lemma record_add_exact:
  "\<not> clipped (record_add r t) \<Longrightarrow> \<not> clipped r \<and> render (record_add r t) = render r @ t"
  by (auto simp: record_add_def render_def Let_def split: if_splits)

lemma render_init [simp]: "render (record_init n) = []"
  by (simp add: render_def record_init_def)

lemma record_init_clipped [simp]: "\<not> clipped (record_init n)"
  by (simp add: record_init_def)

lemma utf8_encode_Nil_iff: "utf8_encode t = [] \<longleftrightarrow> t = []"
  by (cases t) (simp_all add: utf8_encode_char_nonempty)

lemma record_empty_render: "record_ok r \<Longrightarrow> \<not> clipped r \<Longrightarrow> record_empty r \<longleftrightarrow> render r = []"
  by (auto simp: record_ok_def record_empty_def render_def utf8_encode_Nil_iff)

section \<open>The normalizer\<close>

record 'c normalizer =
  sink :: 'c
  nz_representative_bytes :: int
  current :: logical_record
  raw_line :: nat
  repeat_record :: "logical_record option"
  repeat_count :: nat
  repeat_start :: nat
  progress_first :: "logical_record option"
  progress_last :: "logical_record option"
  progress_count :: nat
  controls_changed :: bool
  line_clipped :: bool
  repetition_collapsed :: bool

definition representative_budget :: "projection_limits \<Rightarrow> int" where
  "representative_budget L =
     (let budget = min (max_bytes L) (max_estimated_tokens L * 4);
          reserved = text_bytes LINE_CLIPPED_MARKER + 1 + text_bytes OMISSION_MARKER
      in max 1 (min MAX_REPRESENTATIVE_BYTES (budget - reserved)))"

definition normalizer_init :: "'c \<Rightarrow> projection_limits \<Rightarrow> 'c normalizer" where
  "normalizer_init c L =
     \<lparr>sink = c, nz_representative_bytes = representative_budget L,
      current = record_init (representative_budget L), raw_line = 0,
      repeat_record = None, repeat_count = 0, repeat_start = 0,
      progress_first = None, progress_last = None, progress_count = 0,
      controls_changed = False, line_clipped = False, repetition_collapsed = False\<rparr>"

definition fresh_record :: "'c normalizer \<Rightarrow> logical_record" where
  "fresh_record n = record_init (nz_representative_bytes n)"

definition emit :: "('c \<Rightarrow> pystr \<Rightarrow> bool \<Rightarrow> 'c) \<Rightarrow> 'c normalizer \<Rightarrow> pystr \<Rightarrow> bool \<Rightarrow> 'c normalizer" where
  "emit add n text anchor = n\<lparr>sink := add (sink n) text anchor\<rparr>"

definition repeat_suffix :: "nat \<Rightarrow> nat \<Rightarrow> pystr" where
  "repeat_suffix count start =
     lit '' [line repeated '' @ decimal count @ lit '' times; raw lines '' @ decimal start @ lit ''-'' @
     decimal (start + count - 1) @ lit '']''"

definition flush_repetition :: "('c \<Rightarrow> pystr \<Rightarrow> bool \<Rightarrow> 'c) \<Rightarrow> 'c normalizer \<Rightarrow> 'c normalizer" where
  "flush_repetition add n =
     (case repeat_record n of None \<Rightarrow> n
      | Some r \<Rightarrow>
          let text = render r;
              n = n\<lparr>line_clipped := line_clipped n \<or> clipped r\<rparr>;
              (n, text) = (if 1 < repeat_count n
                           then (n\<lparr>repetition_collapsed := True\<rparr>,
                                 text @ repeat_suffix (repeat_count n) (repeat_start n))
                           else (n, text));
              n = emit add n (text @ [newline]) (is_failure_anchor text)
          in n\<lparr>repeat_record := None, repeat_count := 0\<rparr>)"

definition progress_marker :: "nat \<Rightarrow> pystr" where
  "progress_marker final_update =
     lit ''[progress updates 2-'' @ decimal final_update @ lit '' collapsed; raw updates 2-'' @
     decimal final_update @ lit '']''"

definition flush_progress :: "('c \<Rightarrow> pystr \<Rightarrow> bool \<Rightarrow> 'c) \<Rightarrow> 'c normalizer \<Rightarrow> 'c normalizer" where
  "flush_progress add n =
     (case (progress_first n, progress_last n) of
        (Some pf, Some pl) \<Rightarrow>
          let n = flush_repetition add n;
              n = n\<lparr>line_clipped := line_clipped n \<or> clipped pf \<or> clipped pl\<rparr>;
              n = emit add n (render pf @ [newline]) (is_failure_anchor (render pf));
              n = (if 2 < progress_count n
                   then emit add n (progress_marker (progress_count n - 1) @ [newline]) False else n);
              n = (if 1 < progress_count n
                   then emit add n (render pl @ [newline]) (is_failure_anchor (render pl)) else n)
          in n\<lparr>progress_first := None, progress_last := None, progress_count := 0\<rparr>
      | _ \<Rightarrow> n)"

definition finish_progress :: "'c normalizer \<Rightarrow> 'c normalizer" where
  "finish_progress n =
     (let r = current n; n = n\<lparr>current := fresh_record n\<rparr> in
      if record_empty r then n
      else n\<lparr>progress_first := (case progress_first n of None \<Rightarrow> Some r | Some pf \<Rightarrow> Some pf),
             progress_last := Some r, progress_count := progress_count n + 1\<rparr>)"

definition finish_line :: "('c \<Rightarrow> pystr \<Rightarrow> bool \<Rightarrow> 'c) \<Rightarrow> bool \<Rightarrow> 'c normalizer \<Rightarrow> 'c normalizer" where
  "finish_line add terminated n =
     (let n = flush_progress add n;
          n = n\<lparr>raw_line := raw_line n + 1\<rparr>;
          r = current n;
          n = n\<lparr>current := fresh_record n\<rparr>
      in if \<not> terminated then
           let n = flush_repetition add n;
               n = n\<lparr>line_clipped := line_clipped n \<or> clipped r\<rparr>
           in emit add n (render r) (is_failure_anchor (render r))
         else case repeat_record n of
             Some rr \<Rightarrow>
               if record_identity r = record_identity rr
               then n\<lparr>repeat_count := repeat_count n + 1\<rparr>
               else (flush_repetition add n)\<lparr>repeat_record := Some r, repeat_count := 1,
                      repeat_start := raw_line n\<rparr>
           | None \<Rightarrow> (flush_repetition add n)\<lparr>repeat_record := Some r, repeat_count := 1,
                      repeat_start := raw_line n\<rparr>)"

definition feed_char :: "('c \<Rightarrow> pystr \<Rightarrow> bool \<Rightarrow> 'c) \<Rightarrow> 'c normalizer \<Rightarrow> nat \<Rightarrow> 'c normalizer" where
  "feed_char add n c =
     (if c = 13 then finish_progress (n\<lparr>controls_changed := True\<rparr>)
      else if c = newline then finish_line add True n
      else let (display, changed) = neutralize_character c
           in n\<lparr>controls_changed := controls_changed n \<or> changed,
                current := record_add (current n) display\<rparr>)"

definition normalizer_feed :: "('c \<Rightarrow> pystr \<Rightarrow> bool \<Rightarrow> 'c) \<Rightarrow> 'c normalizer \<Rightarrow> pystr \<Rightarrow> 'c normalizer" where
  "normalizer_feed add n text = foldl (feed_char add) n text"

definition normalizer_finish :: "('c \<Rightarrow> pystr \<Rightarrow> bool \<Rightarrow> 'c) \<Rightarrow> 'c normalizer \<Rightarrow> 'c normalizer" where
  "normalizer_finish add n =
     (let n = (if \<not> record_empty (current n) then finish_line add False n else n);
          n = flush_progress add n
      in flush_repetition add n)"

lemma normalizer_feed_append:
  "normalizer_feed add n (s @ t) = normalizer_feed add (normalizer_feed add n s) t"
  by (simp add: normalizer_feed_def)

lemma representative_budget_pos: "0 < representative_budget L"
  by (simp add: representative_budget_def Let_def less_max_iff_disj)

section \<open>Only displayable text reaches the sink\<close>

lemma display_ok_newline: "display_ok [newline]"
  by simp

lemma repeat_suffix_ok [simp]: "display_ok (repeat_suffix k m)"
  by (auto simp: repeat_suffix_def printable_ok)

lemma progress_marker_ok [simp]: "display_ok (progress_marker k)"
  by (auto simp: progress_marker_def printable_ok)

definition norm_inv :: "('c \<Rightarrow> bool) \<Rightarrow> 'c normalizer \<Rightarrow> bool" where
  "norm_inv sink_ok n \<longleftrightarrow> sink_ok (sink n) \<and> record_ok (current n) \<and>
     0 \<le> nz_representative_bytes n \<and>
     (\<forall>r. repeat_record n = Some r \<longrightarrow> record_ok r \<and> 1 \<le> repeat_count n) \<and>
     (repeat_record n = None \<longrightarrow> repeat_count n = 0) \<and>
     (\<forall>r. progress_first n = Some r \<longrightarrow> record_ok r) \<and>
     (\<forall>r. progress_last n = Some r \<longrightarrow> record_ok r)"

locale record_sink =
  fixes add :: "'c \<Rightarrow> pystr \<Rightarrow> bool \<Rightarrow> 'c"
    and sink_ok :: "'c \<Rightarrow> bool"
  assumes add_inv: "sink_ok c \<Longrightarrow> display_ok t \<Longrightarrow> sink_ok (add c t a)"
begin

lemma flush_repetition_inv: "norm_inv sink_ok n \<Longrightarrow> norm_inv sink_ok (flush_repetition add n)"
  by (auto simp: norm_inv_def flush_repetition_def emit_def render_ok Let_def
      intro!: add_inv split: option.splits)

lemma flush_progress_inv:
  assumes "norm_inv sink_ok n" shows "norm_inv sink_ok (flush_progress add n)"
proof (cases "progress_first n = None \<or> progress_last n = None")
  case True
  with assms show ?thesis by (auto simp: flush_progress_def split: option.splits)
next
  case False
  then obtain pf pl where p: "progress_first n = Some pf" "progress_last n = Some pl" by auto
  with assms have ok: "record_ok pf" "record_ok pl" by (auto simp: norm_inv_def)
  from flush_repetition_inv [OF assms] ok show ?thesis
    by (auto simp: flush_progress_def p norm_inv_def emit_def Let_def render_ok intro!: add_inv)
qed

lemma finish_progress_inv: "norm_inv sink_ok n \<Longrightarrow> norm_inv sink_ok (finish_progress n)"
  by (auto simp: norm_inv_def finish_progress_def Let_def fresh_record_def record_init_ok
      split: option.splits)

lemma finish_line_inv:
  assumes "norm_inv sink_ok n" shows "norm_inv sink_ok (finish_line add terminated n)"
proof -
  let ?n = "flush_progress add n"
  let ?m = "?n\<lparr>raw_line := raw_line ?n + 1, current := fresh_record ?n\<rparr>"
  have n: "norm_inv sink_ok ?n" using assms by (rule flush_progress_inv)
  then have m: "norm_inv sink_ok ?m" and r: "record_ok (current ?n)"
    by (auto simp: norm_inv_def fresh_record_def record_init_ok)
  from flush_repetition_inv [OF m] m r show ?thesis
    by (auto simp: finish_line_def Let_def norm_inv_def emit_def fresh_record_def render_ok
        intro!: add_inv split: option.splits)
qed

lemma feed_char_inv:
  assumes n: "norm_inv sink_ok n" shows "norm_inv sink_ok (feed_char add n c)"
proof -
  consider "c = 13" | "c = newline" | "c \<noteq> 13" "c \<noteq> newline" by blast
  then show ?thesis
  proof cases
    case 1
    have "norm_inv sink_ok (n\<lparr>controls_changed := True\<rparr>)" using n by (simp add: norm_inv_def)
    with 1 show ?thesis by (simp add: feed_char_def finish_progress_inv)
  next
    case 2
    with n show ?thesis by (simp add: feed_char_def finish_line_inv)
  next
    case 3
    have "record_ok (record_add (current n) (fst (neutralize_character c)))"
      using n 3 by (intro record_add_ok neutralize_character_ok) (simp_all add: norm_inv_def)
    with n 3 show ?thesis by (cases "neutralize_character c") (simp add: feed_char_def norm_inv_def)
  qed
qed

lemma normalizer_feed_inv: "norm_inv sink_ok n \<Longrightarrow> norm_inv sink_ok (normalizer_feed add n t)"
  unfolding normalizer_feed_def by (induction t arbitrary: n) (auto simp: feed_char_inv)

lemma normalizer_finish_inv: "norm_inv sink_ok n \<Longrightarrow> norm_inv sink_ok (normalizer_finish add n)"
  by (simp add: normalizer_finish_def finish_line_inv flush_progress_inv flush_repetition_inv)

lemma normalizer_init_inv: "sink_ok c \<Longrightarrow> norm_inv sink_ok (normalizer_init c L)"
  using representative_budget_pos [of L] by (simp add: norm_inv_def normalizer_init_def record_init_ok)

lemma sink_inv:
  "sink_ok c \<Longrightarrow> sink_ok (sink (normalizer_finish add (normalizer_feed add (normalizer_init c L) t)))"
  using normalizer_finish_inv [OF normalizer_feed_inv [OF normalizer_init_inv]]
  by (auto simp: norm_inv_def)

end

section \<open>Without a loss flag, the sink has received the input\<close>

definition flags_clear :: "'c normalizer \<Rightarrow> bool" where
  "flags_clear n \<longleftrightarrow> \<not> controls_changed n \<and> \<not> repetition_collapsed n \<and> \<not> line_clipped n"

definition no_loss :: "'c normalizer \<Rightarrow> bool" where
  "no_loss n \<longleftrightarrow> flags_clear n \<and> \<not> clipped (current n) \<and> repeat_count n \<le> 1 \<and>
     (\<forall>r. repeat_record n = Some r \<longrightarrow> \<not> clipped r)"

definition pending_text :: "'c normalizer \<Rightarrow> pystr" where
  "pending_text n =
     (case repeat_record n of None \<Rightarrow> [] | Some r \<Rightarrow> render r @ [newline]) @ render (current n)"

text \<open>A pending progress update means a carriage return was seen, so the control flag is up.\<close>

definition progress_flagged :: "'c normalizer \<Rightarrow> bool" where
  "progress_flagged n \<longleftrightarrow> (progress_first n \<noteq> None \<longrightarrow> controls_changed n)"

lemma flush_repetition_frame [simp]:
  "progress_first (flush_repetition add n) = progress_first n"
  "progress_last (flush_repetition add n) = progress_last n"
  "progress_count (flush_repetition add n) = progress_count n"
  "controls_changed (flush_repetition add n) = controls_changed n"
  "current (flush_repetition add n) = current n"
  "repeat_record (flush_repetition add n) = None"
  by (simp_all add: flush_repetition_def emit_def Let_def split: option.splits)

lemma flush_progress_frame [simp]:
  "controls_changed (flush_progress add n) = controls_changed n"
  "current (flush_progress add n) = current n"
  by (simp_all add: flush_progress_def emit_def Let_def split: option.splits)

lemma flush_progress_none: "progress_first n = None \<Longrightarrow> flush_progress add n = n"
  by (simp add: flush_progress_def)

lemma flush_progress_first:
  "progress_first (flush_progress add n) = None \<or> progress_first (flush_progress add n) = progress_first n"
  by (auto simp: flush_progress_def Let_def split: option.splits)

lemma finish_line_frame [simp]:
  "controls_changed (finish_line add b n) = controls_changed n"
  "progress_first (finish_line add b n) = progress_first (flush_progress add n)"
  by (simp_all add: finish_line_def emit_def Let_def split: option.splits)

lemma feed_char_flagged: "progress_flagged n \<Longrightarrow> progress_flagged (feed_char add n c)"
  using flush_progress_first [of add n]
  by (auto simp: progress_flagged_def feed_char_def finish_progress_def Let_def split: prod.splits)

lemma flush_repetition_clear:
  assumes "norm_inv sink_ok n" "flags_clear (flush_repetition add n)"
  shows "flags_clear n"
    and "repeat_record n = Some r \<Longrightarrow> \<not> clipped r \<and> repeat_count n = 1 \<and>
      sink (flush_repetition add n) = add (sink n) (render r @ [newline]) (is_failure_anchor (render r))"
    and "repeat_record n = None \<Longrightarrow> flush_repetition add n = n"
proof -
  have r: "\<not> clipped r \<and> repeat_count n = 1 \<and> flags_clear n \<and>
      sink (flush_repetition add n) = add (sink n) (render r @ [newline]) (is_failure_anchor (render r))"
    if "repeat_record n = Some r" for r
  proof -
    have "1 \<le> repeat_count n" using assms(1) that by (simp add: norm_inv_def)
    then show ?thesis
      using assms(2) that
      by (cases "1 < repeat_count n") (auto simp: flush_repetition_def flags_clear_def emit_def Let_def)
  qed
  then show "repeat_record n = Some r \<Longrightarrow> \<not> clipped r \<and> repeat_count n = 1 \<and>
      sink (flush_repetition add n) = add (sink n) (render r @ [newline]) (is_failure_anchor (render r))"
    by blast
  show "repeat_record n = None \<Longrightarrow> flush_repetition add n = n" by (simp add: flush_repetition_def)
  with r assms(2) show "flags_clear n" by (cases "repeat_record n") auto
qed

locale exact_sink = record_sink add sink_ok
  for add :: "'c \<Rightarrow> pystr \<Rightarrow> bool \<Rightarrow> 'c" and sink_ok +
  fixes content :: "'c \<Rightarrow> pystr"
    and whole :: "'c \<Rightarrow> bool"
  assumes add_exact: "sink_ok c \<Longrightarrow> whole (add c t a) \<Longrightarrow>
    whole c \<and> content (add c t a) = content c @ t"
begin

lemma flush_repetition_exact:
  assumes "norm_inv sink_ok n" "flags_clear (flush_repetition add n)" "whole (sink (flush_repetition add n))"
  shows "flags_clear n \<and> whole (sink n) \<and> repeat_count n \<le> 1 \<and>
    (\<forall>r. repeat_record n = Some r \<longrightarrow> \<not> clipped r) \<and>
    content (sink (flush_repetition add n)) @ render (current n) = content (sink n) @ pending_text n"
proof (cases "repeat_record n")
  case None
  with assms flush_repetition_clear [OF assms(1,2)] show ?thesis
    by (simp add: pending_text_def norm_inv_def)
next
  case (Some r)
  from flush_repetition_clear(1,2) [OF assms(1,2)] Some
  have h: "flags_clear n" "\<not> clipped r" "repeat_count n = 1"
    "sink (flush_repetition add n) = add (sink n) (render r @ [newline]) (is_failure_anchor (render r))"
    by auto
  have "sink_ok (sink n)" using assms(1) by (simp add: norm_inv_def)
  from add_exact [OF this assms(3) [unfolded h(4)]] h Some show ?thesis
    by (simp add: pending_text_def)
qed

lemma no_progress:
  "progress_flagged n \<Longrightarrow> \<not> controls_changed n \<Longrightarrow> flush_progress add n = n"
  by (rule flush_progress_none) (auto simp: progress_flagged_def)

lemma finish_line_exact:
  assumes "norm_inv sink_ok n" "progress_flagged n"
    and "no_loss (finish_line add True n)" "whole (sink (finish_line add True n))"
  shows "no_loss n \<and> whole (sink n) \<and>
    content (sink (finish_line add True n)) @ pending_text (finish_line add True n) =
    content (sink n) @ pending_text n @ [newline]"
proof -
  have fp: "flush_progress add n = n"
    using assms(2,3) by (intro no_progress) (simp_all add: no_loss_def flags_clear_def)
  let ?m = "n\<lparr>raw_line := raw_line n + 1, current := fresh_record n\<rparr>"
  let ?keep = "\<lambda>m. m\<lparr>repeat_record := Some (current n), repeat_count := 1, repeat_start := raw_line n + 1\<rparr>"
  have m: "norm_inv sink_ok ?m" using assms(1) by (simp add: norm_inv_def fresh_record_def record_init_ok)
  have "record_identity (current n) \<noteq> record_identity rr" if rr: "repeat_record n = Some rr" for rr
  proof
    assume "record_identity (current n) = record_identity rr"
    then have "repeat_count (finish_line add True n) = repeat_count n + 1"
      by (simp add: finish_line_def fp rr Let_def)
    moreover have "1 \<le> repeat_count n" using assms(1) rr by (simp add: norm_inv_def)
    ultimately show False using assms(3) by (simp add: no_loss_def)
  qed
  then have fl: "finish_line add True n = ?keep (flush_repetition add ?m)"
    by (auto simp: finish_line_def fp Let_def fresh_record_def split: option.splits)
  have c: "flags_clear (flush_repetition add ?m)" "\<not> clipped (current n)" "whole (sink (flush_repetition add ?m))"
    using assms(3,4) by (auto simp: fl no_loss_def flags_clear_def)
  have h: "flags_clear ?m \<and> whole (sink ?m) \<and> repeat_count ?m \<le> 1 \<and>
      (\<forall>r. repeat_record ?m = Some r \<longrightarrow> \<not> clipped r) \<and>
      content (sink (flush_repetition add ?m)) @ render (current ?m) = content (sink ?m) @ pending_text ?m"
    by (rule flush_repetition_exact [OF m c(1,3)])
  have "no_loss n" using h c(2) by (simp add: no_loss_def flags_clear_def)
  moreover have "content (sink (flush_repetition add ?m)) @ render (current n) @ [newline] =
      content (sink n) @ pending_text n @ [newline]"
    using h by (simp add: pending_text_def fresh_record_def)
  ultimately show ?thesis using h by (simp add: fl pending_text_def fresh_record_def)
qed

lemma feed_char_exact:
  assumes "norm_inv sink_ok n" "progress_flagged n"
    and "no_loss (feed_char add n c)" "whole (sink (feed_char add n c))"
  shows "no_loss n \<and> whole (sink n) \<and>
    content (sink (feed_char add n c)) @ pending_text (feed_char add n c) =
    content (sink n) @ pending_text n @ [c]"
proof -
  consider "c = 13" | "c = newline" | "c \<noteq> 13" "c \<noteq> newline" by blast
  then show ?thesis
  proof cases
    case 1
    then have "controls_changed (feed_char add n c)" by (simp add: feed_char_def finish_progress_def Let_def)
    with assms(3) show ?thesis by (simp add: no_loss_def flags_clear_def)
  next
    case 2
    then have "feed_char add n c = finish_line add True n" by (simp add: feed_char_def)
    with finish_line_exact [OF assms(1,2)] assms(3,4) 2 show ?thesis by simp
  next
    case 3
    obtain display changed where d: "neutralize_character c = (display, changed)"
      by (cases "neutralize_character c")
    have f: "feed_char add n c = n\<lparr>controls_changed := controls_changed n \<or> changed,
        current := record_add (current n) display\<rparr>"
      using 3 d by (simp add: feed_char_def)
    have "\<not> changed" "\<not> clipped (record_add (current n) display)"
      using assms(3) by (auto simp: f no_loss_def flags_clear_def)
    moreover have "display = [c]" using neutralize_character_id [of c] d \<open>\<not> changed\<close> by simp
    ultimately have "\<not> clipped (current n)" "render (record_add (current n) display) = render (current n) @ [c]"
      using record_add_exact by blast+
    then show ?thesis using assms(3,4) \<open>\<not> changed\<close>
      by (simp add: f no_loss_def flags_clear_def pending_text_def)
  qed
qed

lemma normalizer_feed_exact:
  assumes "norm_inv sink_ok n" "progress_flagged n"
    and "no_loss (normalizer_feed add n t)" "whole (sink (normalizer_feed add n t))"
  shows "no_loss n \<and> whole (sink n) \<and> progress_flagged (normalizer_feed add n t) \<and>
    content (sink (normalizer_feed add n t)) @ pending_text (normalizer_feed add n t) =
    content (sink n) @ pending_text n @ t"
  using assms
proof (induction t arbitrary: n)
  case Nil
  then show ?case by (simp add: normalizer_feed_def)
next
  case (Cons c t)
  let ?m = "feed_char add n c"
  have f: "normalizer_feed add n (c # t) = normalizer_feed add ?m t" by (simp add: normalizer_feed_def)
  from Cons.IH [OF feed_char_inv [OF Cons.prems(1)] feed_char_flagged [OF Cons.prems(2)]] Cons.prems(3,4)
  have m: "no_loss ?m" "whole (sink ?m)" "progress_flagged (normalizer_feed add ?m t)"
    "content (sink (normalizer_feed add ?m t)) @ pending_text (normalizer_feed add ?m t) =
     content (sink ?m) @ pending_text ?m @ t" by (auto simp: f)
  from feed_char_exact [OF Cons.prems(1,2) m(1,2)] m(3,4) show ?case by (simp add: f)
qed

lemma finish_tail_exact:
  assumes "norm_inv sink_ok n" "progress_flagged n" "\<not> record_empty (current n)"
    and "flags_clear (finish_line add False n)" "whole (sink (finish_line add False n))"
  shows "no_loss n \<and> whole (sink n) \<and> repeat_record (finish_line add False n) = None \<and>
    content (sink (finish_line add False n)) = content (sink n) @ pending_text n"
proof -
  have fp: "flush_progress add n = n"
    using assms(2,4) by (intro no_progress) (simp_all add: flags_clear_def)
  let ?m = "n\<lparr>raw_line := raw_line n + 1, current := fresh_record n\<rparr>"
  let ?f = "flush_repetition add ?m"
  have m: "norm_inv sink_ok ?m" using assms(1) by (simp add: norm_inv_def fresh_record_def record_init_ok)
  have fl: "finish_line add False n = emit add (?f\<lparr>line_clipped := line_clipped ?f \<or> clipped (current n)\<rparr>)
      (render (current n)) (is_failure_anchor (render (current n)))"
    by (simp add: finish_line_def fp Let_def fresh_record_def)
  have c: "flags_clear ?f" "\<not> clipped (current n)"
    using assms(4) by (auto simp: fl emit_def flags_clear_def)
  have "sink_ok (sink ?f)" using record_sink.flush_repetition_inv [OF record_sink_axioms m]
    by (simp add: norm_inv_def)
  moreover have "whole (add (sink ?f) (render (current n)) (is_failure_anchor (render (current n))))"
    using assms(5) by (simp add: fl emit_def)
  ultimately have a: "whole (sink ?f)"
    "content (sink (finish_line add False n)) = content (sink ?f) @ render (current n)"
    using add_exact by (auto simp: fl emit_def)
  have h: "flags_clear ?m \<and> whole (sink ?m) \<and> repeat_count ?m \<le> 1 \<and>
      (\<forall>r. repeat_record ?m = Some r \<longrightarrow> \<not> clipped r) \<and>
      content (sink ?f) @ render (current ?m) = content (sink ?m) @ pending_text ?m"
    by (rule flush_repetition_exact [OF m c(1) a(1)])
  show ?thesis using h c(2) a(2)
    by (simp add: fl emit_def no_loss_def flags_clear_def pending_text_def fresh_record_def)
qed

lemma normalizer_finish_exact:
  assumes n: "norm_inv sink_ok n" "progress_flagged n"
    and "flags_clear (normalizer_finish add n)" "whole (sink (normalizer_finish add n))"
  shows "no_loss n \<and> whole (sink n) \<and>
    content (sink (normalizer_finish add n)) = content (sink n) @ pending_text n"
proof (cases "record_empty (current n)")
  case True
  have "record_ok (current n)" using n by (simp add: norm_inv_def)
  moreover from this True have "\<not> clipped (current n)" by (auto simp: record_ok_def record_empty_def)
  ultimately have e: "\<not> clipped (current n)" "render (current n) = []"
    using True record_empty_render by auto
  have "\<not> controls_changed n" using assms(3) by (simp add: normalizer_finish_def True flags_clear_def)
  then have "normalizer_finish add n = flush_repetition add n"
    using no_progress [OF n(2)] by (simp add: normalizer_finish_def True)
  with flush_repetition_exact [OF n(1)] assms(3,4) e show ?thesis by (simp add: no_loss_def)
next
  case False
  let ?m = "finish_line add False n"
  have nf: "normalizer_finish add n = flush_repetition add (flush_progress add ?m)"
    using False by (simp add: normalizer_finish_def)
  have cc: "\<not> controls_changed n" using assms(3) by (simp add: nf flags_clear_def)
  then have "flush_progress add ?m = ?m"
    using no_progress [OF n(2)] n(2) by (intro flush_progress_none) (auto simp: progress_flagged_def)
  moreover have "repeat_record ?m = None" by (simp add: finish_line_def emit_def Let_def)
  ultimately have "normalizer_finish add n = ?m" by (simp add: nf flush_repetition_def)
  with finish_tail_exact [OF n False] assms(3,4) show ?thesis by simp
qed

lemma init_flagged: "progress_flagged (normalizer_init c L)"
  by (simp add: progress_flagged_def normalizer_init_def)

lemma normalizer_exact:
  assumes "sink_ok c" "flags_clear (normalizer_finish add (normalizer_feed add (normalizer_init c L) t))"
    and "whole (sink (normalizer_finish add (normalizer_feed add (normalizer_init c L) t)))"
  shows "whole c \<and> content (sink (normalizer_finish add (normalizer_feed add (normalizer_init c L) t))) = content c @ t"
proof -
  let ?i = "normalizer_init c L" and ?n = "normalizer_feed add (normalizer_init c L) t"
  have i: "norm_inv sink_ok ?i" using assms(1) by (rule normalizer_init_inv)
  have flagged: "progress_flagged (normalizer_feed add m t)" if "progress_flagged m" for m t
    using that unfolding normalizer_feed_def
    by (induction t arbitrary: m) (simp_all add: feed_char_flagged)
  from normalizer_finish_exact [OF normalizer_feed_inv [OF i] flagged [OF init_flagged] assms(2,3)]
  have f: "no_loss ?n" "whole (sink ?n)"
    "content (sink (normalizer_finish add ?n)) = content (sink ?n) @ pending_text ?n" by auto
  from normalizer_feed_exact [OF i init_flagged f(1,2)] f(3) show ?thesis
    by (simp add: normalizer_init_def pending_text_def)
qed

end

end
