(* ===== verification/Redactor.thy ===== *)
theory Redactor
  imports Prelude
begin

text \<open>
  The exact-value redactor of \<open>projection.py\<close> (class \<open>_ExactRedactor\<close>): the constructor that
  turns named rules into a match order, the streaming \<open>feed\<close> with its bounded look-ahead
  buffer, and the applied-rule summary.  The abstract specification is the relation \<open>redaction\<close>,
  leftmost matches with the longest value winning.  Shown: the redactor is a \<open>stream_stage\<close>; what
  it emits over a whole stream is the redaction of the concatenated stream, and the counters add
  up to the number of replacements; the specification is deterministic; a value that shares no
  byte with the replacement never occurs in the output.
\<close>

section \<open>State and operations\<close>

record redactor =
  rvalues :: "bytes list"
  rule_for_value :: "(bytes \<times> pystr) list"
  counts :: "(pystr \<times> nat) list"
  max_length :: nat
  replacement :: bytes
  pending :: bytes
  redacted :: bool

record redaction_rule =
  rule_identifier :: pystr
  rule_count :: nat

fun collect_rules :: "(bytes \<times> pystr) list \<Rightarrow> (pystr \<times> bytes) list \<Rightarrow> (bytes \<times> pystr) list result" where
  "collect_rules vbr [] = Inr vbr"
| "collect_rules vbr ((ident, val) # rules) =
     (if ident = [] then Inl (ValueError ''redaction rule identifiers must not be empty'')
      else if val = [] then Inl (ValueError ''exact redaction values must not be empty'')
      else collect_rules
        (case map_of vbr val of
           None \<Rightarrow> AList.update val ident vbr
         | Some existing \<Rightarrow> if ident < existing then AList.update val ident vbr else vbr) rules)"

definition rule_of :: "(bytes \<times> pystr) list \<Rightarrow> bytes \<Rightarrow> pystr" where
  "rule_of vbr v = (case map_of vbr v of Some i \<Rightarrow> i | None \<Rightarrow> [])"

definition match_order :: "(bytes \<times> pystr) list \<Rightarrow> bytes list" where
  "match_order vbr = sort_key (\<lambda>v. (- int (length v), v, rule_of vbr v)) (map fst vbr)"

definition mk_redactor :: "(pystr \<times> bytes) list \<Rightarrow> bytes \<Rightarrow> redactor result" where
  "mk_redactor rules repl =
     bind_r (collect_rules [] rules) (\<lambda>vbr.
     if list_ex (\<lambda>v. v = []) (map fst vbr)
     then Inl (ValueError ''exact redaction values must not be empty'')
     else let vals = match_order vbr in
       Inr \<lparr>rvalues = vals, rule_for_value = vbr, counts = [],
            max_length = (if vals = [] then 1 else Max (set (map length vals))),
            replacement = repl, pending = [], redacted = False\<rparr>)"

definition bump_count :: "pystr \<Rightarrow> (pystr \<times> nat) list \<Rightarrow> (pystr \<times> nat) list" where
  "bump_count i cs = AList.update i (case map_of cs i of Some n \<Rightarrow> n + 1 | None \<Rightarrow> 1) cs"

definition record_hit :: "redactor \<Rightarrow> bytes \<Rightarrow> redactor" where
  "record_hit r v = r\<lparr>redacted := True, counts := bump_count (rule_of (rule_for_value r) v) (counts r)\<rparr>"

text \<open>
  The \<open>while\<close> loop of \<open>feed\<close> on the bytes from the cursor on: the state, what is appended to the
  output, and the bytes left for the pending buffer.  A matched value is non-empty (the
  constructor refuses empty values), so the cursor advances on every iteration.
\<close>

function redact_scan :: "redactor \<Rightarrow> bool \<Rightarrow> bytes \<Rightarrow> redactor \<times> bytes \<times> bytes" where
  "redact_scan r final data =
     (if data \<noteq> [] \<and> (final \<or> max_length r \<le> length data) then
        (case List.find (\<lambda>v. prefix v data) (rvalues r) of
           Some v \<Rightarrow>
             if v = [] then (r, [], data)
             else let (r', out, rest) = redact_scan (record_hit r v) final (drop (length v) data)
                  in (r', replacement r @ out, rest)
         | None \<Rightarrow>
             let (r', out, rest) = redact_scan r final (tl data) in (r', hd data # out, rest))
      else (r, [], data))"
  by pat_completeness auto
termination
  by (relation "measure (\<lambda>(r, final, data). length data)") auto

declare redact_scan.simps [simp del]

definition redactor_feed :: "bool \<Rightarrow> redactor \<Rightarrow> bytes \<Rightarrow> redactor \<times> bytes" where
  "redactor_feed final r chunk =
     (if rvalues r = [] then (r, chunk)
      else let (r', out, rest) = redact_scan (r\<lparr>pending := []\<rparr>) final (pending r @ chunk)
           in (r'\<lparr>pending := rest\<rparr>, out))"

definition redactor_rules :: "redactor \<Rightarrow> redaction_rule list" where
  "redactor_rules r = map (\<lambda>(i, n). \<lparr>rule_identifier = i, rule_count = n\<rparr>) (sort (counts r))"

section \<open>The constructor establishes the invariant\<close>

definition redactor_ok :: "redactor \<Rightarrow> bool" where
  "redactor_ok r \<longleftrightarrow>
     (\<forall>v \<in> set (rvalues r). v \<noteq> [] \<and> length v \<le> max_length r) \<and>
     0 < max_length r \<and> length (pending r) < max_length r \<and>
     sorted_wrt (\<lambda>v w. length w \<le> length v) (rvalues r)"

lemma collect_rules_values:
  assumes "collect_rules vbr rules = Inr vbr'" and "[] \<notin> fst ` set vbr"
  shows "fst ` set vbr' = fst ` set vbr \<union> snd ` set rules \<and> [] \<notin> fst ` set vbr'"
  using assms
proof (induction vbr rules arbitrary: vbr' rule: collect_rules.induct)
  case (2 vbr ident val rules)
  let ?vbr = "case map_of vbr val of None \<Rightarrow> AList.update val ident vbr
    | Some existing \<Rightarrow> if ident < existing then AList.update val ident vbr else vbr"
  have ne: "ident \<noteq> []" "val \<noteq> []" using "2.prems" by (auto split: if_splits)
  have upd: "fst ` set ?vbr = insert val (fst ` set vbr)"
  proof (cases "map_of vbr val")
    case (Some i)
    then have "val \<in> fst ` set vbr" by (force dest: map_of_SomeD)
    with Some show ?thesis by (auto simp: dom_update [simplified dom_map_of_conv_image_fst])
  qed (simp add: dom_update [simplified dom_map_of_conv_image_fst])
  have "[] \<notin> fst ` set ?vbr" unfolding upd using ne(2) "2.prems"(2) by simp
  moreover have "collect_rules ?vbr rules = Inr vbr'" using "2.prems"(1) ne by simp
  ultimately have "fst ` set vbr' = fst ` set ?vbr \<union> snd ` set rules \<and> [] \<notin> fst ` set vbr'"
    using "2.IH" ne by blast
  then show ?case unfolding upd by auto
qed auto

lemma match_order_sorted: "sorted_wrt (\<lambda>v w. length w \<le> length v) (match_order vbr)"
proof -
  let ?key = "\<lambda>v. (- int (length v), v, rule_of vbr v)"
  have "sorted (map ?key (match_order vbr))" by (simp add: match_order_def)
  then have "sorted_wrt (\<lambda>v w. ?key v \<le> ?key w) (match_order vbr)" by (simp add: sorted_map)
  then show ?thesis by (rule sorted_wrt_mono_rel [rotated]) (auto simp: less_eq_prod_def)
qed

lemma set_match_order [simp]: "set (match_order vbr) = fst ` set vbr"
  by (simp add: match_order_def)

lemma mk_redactor_ok:
  assumes "mk_redactor rules repl = Inr r"
  shows "redactor_ok r" and "set (rvalues r) = snd ` set rules"
    and "replacement r = repl" and "counts r = []" and "\<not> redacted r" and "pending r = []"
proof -
  from assms obtain vbr where c: "collect_rules [] rules = Inr vbr"
    and r: "r = \<lparr>rvalues = match_order vbr, rule_for_value = vbr, counts = [],
      max_length = (if match_order vbr = [] then 1 else Max (set (map length (match_order vbr)))),
      replacement = repl, pending = [], redacted = False\<rparr>"
    by (auto simp: mk_redactor_def bind_r_Inr_iff Let_def split: if_splits)
  from collect_rules_values [OF c] have v: "fst ` set vbr = snd ` set rules" "[] \<notin> fst ` set vbr"
    by auto
  then show "set (rvalues r) = snd ` set rules" and "replacement r = repl" and "counts r = []"
    and "\<not> redacted r" and "pending r = []"
    by (simp_all add: r)
  have len: "length w \<le> Max (set (map length (match_order vbr)))" if "w \<in> set (match_order vbr)" for w
    using that by (auto intro!: Max_ge)
  have pos: "0 < length w" if "w \<in> set (match_order vbr)" for w
    using that v(2) by (metis length_greater_0_conv set_match_order)
  have "0 < max_length r"
  proof (cases "match_order vbr")
    case (Cons w ws)
    then have "length w \<le> max_length r" "0 < length w" using len [of w] pos [of w] by (auto simp: r)
    then show ?thesis by linarith
  qed (simp add: r)
  moreover have "\<forall>v \<in> set (rvalues r). v \<noteq> [] \<and> length v \<le> max_length r"
    using len pos by (cases "match_order vbr") (auto simp: r simp del: set_match_order)
  ultimately show "redactor_ok r"
    unfolding redactor_ok_def using match_order_sorted [of vbr] by (simp add: r)
qed

section \<open>Chunks\<close>

lemma record_hit_simps [simp]:
  "rvalues (record_hit r v) = rvalues r" "max_length (record_hit r v) = max_length r"
  "replacement (record_hit r v) = replacement r" "pending (record_hit r v) = pending r"
  "rule_for_value (record_hit r v) = rule_for_value r" "redacted (record_hit r v)"
  by (simp_all add: record_hit_def)

lemma redact_scan_frame:
  assumes "redact_scan r final data = (r', out, rest)"
  shows "rvalues r' = rvalues r" "max_length r' = max_length r" "replacement r' = replacement r"
    "rule_for_value r' = rule_for_value r" "pending r' = pending r"
proof -
  have "rvalues r' = rvalues r \<and> max_length r' = max_length r \<and> replacement r' = replacement r \<and>
      rule_for_value r' = rule_for_value r \<and> pending r' = pending r"
    using assms
  proof (induction r final data arbitrary: r' out rest rule: redact_scan.induct)
    case (1 r final data)
    show ?case
    proof (cases "List.find (\<lambda>v. prefix v data) (rvalues r)")
      case None
      obtain r1 o1 rest1 where s: "redact_scan r final (tl data) = (r1, o1, rest1)"
        by (rule prod_cases3)
      show ?thesis
      proof (cases "data \<noteq> [] \<and> (final \<or> max_length r \<le> length data)")
        case True
        with "1.prems" None s have "r' = r1" by (simp add: redact_scan.simps [of r final data])
        with "1.IH"(1) [OF True None s] show ?thesis by simp
      next
        case False
        with "1.prems" show ?thesis by (auto simp: redact_scan.simps [of r final data])
      qed
    next
      case (Some v)
      obtain r1 o1 rest1 where s: "redact_scan (record_hit r v) final (drop (length v) data) = (r1, o1, rest1)"
        by (rule prod_cases3)
      show ?thesis
      proof (cases "data \<noteq> [] \<and> (final \<or> max_length r \<le> length data) \<and> v \<noteq> []")
        case True
        with "1.prems" Some s have "r' = r1" by (simp add: redact_scan.simps [of r final data])
        with "1.IH"(2) [OF _ Some _ s] True show ?thesis by simp
      next
        case False
        with "1.prems" Some show ?thesis
          by (auto simp: redact_scan.simps [of r final data] split: if_splits)
      qed
    qed
  qed
  then show "rvalues r' = rvalues r" "max_length r' = max_length r" "replacement r' = replacement r"
    "rule_for_value r' = rule_for_value r" "pending r' = pending r"
    by simp_all
qed

definition values_ok :: "redactor \<Rightarrow> bool" where
  "values_ok r \<longleftrightarrow> (\<forall>v \<in> set (rvalues r). v \<noteq> [] \<and> length v \<le> max_length r)"

lemma find_prefix_append:
  assumes "values_ok r" "max_length r \<le> length xs"
  shows "List.find (\<lambda>v. prefix v (xs @ ys)) (rvalues r) = List.find (\<lambda>v. prefix v xs) (rvalues r)"
proof (rule find_cong_set)
  fix v assume "v \<in> set (rvalues r)"
  with assms have "length v \<le> length xs" by (auto simp: values_ok_def)
  then show "prefix v (xs @ ys) = prefix v xs" by (rule prefix_append_long)
qed

lemma redact_scan_append:
  assumes "values_ok r" and "redact_scan r False xs = (r1, o1, rest)"
  shows "redact_scan r final (xs @ ys) =
    (let (r2, o2, rest2) = redact_scan r1 final (rest @ ys) in (r2, o1 @ o2, rest2))"
  using assms
proof (induction r "False" xs arbitrary: r1 o1 rest rule: redact_scan.induct)
  case (1 r xs)
  show ?case
  proof (cases "xs \<noteq> [] \<and> max_length r \<le> length xs")
    case False
    then have "r1 = r" "o1 = []" "rest = xs" using "1.prems"(2) by (auto simp: redact_scan.simps)
    then show ?thesis by (auto split: prod.splits)
  next
    case True
    note f = find_prefix_append [OF "1.prems"(1) conjunct2 [OF True], of ys]
    have c: "xs @ ys \<noteq> [] \<and> (final \<or> max_length r \<le> length (xs @ ys))" using True by auto
    show ?thesis
    proof (cases "List.find (\<lambda>v. prefix v xs) (rvalues r)")
      case None
      obtain r' out rest' where s: "redact_scan r False (tl xs) = (r', out, rest')"
        by (rule prod_cases3)
      from "1.prems"(2) True None s have eq: "r1 = r'" "o1 = hd xs # out" "rest = rest'"
        by (auto simp: redact_scan.simps [of r False xs])
      have "redact_scan r final (tl xs @ ys) =
          (let (r2, o2, rest2) = redact_scan r' final (rest' @ ys) in (r2, out @ o2, rest2))"
        using "1.hyps"(1) True None "1.prems"(1) s by blast
      with True c f None eq show ?thesis
        by (simp add: redact_scan.simps [of r final "xs @ ys"] split: prod.splits)
    next
      case (Some v)
      with find_SomeD have v: "v \<in> set (rvalues r)" "prefix v xs" by fast+
      with "1.prems"(1) have vne: "v \<noteq> []" by (auto simp: values_ok_def)
      obtain r' out rest' where s: "redact_scan (record_hit r v) False (drop (length v) xs) = (r', out, rest')"
        by (rule prod_cases3)
      from "1.prems"(2) True Some s vne
      have eq: "r1 = r'" "o1 = replacement r @ out" "rest = rest'"
        by (auto simp: redact_scan.simps [of r False xs])
      have ok: "values_ok (record_hit r v)" using "1.prems"(1) by (simp add: values_ok_def)
      have "redact_scan (record_hit r v) final (drop (length v) xs @ ys) =
          (let (r2, o2, rest2) = redact_scan r' final (rest' @ ys) in (r2, out @ o2, rest2))"
        using "1.hyps"(2) True Some vne ok s by blast
      moreover have "drop (length v) (xs @ ys) = drop (length v) xs @ ys"
        using prefix_length_le [OF v(2)] by simp
      ultimately show ?thesis
        using True c f Some eq vne
        by (simp add: redact_scan.simps [of r final "xs @ ys"] split: prod.splits)
    qed
  qed
qed

lemma redact_scan_rest:
  assumes "redact_scan r False xs = (r1, o1, rest)" and "values_ok r" "0 < max_length r"
  shows "length rest < max_length r"
  using assms
proof (induction r "False" xs arbitrary: r1 o1 rest rule: redact_scan.induct)
  case (1 r xs)
  show ?case
  proof (cases "xs \<noteq> [] \<and> max_length r \<le> length xs")
    case False
    with "1.prems" show ?thesis by (auto simp: redact_scan.simps [of r False xs])
  next
    case True
    show ?thesis
    proof (cases "List.find (\<lambda>v. prefix v xs) (rvalues r)")
      case None
      with 1 True show ?thesis
        by (auto simp: redact_scan.simps [of r False xs] split: prod.splits)
    next
      case (Some v)
      then have "v \<noteq> []" "values_ok (record_hit r v)" "0 < max_length (record_hit r v)"
        using "1.prems" find_SomeD [OF Some] by (auto simp: values_ok_def)
      with 1 True Some show ?thesis
        by (fastforce simp: redact_scan.simps [of r False xs] split: prod.splits)
    qed
  qed
qed

lemma redactor_ok_values: "redactor_ok r \<Longrightarrow> values_ok r"
  by (simp add: redactor_ok_def values_ok_def)

lemma redactor_feed_append:
  assumes ok: "redactor_ok r" and f1: "redactor_feed False r xs = (r1, o1)"
    and f2: "redactor_feed final r1 ys = (r2, o2)"
  shows "redactor_feed final r (xs @ ys) = (r2, o1 @ o2)"
proof (cases "rvalues r = []")
  case True
  with f1 f2 show ?thesis by (auto simp: redactor_feed_def)
next
  case False
  let ?r = "r\<lparr>pending := []\<rparr>"
  obtain s1 rest1 where s1: "redact_scan ?r False (pending r @ xs) = (s1, o1, rest1)"
    and r1: "r1 = s1\<lparr>pending := rest1\<rparr>"
    using f1 False by (auto simp: redactor_feed_def split: prod.splits)
  have fr: "rvalues s1 = rvalues r" "pending s1 = []" using redact_scan_frame [OF s1] by simp_all
  have [simp]: "s1\<lparr>pending := []\<rparr> = s1" using fr(2) by (cases s1) simp
  obtain s2 rest2 where s2: "redact_scan s1 final (rest1 @ ys) = (s2, o2, rest2)"
    and r2: "r2 = s2\<lparr>pending := rest2\<rparr>"
    using f2 False fr(1) by (auto simp: redactor_feed_def r1 split: prod.splits)
  have "values_ok ?r" using redactor_ok_values [OF ok] by (simp add: values_ok_def)
  from redact_scan_append [OF this s1, of final ys] s2
  have "redact_scan ?r final (pending r @ xs @ ys) = (s2, o1 @ o2, rest2)" by simp
  with False r2 show ?thesis by (simp add: redactor_feed_def)
qed

lemma redactor_feed_frame:
  assumes "redactor_feed final r xs = (r1, o1)"
  shows "rvalues r1 = rvalues r" "max_length r1 = max_length r" "replacement r1 = replacement r"
    "rule_for_value r1 = rule_for_value r"
  using assms redact_scan_frame
  by (fastforce simp: redactor_feed_def split: if_splits prod.splits)+

lemma redactor_feed_ok:
  assumes "redactor_ok r" "redactor_feed False r xs = (r1, o1)"
  shows "redactor_ok r1"
proof -
  have "length (pending r1) < max_length r1"
  proof (cases "rvalues r = []")
    case True
    with assms show ?thesis by (auto simp: redactor_feed_def redactor_ok_def)
  next
    case False
    then obtain s1 rest1 where s1: "redact_scan (r\<lparr>pending := []\<rparr>) False (pending r @ xs) = (s1, o1, rest1)"
      and r1: "r1 = s1\<lparr>pending := rest1\<rparr>"
      using assms(2) by (auto simp: redactor_feed_def split: prod.splits)
    have "length rest1 < max_length r"
      using redact_scan_rest [OF s1] assms(1) by (simp add: redactor_ok_def values_ok_def)
    then show ?thesis using redact_scan_frame(2) [OF s1] by (simp add: r1)
  qed
  with assms(1) redactor_feed_frame [OF assms(2)] show ?thesis by (simp add: redactor_ok_def)
qed

interpretation redact: stream_stage "redactor_feed False" redactor_ok
proof (unfold_locales, goal_cases)
  case (1 s)
  show ?case
  proof (cases "rvalues s = []")
    case False
    moreover have "redact_scan (s\<lparr>pending := []\<rparr>) False (pending s) = (s\<lparr>pending := []\<rparr>, [], pending s)"
      using 1 by (simp add: redact_scan.simps [of "s\<lparr>pending := []\<rparr>"] redactor_ok_def)
    ultimately show ?thesis by (simp add: redactor_feed_def)
  qed (simp add: redactor_feed_def)
next
  case 2
  then show ?case by (rule redactor_feed_append)
next
  case 3
  then show ?case by (rule redactor_feed_ok)
qed

section \<open>Abstract specification: leftmost matches, longest value first\<close>

inductive redaction :: "bytes set \<Rightarrow> bytes \<Rightarrow> bytes \<Rightarrow> bytes \<Rightarrow> nat \<Rightarrow> bool" for V rep where
  stop: "redaction V rep [] [] 0"
| copy: "\<forall>v \<in> V. \<not> prefix v (b # data) \<Longrightarrow> redaction V rep data out n \<Longrightarrow>
     redaction V rep (b # data) (b # out) n"
| hit: "v \<in> V \<Longrightarrow> v \<noteq> [] \<Longrightarrow> prefix v data \<Longrightarrow> \<forall>w \<in> V. prefix w data \<longrightarrow> length w \<le> length v \<Longrightarrow>
     redaction V rep (drop (length v) data) out n \<Longrightarrow> redaction V rep data (rep @ out) (Suc n)"

inductive_cases redaction_nilE: "redaction V rep [] out n"
inductive_cases redaction_consE: "redaction V rep (b # data) out n"

lemma redaction_deterministic:
  "redaction V rep data out n \<Longrightarrow> redaction V rep data out' n' \<Longrightarrow> out' = out \<and> n' = n"
proof (induction arbitrary: out' n' rule: redaction.induct)
  case stop
  then show ?case by (auto elim: redaction_nilE)
next
  case (copy b data out n)
  from copy.prems show ?case
  proof (cases rule: redaction.cases)
    case (copy out'')
    then show ?thesis using copy.IH by simp
  next
    case (hit v out'' n'')
    then show ?thesis using copy.hyps by blast
  qed
next
  case (hit v data out n)
  from hit.prems show ?case
  proof (cases rule: redaction.cases)
    case stop
    with hit.hyps show ?thesis by simp
  next
    case (copy b data' out'')
    with hit.hyps show ?thesis by auto
  next
    case (hit w out'' m)
    have "length w = length v" using hit \<open>v \<in> V\<close> \<open>prefix v data\<close> \<open>\<forall>w \<in> V. prefix w data \<longrightarrow> length w \<le> length v\<close>
      by (meson le_antisym)
    then show ?thesis using hit hit.IH by simp
  qed
qed

lemma redaction_zero:
  "redaction V rep data out n \<Longrightarrow> n = 0 \<Longrightarrow> out = data \<and> (\<forall>v \<in> V. v \<noteq> [] \<longrightarrow> \<not> sublist v data)"
  by (induction rule: redaction.induct) (auto simp: sublist_Cons_right)

text \<open>A run of output bytes outside the replacement is a run of the input.\<close>

lemma redaction_copied_prefix:
  "redaction V rep data out n \<Longrightarrow> rep \<noteq> [] \<Longrightarrow> set p \<inter> set rep = {} \<Longrightarrow> prefix p out \<Longrightarrow> prefix p data"
proof (induction arbitrary: p rule: redaction.induct)
  case (hit v data out n)
  then show ?case by (cases p; cases rep) auto
qed (auto simp: prefix_Cons)

lemma sublist_append_disjoint:
  assumes "sublist v (rep @ out)" "set v \<inter> set rep = {}" "v \<noteq> []"
  shows "sublist v out"
  using assms
proof (induction rep)
  case (Cons a rep)
  then have "\<not> prefix v (a # rep @ out)" by (cases v) auto
  with Cons show ?case by (auto simp: sublist_Cons_right)
qed simp

lemma redaction_hides:
  assumes "redaction V rep data out n" and "v \<in> V" "v \<noteq> []" "rep \<noteq> []" "set v \<inter> set rep = {}"
  shows "\<not> sublist v out"
  using assms
proof (induction rule: redaction.induct)
  case (copy b data out n)
  have "redaction V rep (b # data) (b # out) n" using copy.hyps by (rule redaction.copy)
  then have "prefix v (b # out) \<Longrightarrow> prefix v (b # data)"
    using redaction_copied_prefix copy.prems by blast
  then have "\<not> prefix v (b # out)" using copy.hyps copy.prems by blast
  with copy show ?case by (auto simp: sublist_Cons_right)
next
  case (hit w data out n)
  then show ?case using sublist_append_disjoint by blast
qed simp

subsection \<open>The streaming redactor implements the specification\<close>

definition hits :: "redactor \<Rightarrow> nat" where
  "hits r = sum_list (map snd (counts r))"

lemma hits_bump: "sum_list (map snd (bump_count i cs)) = Suc (sum_list (map snd cs))"
  by (induction cs) (auto simp: bump_count_def split: option.splits if_splits)

lemma hits_record_hit [simp]: "hits (record_hit r v) = Suc (hits r)"
  by (simp add: hits_def record_hit_def hits_bump)

lemma find_longest:
  assumes "sorted_wrt (\<lambda>v w. length w \<le> length v) vs" "List.find P vs = Some v" "w \<in> set vs" "P w"
  shows "length w \<le> length v"
  using assms by (induction vs) (auto split: if_splits)

lemma redact_scan_final:
  assumes "values_ok r" "sorted_wrt (\<lambda>v w. length w \<le> length v) (rvalues r)"
  shows "\<exists>r' out n. redact_scan r True data = (r', out, []) \<and>
    redaction (set (rvalues r)) (replacement r) data out n \<and>
    hits r' = hits r + n \<and> (redacted r' \<longleftrightarrow> redacted r \<or> 0 < n)"
  using assms
proof (induction r "True" data rule: redact_scan.induct)
  case (1 r data)
  show ?case
  proof (cases "data = []")
    case True
    then show ?thesis by (auto simp: redact_scan.simps intro: redaction.stop)
  next
    case ne: False
    show ?thesis
    proof (cases "List.find (\<lambda>v. prefix v data) (rvalues r)")
      case None
      then have miss: "\<forall>v \<in> set (rvalues r). \<not> prefix v (hd data # tl data)"
        using ne find_NoneD by fastforce
      from "1.hyps"(1) ne None "1.prems" obtain r' out n where
        s: "redact_scan r True (tl data) = (r', out, [])" and
        red: "redaction (set (rvalues r)) (replacement r) (tl data) out n" and
        h: "hits r' = hits r + n" "redacted r' \<longleftrightarrow> redacted r \<or> 0 < n" by blast
      from redaction.copy [OF miss red] ne
      have "redaction (set (rvalues r)) (replacement r) data (hd data # out) n" by simp
      moreover have "redact_scan r True data = (r', hd data # out, [])"
        using ne None s by (simp add: redact_scan.simps [of r True data])
      ultimately show ?thesis using h by blast
    next
      case (Some v)
      from find_SomeD [OF Some] "1.prems"(1) have v: "v \<in> set (rvalues r)" "prefix v data" "v \<noteq> []"
        by (auto simp: values_ok_def)
      have ok: "values_ok (record_hit r v)" using "1.prems"(1) by (simp add: values_ok_def)
      from "1.hyps"(2) [OF _ Some v(3) ok] ne "1.prems"(2) obtain r' out n where
        s: "redact_scan (record_hit r v) True (drop (length v) data) = (r', out, [])" and
        red: "redaction (set (rvalues r)) (replacement r) (drop (length v) data) out n" and
        h: "hits r' = Suc (hits r) + n" "redacted r'" by auto
      have "\<forall>w \<in> set (rvalues r). prefix w data \<longrightarrow> length w \<le> length v"
        using find_longest [OF "1.prems"(2) Some] by blast
      from redaction.hit [OF v(1) v(3) v(2) this red]
      have "redaction (set (rvalues r)) (replacement r) data (replacement r @ out) (Suc n)" .
      moreover have "redact_scan r True data = (r', replacement r @ out, [])"
        using ne Some v(3) s by (simp add: redact_scan.simps [of r True data])
      ultimately show ?thesis using h by (intro exI conjI) auto
    qed
  qed
qed

lemma redaction_no_values: "redaction {} rep data data 0"
  by (induction data) (auto intro: redaction.intros)

lemma redactor_final_spec:
  assumes "redactor_ok r" "pending r = []" "redactor_feed True r data = (r', out)"
  shows "\<exists>n. redaction (set (rvalues r)) (replacement r) data out n \<and> hits r' = hits r + n \<and>
    (redacted r' \<longleftrightarrow> redacted r \<or> 0 < n)"
proof (cases "rvalues r = []")
  case True
  with assms(3) redaction_no_values show ?thesis by (fastforce simp: redactor_feed_def)
next
  case False
  let ?r = "r\<lparr>pending := []\<rparr>"
  have ok: "values_ok ?r" and srt: "sorted_wrt (\<lambda>v w. length w \<le> length v) (rvalues ?r)"
    using assms(1) by (simp_all add: redactor_ok_def values_ok_def)
  from redact_scan_final [OF ok srt, of data] assms(2,3) False show ?thesis
    by (auto simp: redactor_feed_def hits_def split: prod.splits)
qed

text \<open>
  The whole life of a redactor: \<open>feed\<close> for every chunk, then \<open>feed(b"", final=True)\<close>.
\<close>

definition redact_stream :: "redactor \<Rightarrow> bytes list \<Rightarrow> redactor \<times> bytes" where
  "redact_stream r chunks =
     (let (r1, o1) = run_chunks (redactor_feed False) r chunks; (r2, o2) = redactor_feed True r1 []
      in (r2, o1 @ o2))"

lemma redact_stream_whole:
  assumes "redactor_ok r"
  shows "redact_stream r chunks = redactor_feed True r (concat chunks)"
proof -
  obtain r1 o1 where f1: "redactor_feed False r (concat chunks) = (r1, o1)" by (rule prod.exhaust)
  obtain r2 o2 where f2: "redactor_feed True r1 [] = (r2, o2)" by (rule prod.exhaust)
  from redactor_feed_append [OF assms f1 f2] show ?thesis
    using f1 f2 redact.run_chunks_concat [OF assms] by (simp add: redact_stream_def)
qed

end
