(* ===== verification/Projection.thy ===== *)
theory Projection
  imports Normalizer Redactor "HOL-Library.Multiset"
begin

text \<open>
  \<open>project_bytes\<close> of \<open>projection.py\<close>: argument checking, the pipeline redactor, decoder,
  normalizer, collector, and the result record.  The collector is shown to be a sink the
  normalizer can rely on (the interpretations \<open>collected\<close> and \<open>exactly\<close>), redactor and decoder
  form one stream stage (\<open>front\<close>), and the theorems here compose those facts into what the whole
  projection promises: bounds, no control characters, chunk independence, and that a result not
  marked lossy is the captured bytes themselves.
\<close>

section \<open>The failure collector as the normalizer's sink\<close>

definition buffer_display :: "record_buffer \<Rightarrow> bool" where
  "buffer_display buf \<longleftrightarrow> (\<forall>(t, b, l) \<in> set (records buf). display_ok t)"

definition collector_display :: "failure_collector \<Rightarrow> bool" where
  "collector_display fc \<longleftrightarrow> display_ok (characters fc) \<and> (\<forall>t \<in> set (before fc). display_ok t) \<and>
     (\<forall>b. anchors fc = Some b \<longrightarrow> buffer_display b) \<and> (\<forall>b. tail_buffer fc = Some b \<longrightarrow> buffer_display b)"

lemma evict_subset: "set (fst (evict L b l rs bc lc)) \<subseteq> set rs"
  by (induction L b l rs bc lc rule: evict.induct) auto

lemma buffer_add_display: "buffer_display buf \<Longrightarrow> display_ok t \<Longrightarrow> buffer_display (buffer_add buf t)"
  using evict_subset [of "rb_limits buf" "text_bytes t" "line_count t" "records buf"
      "rb_byte_count buf" "rb_line_count buf"]
  by (fastforce simp: buffer_display_def buffer_add_def Let_def split: prod.splits if_splits)

lemma foldl_buffer_display:
  "buffer_display buf \<Longrightarrow> \<forall>t \<in> set ts. display_ok t \<Longrightarrow> buffer_display (foldl buffer_add buf ts)"
  by (induction ts arbitrary: buf) (auto simp: buffer_add_display)

lemma buffer_text_display: "buffer_display buf \<Longrightarrow> display_ok (buffer_text buf)"
  by (auto simp: buffer_display_def buffer_text_def)

lemma buffer_init_display: "buffer_display (buffer_init L roll)"
  by (simp add: buffer_display_def buffer_init_def)

lemma add_chars_prefix: "prefix (characters (add_chars pc t)) (characters pc @ t)"
  by (induction pc t rule: add_chars.induct) (auto simp: Let_def split: prod.splits)

lemma add_chars_before [simp]: "before (add_chars fc t) = before fc"
  by (induction fc t rule: add_chars.induct) (auto simp: Let_def split: prod.splits)

lemma prefix_add_chars: "prefix (characters (prefix_add pc t)) (characters pc @ t)"
  by (simp add: prefix_add_def add_chars_prefix)

lemma trim_chars_prefix: "prefix (fst (trim_chars L b st cs)) cs"
  by (induction L b st cs rule: trim_chars.induct) (auto simp: Let_def split: prod.splits)

lemma prefix_add_display:
  assumes "collector_display fc" "display_ok t" shows "collector_display (prefix_add fc t)"
proof -
  have "display_ok (characters (prefix_add fc t))"
    using prefix_add_chars [of fc t] assms by (intro display_ok_prefix [OF prefix_add_chars])
      (simp add: collector_display_def)
  with assms show ?thesis by (simp add: collector_display_def prefix_add_def)
qed

lemma activate_selection_display:
  assumes "collector_display fc" shows "collector_display (activate_selection fc)"
proof (cases "selection_budget (pc_limits fc)")
  case None
  with assms show ?thesis by (simp add: activate_selection_def)
next
  case (Some b)
  obtain hl al tl' where b: "b = (hl, al, tl')" by (cases b)
  have "display_ok (characters (trim_to hl fc))"
    using trim_chars_prefix [of hl 0 "(0, False)" "characters fc"] assms display_ok_prefix
    by (auto simp: trim_to_def collector_display_def split: prod.splits)
  moreover have "before (trim_to hl fc) = before fc" by (simp add: trim_to_def split: prod.splits)
  ultimately show ?thesis using assms
    by (simp add: activate_selection_def Some b collector_display_def buffer_init_display)
qed

lemma select_record_display:
  assumes "collector_display fc" "buffer_display anc" "buffer_display tb" "display_ok t"
  shows "collector_display (select_record fc anc tb t a)"
proof -
  have bf: "\<forall>x \<in> set (before fc). display_ok x" "\<forall>x \<in> set (tl (before fc @ [t])). display_ok x"
    using assms by (auto simp: collector_display_def tl_append split: list.splits)
  show ?thesis using assms bf
    by (auto simp: select_record_def Let_def collector_display_def buffer_add_display foldl_buffer_display)
qed

lemma failure_add_display:
  assumes "collector_display fc" "display_ok t" shows "collector_display (failure_add fc t a)"
proof -
  let ?fc = "prefix_add fc t"
  let ?g = "if \<not> truncated fc \<and> truncated ?fc then activate_selection ?fc else ?fc"
  have g: "collector_display ?g" using assms by (simp add: prefix_add_display activate_selection_display)
  then have "anchors ?g = Some anc \<Longrightarrow> buffer_display anc" "tail_buffer ?g = Some tb \<Longrightarrow> buffer_display tb"
    for anc tb by (auto simp: collector_display_def)
  with g assms(2) show ?thesis
    by (auto simp: failure_add_def Let_def select_record_display split: option.splits)
qed

lemma ellipsis_display: "\<not> control_category 0x2026"
  by (simp add: control_category_def control_ranges_def)

lemma gap_markers_display: "m \<in> set gap_markers \<Longrightarrow> display_ok m"
  by (auto simp: gap_markers_def OMISSION_MARKER_def printable_ok ellipsis_display)

lemma with_marker_display: "display_ok q \<Longrightarrow> display_ok m \<Longrightarrow> display_ok (with_marker q m)"
  by (simp add: with_marker_def)

lemma try_markers_display:
  "display_ok p \<Longrightarrow> (\<And>m. m \<in> set ms \<Longrightarrow> display_ok m) \<Longrightarrow> display_ok (fst (try_markers L ms p))"
proof (induction ms)
  case Nil
  then show ?case by (simp add: printable_ok)
next
  case (Cons m ms)
  show ?case
  proof (cases "shrink_to_marker L m p")
    case None
    with Cons show ?thesis by simp
  next
    case (Some cand)
    then obtain q where "prefix q p" "cand = with_marker q m" using shrink_to_marker_shape by blast
    with Some Cons.prems show ?thesis by (simp add: with_marker_display display_ok_prefix)
  qed
qed

lemma prefix_finish_display: "display_ok (characters pc) \<Longrightarrow> display_ok (fst (prefix_finish pc))"
  by (simp add: prefix_finish_def try_markers_display gap_markers_display)

lemma close_section_display [simp]: "display_ok (close_section s) \<longleftrightarrow> display_ok s"
  by (simp add: close_section_def)

lemma failure_finish_display:
  assumes "collector_display fc" shows "display_ok (fst (failure_finish fc))"
proof -
  have marker: "display_ok marker_line"
    using gap_markers_display [of OMISSION_MARKER] by (simp add: marker_line_def gap_markers_def)
  have pf: "display_ok (fst (prefix_finish (prefix_add (prefix_init L) t)))" if "display_ok t" for L t
    using that display_ok_prefix [OF prefix_add_chars [of "prefix_init L" t]]
    by (intro prefix_finish_display) (simp add: prefix_init_def)
  show ?thesis using assms prefix_finish_display [of fc] pf marker
    by (auto simp: failure_finish_def Let_def collector_display_def selected_text_def
        buffer_text_display split: option.splits)
qed

definition collector_ok :: "projection_limits \<Rightarrow> failure_collector \<Rightarrow> bool" where
  "collector_ok L fc \<longleftrightarrow> failure_inv fc \<and> collector_display fc \<and> pc_limits fc = L"

lemma failure_init_ok: "limits_ok L \<Longrightarrow> collector_ok L (failure_init L)"
  by (simp add: collector_ok_def failure_init_inv collector_display_def)
     (simp add: failure_init_def prefix_init_def prefix_collector.defs failure_collector.defs)

interpretation collected: record_sink failure_add "collector_ok L"
  by unfold_locales (simp add: collector_ok_def failure_add_inv failure_add_display)

interpretation exactly: exact_sink failure_add "collector_ok L" characters "\<lambda>fc. \<not> truncated fc"
  by unfold_locales (use failure_add_exact in \<open>auto simp: collector_ok_def\<close>)

section \<open>Arguments of a projection\<close>

datatype value_arg = BytesArg bytes | StrArg pystr
datatype chunk_arg = BytesChunk bytes | OtherChunk

text \<open>
  \<open>str.encode("utf-8")\<close> raises \<open>UnicodeEncodeError\<close>, a \<open>ValueError\<close>, on a lone surrogate.
\<close>

definition encode_str :: "pystr \<Rightarrow> bytes result" where
  "encode_str s = (if list_all is_scalar s then Inr (utf8_encode s)
                   else Inl (ValueError ''surrogates not allowed''))"

fun coerce_value :: "value_arg \<Rightarrow> bytes result" where
  "coerce_value (StrArg s) = encode_str s"
| "coerce_value (BytesArg b) = Inr b"

definition coerce_values :: "value_arg list \<Rightarrow> bytes list result" where
  "coerce_values = mapM_r coerce_value"

definition coerce_rules :: "(pystr \<times> value_arg list) list \<Rightarrow> (pystr \<times> bytes) list result" where
  "coerce_rules rules =
     bind_r (mapM_r (\<lambda>(ident, vals). bind_r (coerce_values vals) (\<lambda>vs. Inr (map (Pair ident) vs)))
       (sort_key fst rules)) (\<lambda>groups. Inr (concat groups))"

record projection_args =
  arg_exact_values :: "value_arg list"
  arg_exact_secrets :: "value_arg list option"
  arg_redaction_rules :: "(pystr \<times> value_arg list) list option"
  arg_replacement :: value_arg
  arg_limits :: "projection_limits option"
  arg_max_bytes :: int
  arg_max_lines :: int
  arg_max_estimated_tokens :: int

definition default_args :: projection_args where
  "default_args = \<lparr>arg_exact_values = [], arg_exact_secrets = None, arg_redaction_rules = None,
     arg_replacement = BytesArg ''[REDACTED]'', arg_limits = None, arg_max_bytes = 65536,
     arg_max_lines = 2000, arg_max_estimated_tokens = 16000\<rparr>"

definition resolve_limits :: "projection_args \<Rightarrow> projection_limits result" where
  "resolve_limits a =
     (case arg_limits a of
        None \<Rightarrow> mk_limits (arg_max_bytes a) (arg_max_lines a) (arg_max_estimated_tokens a)
      | Some L \<Rightarrow>
          if (arg_max_bytes a, arg_max_lines a, arg_max_estimated_tokens a) \<noteq> (65536, 2000, 16000)
          then Inl (ValueError ''pass either limits or individual limit arguments, not both'')
          else Inr L)"

definition resolve_values :: "projection_args \<Rightarrow> value_arg list result" where
  "resolve_values a =
     (case arg_exact_secrets a of
        None \<Rightarrow> Inr (arg_exact_values a)
      | Some secrets \<Rightarrow>
          if arg_exact_values a \<noteq> []
          then Inl (ValueError ''pass either exact_values or exact_secrets, not both'')
          else Inr secrets)"

definition EXACT_VALUE :: pystr where
  "EXACT_VALUE = lit ''exact-value''"

definition build_redactor :: "projection_args \<Rightarrow> redactor result" where
  "build_redactor a =
     bind_r (resolve_values a) (\<lambda>vals.
     bind_r (check_r (arg_redaction_rules a = None \<or> vals = [])
               (ValueError ''pass exact_redaction_rules or exact values, not both'')) (\<lambda>_.
     bind_r (coerce_value (arg_replacement a)) (\<lambda>repl.
     bind_r (check_r (repl \<noteq> []) (ValueError ''replacement must not be empty'')) (\<lambda>_.
     bind_r (case arg_redaction_rules a of
               Some rules \<Rightarrow> coerce_rules rules
             | None \<Rightarrow> bind_r (coerce_values vals) (\<lambda>vs. Inr (map (Pair EXACT_VALUE) vs))) (\<lambda>rules.
     mk_redactor rules repl)))))"

section \<open>The pipeline\<close>

definition PROCESSING_CHUNK_BYTES :: nat where
  "PROCESSING_CHUNK_BYTES = 64 * 1024"

function subchunks :: "nat \<Rightarrow> bytes \<Rightarrow> bytes list" where
  "subchunks step chunk =
     (if chunk = [] \<or> step = 0 then [] else take step chunk # subchunks step (drop step chunk))"
  by pat_completeness auto
termination
  by (relation "measure (\<lambda>(step, chunk). length chunk)") auto

declare subchunks.simps [simp del]

record pipeline =
  p_redactor :: redactor
  p_decoder :: bytes
  p_normalizer :: "failure_collector normalizer"

definition process_subchunk :: "pipeline \<Rightarrow> bytes \<Rightarrow> pipeline" where
  "process_subchunk p bs =
     (let (r, red) = redactor_feed False (p_redactor p) bs;
          (d, text_out) = decoder_feed (p_decoder p) red
      in \<lparr>p_redactor = r, p_decoder = d, p_normalizer = normalizer_feed failure_add (p_normalizer p) text_out\<rparr>)"

fun process_chunks :: "pipeline \<Rightarrow> chunk_arg list \<Rightarrow> pipeline result" where
  "process_chunks p [] = Inr p"
| "process_chunks p (OtherChunk # cs) = Inl (TypeError ''projection chunks must be bytes'')"
| "process_chunks p (BytesChunk c # cs) =
     process_chunks (foldl process_subchunk p (subchunks PROCESSING_CHUNK_BYTES c)) cs"

record projection_result =
  pr_output :: bytes
  pr_text :: pystr
  pr_bytes :: int
  pr_lines :: int
  pr_estimated_tokens :: int
  pr_lossy :: bool
  pr_normalized :: bool
  pr_redacted :: bool
  pr_sha256 :: string
  pr_gap_marker :: "pystr option"
  pr_redaction_rules :: "redaction_rule list"

definition pr_digest :: "projection_result \<Rightarrow> string" where
  "pr_digest res = ''sha256:'' @ pr_sha256 res"

definition pr_omitted :: "projection_result \<Rightarrow> bool" where
  "pr_omitted res \<longleftrightarrow> pr_gap_marker res \<noteq> None"

definition projection_of :: "redactor \<Rightarrow> failure_collector normalizer \<Rightarrow> projection_result" where
  "projection_of r n =
     (let n = normalizer_finish failure_add n;
          collector = (sink n)\<lparr>truncated := truncated (sink n) \<or> line_clipped n\<rparr>;
          (text, gap_marker) = failure_finish collector;
          output = utf8_encode text
      in \<lparr>pr_output = output, pr_text = text, pr_bytes = int (length output),
          pr_lines = line_count text, pr_estimated_tokens = estimate_tokens (int (length output)),
          pr_lossy = redacted r \<or> controls_changed n \<or> repetition_collapsed n \<or>
            gap_marker \<noteq> None \<or> replacement_char \<in> set text,
          pr_normalized = True, pr_redacted = redacted r, pr_sha256 = sha256_hex output,
          pr_gap_marker = gap_marker, pr_redaction_rules = redactor_rules r\<rparr>)"

definition finish_pipeline :: "pipeline \<Rightarrow> projection_result" where
  "finish_pipeline p =
     (let (r, red) = redactor_feed True (p_redactor p) [];
          decoded = decoder_final (p_decoder p) red
      in projection_of r (normalizer_feed failure_add (p_normalizer p) decoded))"

definition project_bytes :: "chunk_arg list \<Rightarrow> projection_args \<Rightarrow> projection_result result" where
  "project_bytes chunks a =
     bind_r (resolve_limits a) (\<lambda>L.
     bind_r (build_redactor a) (\<lambda>r.
     bind_r (process_chunks \<lparr>p_redactor = r, p_decoder = [],
               p_normalizer = normalizer_init (failure_init L) L\<rparr> chunks) (\<lambda>p.
     Inr (finish_pipeline p))))"

section \<open>One pass over the whole stream\<close>

text \<open>
  The reference: redact, decode and normalise the whole stream at once, with no buffering and no
  chunk boundaries.
\<close>

definition project_whole :: "projection_limits \<Rightarrow> redactor \<Rightarrow> bytes \<Rightarrow> projection_result" where
  "project_whole L r data =
     (let (r', red) = redactor_feed True r data
      in projection_of r' (normalizer_feed failure_add (normalizer_init (failure_init L) L) (utf8_decode red)))"

fun chunk_bytes :: "chunk_arg \<Rightarrow> bytes" where
  "chunk_bytes (BytesChunk c) = c"
| "chunk_bytes OtherChunk = []"

interpretation front: stage_pipeline "redactor_feed False" redactor_ok decoder_feed decoder_ok
  by unfold_locales

lemma concat_subchunks: "0 < step \<Longrightarrow> concat (subchunks step chunk) = chunk"
proof (induction step chunk rule: subchunks.induct)
  case (1 step chunk)
  then show ?case by (cases "chunk = []") (simp_all add: subchunks.simps [of step chunk] subchunks.simps [of step "[]"])
qed

lemma process_subchunks:
  assumes "run_chunks (seq_feed (redactor_feed False) decoder_feed) (p_redactor p, p_decoder p) cs = ((r, d), text_out)"
  shows "foldl process_subchunk p cs = \<lparr>p_redactor = r, p_decoder = d,
    p_normalizer = normalizer_feed failure_add (p_normalizer p) text_out\<rparr>"
  using assms
proof (induction cs arbitrary: p text_out)
  case Nil
  then show ?case by (simp add: normalizer_feed_def)
next
  case (Cons c cs)
  obtain r1 red where f: "redactor_feed False (p_redactor p) c = (r1, red)" by (rule prod.exhaust)
  obtain d1 t1 where g: "decoder_feed (p_decoder p) red = (d1, t1)" by (rule prod.exhaust)
  obtain st t2 where rest: "run_chunks (seq_feed (redactor_feed False) decoder_feed) (r1, d1) cs = (st, t2)"
    by (rule prod.exhaust)
  have "seq_feed (redactor_feed False) decoder_feed (p_redactor p, p_decoder p) c = ((r1, d1), t1)"
    by (simp add: seq_feed_def f g)
  with Cons.prems rest have "st = (r, d)" "text_out = t1 @ t2" by simp_all
  with Cons.IH [of "process_subchunk p c" t2] rest f g show ?case
    by (simp add: process_subchunk_def normalizer_feed_append)
qed

lemma process_chunks_foldl:
  assumes "process_chunks p cs = Inr q"
  shows "q = foldl process_subchunk p (concat (map (subchunks PROCESSING_CHUNK_BYTES \<circ> chunk_bytes) cs)) \<and>
    OtherChunk \<notin> set cs"
  using assms by (induction p cs rule: process_chunks.induct) auto

lemma concat_pieces:
  "concat (concat (map (subchunks PROCESSING_CHUNK_BYTES \<circ> chunk_bytes) cs)) = concat (map chunk_bytes cs)"
  by (induction cs) (simp_all add: concat_subchunks PROCESSING_CHUNK_BYTES_def)

lemma build_redactor_ok:
  assumes "build_redactor a = Inr r"
  shows "redactor_ok r \<and> pending r = [] \<and> \<not> redacted r \<and> replacement r \<noteq> []"
  using assms mk_redactor_ok by (auto simp: build_redactor_def bind_r_Inr_iff)

lemma resolve_limits_ok:
  "(\<And>L. arg_limits a = Some L \<Longrightarrow> limits_ok L) \<Longrightarrow> resolve_limits a = Inr L \<Longrightarrow> limits_ok L"
  by (auto simp: resolve_limits_def mk_limits_ok split: option.splits if_splits)

text \<open>The chunked pipeline computes the reference on the concatenation of its chunks.\<close>

lemma pipeline_whole:
  assumes r: "redactor_ok r"
    and p: "process_chunks \<lparr>p_redactor = r, p_decoder = [], p_normalizer = normalizer_init (failure_init L) L\<rparr> cs = Inr p"
  shows "finish_pipeline p = project_whole L r (concat (map chunk_bytes cs))"
proof -
  let ?data = "concat (map chunk_bytes cs)"
  obtain r1 o1 where f1: "redactor_feed False r ?data = (r1, o1)" by (rule prod.exhaust)
  obtain d1 t1 where g1: "decoder_feed [] o1 = (d1, t1)" by (rule prod.exhaust)
  obtain r2 o2 where f2: "redactor_feed True r1 [] = (r2, o2)" by (rule prod.exhaust)
  have "run_chunks (seq_feed (redactor_feed False) decoder_feed) (r, [])
      (concat (map (subchunks PROCESSING_CHUNK_BYTES \<circ> chunk_bytes) cs)) = ((r1, d1), t1)"
    using front.run_chunks_concat [of "(r, [])"] r f1 g1
    by (simp add: decoder_ok_nil concat_pieces seq_feed_def)
  with process_chunks_foldl [OF p] process_subchunks
  have "p = \<lparr>p_redactor = r1, p_decoder = d1,
      p_normalizer = normalizer_feed failure_add (normalizer_init (failure_init L) L) t1\<rparr>" by fastforce
  moreover have "t1 @ decoder_final d1 o2 = utf8_decode (o1 @ o2)" using g1 by (rule decoder_total)
  moreover have "redactor_feed True r ?data = (r2, o1 @ o2)"
    using redactor_feed_append [OF r f1 f2] by simp
  ultimately show ?thesis
    by (simp add: finish_pipeline_def project_whole_def f2 flip: normalizer_feed_append)
qed

lemma project_bytes_whole:
  assumes "project_bytes cs a = Inr res"
  obtains L r where "resolve_limits a = Inr L" "build_redactor a = Inr r" "redactor_ok r" "OtherChunk \<notin> set cs"
    "res = project_whole L r (concat (map chunk_bytes cs))"
  using assms pipeline_whole build_redactor_ok process_chunks_foldl
  by (fastforce simp: project_bytes_def bind_r_Inr_iff)

section \<open>What a projection promises\<close>

definition run_normalizer :: "projection_limits \<Rightarrow> pystr \<Rightarrow> failure_collector normalizer" where
  "run_normalizer L t =
     normalizer_finish failure_add (normalizer_feed failure_add (normalizer_init (failure_init L) L) t)"

definition final_collector :: "projection_limits \<Rightarrow> pystr \<Rightarrow> failure_collector" where
  "final_collector L t =
     (sink (run_normalizer L t))\<lparr>truncated := truncated (sink (run_normalizer L t)) \<or> line_clipped (run_normalizer L t)\<rparr>"

lemma final_collector_simps [simp]:
  "truncated (final_collector L t) \<longleftrightarrow> truncated (sink (run_normalizer L t)) \<or> line_clipped (run_normalizer L t)"
  "characters (final_collector L t) = characters (sink (run_normalizer L t))"
  by (simp_all add: final_collector_def)

lemma final_collector_ok:
  assumes "limits_ok L"
  shows "failure_inv (final_collector L t)" "collector_display (final_collector L t)"
    "pc_limits (final_collector L t) = L"
proof -
  have "collector_ok L (sink (run_normalizer L t))"
    unfolding run_normalizer_def using assms by (intro collected.sink_inv failure_init_ok)
  then show "failure_inv (final_collector L t)" "collector_display (final_collector L t)"
    "pc_limits (final_collector L t) = L"
    by (auto simp: final_collector_def collector_ok_def failure_inv_def collector_display_def
        prefix_inv_def counters_agree_def)
qed

lemma project_whole_text:
  assumes "redactor_feed True r data = (r', red)"
  shows "pr_text (project_whole L r data) = fst (failure_finish (final_collector L (utf8_decode red)))"
    and "pr_gap_marker (project_whole L r data) = snd (failure_finish (final_collector L (utf8_decode red)))"
    and "pr_lossy (project_whole L r data) \<longleftrightarrow> redacted r' \<or> controls_changed (run_normalizer L (utf8_decode red)) \<or>
      repetition_collapsed (run_normalizer L (utf8_decode red)) \<or>
      pr_gap_marker (project_whole L r data) \<noteq> None \<or> replacement_char \<in> set (pr_text (project_whole L r data))"
    and "pr_redacted (project_whole L r data) \<longleftrightarrow> redacted r'"
    and "pr_redaction_rules (project_whole L r data) = redactor_rules r'"
  using assms
  by (simp_all add: project_whole_def projection_of_def Let_def final_collector_def
      split: prod.splits flip: run_normalizer_def)

lemma project_whole_metadata:
  "let res = project_whole L r data in
   pr_output res = utf8_encode (pr_text res) \<and> pr_bytes res = text_bytes (pr_text res) \<and>
   pr_lines res = line_count (pr_text res) \<and> pr_estimated_tokens res = estimate_tokens (pr_bytes res) \<and>
   pr_sha256 res = sha256_hex (pr_output res) \<and> pr_normalized res"
  by (simp add: project_whole_def projection_of_def Let_def text_bytes_def split: prod.splits)

lemma project_whole_fits:
  assumes "limits_ok L" shows "fits (pr_text (project_whole L r data)) L"
proof -
  obtain r' red where red: "redactor_feed True r data = (r', red)" by (rule prod.exhaust)
  from failure_finish_fits [OF final_collector_ok(1) [OF assms]] assms show ?thesis
    by (simp add: project_whole_text(1) [OF red] final_collector_ok(3) [OF assms])
qed

lemma project_whole_display:
  assumes "limits_ok L" shows "display_ok (pr_text (project_whole L r data))"
proof -
  obtain r' red where red: "redactor_feed True r data = (r', red)" by (rule prod.exhaust)
  show ?thesis unfolding project_whole_text(1) [OF red]
    by (rule failure_finish_display [OF final_collector_ok(2) [OF assms]])
qed

text \<open>A text that is complete, unflagged and unmarked is the decoded stream.\<close>

lemma project_whole_unflagged:
  assumes L: "limits_ok L" and red: "redactor_feed True r data = (r', red)"
    and g: "pr_gap_marker (project_whole L r data) = None"
    and f: "\<not> controls_changed (run_normalizer L (utf8_decode red))"
      "\<not> repetition_collapsed (run_normalizer L (utf8_decode red))"
  shows "pr_text (project_whole L r data) = utf8_decode red"
proof -
  let ?t = "utf8_decode red"
  note ok = final_collector_ok [OF L, of ?t]
  have "\<not> truncated (final_collector L ?t)"
    using g failure_finish_None_iff [OF ok(1)] L by (simp add: ok(3) project_whole_text(2) [OF red])
  then have nt: "\<not> truncated (sink (run_normalizer L ?t))" "\<not> line_clipped (run_normalizer L ?t)" by auto
  then have "flags_clear (run_normalizer L ?t)" using f by (simp add: flags_clear_def)
  with exactly.normalizer_exact [OF failure_init_ok [OF L]] nt(1)
  have "characters (sink (run_normalizer L ?t)) = ?t" by (simp add: run_normalizer_def)
  moreover have "fst (failure_finish (final_collector L ?t)) = characters (sink (run_normalizer L ?t))"
    using failure_finish_exact [of "final_collector L ?t"] nt ok by simp
  ultimately show ?thesis by (simp add: project_whole_text(1) [OF red])
qed

lemma project_whole_exact:
  assumes L: "limits_ok L" and r: "redactor_ok r" "pending r = []" "\<not> redacted r"
    and nl: "\<not> pr_lossy (project_whole L r data)"
  shows "pr_output (project_whole L r data) = data"
proof -
  obtain r' red where red: "redactor_feed True r data = (r', red)" by (rule prod.exhaust)
  note l = nl [unfolded project_whole_text(3) [OF red]]
  from redactor_final_spec [OF r(1,2) red] obtain n where
    "redaction (set (rvalues r)) (replacement r) data red n" "redacted r' \<longleftrightarrow> redacted r \<or> 0 < n" by blast
  with l have "red = data" using redaction_zero by fastforce
  have t: "pr_text (project_whole L r data) = utf8_decode red"
    using l by (intro project_whole_unflagged [OF L red]) auto
  with l have "replacement_char \<notin> set (utf8_decode red)" by simp
  then have "utf8_encode (utf8_decode red) = red" by (rule utf8_encode_decode)
  with t \<open>red = data\<close> project_whole_metadata [of L r data] show ?thesis by (simp add: Let_def)
qed

lemma try_markers_shows:
  "try_markers L ms p = (t, Some m) \<Longrightarrow> m \<in> insert (lit ''.'') (set ms) \<and> suffix m t"
proof (induction ms)
  case (Cons k ms)
  show ?case
  proof (cases "shrink_to_marker L k p")
    case None
    with Cons show ?thesis by auto
  next
    case (Some cand)
    with Cons.prems have "m = k" "t = cand" by simp_all
    with shrink_to_marker_shape [OF Some] show ?thesis by (auto simp: with_marker_def suffix_def)
  qed
qed auto

lemma prefix_finish_shows:
  assumes "prefix_finish pc = (t, Some m)" shows "m \<in> insert (lit ''.'') (set gap_markers) \<and> sublist m t"
proof -
  from assms have "try_markers (pc_limits pc) gap_markers (characters pc) = (t, Some m)"
    by (simp add: prefix_finish_def split: if_splits)
  from try_markers_shows [OF this] show ?thesis by (blast intro: suffix_imp_sublist)
qed

lemma selected_text_shows: "sublist OMISSION_MARKER (selected_text h a t)"
proof -
  have "selected_text h a t = close_section h @ OMISSION_MARKER @
      ([newline] @ close_section a @ marker_line @ close_section t)"
    by (simp add: selected_text_def marker_line_def)
  then show ?thesis by (simp only: sublist_appendI)
qed

lemma failure_finish_cases:
  obtains "failure_finish fc = prefix_finish fc"
  | t where "failure_finish fc = prefix_finish (prefix_add (prefix_init (pc_limits fc)) t)"
  | h a u where "failure_finish fc = (selected_text h a u, Some OMISSION_MARKER)"
proof (cases "selection_active fc \<and> failure_found fc \<and> anchors fc \<noteq> None \<and> tail_buffer fc \<noteq> None")
  case False
  then have "failure_finish fc = prefix_finish fc" by (auto simp: failure_finish_def split: option.splits)
  then show ?thesis by (rule that(1))
next
  case True
  then obtain anc tb where b: "anchors fc = Some anc" "tail_buffer fc = Some tb" by auto
  let ?t = "selected_text (characters fc) (buffer_text anc) (buffer_text tb)"
  show ?thesis
  proof (cases "fits ?t (pc_limits fc)")
    case fit: True
    then have "failure_finish fc = (?t, Some OMISSION_MARKER)" using True b by (simp add: failure_finish_def)
    then show ?thesis by (rule that(3))
  next
    case nofit: False
    then have "failure_finish fc = prefix_finish (prefix_add (prefix_init (pc_limits fc)) ?t)"
      using True b by (simp add: failure_finish_def)
    then show ?thesis by (rule that(2))
  qed
qed

lemma failure_finish_shows:
  assumes "failure_finish fc = (t, Some m)"
  shows "m \<in> insert (lit ''.'') (set gap_markers) \<and> sublist m t"
proof (cases rule: failure_finish_cases [of fc])
  case 1
  with assms show ?thesis by (intro prefix_finish_shows) simp
next
  case 2
  with assms show ?thesis by (intro prefix_finish_shows) simp
next
  case 3
  with assms show ?thesis using selected_text_shows by (auto simp: gap_markers_def)
qed

lemma redactor_rules_total: "sum_list (map rule_count (redactor_rules r)) = hits r"
proof -
  have "sum_list (map snd (sort (counts r))) = sum_list (map snd (counts r))"
    by (metis mset_map mset_sort sum_mset_sum_list)
  then show ?thesis by (simp add: redactor_rules_def hits_def comp_def case_prod_unfold)
qed

definition plain_redactor :: "redactor \<Rightarrow> redactor" where
  "plain_redactor r = r\<lparr>rvalues := []\<rparr>"

lemma project_whole_redacted_text:
  assumes "redactor_feed True r data = (r', red)"
  shows "pr_text (project_whole L r data) = pr_text (project_whole L (plain_redactor r) red)"
proof -
  have "redactor_feed True (plain_redactor r) red = (plain_redactor r, red)"
    by (simp add: redactor_feed_def plain_redactor_def)
  from project_whole_text(1) [OF this] project_whole_text(1) [OF assms] show ?thesis by simp
qed

section \<open>Concrete projections\<close>

definition default_limits :: projection_limits where
  "default_limits = \<lparr>max_bytes = 65536, max_lines = 2000, max_estimated_tokens = 16000\<rparr>"

definition secret_args :: projection_args where
  "secret_args = default_args\<lparr>arg_exact_values := [BytesArg ''hunter2'']\<rparr>"

lemma default_args_simps [simp]: "arg_limits default_args = None" "arg_limits secret_args = None"
  by (simp_all add: default_args_def secret_args_def)

lemma default_setup:
  "resolve_limits default_args = Inr default_limits" "resolve_limits secret_args = Inr default_limits"
  "build_redactor default_args = Inr \<lparr>rvalues = [], rule_for_value = [], counts = [], max_length = 1,
     replacement = ''[REDACTED]'', pending = [], redacted = False\<rparr>"
  "build_redactor secret_args = Inr \<lparr>rvalues = [''hunter2''], rule_for_value = [(''hunter2'', EXACT_VALUE)],
     counts = [], max_length = 7, replacement = ''[REDACTED]'', pending = [], redacted = False\<rparr>"
  by code_simp+

lemma process_chunks_total: "\<exists>p. process_chunks p0 (map BytesChunk cs) = Inr p"
  by (induction cs arbitrary: p0) auto

lemma project_bytes_eq:
  assumes "resolve_limits a = Inr L" "build_redactor a = Inr r"
  shows "project_bytes (map BytesChunk cs) a = Inr (project_whole L r (concat cs))"
proof -
  obtain p where p: "process_chunks \<lparr>p_redactor = r, p_decoder = [],
      p_normalizer = normalizer_init (failure_init L) L\<rparr> (map BytesChunk cs) = Inr p"
    using process_chunks_total by blast
  have "map (chunk_bytes \<circ> BytesChunk) cs = cs" by (simp add: map_idI)
  with pipeline_whole [OF _ p] build_redactor_ok [OF assms(2)]
  have "finish_pipeline p = project_whole L r (concat cs)" by simp
  with assms p show ?thesis by (simp add: project_bytes_def)
qed

lemma projected_total:
  "\<exists>res. project_bytes (map BytesChunk cs) default_args = Inr res"
  "\<exists>res. project_bytes (map BytesChunk cs) secret_args = Inr res"
  using project_bytes_eq default_setup by blast+

section \<open>Properties of the projection\<close>

text \<open>
  C1.  A projection never exceeds its hard limits: whatever the chunks, rules and limits, the
  encoded output has at most \<open>max_bytes\<close> bytes, \<open>max_lines\<close> lines and \<open>max_estimated_tokens\<close>
  estimated tokens, and the counts and the digest in the result are those of the output.
\<close>

theorem project_bytes_bounded:
  assumes "project_bytes cs a = Inr res" and "\<And>L. arg_limits a = Some L \<Longrightarrow> limits_ok L"
  shows "\<exists>L. resolve_limits a = Inr L \<and> int (length (pr_output res)) \<le> max_bytes L \<and>
    line_count (pr_text res) \<le> max_lines L \<and>
    estimate_tokens (int (length (pr_output res))) \<le> max_estimated_tokens L \<and>
    pr_output res = utf8_encode (pr_text res) \<and> pr_bytes res = int (length (pr_output res)) \<and>
    pr_lines res = line_count (pr_text res) \<and> pr_estimated_tokens res = estimate_tokens (pr_bytes res) \<and>
    pr_sha256 res = sha256_hex (pr_output res)"
proof -
  from assms(1) obtain L r where L: "resolve_limits a = Inr L"
    and res: "res = project_whole L r (concat (map chunk_bytes cs))" by (rule project_bytes_whole)
  have "limits_ok L" using resolve_limits_ok [OF assms(2) L] by blast
  from project_whole_fits [OF this, of r "concat (map chunk_bytes cs)"]
    project_whole_metadata [of L r "concat (map chunk_bytes cs)"] L show ?thesis
    by (auto simp: res fits_def text_bytes_def Let_def)
qed

theorem project_bytes_bounded_witness:
  "\<exists>res. project_bytes [BytesChunk ''line one'', BytesChunk ''rest''] default_args = Inr res \<and>
     int (length (pr_output res)) \<le> 65536"
proof -
  obtain res where res: "project_bytes [BytesChunk ''line one'', BytesChunk ''rest''] default_args = Inr res"
    using projected_total(1) [of "[''line one'', ''rest'']"] by auto
  from project_bytes_bounded [OF res] default_setup(1) res show ?thesis by (auto simp: default_limits_def)
qed

text \<open>
  C2.  A projection not marked \<open>lossy\<close> is the captured stream itself, byte for byte: the flag
  covers every way in which redaction, decoding, control neutralisation, repetition and progress
  collapsing, line clipping and truncation can change the output.
\<close>

theorem project_bytes_lossless:
  assumes "project_bytes cs a = Inr res" and "\<And>L. arg_limits a = Some L \<Longrightarrow> limits_ok L"
    and "\<not> pr_lossy res"
  shows "pr_output res = concat (map chunk_bytes cs)"
proof -
  from assms(1) obtain L r where L: "resolve_limits a = Inr L" and r: "build_redactor a = Inr r"
    and res: "res = project_whole L r (concat (map chunk_bytes cs))" by (rule project_bytes_whole)
  have "limits_ok L" using resolve_limits_ok [OF assms(2) L] by blast
  with build_redactor_ok [OF r] assms(3) show ?thesis unfolding res by (intro project_whole_exact) auto
qed

lemma run_example:
  "failure_finish (final_collector default_limits (utf8_decode ''ok'')) = (lit ''ok'', None)"
  "\<not> controls_changed (run_normalizer default_limits (utf8_decode ''ok''))"
  "\<not> repetition_collapsed (run_normalizer default_limits (utf8_decode ''ok''))"
  by code_simp+

theorem project_bytes_lossless_witness:
  "\<exists>res. project_bytes [BytesChunk ''o'', BytesChunk ''k''] default_args = Inr res \<and>
     \<not> pr_lossy res \<and> pr_output res = ''ok''"
proof -
  obtain r where r: "build_redactor default_args = Inr r" "rvalues r = []" "\<not> redacted r"
    using default_setup(3) by simp
  have feed: "redactor_feed True r ''ok'' = (r, ''ok'')" using r(2) by (simp add: redactor_feed_def)
  have res: "project_bytes [BytesChunk ''o'', BytesChunk ''k''] default_args =
      Inr (project_whole default_limits r ''ok'')"
    using project_bytes_eq [OF default_setup(1) r(1), of "[''o'', ''k'']"] by simp
  have nl: "\<not> pr_lossy (project_whole default_limits r ''ok'')"
    using run_example r(3) project_whole_text [OF feed, of default_limits] by simp
  from project_bytes_lossless [OF res _ nl] res nl show ?thesis by simp
qed

text \<open>
  C3.  Projected text cannot drive a terminal: apart from line feeds it contains no character of
  the Unicode categories \<open>Cc\<close>, \<open>Cf\<close> and \<open>Cs\<close>, in particular no escape, carriage return or
  bidirectional override.
\<close>

theorem project_bytes_no_controls:
  assumes "project_bytes cs a = Inr res" and "\<And>L. arg_limits a = Some L \<Longrightarrow> limits_ok L"
    and "c \<in> set (pr_text res)" "c \<noteq> newline"
  shows "\<not> control_category c"
proof -
  from assms(1) obtain L r where L: "resolve_limits a = Inr L"
    and res: "res = project_whole L r (concat (map chunk_bytes cs))" by (rule project_bytes_whole)
  have "limits_ok L" using resolve_limits_ok [OF assms(2) L] by blast
  from project_whole_display [OF this, of r "concat (map chunk_bytes cs)"] assms(3,4) show ?thesis
    by (auto simp: res display_ok_def)
qed

theorem project_bytes_no_controls_witness:
  "\<exists>res. project_bytes [BytesChunk ''ok''] default_args = Inr res \<and> 107 \<in> set (pr_text res) \<and>
     \<not> control_category 107"
proof -
  obtain r where r: "build_redactor default_args = Inr r" "rvalues r = []"
    using default_setup(3) by simp
  have feed: "redactor_feed True r ''ok'' = (r, ''ok'')" using r(2) by (simp add: redactor_feed_def)
  have res: "project_bytes [BytesChunk ''ok''] default_args = Inr (project_whole default_limits r ''ok'')"
    using project_bytes_eq [OF default_setup(1) r(1), of "[''ok'']"] by simp
  have k: "107 \<in> set (pr_text (project_whole default_limits r ''ok''))"
    using run_example(1) project_whole_text(1) [OF feed, of default_limits] by simp
  from project_bytes_no_controls [OF res _ k] res k show ?thesis by auto
qed

text \<open>
  C4.  A projection does not depend on how the stream was cut into chunks: two chunk sequences
  with the same concatenation give the same result, also when a secret, a UTF-8 sequence or a
  line spans a boundary.
\<close>

theorem project_bytes_chunking:
  assumes "concat cs = concat ds"
  shows "project_bytes (map BytesChunk cs) a = project_bytes (map BytesChunk ds) a"
proof (cases "resolve_limits a")
  case (Inl e)
  then show ?thesis by (simp add: project_bytes_def)
next
  case (Inr L)
  show ?thesis
  proof (cases "build_redactor a")
    case (Inl e)
    with Inr show ?thesis by (simp add: project_bytes_def)
  next
    case r: (Inr r)
    show ?thesis by (simp add: project_bytes_eq [OF Inr r] assms)
  qed
qed

theorem project_bytes_chunking_witness:
  "project_bytes (map BytesChunk [''hunt'', ''er2 and'', '' more'']) secret_args =
   project_bytes (map BytesChunk [''hunter2 and more'']) secret_args"
  by (rule project_bytes_chunking) simp

text \<open>
  C5.  Redaction is complete before anything else looks at the stream: the projected text is a
  function of the redacted bytes alone (two streams with the same redaction have the same text),
  those bytes are the leftmost longest-match redaction of the stream, the reported rule counts add
  up to the number of replacements, \<open>redacted\<close> says whether there was one, and no secret that
  shares no byte with the replacement occurs in them.
\<close>

theorem project_bytes_redacts:
  assumes "project_bytes cs a = Inr res"
  shows "\<exists>L r red n. resolve_limits a = Inr L \<and> build_redactor a = Inr r \<and>
    redaction (set (rvalues r)) (replacement r) (concat (map chunk_bytes cs)) red n \<and>
    pr_text res = pr_text (project_whole L (plain_redactor r) red) \<and>
    (pr_redacted res \<longleftrightarrow> 0 < n) \<and> sum_list (map rule_count (pr_redaction_rules res)) = n \<and>
    (\<forall>v \<in> set (rvalues r). set v \<inter> set (replacement r) = {} \<longrightarrow> \<not> sublist v red)"
proof -
  let ?data = "concat (map chunk_bytes cs)"
  from assms obtain L r where L: "resolve_limits a = Inr L" and r: "build_redactor a = Inr r"
    and res: "res = project_whole L r ?data" by (rule project_bytes_whole)
  note ok = build_redactor_ok [OF r]
  obtain r' red where red: "redactor_feed True r ?data = (r', red)" by (rule prod.exhaust)
  from redactor_final_spec [OF _ _ red] ok obtain n where
    n: "redaction (set (rvalues r)) (replacement r) ?data red n" "hits r' = hits r + n"
      "redacted r' \<longleftrightarrow> redacted r \<or> 0 < n" by blast
  have "counts r = []" using r mk_redactor_ok(4) by (auto simp: build_redactor_def bind_r_Inr_iff)
  then have "sum_list (map rule_count (redactor_rules r')) = n"
    using n(2) by (simp add: redactor_rules_total hits_def)
  moreover have "\<forall>v \<in> set (rvalues r). v \<noteq> []" using ok by (auto simp: redactor_ok_def)
  ultimately show ?thesis
    using L r n ok project_whole_redacted_text [OF red] project_whole_text(4,5) [OF red] redaction_hides
    by (intro exI conjI) (auto simp: res)
qed

theorem project_bytes_redacts_witness:
  "\<exists>res r red n. project_bytes (map BytesChunk [''pw=hun'', ''ter2'']) secret_args = Inr res \<and>
     build_redactor secret_args = Inr r \<and>
     redaction (set (rvalues r)) (replacement r) ''pw=hunter2'' red n \<and> \<not> sublist ''hunter2'' red"
proof -
  obtain res where res: "project_bytes (map BytesChunk [''pw=hun'', ''ter2'']) secret_args = Inr res"
    using projected_total(2) by blast
  from project_bytes_redacts [OF res] res default_setup(4) show ?thesis by fastforce
qed

text \<open>
  Omission is always explicit: a projection carries a gap marker exactly when it could not
  keep the whole normalised stream, and the marker it names is one of the fixed markers and
  occurs in the text.
\<close>

theorem project_bytes_gap_marker:
  assumes "project_bytes cs a = Inr res" and "\<And>L. arg_limits a = Some L \<Longrightarrow> limits_ok L"
  shows "case pr_gap_marker res of
      None \<Rightarrow> \<exists>L r r' red. resolve_limits a = Inr L \<and> build_redactor a = Inr r \<and>
        redactor_feed True r (concat (map chunk_bytes cs)) = (r', red) \<and>
        \<not> truncated (sink (run_normalizer L (utf8_decode red))) \<and>
        \<not> line_clipped (run_normalizer L (utf8_decode red)) \<and>
        pr_text res = characters (sink (run_normalizer L (utf8_decode red)))
    | Some m \<Rightarrow> pr_omitted res \<and> pr_lossy res \<and> m \<in> insert (lit ''.'') (set gap_markers) \<and>
        sublist m (pr_text res)"
proof -
  let ?data = "concat (map chunk_bytes cs)"
  from assms(1) obtain L r where L: "resolve_limits a = Inr L" and r: "build_redactor a = Inr r"
    and res: "res = project_whole L r ?data" by (rule project_bytes_whole)
  have lok: "limits_ok L" using resolve_limits_ok [OF assms(2) L] by blast
  obtain r' red where red: "redactor_feed True r ?data = (r', red)" by (rule prod.exhaust)
  let ?fc = "final_collector L (utf8_decode red)"
  note ok = final_collector_ok [OF lok, of "utf8_decode red"]
  note t = project_whole_text [OF red, of L, folded res]
  have n: "snd (failure_finish ?fc) = None \<longleftrightarrow> \<not> truncated ?fc"
    using failure_finish_None_iff [OF ok(1)] ok(3) lok by simp
  show ?thesis
  proof (cases "pr_gap_marker res")
    case None
    then have "\<not> truncated ?fc" using n t(2) by simp
    moreover from this have "pr_text res = characters ?fc" using failure_finish_exact ok(1) t(1) by simp
    ultimately show ?thesis using None L r red by auto
  next
    case (Some m)
    then have "failure_finish ?fc = (pr_text res, Some m)" using t(1,2) by (simp add: prod_eq_iff)
    from failure_finish_shows [OF this] Some show ?thesis using t(3) by (simp add: pr_omitted_def)
  qed
qed

theorem project_bytes_gap_marker_witness:
  "\<exists>res. project_bytes [BytesChunk ''abc''] (default_args\<lparr>arg_max_bytes := 5\<rparr>) = Inr res \<and>
     pr_gap_marker res = Some (lit ''[...]'') \<and> sublist (lit ''[...]'') (pr_text res)"
proof -
  define L where "L = \<lparr>max_bytes = 5, max_lines = 2000, max_estimated_tokens = 16000\<rparr>"
  have "build_redactor (default_args\<lparr>arg_max_bytes := 5\<rparr>) = Inr \<lparr>rvalues = [], rule_for_value = [],
     counts = [], max_length = 1, replacement = ''[REDACTED]'', pending = [], redacted = False\<rparr>"
    by code_simp
  then obtain r where r: "build_redactor (default_args\<lparr>arg_max_bytes := 5\<rparr>) = Inr r" "rvalues r = []" by simp
  have L: "resolve_limits (default_args\<lparr>arg_max_bytes := 5\<rparr>) = Inr L" unfolding L_def by code_simp
  have feed: "redactor_feed True r ''abc'' = (r, ''abc'')"
    using r(2) by (simp add: redactor_feed_def)
  have res: "project_bytes [BytesChunk ''abc''] (default_args\<lparr>arg_max_bytes := 5\<rparr>) =
      Inr (project_whole L r ''abc'')"
    using project_bytes_eq [OF L r(1), of "[''abc'']"] by simp
  have "snd (failure_finish (final_collector L (utf8_decode ''abc''))) = Some (lit ''[...]'')"
    unfolding L_def by code_simp
  then have "pr_gap_marker (project_whole L r ''abc'') = Some (lit ''[...]'')"
    by (simp add: project_whole_text(2) [OF feed])
  with project_bytes_gap_marker [OF res] res show ?thesis by simp
qed

abbreviation value_error :: "exn \<Rightarrow> bool" where
  "value_error e \<equiv> (\<exists>m. e = ValueError m)"

lemma coerce_values_raises: "raises_only value_error (coerce_values vs)"
proof -
  have "raises_only value_error (coerce_value v)" for v by (cases v) (auto simp: encode_str_def)
  then show ?thesis unfolding coerce_values_def by (intro raises_only_mapM)
qed

lemma collect_rules_raises: "raises_only value_error (collect_rules vbr rules)"
  by (induction vbr rules rule: collect_rules.induct) (auto split: option.splits)

lemma mk_redactor_raises: "raises_only value_error (mk_redactor rules repl)"
  unfolding mk_redactor_def Let_def by (intro raises_only_bind collect_rules_raises) simp

lemma coerce_rules_raises: "raises_only value_error (coerce_rules rules)"
  unfolding coerce_rules_def
  by (auto intro!: raises_only_bind raises_only_mapM coerce_values_raises)

lemma build_redactor_raises: "raises_only value_error (build_redactor a)"
proof -
  have "raises_only value_error (resolve_values a)" by (simp add: resolve_values_def split: option.splits)
  moreover have "raises_only value_error (coerce_value v)" for v by (cases v) (auto simp: encode_str_def)
  ultimately show ?thesis unfolding build_redactor_def
    by (auto intro!: raises_only_bind coerce_values_raises coerce_rules_raises mk_redactor_raises
        split: option.splits)
qed

lemma resolve_limits_raises: "raises_only value_error (resolve_limits a)"
  by (simp add: resolve_limits_def mk_limits_def split: option.splits)

lemma process_chunks_error:
  "process_chunks p cs = Inl e \<longleftrightarrow> OtherChunk \<in> set cs \<and> e = TypeError ''projection chunks must be bytes''"
  by (induction p cs rule: process_chunks.induct) auto

text \<open>
  What the caller may pass, said of the arguments alone: a byte or text value is acceptable when it
  is not empty and, as text, holds no surrogate; the three limits are positive or left at their
  defaults beside a limits object; the three ways of naming secrets exclude each other.
\<close>

fun acceptable_value :: "value_arg \<Rightarrow> bool" where
  "acceptable_value (BytesArg b) \<longleftrightarrow> b \<noteq> []"
| "acceptable_value (StrArg s) \<longleftrightarrow> s \<noteq> [] \<and> list_all is_scalar s"

definition acceptable_arguments :: "projection_args \<Rightarrow> bool" where
  "acceptable_arguments a \<longleftrightarrow>
     (if arg_limits a = None
      then 0 < arg_max_bytes a \<and> 0 < arg_max_lines a \<and> 0 < arg_max_estimated_tokens a
      else arg_max_bytes a = 65536 \<and> arg_max_lines a = 2000 \<and> arg_max_estimated_tokens a = 16000) \<and>
     (arg_exact_values a = [] \<or> arg_exact_secrets a = None) \<and>
     (arg_redaction_rules a = None \<or>
      arg_exact_values a = [] \<and> (arg_exact_secrets a = None \<or> arg_exact_secrets a = Some [])) \<and>
     acceptable_value (arg_replacement a) \<and>
     list_all acceptable_value (arg_exact_values a) \<and>
     list_all acceptable_value (case arg_exact_secrets a of None \<Rightarrow> [] | Some vs \<Rightarrow> vs) \<and>
     list_all (\<lambda>(name, vs). (name \<noteq> [] \<or> vs = []) \<and> list_all acceptable_value vs)
       (case arg_redaction_rules a of None \<Rightarrow> [] | Some rules \<Rightarrow> rules)"

lemma collect_rules_accepts:
  "(\<exists>vbr'. collect_rules vbr rules = Inr vbr') \<longleftrightarrow> list_all (\<lambda>(name, v). name \<noteq> [] \<and> v \<noteq> []) rules"
  by (induction vbr rules rule: collect_rules.induct) auto

lemma mk_redactor_accepts:
  "(\<exists>r. mk_redactor rules repl = Inr r) \<longleftrightarrow> list_all (\<lambda>(name, v). name \<noteq> [] \<and> v \<noteq> []) rules"
proof -
  have "\<exists>r. mk_redactor rules repl = Inr r" if "collect_rules [] rules = Inr vbr" for vbr
    using that collect_rules_values [OF that] by (simp add: mk_redactor_def Let_def list_ex_iff image_iff)
  moreover have "\<exists>vbr. collect_rules [] rules = Inr vbr" if "mk_redactor rules repl = Inr r" for r
    using that by (auto simp: mk_redactor_def bind_r_Inr_iff)
  ultimately show ?thesis unfolding collect_rules_accepts [of "[]", symmetric] by blast
qed

lemma acceptable_coerced: "acceptable_value v \<longleftrightarrow> (\<exists>b. coerce_value v = Inr b \<and> b \<noteq> [])"
  by (cases v) (auto simp: encode_str_def utf8_encode_Nil_iff)

lemma acceptable_values:
  "list_all acceptable_value vs \<longleftrightarrow> (\<exists>bs. coerce_values vs = Inr bs \<and> list_all (\<lambda>b. b \<noteq> []) bs)"
  unfolding coerce_values_def
  by (induction vs) (auto simp: bind_r_Inr_iff acceptable_coerced)

definition acceptable_rule :: "pystr \<times> value_arg list \<Rightarrow> bool" where
  "acceptable_rule = (\<lambda>(name, vs). (name \<noteq> [] \<or> vs = []) \<and> list_all acceptable_value vs)"

lemma coerce_values_Nil: "coerce_values vs = Inr [] \<longleftrightarrow> vs = []"
  by (cases vs) (auto simp: coerce_values_def bind_r_Inr_iff)

lemma acceptable_named:
  "acceptable_rule (name, vs) \<longleftrightarrow>
   (\<exists>bs. coerce_values vs = Inr bs \<and> list_all (\<lambda>(n, v). n \<noteq> [] \<and> v \<noteq> []) (map (Pair name) bs))"
proof (cases "vs = [] \<or> name \<noteq> []")
  case True
  moreover have "list_all (\<lambda>(n, v). n \<noteq> [] \<and> v \<noteq> []) (map (Pair name) bs) \<longleftrightarrow> (bs = [] \<or> name \<noteq> []) \<and> list_all (\<lambda>b. b \<noteq> []) bs" for bs
    by (auto simp: list_all_iff)
  ultimately show ?thesis using coerce_values_Nil [of vs] by (auto simp: acceptable_rule_def acceptable_values)
next
  case False
  moreover have "bs \<noteq> []" if "coerce_values vs = Inr bs" for bs using False that coerce_values_Nil by blast
  ultimately show ?thesis by (auto simp: acceptable_rule_def list_all_iff)
qed

lemma acceptable_groups:
  "list_all acceptable_rule rules \<longleftrightarrow>
   (\<exists>groups. mapM_r (\<lambda>(ident, vals). bind_r (coerce_values vals) (\<lambda>vs. Inr (map (Pair ident) vs))) rules = Inr groups \<and>
     list_all (\<lambda>(n, v). n \<noteq> [] \<and> v \<noteq> []) (concat groups))"
  by (induction rules) (auto simp: bind_r_Inr_iff acceptable_named)

lemma acceptable_rules:
  "list_all acceptable_rule rules \<longleftrightarrow>
   (\<exists>named. coerce_rules rules = Inr named \<and> list_all (\<lambda>(n, v). n \<noteq> [] \<and> v \<noteq> []) named)"
proof -
  have "list_all acceptable_rule rules \<longleftrightarrow> list_all acceptable_rule (sort_key fst rules)" by (simp add: list_all_iff)
  then show ?thesis unfolding acceptable_groups coerce_rules_def by (auto simp: bind_r_Inr_iff)
qed

lemma resolve_limits_accepts:
  "(\<exists>L. resolve_limits a = Inr L) \<longleftrightarrow>
   (if arg_limits a = None
    then 0 < arg_max_bytes a \<and> 0 < arg_max_lines a \<and> 0 < arg_max_estimated_tokens a
    else arg_max_bytes a = 65536 \<and> arg_max_lines a = 2000 \<and> arg_max_estimated_tokens a = 16000)"
  by (simp add: resolve_limits_def mk_limits_def split: option.splits)

lemma build_redactor_accepts:
  "(\<exists>r. build_redactor a = Inr r) \<longleftrightarrow>
   (\<exists>vals. resolve_values a = Inr vals \<and> (arg_redaction_rules a = None \<or> vals = []) \<and>
     acceptable_value (arg_replacement a) \<and>
     (case arg_redaction_rules a of None \<Rightarrow> list_all acceptable_value vals
      | Some rules \<Rightarrow> list_all acceptable_rule rules))"
proof -
  have named: "list_all acceptable_value vals \<longleftrightarrow>
      (\<exists>vs. coerce_values vals = Inr vs \<and> (\<exists>r. mk_redactor (map (Pair EXACT_VALUE) vs) repl = Inr r))" for vals repl
    by (simp add: acceptable_values mk_redactor_accepts list.pred_map comp_def EXACT_VALUE_def lit_def)
  have rules: "list_all acceptable_rule rs \<longleftrightarrow>
      (\<exists>named. coerce_rules rs = Inr named \<and> (\<exists>r. mk_redactor named repl = Inr r))" for rs repl
    by (simp add: acceptable_rules mk_redactor_accepts)
  show ?thesis
  proof (cases "arg_redaction_rules a")
    case None
    then have "(\<exists>r. build_redactor a = Inr r) \<longleftrightarrow> (\<exists>vals. resolve_values a = Inr vals \<and> (\<exists>repl. coerce_value (arg_replacement a) = Inr repl \<and> repl \<noteq> [] \<and>
        (\<exists>vs. coerce_values vals = Inr vs \<and> (\<exists>r. mk_redactor (map (Pair EXACT_VALUE) vs) repl = Inr r))))"
      by (simp add: build_redactor_def bind_r_Inr_iff) blast
    then show ?thesis by (simp add: None acceptable_coerced flip: named) blast
  next
    case (Some rs)
    then have "(\<exists>r. build_redactor a = Inr r) \<longleftrightarrow> resolve_values a = Inr [] \<and> (\<exists>repl. coerce_value (arg_replacement a) = Inr repl \<and> repl \<noteq> [] \<and>
        (\<exists>named. coerce_rules rs = Inr named \<and> (\<exists>r. mk_redactor named repl = Inr r)))"
      by (simp add: build_redactor_def bind_r_Inr_iff) blast
    then show ?thesis by (simp add: Some acceptable_coerced flip: rules) blast
  qed
qed

lemma acceptable_arguments_iff:
  "acceptable_arguments a \<longleftrightarrow> (\<exists>L. resolve_limits a = Inr L) \<and> (\<exists>r. build_redactor a = Inr r)"
  unfolding resolve_limits_accepts build_redactor_accepts acceptable_arguments_def acceptable_rule_def [symmetric]
  by (auto simp: resolve_values_def split: option.splits)

text \<open>
  C6.  \<open>project_bytes\<close> fails only on its arguments.  It raises \<open>ValueError\<close> exactly when they are
  not acceptable: a limit that is not positive, individual limits beside a limits object, two of
  \<open>exact_values\<close>, \<open>exact_secrets\<close> and \<open>exact_redaction_rules\<close> together, an empty or unencodable
  replacement or value, a named value with an empty rule name.  With acceptable arguments it raises
  \<open>TypeError\<close> exactly when a chunk is not bytes, and otherwise it returns a projection.
\<close>

theorem project_bytes_errors:
  "case project_bytes cs a of
     Inl (ValueError m) \<Rightarrow> \<not> acceptable_arguments a
   | Inl (TypeError m) \<Rightarrow> acceptable_arguments a \<and> OtherChunk \<in> set cs
   | Inl _ \<Rightarrow> False
   | Inr res \<Rightarrow> acceptable_arguments a \<and> OtherChunk \<notin> set cs"
proof (cases "project_bytes cs a")
  case (Inl e)
  then have "resolve_limits a = Inl e \<or> build_redactor a = Inl e \<or>
      (\<exists>L r. resolve_limits a = Inr L \<and> build_redactor a = Inr r) \<and>
      OtherChunk \<in> set cs \<and> e = TypeError ''projection chunks must be bytes''"
    by (auto simp: project_bytes_def bind_r_Inl_iff process_chunks_error)
  with Inl raises_onlyD [OF resolve_limits_raises] raises_onlyD [OF build_redactor_raises]
  show ?thesis unfolding acceptable_arguments_iff by fastforce
next
  case (Inr res)
  then show ?thesis by (auto elim: project_bytes_whole simp: acceptable_arguments_iff)
qed

end
