(* ===== verification/Json.thy ===== *)
theory Json
  imports Utf8 Sha256
begin

text \<open>
  JSON values and the parts of the standard library's \<open>json\<close> module the program uses: \<open>dumps\<close> with
  \<open>sort_keys=True\<close> and the compact separators (with and without \<open>ensure_ascii\<close>), and \<open>loads\<close> with
  the decoder's grammar.  A Python \<open>dict\<close> is an association list with distinct keys in insertion
  order.  A float is represented by its literal: nothing in the modelled code computes with one.
  Shown: the printer and the parser are inverse to each other, so printing is injective, and the
  parser never runs out of the fuel it is given.
\<close>

section \<open>Values\<close>

datatype json =
    JNull
  | JBool bool
  | JInt int
  | JFloat pystr
  | JStr pystr
  | JArr "json list"
  | JObj "(pystr \<times> json) list"

text \<open>\<open>dict.get\<close>, and \<open>sort_keys=True\<close> as a normal form.\<close>

type_synonym jdict = "(pystr \<times> json) list"

definition jget :: "(pystr \<times> json) list \<Rightarrow> string \<Rightarrow> json option" where
  "jget kvs k = map_of kvs (lit k)"

fun sort_keys :: "json \<Rightarrow> json" and sort_items :: "json list \<Rightarrow> json list"
  and sort_pairs :: "(pystr \<times> json) list \<Rightarrow> (pystr \<times> json) list" where
  "sort_keys (JArr xs) = JArr (sort_items xs)"
| "sort_keys (JObj kvs) = JObj (sort_key fst (sort_pairs kvs))"
| "sort_keys v = v"
| "sort_items [] = []"
| "sort_items (x # xs) = sort_keys x # sort_items xs"
| "sort_pairs [] = []"
| "sort_pairs ((k, v) # kvs) = (k, sort_keys v) # sort_pairs kvs"

section \<open>Printing\<close>

definition u4 :: "nat \<Rightarrow> pystr" where
  "u4 c = [92, 117, digit_char (c div 4096 mod 16), digit_char (c div 256 mod 16),
           digit_char (c div 16 mod 16), digit_char (c mod 16)]"

definition escape_char :: "bool \<Rightarrow> nat \<Rightarrow> pystr" where
  "escape_char ascii c =
     (if c = 34 then [92, 34] else if c = 92 then [92, 92]
      else if c = 10 then [92, 110] else if c = 13 then [92, 114] else if c = 9 then [92, 116]
      else if c = 12 then [92, 102] else if c = 8 then [92, 98]
      else if c < 32 then u4 c
      else if ascii \<and> 126 < c then
        (if c < 0x10000 then u4 c
         else u4 (0xD800 + (c - 0x10000) div 1024) @ u4 (0xDC00 + (c - 0x10000) mod 1024))
      else [c])"

definition print_str :: "bool \<Rightarrow> pystr \<Rightarrow> pystr" where
  "print_str ascii s = 34 # concat (map (escape_char ascii) s) @ [34]"

definition print_int :: "int \<Rightarrow> pystr" where
  "print_int i = (if i < 0 then 45 # decimal (nat (- i)) else decimal (nat i))"

fun print_json :: "bool \<Rightarrow> json \<Rightarrow> pystr" and print_items :: "bool \<Rightarrow> json list \<Rightarrow> pystr"
  and print_pairs :: "bool \<Rightarrow> (pystr \<times> json) list \<Rightarrow> pystr" where
  "print_json ascii JNull = lit ''null''"
| "print_json ascii (JBool b) = (if b then lit ''true'' else lit ''false'')"
| "print_json ascii (JInt i) = print_int i"
| "print_json ascii (JFloat t) = t"
| "print_json ascii (JStr s) = print_str ascii s"
| "print_json ascii (JArr xs) = 91 # print_items ascii xs"
| "print_json ascii (JObj kvs) = 123 # print_pairs ascii kvs"
| "print_items ascii [] = [93]"
| "print_items ascii [x] = print_json ascii x @ [93]"
| "print_items ascii (x # y # xs) = print_json ascii x @ 44 # print_items ascii (y # xs)"
| "print_pairs ascii [] = [125]"
| "print_pairs ascii [(k, v)] = print_str ascii k @ 58 # print_json ascii v @ [125]"
| "print_pairs ascii ((k, v) # p # kvs) =
     print_str ascii k @ 58 # print_json ascii v @ 44 # print_pairs ascii (p # kvs)"

text \<open>\<open>json.dumps(value, sort_keys=True, separators=(",", ":"), ensure_ascii=...)\<close>\<close>

definition dumps :: "bool \<Rightarrow> json \<Rightarrow> pystr" where
  "dumps ascii v = print_json ascii (sort_keys v)"

section \<open>Parsing\<close>

datatype json_error = JSONDecodeError | IntTooLong | OutOfFuel

type_synonym 'a parsed = "json_error + ('a \<times> pystr)"

definition is_ws :: "nat \<Rightarrow> bool" where
  "is_ws c \<longleftrightarrow> c = 32 \<or> c = 9 \<or> c = 10 \<or> c = 13"

definition skip_ws :: "pystr \<Rightarrow> pystr" where
  "skip_ws s = dropWhile is_ws s"

definition hex_value :: "nat \<Rightarrow> nat option" where
  "hex_value c =
     (if 48 \<le> c \<and> c \<le> 57 then Some (c - 48)
      else if 97 \<le> c \<and> c \<le> 102 then Some (c - 87)
      else if 65 \<le> c \<and> c \<le> 70 then Some (c - 55) else None)"

fun hex4 :: "pystr \<Rightarrow> (nat \<times> pystr) option" where
  "hex4 (a # b # c # d # r) =
     (case (hex_value a, hex_value b, hex_value c, hex_value d) of
        (Some w, Some x, Some y, Some z) \<Rightarrow> Some (((w * 16 + x) * 16 + y) * 16 + z, r)
      | _ \<Rightarrow> None)"
| "hex4 _ = None"

definition simple_escape :: "nat \<Rightarrow> nat option" where
  "simple_escape c = map_of [(34, 34), (92, 92), (47, 47), (98, 8), (102, 12), (110, 10), (114, 13), (116, 9)] c"

text \<open>An escape after the backslash; a high surrogate is joined with a low one that follows.\<close>

fun low_surrogate :: "pystr \<Rightarrow> (nat \<times> pystr) option" where
  "low_surrogate (b # u # r) =
     (if b = 92 \<and> u = 117 then
        (case hex4 r of Some (lo, r') \<Rightarrow> if 0xDC00 \<le> lo \<and> lo \<le> 0xDFFF then Some (lo, r') else None
                      | None \<Rightarrow> None)
      else None)"
| "low_surrogate _ = None"

definition parse_escape :: "pystr \<Rightarrow> (nat \<times> pystr) option" where
  "parse_escape s =
     (case s of
        [] \<Rightarrow> None
      | c # r \<Rightarrow>
          if c = 117 then
            (case hex4 r of
               None \<Rightarrow> None
             | Some (hi, r') \<Rightarrow>
                 if 0xD800 \<le> hi \<and> hi \<le> 0xDBFF then
                   (case low_surrogate r' of
                      Some (lo, r'') \<Rightarrow> Some (0x10000 + ((hi - 0xD800) * 1024 + (lo - 0xDC00)), r'')
                    | None \<Rightarrow> Some (hi, r'))
                 else Some (hi, r'))
          else map_option (\<lambda>ch. (ch, r)) (simple_escape c))"

lemma hex4_length: "hex4 s = Some (c, r) \<Longrightarrow> length s = length r + 4"
  by (induction s rule: hex4.induct) (auto split: option.splits)

lemma low_surrogate_length: "low_surrogate s = Some (c, r) \<Longrightarrow> length r < length s"
  by (induction s rule: low_surrogate.induct) (auto dest!: hex4_length split: if_splits option.splits)

lemma parse_escape_length: "parse_escape s = Some (c, r) \<Longrightarrow> length r < length s"
  by (auto simp: parse_escape_def dest!: hex4_length low_surrogate_length
      split: list.splits if_splits option.splits)

text \<open>A string body up to its closing quote; unescaped control characters are errors.\<close>

function parse_str :: "pystr \<Rightarrow> pystr parsed" where
  "parse_str s =
     (case s of
        [] \<Rightarrow> Inl JSONDecodeError
      | c # r \<Rightarrow>
          if c = 34 then Inr ([], r)
          else if c = 92 then
            (case parse_escape r of
               None \<Rightarrow> Inl JSONDecodeError
             | Some (ch, r') \<Rightarrow>
                 (case parse_str r' of Inl e \<Rightarrow> Inl e | Inr (t, r'') \<Rightarrow> Inr (ch # t, r'')))
          else if c < 32 then Inl JSONDecodeError
          else (case parse_str r of Inl e \<Rightarrow> Inl e | Inr (t, r'') \<Rightarrow> Inr (c # t, r'')))"
  by pat_completeness auto
termination
  by (relation "measure length") (auto dest: parse_escape_length)

declare parse_str.simps [simp del]

definition is_digit :: "nat \<Rightarrow> bool" where
  "is_digit c \<longleftrightarrow> 48 \<le> c \<and> c \<le> 57"

definition digits_value :: "pystr \<Rightarrow> nat" where
  "digits_value ds = foldl (\<lambda>a d. 10 * a + (d - 48)) 0 ds"

text \<open>The fraction and exponent of a number: what was consumed, empty for an integer.\<close>

definition parse_fraction :: "pystr \<Rightarrow> pystr \<times> pystr" where
  "parse_fraction s =
     (case s of
        c # r \<Rightarrow> if c = 46 \<and> takeWhile is_digit r \<noteq> []
                  then (46 # takeWhile is_digit r, dropWhile is_digit r) else ([], s)
      | [] \<Rightarrow> ([], s))"

definition parse_exponent :: "pystr \<Rightarrow> pystr \<times> pystr" where
  "parse_exponent s =
     (case s of
        c # r \<Rightarrow>
          let sign = (case r of d # _ \<Rightarrow> if d = 43 \<or> d = 45 then [d] else [] | [] \<Rightarrow> []);
              r' = drop (length sign) r
          in if (c = 101 \<or> c = 69) \<and> takeWhile is_digit r' \<noteq> []
             then (c # sign @ takeWhile is_digit r', dropWhile is_digit r') else ([], s)
      | [] \<Rightarrow> ([], s))"

definition MAX_INT_DIGITS :: nat where
  "MAX_INT_DIGITS = 4300"

text \<open>
  A number after its sign.  \<open>int()\<close> refuses more than 4300 digits with a plain \<open>ValueError\<close>.
\<close>

definition parse_number :: "bool \<Rightarrow> pystr \<Rightarrow> json parsed" where
  "parse_number neg s =
     (let ds = (if s \<noteq> [] \<and> hd s = 48 then [48] else takeWhile is_digit s);
          r = drop (length ds) s;
          (frac, r1) = parse_fraction r;
          (expo, r2) = parse_exponent r1
      in if ds = [] then Inl JSONDecodeError
         else if frac = [] \<and> expo = [] then
           (if MAX_INT_DIGITS < length ds then Inl IntTooLong
            else Inr (JInt ((if neg then - 1 else 1) * int (digits_value ds)), r))
         else Inr (JFloat ((if neg then [45] else []) @ ds @ frac @ expo), r2))"

definition take_literal :: "string \<Rightarrow> json \<Rightarrow> pystr \<Rightarrow> json parsed \<Rightarrow> json parsed" where
  "take_literal w v s otherwise =
     (if prefix (lit w) s then Inr (v, drop (length w) s) else otherwise)"

definition parse_atom :: "pystr \<Rightarrow> json parsed" where
  "parse_atom s =
     take_literal ''null'' JNull s (take_literal ''true'' (JBool True) s
       (take_literal ''false'' (JBool False) s (take_literal ''NaN'' (JFloat (lit ''NaN'')) s
         (take_literal ''Infinity'' (JFloat (lit ''Infinity'')) s
           (take_literal ''-Infinity'' (JFloat (lit ''-Infinity'')) s
             (if s \<noteq> [] \<and> hd s = 45 then parse_number True (tl s) else parse_number False s))))))"

definition expect :: "nat \<Rightarrow> pystr \<Rightarrow> pystr option" where
  "expect c s = (if s \<noteq> [] \<and> hd s = c then Some (tl s) else None)"

fun parse_value :: "nat \<Rightarrow> pystr \<Rightarrow> json parsed"
  and parse_elements :: "nat \<Rightarrow> json list \<Rightarrow> pystr \<Rightarrow> json parsed"
  and parse_members :: "nat \<Rightarrow> (pystr \<times> json) list \<Rightarrow> pystr \<Rightarrow> json parsed" where
  "parse_value 0 s = Inl OutOfFuel"
| "parse_value (Suc n) s =
     (case s of
        [] \<Rightarrow> Inl JSONDecodeError
      | c # r \<Rightarrow>
          if c = 34 then (case parse_str r of Inl e \<Rightarrow> Inl e | Inr (t, r') \<Rightarrow> Inr (JStr t, r'))
          else if c = 91 then
            (case expect 93 (skip_ws r) of
               Some r' \<Rightarrow> Inr (JArr [], r')
             | None \<Rightarrow> parse_elements n [] (skip_ws r))
          else if c = 123 then
            (case expect 125 (skip_ws r) of
               Some r' \<Rightarrow> Inr (JObj [], r')
             | None \<Rightarrow> parse_members n [] (skip_ws r))
          else parse_atom s)"
| "parse_elements 0 acc s = Inl OutOfFuel"
| "parse_elements (Suc n) acc s =
     (case parse_value n s of
        Inl e \<Rightarrow> Inl e
      | Inr (v, r) \<Rightarrow>
          (case expect 93 (skip_ws r) of
             Some r' \<Rightarrow> Inr (JArr (acc @ [v]), r')
           | None \<Rightarrow>
               (case expect 44 (skip_ws r) of
                  Some r' \<Rightarrow> parse_elements n (acc @ [v]) (skip_ws r')
                | None \<Rightarrow> Inl JSONDecodeError)))"
| "parse_members 0 acc s = Inl OutOfFuel"
| "parse_members (Suc n) acc s =
     (case expect 34 s of
        None \<Rightarrow> Inl JSONDecodeError
      | Some s1 \<Rightarrow>
          (case parse_str s1 of
             Inl e \<Rightarrow> Inl e
           | Inr (k, s2) \<Rightarrow>
               (case expect 58 (skip_ws s2) of
                  None \<Rightarrow> Inl JSONDecodeError
                | Some s3 \<Rightarrow>
                    (case parse_value n (skip_ws s3) of
                       Inl e \<Rightarrow> Inl e
                     | Inr (v, s4) \<Rightarrow>
                         (case expect 125 (skip_ws s4) of
                            Some r \<Rightarrow> Inr (JObj (AList.update k v acc), r)
                          | None \<Rightarrow>
                              (case expect 44 (skip_ws s4) of
                                 Some r \<Rightarrow> parse_members n (AList.update k v acc) (skip_ws r)
                               | None \<Rightarrow> Inl JSONDecodeError))))))"

definition loads :: "pystr \<Rightarrow> json_error + json" where
  "loads s =
     (case parse_value (2 * length s + 2) (skip_ws s) of
        Inl e \<Rightarrow> Inl e
      | Inr (v, r) \<Rightarrow> if skip_ws r = [] then Inr v else Inl JSONDecodeError)"

section \<open>The parser consumes its input and has enough fuel\<close>

lemma parse_str_length: "parse_str s = Inr (t, r) \<Longrightarrow> length r < length s"
proof (induction s arbitrary: t r rule: parse_str.induct)
  case (1 s)
  show ?case
  proof (cases s)
    case Nil
    with "1.prems" show ?thesis by (simp add: parse_str.simps)
  next
    case (Cons c u)
    note p = "1.prems" [unfolded Cons parse_str.simps [of "c # u"] list.case]
    show ?thesis
    proof (cases "c = 34 \<or> c = 92 \<or> c < 32")
      case False
      then obtain t' where "parse_str u = Inr (t', r)" using p by (auto split: sum.splits)
      then have "length r < length u" using "1.IH"(2) [OF Cons] False by auto
      then show ?thesis by (simp add: Cons)
    next
      case True
      show ?thesis
      proof (cases "c = 92")
        case esc: True
        then obtain ch u' t' where e: "parse_escape u = Some (ch, u')" and t': "parse_str u' = Inr (t', r)"
          using p by (auto split: sum.splits option.splits)
        have "length r < length u'" using "1.IH"(1) [OF Cons _ esc e refl t'] esc by simp
        with parse_escape_length [OF e] show ?thesis by (simp add: Cons)
      qed (use True p in \<open>auto simp: Cons split: if_splits\<close>)
    qed
  qed
qed

lemma parse_str_fuel: "parse_str s \<noteq> Inl OutOfFuel"
proof (induction s rule: parse_str.induct)
  case (1 s)
  then show ?case by (auto simp: parse_str.simps [of s] split: list.splits option.splits sum.splits)
qed

lemma skip_ws_length: "length (skip_ws s) \<le> length s"
  by (simp add: skip_ws_def length_dropWhile_le)

lemma expect_Some [simp]: "expect c s = Some r \<longleftrightarrow> s = c # r"
  by (cases s) (auto simp: expect_def)

lemma expect_Cons [simp]: "expect c (d # r) = (if d = c then Some r else None)" "expect c [] = None"
  by (simp_all add: expect_def)

lemma parse_fraction_length: "parse_fraction s = (f, r) \<Longrightarrow> length r \<le> length s"
  by (auto simp: parse_fraction_def split: list.splits if_splits intro: le_SucI length_dropWhile_le)

lemma parse_exponent_length:
  assumes "parse_exponent s = (f, r)" shows "length r \<le> length s"
proof (cases s)
  case (Cons c u)
  define sign where "sign = (case u of d # _ \<Rightarrow> if d = 43 \<or> d = 45 then [d] else [] | [] \<Rightarrow> [])"
  have "r = dropWhile is_digit (drop (length sign) u) \<or> r = s"
    using assms by (auto simp: parse_exponent_def Cons sign_def Let_def split: if_splits)
  moreover have "length (dropWhile is_digit (drop (length sign) u)) \<le> length u"
    using length_dropWhile_le [of is_digit "drop (length sign) u"] by simp
  ultimately show ?thesis by (auto simp: Cons)
qed (use assms in \<open>simp add: parse_exponent_def\<close>)

lemma parse_number_length: assumes "parse_number neg s = Inr (v, r)" shows "length r < length s"
proof -
  define ds where "ds = (if s \<noteq> [] \<and> hd s = 48 then [48] else takeWhile is_digit s)"
  obtain f r1 where f: "parse_fraction (drop (length ds) s) = (f, r1)" by (rule prod.exhaust)
  obtain x r2 where x: "parse_exponent r1 = (x, r2)" by (rule prod.exhaust)
  have "ds \<noteq> [] \<and> (r = drop (length ds) s \<or> r = r2)"
    using assms by (auto simp: parse_number_def Let_def f x simp flip: ds_def split: if_splits)
  moreover have "length ds \<le> length s" by (cases s) (auto simp: ds_def length_takeWhile_le le_SucI)
  ultimately show ?thesis using parse_fraction_length [OF f] parse_exponent_length [OF x]
    by (cases ds) auto
qed

lemma take_literal_length:
  "take_literal w v s m = Inr (x, r) \<Longrightarrow> w \<noteq> [] \<Longrightarrow> (m = Inr (x, r) \<Longrightarrow> length r < length s) \<Longrightarrow>
     length r < length s"
  by (auto simp: take_literal_def prefix_def split: if_splits)

lemma parse_atom_length: "parse_atom s = Inr (v, r) \<Longrightarrow> length r < length s"
proof -
  have number: "(if s \<noteq> [] \<and> hd s = 45 then parse_number True (tl s) else parse_number False s) = Inr (v, r) \<Longrightarrow>
      length r < length s"
    by (cases s) (auto dest: parse_number_length split: if_splits)
  assume "parse_atom s = Inr (v, r)"
  then show ?thesis unfolding parse_atom_def
    by (elim take_literal_length) (simp_all add: number)
qed

lemma parse_atom_fuel: "parse_atom s \<noteq> Inl OutOfFuel"
proof -
  have number: "parse_number neg t \<noteq> Inl OutOfFuel" for neg t
    unfolding parse_number_def Let_def by (simp split: prod.split)
  have "m \<noteq> Inl OutOfFuel \<Longrightarrow> take_literal w v s m \<noteq> Inl OutOfFuel" for w v m
    by (simp add: take_literal_def)
  then show ?thesis using number unfolding parse_atom_def by simp
qed

lemma skip_ws_Cons: "skip_ws s = c # r \<Longrightarrow> length r < length s"
  using skip_ws_length [of s] by simp

declare parse_value.simps [simp del] parse_elements.simps [simp del] parse_members.simps [simp del]

definition consumes :: "nat \<Rightarrow> bool" where
  "consumes n \<longleftrightarrow> (\<forall>s v r. parse_value n s = Inr (v, r) \<longrightarrow> length r < length s) \<and>
     (\<forall>xs s v r. parse_elements n xs s = Inr (v, r) \<longrightarrow> length r < length s) \<and>
     (\<forall>kvs s v r. parse_members n kvs s = Inr (v, r) \<longrightarrow> length r < length s)"

lemma parse_value_step:
  assumes c: "consumes n" and p: "parse_value (Suc n) s = Inr (v, r)" shows "length r < length s"
proof (cases s)
  case Nil
  with p show ?thesis by (simp add: parse_value.simps)
next
  case (Cons b u)
  note p' = p [unfolded parse_value.simps Cons list.case]
  have le: "length (skip_ws u) \<le> length u" by (rule skip_ws_length)
  consider "b = 34" | "b = 91" | "b = 123" | "b \<noteq> 34" "b \<noteq> 91" "b \<noteq> 123" by blast
  then show ?thesis
  proof cases
    case 1
    with p' show ?thesis by (auto simp: Cons dest!: parse_str_length split: sum.splits)
  next
    case 2
    show ?thesis
    proof (cases "expect 93 (skip_ws u)")
      case None
      with 2 p' c have "length r < length (skip_ws u)" by (auto simp: consumes_def)
      with le show ?thesis by (simp add: Cons)
    qed (use 2 p' le in \<open>auto simp: Cons\<close>)
  next
    case 3
    show ?thesis
    proof (cases "expect 125 (skip_ws u)")
      case None
      with 3 p' c have "length r < length (skip_ws u)" by (auto simp: consumes_def)
      with le show ?thesis by (simp add: Cons)
    qed (use 3 p' le in \<open>auto simp: Cons\<close>)
  next
    case 4
    with p' have "parse_atom s = Inr (v, r)" by (simp add: Cons)
    then show ?thesis by (rule parse_atom_length)
  qed
qed

text \<open>The two ways a list of elements or members goes on after a value.\<close>

lemma parse_elements_SucE:
  assumes "parse_elements (Suc n) acc s = res"
  obtains e where "parse_value n s = Inl e" "res = Inl e"
  | v r r' where "parse_value n s = Inr (v, r)" "skip_ws r = 93 # r'" "res = Inr (JArr (acc @ [v]), r')"
  | v r r' where "parse_value n s = Inr (v, r)" "skip_ws r = 44 # r'" "res = parse_elements n (acc @ [v]) (skip_ws r')"
  | v r where "parse_value n s = Inr (v, r)" "res = Inl JSONDecodeError"
proof (cases "parse_value n s")
  case (Inl e)
  with assms show ?thesis by (intro that(1) [of e]) (simp_all add: parse_elements.simps(2))
next
  case (Inr p)
  then obtain v r where v: "parse_value n s = Inr (v, r)" by (cases p) simp
  consider r' where "skip_ws r = 93 # r'" | r' where "skip_ws r = 44 # r'"
    | "expect 93 (skip_ws r) = None" "expect 44 (skip_ws r) = None" by fastforce
  then show ?thesis
  proof cases
    case 1
    with v assms show ?thesis by (intro that(2)) (auto simp: parse_elements.simps(2))
  next
    case 2
    with v assms show ?thesis by (intro that(3)) (auto simp: parse_elements.simps(2))
  next
    case 3
    with v assms show ?thesis by (intro that(4)) (simp_all add: parse_elements.simps(2))
  qed
qed

lemma parse_members_SucE:
  assumes "parse_members (Suc n) acc s = res"
  obtains "res = Inl JSONDecodeError"
  | s1 e where "s = 34 # s1" "parse_str s1 = Inl e" "res = Inl e"
  | s1 k s2 s3 e where "s = 34 # s1" "parse_str s1 = Inr (k, s2)" "skip_ws s2 = 58 # s3"
      "parse_value n (skip_ws s3) = Inl e" "res = Inl e"
  | s1 k s2 s3 v s4 r where "s = 34 # s1" "parse_str s1 = Inr (k, s2)" "skip_ws s2 = 58 # s3"
      "parse_value n (skip_ws s3) = Inr (v, s4)" "skip_ws s4 = 125 # r"
      "res = Inr (JObj (AList.update k v acc), r)"
  | s1 k s2 s3 v s4 r where "s = 34 # s1" "parse_str s1 = Inr (k, s2)" "skip_ws s2 = 58 # s3"
      "parse_value n (skip_ws s3) = Inr (v, s4)" "skip_ws s4 = 44 # r"
      "res = parse_members n (AList.update k v acc) (skip_ws r)"
proof (cases "\<exists>s1 k s2 s3. s = 34 # s1 \<and> parse_str s1 = Inr (k, s2) \<and> skip_ws s2 = 58 # s3")
  case False
  show ?thesis
  proof (cases "\<exists>s1 e. s = 34 # s1 \<and> parse_str s1 = Inl e")
    case True
    with assms show ?thesis by (auto simp: parse_members.simps(2) intro: that(2))
  next
    case no_str: False
    with assms False show ?thesis
      by (intro that(1)) (auto simp: parse_members.simps(2) split: option.splits sum.splits)
  qed
next
  case True
  then obtain s1 k s2 s3 where s: "s = 34 # s1" "parse_str s1 = Inr (k, s2)" "skip_ws s2 = 58 # s3" by blast
  show ?thesis
  proof (cases "parse_value n (skip_ws s3)")
    case (Inl e)
    with s assms show ?thesis by (intro that(3) [of s1 k s2 s3 e]) (simp_all add: parse_members.simps(2))
  next
    case (Inr p)
    then obtain v s4 where v: "parse_value n (skip_ws s3) = Inr (v, s4)" by (cases p) simp
    consider r where "skip_ws s4 = 125 # r" | r where "skip_ws s4 = 44 # r"
      | "expect 125 (skip_ws s4) = None" "expect 44 (skip_ws s4) = None" by fastforce
    then show ?thesis
    proof cases
      case 1
      with s v assms show ?thesis by (intro that(4)) (auto simp: parse_members.simps(2))
    next
      case 2
      with s v assms show ?thesis by (intro that(5)) (auto simp: parse_members.simps(2))
    next
      case 3
      with s v assms show ?thesis by (intro that(1)) (simp_all add: parse_members.simps(2))
    qed
  qed
qed

lemma parse_elements_step:
  assumes c: "consumes n" and p: "parse_elements (Suc n) acc s = Inr (v, r)" shows "length r < length s"
  using p
proof (cases rule: parse_elements_SucE)
  case (2 x u u')
  then have "length u < length s" using c by (simp add: consumes_def)
  with skip_ws_Cons [OF 2(2)] 2(3) show ?thesis by simp
next
  case (3 x u u')
  then have "length u < length s" "length r < length (skip_ws u')"
    using c 3(3) [symmetric] unfolding consumes_def by blast+
  with skip_ws_Cons [OF 3(2)] skip_ws_length [of u'] show ?thesis by simp
qed simp_all

lemma parse_members_lengths:
  assumes "consumes n" "s = 34 # s1" "parse_str s1 = Inr (k, s2)" "skip_ws s2 = 58 # s3"
  shows "length (skip_ws s3) + 3 \<le> length s"
    and "parse_value n (skip_ws s3) = Inr (v, s4) \<Longrightarrow> skip_ws s4 = d # r \<Longrightarrow> length r + 5 \<le> length s"
proof -
  show l: "length (skip_ws s3) + 3 \<le> length s"
    using assms(2) parse_str_length [OF assms(3)] skip_ws_Cons [OF assms(4)] skip_ws_length [of s3] by simp
  assume v: "parse_value n (skip_ws s3) = Inr (v, s4)" and r: "skip_ws s4 = d # r"
  from v assms(1) have "length s4 < length (skip_ws s3)" by (simp add: consumes_def)
  with l skip_ws_Cons [OF r] show "length r + 5 \<le> length s" by simp
qed

lemma parse_members_step:
  assumes c: "consumes n" and p: "parse_members (Suc n) acc s = Inr (v, r)" shows "length r < length s"
  using p
proof (cases rule: parse_members_SucE)
  case (4 s1 k s2 s3 x s4 u)
  with parse_members_lengths(2) [OF c 4(1,2,3,4,5)] show ?thesis by simp
next
  case (5 s1 k s2 s3 x s4 u)
  then have "length r < length (skip_ws u)" using c 5(6) [symmetric] unfolding consumes_def by blast
  with parse_members_lengths(2) [OF c 5(1,2,3,4,5)] skip_ws_length [of u] show ?thesis by simp
qed simp_all

lemma consumes_all: "consumes n"
proof (induction n)
  case 0
  then show ?case by (simp add: consumes_def parse_value.simps parse_elements.simps parse_members.simps)
next
  case (Suc n)
  show ?case unfolding consumes_def
    using parse_value_step [OF Suc] parse_elements_step [OF Suc] parse_members_step [OF Suc] by blast
qed

definition fuelled :: "nat \<Rightarrow> bool" where
  "fuelled n \<longleftrightarrow> (\<forall>s. 2 * length s < n \<longrightarrow> parse_value n s \<noteq> Inl OutOfFuel) \<and>
     (\<forall>xs s. 2 * length s + 1 < n \<longrightarrow> parse_elements n xs s \<noteq> Inl OutOfFuel) \<and>
     (\<forall>kvs s. 2 * length s + 1 < n \<longrightarrow> parse_members n kvs s \<noteq> Inl OutOfFuel)"

lemma fuelled_value:
  assumes "fuelled n" "2 * length s < Suc n" shows "parse_value (Suc n) s \<noteq> Inl OutOfFuel"
proof (cases s)
  case (Cons b u)
  have "2 * length (skip_ws u) + 1 < n" using assms(2) skip_ws_length [of u] by (simp add: Cons)
  then show ?thesis using assms(1) parse_str_fuel [of u] parse_atom_fuel [of s]
    by (auto simp: parse_value.simps Cons fuelled_def split: option.splits sum.splits)
qed (simp add: parse_value.simps)

lemma fuelled_elements:
  assumes "fuelled n" "2 * length s + 1 < Suc n" shows "parse_elements (Suc n) acc s \<noteq> Inl OutOfFuel"
  using refl [of "parse_elements (Suc n) acc s"]
proof (cases rule: parse_elements_SucE)
  case (1 e)
  with assms show ?thesis by (auto simp: fuelled_def)
next
  case (3 v r r')
  have "length r < length s" using consumes_all 3(1) by (auto simp: consumes_def)
  with skip_ws_Cons [OF 3(2)] skip_ws_length [of r'] assms have "2 * length (skip_ws r') + 1 < n" by simp
  with 3(3) assms(1) show ?thesis by (auto simp: fuelled_def)
qed auto

lemma fuelled_members:
  assumes "fuelled n" "2 * length s + 1 < Suc n" shows "parse_members (Suc n) acc s \<noteq> Inl OutOfFuel"
  using refl [of "parse_members (Suc n) acc s"]
proof (cases rule: parse_members_SucE)
  case (2 s1 e)
  with parse_str_fuel [of s1] show ?thesis by auto
next
  case (3 s1 k s2 s3 e)
  from parse_members_lengths(1) [OF consumes_all 3(1,2,3)] assms(2) have "2 * length (skip_ws s3) < n" by simp
  with 3 assms(1) show ?thesis by (auto simp: fuelled_def)
next
  case (5 s1 k s2 s3 v s4 r)
  from parse_members_lengths(2) [OF consumes_all 5(1,2,3,4,5)] skip_ws_length [of r] assms(2)
  have "2 * length (skip_ws r) + 1 < n" by simp
  with 5(6) assms(1) show ?thesis by (auto simp: fuelled_def)
qed auto

lemma fuelled_all: "fuelled n"
proof (induction n)
  case (Suc n)
  show ?case unfolding fuelled_def
    using fuelled_value [OF Suc] fuelled_elements [OF Suc] fuelled_members [OF Suc] by blast
qed (simp add: fuelled_def)

lemma loads_fuel: "loads s \<noteq> Inl OutOfFuel"
proof -
  have "parse_value (2 * length s + 2) (skip_ws s) \<noteq> Inl OutOfFuel"
    using fuelled_all [of "2 * length s + 2"] skip_ws_length [of s] by (simp add: fuelled_def)
  then show ?thesis by (auto simp: loads_def split: sum.splits)
qed

section \<open>Round trip\<close>

text \<open>
  Values the round trip is about: strings without lone surrogates, distinct keys, integers that
  \<open>int()\<close> accepts back, no floats.
\<close>

fun json_ok :: "json \<Rightarrow> bool" and items_ok :: "json list \<Rightarrow> bool"
  and pairs_ok :: "(pystr \<times> json) list \<Rightarrow> bool" where
  "json_ok (JInt i) \<longleftrightarrow> length (decimal (nat \<bar>i\<bar>)) \<le> MAX_INT_DIGITS"
| "json_ok (JFloat t) \<longleftrightarrow> False"
| "json_ok (JStr t) \<longleftrightarrow> list_all is_scalar t"
| "json_ok (JArr xs) \<longleftrightarrow> items_ok xs"
| "json_ok (JObj kvs) \<longleftrightarrow> distinct (map fst kvs) \<and> pairs_ok kvs"
| "json_ok _ \<longleftrightarrow> True"
| "items_ok [] \<longleftrightarrow> True"
| "items_ok (x # xs) \<longleftrightarrow> json_ok x \<and> items_ok xs"
| "pairs_ok [] \<longleftrightarrow> True"
| "pairs_ok ((k, v) # kvs) \<longleftrightarrow> list_all is_scalar k \<and> json_ok v \<and> pairs_ok kvs"

lemma hex_value_digit [simp]: "d < 16 \<Longrightarrow> hex_value (digit_char d) = Some d"
  by (auto simp: hex_value_def digit_char_def)

lemma hex4_u4: "c < 65536 \<Longrightarrow> hex4 (drop 2 (u4 c) @ r) = Some (c, r)"
proof -
  assume c: "c < 65536"
  define a where "a = c div 16"
  define b where "b = a div 16"
  have e: "c div 256 = b" "c div 4096 = b div 16" by (simp_all add: a_def b_def flip: div_mult2_eq)
  have "b div 16 < 16" using c by (simp add: a_def b_def less_mult_imp_div_less flip: div_mult2_eq)
  then have "((c div 4096 mod 16 * 16 + c div 256 mod 16) * 16 + c div 16 mod 16) * 16 + c mod 16 = c"
    using div_mult_mod_eq [of c 16] div_mult_mod_eq [of a 16] unfolding e by (simp flip: a_def b_def)
  moreover have "hex4 (drop 2 (u4 c) @ r) =
      Some (((c div 4096 mod 16 * 16 + c div 256 mod 16) * 16 + c div 16 mod 16) * 16 + c mod 16, r)"
    unfolding u4_def by (simp del: mod_less)
  ultimately show ?thesis by (simp only:)
qed

lemma u4_split: "u4 c @ r = 92 # 117 # (drop 2 (u4 c) @ r)"
  by (simp add: u4_def)

lemma parse_escape_u4:
  assumes "c < 65536" "\<not> (0xD800 \<le> c \<and> c < 0xDC00)"
  shows "parse_escape (117 # drop 2 (u4 c) @ r) = Some (c, r)"
  using assms by (auto simp: parse_escape_def hex4_u4)

lemma parse_escape_pair:
  assumes "0x10000 \<le> c" "c \<le> 0x10FFFF"
  shows "parse_escape (117 # drop 2 (u4 (0xD800 + (c - 0x10000) div 1024)) @
     u4 (0xDC00 + (c - 0x10000) mod 1024) @ r) = Some (c, r)"
proof -
  define d where "d = c - 0x10000"
  have d: "d < 0x100000" "c = d + 0x10000" using assms by (auto simp: d_def)
  have "d div 1024 < 1024" using d(1) by (simp add: less_mult_imp_div_less)
  then show ?thesis
    by (simp add: parse_escape_def hex4_u4 u4_split d(2))
qed

lemma parse_str_plain:
  "c \<noteq> 34 \<Longrightarrow> c \<noteq> 92 \<Longrightarrow> 32 \<le> c \<Longrightarrow> parse_str r = Inr (t, r') \<Longrightarrow> parse_str (c # r) = Inr (c # t, r')"
  by (simp add: parse_str.simps [of "c # r"])

lemma parse_str_escape:
  "parse_escape r = Some (ch, r1) \<Longrightarrow> parse_str r1 = Inr (t, r') \<Longrightarrow> parse_str (92 # r) = Inr (ch # t, r')"
  by (simp add: parse_str.simps [of "92 # r"])

lemma parse_str_char:
  assumes "is_scalar c" "parse_str r = Inr (t, r')"
  shows "parse_str (escape_char ascii c @ r) = Inr (c # t, r')"
proof -
  have c: "c \<le> 0x10FFFF" "\<not> (0xD800 \<le> c \<and> c < 0xE000)" using assms(1) by (auto simp: is_scalar_def)
  have u: "parse_str (u4 c @ r) = Inr (c # t, r')" if "c < 65536"
  proof -
    have "\<not> (0xD800 \<le> c \<and> c < 0xDC00)" using c(2) by linarith
    from parse_str_escape [OF parse_escape_u4 [OF that this] assms(2)] show ?thesis by (subst u4_split)
  qed
  have simple: "parse_str (92 # e # r) = Inr (c # t, r')" if "simple_escape e = Some c" "e \<noteq> 117" for e
    using that assms(2) by (intro parse_str_escape) (auto simp: parse_escape_def)
  have pair: "parse_str ((u4 (0xD800 + (c - 0x10000) div 1024) @ u4 (0xDC00 + (c - 0x10000) mod 1024)) @ r) =
      Inr (c # t, r')" if "65536 \<le> c"
    using parse_str_escape [OF parse_escape_pair [OF _ c(1)] assms(2)] that
    by (subst append_assoc, subst u4_split) simp
  have plain: "parse_str (c # r) = Inr (c # t, r')" if "c \<noteq> 34" "c \<noteq> 92" "32 \<le> c"
    using parse_str_plain [OF that assms(2)] .
  show ?thesis
    using u simple [of 34] simple [of 92] simple [of 110] simple [of 114] simple [of 116] simple [of 102]
      simple [of 98] pair plain unfolding escape_char_def by (simp add: simple_escape_def)
qed

lemma parse_str_body:
  "list_all is_scalar s \<Longrightarrow> parse_str (concat (map (escape_char ascii) s) @ 34 # r) = Inr (s, r)"
proof (induction s)
  case Nil
  show ?case by (simp add: parse_str.simps [of "34 # r"])
next
  case (Cons c s)
  then show ?case using parse_str_char [of c] by simp
qed

text \<open>What may follow a value: a number must not go on.\<close>

definition ends_number :: "pystr \<Rightarrow> bool" where
  "ends_number r \<longleftrightarrow> r = [] \<or> (\<not> is_digit (hd r) \<and> hd r \<noteq> 46 \<and> hd r \<noteq> 101 \<and> hd r \<noteq> 69)"

lemma decimal_digits: "d \<in> set (decimal n) \<Longrightarrow> is_digit d"
  using digits_in_bound [of 10 _ n] by (fastforce simp: decimal_def digit_char_def is_digit_def)

lemma decimal_nonempty [simp]: "decimal n \<noteq> []"
  by (simp add: decimal_def)

lemma decimal_hd_digit: "is_digit (hd (decimal n))"
  by (rule decimal_digits) (rule hd_in_set [OF decimal_nonempty])

lemma decimal_value: "digits_value (decimal n) = n"
proof -
  have "foldl (\<lambda>a d. 10 * a + (d - 48)) a (map digit_char ds) = foldl (\<lambda>a d. 10 * a + d) a ds"
    if "\<forall>d \<in> set ds. d < 10" for a and ds :: "nat list"
    using that by (induction ds arbitrary: a) (auto simp: digit_char_def)
  then show ?thesis using digits_in_bound [of 10 _ n] digits_in_value [of 10 n]
    by (simp add: digits_value_def decimal_def)
qed

lemma decimal_hd_zero: "hd (decimal n) = 48 \<Longrightarrow> decimal n = [48]"
proof (cases "n = 0")
  case True
  then show ?thesis by (simp add: decimal_def digits_in.simps digit_char_def)
next
  case False
  have "hd (decimal n) = digit_char (hd (digits_in 10 n))" by (simp add: decimal_def hd_map)
  moreover have "hd (digits_in 10 n) < 10" using digits_in_bound [of 10 "hd (digits_in 10 n)" n] by simp
  moreover assume "hd (decimal n) = 48"
  ultimately show ?thesis using digits_in_hd [of 10 n] False by (simp add: digit_char_def)
qed

lemma ends_number_plain:
  "ends_number r \<Longrightarrow> parse_fraction r = ([], r)" "ends_number r \<Longrightarrow> parse_exponent r = ([], r)"
  by (auto simp: ends_number_def parse_fraction_def parse_exponent_def Let_def split: list.splits)

lemma parse_number_decimal:
  assumes "ends_number r" "length (decimal n) \<le> MAX_INT_DIGITS"
  shows "parse_number neg (decimal n @ r) = Inr (JInt ((if neg then - 1 else 1) * int n), r)"
proof -
  let ?s = "decimal n @ r"
  have ne: "decimal n \<noteq> []" by (simp add: decimal_def)
  have tw: "takeWhile is_digit ?s = decimal n"
    using decimal_digits assms(1) by (cases r) (auto simp: takeWhile_append ends_number_def)
  have ds: "(if ?s \<noteq> [] \<and> hd ?s = 48 then [48] else takeWhile is_digit ?s) = decimal n"
    using ne decimal_hd_zero [of n] tw by simp
  show ?thesis
    unfolding parse_number_def Let_def ds using ends_number_plain [OF assms(1)] ne assms(2)
    by (simp add: decimal_value)
qed

lemma parse_atom_int:
  assumes "ends_number r" "json_ok (JInt i)"
  shows "parse_atom (print_int i @ r) = Inr (JInt i, r)"
proof -
  note d = decimal_hd_digit decimal_nonempty
  have pos: "parse_atom (decimal n @ r) = parse_number False (decimal n @ r)" for n
    using d(1) [of n] by (cases "decimal n") (auto simp: parse_atom_def take_literal_def is_digit_def)
  have neg: "parse_atom (45 # decimal n @ r) = parse_number True (decimal n @ r)" for n
    using d(1) [of n] by (cases "decimal n") (auto simp: parse_atom_def take_literal_def is_digit_def)
  show ?thesis using assms parse_number_decimal [OF assms(1), of "nat \<bar>i\<bar>"]
    by (cases "i < 0") (simp_all add: print_int_def pos neg)
qed

lemma print_json_head:
  "json_ok v \<Longrightarrow> \<exists>c r. print_json ascii v = c # r \<and> \<not> is_ws c \<and> c \<noteq> 93"
proof (cases v)
  case (JInt i)
  then show ?thesis using decimal_hd_digit [of "nat i"]
    by (cases "decimal (nat i)") (auto simp: print_int_def is_digit_def is_ws_def)
qed (auto simp: is_ws_def print_str_def)

lemma skip_ws_print: "json_ok v \<Longrightarrow> skip_ws (print_json ascii v @ r) = print_json ascii v @ r"
  using print_json_head [of v ascii] by (auto simp: skip_ws_def)

lemma skip_ws_simps [simp]: "\<not> is_ws c \<Longrightarrow> skip_ws (c # r) = c # r" "skip_ws [] = []"
  by (simp_all add: skip_ws_def)

lemma not_ws [simp]: "\<not> is_ws 44" "\<not> is_ws 93" "\<not> is_ws 125" "\<not> is_ws 58" "\<not> is_ws 34"
  by (simp_all add: is_ws_def)

lemma ends_number_simps [simp]: "ends_number []" "ends_number (44 # r)" "ends_number (93 # r)" "ends_number (125 # r)"
  by (simp_all add: ends_number_def is_digit_def)

lemma print_items_head: "items_ok xs \<Longrightarrow> xs \<noteq> [] \<Longrightarrow> \<exists>c r. print_items ascii xs = c # r \<and> \<not> is_ws c \<and> c \<noteq> 93"
  using print_json_head [of "hd xs" ascii] by (cases xs rule: remdups_adj.cases) auto

lemma print_pairs_head: "kvs \<noteq> [] \<Longrightarrow> \<exists>r. print_pairs ascii kvs = 34 # r"
  by (cases kvs rule: remdups_adj.cases) (auto simp: print_str_def)

lemma parse_str_print: "list_all is_scalar s \<Longrightarrow> parse_str (tl (print_str ascii s) @ r) = Inr (s, r)"
  using parse_str_body [of s ascii r] by (simp add: print_str_def)

definition reads_back :: "bool \<Rightarrow> json \<Rightarrow> bool" where
  "reads_back ascii v \<longleftrightarrow> (\<forall>r n. ends_number r \<longrightarrow> 2 * length (print_json ascii v) < n \<longrightarrow>
     parse_value n (print_json ascii v @ r) = Inr (v, r))"

lemma items_ok_iff: "items_ok xs \<longleftrightarrow> (\<forall>x \<in> set xs. json_ok x)"
  by (induction xs) auto

lemma pairs_ok_iff: "pairs_ok kvs \<longleftrightarrow> (\<forall>(k, v) \<in> set kvs. list_all is_scalar k \<and> json_ok v)"
  by (induction kvs) auto

lemma distinct_map_fst_sort: "distinct (map fst (sort_key f kvs)) \<longleftrightarrow> distinct (map fst kvs)"
  by (simp add: distinct_map)

lemma update_new: "k \<notin> fst ` set acc \<Longrightarrow> AList.update k v acc = acc @ [(k, v)]"
  by (induction acc) auto

lemma parse_print_items:
  assumes "\<forall>x \<in> set xs. json_ok x \<and> reads_back ascii x" "xs \<noteq> []" "2 * length (print_items ascii xs) + 1 < n"
  shows "parse_elements n acc (print_items ascii xs @ r) = Inr (JArr (acc @ xs), r)"
  using assms
proof (induction xs arbitrary: n acc)
  case (Cons x xs)
  then obtain m where n: "n = Suc m" by (cases n) auto
  show ?case
  proof (cases xs)
    case Nil
    have "parse_value m (print_json ascii x @ 93 # r) = Inr (x, 93 # r)"
      using Cons.prems by (simp add: reads_back_def n Nil)
    then show ?thesis by (simp add: n Nil parse_elements.simps)
  next
    case (Cons y ys)
    let ?r = "print_items ascii xs @ r"
    have v: "parse_value m (print_json ascii x @ 44 # ?r) = Inr (x, 44 # ?r)"
      using Cons.prems by (simp add: reads_back_def n Cons)
    have "items_ok xs" using Cons.prems(1) by (simp add: items_ok_iff)
    then have ws: "skip_ws ?r = ?r" using print_items_head [of xs ascii] Cons by auto
    have "parse_elements m (acc @ [x]) ?r = Inr (JArr ((acc @ [x]) @ xs), r)"
      using Cons.prems Cons by (intro Cons.IH) (auto simp: n)
    then show ?thesis using v ws by (simp add: n Cons parse_elements.simps)
  qed
qed simp

lemma parse_print_pairs:
  assumes "\<forall>(k, v) \<in> set kvs. list_all is_scalar k \<and> json_ok v \<and> reads_back ascii v" "kvs \<noteq> []"
    "distinct (map fst (acc @ kvs))" "2 * length (print_pairs ascii kvs) + 1 < n"
  shows "parse_members n acc (print_pairs ascii kvs @ r) = Inr (JObj (acc @ kvs), r)"
  using assms
proof (induction kvs arbitrary: n acc)
  case (Cons p kvs)
  obtain k v where p: "p = (k, v)" by (cases p)
  from Cons.prems obtain m where n: "n = Suc m" by (cases n) auto
  have kv: "list_all is_scalar k" "json_ok v" "reads_back ascii v" using Cons.prems(1) by (auto simp: p)
  have upd: "AList.update k v acc = acc @ [(k, v)]" using Cons.prems(3) by (intro update_new) (auto simp: p)
  have key: "print_str ascii k @ u = 34 # tl (print_str ascii k) @ u" for u by (simp add: print_str_def)
  show ?case
  proof (cases kvs)
    case Nil
    have "parse_value m (print_json ascii v @ 125 # r) = Inr (v, 125 # r)"
      using kv(3) Cons.prems(4) by (simp add: reads_back_def n Nil p)
    then show ?thesis using parse_str_print [OF kv(1), of ascii] skip_ws_print [OF kv(2)] upd
      by (simp add: n Nil p key parse_members.simps)
  next
    case (Cons q qs)
    let ?r = "print_pairs ascii kvs @ r"
    have v: "parse_value m (print_json ascii v @ 44 # ?r) = Inr (v, 44 # ?r)"
      using kv(3) Cons.prems(4) by (simp add: reads_back_def n Cons p)
    have ws: "skip_ws ?r = ?r" using print_pairs_head [of kvs ascii] Cons by auto
    have "parse_members m (acc @ [(k, v)]) ?r = Inr (JObj ((acc @ [(k, v)]) @ kvs), r)"
      using Cons.prems Cons by (intro Cons.IH) (auto simp: n p)
    then show ?thesis using parse_str_print [OF kv(1), of ascii] skip_ws_print [OF kv(2)] upd v ws
      by (simp add: n Cons p key parse_members.simps)
  qed
qed simp

lemma reads_json: "json_ok v \<Longrightarrow> reads_back ascii v"
proof (induction v)
  case (JInt i)
  show ?case unfolding reads_back_def
  proof (intro allI impI)
    fix r n assume r: "ends_number r" and "2 * length (print_json ascii (JInt i)) < n"
    then obtain m where n: "n = Suc m" by (cases n) auto
    obtain c u where cu: "print_int i = c # u" "\<not> is_ws c" "c \<noteq> 34" "c \<noteq> 91" "c \<noteq> 123"
    proof -
      show ?thesis using decimal_hd_digit [of "nat i"] that
        by (cases "decimal (nat i)"; cases "i < 0") (auto simp: print_int_def is_digit_def is_ws_def)
    qed
    then show "parse_value n (print_json ascii (JInt i) @ r) = Inr (JInt i, r)"
      using parse_atom_int [OF r JInt] by (simp add: n parse_value.simps)
  qed
next
  case (JStr t)
  show ?case unfolding reads_back_def
  proof (intro allI impI)
    fix r n assume "2 * length (print_json ascii (JStr t)) < n"
    then obtain m where n: "n = Suc m" by (cases n) auto
    show "parse_value n (print_json ascii (JStr t) @ r) = Inr (JStr t, r)"
      using parse_str_body [of t ascii r] JStr by (simp add: n parse_value.simps print_str_def)
  qed
next
  case (JArr xs)
  show ?case unfolding reads_back_def
  proof (intro allI impI)
    fix r n assume l: "2 * length (print_json ascii (JArr xs)) < n"
    then obtain m where n: "n = Suc m" by (cases n) auto
    have ok: "\<forall>x \<in> set xs. json_ok x \<and> reads_back ascii x" using JArr by (auto simp: items_ok_iff)
    show "parse_value n (print_json ascii (JArr xs) @ r) = Inr (JArr xs, r)"
    proof (cases "xs = []")
      case False
      have "items_ok xs" using ok by (simp add: items_ok_iff)
      with print_items_head [of xs ascii] False
      have "skip_ws (print_items ascii xs @ r) = print_items ascii xs @ r"
        "expect 93 (print_items ascii xs @ r) = None" by auto
      with parse_print_items [OF ok False, of m "[]" r] l show ?thesis by (simp add: n parse_value.simps)
    qed (simp add: n parse_value.simps)
  qed
next
  case (JObj kvs)
  show ?case unfolding reads_back_def
  proof (intro allI impI)
    fix r n assume l: "2 * length (print_json ascii (JObj kvs)) < n"
    then obtain m where n: "n = Suc m" by (cases n) auto
    have ok: "\<forall>(k, v) \<in> set kvs. list_all is_scalar k \<and> json_ok v \<and> reads_back ascii v"
      using JObj by (fastforce simp: pairs_ok_iff)
    show "parse_value n (print_json ascii (JObj kvs) @ r) = Inr (JObj kvs, r)"
    proof (cases "kvs = []")
      case False
      with print_pairs_head [of kvs ascii]
      have "skip_ws (print_pairs ascii kvs @ r) = print_pairs ascii kvs @ r"
        "expect 125 (print_pairs ascii kvs @ r) = None" by auto
      with parse_print_pairs [OF ok False, of "[]" m r] JObj.prems l show ?thesis
        by (simp add: n parse_value.simps)
    qed (simp add: n parse_value.simps)
  qed
next
  case (JBool b)
  show ?case unfolding reads_back_def
  proof (intro allI impI)
    fix r n assume "2 * length (print_json ascii (JBool b)) < n"
    then obtain m where n: "n = Suc m" by (cases n) auto
    show "parse_value n (print_json ascii (JBool b) @ r) = Inr (JBool b, r)"
      by (simp add: n parse_value.simps parse_atom_def take_literal_def)
  qed
next
  case JNull
  show ?case unfolding reads_back_def
  proof (intro allI impI)
    fix r n assume "2 * length (print_json ascii JNull) < n"
    then obtain m where n: "n = Suc m" by (cases n) auto
    show "parse_value n (print_json ascii JNull @ r) = Inr (JNull, r)"
      by (simp add: n parse_value.simps parse_atom_def take_literal_def)
  qed
qed simp

lemma sort_keys_ok: "json_ok v \<Longrightarrow> json_ok (sort_keys v)"
proof (induction v)
  case (JArr xs)
  have "sort_items xs = map sort_keys xs" by (induction xs) auto
  with JArr show ?case by (simp add: items_ok_iff)
next
  case (JObj kvs)
  have s: "sort_pairs kvs = map (\<lambda>(k, v). (k, sort_keys v)) kvs" by (induction kvs) (auto simp: case_prod_unfold)
  have "distinct (map fst (sort_key fst (sort_pairs kvs)))"
  proof -
    have "map fst (sort_pairs kvs) = map fst kvs" by (simp add: s case_prod_unfold)
    then show ?thesis using JObj.prems by (simp add: distinct_map_fst_sort)
  qed
  then show ?case using JObj by (fastforce simp: s pairs_ok_iff)
qed simp_all

theorem loads_dumps:
  assumes "json_ok v" "\<forall>c \<in> set trailer. is_ws c"
  shows "loads (dumps ascii v @ trailer) = Inr (sort_keys v)"
proof -
  let ?v = "sort_keys v"
  have ok: "json_ok ?v" using assms(1) by (rule sort_keys_ok)
  have e: "ends_number trailer" using assms(2)
    by (cases trailer) (auto simp: ends_number_def is_ws_def is_digit_def)
  have "parse_value (2 * length (dumps ascii v @ trailer) + 2) (print_json ascii ?v @ trailer) = Inr (?v, trailer)"
    using reads_json [OF ok, of ascii] e by (simp add: reads_back_def dumps_def)
  moreover have "skip_ws (print_json ascii ?v @ trailer) = print_json ascii ?v @ trailer"
    using ok by (rule skip_ws_print)
  moreover have "skip_ws trailer = []" using assms(2) by (simp add: skip_ws_def)
  ultimately show ?thesis by (simp add: loads_def dumps_def)
qed

corollary dumps_inject:
  "json_ok v \<Longrightarrow> json_ok w \<Longrightarrow> dumps ascii v = dumps ascii w \<Longrightarrow> sort_keys v = sort_keys w"
  using loads_dumps [of v "[]" ascii] loads_dumps [of w "[]" ascii] by simp

section \<open>With \<open>ensure_ascii\<close> the text is ASCII\<close>

definition ascii_text :: "pystr \<Rightarrow> bool" where
  "ascii_text t \<longleftrightarrow> (\<forall>c \<in> set t. c < 128)"

lemma ascii_text_simps [simp]:
  "ascii_text []" "ascii_text (c # t) \<longleftrightarrow> c < 128 \<and> ascii_text t" "ascii_text (s @ t) \<longleftrightarrow> ascii_text s \<and> ascii_text t"
  by (auto simp: ascii_text_def)

lemma ascii_digit_char: "d < 16 \<Longrightarrow> digit_char d < 128"
  by (simp add: digit_char_def)

lemma ascii_u4: "ascii_text (u4 c)"
  unfolding u4_def by (simp add: ascii_digit_char)

lemma ascii_print_str: "ascii_text (print_str True s)"
proof -
  have "ascii_text (escape_char True c)" for c by (auto simp: escape_char_def ascii_u4)
  then have "ascii_text (concat (map (escape_char True) s))" by (induction s) auto
  then show ?thesis by (simp add: print_str_def)
qed

lemma ascii_decimal: "ascii_text (decimal n)"
  using decimal_digits by (fastforce simp: ascii_text_def is_digit_def)

lemma ascii_print_items: "(\<And>x. x \<in> set xs \<Longrightarrow> ascii_text (print_json True x)) \<Longrightarrow> ascii_text (print_items True xs)"
  by (induction xs rule: induct_list012) auto

lemma ascii_print_pairs:
  "(\<And>k v. (k, v) \<in> set kvs \<Longrightarrow> ascii_text (print_json True v)) \<Longrightarrow> ascii_text (print_pairs True kvs)"
proof (induction kvs rule: induct_list012)
  case (2 p)
  then show ?case by (cases p) (simp add: ascii_print_str)
next
  case (3 p q kvs)
  obtain k v where p: "p = (k, v)" by (cases p)
  have "ascii_text (print_json True v)" using 3(3) [of k v] by (simp add: p)
  moreover have "ascii_text (print_pairs True (q # kvs))" by (rule 3(2)) (use 3(3) in auto)
  ultimately show ?case by (simp add: p ascii_print_str)
qed simp

lemma ascii_print_json: "json_ok v \<Longrightarrow> ascii_text (print_json True v)"
proof (induction v)
  case (JArr xs)
  then show ?case using ascii_print_items by (auto simp: items_ok_iff)
next
  case (JObj kvs)
  then have "ascii_text (print_pairs True kvs)" by (intro ascii_print_pairs) (fastforce simp: pairs_ok_iff)
  then show ?case by simp
qed (simp_all add: ascii_print_str ascii_decimal print_int_def)

lemma dumps_ascii: "json_ok v \<Longrightarrow> c \<in> set (dumps True v) \<Longrightarrow> c < 128"
  using ascii_print_json [OF sort_keys_ok] by (auto simp: dumps_def ascii_text_def)

end
