(* ===== verification/Spool.thy ===== *)
theory Spool
  imports Json
begin

text \<open>
  The private spool directory shared by capture, recovery and retrieval: a tree of entries with
  permission bits, addressed by lists of names relative to the spool root.  \<open>Broken\<close> is a regular
  file whose content cannot be read (opening or reading raises \<open>OSError\<close>).  \<open>FileLink\<close> is a symbolic
  link that leads to a readable regular file outside the spool, with what that file holds; \<open>Symlink\<close>
  is any other link.  Names are looked up without following a link, so a directory of the spool that
  is itself a link to a directory is outside the capture model: \<open>private_dir\<close> refuses it here, while
  the code would follow it (the observation store takes where such links lead as an argument).  The locale \<open>entry_store\<close>
  is the contract a writer and a reader of a directory tree share, lookup after an update, and is
  interpreted on the tree.  Also \<open>private_dir\<close> and \<open>write_json\<close> of \<open>capture/storage.py\<close>.
\<close>

section \<open>Trees of entries\<close>

datatype node =
    File nat bytes
  | Broken nat int
  | Symlink
  | FileLink bytes
  | Special
  | Dir nat "(pystr \<times> node) list"

type_synonym path = "pystr list"

fun node_get :: "node \<Rightarrow> path \<Rightarrow> node option" where
  "node_get n [] = Some n"
| "node_get (Dir m cs) (p # ps) = (case map_of cs p of Some c \<Rightarrow> node_get c ps | None \<Rightarrow> None)"
| "node_get _ (p # ps) = None"

text \<open>Create or replace the entry at a path whose parent directories exist.\<close>

fun node_put :: "path \<Rightarrow> node \<Rightarrow> node \<Rightarrow> node" where
  "node_put [] new old = new"
| "node_put (p # ps) new (Dir m cs) =
     (case map_of cs p of
        Some c \<Rightarrow> Dir m (AList.update p (node_put ps new c) cs)
      | None \<Rightarrow> if ps = [] then Dir m (AList.update p new cs) else Dir m cs)"
| "node_put (p # ps) new old = old"

fun node_del :: "path \<Rightarrow> node \<Rightarrow> node" where
  "node_del [p] (Dir m cs) = Dir m (AList.delete p cs)"
| "node_del (p # q # ps) (Dir m cs) =
     (case map_of cs p of
        Some c \<Rightarrow> Dir m (AList.update p (node_del (q # ps) c) cs)
      | None \<Rightarrow> Dir m cs)"
| "node_del _ n = n"

definition is_dir :: "node \<Rightarrow> bool" where
  "is_dir n \<longleftrightarrow> (\<exists>m cs. n = Dir m cs)"

lemma is_dir_code [code]: "is_dir n \<longleftrightarrow> (case n of Dir m cs \<Rightarrow> True | _ \<Rightarrow> False)"
  by (cases n) (auto simp: is_dir_def)

text \<open>The parent of a path is a directory, so that an entry can be created there.\<close>

definition parent_ok :: "node \<Rightarrow> path \<Rightarrow> bool" where
  "parent_ok n p \<longleftrightarrow> p \<noteq> [] \<and> (\<exists>d. node_get n (butlast p) = Some d \<and> is_dir d)"

lemma parent_ok_code [code]:
  "parent_ok n p \<longleftrightarrow> p \<noteq> [] \<and> (case node_get n (butlast p) of Some d \<Rightarrow> is_dir d | None \<Rightarrow> False)"
  by (auto simp: parent_ok_def split: option.splits)

text \<open>
  A name the operating system interface cannot take (a null character, or a surrogate that is not
  an escaped byte) makes a system call raise \<open>ValueError\<close>, not \<open>OSError\<close>.
\<close>

definition os_name :: "pystr \<Rightarrow> bool" where
  "os_name n \<longleftrightarrow> list_all (\<lambda>c. c \<noteq> 0 \<and> (is_scalar c \<or> 0xDC80 \<le> c \<and> c \<le> 0xDCFF)) n"

section \<open>The contract of a directory tree\<close>

locale entry_store =
  fixes get :: "'s \<Rightarrow> path \<Rightarrow> 'n option"
    and put :: "path \<Rightarrow> 'n \<Rightarrow> 's \<Rightarrow> 's"
    and parent :: "'s \<Rightarrow> path \<Rightarrow> bool"
  assumes get_put_same: "parent s p \<Longrightarrow> get (put p n s) p = Some n"
    and get_put_other: "\<not> prefix p q \<Longrightarrow> \<not> prefix q p \<Longrightarrow> get (put p n s) q = get s q"
    and parent_put: "\<not> prefix p q \<Longrightarrow> parent s q \<Longrightarrow> parent (put p n s) q"
begin

text \<open>Files written to distinct, unrelated paths can all be read back.\<close>

lemma get_fold_other:
  assumes "\<forall>(p, n) \<in> set ws. \<not> prefix p q \<and> \<not> prefix q p"
  shows "get (foldl (\<lambda>s (p, n). put p n s) s ws) q = get s q"
  using assms by (induction ws arbitrary: s) (auto simp: get_put_other)

lemma parent_fold:
  assumes "\<forall>(p, n) \<in> set ws. \<not> prefix p q" "parent s q"
  shows "parent (foldl (\<lambda>s (p, n). put p n s) s ws) q"
  using assms by (induction ws arbitrary: s) (auto simp: parent_put)

lemma get_written:
  assumes "parent s p" "\<forall>(q, m) \<in> set us. \<not> prefix q p"
    and "\<forall>(q, m) \<in> set vs. \<not> prefix q p \<and> \<not> prefix p q"
  shows "get (foldl (\<lambda>s (p, n). put p n s) s (us @ (p, n) # vs)) p = Some n"
  using assms by (simp add: get_fold_other get_put_same parent_fold)

end

lemma node_put_get_same: "parent_ok n p \<Longrightarrow> node_get (node_put p x n) p = Some x"
proof (induction p x n rule: node_put.induct)
  case (2 p ps new m cs)
  then show ?case
    by (cases "ps = []") (auto simp: parent_ok_def update_conv' split: option.splits)
qed (auto simp: parent_ok_def is_dir_def split: if_splits)

lemma node_put_get_other:
  "\<not> prefix p q \<Longrightarrow> \<not> prefix q p \<Longrightarrow> node_get (node_put p x n) q = node_get n q"
proof (induction p x n arbitrary: q rule: node_put.induct)
  case (2 p ps new m cs)
  then show ?case
    by (cases q) (auto simp: update_conv' split: option.splits)
qed auto

lemma node_put_is_dir:
  "\<not> prefix p q \<Longrightarrow> \<exists>d. node_get n q = Some d \<and> is_dir d \<Longrightarrow>
     \<exists>d. node_get (node_put p x n) q = Some d \<and> is_dir d"
proof (induction p x n arbitrary: q rule: node_put.induct)
  case (2 p ps new m cs)
  then show ?case
    by (cases q) (auto simp: update_conv' is_dir_def split: option.splits if_splits)
qed auto

lemma parent_ok_put:
  assumes "\<not> prefix p q" "parent_ok n q" shows "parent_ok (node_put p x n) q"
proof -
  have "\<not> prefix p (butlast q)" using assms(1) prefix_order.trans prefixeq_butlast by blast
  with assms(2) show ?thesis unfolding parent_ok_def using node_put_is_dir [of p "butlast q" n x] by blast
qed

interpretation tree: entry_store node_get node_put parent_ok
  by unfold_locales (simp_all add: node_put_get_same node_put_get_other parent_ok_put)

section \<open>Storage primitives\<close>

definition PRIVATE_DIR :: nat where "PRIVATE_DIR = 448"
definition PRIVATE_FILE :: nat where "PRIVATE_FILE = 384"

text \<open>
  \<open>mkdir(parents=True, exist_ok=True)\<close> and \<open>chmod(0o700)\<close>; every call in the source creates a child
  of an existing directory.  An entry of another kind at the path is a \<open>FileExistsError\<close>, an
  \<open>OSError\<close>, and so is a symbolic link that does not lead to a directory, the only kind covered here.
\<close>

definition private_dir :: "path \<Rightarrow> node \<Rightarrow> node result" where
  "private_dir p root =
     (case node_get root p of
        None \<Rightarrow> if parent_ok root p then Inr (node_put p (Dir PRIVATE_DIR []) root) else Inl OSError
      | Some (Dir m cs) \<Rightarrow> Inr (node_put p (Dir PRIVATE_DIR cs) root)
      | Some _ \<Rightarrow> Inl OSError)"

text \<open>\<open>open("x")\<close>: the file must not exist.\<close>

definition create_file :: "path \<Rightarrow> bytes \<Rightarrow> node \<Rightarrow> node result" where
  "create_file p content root =
     (if node_get root p = None \<and> parent_ok root p
      then Inr (node_put p (File PRIVATE_FILE content) root) else Inl OSError)"

definition json_file :: "json \<Rightarrow> bytes" where
  "json_file v = utf8_encode (dumps True v @ [10])"

definition write_json :: "path \<Rightarrow> json \<Rightarrow> node \<Rightarrow> node result" where
  "write_json p v root = create_file p (json_file v) root"

definition rename_dir :: "path \<Rightarrow> path \<Rightarrow> node \<Rightarrow> node result" where
  "rename_dir src dst root =
     (case (node_get root src, node_get root dst) of
        (Some n, None) \<Rightarrow> if parent_ok root dst then Inr (node_put dst n (node_del src root)) else Inl OSError
      | (Some n, Some (Dir m [])) \<Rightarrow> Inr (node_put dst n (node_del src root))
      | _ \<Rightarrow> Inl OSError)"

text \<open>What \<open>json.dump\<close> writes reads back, also through the bytes of the file.\<close>

lemma json_file_loads:
  assumes "json_ok v" shows "loads (utf8_decode (json_file v)) = Inr (sort_keys v)"
proof -
  have "\<forall>c \<in> set (dumps True v @ [10]). is_scalar c"
    using dumps_ascii [OF assms] by (fastforce simp: is_scalar_def)
  then have "utf8_decode (json_file v) = dumps True v @ [10]"
    unfolding json_file_def by (intro utf8_decode_encode) blast
  then show ?thesis using loads_dumps [OF assms, of "[10]" True] by (simp add: is_ws_def)
qed

lemma parent_ok_get: "parent_ok root p \<Longrightarrow> node_get root (butlast p) \<noteq> None"
  by (auto simp: parent_ok_def)

lemma node_get_append: "node_get root (p @ q) = (case node_get root p of Some n \<Rightarrow> node_get n q | None \<Rightarrow> None)"
  by (induction root p rule: node_get.induct) (auto split: option.splits)

lemma node_del_other: "\<not> prefix p q \<Longrightarrow> \<not> prefix q p \<Longrightarrow> node_get (node_del p root) q = node_get root q"
proof (induction p root arbitrary: q rule: node_del.induct)
  case (1 p m cs)
  then show ?case by (cases q) (auto simp: delete_conv')
next
  case (2 p q' ps m cs)
  then show ?case by (cases q) (auto simp: update_conv' split: option.splits)
qed auto

lemma node_del_is_dir:
  "\<not> prefix p q \<Longrightarrow> \<exists>d. node_get root q = Some d \<and> is_dir d \<Longrightarrow>
     \<exists>d. node_get (node_del p root) q = Some d \<and> is_dir d"
proof (induction p root arbitrary: q rule: node_del.induct)
  case (1 p m cs)
  then show ?case by (cases q) (auto simp: delete_conv' is_dir_def split: option.splits)
next
  case (2 p q' ps m cs)
  then show ?case by (cases q) (auto simp: update_conv' is_dir_def split: option.splits if_splits)
qed auto

lemma parent_ok_del:
  assumes "\<not> prefix p q" "parent_ok root q" shows "parent_ok (node_del p root) q"
proof -
  have "\<not> prefix p (butlast q)" using assms(1) prefix_order.trans prefixeq_butlast by blast
  with assms(2) show ?thesis unfolding parent_ok_def using node_del_is_dir [of p "butlast q" root] by blast
qed

lemma node_get_leaf [simp]:
  "p \<noteq> [] \<Longrightarrow> node_get (File m c) p = None" "p \<noteq> [] \<Longrightarrow> node_get (Broken m z) p = None"
  "p \<noteq> [] \<Longrightarrow> node_get Symlink p = None" "p \<noteq> [] \<Longrightarrow> node_get (FileLink c) p = None" "p \<noteq> [] \<Longrightarrow> node_get Special p = None"
  by (cases p; simp)+

lemma dir_above: "node_get n w = Some d \<Longrightarrow> is_dir d \<Longrightarrow> is_dir n"
  by (cases n; cases w) (auto simp: is_dir_def)

lemma node_del_gone: "p \<noteq> [] \<Longrightarrow> node_get (node_del p root) p = None"
proof (induction p root rule: node_del.induct)
  case (2 p q' ps m cs)
  then show ?case by (auto simp: update_conv' split: option.splits)
qed (auto simp: delete_conv')

lemma rename_dir_get:
  assumes "rename_dir src dst root = Inr root'" "node_get root src = Some n"
    and "\<not> prefix src dst" "\<not> prefix dst src" "parent_ok root dst"
  shows "node_get root' (dst @ q) = node_get n q"
    and "\<not> prefix dst q \<Longrightarrow> \<not> prefix q dst \<Longrightarrow> \<not> prefix src q \<Longrightarrow> \<not> prefix q src \<Longrightarrow>
      node_get root' q = node_get root q"
    and "src \<noteq> [] \<Longrightarrow> node_get root' src = None"
proof -
  have r: "root' = node_put dst n (node_del src root)"
    using assms(1,2) by (auto simp: rename_dir_def split: option.splits node.splits list.splits if_splits)
  have "node_get root' dst = Some n" unfolding r
    using assms by (intro node_put_get_same parent_ok_del)
  then show "node_get root' (dst @ q) = node_get n q" by (simp add: node_get_append)
  show "node_get root' q = node_get root q" if "\<not> prefix dst q" "\<not> prefix q dst" "\<not> prefix src q" "\<not> prefix q src"
    unfolding r using that by (simp add: node_put_get_other node_del_other)
  show "src \<noteq> [] \<Longrightarrow> node_get root' src = None"
    unfolding r using assms(3,4) by (simp add: node_put_get_other node_del_gone)
qed

text \<open>The names in a directory below the root, in order.\<close>

definition children :: "node \<Rightarrow> pystr \<Rightarrow> (nat \<times> pystr list) option" where
  "children root p = (case node_get root [p] of Some (Dir m cs) \<Rightarrow> Some (m, map fst cs) | _ \<Rightarrow> None)"

lemma children_put:
  assumes "\<exists>d. node_get root [p, n] = Some d \<and> is_dir d"
  shows "children (node_put [p, n, f] x root) p = children root p"
proof -
  obtain m cs where root: "root = Dir m cs" using assms by (cases root) auto
  obtain c where c: "map_of cs p = Some c" "\<exists>d. node_get c [n] = Some d" using assms
    by (auto simp: root split: option.splits)
  obtain m' ks where p: "c = Dir m' ks" using c(2) by (cases c) auto
  obtain e where e: "map_of ks n = Some e" using c(2) by (auto simp: p split: option.splits)
  then have "n \<in> set (map fst ks)" using map_of_SomeD by force
  then have "map fst (AList.update n y ks) = map fst ks" for y by (simp add: update_keys)
  then show ?thesis by (simp add: children_def root c(1) p e update_conv')
qed

end
