(* ===== verification/Capture.thy ===== *)
theory Capture
  imports Spool
begin

text \<open>
  \<open>capture/runner.py\<close>, \<open>capture/storage.py\<close> and \<open>capture/recovery.py\<close>: bounded capture of a
  command's two pipes into the spool, and recovery of abandoned partial captures.

  What the operating system decides is data of a run (\<open>capture_env\<close>): the order in which chunks
  arrive on the two pipes, at which write the storage fails and how much of the failed write reached
  the file, whether the process could be started, how waiting for it ended, the clock, and the fresh
  capture id.  Everything else is computed as in the source.  The quota, the write failures and the
  interleaving of the two drain tasks are therefore quantified over by every theorem.
\<close>

section \<open>Stream writers and the event index\<close>

datatype stream = Stdout | Stderr

definition stream_name :: "stream \<Rightarrow> pystr" where
  "stream_name s = (case s of Stdout \<Rightarrow> lit ''stdout'' | Stderr \<Rightarrow> lit ''stderr'')"

record stream_writer =
  sw_content :: bytes
  sw_hashed :: bytes
  retained_bytes :: int

definition writer_create :: stream_writer where
  "writer_create = \<lparr>sw_content = [], sw_hashed = [], retained_bytes = 0\<rparr>"

definition writer_write :: "stream_writer \<Rightarrow> bytes \<Rightarrow> stream_writer" where
  "writer_write w chunk = w\<lparr>sw_content := sw_content w @ chunk, sw_hashed := sw_hashed w @ chunk,
     retained_bytes := retained_bytes w + int (length chunk)\<rparr>"

definition writer_sha256 :: "stream_writer \<Rightarrow> string" where
  "writer_sha256 w = sha256_hex (sw_hashed w)"

record capture_event =
  ev_seq :: nat
  ev_stream :: stream
  ev_monotonic_ns :: int
  ev_offset :: int
  ev_length :: int

definition event_line :: "capture_event \<Rightarrow> pystr" where
  "event_line e = dumps True (JObj [(lit ''seq'', JInt (int (ev_seq e))),
     (lit ''stream'', JStr (stream_name (ev_stream e))),
     (lit ''monotonic_ns'', JInt (ev_monotonic_ns e)),
     (lit ''offset'', JInt (ev_offset e)), (lit ''length'', JInt (ev_length e))]) @ [10]"

text \<open>
  The variables of \<open>capture_command\<close> that the drain tasks share; \<open>event_log\<close> is the sequence of
  events behind \<open>event_hash\<close>, \<open>event_content\<close> what the index file holds.
\<close>

record capture_state =
  cs_stdout :: stream_writer
  cs_stderr :: stream_writer
  event_content :: pystr
  event_log :: "capture_event list"
  captured :: int
  cs_truncated :: bool
  capture_failed :: bool
  out_writable :: bool
  err_writable :: bool
  group_killed :: bool

definition capture_start :: capture_state where
  "capture_start = \<lparr>cs_stdout = writer_create, cs_stderr = writer_create, event_content = [], event_log = [],
     captured = 0, cs_truncated = False, capture_failed = False, out_writable = True, err_writable = True,
     group_killed = False\<rparr>"

definition sequence_no :: "capture_state \<Rightarrow> nat" where
  "sequence_no st = length (event_log st)"

definition event_hash :: "capture_state \<Rightarrow> string" where
  "event_hash st = sha256_hex (utf8_encode (concat (map event_line (event_log st))))"

definition writer_of :: "stream \<Rightarrow> capture_state \<Rightarrow> stream_writer" where
  "writer_of s st = (case s of Stdout \<Rightarrow> cs_stdout st | Stderr \<Rightarrow> cs_stderr st)"

definition set_writer :: "stream \<Rightarrow> stream_writer \<Rightarrow> capture_state \<Rightarrow> capture_state" where
  "set_writer s w st = (case s of Stdout \<Rightarrow> st\<lparr>cs_stdout := w\<rparr> | Stderr \<Rightarrow> st\<lparr>cs_stderr := w\<rparr>)"

definition writable :: "stream \<Rightarrow> capture_state \<Rightarrow> bool" where
  "writable s st = (case s of Stdout \<Rightarrow> out_writable st | Stderr \<Rightarrow> err_writable st)"

definition set_unwritable :: "stream \<Rightarrow> capture_state \<Rightarrow> capture_state" where
  "set_unwritable s st = (case s of Stdout \<Rightarrow> st\<lparr>out_writable := False\<rparr> | Stderr \<Rightarrow> st\<lparr>err_writable := False\<rparr>)"

text \<open>How a write ends: the number is how much of the failing write reached the file.\<close>

datatype write_outcome = Written | StreamError nat | EventError nat

definition record_event :: "stream \<Rightarrow> int \<Rightarrow> int \<Rightarrow> int \<Rightarrow> capture_state \<Rightarrow> capture_state" where
  "record_event s now offset len st =
     (let e = \<lparr>ev_seq = sequence_no st, ev_stream = s, ev_monotonic_ns = now, ev_offset = offset, ev_length = len\<rparr>
      in st\<lparr>event_content := event_content st @ event_line e, event_log := event_log st @ [e]\<rparr>)"

definition failed_event :: "stream \<Rightarrow> int \<Rightarrow> int \<Rightarrow> int \<Rightarrow> nat \<Rightarrow> capture_state \<Rightarrow> capture_state" where
  "failed_event s now offset len k st =
     (let e = \<lparr>ev_seq = sequence_no st, ev_stream = s, ev_monotonic_ns = now, ev_offset = offset, ev_length = len\<rparr>
      in st\<lparr>event_content := event_content st @ take k (event_line e)\<rparr>)"

text \<open>\<open>retain\<close>: the new state, and whether it returned (\<open>False\<close>: an \<open>OSError\<close> escaped).\<close>

definition retain :: "int \<Rightarrow> stream \<Rightarrow> bytes \<Rightarrow> int \<Rightarrow> write_outcome \<Rightarrow> capture_state \<Rightarrow> capture_state \<times> bool" where
  "retain max_bytes s chunk now outcome st =
     (let remaining = max_bytes - captured st in
      if remaining \<le> 0 then (st\<lparr>cs_truncated := cs_truncated st \<or> chunk \<noteq> []\<rparr>, True)
      else let retained = take (nat remaining) chunk;
               w = writer_of s st;
               offset = retained_bytes w
           in case outcome of
                StreamError k \<Rightarrow>
                  (set_writer s (w\<lparr>sw_content := sw_content w @ take k retained\<rparr>) st, False)
              | EventError k \<Rightarrow>
                  (failed_event s now offset (int (length retained)) k (set_writer s (writer_write w retained) st), False)
              | Written \<Rightarrow>
                  (let st = record_event s now offset (int (length retained)) (set_writer s (writer_write w retained) st)
                   in (st\<lparr>captured := captured st + int (length retained),
                         cs_truncated := cs_truncated st \<or> length retained \<noteq> length chunk\<rparr>, True)))"

text \<open>One iteration of a \<open>drain\<close> loop.\<close>

definition drain_chunk ::
  "int \<Rightarrow> bool \<Rightarrow> capture_state \<Rightarrow> stream \<times> bytes \<times> int \<times> write_outcome \<Rightarrow> capture_state" where
  "drain_chunk max_bytes required st read =
     (let (s, chunk, now, outcome) = read in
      if \<not> writable s st then st
      else let (st', returned) = retain max_bytes s chunk now outcome st
           in if returned then st'
              else (set_unwritable s st')\<lparr>capture_failed := True, group_killed := group_killed st' \<or> required\<rparr>)"

definition drain_all ::
  "int \<Rightarrow> bool \<Rightarrow> (stream \<times> bytes \<times> int \<times> write_outcome) list \<Rightarrow> capture_state" where
  "drain_all max_bytes required reads_in = foldl (drain_chunk max_bytes required) capture_start reads_in"

definition stream_bytes :: "stream \<Rightarrow> (stream \<times> bytes \<times> int \<times> write_outcome) list \<Rightarrow> bytes" where
  "stream_bytes s reads_in = concat (map (\<lambda>(t, chunk, _). if t = s then chunk else []) reads_in)"

section \<open>The command and its result\<close>

datatype argument = StrArgument pystr | OtherArgument
datatype argv_arg = ShellString pystr | ArgvSequence "argument list"

definition validate_argv :: "argv_arg \<Rightarrow> pystr list result" where
  "validate_argv argv =
     (case argv of
        ShellString _ \<Rightarrow> Inl (TypeError ''argv must be a non-empty sequence of strings, never a shell command'')
      | ArgvSequence [] \<Rightarrow> Inl (TypeError ''argv must be a non-empty sequence of strings, never a shell command'')
      | ArgvSequence args \<Rightarrow>
          mapM_r (\<lambda>a. case a of StrArgument s \<Rightarrow> Inr s
                     | OtherArgument \<Rightarrow> Inl (TypeError ''argv must contain only strings'')) args)"

datatype wait_outcome = Exited int | WaitTimeout int | WaitCancelled

record command_result =
  cr_started :: bool
  cr_exit_code :: "int option"
  cr_signal :: "int option"
  cr_timed_out :: bool
  cr_cancelled :: bool
  cr_signals_sent :: "int list"

datatype capture_status = COMPLETE | TRUNCATED | CAPTURE_FAILED

definition status_name :: "capture_status \<Rightarrow> pystr" where
  "status_name s = (case s of COMPLETE \<Rightarrow> lit ''COMPLETE'' | TRUNCATED \<Rightarrow> lit ''TRUNCATED''
     | CAPTURE_FAILED \<Rightarrow> lit ''CAPTURE_FAILED'')"

definition SIGKILL :: int where "SIGKILL = 9"

definition command_outcome :: "int \<Rightarrow> bool \<Rightarrow> int list \<Rightarrow> command_result" where
  "command_outcome returncode timed_out sigs =
     \<lparr>cr_started = True, cr_exit_code = (if 0 \<le> returncode then Some returncode else None),
      cr_signal = (if returncode < 0 then Some (- returncode) else None),
      cr_timed_out = timed_out, cr_cancelled = False, cr_signals_sent = sigs\<rparr>"

definition status_of :: "capture_state \<Rightarrow> capture_status" where
  "status_of st = (if capture_failed st then CAPTURE_FAILED else if cs_truncated st then TRUNCATED else COMPLETE)"

record capture_result =
  res_capture_id :: pystr
  res_path :: path
  res_command :: command_result
  res_capture_status :: capture_status
  res_stdout_bytes :: int
  res_stderr_bytes :: int
  res_stdout_sha256 :: string
  res_stderr_sha256 :: string
  res_event_sha256 :: string
  res_event_count :: nat

definition jopt_int :: "int option \<Rightarrow> json" where
  "jopt_int x = (case x of None \<Rightarrow> JNull | Some i \<Rightarrow> JInt i)"

definition command_json :: "command_result \<Rightarrow> json" where
  "command_json c = JObj [(lit ''started'', JBool (cr_started c)), (lit ''exit_code'', jopt_int (cr_exit_code c)),
     (lit ''signal'', jopt_int (cr_signal c)), (lit ''timed_out'', JBool (cr_timed_out c)),
     (lit ''cancelled'', JBool (cr_cancelled c)), (lit ''signals_sent'', JArr (map JInt (cr_signals_sent c)))]"

definition stream_json :: "stream_writer \<Rightarrow> json" where
  "stream_json w = JObj [(lit ''bytes'', JInt (retained_bytes w)), (lit ''sha256'', JStr (lit (writer_sha256 w)))]"

definition manifest_json :: "pystr \<Rightarrow> capture_state \<Rightarrow> command_result \<Rightarrow> int \<Rightarrow> json" where
  "manifest_json capture_id st c finished_ns = JObj [
     (lit ''capture_id'', JStr capture_id),
     (lit ''capture_status'', JStr (status_name (status_of st))),
     (lit ''command'', command_json c),
     (lit ''termination'', JObj [
        (lit ''reason'', JStr (if cr_timed_out c then lit ''TIMEOUT'' else lit ''COMPLETED'')),
        (lit ''caller_cancelled'', JBool False), (lit ''timed_out'', JBool (cr_timed_out c)),
        (lit ''signals_sent'', JArr (map JInt (cr_signals_sent c)))]),
     (lit ''streams'', JObj [(lit ''stdout'', stream_json (cs_stdout st)), (lit ''stderr'', stream_json (cs_stderr st))]),
     (lit ''event_index'', JObj [(lit ''events'', JInt (int (sequence_no st))),
        (lit ''sha256'', JStr (lit (event_hash st)))]),
     (lit ''monotonic_finished_ns'', JInt finished_ns)]"

section \<open>Recovery of partial captures\<close>

definition incomplete_manifest ::
  "pystr \<Rightarrow> pystr \<Rightarrow> int list \<Rightarrow> bool option \<Rightarrow> bool option \<Rightarrow> json" where
  "incomplete_manifest capture_id reason sigs caller_cancelled timed_out =
     (let jopt = (\<lambda>b. case b of None \<Rightarrow> JNull | Some x \<Rightarrow> JBool x) in
      JObj [(lit ''capture_id'', JStr capture_id), (lit ''capture_status'', JStr (lit ''INCOMPLETE'')),
        (lit ''incomplete'', JBool True),
        (lit ''command'', JObj [(lit ''final_status'', JStr (lit ''UNKNOWN'')), (lit ''exit_code'', JNull),
           (lit ''signal'', JNull)]),
        (lit ''termination'', JObj [(lit ''reason'', JStr reason), (lit ''caller_cancelled'', jopt caller_cancelled),
           (lit ''timed_out'', jopt timed_out), (lit ''signals_sent'', JArr (map JInt sigs))])])"

definition recovery_marker :: "pystr \<Rightarrow> json" where
  "recovery_marker reason = JObj [(lit ''capture_status'', JStr (lit ''INCOMPLETE'')),
     (lit ''incomplete'', JBool True), (lit ''reason'', JStr reason)]"

text \<open>\<open>Path.exists\<close> follows links: it holds for a link to a file and not for one that leads nowhere.\<close>

definition path_exists :: "node \<Rightarrow> path \<Rightarrow> bool" where
  "path_exists root p \<longleftrightarrow> (case node_get root p of None \<Rightarrow> False | Some Symlink \<Rightarrow> False | Some _ \<Rightarrow> True)"

definition write_if_absent :: "path \<Rightarrow> json \<Rightarrow> node \<Rightarrow> node \<times> unit result" where
  "write_if_absent p v root =
     (if path_exists root p then (root, Inr ())
      else case write_json p v root of Inl e \<Rightarrow> (root, Inl e) | Inr root' \<Rightarrow> (root', Inr ()))"

definition write_incomplete_manifest ::
  "path \<Rightarrow> pystr \<Rightarrow> pystr \<Rightarrow> int list \<Rightarrow> bool option \<Rightarrow> bool option \<Rightarrow> node \<Rightarrow> node \<times> unit result" where
  "write_incomplete_manifest dir capture_id reason sigs caller_cancelled timed_out root =
     (let (root, r) = write_if_absent (dir @ [lit ''manifest.json''])
            (incomplete_manifest capture_id reason sigs caller_cancelled timed_out) root
      in case r of Inl e \<Rightarrow> (root, Inl e)
         | Inr _ \<Rightarrow> write_if_absent (dir @ [lit ''recovery.json'']) (recovery_marker reason) root)"

record recovery_record =
  rr_capture_id :: pystr
  rr_path :: path

definition PARTIAL_SUFFIX :: pystr where "PARTIAL_SUFFIX = lit ''.partial''"

text \<open>
  \<open>sorted(partial_root.glob("*.partial"))\<close>: the names with that suffix in order; \<open>stem\<close> drops it.
  A name that is only the suffix is a dot file whose stem is the whole name.
\<close>

definition partial_names :: "(pystr \<times> node) list \<Rightarrow> pystr list" where
  "partial_names cs = sort (filter (\<lambda>n. suffix PARTIAL_SUFFIX n) (map fst cs))"

definition stem :: "pystr \<Rightarrow> pystr" where
  "stem n = (if n = PARTIAL_SUFFIX then n else take (length n - length PARTIAL_SUFFIX) n)"

fun recover_each :: "pystr list \<Rightarrow> node \<Rightarrow> node \<times> recovery_record list result" where
  "recover_each [] root = (root, Inr [])"
| "recover_each (n # ns) root =
     (let p = [lit ''partial'', n] in
      case node_get root p of
        Some (Dir m cs) \<Rightarrow>
          (let (root, r) = write_incomplete_manifest p (stem n) (lit ''WRAPPER_INTERRUPTED_OR_CRASHED'') [] None None root
           in case r of Inl e \<Rightarrow> (root, Inl e)
              | Inr _ \<Rightarrow>
                  let (root, rs) = recover_each ns root
                  in (root, bind_r rs (\<lambda>rs. Inr (\<lparr>rr_capture_id = stem n, rr_path = p\<rparr> # rs))))
      | _ \<Rightarrow> recover_each ns root)"

definition recover_partials :: "node \<Rightarrow> node \<times> recovery_record list result" where
  "recover_partials root =
     (if \<not> path_exists root [lit ''partial''] then (root, Inr [])
      else case private_dir [lit ''partial''] root of
          Inl e \<Rightarrow> (root, Inl e)
        | Inr root' \<Rightarrow>
            (case node_get root' [lit ''partial''] of
               Some (Dir m cs) \<Rightarrow> recover_each (partial_names cs) root'
             | _ \<Rightarrow> (root', Inr [])))"

section \<open>The whole capture\<close>

record capture_env =
  env_capture_id :: pystr
  env_spawn_ok :: bool
  env_reads :: "(stream \<times> bytes \<times> int \<times> write_outcome) list"
  env_wait :: wait_outcome
  env_close_ok :: bool
  env_manifest_ok :: bool
  env_finished_ns :: int

definition partial_dir :: "pystr \<Rightarrow> path" where
  "partial_dir capture_id = [lit ''partial'', capture_id @ PARTIAL_SUFFIX]"

definition final_dir :: "pystr \<Rightarrow> path" where
  "final_dir capture_id = [lit ''captures'', capture_id]"

text \<open>\<open>private_dir\<close> on the root itself, which may not exist yet.\<close>

definition ensure_root :: "node option \<Rightarrow> node result" where
  "ensure_root root =
     (case root of None \<Rightarrow> Inr (Dir PRIVATE_DIR []) | Some (Dir m cs) \<Rightarrow> Inr (Dir PRIVATE_DIR cs)
      | Some _ \<Rightarrow> Inl OSError)"

text \<open>The directories and the three empty files, in the order the source creates them.\<close>

fun run_steps :: "(node \<Rightarrow> node result) list \<Rightarrow> node \<Rightarrow> node \<times> unit result" where
  "run_steps [] root = (root, Inr ())"
| "run_steps (f # fs) root = (case f root of Inl e \<Rightarrow> (root, Inl e) | Inr root' \<Rightarrow> run_steps fs root')"

definition make_partial :: "pystr \<Rightarrow> node \<Rightarrow> node result" where
  "make_partial capture_id root =
     (if node_get root (partial_dir capture_id) = None \<and> parent_ok root (partial_dir capture_id)
      then Inr (node_put (partial_dir capture_id) (Dir PRIVATE_DIR []) root) else Inl OSError)"

definition prepare_steps :: "pystr \<Rightarrow> (node \<Rightarrow> node result) list" where
  "prepare_steps capture_id =
     [private_dir [lit ''partial''], private_dir [lit ''captures''], make_partial capture_id,
      create_file (partial_dir capture_id @ [lit ''stdout.raw'']) [],
      create_file (partial_dir capture_id @ [lit ''stderr.raw'']) [],
      create_file (partial_dir capture_id @ [lit ''events.ndjson'']) []]"

text \<open>What the drained streams leave in the partial directory.\<close>

definition store_streams :: "pystr \<Rightarrow> capture_state \<Rightarrow> node \<Rightarrow> node" where
  "store_streams capture_id st root =
     foldl (\<lambda>root (p, n). node_put p n root) root
       [(partial_dir capture_id @ [lit ''stdout.raw''], File PRIVATE_FILE (sw_content (cs_stdout st))),
        (partial_dir capture_id @ [lit ''stderr.raw''], File PRIVATE_FILE (sw_content (cs_stderr st))),
        (partial_dir capture_id @ [lit ''events.ndjson''], File PRIVATE_FILE (utf8_encode (event_content st)))]"

definition capture_result_of :: "pystr \<Rightarrow> capture_state \<Rightarrow> command_result \<Rightarrow> capture_result" where
  "capture_result_of capture_id st c =
     \<lparr>res_capture_id = capture_id, res_path = final_dir capture_id, res_command = c,
      res_capture_status = status_of st, res_stdout_bytes = retained_bytes (cs_stdout st),
      res_stderr_bytes = retained_bytes (cs_stderr st), res_stdout_sha256 = writer_sha256 (cs_stdout st),
      res_stderr_sha256 = writer_sha256 (cs_stderr st), res_event_sha256 = event_hash st,
      res_event_count = sequence_no st\<rparr>"

definition finalize :: "pystr \<Rightarrow> capture_state \<Rightarrow> command_result \<Rightarrow> capture_env \<Rightarrow> node \<Rightarrow> node \<times> capture_result result" where
  "finalize capture_id st c env root =
     (let (root, r) = run_steps
            [\<lambda>root. if env_manifest_ok env
                    then write_json (partial_dir capture_id @ [lit ''manifest.json''])
                           (manifest_json capture_id st c (env_finished_ns env)) root
                    else Inl OSError,
             rename_dir (partial_dir capture_id) (final_dir capture_id)] root
      in (root, bind_r r (\<lambda>_. Inr (capture_result_of capture_id st c))))"

definition capture_process :: "int \<Rightarrow> bool \<Rightarrow> capture_env \<Rightarrow> node \<Rightarrow> node \<times> capture_result result" where
  "capture_process max_bytes required env root =
     (let capture_id = env_capture_id env;
          st = drain_all max_bytes required (env_reads env);
          root = store_streams capture_id st root
      in if \<not> env_close_ok env then (root, Inl OSError)
         else case env_wait env of
             WaitCancelled \<Rightarrow>
               (let (root, r) = write_incomplete_manifest (partial_dir capture_id) capture_id
                      (lit ''CALLER_CANCELLED'') [SIGKILL] (Some True) (Some False) root
                in (root, bind_r r (\<lambda>_. Inl CancelledError)))
           | WaitTimeout rc \<Rightarrow> finalize capture_id st (command_outcome rc True [SIGKILL]) env root
           | Exited rc \<Rightarrow> finalize capture_id st (command_outcome rc False []) env root)"

definition capture_command ::
  "argv_arg \<Rightarrow> int \<Rightarrow> bool \<Rightarrow> capture_env \<Rightarrow> node option \<Rightarrow> node option \<times> capture_result result" where
  "capture_command argv max_bytes required env root =
     (case validate_argv argv of
        Inl e \<Rightarrow> (root, Inl e)
      | Inr command \<Rightarrow>
          if max_bytes < 0 then (root, Inl (ValueError ''max_bytes must be non-negative''))
          else case ensure_root root of
              Inl e \<Rightarrow> (root, Inl e)
            | Inr r0 \<Rightarrow>
                (let (r1, prepared) = run_steps (prepare_steps (env_capture_id env)) r0 in
                 case prepared of
                   Inl e \<Rightarrow> (Some r1, Inl e)
                 | Inr _ \<Rightarrow>
                     if \<not> env_spawn_ok env then (Some r1, Inl OSError)
                     else map_prod Some id (capture_process max_bytes required env r1)))"

section \<open>Invariant of the drain tasks\<close>

definition stream_extent :: "stream \<Rightarrow> capture_event list \<Rightarrow> int" where
  "stream_extent s log = sum_list (map ev_length (filter (\<lambda>e. ev_stream e = s) log))"

text \<open>Events are numbered from 0 and tile each stream without gap or overlap.\<close>

definition tiles :: "capture_event list \<Rightarrow> bool" where
  "tiles log \<longleftrightarrow> (\<forall>i < length log. ev_seq (log ! i) = i \<and>
     ev_offset (log ! i) = stream_extent (ev_stream (log ! i)) (take i log))"

definition stream_inv :: "int \<Rightarrow> (stream \<times> bytes \<times> int \<times> write_outcome) list \<Rightarrow> capture_state \<Rightarrow> stream \<Rightarrow> bool" where
  "stream_inv max_bytes rs st s \<longleftrightarrow>
     retained_bytes (writer_of s st) = int (length (sw_hashed (writer_of s st))) \<and>
     prefix (sw_hashed (writer_of s st)) (stream_bytes s rs) \<and>
     (writable s st \<longrightarrow> sw_content (writer_of s st) = sw_hashed (writer_of s st) \<and>
        stream_extent s (event_log st) = retained_bytes (writer_of s st) \<and>
        (captured st < max_bytes \<or> \<not> cs_truncated st \<longrightarrow> sw_hashed (writer_of s st) = stream_bytes s rs)) \<and>
     (\<not> writable s st \<longrightarrow> capture_failed st)"

definition lost_bytes :: "int \<Rightarrow> (stream \<times> bytes \<times> int \<times> write_outcome) list \<Rightarrow> bool" where
  "lost_bytes max_bytes rs \<longleftrightarrow> max_bytes < int (length (stream_bytes Stdout rs)) + int (length (stream_bytes Stderr rs))"

definition total_inv :: "int \<Rightarrow> (stream \<times> bytes \<times> int \<times> write_outcome) list \<Rightarrow> capture_state \<Rightarrow> bool" where
  "total_inv max_bytes rs st \<longleftrightarrow> 0 \<le> captured st \<and> captured st \<le> max_bytes \<and> tiles (event_log st) \<and>
     (\<not> capture_failed st \<longrightarrow>
        captured st = retained_bytes (cs_stdout st) + retained_bytes (cs_stderr st) \<and>
        event_content st = concat (map event_line (event_log st)) \<and>
        (cs_truncated st \<longrightarrow> lost_bytes max_bytes rs)) \<and>
     (cs_truncated st \<longrightarrow> captured st = max_bytes)"

definition drain_inv :: "int \<Rightarrow> (stream \<times> bytes \<times> int \<times> write_outcome) list \<Rightarrow> capture_state \<Rightarrow> bool" where
  "drain_inv max_bytes rs st \<longleftrightarrow> total_inv max_bytes rs st \<and> (\<forall>s. stream_inv max_bytes rs st s)"

lemma writer_of_updates [simp]:
  "writer_of s (set_writer t w st) = (if s = t then w else writer_of s st)"
  "writer_of s (set_unwritable t st) = writer_of s st"
  "writer_of s (st\<lparr>cs_truncated := b\<rparr>) = writer_of s st" "writer_of s (st\<lparr>captured := c\<rparr>) = writer_of s st"
  "writer_of s (st\<lparr>capture_failed := b\<rparr>) = writer_of s st" "writer_of s (st\<lparr>group_killed := b\<rparr>) = writer_of s st"
  "writer_of s (record_event t now off len st) = writer_of s st"
  "writer_of s (failed_event t now off len k st) = writer_of s st"
  by (simp_all add: writer_of_def set_writer_def set_unwritable_def record_event_def failed_event_def Let_def
      split: stream.splits)

lemma writable_updates [simp]:
  "writable s (set_writer t w st) = writable s st"
  "writable s (set_unwritable t st) \<longleftrightarrow> s \<noteq> t \<and> writable s st"
  "writable s (st\<lparr>cs_truncated := b\<rparr>) = writable s st" "writable s (st\<lparr>captured := c\<rparr>) = writable s st"
  "writable s (st\<lparr>capture_failed := b\<rparr>) = writable s st" "writable s (st\<lparr>group_killed := b\<rparr>) = writable s st"
  "writable s (record_event t now off len st) = writable s st"
  "writable s (failed_event t now off len k st) = writable s st"
  by (auto simp: writable_def set_writer_def set_unwritable_def record_event_def failed_event_def Let_def
      split: stream.splits)

lemma writer_frame [simp]:
  "event_log (set_writer t w st) = event_log st" "event_log (set_unwritable t st) = event_log st"
  "captured (set_writer t w st) = captured st" "captured (set_unwritable t st) = captured st"
  "cs_truncated (set_writer t w st) = cs_truncated st" "cs_truncated (set_unwritable t st) = cs_truncated st"
  "capture_failed (set_writer t w st) = capture_failed st" "capture_failed (set_unwritable t st) = capture_failed st"
  "event_content (set_writer t w st) = event_content st" "event_content (set_unwritable t st) = event_content st"
  "group_killed (set_writer t w st) = group_killed st" "group_killed (set_unwritable t st) = group_killed st"
  by (simp_all add: set_writer_def set_unwritable_def split: stream.splits)

lemma event_frame [simp]:
  "captured (record_event t now off len st) = captured st" "captured (failed_event t now off len k st) = captured st"
  "cs_truncated (record_event t now off len st) = cs_truncated st"
  "cs_truncated (failed_event t now off len k st) = cs_truncated st"
  "capture_failed (record_event t now off len st) = capture_failed st"
  "capture_failed (failed_event t now off len k st) = capture_failed st"
  "event_log (failed_event t now off len k st) = event_log st"
  "group_killed (record_event t now off len st) = group_killed st"
  "group_killed (failed_event t now off len k st) = group_killed st"
  by (simp_all add: record_event_def failed_event_def Let_def)

lemma record_event_log:
  "\<exists>e. ev_seq e = length (event_log st) \<and> ev_stream e = s \<and> ev_offset e = off \<and> ev_length e = len \<and>
     event_log (record_event s now off len st) = event_log st @ [e] \<and>
     event_content (record_event s now off len st) = event_content st @ event_line e"
  by (simp add: record_event_def Let_def sequence_no_def)

lemma both_streams: "cs_stdout st = writer_of Stdout st" "cs_stderr st = writer_of Stderr st"
  by (simp_all add: writer_of_def)

lemma writer_write_simps [simp]:
  "sw_content (writer_write w c) = sw_content w @ c" "sw_hashed (writer_write w c) = sw_hashed w @ c"
  "retained_bytes (writer_write w c) = retained_bytes w + int (length c)"
  by (simp_all add: writer_write_def)

lemma stream_bytes_snoc [simp]:
  "stream_bytes s (rs @ [(t, chunk, r)]) = stream_bytes s rs @ (if t = s then chunk else [])"
  by (simp add: stream_bytes_def)

lemma stream_extent_snoc [simp]:
  "stream_extent s (log @ [e]) = stream_extent s log + (if ev_stream e = s then ev_length e else 0)"
  by (simp add: stream_extent_def)

lemma tiles_snoc:
  "tiles (log @ [e]) \<longleftrightarrow> tiles log \<and> ev_seq e = length log \<and> ev_offset e = stream_extent (ev_stream e) log"
  by (auto simp: tiles_def nth_append less_Suc_eq)

lemma stream_inv_grow:
  "stream_inv max_bytes rs st s \<Longrightarrow> t \<noteq> s \<Longrightarrow> stream_inv max_bytes (rs @ [(t, chunk, r)]) st s"
  by (simp add: stream_inv_def)

lemma lost_bytes_grow: "lost_bytes max_bytes rs \<Longrightarrow> lost_bytes max_bytes (rs @ [r])"
  by (cases r) (auto simp: lost_bytes_def)

lemma total_inv_grow: "total_inv max_bytes rs st \<Longrightarrow> total_inv max_bytes (rs @ [r]) st"
  by (auto simp: total_inv_def lost_bytes_grow)

lemma retained_length: "0 < remaining \<Longrightarrow> int (length (take (nat remaining) chunk)) = min remaining (int (length chunk))"
  by auto

lemma retained_total:
  assumes "drain_inv max_bytes rs st" "\<not> capture_failed st"
  shows "captured st \<le> int (length (stream_bytes Stdout rs)) + int (length (stream_bytes Stderr rs))"
proof -
  have "retained_bytes (writer_of s st) \<le> int (length (stream_bytes s rs))" for s
    using assms(1) by (auto simp: drain_inv_def stream_inv_def dest!: prefix_length_le)
  from this [of Stdout] this [of Stderr] assms show ?thesis
    by (simp add: drain_inv_def total_inv_def both_streams)
qed

lemma drain_skip:
  assumes "drain_inv max_bytes rs st" "\<not> writable s st"
  shows "drain_inv max_bytes (rs @ [(s, chunk, r)]) st"
proof -
  have "stream_inv max_bytes (rs @ [(s, chunk, r)]) st t" for t
    using assms stream_inv_grow [of max_bytes rs st t s] by (cases "t = s") (auto simp: drain_inv_def stream_inv_def)
  then show ?thesis using assms(1) by (simp add: drain_inv_def total_inv_grow)
qed

lemma drain_full:
  assumes "drain_inv max_bytes rs st" "max_bytes \<le> captured st" "writable s st"
  shows "drain_inv max_bytes (rs @ [(s, chunk, r)]) (st\<lparr>cs_truncated := cs_truncated st \<or> chunk \<noteq> []\<rparr>)"
proof (cases "chunk = []")
  case True
  have "stream_inv max_bytes (rs @ [(s, [], r)]) st t" for t
    using assms(1) by (auto simp: drain_inv_def stream_inv_def)
  with True assms(1) show ?thesis by (simp add: drain_inv_def total_inv_grow)
next
  case False
  let ?st = "st\<lparr>cs_truncated := True\<rparr>"
  have eq: "captured st = max_bytes" using assms by (simp add: drain_inv_def total_inv_def)
  have s: "stream_inv max_bytes (rs @ [(s, chunk, r)]) ?st t" for t
    using assms(1) eq by (auto simp: drain_inv_def stream_inv_def)
  have one: "1 \<le> length chunk" using False by (cases chunk) simp_all
  have "lost_bytes max_bytes (rs @ [(s, chunk, r)])" if "\<not> capture_failed st"
    using retained_total [OF assms(1) that] eq one by (cases s) (simp_all add: lost_bytes_def)
  then have "total_inv max_bytes (rs @ [(s, chunk, r)]) ?st"
    using assms(1) eq by (auto simp: drain_inv_def total_inv_def)
  with s False show ?thesis by (simp add: drain_inv_def)
qed

lemma drain_stream_error:
  assumes "drain_inv max_bytes rs st" "writable s st"
  shows "drain_inv max_bytes (rs @ [(s, chunk, r)])
    ((set_unwritable s (set_writer s ((writer_of s st)\<lparr>sw_content := junk\<rparr>) st))
      \<lparr>capture_failed := True, group_killed := g\<rparr>)"
proof -
  have inv: "stream_inv max_bytes rs st t" for t using assms(1) by (simp add: drain_inv_def)
  have "stream_inv max_bytes (rs @ [(s, chunk, r)])
      ((set_unwritable s (set_writer s ((writer_of s st)\<lparr>sw_content := junk\<rparr>) st))
        \<lparr>capture_failed := True, group_killed := g\<rparr>) t" for t
    using inv [of t] unfolding stream_inv_def by (cases "t = s") auto
  moreover have "total_inv max_bytes (rs @ [(s, chunk, r)])
      ((set_unwritable s (set_writer s ((writer_of s st)\<lparr>sw_content := junk\<rparr>) st))
        \<lparr>capture_failed := True, group_killed := g\<rparr>)"
    using assms(1) by (simp add: drain_inv_def total_inv_def)
  ultimately show ?thesis by (simp add: drain_inv_def)
qed

lemma hashed_below_quota:
  assumes "drain_inv max_bytes rs st" "writable s st" "captured st < max_bytes"
  shows "sw_hashed (writer_of s st) = stream_bytes s rs"
  using assms by (simp add: drain_inv_def stream_inv_def)

lemma quota_prefix:
  assumes "drain_inv max_bytes rs st" "writable s st" "captured st < max_bytes"
  shows "prefix (sw_hashed (writer_of s st) @ take k chunk) (stream_bytes s rs @ chunk)"
  using hashed_below_quota [OF assms] by (simp add: take_is_prefix)

lemma drain_event_error:
  assumes "drain_inv max_bytes rs st" "writable s st" "captured st < max_bytes"
  shows "drain_inv max_bytes (rs @ [(s, chunk, r)])
    ((set_unwritable s (failed_event s now off len j
        (set_writer s (writer_write (writer_of s st) (take k chunk)) st)))
      \<lparr>capture_failed := True, group_killed := g\<rparr>)"
proof -
  have inv: "stream_inv max_bytes rs st t" for t using assms(1) by (simp add: drain_inv_def)
  have "stream_inv max_bytes (rs @ [(s, chunk, r)])
      ((set_unwritable s (failed_event s now off len j
          (set_writer s (writer_write (writer_of s st) (take k chunk)) st)))
        \<lparr>capture_failed := True, group_killed := g\<rparr>) t" for t
    using inv [of t] quota_prefix [OF assms, of k chunk] unfolding stream_inv_def by (cases "t = s") auto
  then show ?thesis using assms(1) by (simp add: drain_inv_def total_inv_def)
qed

lemma drain_written:
  assumes "drain_inv max_bytes rs st" "writable s st" "captured st < max_bytes"
    and k: "kept = take (nat (max_bytes - captured st)) chunk"
    and st': "st' = record_event s now (retained_bytes (writer_of s st)) (int (length kept))
        (set_writer s (writer_write (writer_of s st) kept) st)"
  shows "drain_inv max_bytes (rs @ [(s, chunk, r)])
    (st'\<lparr>captured := captured st' + int (length kept),
        cs_truncated := cs_truncated st' \<or> length kept \<noteq> length chunk\<rparr>)" (is "drain_inv _ _ ?st")
proof -
  obtain e where e: "ev_seq e = length (event_log st)" "ev_stream e = s"
    "ev_offset e = retained_bytes (writer_of s st)" "ev_length e = int (length kept)"
    "event_log st' = event_log st @ [e]" "event_content st' = event_content st @ event_line e"
    using record_event_log [of "set_writer s (writer_write (writer_of s st) kept) st"]
    unfolding st' by (metis writer_frame(1,9))
  have len: "int (length kept) = min (max_bytes - captured st) (int (length chunk))"
    using assms(3) unfolding k by (intro retained_length) simp
  have pre: "prefix (sw_hashed (writer_of s st) @ kept) (stream_bytes s rs @ chunk)"
    unfolding k by (rule quota_prefix [OF assms(1,2,3)])
  have notr: "\<not> cs_truncated st" using assms(1,3) by (auto simp: drain_inv_def total_inv_def)
  have inv: "stream_inv max_bytes rs st t" for t using assms(1) by (simp add: drain_inv_def)
  have short: "captured st + int (length kept) < max_bytes \<or> length kept = length chunk \<Longrightarrow>
      kept = chunk" using len assms(3) unfolding k by (auto simp: min_def split: if_splits)
  have fields: "captured ?st = captured st + int (length kept)" "capture_failed ?st = capture_failed st"
      "cs_truncated ?st \<longleftrightarrow> length kept \<noteq> length chunk"
      "event_content ?st = event_content st @ event_line e" "event_log ?st = event_log st @ [e]"
      using notr e(5,6) by (simp_all add: st')
  have w: "writer_of t ?st = (if t = s then writer_write (writer_of s st) kept else writer_of t st)"
    "writable t ?st = writable t st" for t by (simp_all add: st')
  have "stream_inv max_bytes (rs @ [(s, chunk, r)]) ?st t" for t
  proof (cases "t = s")
    case True
    have i: "retained_bytes (writer_of s st) = int (length (sw_hashed (writer_of s st)))"
      "sw_content (writer_of s st) = sw_hashed (writer_of s st)"
      "stream_extent s (event_log st) = retained_bytes (writer_of s st)"
      using inv [of s] assms(2) by (simp_all add: stream_inv_def)
    have h: "sw_hashed (writer_of s st) = stream_bytes s rs" using assms(1,2,3) by (rule hashed_below_quota)
    show ?thesis unfolding stream_inv_def True fields w
      using i h short e(2,4) assms(2) pre by simp
  next
    case False
    with inv [of t] e(2) assms(3) notr show ?thesis unfolding stream_inv_def fields w by simp
  qed
  moreover have "total_inv max_bytes (rs @ [(s, chunk, r)]) ?st"
  proof -
    have T: "total_inv max_bytes rs st" using assms(1) by (simp add: drain_inv_def)
    have sum: "retained_bytes (cs_stdout ?st) + retained_bytes (cs_stderr ?st) =
        retained_bytes (cs_stdout st) + retained_bytes (cs_stderr st) + int (length kept)"
      unfolding both_streams by (cases s) (simp_all add: st')
    have "stream_extent s (event_log st) = retained_bytes (writer_of s st)"
      using inv [of s] assms(2) by (simp add: stream_inv_def)
    then have til: "tiles (event_log ?st)" using T e by (simp add: total_inv_def tiles_snoc)
    have lost: "lost_bytes max_bytes (rs @ [(s, chunk, r)])"
      if "length kept \<noteq> length chunk" "\<not> capture_failed st"
      using retained_total [OF assms(1) that(2)] that(1) len by (cases s) (auto simp: lost_bytes_def)
    have le: "captured st + int (length kept) \<le> max_bytes"
      and full: "length kept \<noteq> length chunk \<Longrightarrow> captured st + int (length kept) = max_bytes"
      using len assms(3) by linarith+
    show ?thesis using T til sum lost le full unfolding total_inv_def fields by auto
  qed
  ultimately show ?thesis by (simp add: drain_inv_def)
qed

lemma drain_chunk_inv:
  assumes "drain_inv max_bytes rs st"
  shows "drain_inv max_bytes (rs @ [read]) (drain_chunk max_bytes required st read)"
proof -
  obtain s chunk now out where r: "read = (s, chunk, now, out)" by (cases read)
  show ?thesis
  proof (cases "writable s st")
    case False
    then show ?thesis using drain_skip [OF assms False] by (simp add: r drain_chunk_def)
  next
    case w: True
    show ?thesis
    proof (cases "max_bytes - captured st \<le> 0")
      case True
      then show ?thesis using drain_full [OF assms _ w] w by (simp add: r drain_chunk_def retain_def)
    next
      case False
      then have q: "captured st < max_bytes" by simp
      show ?thesis
      proof (cases out)
        case Written
        with drain_written [OF assms w q refl refl] w False show ?thesis
          by (simp add: r drain_chunk_def retain_def Let_def)
      next
        case (StreamError k)
        with drain_stream_error [OF assms w] w False show ?thesis
          by (simp add: r drain_chunk_def retain_def Let_def)
      next
        case (EventError k)
        with drain_event_error [OF assms w q] w False show ?thesis
          by (simp add: r drain_chunk_def retain_def Let_def)
      qed
    qed
  qed
qed

lemma capture_start_inv: "0 \<le> max_bytes \<Longrightarrow> drain_inv max_bytes [] capture_start"
  by (simp add: drain_inv_def total_inv_def stream_inv_def capture_start_def writer_create_def tiles_def
      writer_of_def writable_def stream_bytes_def stream_extent_def split: stream.splits)

lemma drain_all_inv: "0 \<le> max_bytes \<Longrightarrow> drain_inv max_bytes rs (drain_all max_bytes required rs)"
proof (induction rs rule: rev_induct)
  case Nil
  then show ?case by (simp add: drain_all_def capture_start_inv)
next
  case (snoc r rs)
  then show ?case using drain_chunk_inv [of max_bytes rs] by (simp add: drain_all_def)
qed

lemma not_failed_writable: "drain_inv max_bytes rs st \<Longrightarrow> \<not> capture_failed st \<Longrightarrow> writable s st"
  by (auto simp: drain_inv_def stream_inv_def)

lemma not_failed_content:
  assumes "drain_inv max_bytes rs st" "\<not> capture_failed st"
  shows "sw_content (writer_of s st) = sw_hashed (writer_of s st)"
  using assms not_failed_writable [OF assms, of s] by (simp add: drain_inv_def stream_inv_def)

section \<open>What a finished capture leaves in the spool\<close>

lemma private_dir_result:
  assumes "private_dir p root = Inr root'" "p \<noteq> []" "parent_ok root p"
  shows "\<exists>d. node_get root' p = Some d \<and> is_dir d"
    and "\<not> prefix p q \<Longrightarrow> \<not> prefix q p \<Longrightarrow> node_get root' q = node_get root q"
    and "\<not> prefix p q \<Longrightarrow> parent_ok root q \<Longrightarrow> parent_ok root' q"
proof -
  obtain cs where r: "root' = node_put p (Dir PRIVATE_DIR cs) root"
    using assms(1) by (auto simp: private_dir_def split: option.splits node.splits if_splits)
  show "\<exists>d. node_get root' p = Some d \<and> is_dir d"
    using node_put_get_same [OF assms(3)] by (auto simp: r is_dir_def)
  show "\<not> prefix p q \<Longrightarrow> \<not> prefix q p \<Longrightarrow> node_get root' q = node_get root q"
    by (simp add: r node_put_get_other)
  show "\<not> prefix p q \<Longrightarrow> parent_ok root q \<Longrightarrow> parent_ok root' q" by (simp add: r parent_ok_put)
qed

lemma create_file_result:
  "create_file p c root = Inr root' \<Longrightarrow> root' = node_put p (File PRIVATE_FILE c) root \<and> parent_ok root p \<and> node_get root p = None"
  by (auto simp: create_file_def split: if_splits)

lemma parent_okI: "node_get root d = Some n \<Longrightarrow> is_dir n \<Longrightarrow> parent_ok root (d @ [f])"
  by (auto simp: parent_ok_def)

lemma prepared:
  assumes "run_steps (prepare_steps cid) r0 = (r1, Inr ())" "is_dir r0"
  shows "\<exists>d. node_get r1 (partial_dir cid) = Some d \<and> is_dir d"
    and "parent_ok r1 (final_dir cid)" and "node_get r1 (partial_dir cid @ [lit ''manifest.json'']) = None"
proof -
  let ?P = "[lit ''partial'']" and ?C = "[lit ''captures'']" and ?D = "partial_dir cid"
  from assms(1) obtain a b c d e where
    a: "private_dir ?P r0 = Inr a" and b: "private_dir ?C a = Inr b" and c: "make_partial cid b = Inr c"
    and d: "create_file (?D @ [lit ''stdout.raw'']) [] c = Inr d"
    and e: "create_file (?D @ [lit ''stderr.raw'']) [] d = Inr e"
    and f: "create_file (?D @ [lit ''events.ndjson'']) [] e = Inr r1"
    by (auto simp: prepare_steps_def split: sum.splits)
  have root_dir: "parent_ok n [x]" if "is_dir n" for n x using that by (auto simp: parent_ok_def)
  have a_dir: "is_dir a" using a assms(2)
    by (auto simp: private_dir_def is_dir_def split: option.splits node.splits if_splits)
  have C: "\<exists>x. node_get b ?C = Some x \<and> is_dir x"
    using private_dir_result(1) [OF b _ root_dir [OF a_dir]] by blast
  have cr: "c = node_put ?D (Dir PRIVATE_DIR []) b" "parent_ok b ?D"
    using c by (auto simp: make_partial_def split: if_splits)
  have D: "node_get c ?D = Some (Dir PRIVATE_DIR [])" unfolding cr(1) using cr(2) by (rule node_put_get_same)
  have C2: "\<exists>x. node_get c ?C = Some x \<and> is_dir x"
    unfolding cr(1) using C by (intro node_put_is_dir) (auto simp: partial_dir_def)
  have r1: "r1 = node_put (?D @ [lit ''events.ndjson'']) (File PRIVATE_FILE [])
      (node_put (?D @ [lit ''stderr.raw'']) (File PRIVATE_FILE [])
        (node_put (?D @ [lit ''stdout.raw'']) (File PRIVATE_FILE []) c))"
    using create_file_result [OF d] create_file_result [OF e] create_file_result [OF f] by simp
  show "\<exists>d. node_get r1 ?D = Some d \<and> is_dir d"
    unfolding r1 using D by (intro node_put_is_dir) (auto simp: is_dir_def)
  have "\<exists>x. node_get r1 ?C = Some x \<and> is_dir x"
    unfolding r1 using C2 by (intro node_put_is_dir) (auto simp: partial_dir_def)
  then show "parent_ok r1 (final_dir cid)" by (auto simp: parent_ok_def final_dir_def)
  have "node_get c (?D @ [lit ''manifest.json'']) = None" using D by (simp add: node_get_append)
  then show "node_get r1 (?D @ [lit ''manifest.json'']) = None"
    unfolding r1 by (simp add: node_put_get_other)
qed

definition command_of :: "capture_env \<Rightarrow> command_result" where
  "command_of env = (case env_wait env of
     WaitTimeout rc \<Rightarrow> command_outcome rc True [SIGKILL] | Exited rc \<Rightarrow> command_outcome rc False []
   | WaitCancelled \<Rightarrow> command_outcome 0 False [])"

text \<open>The files of a capture directory, as the capture leaves them.\<close>

definition holds_capture :: "node \<Rightarrow> path \<Rightarrow> capture_state \<Rightarrow> json \<Rightarrow> bool" where
  "holds_capture root dir st manifest \<longleftrightarrow>
     (\<exists>d. node_get root dir = Some d \<and> is_dir d) \<and>
     node_get root (dir @ [lit ''stdout.raw'']) = Some (File PRIVATE_FILE (sw_content (cs_stdout st))) \<and>
     node_get root (dir @ [lit ''stderr.raw'']) = Some (File PRIVATE_FILE (sw_content (cs_stderr st))) \<and>
     node_get root (dir @ [lit ''events.ndjson'']) = Some (File PRIVATE_FILE (utf8_encode (event_content st))) \<and>
     node_get root (dir @ [lit ''manifest.json'']) = Some (File PRIVATE_FILE (json_file manifest))"

lemma capture_command_finalized:
  assumes "capture_command argv max_bytes required env root = (root', Inr res)"
  obtains r0 r1 r where "0 \<le> max_bytes" "run_steps (prepare_steps (env_capture_id env)) r0 = (r1, Inr ())" "is_dir r0"
    "root' = Some r"
    "finalize (env_capture_id env) (drain_all max_bytes required (env_reads env)) (command_of env) env
       (store_streams (env_capture_id env) (drain_all max_bytes required (env_reads env)) r1) = (r, Inr res)"
proof -
  from assms obtain r0 where r0: "ensure_root root = Inr r0" "0 \<le> max_bytes"
    by (auto simp: capture_command_def split: sum.splits if_splits prod.splits)
  obtain r1 u where r1: "run_steps (prepare_steps (env_capture_id env)) r0 = (r1, u)" by (rule prod.exhaust)
  from assms r0 r1 have u: "u = Inr ()" and p: "map_prod Some id (capture_process max_bytes required env r1) = (root', Inr res)"
    by (auto simp: capture_command_def split: sum.splits if_splits)
  then obtain r where r: "root' = Some r" "capture_process max_bytes required env r1 = (r, Inr res)"
    by (cases "capture_process max_bytes required env r1") auto
  have "is_dir r0" using r0(1) by (auto simp: ensure_root_def is_dir_def split: option.splits node.splits)
  moreover have "finalize (env_capture_id env) (drain_all max_bytes required (env_reads env)) (command_of env) env
       (store_streams (env_capture_id env) (drain_all max_bytes required (env_reads env)) r1) = (r, Inr res)"
    using r(2) by (auto simp: capture_process_def command_of_def Let_def bind_r_Inr_iff
        split: wait_outcome.splits if_splits prod.splits)
  ultimately show ?thesis using that r0(2) r1 u r(1) by blast
qed

lemma finalize_result:
  assumes f: "finalize cid st c env root = (r, Inr res)"
    and D: "\<exists>d. node_get root (partial_dir cid) = Some d \<and> is_dir d"
    and p: "parent_ok root (final_dir cid)"
    and files: "node_get root (partial_dir cid @ [lit ''stdout.raw'']) = Some (File PRIVATE_FILE (sw_content (cs_stdout st)))"
      "node_get root (partial_dir cid @ [lit ''stderr.raw'']) = Some (File PRIVATE_FILE (sw_content (cs_stderr st)))"
      "node_get root (partial_dir cid @ [lit ''events.ndjson'']) = Some (File PRIVATE_FILE (utf8_encode (event_content st)))"
  shows "res = capture_result_of cid st c" "node_get r (partial_dir cid) = None"
    and "holds_capture r (final_dir cid) st (manifest_json cid st c (env_finished_ns env))"
proof -
  let ?D = "partial_dir cid" and ?M = "manifest_json cid st c (env_finished_ns env)"
  obtain m where m: "write_json (?D @ [lit ''manifest.json'']) ?M root = Inr m" and ren: "rename_dir ?D (final_dir cid) m = Inr r"
    and res: "res = capture_result_of cid st c"
    using f by (auto simp: finalize_def bind_r_Inr_iff split: sum.splits if_splits)
  show "res = capture_result_of cid st c" by (rule res)
  have mr: "m = node_put (?D @ [lit ''manifest.json'']) (File PRIVATE_FILE (json_file ?M)) root"
    and pm: "parent_ok root (?D @ [lit ''manifest.json''])"
    using create_file_result m unfolding write_json_def by blast+
  obtain d where d: "node_get m ?D = Some d" "is_dir d"
    using node_put_is_dir [OF _ D, of "?D @ [lit ''manifest.json'']"] unfolding mr by auto
  have pf: "parent_ok m (final_dir cid)" unfolding mr
    by (rule parent_ok_put [OF _ p]) (simp add: partial_dir_def final_dir_def)
  have np: "\<not> prefix ?D (final_dir cid)" "\<not> prefix (final_dir cid) ?D" by (simp_all add: partial_dir_def final_dir_def)
  have moved: "node_get r (final_dir cid @ q) = node_get m (?D @ q)" for q
    using rename_dir_get(1) [OF ren d(1) np pf] d(1) by (simp add: node_get_append)
  have other: "node_get m (?D @ [x]) = node_get root (?D @ [x])" if "x \<noteq> lit ''manifest.json''" for x
    unfolding mr using that by (intro node_put_get_other) auto
  show "node_get r ?D = None" using rename_dir_get(3) [OF ren d(1) np pf] by (simp add: partial_dir_def)
  show "holds_capture r (final_dir cid) st ?M"
    unfolding holds_capture_def using files moved [of "[]"] d node_put_get_same [OF pm]
    by (simp add: moved other mr [symmetric]) (simp add: mr)
qed

lemma stored_streams:
  assumes "\<exists>d. node_get root (partial_dir cid) = Some d \<and> is_dir d" "parent_ok root (final_dir cid)"
  shows "\<exists>d. node_get (store_streams cid st root) (partial_dir cid) = Some d \<and> is_dir d"
    and "parent_ok (store_streams cid st root) (final_dir cid)"
    and "node_get (store_streams cid st root) (partial_dir cid @ [lit ''stdout.raw'']) =
      Some (File PRIVATE_FILE (sw_content (cs_stdout st)))"
    and "node_get (store_streams cid st root) (partial_dir cid @ [lit ''stderr.raw'']) =
      Some (File PRIVATE_FILE (sw_content (cs_stderr st)))"
    and "node_get (store_streams cid st root) (partial_dir cid @ [lit ''events.ndjson'']) =
      Some (File PRIVATE_FILE (utf8_encode (event_content st)))"
proof -
  let ?D = "partial_dir cid"
  let ?so = "(?D @ [lit ''stdout.raw''], File PRIVATE_FILE (sw_content (cs_stdout st)))"
  let ?se = "(?D @ [lit ''stderr.raw''], File PRIVATE_FILE (sw_content (cs_stderr st)))"
  let ?ev = "(?D @ [lit ''events.ndjson''], File PRIVATE_FILE (utf8_encode (event_content st)))"
  have par: "parent_ok root (?D @ [f])" for f using assms(1) parent_okI by blast
  show "\<exists>d. node_get (store_streams cid st root) ?D = Some d \<and> is_dir d"
    unfolding store_streams_def by (simp, intro node_put_is_dir assms(1)) auto
  show "parent_ok (store_streams cid st root) (final_dir cid)"
    unfolding store_streams_def
    by (rule tree.parent_fold [OF _ assms(2)]) (auto simp: partial_dir_def final_dir_def)
  show "node_get (store_streams cid st root) (?D @ [lit ''stdout.raw'']) =
      Some (File PRIVATE_FILE (sw_content (cs_stdout st)))"
    using tree.get_written [OF par, of "[]" "lit ''stdout.raw''" "[?se, ?ev]"] by (simp add: store_streams_def)
  show "node_get (store_streams cid st root) (?D @ [lit ''stderr.raw'']) =
      Some (File PRIVATE_FILE (sw_content (cs_stderr st)))"
    using tree.get_written [OF par, of "[?so]" "lit ''stderr.raw''" "[?ev]"] by (simp add: store_streams_def)
  show "node_get (store_streams cid st root) (?D @ [lit ''events.ndjson'']) =
      Some (File PRIVATE_FILE (utf8_encode (event_content st)))"
    using tree.get_written [OF par, of "[?so, ?se]" "lit ''events.ndjson''" "[]"] by (simp add: store_streams_def)
qed

lemma capture_command_spool:
  assumes "capture_command argv max_bytes required env root = (root', Inr res)"
  obtains r st where "root' = Some r" "0 \<le> max_bytes" "st = drain_all max_bytes required (env_reads env)"
    "drain_inv max_bytes (env_reads env) st" "res = capture_result_of (env_capture_id env) st (command_of env)"
    "node_get r (partial_dir (env_capture_id env)) = None"
    "holds_capture r (final_dir (env_capture_id env)) st
       (manifest_json (env_capture_id env) st (command_of env) (env_finished_ns env))"
proof -
  define st where "st = drain_all max_bytes required (env_reads env)"
  from assms obtain r0 r1 r where r: "0 \<le> max_bytes" "run_steps (prepare_steps (env_capture_id env)) r0 = (r1, Inr ())"
    "is_dir r0" "root' = Some r"
    "finalize (env_capture_id env) st (command_of env) env (store_streams (env_capture_id env) st r1) = (r, Inr res)"
    unfolding st_def by (rule capture_command_finalized)
  note p = prepared(1,2) [OF r(2,3)]
  from finalize_result [OF r(5) stored_streams [OF p]] that [OF r(4,1) st_def] drain_all_inv [OF r(1)]
  show ?thesis by (simp add: st_def)
qed

section \<open>Properties of captures\<close>

lemma complete_streams:
  assumes "drain_inv max_bytes rs st" "status_of st = COMPLETE"
  shows "sw_content (writer_of s st) = stream_bytes s rs"
proof -
  have n: "\<not> capture_failed st" "\<not> cs_truncated st" using assms(2) by (auto simp: status_of_def split: if_splits)
  then show ?thesis using assms(1) not_failed_writable [OF assms(1) n(1), of s] by (simp add: drain_inv_def stream_inv_def)
qed

text \<open>
  C7.  A capture reported \<open>COMPLETE\<close> is complete: the two raw files of the finalized directory hold
  exactly the bytes the command wrote to the two pipes, whatever the chunking and interleaving,
  and the byte counts and digests of the result are theirs; the partial directory is gone and
  every file is private.
\<close>

theorem capture_complete:
  assumes "capture_command argv max_bytes required env root = (Some r, Inr res)" "res_capture_status res = COMPLETE"
  shows "node_get r (final_dir (env_capture_id env) @ [lit ''stdout.raw'']) =
      Some (File PRIVATE_FILE (stream_bytes Stdout (env_reads env))) \<and>
    node_get r (final_dir (env_capture_id env) @ [lit ''stderr.raw'']) =
      Some (File PRIVATE_FILE (stream_bytes Stderr (env_reads env))) \<and>
    res_stdout_bytes res = int (length (stream_bytes Stdout (env_reads env))) \<and>
    res_stderr_bytes res = int (length (stream_bytes Stderr (env_reads env))) \<and>
    res_stdout_sha256 res = sha256_hex (stream_bytes Stdout (env_reads env)) \<and>
    res_stderr_sha256 res = sha256_hex (stream_bytes Stderr (env_reads env)) \<and>
    node_get r (partial_dir (env_capture_id env)) = None"
proof -
  from assms(1) obtain r' st where s: "Some r = Some r'" "drain_inv max_bytes (env_reads env) st"
    "res = capture_result_of (env_capture_id env) st (command_of env)"
    "node_get r' (partial_dir (env_capture_id env)) = None"
    "holds_capture r' (final_dir (env_capture_id env)) st
       (manifest_json (env_capture_id env) st (command_of env) (env_finished_ns env))"
    by (rule capture_command_spool)
  have st: "status_of st = COMPLETE" using assms(2) s(3) by (simp add: capture_result_of_def)
  then have n: "\<not> capture_failed st" by (auto simp: status_of_def split: if_splits)
  have c: "sw_content (writer_of t st) = stream_bytes t (env_reads env)"
    "sw_hashed (writer_of t st) = stream_bytes t (env_reads env)"
    "retained_bytes (writer_of t st) = int (length (stream_bytes t (env_reads env)))" for t
    using complete_streams [OF s(2) st, of t] not_failed_content [OF s(2) n, of t] s(2)
    by (auto simp: drain_inv_def stream_inv_def)
  show ?thesis using s c [of Stdout] c [of Stderr]
    by (simp add: holds_capture_def both_streams capture_result_of_def writer_sha256_def)
qed

definition example_env :: capture_env where
  "example_env = \<lparr>env_capture_id = lit ''c1'', env_spawn_ok = True,
     env_reads = [(Stdout, ''ab'', 5, Written), (Stderr, ''e'', 6, Written), (Stdout, ''cd'', 7, Written)],
     env_wait = Exited 3, env_close_ok = True, env_manifest_ok = True, env_finished_ns = 9\<rparr>"

definition example_argv :: argv_arg where
  "example_argv = ArgvSequence [StrArgument (lit ''ls'')]"

text \<open>On a spool that does not exist yet nothing can go wrong but what the run itself reports.\<close>

lemma fresh_prepared:
  "run_steps (prepare_steps cid) (Dir PRIVATE_DIR []) =
     (Dir PRIVATE_DIR [(lit ''partial'', Dir PRIVATE_DIR [(cid @ PARTIAL_SUFFIX, Dir PRIVATE_DIR
        [(lit ''stdout.raw'', File PRIVATE_FILE []), (lit ''stderr.raw'', File PRIVATE_FILE []),
         (lit ''events.ndjson'', File PRIVATE_FILE [])])]), (lit ''captures'', Dir PRIVATE_DIR [])], Inr ())"
  by (simp add: prepare_steps_def private_dir_def parent_ok_def is_dir_def make_partial_def create_file_def
      partial_dir_def)

lemma fresh_capture:
  assumes "env_spawn_ok env" "env_close_ok env" "env_manifest_ok env" "env_wait env \<noteq> WaitCancelled"
    and "validate_argv argv = Inr command" "0 \<le> max_bytes"
  shows "\<exists>r. capture_command argv max_bytes required env None = (Some r, Inr (capture_result_of (env_capture_id env)
    (drain_all max_bytes required (env_reads env)) (command_of env)))"
proof -
  define cid where "cid = env_capture_id env"
  define st where "st = drain_all max_bytes required (env_reads env)"
  define r1 where "r1 = store_streams cid st (Dir PRIVATE_DIR [(lit ''partial'', Dir PRIVATE_DIR [(cid @ PARTIAL_SUFFIX, Dir PRIVATE_DIR
        [(lit ''stdout.raw'', File PRIVATE_FILE []), (lit ''stderr.raw'', File PRIVATE_FILE []),
         (lit ''events.ndjson'', File PRIVATE_FILE [])])]), (lit ''captures'', Dir PRIVATE_DIR [])])"
  have fin: "\<exists>r. finalize cid st c env r1 = (r, Inr (capture_result_of cid st c))" for c
    using assms(3) unfolding r1_def
    by (simp add: finalize_def store_streams_def write_json_def create_file_def rename_dir_def parent_ok_def
        is_dir_def partial_dir_def final_dir_def)
  have "capture_process max_bytes required env (fst (run_steps (prepare_steps cid) (Dir PRIVATE_DIR []))) =
      finalize cid st (command_of env) env r1"
    using assms(2,4) unfolding fresh_prepared
    by (simp add: capture_process_def command_of_def cid_def st_def r1_def Let_def split: wait_outcome.splits)
  with fin [of "command_of env"] assms(1,5,6) fresh_prepared [of cid] show ?thesis
    unfolding cid_def st_def by (auto simp: capture_command_def ensure_root_def)
qed

theorem capture_complete_witness:
  "\<exists>r res. capture_command example_argv 100 False example_env None = (Some r, Inr res) \<and>
     node_get r (final_dir (lit ''c1'') @ [lit ''stdout.raw'']) = Some (File PRIVATE_FILE ''abcd'')"
proof -
  have v: "validate_argv example_argv = Inr [lit ''ls'']" by code_simp
  obtain r where r: "capture_command example_argv 100 False example_env None =
      (Some r, Inr (capture_result_of (lit ''c1'') (drain_all 100 False (env_reads example_env)) (command_of example_env)))"
    using fresh_capture [of example_env example_argv _ 100 False, OF _ _ _ _ v] by (auto simp: example_env_def)
  have "status_of (drain_all 100 False (env_reads example_env)) = COMPLETE" by code_simp
  with capture_complete [OF r] r show ?thesis
    by (simp add: capture_result_of_def example_env_def stream_bytes_def)
qed

text \<open>
  C8.  The quota bounds what is retained and truncation is reported exactly: unless storage failed,
  the two raw files together have at most \<open>max_bytes\<close> bytes, each is a prefix of what its pipe
  delivered, and the status is \<open>TRUNCATED\<close> exactly when the command produced more than the quota,
  in which case the quota is used up.
\<close>

theorem capture_quota:
  assumes "0 \<le> max_bytes" "st = drain_all max_bytes required rs" "status_of st \<noteq> CAPTURE_FAILED"
  shows "retained_bytes (cs_stdout st) + retained_bytes (cs_stderr st) \<le> max_bytes \<and>
    prefix (sw_content (cs_stdout st)) (stream_bytes Stdout rs) \<and>
    prefix (sw_content (cs_stderr st)) (stream_bytes Stderr rs) \<and>
    retained_bytes (cs_stdout st) = int (length (sw_content (cs_stdout st))) \<and>
    retained_bytes (cs_stderr st) = int (length (sw_content (cs_stderr st))) \<and>
    (status_of st = TRUNCATED \<longleftrightarrow> lost_bytes max_bytes rs) \<and>
    (status_of st = TRUNCATED \<longrightarrow> retained_bytes (cs_stdout st) + retained_bytes (cs_stderr st) = max_bytes)"
proof -
  have inv: "drain_inv max_bytes rs st" unfolding assms(2) using assms(1) by (rule drain_all_inv)
  have nf: "\<not> capture_failed st" using assms(3) by (auto simp: status_of_def)
  have tot: "total_inv max_bytes rs st" using inv by (simp add: drain_inv_def)
  have s: "sw_content (writer_of t st) = sw_hashed (writer_of t st)"
    "prefix (sw_hashed (writer_of t st)) (stream_bytes t rs)"
    "retained_bytes (writer_of t st) = int (length (sw_hashed (writer_of t st)))" for t
    using not_failed_content [OF inv nf] inv by (auto simp: drain_inv_def stream_inv_def)
  have "\<not> lost_bytes max_bytes rs" if "\<not> cs_truncated st"
  proof -
    have "retained_bytes (writer_of t st) = int (length (stream_bytes t rs))" for t
      using that inv not_failed_writable [OF inv nf, of t] by (simp add: drain_inv_def stream_inv_def)
    from this [of Stdout] this [of Stderr] tot nf show ?thesis
      by (simp add: lost_bytes_def total_inv_def both_streams)
  qed
  then show ?thesis using s [of Stdout] s [of Stderr] tot nf
    by (auto simp: total_inv_def both_streams status_of_def)
qed

theorem capture_quota_witness:
  "let st = drain_all 3 False [(Stdout, ''abcd'', 1, Written), (Stderr, ''x'', 2, Written)] in
   status_of st = TRUNCATED \<and> retained_bytes (cs_stdout st) + retained_bytes (cs_stderr st) = 3"
proof -
  let ?st = "drain_all 3 False [(Stdout, ''abcd'', 1, Written), (Stderr, ''x'', 2, Written)]"
  have "status_of ?st = TRUNCATED" by code_simp
  then show ?thesis using capture_quota [OF _ refl, of 3 False "[(Stdout, ''abcd'', 1, Written), (Stderr, ''x'', 2, Written)]"]
    by simp
qed

text \<open>
  Once writing the event index fails the quota no longer holds: the bytes of the failed event
  are on disk and in the digest but not in \<open>captured\<close>, so the other stream may retain the whole
  quota again.
\<close>

theorem capture_quota_event_failure:
  "let st = drain_all 4 False [(Stdout, ''abcd'', 1, EventError 0), (Stderr, ''wxyz'', 2, Written)] in
   retained_bytes (cs_stdout st) + retained_bytes (cs_stderr st) = 8 \<and> captured st = 4 \<and>
   status_of st = CAPTURE_FAILED"
  by code_simp

text \<open>
  C9.  The event index describes the raw files: events are numbered from zero without gaps, within
  each stream their ranges follow each other without gap or overlap, and unless storage failed they
  cover exactly the retained bytes and the index file consists of exactly these events.
\<close>

theorem capture_event_index:
  assumes "0 \<le> max_bytes" "st = drain_all max_bytes required rs"
  shows "tiles (event_log st) \<and>
    (status_of st \<noteq> CAPTURE_FAILED \<longrightarrow>
       stream_extent Stdout (event_log st) = retained_bytes (cs_stdout st) \<and>
       stream_extent Stderr (event_log st) = retained_bytes (cs_stderr st) \<and>
       event_content st = concat (map event_line (event_log st)) \<and>
       event_hash st = sha256_hex (utf8_encode (event_content st)))"
proof -
  have inv: "drain_inv max_bytes rs st" unfolding assms(2) using assms(1) by (rule drain_all_inv)
  have "stream_extent t (event_log st) = retained_bytes (writer_of t st)" if "\<not> capture_failed st" for t
    using inv not_failed_writable [OF inv that, of t] by (simp add: drain_inv_def stream_inv_def)
  with inv show ?thesis by (auto simp: drain_inv_def total_inv_def both_streams status_of_def event_hash_def)
qed

theorem capture_event_index_witness:
  "let st = drain_all 100 False (env_reads example_env) in
   tiles (event_log st) \<and> stream_extent Stdout (event_log st) = 4 \<and> status_of st = COMPLETE"
proof -
  let ?st = "drain_all 100 False (env_reads example_env)"
  have "status_of ?st = COMPLETE" "retained_bytes (cs_stdout ?st) = 4" by code_simp+
  then show ?thesis using capture_event_index [OF _ refl, of 100 False "env_reads example_env"] by (simp add: Let_def)
qed

text \<open>
  The command's outcome is reported without ambiguity: exactly one of exit code and signal is
  set, a non-negative return code is the exit code and a negative one the signal, a timeout is
  reported with the \<open>SIGKILL\<close> that was sent, and a cancelled capture never yields a result: it
  raises \<open>CancelledError\<close> or a storage error, and no finalized directory appears.
\<close>

theorem capture_command_outcome:
  assumes "capture_command argv max_bytes required env root = (root', Inr res)"
  shows "env_wait env \<noteq> WaitCancelled \<and> cr_started (res_command res) \<and> \<not> cr_cancelled (res_command res) \<and>
    (cr_exit_code (res_command res) = None \<longleftrightarrow> cr_signal (res_command res) \<noteq> None) \<and>
    (case env_wait env of
       Exited rc \<Rightarrow> \<not> cr_timed_out (res_command res) \<and> cr_signals_sent (res_command res) = [] \<and>
         (if 0 \<le> rc then cr_exit_code (res_command res) = Some rc else cr_signal (res_command res) = Some (- rc))
     | WaitTimeout rc \<Rightarrow> cr_timed_out (res_command res) \<and> cr_signals_sent (res_command res) = [SIGKILL] \<and>
         (if 0 \<le> rc then cr_exit_code (res_command res) = Some rc else cr_signal (res_command res) = Some (- rc))
     | WaitCancelled \<Rightarrow> False)"
proof -
  have nc: "env_wait env \<noteq> WaitCancelled"
    using assms by (auto simp: capture_command_def capture_process_def Let_def bind_r_Inr_iff
        split: sum.splits if_splits prod.splits)
  from assms obtain st where "res = capture_result_of (env_capture_id env) st (command_of env)"
    by (rule capture_command_spool)
  with nc show ?thesis
    by (cases "env_wait env") (auto simp: capture_result_of_def command_of_def command_outcome_def)
qed

theorem capture_command_outcome_witness:
  "\<exists>r res. capture_command example_argv 100 False example_env None = (Some r, Inr res) \<and>
     cr_exit_code (res_command res) = Some 3"
proof -
  have v: "validate_argv example_argv = Inr [lit ''ls'']" by code_simp
  obtain r res where r: "capture_command example_argv 100 False example_env None = (Some r, Inr res)"
    using fresh_capture [of example_env example_argv _ 100 False, OF _ _ _ _ v] by (auto simp: example_env_def)
  from capture_command_outcome [OF r] r show ?thesis by (simp add: example_env_def)
qed

text \<open>
  The kill of a required capture leaves no trace in the result: when storage fails with
  \<open>required_capture\<close> the runner sends \<open>SIGKILL\<close> to the process group, yet \<open>signals_sent\<close> is empty and
  the manifest names the termination \<open>COMPLETED\<close>.
\<close>

theorem capture_required_kill_unrecorded:
  "let env = example_env\<lparr>env_reads := [(Stdout, ''ab'', 5, StreamError 0)], env_wait := Exited (- 9)\<rparr> in
   group_killed (drain_all 100 True (env_reads env)) \<and>
   (\<exists>r res. capture_command example_argv 100 True env None = (Some r, Inr res) \<and>
      res_capture_status res = CAPTURE_FAILED \<and> cr_signal (res_command res) = Some 9 \<and>
      cr_signals_sent (res_command res) = [])"
proof -
  define env where "env = example_env\<lparr>env_reads := [(Stdout, ''ab'', 5, StreamError 0)], env_wait := Exited (- 9)\<rparr>"
  have k: "group_killed (drain_all 100 True (env_reads env)) \<and>
      status_of (drain_all 100 True (env_reads env)) = CAPTURE_FAILED" unfolding env_def by code_simp
  have v: "validate_argv example_argv = Inr [lit ''ls'']" by code_simp
  obtain r where "capture_command example_argv 100 True env None = (Some r, Inr (capture_result_of (env_capture_id env)
      (drain_all 100 True (env_reads env)) (command_of env)))"
    using fresh_capture [of env example_argv _ 100 True, OF _ _ _ _ v] by (auto simp: env_def example_env_def)
  then show ?thesis using k
    by (simp add: env_def [symmetric] capture_result_of_def) (simp add: env_def command_of_def command_outcome_def)
qed

section \<open>Recovery\<close>

definition marked :: "node \<Rightarrow> pystr \<Rightarrow> bool" where
  "marked root n \<longleftrightarrow> path_exists root [lit ''partial'', n, lit ''manifest.json''] \<and>
     path_exists root [lit ''partial'', n, lit ''recovery.json'']"

text \<open>What a recovery step may change: it only adds files, below the one partial directory.\<close>

lemma write_if_absent_result:
  assumes "write_if_absent p v root = (root', Inr u)"
  shows "path_exists root' p" "path_exists root q \<Longrightarrow> path_exists root' q"
    and "\<not> prefix p q \<Longrightarrow> \<not> prefix q p \<Longrightarrow> node_get root' q = node_get root q"
    and "path_exists root p \<Longrightarrow> root' = root"
    and "\<not> prefix p q \<Longrightarrow> \<exists>d. node_get root q = Some d \<and> is_dir d \<Longrightarrow> \<exists>d. node_get root' q = Some d \<and> is_dir d"
    and "root' = root \<or> root' = node_put p (File PRIVATE_FILE (json_file v)) root \<and> node_get root p = None"
proof -
  have c: "root' = root \<and> path_exists root p \<or>
      root' = node_put p (File PRIVATE_FILE (json_file v)) root \<and> parent_ok root p \<and> node_get root p = None \<and> \<not> path_exists root p"
    using assms create_file_result by (auto simp: write_if_absent_def write_json_def split: if_splits sum.splits)
  then show e: "path_exists root' p" using node_put_get_same [of root p] by (auto simp: path_exists_def)
  show "\<not> prefix p q \<Longrightarrow> \<not> prefix q p \<Longrightarrow> node_get root' q = node_get root q"
    using c by (auto simp: node_put_get_other)
  show "path_exists root p \<Longrightarrow> root' = root" using c by auto
  show d: "\<not> prefix p q \<Longrightarrow> \<exists>d. node_get root q = Some d \<and> is_dir d \<Longrightarrow> \<exists>d. node_get root' q = Some d \<and> is_dir d" for q
    using c node_put_is_dir [of p q root] by auto
  show "root' = root \<or> root' = node_put p (File PRIVATE_FILE (json_file v)) root \<and> node_get root p = None"
    using c by auto
  show "path_exists root' q" if q: "path_exists root q"
  proof (cases "prefix p q \<or> prefix q p")
    case False
    then show ?thesis using c q by (auto simp: path_exists_def node_put_get_other)
  next
    case True
    from c show ?thesis
    proof
      assume c: "root' = node_put p (File PRIVATE_FILE (json_file v)) root \<and> parent_ok root p \<and> node_get root p = None \<and> \<not> path_exists root p"
      have "\<not> prefix p q"
      proof
        assume "prefix p q"
        then obtain u where "q = p @ u" by (auto simp: prefix_def)
        then show False using c q by (simp add: path_exists_def node_get_append)
      qed
      with True obtain u where u: "p = q @ u" "u \<noteq> []" by (auto simp: prefix_def)
      have "\<exists>d. node_get root q = Some d \<and> is_dir d"
        using c u dir_above by (auto simp: parent_ok_def butlast_append node_get_append split: option.splits)
      then have "\<exists>d. node_get root' q = Some d \<and> is_dir d" using d \<open>\<not> prefix p q\<close> by blast
      then show ?thesis by (auto simp: path_exists_def is_dir_def)
    qed (use q in simp)
  qed
qed

definition partial_is_dir :: "node \<Rightarrow> pystr \<Rightarrow> bool" where
  "partial_is_dir root n \<longleftrightarrow> (\<exists>d. node_get root [lit ''partial'', n] = Some d \<and> is_dir d)"

definition recovery_frame :: "node \<Rightarrow> node \<Rightarrow> bool" where
  "recovery_frame root root' \<longleftrightarrow>
     children root' (lit ''partial'') = children root (lit ''partial'') \<and>
     (\<forall>m. marked root m \<longrightarrow> marked root' m) \<and>
     (\<forall>m. partial_is_dir root m \<longrightarrow> partial_is_dir root' m) \<and>
     (\<forall>m. \<not> partial_is_dir root m \<longrightarrow> node_get root' [lit ''partial'', m] = node_get root [lit ''partial'', m]) \<and>
     (\<forall>q. q \<noteq> [] \<longrightarrow> hd q \<noteq> lit ''partial'' \<longrightarrow> node_get root' q = node_get root q)"

lemma recovery_frame_refl: "recovery_frame root root"
  by (simp add: recovery_frame_def)

lemma recovery_frame_dir: "recovery_frame root root' \<Longrightarrow> partial_is_dir root' m \<longleftrightarrow> partial_is_dir root m"
  unfolding recovery_frame_def partial_is_dir_def by metis

lemma recovery_frame_trans:
  assumes "recovery_frame a b" "recovery_frame b c" shows "recovery_frame a c"
  using assms recovery_frame_dir [OF assms(1)] unfolding recovery_frame_def by (intro conjI; elim conjE) simp_all

lemma write_if_absent_frame:
  assumes "write_if_absent [lit ''partial'', n, f] v root = (root', Inr u)" and d: "partial_is_dir root n"
  shows "recovery_frame root root'"
proof -
  note w = write_if_absent_result [OF assms(1)]
  have "children root' (lit ''partial'') = children root (lit ''partial'')"
    using w(6) children_put [OF d [unfolded partial_is_dir_def]] by auto
  moreover have "marked root m \<Longrightarrow> marked root' m" for m using w(2) by (simp add: marked_def)
  moreover have "partial_is_dir root m \<Longrightarrow> partial_is_dir root' m" for m
    unfolding partial_is_dir_def by (rule w(5)) simp_all
  moreover have "\<not> partial_is_dir root m \<Longrightarrow> node_get root' [lit ''partial'', m] = node_get root [lit ''partial'', m]" for m
    using d by (intro w(3)) auto
  moreover have "q \<noteq> [] \<Longrightarrow> hd q \<noteq> lit ''partial'' \<Longrightarrow> node_get root' q = node_get root q" for q
    by (rule w(3)) (cases q; auto)+
  ultimately show ?thesis by (auto simp: recovery_frame_def)
qed

lemma write_incomplete_result:
  assumes "write_incomplete_manifest [lit ''partial'', n] i reason sigs cc t root = (root', Inr u)"
    and d: "partial_is_dir root n"
  shows "marked root' n" "recovery_frame root root'"
proof -
  obtain r1 where a: "write_if_absent [lit ''partial'', n, lit ''manifest.json''] (incomplete_manifest i reason sigs cc t) root = (r1, Inr ())"
    and b: "write_if_absent [lit ''partial'', n, lit ''recovery.json''] (recovery_marker reason) r1 = (root', Inr u)"
    using assms(1) by (auto simp: write_incomplete_manifest_def split: prod.splits sum.splits)
  have fa: "recovery_frame root r1" using a d by (rule write_if_absent_frame)
  then have "partial_is_dir r1 n" using d by (simp add: recovery_frame_dir)
  with b have "recovery_frame r1 root'" by (rule write_if_absent_frame)
  with fa show "recovery_frame root root'" by (rule recovery_frame_trans)
  show "marked root' n" using write_if_absent_result(1) [OF b] write_if_absent_result(1) [OF a]
      write_if_absent_result(2) [OF b] by (simp add: marked_def)
qed

lemma write_incomplete_again:
  "marked root n \<Longrightarrow> write_incomplete_manifest [lit ''partial'', n] i reason sigs cc t root = (root, Inr ())"
  by (simp add: write_incomplete_manifest_def write_if_absent_def marked_def)

definition recovered :: "pystr \<Rightarrow> recovery_record" where
  "recovered n = \<lparr>rr_capture_id = stem n, rr_path = [lit ''partial'', n]\<rparr>"

lemma recover_each_dir:
  assumes "partial_is_dir root n"
  shows "recover_each (n # ns) root =
    (let (root, r) = write_incomplete_manifest [lit ''partial'', n] (stem n) (lit ''WRAPPER_INTERRUPTED_OR_CRASHED'') [] None None root
     in case r of Inl e \<Rightarrow> (root, Inl e)
        | Inr _ \<Rightarrow> let (root, rs) = recover_each ns root in (root, bind_r rs (\<lambda>rs. Inr (recovered n # rs))))"
  using assms by (auto simp: partial_is_dir_def is_dir_def recovered_def Let_def simp del: lit_simps)

lemma recover_each_skip: "\<not> partial_is_dir root n \<Longrightarrow> recover_each (n # ns) root = recover_each ns root"
  by (auto simp: partial_is_dir_def is_dir_def Let_def simp del: lit_simps split: option.splits node.splits)

declare recover_each.simps(2) [simp del]

lemma recover_each_result:
  assumes "recover_each ns root = (root', Inr rs)"
  shows "recovery_frame root root' \<and> rs = map recovered (filter (partial_is_dir root) ns) \<and>
    (\<forall>n \<in> set ns. partial_is_dir root n \<longrightarrow> marked root' n)"
  using assms
proof (induction ns arbitrary: root rs)
  case Nil
  then show ?case by (simp add: recovery_frame_refl)
next
  case (Cons n ns)
  show ?case
  proof (cases "partial_is_dir root n")
    case False
    with Cons show ?thesis by (simp add: recover_each_skip)
  next
    case True
    from Cons.prems obtain r1 rs' where
      w: "write_incomplete_manifest [lit ''partial'', n] (stem n) (lit ''WRAPPER_INTERRUPTED_OR_CRASHED'') [] None None root = (r1, Inr ())"
      and e: "recover_each ns r1 = (root', Inr rs')" and rs: "rs = recovered n # rs'"
      by (auto simp: recover_each_dir [OF True] bind_r_Inr_iff split: prod.splits sum.splits)
    note f = write_incomplete_result [OF w True]
    note ih = Cons.IH [OF e]
    have "partial_is_dir r1 = partial_is_dir root" using f(2) recovery_frame_dir by blast
    with ih f rs True recovery_frame_trans [OF f(2)] show ?thesis by (auto simp: recovery_frame_def)
  qed
qed

lemma recover_each_again:
  "(\<forall>n \<in> set ns. partial_is_dir root n \<longrightarrow> marked root n) \<Longrightarrow>
     recover_each ns root = (root, Inr (map recovered (filter (partial_is_dir root) ns)))"
proof (induction ns)
  case (Cons n ns)
  then show ?case
    by (cases "partial_is_dir root n")
       (simp_all add: recover_each_skip recover_each_dir write_incomplete_again del: lit_simps)
qed simp

lemma private_dir_idem:
  assumes "private_dir [p] root = Inr root'" shows "private_dir [p] root' = Inr root' \<and> (\<exists>cs. node_get root' [p] = Some (Dir PRIVATE_DIR cs))"
proof -
  obtain m ks where root: "root = Dir m ks"
    using assms by (cases root) (auto simp: private_dir_def parent_ok_def is_dir_def)
  obtain cs where r: "root' = node_put [p] (Dir PRIVATE_DIR cs) root"
    using assms by (auto simp: private_dir_def split: option.splits node.splits if_splits)
  have "node_get root' [p] = Some (Dir PRIVATE_DIR cs)" "node_put [p] (Dir PRIVATE_DIR cs) root' = root'"
    unfolding r root by (simp_all add: update_conv' split: option.splits)
  then show ?thesis by (simp add: private_dir_def)
qed

lemma update_same: "map_of al k = Some v \<Longrightarrow> AList.update k v al = al"
  by (induction al) (auto split: if_splits)

lemma private_dir_same: "node_get root [p] = Some (Dir PRIVATE_DIR cs) \<Longrightarrow> private_dir [p] root = Inr root"
  by (cases root) (auto simp: private_dir_def update_same split: option.splits)

lemma children_Some:
  "children root p = Some (m, names) \<longleftrightarrow> (\<exists>cs. node_get root [p] = Some (Dir m cs) \<and> names = map fst cs)"
  by (auto simp: children_def split: option.splits node.splits)

lemma recover_partials_eq:
  assumes "children root (lit ''partial'') = Some (PRIVATE_DIR, names)"
  shows "recover_partials root = recover_each (sort (filter (suffix PARTIAL_SUFFIX) names)) root"
proof -
  obtain cs where cs: "node_get root [lit ''partial''] = Some (Dir PRIVATE_DIR cs)" "names = map fst cs"
    using assms by (auto simp: children_Some simp del: lit_simps)
  then show ?thesis using private_dir_same [OF cs(1)]
    by (simp add: recover_partials_def path_exists_def partial_names_def cs(2) del: lit_simps)
qed

text \<open>
  Nothing disappears: every entry of the tree is still there, a file or link unchanged and a
  directory as a directory.
\<close>

definition kept_entry :: "node \<Rightarrow> node \<Rightarrow> bool" where
  "kept_entry x y \<longleftrightarrow> (if is_dir x then is_dir y else y = x)"

lemma kept_entry_simps [simp]: "kept_entry x x" "kept_entry (Dir m cs) (Dir m' cs')" "kept_entry (File m c) y \<longleftrightarrow> y = File m c"
  by (auto simp: kept_entry_def is_dir_def)

definition entries_kept :: "node \<Rightarrow> node \<Rightarrow> bool" where
  "entries_kept root root' \<longleftrightarrow>
     (\<forall>q x. node_get root q = Some x \<longrightarrow> (\<exists>y. node_get root' q = Some y \<and> kept_entry x y))"

lemma entries_kept_refl: "entries_kept root root"
  by (simp add: entries_kept_def)

lemma entries_kept_trans: "entries_kept a b \<Longrightarrow> entries_kept b c \<Longrightarrow> entries_kept a c"
  unfolding entries_kept_def kept_entry_def by (metis (full_types))

lemma entries_kept_file: "entries_kept a b \<Longrightarrow> node_get a q = Some (File m c) \<Longrightarrow> node_get b q = Some (File m c)"
  by (fastforce simp: entries_kept_def)

lemma node_put_new_kept:
  "node_get root p = None \<Longrightarrow> node_get root q = Some x \<Longrightarrow>
     \<exists>y. node_get (node_put p new root) q = Some y \<and> kept_entry x y"
proof (induction p new root arbitrary: q rule: node_put.induct)
  case (2 p ps new m cs)
  then show ?case by (cases q) (auto simp: update_conv' split: option.splits if_splits)
qed auto

lemma write_if_absent_kept: "write_if_absent p v root = (root', Inr u) \<Longrightarrow> entries_kept root root'"
  using write_if_absent_result(6) [of p v root root' u] node_put_new_kept [of root p]
  by (auto simp: entries_kept_def)

lemma write_if_absent_new:
  assumes "write_if_absent p v root = (root', Inr u)" "node_get root p = None"
  shows "node_get root' p = Some (File PRIVATE_FILE (json_file v))"
  using assms
  by (auto simp: write_if_absent_def path_exists_def write_json_def node_put_get_same
      dest!: create_file_result split: if_splits sum.splits)

text \<open>What recovery writes into a partial directory that has no such file yet.\<close>

definition INTERRUPTED :: pystr where
  "INTERRUPTED = lit ''WRAPPER_INTERRUPTED_OR_CRASHED''"

definition recovery_file :: "pystr \<Rightarrow> pystr \<Rightarrow> json" where
  "recovery_file n f = (if f = lit ''manifest.json'' then incomplete_manifest (stem n) INTERRUPTED [] None None
                        else recovery_marker INTERRUPTED)"

definition incomplete_written :: "node \<Rightarrow> node \<Rightarrow> pystr \<Rightarrow> bool" where
  "incomplete_written root root' n \<longleftrightarrow>
     (\<forall>f \<in> {lit ''manifest.json'', lit ''recovery.json''}. node_get root [lit ''partial'', n, f] = None \<longrightarrow>
        node_get root' [lit ''partial'', n, f] = Some (File PRIVATE_FILE (json_file (recovery_file n f))))"

lemma write_incomplete_written:
  assumes "write_incomplete_manifest [lit ''partial'', n] (stem n) INTERRUPTED [] None None root = (root', Inr u)"
  shows "entries_kept root root'" "incomplete_written root root' n"
    and "m \<noteq> n \<Longrightarrow> node_get root' [lit ''partial'', m, f] = node_get root [lit ''partial'', m, f]"
proof -
  have names: "lit ''manifest.json'' \<noteq> lit ''recovery.json''" by code_simp
  obtain r1 where a: "write_if_absent [lit ''partial'', n, lit ''manifest.json''] (recovery_file n (lit ''manifest.json'')) root = (r1, Inr ())"
    and b: "write_if_absent [lit ''partial'', n, lit ''recovery.json''] (recovery_file n (lit ''recovery.json'')) r1 = (root', Inr u)"
    using assms names by (auto simp: write_incomplete_manifest_def recovery_file_def simp del: lit_simps split: prod.splits sum.splits)
  note k = write_if_absent_kept [OF a] write_if_absent_kept [OF b]
  then show "entries_kept root root'" by (rule entries_kept_trans)
  have "node_get r1 [lit ''partial'', n, lit ''recovery.json''] = node_get root [lit ''partial'', n, lit ''recovery.json'']"
    using names by (intro write_if_absent_result(3) [OF a]) (simp_all del: lit_simps)
  then show "incomplete_written root root' n"
    using entries_kept_file [OF k(2)] write_if_absent_new [OF a] write_if_absent_new [OF b]
    by (simp add: incomplete_written_def del: lit_simps)
  show "node_get root' [lit ''partial'', m, f] = node_get root [lit ''partial'', m, f]" if "m \<noteq> n"
    using that write_if_absent_result(3) [OF b, of "[lit ''partial'', m, f]"]
      write_if_absent_result(3) [OF a, of "[lit ''partial'', m, f]"] by (simp del: lit_simps)
qed

lemma recover_each_written:
  assumes "recover_each ns root = (root', Inr rs)"
  shows "entries_kept root root' \<and> (\<forall>n \<in> set ns. partial_is_dir root n \<longrightarrow> incomplete_written root root' n)"
  using assms
proof (induction ns arbitrary: root rs)
  case Nil
  then show ?case by (simp add: entries_kept_refl)
next
  case (Cons n ns)
  show ?case
  proof (cases "partial_is_dir root n")
    case False
    with Cons show ?thesis by (auto simp: recover_each_skip)
  next
    case True
    from Cons.prems obtain r1 rs' where
      w: "write_incomplete_manifest [lit ''partial'', n] (stem n) INTERRUPTED [] None None root = (r1, Inr ())"
      and e: "recover_each ns r1 = (root', Inr rs')"
      by (auto simp: recover_each_dir [OF True] INTERRUPTED_def bind_r_Inr_iff simp del: lit_simps split: prod.splits sum.splits)
    note ww = write_incomplete_written [OF w]
    from Cons.IH [OF e] have kept: "entries_kept r1 root'"
      and rest: "\<And>m. m \<in> set ns \<Longrightarrow> partial_is_dir r1 m \<Longrightarrow> incomplete_written r1 root' m" by auto
    have "partial_is_dir r1 m \<longleftrightarrow> partial_is_dir root m" for m
      using write_incomplete_result(2) [OF w True] recovery_frame_dir by blast
    moreover have "incomplete_written root root' n"
      using ww(2) entries_kept_file [OF kept] by (simp add: incomplete_written_def del: lit_simps)
    moreover have "incomplete_written root root' m" if "incomplete_written r1 root' m" "m \<noteq> n" for m
      using that ww(3) by (simp add: incomplete_written_def del: lit_simps)
    ultimately show ?thesis using rest entries_kept_trans [OF ww(1) kept] by (metis set_ConsD)
  qed
qed

lemma private_dir_get:
  assumes "private_dir [p] root = Inr root'" "node_get root [p] = Some (Dir m cs)"
  shows "node_get root' [p] = Some (Dir PRIVATE_DIR cs)" "node_get root' (p # q # qs) = node_get root (p # q # qs)"
    and "q \<noteq> p \<Longrightarrow> node_get root' (q # qs) = node_get root (q # qs)"
  using assms by (cases root; auto simp: private_dir_def update_conv' split: option.splits)+

lemma private_dir_kept:
  assumes "private_dir [p] root = Inr root'" "node_get root [p] = Some (Dir m cs)"
  shows "entries_kept root root'"
  unfolding entries_kept_def
proof (intro allI impI)
  fix q x assume x: "node_get root q = Some x"
  consider "q = []" | "q = [p]" | a as where "q = p # a # as" | a as where "q = a # as" "a \<noteq> p"
    by (metis list.exhaust)
  then show "\<exists>y. node_get root' q = Some y \<and> kept_entry x y"
  proof cases
    case 1
    with x assms show ?thesis by (cases root) (auto simp: private_dir_def split: option.splits)
  next
    case 2
    with x assms private_dir_get(1) [OF assms] show ?thesis by auto
  qed (use x private_dir_get(2,3) [OF assms] in \<open>simp_all split: if_splits\<close>)
qed

text \<open>A capture directory that was never finalized: a directory of that name pattern below \<open>partial\<close>.\<close>

definition abandoned :: "node \<Rightarrow> pystr \<Rightarrow> bool" where
  "abandoned root n \<longleftrightarrow> suffix (lit ''.partial'') n \<and> (\<exists>m cs. node_get root [lit ''partial'', n] = Some (Dir m cs))"

lemma recover_partials_cases:
  assumes "recover_partials root = (root', Inr rs)"
  obtains (none) "root' = root" "rs = []" "\<And>n. \<not> abandoned root n"
  | (some) m cs r1 where "node_get root [lit ''partial''] = Some (Dir m cs)" "private_dir [lit ''partial''] root = Inr r1"
      "recover_each (sort (filter (suffix PARTIAL_SUFFIX) (map fst cs))) r1 = (root', Inr rs)"
proof (cases "path_exists root [lit ''partial'']")
  case False
  moreover have "\<not> abandoned root n" for n
    using False node_get_append [of root "[lit ''partial'']" "[n]"]
    by (auto simp: abandoned_def path_exists_def simp del: lit_simps split: option.splits node.splits)
  ultimately show thesis using assms none by (simp add: recover_partials_def del: lit_simps)
next
  case True
  obtain r1 where p: "private_dir [lit ''partial''] root = Inr r1"
    using assms True by (auto simp: recover_partials_def simp del: lit_simps split: sum.splits)
  with True obtain m cs where d: "node_get root [lit ''partial''] = Some (Dir m cs)"
    by (auto simp: path_exists_def private_dir_def simp del: lit_simps split: option.splits node.splits)
  show thesis
    using assms True p private_dir_get(1) [OF p d]
    by (intro some [OF d p]) (simp add: recover_partials_def partial_names_def del: lit_simps)
qed

lemma recover_partials_again:
  assumes p: "private_dir [lit ''partial''] root = Inr r1" and d: "node_get root [lit ''partial''] = Some (Dir m cs)"
    and e: "recover_each (sort (filter (suffix PARTIAL_SUFFIX) (map fst cs))) r1 = (root', Inr rs)"
  shows "recover_partials root' = (root', Inr rs)"
proof -
  let ?ns = "sort (filter (suffix PARTIAL_SUFFIX) (map fst cs))"
  have c1: "children r1 (lit ''partial'') = Some (PRIVATE_DIR, map fst cs)"
    using private_dir_get(1) [OF p d] by (simp add: children_def)
  note res = recover_each_result [OF e]
  then have c2: "children root' (lit ''partial'') = Some (PRIVATE_DIR, map fst cs)"
    using c1 by (simp add: recovery_frame_def del: lit_simps)
  have dirs: "partial_is_dir root' = partial_is_dir r1" using res recovery_frame_dir by blast
  have "recover_each ?ns root' = (root', Inr (map recovered (filter (partial_is_dir root') ?ns)))"
    using res dirs by (intro recover_each_again) auto
  then show ?thesis using recover_partials_eq [OF c2] res dirs by simp
qed

lemma recover_partials_marks:
  assumes "recover_partials root = (root', Inr rs)"
  shows "set rs = recovered ` {n. abandoned root n} \<and> entries_kept root root' \<and>
    (\<forall>n. abandoned root n \<longrightarrow> marked root' n \<and> incomplete_written root root' n) \<and>
    (\<forall>q. q \<noteq> [] \<longrightarrow> hd q \<noteq> lit ''partial'' \<longrightarrow> node_get root' q = node_get root q) \<and>
    recover_partials root' = (root', Inr rs)"
  using assms
proof (cases rule: recover_partials_cases)
  case none
  with assms show ?thesis by (simp add: entries_kept_refl del: lit_simps)
next
  case (some m cs r1)
  note g = private_dir_get [OF some(2,1)]
  have dirs: "partial_is_dir r1 k \<longleftrightarrow> (\<exists>m' cs'. node_get root [lit ''partial'', k] = Some (Dir m' cs'))" for k
    by (simp add: partial_is_dir_def is_dir_def g(2) del: lit_simps) blast
  have listed: "abandoned root k \<longleftrightarrow> k \<in> set (filter (suffix PARTIAL_SUFFIX) (map fst cs)) \<and> partial_is_dir r1 k" for k
    using node_get_append [of root "[lit ''partial'']" "[k]"]
    by (auto simp: dirs abandoned_def PARTIAL_SUFFIX_def some(1) split: option.splits simp del: lit_simps)
       (metis domI dom_map_of_conv_image_fst)
  note res = recover_each_result [OF some(3)] and written = recover_each_written [OF some(3)]
  have "set rs = recovered ` {k. abandoned root k}" using res listed by auto
  moreover have "entries_kept root root'" using written private_dir_kept [OF some(2,1)] entries_kept_trans by blast
  moreover have "\<forall>n. abandoned root n \<longrightarrow> marked root' n \<and> incomplete_written root root' n"
    using res written listed by (auto simp: incomplete_written_def g(2) simp del: lit_simps)
  moreover have "\<forall>q. q \<noteq> [] \<longrightarrow> hd q \<noteq> lit ''partial'' \<longrightarrow> node_get root' q = node_get root q"
    using res g(3) by (auto simp: neq_Nil_conv recovery_frame_def simp del: lit_simps)
  ultimately show ?thesis using recover_partials_again [OF some(2,1,3)] by blast
qed

text \<open>
  C10.  Recovery marks every abandoned capture and is idempotent: after a successful run every
  directory below \<open>partial\<close> whose name ends in \<open>.partial\<close> is reported with its capture id, and nothing
  else is; each has a manifest and a recovery marker, which say \<open>INCOMPLETE\<close> where they were missing
  before; no entry of the spool disappears and no file changes; nothing outside the partial area
  changes; and running recovery again reports the same captures and changes nothing.
\<close>

theorem recover_partials_idempotent:
  assumes "recover_partials root = (root', Inr rs)"
  shows "set rs = (\<lambda>n. \<lparr>rr_capture_id = stem n, rr_path = [lit ''partial'', n]\<rparr>) ` {n. abandoned root n} \<and>
    (\<forall>n. abandoned root n \<longrightarrow> marked root' n \<and> incomplete_written root root' n) \<and>
    (\<forall>q x. node_get root q = Some x \<longrightarrow> (\<exists>y. node_get root' q = Some y \<and> (if is_dir x then is_dir y else y = x))) \<and>
    (\<forall>q. q \<noteq> [] \<longrightarrow> hd q \<noteq> lit ''partial'' \<longrightarrow> node_get root' q = node_get root q) \<and>
    recover_partials root' = (root', Inr rs)"
  using recover_partials_marks [OF assms]
  by (intro conjI) (simp_all add: recovered_def [abs_def] entries_kept_def flip: kept_entry_def del: lit_simps)

definition abandoned_spool :: node where
  "abandoned_spool = Dir 448 [(lit ''partial'', Dir 493 [(lit ''x.partial'', Dir 448 [(lit ''stdout.raw'', File 384 ''hi'')]),
     (lit ''note'', File 420 ''n'')])]"

theorem recover_partials_idempotent_witness:
  "\<exists>root'. recover_partials abandoned_spool = (root', Inr [recovered (lit ''x.partial'')]) \<and>
     marked root' (lit ''x.partial'') \<and>
     node_get root' [lit ''partial'', lit ''x.partial'', lit ''stdout.raw''] = Some (File 384 ''hi'') \<and>
     recover_partials root' = (root', Inr [recovered (lit ''x.partial'')])"
proof -
  have "snd (recover_partials abandoned_spool) = Inr [recovered (lit ''x.partial'')]" by code_simp
  then obtain root' where r: "recover_partials abandoned_spool = (root', Inr [recovered (lit ''x.partial'')])"
    by (metis prod.collapse)
  have x: "node_get abandoned_spool [lit ''partial'', lit ''x.partial''] = Some (Dir 448 [(lit ''stdout.raw'', File 384 ''hi'')])"
    "suffix (lit ''.partial'') (lit ''x.partial'')" by code_simp+
  have f: "node_get abandoned_spool [lit ''partial'', lit ''x.partial'', lit ''stdout.raw''] = Some (File 384 ''hi'')" by code_simp
  from recover_partials_idempotent [OF r] x f r show ?thesis
    by (auto simp: abandoned_def is_dir_def simp del: lit_simps dest!: spec [of _ "[lit ''partial'', lit ''x.partial'', lit ''stdout.raw'']"])
qed

end
