(* ===== verification/JsonBytes.thy ===== *)
theory JsonBytes
  imports Json
begin

text \<open>
  \<open>json.load\<close> on a file opened in binary mode: \<open>json.detect_encoding\<close> and the strict decoders with
  the \<open>surrogatepass\<close> handler, followed by \<open>json.loads\<close>.  Of the result the retrieval code
  distinguishes a decoding error (\<open>UnicodeDecodeError\<close>), a syntax error (\<open>JSONDecodeError\<close>) and the
  plain \<open>ValueError\<close> that \<open>int()\<close> raises on an over-long number.
\<close>

datatype encoding = Enc8 | Enc8sig | Enc16 | Enc16be | Enc16le | Enc32 | Enc32be | Enc32le

definition byte_at :: "bytes \<Rightarrow> nat \<Rightarrow> nat" where
  "byte_at b i = (if i < length b then of_char (b ! i) else 0)"

definition has_bom :: "nat list \<Rightarrow> bytes \<Rightarrow> bool" where
  "has_bom bom b \<longleftrightarrow> prefix bom (map of_char b)"

definition detect_encoding :: "bytes \<Rightarrow> encoding" where
  "detect_encoding b =
     (if has_bom [0, 0, 0xFE, 0xFF] b \<or> has_bom [0xFF, 0xFE, 0, 0] b then Enc32
      else if has_bom [0xFE, 0xFF] b \<or> has_bom [0xFF, 0xFE] b then Enc16
      else if has_bom [0xEF, 0xBB, 0xBF] b then Enc8sig
      else if 4 \<le> length b \<and> byte_at b 0 = 0 then (if byte_at b 1 \<noteq> 0 then Enc16be else Enc32be)
      else if 4 \<le> length b \<and> byte_at b 1 = 0
        then (if byte_at b 2 \<noteq> 0 \<or> byte_at b 3 \<noteq> 0 then Enc16le else Enc32le)
      else if length b = 2 \<and> byte_at b 0 = 0 then Enc16be
      else if length b = 2 \<and> byte_at b 1 = 0 then Enc16le
      else Enc8)"

text \<open>A surrogate in UTF-8, which \<open>surrogatepass\<close> lets through.\<close>

fun utf8_surrogate :: "bytes \<Rightarrow> nat option" where
  "utf8_surrogate (a # b # c # r) =
     (if of_char a = (0xED :: nat) \<and> 0xA0 \<le> (of_char b :: nat) \<and> is_cont b \<and> is_cont c
      then Some (0xD000 + tail6 b * 64 + tail6 c) else None)"
| "utf8_surrogate _ = None"

function utf8_strict :: "bytes \<Rightarrow> pystr option" where
  "utf8_strict bs =
     (if bs = [] then Some []
      else case utf8_next bs of
        Char c n \<Rightarrow> map_option (Cons c) (utf8_strict (drop n bs))
      | _ \<Rightarrow> (case utf8_surrogate bs of
               Some c \<Rightarrow> map_option (Cons c) (utf8_strict (drop 3 bs))
             | None \<Rightarrow> None))"
  by pat_completeness auto
termination
  by (relation "measure length") (auto dest: utf8_next_Char_len)

declare utf8_strict.simps [simp del]

fun units16 :: "bool \<Rightarrow> bytes \<Rightarrow> nat list option" where
  "units16 be [] = Some []"
| "units16 be [a] = None"
| "units16 be (a # b # r) =
     map_option (Cons (if be then of_char a * 256 + of_char b else of_char b * 256 + of_char a)) (units16 be r)"

fun join16 :: "nat list \<Rightarrow> pystr" where
  "join16 [] = []"
| "join16 [u] = [u]"
| "join16 (u # v # r) =
     (if 0xD800 \<le> u \<and> u \<le> 0xDBFF \<and> 0xDC00 \<le> v \<and> v \<le> 0xDFFF
      then (0x10000 + (u - 0xD800) * 1024 + (v - 0xDC00)) # join16 r else u # join16 (v # r))"

definition utf16_decode :: "bool \<Rightarrow> bytes \<Rightarrow> pystr option" where
  "utf16_decode be b = map_option join16 (units16 be b)"

fun utf32_decode :: "bool \<Rightarrow> bytes \<Rightarrow> pystr option" where
  "utf32_decode be [] = Some []"
| "utf32_decode be (a # b # c # d # r) =
     (let v = (if be then ((of_char a * 256 + of_char b) * 256 + of_char c) * 256 + of_char d
               else ((of_char d * 256 + of_char c) * 256 + of_char b) * 256 + of_char a) :: nat
      in if 0x10FFFF < v then None else map_option (Cons v) (utf32_decode be r))"
| "utf32_decode be _ = None"

definition decode_bytes :: "bytes \<Rightarrow> pystr option" where
  "decode_bytes b =
     (case detect_encoding b of
        Enc8 \<Rightarrow> utf8_strict b
      | Enc8sig \<Rightarrow> utf8_strict (drop 3 b)
      | Enc16 \<Rightarrow> utf16_decode (has_bom [0xFE, 0xFF] b) (drop 2 b)
      | Enc16be \<Rightarrow> utf16_decode True b
      | Enc16le \<Rightarrow> utf16_decode False b
      | Enc32 \<Rightarrow> utf32_decode (has_bom [0, 0, 0xFE, 0xFF] b) (drop 4 b)
      | Enc32be \<Rightarrow> utf32_decode True b
      | Enc32le \<Rightarrow> utf32_decode False b)"

datatype load_error = UnicodeDecodeError | SyntaxError | TooLongError

definition json_load :: "bytes \<Rightarrow> load_error + json" where
  "json_load b =
     (case decode_bytes b of
        None \<Rightarrow> Inl UnicodeDecodeError
      | Some t \<Rightarrow> (case loads t of
          Inr v \<Rightarrow> Inr v | Inl IntTooLong \<Rightarrow> Inl TooLongError | Inl _ \<Rightarrow> Inl SyntaxError))"

section \<open>Reading back what \<open>json.dump\<close> wrote\<close>

lemma utf8_strict_encode: "(\<And>c. c \<in> set s \<Longrightarrow> is_scalar c) \<Longrightarrow> utf8_strict (utf8_encode s) = Some s"
proof (induction s)
  case Nil
  show ?case by (simp add: utf8_strict.simps)
next
  case (Cons c s)
  let ?b = "utf8_encode_char c @ utf8_encode s"
  have "utf8_next ?b = Char c (length (utf8_encode_char c))" using Cons.prems by (simp add: utf8_next_encode)
  moreover have "?b \<noteq> []" by (simp add: utf8_encode_char_nonempty)
  moreover have "utf8_strict (utf8_encode s) = Some s" using Cons by simp
  ultimately show ?case by (simp add: utf8_strict.simps [of ?b])
qed

lemma ascii_bytes: "ascii_text t \<Longrightarrow> utf8_encode t = map char_of t"
  by (induction t) (auto simp: utf8_encode_char_def)

lemma decode_ascii:
  assumes "ascii_text t" "2 \<le> length t" "0 < t ! 0" "0 < t ! 1"
  shows "decode_bytes (utf8_encode t) = Some t"
proof -
  have b: "map of_char (utf8_encode t) = t"
    using assms(1) unfolding ascii_bytes [OF assms(1)] by (induction t) auto
  obtain x y r where t: "t = x # y # r" using assms(2) by (cases t rule: remdups_adj.cases) auto
  have xy: "0 < x" "0 < y" "x < 128" "y < 128" using assms(1,3,4) by (auto simp: t)
  have "byte_at (utf8_encode t) 0 = x" "byte_at (utf8_encode t) 1 = y"
    using xy unfolding ascii_bytes [OF assms(1)] byte_at_def by (simp_all add: t)
  then have "detect_encoding (utf8_encode t) = Enc8"
    using xy unfolding detect_encoding_def has_bom_def b by (simp add: t)
  moreover have "utf8_strict (utf8_encode t) = Some t"
    using assms(1) by (intro utf8_strict_encode) (auto simp: ascii_text_def is_scalar_def)
  ultimately show ?thesis by (simp add: decode_bytes_def)
qed

lemma sort_pairs_length: "length (sort_pairs kvs) = length kvs"
  by (induction kvs) auto

lemma json_load_dumps:
  assumes "json_ok (JObj kvs)" "kvs \<noteq> []"
  shows "json_load (utf8_encode (dumps True (JObj kvs) @ [10])) = Inr (sort_keys (JObj kvs))"
proof -
  let ?t = "dumps True (JObj kvs) @ [10]"
  have a: "ascii_text ?t" using dumps_ascii [OF assms(1)] by (auto simp: ascii_text_def)
  have ne: "sort_key fst (sort_pairs kvs) \<noteq> []" 
    using assms(2) by (metis length_0_conv length_sort sort_pairs_length)
  obtain r where "print_pairs True (sort_key fst (sort_pairs kvs)) = 34 # r" using print_pairs_head [OF ne] by blast
  then have "?t = 123 # 34 # r @ [10]" by (simp add: dumps_def)
  then have "decode_bytes (utf8_encode ?t) = Some ?t" using a by (intro decode_ascii) simp_all
  moreover have "loads ?t = Inr (sort_keys (JObj kvs))" using loads_dumps [OF assms(1), of "[10]" True] by (simp add: is_ws_def)
  ultimately show ?thesis by (simp add: json_load_def)
qed

text \<open>Sorting the keys of a dictionary does not change what a key maps to.\<close>

lemma map_of_sort_key: "distinct (map fst kvs) \<Longrightarrow> map_of (sort_key fst kvs) k = map_of kvs k"
proof -
  assume d: "distinct (map fst kvs)"
  have "distinct (map fst (sort_key fst kvs))" using d by (simp add: distinct_map distinct_sort)
  with d have "map_of (sort_key fst kvs) k = Some v \<longleftrightarrow> map_of kvs k = Some v" for v by simp
  then show ?thesis by (metis not_Some_eq)
qed

lemma map_of_sort_pairs: "map_of (sort_pairs kvs) k = map_option sort_keys (map_of kvs k)"
  by (induction kvs) auto

lemma sort_pairs_keys: "map fst (sort_pairs kvs) = map fst kvs"
  by (induction kvs) auto

lemma jget_sorted:
  "distinct (map fst kvs) \<Longrightarrow> jget (sort_key fst (sort_pairs kvs)) k = map_option sort_keys (jget kvs k)"
  by (simp add: jget_def map_of_sort_key sort_pairs_keys map_of_sort_pairs)

end
