(* ===== verification/Retrieval.thy ===== *)
theory Retrieval
  imports Capture JsonBytes
begin

text \<open>
  \<open>retrieval.py\<close>: read-only, bounded access to captured output.  A retrieval is a function of the
  spool tree (the entry at the spool root), so that it cannot change it is evident from the types.
  The spool is read as one state: files that change between two system calls of one retrieval are
  not modelled.  The regular-expression engine is a parameter of \<open>search_stream\<close>.  Shown: path
  safety, bounds on what is returned, that chunked search finds exactly the first occurrences in
  the whole stream, and that a finished capture verifies and reads back.
\<close>

section \<open>Results\<close>

datatype retrieval_status = AVAILABLE | INCOMPLETE | UNAVAILABLE | TAMPERED | DENIED

record inspection_result =
  ir_status :: retrieval_status
  ir_capture_id :: pystr
  ir_capture_status :: "pystr option"
  ir_manifest :: "jdict option"
  ir_detail :: "string option"

record slice_result =
  sl_status :: retrieval_status
  sl_capture_id :: pystr
  sl_stream :: pystr
  sl_start :: int
  sl_end :: int
  sl_data :: bytes
  sl_detail :: "string option"

record tail_result =
  tl_status :: retrieval_status
  tl_capture_id :: pystr
  tl_stream :: pystr
  tl_data :: bytes
  tl_truncated :: bool
  tl_detail :: "string option"

record search_match =
  sm_start :: nat
  sm_end :: nat
  sm_context :: bytes

record search_result =
  sr_status :: retrieval_status
  sr_capture_id :: pystr
  sr_stream :: pystr
  sr_matches :: "search_match list"
  sr_limited :: bool
  sr_detail :: "string option"

record digest_check =
  dc_artifact :: pystr
  dc_expected :: "pystr option"
  dc_observed :: "pystr option"
  dc_matches :: bool

record verification_result =
  vr_status :: retrieval_status
  vr_capture_id :: pystr
  vr_checks :: "digest_check list"
  vr_detail :: "string option"

record resolved_capture =
  rc_status :: retrieval_status
  rc_capture_id :: pystr
  rc_path :: "path option"
  rc_detail :: "string option"

section \<open>Resolving a capture\<close>

definition valid_capture_id :: "pystr \<Rightarrow> bool" where
  "valid_capture_id cid \<longleftrightarrow> cid \<noteq> [] \<and> cid \<noteq> lit ''.'' \<and> cid \<noteq> lit ''..'' \<and> 47 \<notin> set cid \<and> 92 \<notin> set cid"

text \<open>Without a slash, \<open>Path(id).name\<close> is the id itself.\<close>

definition safe_directory :: "node option \<Rightarrow> bool" where
  "safe_directory e \<longleftrightarrow> (case e of Some (Dir m cs) \<Rightarrow> True | _ \<Rightarrow> False)"

definition safe_file :: "node option \<Rightarrow> bool" where
  "safe_file e \<longleftrightarrow> (case e of Some (File m c) \<Rightarrow> True | Some (Broken m z) \<Rightarrow> True | _ \<Rightarrow> False)"

definition unresolved :: "retrieval_status \<Rightarrow> pystr \<Rightarrow> string \<Rightarrow> resolved_capture" where
  "unresolved s cid d = \<lparr>rc_status = s, rc_capture_id = cid, rc_path = None, rc_detail = Some d\<rparr>"

fun resolve_groups :: "node \<Rightarrow> pystr \<Rightarrow> (pystr \<times> pystr \<times> retrieval_status) list \<Rightarrow> resolved_capture result" where
  "resolve_groups root cid [] = Inr (unresolved UNAVAILABLE cid ''capture unavailable'')"
| "resolve_groups root cid ((grp, name, status) # gs) =
     (if node_get root [grp] \<noteq> None \<and> \<not> safe_directory (node_get root [grp])
      then Inr (unresolved DENIED cid ''symlinked spool path'')
      else if \<not> os_name name then Inl (ValueError ''embedded null byte'')
      else if node_get root [grp, name] = None then resolve_groups root cid gs
      else if \<not> safe_directory (node_get root [grp, name])
        then Inr (unresolved DENIED cid ''symlinked capture path'')
      else Inr \<lparr>rc_status = status, rc_capture_id = cid, rc_path = Some [grp, name], rc_detail = None\<rparr>)"

definition resolve_capture :: "node option \<Rightarrow> pystr \<Rightarrow> resolved_capture result" where
  "resolve_capture spool cid =
     (if \<not> valid_capture_id cid then Inr (unresolved DENIED cid ''invalid capture id'')
      else if \<not> safe_directory spool
        then Inr (unresolved (if spool \<noteq> None then DENIED else UNAVAILABLE) cid ''spool unavailable or unsafe'')
      else case spool of
          Some root \<Rightarrow> resolve_groups root cid
            [(lit ''captures'', cid, AVAILABLE), (lit ''partial'', cid @ lit ''.partial'', INCOMPLETE)]
        | None \<Rightarrow> Inr (unresolved UNAVAILABLE cid ''capture unavailable''))"

text \<open>What \<open>stat\<close> and \<open>open\<close> reach from an entry, which unlike \<open>lstat\<close> follow a link.\<close>

definition opened :: "node option \<Rightarrow> node option" where
  "opened e = (case e of Some (FileLink c) \<Rightarrow> Some (File PRIVATE_FILE c) | _ \<Rightarrow> e)"

definition entry_at :: "node option \<Rightarrow> path \<Rightarrow> node option" where
  "entry_at spool p = (case spool of Some root \<Rightarrow> node_get root p | None \<Rightarrow> None)"

section \<open>Manifest and authorisation\<close>

type_synonym 'a looked_up = "retrieval_status \<times> 'a option \<times> string option"

definition load_manifest :: "node option \<Rightarrow> resolved_capture \<Rightarrow> jdict looked_up result" where
  "load_manifest spool r =
     (case rc_path r of
        Some dir \<Rightarrow>
          if rc_status r \<noteq> AVAILABLE then Inr (rc_status r, None, rc_detail r)
          else if \<not> safe_file (entry_at spool (dir @ [lit ''manifest.json'']))
            then Inr (INCOMPLETE, None, Some ''finalized capture has no safe manifest'')
          else (case opened (entry_at spool (dir @ [lit ''manifest.json''])) of
              Some (File m content) \<Rightarrow>
                (case json_load content of
                   Inl TooLongError \<Rightarrow> Inl (ValueError ''Exceeds the limit for integer string conversion'')
                 | Inl _ \<Rightarrow> Inr (TAMPERED, None, Some ''manifest is unreadable'')
                 | Inr (JObj kvs) \<Rightarrow> Inr (AVAILABLE, Some kvs, None)
                 | Inr _ \<Rightarrow> Inr (TAMPERED, None, Some ''manifest is not an object''))
            | _ \<Rightarrow> Inr (TAMPERED, None, Some ''manifest is unreadable''))
      | None \<Rightarrow> Inr (rc_status r, None, rc_detail r))"

definition authorize_workspace :: "jdict \<Rightarrow> pystr option \<Rightarrow> retrieval_status \<times> string option" where
  "authorize_workspace manifest expected =
     (case expected of
        None \<Rightarrow> (AVAILABLE, None)
      | Some ws \<Rightarrow>
          (case jget manifest ''source'' of
             Some (JObj source) \<Rightarrow>
               (case jget source ''workspace_id'' of
                  Some (JStr w) \<Rightarrow> if w \<noteq> ws then (DENIED, Some ''workspace authorization denied'') else (AVAILABLE, None)
                | _ \<Rightarrow> (DENIED, Some ''workspace authorization denied''))
           | _ \<Rightarrow> (DENIED, Some ''workspace authorization denied'')))"

definition authorized_manifest :: "node option \<Rightarrow> resolved_capture \<Rightarrow> pystr option \<Rightarrow> jdict looked_up result" where
  "authorized_manifest spool r expected =
     bind_r (load_manifest spool r) (\<lambda>(status, manifest, detail).
       case manifest of
         None \<Rightarrow> Inr (status, None, detail)
       | Some kvs \<Rightarrow>
           (let (authorization, authorization_detail) = authorize_workspace kvs expected
            in if authorization \<noteq> AVAILABLE then Inr (authorization, None, authorization_detail)
               else Inr (status, Some kvs, detail)))"

definition stream_path :: "node option \<Rightarrow> resolved_capture \<Rightarrow> pystr \<Rightarrow> pystr option \<Rightarrow> path looked_up result" where
  "stream_path spool r stream expected =
     (if stream \<noteq> lit ''stdout'' \<and> stream \<noteq> lit ''stderr''
      then Inl (ValueError ''stream must be stdout or stderr'')
      else if rc_status r \<noteq> AVAILABLE then Inr (rc_status r, None, rc_detail r)
      else bind_r (authorized_manifest spool r expected) (\<lambda>(status, manifest, detail).
        if status \<noteq> AVAILABLE then Inr (status, None, detail)
        else case rc_path r of
            None \<Rightarrow> Inr (status, None, detail)
          | Some dir \<Rightarrow>
              if \<not> safe_file (entry_at spool (dir @ [stream @ lit ''.raw'']))
              then Inr (TAMPERED, None, Some ''stream is missing or unsafe'')
              else Inr (AVAILABLE, Some (dir @ [stream @ lit ''.raw'']), None)))"

definition inspect_capture :: "node option \<Rightarrow> pystr \<Rightarrow> pystr option \<Rightarrow> inspection_result result" where
  "inspect_capture spool cid expected =
     bind_r (resolve_capture spool cid) (\<lambda>resolved.
     bind_r (authorized_manifest spool resolved expected) (\<lambda>(status, manifest, detail).
       case manifest of
         None \<Rightarrow> Inr \<lparr>ir_status = status, ir_capture_id = cid, ir_capture_status = None, ir_manifest = None, ir_detail = detail\<rparr>
       | Some kvs \<Rightarrow>
           (case jget kvs ''capture_status'' of
              Some (JStr cs) \<Rightarrow> Inr \<lparr>ir_status = status, ir_capture_id = cid, ir_capture_status = Some cs,
                 ir_manifest = Some kvs, ir_detail = detail\<rparr>
            | None \<Rightarrow> Inr \<lparr>ir_status = status, ir_capture_id = cid, ir_capture_status = None,
                 ir_manifest = Some kvs, ir_detail = detail\<rparr>
            | Some JNull \<Rightarrow> Inr \<lparr>ir_status = status, ir_capture_id = cid, ir_capture_status = None,
                 ir_manifest = Some kvs, ir_detail = detail\<rparr>
            | Some _ \<Rightarrow> Inr \<lparr>ir_status = TAMPERED, ir_capture_id = cid, ir_capture_status = None,
                 ir_manifest = None, ir_detail = Some ''invalid capture status''\<rparr>)))"

section \<open>Reading streams\<close>

definition read_range :: "bytes \<Rightarrow> int \<Rightarrow> int \<Rightarrow> bytes" where
  "read_range content start stop = take (nat (stop - start)) (drop (nat start) content)"

definition slice_stream ::
  "node option \<Rightarrow> pystr \<Rightarrow> pystr \<Rightarrow> int \<Rightarrow> int \<Rightarrow> int \<Rightarrow> pystr option \<Rightarrow> slice_result result" where
  "slice_stream spool cid stream start stop max_bytes expected =
     (if start < 0 \<or> stop < start then Inl (ValueError ''slice range must be a non-negative half-open range'')
      else if max_bytes \<le> 0 \<or> max_bytes < stop - start then Inl (ValueError ''slice range exceeds max_bytes'')
      else bind_r (resolve_capture spool cid) (\<lambda>resolved.
        bind_r (stream_path spool resolved stream expected) (\<lambda>(status, p, detail).
          let failed = (\<lambda>s d. \<lparr>sl_status = s, sl_capture_id = cid, sl_stream = stream, sl_start = start, sl_end = stop,
                sl_data = [], sl_detail = d\<rparr>);
              found = (\<lambda>e d. \<lparr>sl_status = AVAILABLE, sl_capture_id = cid, sl_stream = stream, sl_start = start,
                sl_end = e, sl_data = d, sl_detail = None\<rparr>)
          in case p of
              None \<Rightarrow> Inr (failed status detail)
            | Some p \<Rightarrow>
                (case opened (entry_at spool p) of
                   Some (File m content) \<Rightarrow>
                     (let actual_end = min stop (int (length content))
                      in Inr (found actual_end (if start < actual_end then read_range content start actual_end else [])))
                 | Some (Broken m z) \<Rightarrow>
                     (if start < min stop z then Inr (failed TAMPERED (Some ''stream unreadable''))
                      else Inr (found (min stop z) []))
                 | _ \<Rightarrow> Inr (failed TAMPERED (Some ''stream unreadable''))))))"

text \<open>\<open>bytes.splitlines(keepends=True)\<close>: lines end at LF, CR or CRLF.\<close>

fun split_lines :: "bytes \<Rightarrow> bytes \<Rightarrow> bytes list" where
  "split_lines acc [] = (if acc = [] then [] else [acc])"
| "split_lines acc (c # r) =
     (if c = CHR 0x0A then (acc @ [c]) # split_lines [] r
      else if c = CHR 0x0D then
        (case r of
           d # r' \<Rightarrow> if d = CHR 0x0A then (acc @ [c, d]) # split_lines [] r' else (acc @ [c]) # split_lines [] r
         | [] \<Rightarrow> (acc @ [c]) # split_lines [] r)
      else split_lines (acc @ [c]) r)"

definition last_lines :: "int \<Rightarrow> bytes \<Rightarrow> bytes" where
  "last_lines n data =
     (if n = 0 then [] else let ls = split_lines [] data in concat (drop (length ls - nat n) ls))"

definition tail_stream ::
  "node option \<Rightarrow> pystr \<Rightarrow> pystr \<Rightarrow> int option \<Rightarrow> int \<Rightarrow> pystr option \<Rightarrow> tail_result result" where
  "tail_stream spool cid stream lines max_bytes expected =
     (if (case lines of Some n \<Rightarrow> n < 0 | None \<Rightarrow> False) then Inl (ValueError ''lines must be non-negative'')
      else if max_bytes \<le> 0 then Inl (ValueError ''max_bytes must be positive'')
      else bind_r (resolve_capture spool cid) (\<lambda>resolved.
        bind_r (stream_path spool resolved stream expected) (\<lambda>(status, p, detail).
          let failed = (\<lambda>s d. \<lparr>tl_status = s, tl_capture_id = cid, tl_stream = stream, tl_data = [],
                tl_truncated = False, tl_detail = d\<rparr>)
          in case p of
              None \<Rightarrow> Inr (failed status detail)
            | Some p \<Rightarrow>
                (case opened (entry_at spool p) of
                   Some (File m content) \<Rightarrow>
                     (let start = max 0 (int (length content) - max_bytes);
                          data = read_range content start (int (length content))
                      in Inr \<lparr>tl_status = AVAILABLE, tl_capture_id = cid, tl_stream = stream,
                           tl_data = (case lines of None \<Rightarrow> data | Some n \<Rightarrow> last_lines n data),
                           tl_truncated = (start \<noteq> 0), tl_detail = None\<rparr>)
                 | _ \<Rightarrow> Inr (failed TAMPERED (Some ''stream unreadable''))))))"

section \<open>Searching\<close>

definition CHUNK_BYTES :: nat where "CHUNK_BYTES = 64 * 1024"
definition MAX_CONTEXT_BYTES :: int where "MAX_CONTEXT_BYTES = 4 * 1024"
definition MAX_MATCHES :: nat where "MAX_MATCHES = 100"

definition find_from :: "bytes \<Rightarrow> bytes \<Rightarrow> nat \<Rightarrow> nat option" where
  "find_from data needle start = List.find (\<lambda>i. prefix needle (drop i data)) [start..<Suc (length data)]"

function find_all_from :: "bytes \<Rightarrow> bytes \<Rightarrow> nat \<Rightarrow> (nat \<times> nat) list" where
  "find_all_from data needle start =
     (case find_from data needle start of
        None \<Rightarrow> []
      | Some found \<Rightarrow> (found, found + length needle) # find_all_from data needle (found + 1))"
  by pat_completeness auto
termination
proof (relation "measure (\<lambda>(data, needle, start). Suc (length data) - start)", goal_cases)
  case (2 data needle start found)
  then have "found \<in> set [start..<Suc (length data)]" using find_SomeD unfolding find_from_def by fast
  then show ?case by auto
qed simp

declare find_all_from.simps [simp del]

definition find_all :: "bytes \<Rightarrow> bytes \<Rightarrow> (nat \<times> nat) list" where
  "find_all data needle = find_all_from data needle 0"

fun add_positions ::
  "nat \<Rightarrow> nat \<Rightarrow> (nat \<Rightarrow> nat \<Rightarrow> search_match) \<Rightarrow> nat \<Rightarrow> (nat \<times> nat) list \<Rightarrow> search_match list \<Rightarrow> search_match list \<times> bool" where
  "add_positions window_start offset mk max_matches [] ms = (ms, False)"
| "add_positions window_start offset mk max_matches ((ls, le) # ps) ms =
     (let start = window_start + ls; stop = window_start + le in
      if stop \<le> offset \<or> start = stop then add_positions window_start offset mk max_matches ps ms
      else let ms = ms @ [mk start stop]
           in if length ms = max_matches then (ms, True)
              else add_positions window_start offset mk max_matches ps ms)"

function search_loop ::
  "(bytes \<Rightarrow> (nat \<times> nat) list) \<Rightarrow> nat \<Rightarrow> (nat \<Rightarrow> nat \<Rightarrow> search_match) \<Rightarrow> nat \<Rightarrow> bytes \<Rightarrow> nat \<Rightarrow> search_match list \<Rightarrow>
   bytes \<Rightarrow> search_match list \<times> bool" where
  "search_loop positions chunk_size mk max_matches overlap offset ms rest =
     (if rest = [] \<or> chunk_size = 0 then (ms, False)
      else let chunk = take chunk_size rest;
               window = overlap @ chunk;
               (ms, limited) = add_positions (offset - length overlap) offset mk max_matches (positions window) ms
           in if limited then (ms, True)
              else search_loop positions chunk_size mk max_matches (drop (length window - chunk_size) window)
                     (offset + length chunk) ms (drop chunk_size rest))"
  by pat_completeness auto
termination
  by (relation "measure (\<lambda>(positions, chunk_size, mk, mm, overlap, offset, ms, rest). length rest)") auto

declare search_loop.simps [simp del]

definition match_at :: "bytes \<Rightarrow> int \<Rightarrow> nat \<Rightarrow> nat \<Rightarrow> search_match" where
  "match_at content context_bytes start stop =
     \<lparr>sm_start = start, sm_end = stop,
      sm_context = read_range content (max 0 (int start - context_bytes)) (min (int (length content)) (int stop + context_bytes))\<rparr>"

datatype pattern_arg = BytesPattern bytes | StrPattern pystr

definition pattern_bytes :: "pattern_arg \<Rightarrow> bytes result" where
  "pattern_bytes p =
     bind_r (case p of BytesPattern b \<Rightarrow> Inr b
                     | StrPattern s \<Rightarrow> if list_all is_scalar s then Inr (utf8_encode s) else Inl (ValueError ''surrogates not allowed''))
       (\<lambda>value. if value = [] then Inl (ValueError ''search pattern must not be empty'') else Inr value)"

text \<open>
  \<open>regex_compile\<close> is the regular-expression engine: from a pattern the spans \<open>finditer\<close> yields on a
  window, or nothing when the pattern does not compile.
\<close>

definition search_stream ::
  "(bytes \<Rightarrow> (bytes \<Rightarrow> (nat \<times> nat) list) option) \<Rightarrow> node option \<Rightarrow> pystr \<Rightarrow> pystr \<Rightarrow> pattern_arg \<Rightarrow> bool \<Rightarrow>
   int \<Rightarrow> int \<Rightarrow> pystr option \<Rightarrow> search_result result" where
  "search_stream regex_compile spool cid stream pattern regex context_bytes max_matches expected =
     bind_r (pattern_bytes pattern) (\<lambda>needle.
     if \<not> (0 \<le> context_bytes \<and> context_bytes \<le> MAX_CONTEXT_BYTES)
       then Inl (ValueError ''context_bytes must be between 0 and 4096'')
     else if \<not> (0 < max_matches \<and> max_matches \<le> int MAX_MATCHES)
       then Inl (ValueError ''max_matches must be between 1 and 100'')
     else bind_r (if regex then (case regex_compile needle of None \<Rightarrow> Inl (ValueError ''invalid regex'') | Some f \<Rightarrow> Inr f)
                  else Inr (\<lambda>window. find_all window needle)) (\<lambda>positions.
     bind_r (resolve_capture spool cid) (\<lambda>resolved.
     bind_r (stream_path spool resolved stream expected) (\<lambda>(status, p, detail).
       let failed = (\<lambda>s d. \<lparr>sr_status = s, sr_capture_id = cid, sr_stream = stream, sr_matches = [],
             sr_limited = False, sr_detail = d\<rparr>)
       in case p of
           None \<Rightarrow> Inr (failed status detail)
         | Some p \<Rightarrow>
             (case opened (entry_at spool p) of
                Some (File m content) \<Rightarrow>
                  (let (ms, limited) = search_loop positions CHUNK_BYTES (match_at content context_bytes)
                         (nat max_matches) [] 0 [] content
                   in Inr \<lparr>sr_status = AVAILABLE, sr_capture_id = cid, sr_stream = stream, sr_matches = ms,
                        sr_limited = limited, sr_detail = None\<rparr>)
              | _ \<Rightarrow> Inr (failed TAMPERED (Some ''stream unreadable'')))))))"

section \<open>Verification\<close>

definition file_sha256 :: "node option \<Rightarrow> pystr option" where
  "file_sha256 e = (case e of Some (File m content) \<Rightarrow> Some (lit (sha256_hex content)) | _ \<Rightarrow> None)"

definition nested_digest :: "jdict \<Rightarrow> string \<Rightarrow> json option" where
  "nested_digest streams stream =
     (case jget streams stream of Some (JObj entry) \<Rightarrow> jget entry ''sha256'' | _ \<Rightarrow> None)"

definition check_digest :: "node option \<Rightarrow> path \<Rightarrow> string \<times> string \<times> json option \<Rightarrow> digest_check" where
  "check_digest spool dir art =
     (let (artifact, filename, expected) = art;
          entry = entry_at spool (dir @ [lit filename]);
          observed = (if safe_file entry then file_sha256 (opened entry) else None);
          expected_value = (case expected of Some (JStr s) \<Rightarrow> Some s | _ \<Rightarrow> None)
      in \<lparr>dc_artifact = lit artifact, dc_expected = expected_value, dc_observed = observed,
          dc_matches = (expected_value = observed \<and> observed \<noteq> None)\<rparr>)"

definition verify_capture :: "node option \<Rightarrow> pystr \<Rightarrow> pystr option \<Rightarrow> verification_result result" where
  "verify_capture spool cid expected =
     bind_r (resolve_capture spool cid) (\<lambda>resolved.
     bind_r (authorized_manifest spool resolved expected) (\<lambda>(status, manifest, detail).
       case (manifest, rc_path resolved) of
         (Some kvs, Some dir) \<Rightarrow>
           (case (jget kvs ''streams'', jget kvs ''event_index'') of
              (Some (JObj streams), Some (JObj event_index)) \<Rightarrow>
                (let checks = map (check_digest spool dir)
                       [(''stdout'', ''stdout.raw'', nested_digest streams ''stdout''),
                        (''stderr'', ''stderr.raw'', nested_digest streams ''stderr''),
                        (''events'', ''events.ndjson'', jget event_index ''sha256'')]
                 in Inr \<lparr>vr_status = (if list_all dc_matches checks then AVAILABLE else TAMPERED),
                      vr_capture_id = cid, vr_checks = checks, vr_detail = None\<rparr>)
            | _ \<Rightarrow> Inr \<lparr>vr_status = TAMPERED, vr_capture_id = cid, vr_checks = [],
                 vr_detail = Some ''manifest hashes missing''\<rparr>)
       | _ \<Rightarrow> Inr \<lparr>vr_status = status, vr_capture_id = cid, vr_checks = [], vr_detail = detail\<rparr>))"

section \<open>Search is complete\<close>

lemma filter_find_None: "List.find P xs = None \<Longrightarrow> filter P xs = []"
  by (induction xs) (auto split: if_splits)

lemma filter_find_Some: "List.find P [a..<b] = Some x \<Longrightarrow> filter P [a..<b] = x # filter P [Suc x..<b]"
proof (induction "b - a" arbitrary: a)
  case (Suc n)
  then have "[a..<b] = a # [Suc a..<b]" by (simp add: upt_conv_Cons)
  with Suc show ?case by (auto split: if_splits)
qed simp

lemma find_all_from_filter:
  "find_all_from data needle start =
     map (\<lambda>i. (i, i + length needle)) (filter (\<lambda>i. prefix needle (drop i data)) [start..<Suc (length data)])"
proof (induction data needle start rule: find_all_from.induct)
  case (1 data needle start)
  show ?case
  proof (cases "find_from data needle start")
    case None
    then show ?thesis
      by (subst find_all_from.simps) (simp only: find_from_def filter_find_None option.case list.map)
  next
    case (Some x)
    then have "filter (\<lambda>i. prefix needle (drop i data)) [start..<Suc (length data)] =
        x # filter (\<lambda>i. prefix needle (drop i data)) [Suc x..<Suc (length data)]"
      unfolding find_from_def by (rule filter_find_Some)
    with 1 [OF Some] Some show ?thesis
      by (subst find_all_from.simps) (simp only: option.case list.map Suc_eq_plus1)
  qed
qed

text \<open>The positions at which the needle occurs in the content and ends no later than \<open>limit\<close>.\<close>

definition occurrences :: "bytes \<Rightarrow> bytes \<Rightarrow> nat \<Rightarrow> nat list" where
  "occurrences needle content limit = filter (\<lambda>i. prefix needle (drop i content)) [0..<Suc limit - length needle]"

lemma prefix_take: "k \<le> length xs \<Longrightarrow> prefix n (take k xs) \<longleftrightarrow> prefix n xs \<and> length n \<le> k"
  by (auto simp: prefix_def min_def) (metis append_eq_conv_conj append_take_drop_id take_all_iff take_append nat_le_linear
      length_append le_add1 append_assoc min.absorb2 length_take)+

lemma prefix_window:
  assumes "o2 \<le> length c" "needle \<noteq> []"
  shows "prefix needle (drop j (drop ws (take o2 c))) \<longleftrightarrow> prefix needle (drop (ws + j) c) \<and> ws + j + length needle \<le> o2"
proof (cases "ws + j \<le> o2")
  case True
  have "drop j (drop ws (take o2 c)) = take (o2 - (ws + j)) (drop (ws + j) c)"
    by (simp add: drop_take add.commute)
  with True assms(1) show ?thesis by (auto simp: prefix_take)
next
  case False
  then show ?thesis using assms(2) by simp
qed

text \<open>
  One window: the matches in it that end after the old offset are the occurrences that the new
  chunk adds, provided that the overlap holds all but one byte of a match.
\<close>

lemma occurrences_step:
  assumes needle: "needle \<noteq> []" and bounds: "ws \<le> o1" "o1 \<le> o2" "o2 \<le> length c"
    and ws: "ws = 0 \<or> length needle \<le> Suc (o1 - ws)"
  shows "occurrences needle c o2 = occurrences needle c o1 @
    map (\<lambda>j. ws + j) (filter (\<lambda>j. prefix needle (drop j (drop ws (take o2 c))) \<and> o1 < ws + j + length needle) [0..<Suc (o2 - ws)])"
  (is "?l = ?r")
proof (rule sorted_distinct_set_unique)
  have k: "0 < length needle" using needle by simp
  note w = prefix_window [OF bounds(3) needle]
  show "sorted ?l" "distinct ?l" "distinct ?r"
    using k bounds(1) by (auto simp: occurrences_def distinct_map inj_on_def w simp del: drop_drop upt_Suc intro: sorted_wrt_filter)
  show "sorted ?r"
    unfolding occurrences_def sorted_append
    by (auto simp: w sorted_map simp del: drop_drop upt_Suc intro: sorted_wrt_filter)
  show "set ?l = set ?r"
  proof (intro set_eqI iffI)
    fix i assume "i \<in> set ?l"
    then have i: "prefix needle (drop i c)" "i + length needle \<le> o2" by (auto simp: occurrences_def)
    show "i \<in> set ?r"
    proof (cases "i + length needle \<le> o1")
      case True
      then show ?thesis using i by (auto simp: occurrences_def)
    next
      case False
      then have "ws \<le> i" using ws bounds by auto
      then have "i = ws + (i - ws)" by simp
      moreover have "i - ws \<in> {0..<Suc (o2 - ws)}" using i by auto
      ultimately show ?thesis using i False \<open>ws \<le> i\<close> by (auto simp: w image_iff simp del: drop_drop upt_Suc)
    qed
  next
    fix i assume "i \<in> set ?r"
    then show "i \<in> set ?l" using bounds by (auto simp: occurrences_def w simp del: drop_drop upt_Suc)
  qed
qed

lemma occurrences_prefix:
  assumes "o1 \<le> o2" shows "\<exists>r. occurrences needle c o2 = occurrences needle c o1 @ r"
proof -
  have "Suc o1 - length needle \<le> Suc o2 - length needle" using assms by simp
  then obtain d where "Suc o2 - length needle = (Suc o1 - length needle) + d" by (auto simp: le_iff_add)
  with upt_add_eq_append [of 0 "Suc o1 - length needle" d] show ?thesis unfolding occurrences_def by (simp only: filter_append) blast
qed

lemma add_positions_result:
  assumes "length ms < mm"
    and "new = map (\<lambda>(ls, le). mk (ws + ls) (ws + le)) (filter (\<lambda>(ls, le). off < ws + le \<and> ls \<noteq> le) ps)"
  shows "add_positions ws off mk mm ps ms = (take mm (ms @ new), mm \<le> length ms + length new)"
  using assms
proof (induction ps arbitrary: ms new)
  case (Cons p ps)
  obtain ls le where p: "p = (ls, le)" by (rule prod.exhaust)
  show ?case
  proof (cases "ws + le \<le> off \<or> ls = le")
    case True
    then show ?thesis using Cons by (auto simp: p)
  next
    case False
    then show ?thesis using Cons.prems Cons.IH [of "ms @ [mk (ws + ls) (ws + le)]", OF _ refl]
      by (auto simp: p Let_def)
  qed
qed simp

text \<open>The loop over chunks of any positive size.\<close>

lemma search_loop_result:
  assumes needle: "needle \<noteq> []" "length needle \<le> Suc ch" and ch: "0 < ch"
    and "off \<le> length c" "overlap = drop (off - ch) (take off c)"
    and "ms = map (\<lambda>i. mk i (i + length needle)) (occurrences needle c off)" "length ms < mm"
  shows "search_loop (\<lambda>w. find_all w needle) ch mk mm overlap off ms (drop off c) =
    (take mm (map (\<lambda>i. mk i (i + length needle)) (occurrences needle c (length c))),
     mm \<le> length (occurrences needle c (length c)))"
  using assms(4-)
proof (induction "length c - off" arbitrary: off overlap ms rule: less_induct)
  case less
  show ?case
  proof (cases "off = length c")
    case True
    then show ?thesis using less.prems by (subst search_loop.simps) simp
  next
    case False
    define off' where "off' = min (off + ch) (length c)"
    have off': "off < off'" "off' \<le> length c" "off \<le> off'" using False less.prems(1) ch by (auto simp: off'_def)
    define ws where "ws = off - ch"
    have ws: "ws \<le> off" "ws = 0 \<or> length needle \<le> Suc (off - ws)" using needle(2) by (auto simp: ws_def)
    have lo: "off - length overlap = ws" using less.prems(1,2) by (simp add: ws_def)
    have chunk: "take ch (drop off c) = drop off (take off' c)"
      by (simp add: off'_def drop_take min_def)
    have lt: "length (take off c) = off" using less.prems(1) by simp
    have "take off' c = take off c @ drop off (take off' c)"
      using off'(3) by (metis append_take_drop_id min.absorb1 take_take)
    then have window: "overlap @ take ch (drop off c) = drop ws (take off' c)"
      using ws(1) lt unfolding chunk less.prems(2) ws_def [symmetric]
      by (metis append_eq_conv_conj drop_append drop0 diff_is_0_eq)
    let ?new = "map (\<lambda>j. ws + j) (filter (\<lambda>j. prefix needle (drop j (drop ws (take off' c))) \<and> off < ws + j + length needle) [0..<Suc (off' - ws)])"
    have occ: "occurrences needle c off' = occurrences needle c off @ ?new"
      using occurrences_step [OF needle(1) ws(1) off'(3,2) ws(2)] .
    let ?ms = "map (\<lambda>i. mk i (i + length needle)) (occurrences needle c off')"
    have "map (\<lambda>(ls, le). mk (ws + ls) (ws + le)) (filter (\<lambda>(ls, le). off < ws + le \<and> ls \<noteq> le)
        (find_all (drop ws (take off' c)) needle)) = map (\<lambda>i. mk i (i + length needle)) ?new"
      using needle(1) off'(2)
      by (simp add: find_all_def find_all_from_filter filter_map o_def add.assoc conj_commute del: upt_Suc drop_drop)
    then have added: "add_positions ws off mk mm (find_all (drop ws (take off' c)) needle) ms =
        (take mm ?ms, mm \<le> length ?ms)"
      using add_positions_result [OF less.prems(4) refl, of ws off mk "find_all (drop ws (take off' c)) needle"]
      unfolding occ less.prems(3) by simp
    have unfolded: "search_loop (\<lambda>w. find_all w needle) ch mk mm overlap off ms (drop off c) =
        (if mm \<le> length ?ms then (take mm ?ms, True)
         else search_loop (\<lambda>w. find_all w needle) ch mk mm (drop (off' - ch) (take off' c)) off' ?ms (drop off' c))"
    proof -
      have len: "off + length (take ch (drop off c)) = off'" using less.prems(1) by (simp add: off'_def)
      have rest: "drop ch (drop off c) = drop off' c" by (simp add: off'_def min_def add.commute)
      have "off' - ws - ch + ws = off' - ch" using off' by (auto simp: ws_def)
      then have keep: "drop (length (drop ws (take off' c)) - ch) (drop ws (take off' c)) = drop (off' - ch) (take off' c)"
        using off'(2) by simp
      have "drop off c \<noteq> []" using off' by simp
      with ch show ?thesis
        by (subst search_loop.simps) (simp add: Let_def del: drop_drop drop_eq_Nil2 drop_eq_Nil length_drop length_append length_take
            add: window lo len rest added keep not_le)
    qed
    obtain r where r: "occurrences needle c (length c) = occurrences needle c off' @ r"
      using occurrences_prefix [OF off'(2)] by blast
    show ?thesis
    proof (cases "mm \<le> length ?ms")
      case True
      then show ?thesis unfolding unfolded r by simp
    next
      case False
      then show ?thesis unfolding unfolded using less.hyps [of off', OF _ off'(2) refl refl] off' by simp
    qed
  qed
qed

section \<open>Where a retrieval may read\<close>

text \<open>A capture directory that was reached without following a symbolic link.\<close>

definition confined :: "node option \<Rightarrow> pystr \<Rightarrow> path \<Rightarrow> bool" where
  "confined spool cid dir \<longleftrightarrow> valid_capture_id cid \<and>
     (dir = [lit ''captures'', cid] \<or> dir = [lit ''partial'', cid @ lit ''.partial'']) \<and>
     (\<forall>k \<le> length dir. safe_directory (entry_at spool (take k dir)))"

lemma safe_directoryE:
  assumes "safe_directory e" obtains m cs where "e = Some (Dir m cs)"
  using assms by (auto simp: safe_directory_def split: option.splits node.splits)

lemma resolve_groups_path:
  assumes "resolve_groups root cid gs = Inr r"
  shows "rc_path r = Some dir \<Longrightarrow> \<exists>grp name. (grp, name, rc_status r) \<in> set gs \<and> dir = [grp, name] \<and>
      safe_directory (node_get root [grp]) \<and> safe_directory (node_get root [grp, name])"
    and "rc_path r = None \<Longrightarrow> rc_status r = DENIED \<or> rc_status r = UNAVAILABLE"
proof -
  show "rc_path r = Some dir \<Longrightarrow> \<exists>grp name. (grp, name, rc_status r) \<in> set gs \<and> dir = [grp, name] \<and>
      safe_directory (node_get root [grp]) \<and> safe_directory (node_get root [grp, name])"
    using assms
  proof (induction root cid gs rule: resolve_groups.induct)
    case (2 root cid grp name status gs)
    then show ?case using node_get_append [of root "[grp]" "[name]"]
      by (auto simp: unresolved_def split: if_splits option.splits) 
  qed (auto simp: unresolved_def)
  show "rc_path r = None \<Longrightarrow> rc_status r = DENIED \<or> rc_status r = UNAVAILABLE"
    using assms by (induction root cid gs rule: resolve_groups.induct) (auto simp: unresolved_def split: if_splits)
qed

lemma resolve_capture_path:
  assumes "resolve_capture spool cid = Inr r"
  shows "rc_path r = Some dir \<Longrightarrow> confined spool cid dir"
    and "rc_path r = Some dir \<Longrightarrow> rc_status r = AVAILABLE \<Longrightarrow> dir = [lit ''captures'', cid]"
    and "rc_path r = None \<Longrightarrow> rc_status r \<noteq> AVAILABLE"
proof -
  let ?gs = "[(lit ''captures'', cid, AVAILABLE), (lit ''partial'', cid @ lit ''.partial'', INCOMPLETE)]"
  have c: "rc_path r = None \<and> rc_status r \<noteq> AVAILABLE \<or>
      (\<exists>root. spool = Some root \<and> valid_capture_id cid \<and> safe_directory spool \<and> resolve_groups root cid ?gs = Inr r)"
    using assms by (auto simp: resolve_capture_def unresolved_def simp del: resolve_groups.simps split: if_splits option.splits)
  then show "rc_path r = None \<Longrightarrow> rc_status r \<noteq> AVAILABLE" using resolve_groups_path(2) by (elim disjE exE conjE) fastforce+
  assume d: "rc_path r = Some dir"
  with c obtain root where root: "spool = Some root" "valid_capture_id cid" "safe_directory spool"
    "resolve_groups root cid ?gs = Inr r" by auto
  from resolve_groups_path(1) [OF root(4) d] obtain g n where gn: "(g, n, rc_status r) \<in> set ?gs" "dir = [g, n]"
    "safe_directory (node_get root [g])" "safe_directory (node_get root [g, n])" by blast
  have "safe_directory (entry_at spool (take k dir))" if "k \<le> length dir" for k
  proof -
    have "k = 0 \<or> k = 1 \<or> k = 2" using that gn(2) by auto
    then show ?thesis using gn root(1,3) by (auto simp: entry_at_def)
  qed
  with gn root(2) show "confined spool cid dir" by (auto simp: confined_def simp del: lit_simps)
  show "rc_status r = AVAILABLE \<Longrightarrow> dir = [lit ''captures'', cid]" using gn by auto
qed

lemma authorize_workspace_ok:
  assumes "authorize_workspace kvs (Some ws) = (AVAILABLE, d)"
  shows "\<exists>source. jget kvs ''source'' = Some (JObj source) \<and> jget source ''workspace_id'' = Some (JStr ws)"
  using assms by (auto simp: authorize_workspace_def split: option.splits json.splits if_splits)

lemma opened_safe [simp]: "safe_file e \<Longrightarrow> opened e = e"
  by (auto simp: safe_file_def opened_def split: option.splits node.splits)

lemma opened_simps [simp]:
  "opened None = None" "opened (Some (File m c)) = Some (File m c)" "opened (Some (Broken m z)) = Some (Broken m z)"
  "safe_file (Some (File m c))" "safe_file (Some (Broken m z))" "\<not> safe_file None"
  by (simp_all add: opened_def safe_file_def)

lemma authorized_manifestD:
  assumes "authorized_manifest spool r ws = Inr (st, manifest, d)"
  obtains "load_manifest spool r = Inr (st, None, d)" "manifest = None"
  | kvs st' d' where "load_manifest spool r = Inr (st', Some kvs, d')" "fst (authorize_workspace kvs ws) = st"
      "st \<noteq> AVAILABLE" "manifest = None"
  | kvs where "load_manifest spool r = Inr (st, Some kvs, d)" "fst (authorize_workspace kvs ws) = AVAILABLE"
      "manifest = Some kvs"
proof -
  obtain st' m' d' where l: "load_manifest spool r = Inr (st', m', d')"
    using assms by (auto simp: authorized_manifest_def bind_r_Inr_iff)
  show ?thesis
  proof (cases m')
    case None
    then show ?thesis using assms l that(1) by (simp add: authorized_manifest_def)
  next
    case (Some kvs)
    obtain a b where "authorize_workspace kvs ws = (a, b)" by (rule prod.exhaust)
    then show ?thesis using assms l Some that(2,3) by (auto simp: authorized_manifest_def split: if_splits)
  qed
qed

lemma authorized_manifest_ws:
  assumes "authorized_manifest spool r (Some ws) = Inr (st, Some kvs, d)"
  shows "\<exists>source. jget kvs ''source'' = Some (JObj source) \<and> jget source ''workspace_id'' = Some (JStr ws)"
  using assms by (rule authorized_manifestD) (auto intro: authorize_workspace_ok simp: prod_eq_iff)

lemma load_manifest_Some:
  assumes "load_manifest spool r = Inr (st, manifest, d)"
  shows "manifest = Some kvs \<Longrightarrow> st = AVAILABLE \<and> d = None \<and> rc_status r = AVAILABLE \<and> (\<exists>dir m content. rc_path r = Some dir \<and>
      entry_at spool (dir @ [lit ''manifest.json'']) = Some (File m content) \<and> json_load content = Inr (JObj kvs))"
    and "manifest = None \<Longrightarrow> st = AVAILABLE \<Longrightarrow> rc_status r = AVAILABLE \<and> rc_path r = None"
  using assms by (auto simp: load_manifest_def simp del: lit_simps
      split: option.splits node.splits sum.splits load_error.splits json.splits if_splits)

lemma authorized_manifest_Some:
  assumes "authorized_manifest spool r ws = Inr (st, manifest, d)"
  shows "manifest = Some kvs \<Longrightarrow> st = AVAILABLE \<and> d = None \<and> rc_status r = AVAILABLE \<and> (\<exists>dir m content. rc_path r = Some dir \<and>
      entry_at spool (dir @ [lit ''manifest.json'']) = Some (File m content) \<and> json_load content = Inr (JObj kvs))"
    and "manifest = None \<Longrightarrow> st = AVAILABLE \<Longrightarrow> rc_status r = AVAILABLE \<and> rc_path r = None"
proof -
  show "st = AVAILABLE \<and> d = None \<and> rc_status r = AVAILABLE \<and> (\<exists>dir m content. rc_path r = Some dir \<and>
      entry_at spool (dir @ [lit ''manifest.json'']) = Some (File m content) \<and> json_load content = Inr (JObj kvs))"
    if "manifest = Some kvs"
    using assms by (rule authorized_manifestD) (use that load_manifest_Some(1) in auto)
  show "rc_status r = AVAILABLE \<and> rc_path r = None" if "manifest = None" "st = AVAILABLE"
    using assms by (rule authorized_manifestD) (use that load_manifest_Some(2) in auto)
qed

text \<open>What every successful retrieval of a capture rests on.\<close>

definition readable_capture :: "node option \<Rightarrow> pystr \<Rightarrow> pystr option \<Rightarrow> bool" where
  "readable_capture spool cid ws \<longleftrightarrow> confined spool cid [lit ''captures'', cid] \<and>
     (\<exists>m content kvs. entry_at spool [lit ''captures'', cid, lit ''manifest.json''] = Some (File m content) \<and>
        json_load content = Inr (JObj kvs) \<and>
        (\<forall>w. ws = Some w \<longrightarrow> (\<exists>source. jget kvs ''source'' = Some (JObj source) \<and>
           jget source ''workspace_id'' = Some (JStr w))))"

lemma authorized_readable:
  assumes r: "resolve_capture spool cid = Inr r" and a: "authorized_manifest spool r ws = Inr (st, manifest, d)"
  shows "manifest = Some kvs \<Longrightarrow> st = AVAILABLE \<and> rc_path r = Some [lit ''captures'', cid] \<and> readable_capture spool cid ws"
    and "st = AVAILABLE \<Longrightarrow> \<exists>kvs. manifest = Some kvs"
proof -
  show "\<exists>kvs. manifest = Some kvs" if "st = AVAILABLE"
    using authorized_manifest_Some(2) [OF a _ that] resolve_capture_path(3) [OF r] by (cases manifest) auto
  assume m: "manifest = Some kvs"
  from authorized_manifest_Some(1) [OF a m] obtain dir f content where
    f: "st = AVAILABLE" "rc_status r = AVAILABLE" "rc_path r = Some dir"
      "entry_at spool (dir @ [lit ''manifest.json'']) = Some (File f content)" "json_load content = Inr (JObj kvs)" by blast
  have dir: "dir = [lit ''captures'', cid]" using resolve_capture_path(2) [OF r f(3,2)] .
  have "confined spool cid dir" using resolve_capture_path(1) [OF r f(3)] .
  moreover have "\<exists>source. jget kvs ''source'' = Some (JObj source) \<and> jget source ''workspace_id'' = Some (JStr w)"
    if "ws = Some w" for w using a that m authorized_manifest_ws by blast
  ultimately show "st = AVAILABLE \<and> rc_path r = Some [lit ''captures'', cid] \<and> readable_capture spool cid ws"
    using f dir unfolding readable_capture_def by (auto simp del: lit_simps)
qed

definition raw_path :: "pystr \<Rightarrow> pystr \<Rightarrow> path" where
  "raw_path cid stream = [lit ''captures'', cid, stream @ lit ''.raw'']"

lemma stream_path_readable:
  assumes r: "resolve_capture spool cid = Inr r" and a: "stream_path spool r stream ws = Inr (st, p, d)"
  shows "p = Some f \<Longrightarrow> st = AVAILABLE \<and> f = raw_path cid stream \<and> readable_capture spool cid ws \<and>
      safe_file (entry_at spool f) \<and> (stream = lit ''stdout'' \<or> stream = lit ''stderr'')"
    and "p = None \<Longrightarrow> st \<noteq> AVAILABLE"
proof -
  have s: "stream = lit ''stdout'' \<or> stream = lit ''stderr''" using a by (auto simp: stream_path_def split: if_splits)
  have c: "p = None \<and> st \<noteq> AVAILABLE \<or>
      (\<exists>st' manifest d' dir. authorized_manifest spool r ws = Inr (st', manifest, d') \<and> st' = AVAILABLE \<and> rc_path r = Some dir \<and>
         (p = None \<and> st \<noteq> AVAILABLE \<or> p = Some (dir @ [stream @ lit ''.raw'']) \<and> st = AVAILABLE \<and>
           safe_file (entry_at spool (dir @ [stream @ lit ''.raw'']))))"
  proof (cases "rc_status r = AVAILABLE")
    case False
    then show ?thesis using a s by (auto simp: stream_path_def simp del: lit_simps)
  next
    case True
    then have "rc_path r \<noteq> None" using resolve_capture_path(3) [OF r] by blast
    then show ?thesis using a s True
      by (auto simp: stream_path_def bind_r_Inr_iff simp del: lit_simps split: if_splits)
  qed
  then show "p = None \<Longrightarrow> st \<noteq> AVAILABLE" by auto
  show "st = AVAILABLE \<and> f = raw_path cid stream \<and> readable_capture spool cid ws \<and>
      safe_file (entry_at spool f) \<and> (stream = lit ''stdout'' \<or> stream = lit ''stderr'')" if "p = Some f"
  proof -
    from c that obtain manifest d' dir where m: "authorized_manifest spool r ws = Inr (AVAILABLE, manifest, d')"
      "rc_path r = Some dir" "f = dir @ [stream @ lit ''.raw'']" "st = AVAILABLE" "safe_file (entry_at spool f)" by auto
    from authorized_readable(2) [OF r m(1)] obtain kvs where "manifest = Some kvs" by blast
    from authorized_readable(1) [OF r m(1) this] m s show ?thesis by (simp add: raw_path_def del: lit_simps)
  qed
qed

lemma safe_fileE:
  assumes "safe_file e" obtains m c where "e = Some (File m c)" | m z where "e = Some (Broken m z)"
  using assms by (auto simp: safe_file_def split: option.splits node.splits)

text \<open>The result of each operation, given the stream it found.\<close>

lemma slice_stream_available:
  assumes "slice_stream spool cid stream start stop max_bytes ws = Inr res" "sl_status res = AVAILABLE"
  shows "readable_capture spool cid ws \<and> 0 \<le> start \<and> start \<le> stop \<and> stop - start \<le> max_bytes \<and>
    ((\<exists>m content. entry_at spool (raw_path cid stream) = Some (File m content) \<and>
        sl_start res = start \<and> sl_end res = min stop (int (length content)) \<and>
        sl_data res = take (nat (stop - start)) (drop (nat start) content)) \<or>
     (\<exists>m z. entry_at spool (raw_path cid stream) = Some (Broken m z) \<and> min stop z \<le> start \<and> sl_data res = []))"
proof -
  from assms(1) obtain r where r: "resolve_capture spool cid = Inr r"
    by (auto simp: slice_stream_def bind_r_Inr_iff split: if_splits)
  from assms(1) r obtain st p d where p: "stream_path spool r stream ws = Inr (st, p, d)"
    by (auto simp: slice_stream_def bind_r_Inr_iff split: if_splits)
  note sp = stream_path_readable [OF r p]
  have b: "0 \<le> start" "start \<le> stop" "stop - start \<le> max_bytes"
    using assms(1) by (auto simp: slice_stream_def split: if_splits)
  obtain f where f: "p = Some f" using assms r p sp(2) b
    by (cases p) (auto simp: slice_stream_def bind_r_Inr_iff split: if_splits)
  note sp = sp(1) [OF f]
  then have "safe_file (entry_at spool (raw_path cid stream))" by blast
  then show ?thesis
  proof (cases rule: safe_fileE)
    case (1 m c)
    have "take (nat (min stop (int (length c)) - start)) (drop (nat start) c) = take (nat (stop - start)) (drop (nat start) c)"
      using b by (auto simp: min_def)
    then show ?thesis using assms r p f sp b 1
      by (auto simp: slice_stream_def bind_r_Inr_iff read_range_def Let_def split: if_splits)
  next
    case (2 m z)
    then show ?thesis using assms r p f sp b
      by (auto simp: slice_stream_def bind_r_Inr_iff Let_def split: if_splits)
  qed
qed

lemma tail_stream_available:
  assumes "tail_stream spool cid stream ln max_bytes ws = Inr res" "tl_status res = AVAILABLE"
  shows "readable_capture spool cid ws \<and> 0 < max_bytes \<and> (\<forall>n. ln = Some n \<longrightarrow> 0 \<le> n) \<and>
    (\<exists>m content. entry_at spool (raw_path cid stream) = Some (File m content) \<and>
        tl_truncated res = (max_bytes < int (length content)) \<and>
        tl_data res = (let data = drop (length content - nat max_bytes) content
                       in case ln of None \<Rightarrow> data | Some n \<Rightarrow> last_lines n data))"
proof -
  from assms(1) obtain r where r: "resolve_capture spool cid = Inr r"
    by (auto simp: tail_stream_def bind_r_Inr_iff split: if_splits)
  from assms(1) r obtain st p d where p: "stream_path spool r stream ws = Inr (st, p, d)"
    by (auto simp: tail_stream_def bind_r_Inr_iff split: if_splits)
  note sp = stream_path_readable [OF r p]
  have b: "0 < max_bytes" "\<forall>n. ln = Some n \<longrightarrow> 0 \<le> n"
    using assms(1) by (auto simp: tail_stream_def split: if_splits)
  have nb: "\<not> (case ln of Some n \<Rightarrow> n < 0 | None \<Rightarrow> False)" using b by (auto split: option.splits)
  obtain f where f: "p = Some f" using assms r p sp(2) b nb
    by (cases p) (auto simp: tail_stream_def bind_r_Inr_iff split: if_splits)
  note sp = sp(1) [OF f]
  then have "safe_file (entry_at spool (raw_path cid stream))" by blast
  then show ?thesis
  proof (cases rule: safe_fileE)
    case (1 m c)
    have "read_range c (max 0 (int (length c) - max_bytes)) (int (length c)) = drop (length c - nat max_bytes) c"
      using b(1) by (auto simp: read_range_def max_def nat_diff_distrib)
    then show ?thesis using assms r p f sp b nb 1
      by (cases ln) (auto simp: tail_stream_def bind_r_Inr_iff Let_def split: if_splits)
  next
    case (2 m z)
    then show ?thesis using assms r p f sp b nb
      by (auto simp: tail_stream_def bind_r_Inr_iff Let_def split: if_splits)
  qed
qed

lemma search_stream_available:
  assumes "search_stream rc spool cid stream pat regex ctx mm ws = Inr res" "sr_status res = AVAILABLE"
  shows "readable_capture spool cid ws \<and> 0 \<le> ctx \<and> ctx \<le> MAX_CONTEXT_BYTES \<and> 0 < mm \<and> mm \<le> int MAX_MATCHES \<and>
    (\<exists>needle positions m content. pattern_bytes pat = Inr needle \<and> needle \<noteq> [] \<and>
       (if regex then rc needle = Some positions else positions = (\<lambda>w. find_all w needle)) \<and>
       entry_at spool (raw_path cid stream) = Some (File m content) \<and>
       (sr_matches res, sr_limited res) = search_loop positions CHUNK_BYTES (match_at content ctx) (nat mm) [] 0 [] content)"
proof -
  from assms(1) obtain needle where n: "pattern_bytes pat = Inr needle"
    by (auto simp: search_stream_def bind_r_Inr_iff)
  then have ne: "needle \<noteq> []" by (auto simp: pattern_bytes_def bind_r_Inr_iff split: if_splits)
  have b: "0 \<le> ctx" "ctx \<le> MAX_CONTEXT_BYTES" "0 < mm" "mm \<le> int MAX_MATCHES"
    using assms(1) by (auto simp: search_stream_def bind_r_Inr_iff split: if_splits)
  have "\<exists>positions. (if regex then (case rc needle of None \<Rightarrow> Inl (ValueError ''invalid regex'') | Some f \<Rightarrow> Inr f)
                  else Inr (\<lambda>window. find_all window needle)) = Inr positions"
    using assms(1) n b by (auto simp: search_stream_def bind_r_Inr_iff)
  then obtain positions where q: "(if regex then (case rc needle of None \<Rightarrow> Inl (ValueError ''invalid regex'') | Some f \<Rightarrow> Inr f)
                  else Inr (\<lambda>window. find_all window needle)) = Inr positions" by blast
  then have pos: "if regex then rc needle = Some positions else positions = (\<lambda>w. find_all w needle)"
    by (auto split: if_splits option.splits)
  note un = search_stream_def [of rc spool cid stream pat regex ctx mm ws, unfolded n bind_r_simps(2) q]
  from assms(1) b obtain r where r: "resolve_capture spool cid = Inr r" by (auto simp: un bind_r_Inr_iff)
  from assms(1) b r obtain st p d where p: "stream_path spool r stream ws = Inr (st, p, d)" by (auto simp: un bind_r_Inr_iff)
  note sp = stream_path_readable [OF r p]
  obtain f where f: "p = Some f" using assms r p sp(2) b by (cases p) (auto simp: un)
  note sp = sp(1) [OF f]
  then have "safe_file (entry_at spool (raw_path cid stream))" by blast
  then show ?thesis
  proof (cases rule: safe_fileE)
    case (1 m c)
    then have "(sr_matches res, sr_limited res) = search_loop positions CHUNK_BYTES (match_at c ctx) (nat mm) [] 0 [] c"
      using assms r p f sp b by (auto simp: un split: prod.splits)
    with 1 n ne pos b sp show ?thesis by blast
  next
    case (2 m z)
    then show ?thesis using assms r p f sp b by (auto simp: un)
  qed
qed

section \<open>Properties of retrieval\<close>

text \<open>A regular file, not a link to one.\<close>

definition regular_file :: "node option \<Rightarrow> bool" where
  "regular_file e \<longleftrightarrow> (\<exists>m c. e = Some (File m c)) \<or> (\<exists>m z. e = Some (Broken m z))"

lemma check_digest_regular:
  "dc_matches (check_digest spool dir (artifact, name, expected)) \<Longrightarrow> regular_file (entry_at spool (dir @ [lit name]))"
  by (auto simp: check_digest_def Let_def regular_file_def elim!: safe_fileE split: if_splits)

lemma verify_capture_regular:
  assumes v: "verify_capture spool cid ws = Inr v" "vr_status v = AVAILABLE"
  shows "readable_capture spool cid ws \<and>
    (\<forall>name \<in> {''stdout.raw'', ''stderr.raw'', ''events.ndjson''}. regular_file (entry_at spool ([lit ''captures'', cid, lit name])))"
proof -
  from v obtain r st m d where r: "resolve_capture spool cid = Inr r" "authorized_manifest spool r ws = Inr (st, m, d)"
    by (auto simp: verify_capture_def bind_r_Inr_iff)
  have "m \<noteq> None" using v r authorized_readable(2) [OF r] by (cases m) (auto simp: verify_capture_def)
  then obtain kvs where m: "m = Some kvs" by blast
  note a = authorized_readable(1) [OF r m]
  from v r m a obtain streams events where
    "list_all dc_matches (map (check_digest spool [lit ''captures'', cid])
       [(''stdout'', ''stdout.raw'', nested_digest streams ''stdout''),
        (''stderr'', ''stderr.raw'', nested_digest streams ''stderr''), (''events'', ''events.ndjson'', jget events ''sha256'')])"
    by (auto simp: verify_capture_def Let_def simp del: lit_simps list.pred_inject list.map split: option.splits json.splits if_splits)
  then have "regular_file (entry_at spool ([lit ''captures'', cid] @ [lit name]))"
    if "name \<in> {''stdout.raw'', ''stderr.raw'', ''events.ndjson''}" for name
    using that by (auto intro: check_digest_regular simp del: lit_simps append.simps)
  with a show ?thesis by (simp del: lit_simps)
qed

lemma stream_regular:
  "slice_stream spool cid stream start stop mb ws = Inr s \<Longrightarrow> sl_status s = AVAILABLE \<Longrightarrow>
     readable_capture spool cid ws \<and> regular_file (entry_at spool (raw_path cid stream))"
  "tail_stream spool cid stream ln mb ws = Inr t \<Longrightarrow> tl_status t = AVAILABLE \<Longrightarrow>
     readable_capture spool cid ws \<and> regular_file (entry_at spool (raw_path cid stream))"
  "search_stream rc spool cid stream pat regex ctx mm ws = Inr f \<Longrightarrow> sr_status f = AVAILABLE \<Longrightarrow>
     readable_capture spool cid ws \<and> regular_file (entry_at spool (raw_path cid stream))"
  unfolding regular_file_def
  by (drule (1) slice_stream_available tail_stream_available search_stream_available, blast)+

lemma inspect_readable:
  assumes i: "inspect_capture spool cid ws = Inr i" "ir_status i = AVAILABLE"
  shows "readable_capture spool cid ws"
proof -
  from i obtain r st m d where r: "resolve_capture spool cid = Inr r" "authorized_manifest spool r ws = Inr (st, m, d)"
    by (auto simp: inspect_capture_def bind_r_Inr_iff)
  have "m \<noteq> None" using i r authorized_readable(2) [OF r] by (cases m) (auto simp: inspect_capture_def)
  then show ?thesis using authorized_readable(1) [OF r] by blast
qed


text \<open>A spool with one finalized capture, for the examples.\<close>

definition example_manifest :: jdict where
  "example_manifest = [(lit ''capture_status'', JStr (lit ''COMPLETE'')), (lit ''source'', JObj [(lit ''workspace_id'', JStr (lit ''w1''))])]"

definition example_spool :: node where
  "example_spool = Dir 448 [(lit ''captures'', Dir 448 [(lit ''c1'', Dir 448
     [(lit ''manifest.json'', File 384 (json_file (JObj example_manifest))),
      (lit ''stdout.raw'', File 384 ''one error two error''), (lit ''stderr.raw'', Broken 384 7)])])]"


text \<open>
  A slice is bounded and exact: it raises on a range that is not half-open and non-negative or is
  longer than \<open>max_bytes\<close>, and otherwise an available slice holds precisely the bytes of the raw file
  in \<open>[start, end)\<close>, cut at the end of the file, never more than \<open>max_bytes\<close> of them.
\<close>

theorem slice_stream_exact:
  assumes "slice_stream spool cid stream start stop max_bytes ws = Inr res" "sl_status res = AVAILABLE"
    and "entry_at spool (raw_path cid stream) = Some (File m content)"
  shows "sl_data res = take (nat (stop - start)) (drop (nat start) content) \<and>
    int (length (sl_data res)) \<le> max_bytes \<and> sl_start res = start \<and> sl_end res = min stop (int (length content)) \<and>
    (stop \<le> int (length content) \<longrightarrow> int (length (sl_data res)) = stop - start)"
  using slice_stream_available [OF assms(1,2)] assms(3) by auto

theorem slice_stream_exact_witness:
  "\<exists>s. slice_stream (Some example_spool) (lit ''c1'') (lit ''stdout'') 14 40 64 None = Inr s \<and> sl_data s = ''error'' \<and> sl_end s = 19"
proof -
  have "(case slice_stream (Some example_spool) (lit ''c1'') (lit ''stdout'') 14 40 64 None of
      Inr s \<Rightarrow> sl_status s = AVAILABLE | Inl e \<Rightarrow> False)" by code_simp
  then obtain s where s: "slice_stream (Some example_spool) (lit ''c1'') (lit ''stdout'') 14 40 64 None = Inr s"
    "sl_status s = AVAILABLE" by (auto split: sum.splits)
  have "entry_at (Some example_spool) (raw_path (lit ''c1'') (lit ''stdout'')) = Some (File 384 ''one error two error'')" by code_simp
  from slice_stream_exact [OF s this] s show ?thesis by simp
qed

lemma split_lines_concat: "concat (split_lines acc b) = acc @ b"
  by (induction acc b rule: split_lines.induct) (auto split: list.splits)

lemma last_lines_suffix: "suffix (last_lines n data) data"
proof -
  have "data = concat (take k (split_lines [] data)) @ concat (drop k (split_lines [] data))" for k
    by (metis append.left_neutral append_take_drop_id concat_append split_lines_concat)
  then show ?thesis by (auto simp: last_lines_def Let_def suffix_def)
qed

text \<open>
  A tail is a suffix of the raw file of at most \<open>max_bytes\<close> bytes; without a line limit it is the
  longest such suffix, with \<open>lines = 0\<close> it is empty, and \<open>truncated\<close> tells exactly whether the file is
  longer than the bound.
\<close>

theorem tail_stream_suffix:
  assumes "tail_stream spool cid stream ln max_bytes ws = Inr res" "tl_status res = AVAILABLE"
  shows "\<exists>m content. entry_at spool (raw_path cid stream) = Some (File m content) \<and>
    suffix (tl_data res) content \<and> int (length (tl_data res)) \<le> max_bytes \<and>
    (tl_truncated res \<longleftrightarrow> max_bytes < int (length content)) \<and>
    (ln = None \<longrightarrow> int (length (tl_data res)) = min max_bytes (int (length content))) \<and>
    (ln = Some 0 \<longrightarrow> tl_data res = []) \<and>
    (\<forall>n. ln = Some n \<longrightarrow> (\<exists>ls. concat ls = drop (length content - nat max_bytes) content \<and>
       tl_data res = concat (drop (length ls - nat n) ls)))"
proof -
  from tail_stream_available [OF assms] obtain m content where c: "0 < max_bytes" "\<forall>n. ln = Some n \<longrightarrow> 0 \<le> n"
    "entry_at spool (raw_path cid stream) = Some (File m content)" "tl_truncated res = (max_bytes < int (length content))"
    "tl_data res = (let data = drop (length content - nat max_bytes) content
       in case ln of None \<Rightarrow> data | Some n \<Rightarrow> last_lines n data)" by blast
  let ?d = "drop (length content - nat max_bytes) content"
  have sd: "suffix (tl_data res) ?d" using c(5) last_lines_suffix by (auto simp: Let_def split: option.splits)
  then have sc: "suffix (tl_data res) content" using suffix_drop suffix_order.trans by blast
  have ld: "int (length ?d) \<le> max_bytes" using c(1) by auto
  have l: "int (length (tl_data res)) \<le> max_bytes" using suffix_length_le [OF sd] ld by linarith
  have "\<exists>ls. concat ls = ?d \<and> tl_data res = concat (drop (length ls - nat n) ls)" if "ln = Some n" for n
  proof (intro exI conjI)
    show "concat (split_lines [] ?d) = ?d" using split_lines_concat [of "[]"] by simp
    show "tl_data res = concat (drop (length (split_lines [] ?d) - nat n) (split_lines [] ?d))"
      using c(5) that by (simp add: last_lines_def Let_def)
  qed
  moreover have "ln = None \<longrightarrow> int (length (tl_data res)) = min max_bytes (int (length content))"
    using c(1,5) by (auto simp: Let_def)
  moreover have "ln = Some 0 \<longrightarrow> tl_data res = []" using c(5) by (auto simp: last_lines_def Let_def)
  ultimately show ?thesis using c(3,4) sc l by blast
qed

theorem tail_stream_suffix_witness:
  "\<exists>t. tail_stream (Some example_spool) (lit ''c1'') (lit ''stdout'') None 5 None = Inr t \<and> suffix (tl_data t) ''one error two error'' \<and>
     length (tl_data t) = 5 \<and> tl_truncated t"
proof -
  have "(case tail_stream (Some example_spool) (lit ''c1'') (lit ''stdout'') None 5 None of
      Inr s \<Rightarrow> tl_status s = AVAILABLE | Inl e \<Rightarrow> False)" by code_simp
  then obtain s where s: "tail_stream (Some example_spool) (lit ''c1'') (lit ''stdout'') None 5 None = Inr s"
    "tl_status s = AVAILABLE" by (auto split: sum.splits)
  have "entry_at (Some example_spool) (raw_path (lit ''c1'') (lit ''stdout'')) = Some (File 384 ''one error two error'')" by code_simp
  with tail_stream_suffix [OF s] s show ?thesis by auto
qed

text \<open>
  C13.  Chunked search is exact: for a literal pattern of at most 64 KiB and one byte, an available
  result lists the first \<open>max_matches\<close> occurrences of the pattern in the whole stream, overlapping
  ones and those that straddle chunk boundaries included, in order and without duplicates, and
  \<open>limited\<close> is set exactly when there are at least \<open>max_matches\<close> of them.  Each context window is a
  part of the stream around its match, at most \<open>2 * context_bytes\<close> longer than the match.
\<close>

theorem search_stream_exact:
  assumes "search_stream rc spool cid stream pat False ctx mm ws = Inr res" "sr_status res = AVAILABLE"
    and "pattern_bytes pat = Inr needle" "length needle \<le> Suc CHUNK_BYTES"
  shows "\<exists>m content. entry_at spool (raw_path cid stream) = Some (File m content) \<and>
    sr_matches res = take (nat mm) (map (\<lambda>i. match_at content ctx i (i + length needle)) (occurrences needle content (length content))) \<and>
    (sr_limited res \<longleftrightarrow> nat mm \<le> length (occurrences needle content (length content))) \<and>
    (\<forall>h \<in> set (sr_matches res). int (length (sm_context h)) \<le> int (length needle) + 2 * ctx)"
proof -
  from search_stream_available [OF assms(1,2)] assms(3) obtain m c where
    c: "needle \<noteq> []" "0 \<le> ctx" "0 < mm" "entry_at spool (raw_path cid stream) = Some (File m c)"
      "(sr_matches res, sr_limited res) = search_loop (\<lambda>w. find_all w needle) CHUNK_BYTES (match_at c ctx) (nat mm) [] 0 [] c"
    by auto
  have "occurrences needle c 0 = []" using c(1) by (cases needle) (auto simp: occurrences_def)
  with search_loop_result [OF c(1) assms(4), of 0 c "[]" "[]" "match_at c ctx" "nat mm"] c(3)
  have e: "search_loop (\<lambda>w. find_all w needle) CHUNK_BYTES (match_at c ctx) (nat mm) [] 0 [] c =
    (take (nat mm) (map (\<lambda>i. match_at c ctx i (i + length needle)) (occurrences needle c (length c))),
     nat mm \<le> length (occurrences needle c (length c)))" by (simp add: CHUNK_BYTES_def)
  have "int (length (sm_context (match_at c ctx i (i + length needle)))) \<le> int (length needle) + 2 * ctx" for i
    using c(2) by (auto simp: match_at_def read_range_def)
  with c(4,5) e show ?thesis by (auto dest!: in_set_takeD)
qed

theorem search_stream_exact_witness:
  "\<exists>s. search_stream (\<lambda>p. None) (Some example_spool) (lit ''c1'') (lit ''stdout'') (BytesPattern ''error'') False 2 9 None = Inr s \<and>
     map sm_start (sr_matches s) = [4, 14] \<and> \<not> sr_limited s"
proof -
  let ?r = "search_stream (\<lambda>p. None) (Some example_spool) (lit ''c1'') (lit ''stdout'') (BytesPattern ''error'') False 2 9 None"
  have "(case ?r of Inr s \<Rightarrow> sr_status s = AVAILABLE | Inl e \<Rightarrow> False)" by code_simp
  then obtain s where s: "?r = Inr s" "sr_status s = AVAILABLE" by (auto split: sum.splits)
  define T where "T = ''one error two error''"
  have f: "entry_at (Some example_spool) (raw_path (lit ''c1'') (lit ''stdout'')) = Some (File 384 T)"
    unfolding T_def by code_simp
  have o: "occurrences ''error'' T (length T) = [4, 14]" unfolding T_def by code_simp
  from search_stream_exact [OF s, of "''error''"] f o s show ?thesis
    by (auto simp: pattern_bytes_def CHUNK_BYTES_def match_at_def)
qed

lemma find_all_long: "length data < length needle \<Longrightarrow> find_all data needle = []"
  unfolding find_all_def find_all_from_filter by (auto simp: filter_empty_conv dest!: prefix_length_le)

text \<open>
  A literal pattern longer than two chunks (128 KiB) is never found, even in a stream that is that
  pattern: the search reports \<open>AVAILABLE\<close> with no match and no limit.
\<close>

theorem search_stream_long_pattern:
  assumes "search_stream rc spool cid stream pat False ctx mm ws = Inr res" "sr_status res = AVAILABLE"
    and "pattern_bytes pat = Inr needle" "2 * CHUNK_BYTES < length needle"
  shows "sr_matches res = [] \<and> \<not> sr_limited res"
proof -
  have loop: "search_loop (\<lambda>w. find_all w needle) CHUNK_BYTES mk m overlap off ms rest = (ms, False)"
    if "length overlap \<le> CHUNK_BYTES" for mk m overlap off ms rest
    using that
  proof (induction rest arbitrary: overlap off rule: length_induct)
    case (1 rest)
    have "find_all (overlap @ take CHUNK_BYTES rest) needle = []"
      using 1(2) assms(4) by (intro find_all_long) auto
    with 1 show ?case by (subst search_loop.simps) (auto simp: CHUNK_BYTES_def Let_def)
  qed
  from search_stream_available [OF assms(1,2)] assms(3) loop [of "[]"] show ?thesis by auto
qed

definition long_spool :: node where
  "long_spool = Dir 448 [(lit ''captures'', Dir 448 [(lit ''c1'', Dir 448
     [(lit ''manifest.json'', File 384 ''{}''),
      (lit ''stdout.raw'', File 384 (replicate (Suc (2 * CHUNK_BYTES)) CHR ''x''))])])]"

theorem search_stream_long_pattern_witness:
  "\<exists>s. search_stream (\<lambda>p. None) (Some long_spool) (lit ''c1'') (lit ''stdout'')
       (BytesPattern (replicate (Suc (2 * CHUNK_BYTES)) CHR ''x'')) False 2 9 None = Inr s \<and>
     sr_status s = AVAILABLE \<and> sr_matches s = []"
proof -
  let ?n = "replicate (Suc (2 * CHUNK_BYTES)) CHR ''x''"
  let ?r = "search_stream (\<lambda>p. None) (Some long_spool) (lit ''c1'') (lit ''stdout'') (BytesPattern ?n) False 2 9 None"
  have "json_load ''{}'' = Inr (JObj [])" by code_simp
  moreover have p: "pattern_bytes (BytesPattern ?n) = Inr ?n" by (simp add: pattern_bytes_def)
  ultimately have "\<exists>s. ?r = Inr s \<and> sr_status s = AVAILABLE"
    by (simp add: search_stream_def MAX_CONTEXT_BYTES_def MAX_MATCHES_def resolve_capture_def valid_capture_id_def
        safe_directory_def safe_file_def long_spool_def os_name_def is_scalar_def stream_path_def authorized_manifest_def
        load_manifest_def authorize_workspace_def entry_at_def Let_def case_prod_beta)
  then obtain s where s: "?r = Inr s" "sr_status s = AVAILABLE" by blast
  from search_stream_long_pattern [OF s p] s show ?thesis by simp
qed

section \<open>Verification against the manifest\<close>

definition digest_holds :: "node option \<Rightarrow> path \<Rightarrow> json option \<Rightarrow> bool" where
  "digest_holds spool p recorded \<longleftrightarrow>
     (\<exists>m content. entry_at spool p = Some (File m content) \<and> recorded = Some (JStr (lit (sha256_hex content))))"

lemma digest_holdsI:
  "entry_at spool p = Some (File m c) \<Longrightarrow> h = sha256_hex c \<Longrightarrow> digest_holds spool p (Some (JStr (lit h)))"
  by (auto simp: digest_holds_def)

lemma check_digest_matches:
  "dc_matches (check_digest spool dir (artifact, filename, expected)) \<longleftrightarrow> digest_holds spool (dir @ [lit filename]) expected"
  by (auto simp: check_digest_def digest_holds_def file_sha256_def Let_def simp del: lit_simps
      split: option.splits node.splits json.splits)

text \<open>The manifest of an existing capture, as the retrieval functions obtain it.\<close>

lemma verify_capture_manifest:
  assumes r: "resolve_capture spool cid = Inr r" "authorized_manifest spool r ws = Inr (AVAILABLE, Some kvs, None)"
    and s: "jget kvs ''streams'' = Some (JObj streams)" "jget kvs ''event_index'' = Some (JObj events)"
  obtains v where "verify_capture spool cid ws = Inr v" "length (vr_checks v) = 3"
    "vr_status v = (if digest_holds spool (raw_path cid (lit ''stdout'')) (nested_digest streams ''stdout'') \<and>
       digest_holds spool (raw_path cid (lit ''stderr'')) (nested_digest streams ''stderr'') \<and>
       digest_holds spool [lit ''captures'', cid, lit ''events.ndjson''] (jget events ''sha256'') then AVAILABLE else TAMPERED)"
proof -
  have dir: "rc_path r = Some [lit ''captures'', cid]" using authorized_readable(1) [OF r refl] by blast
  have l: "lit ''stdout.raw'' = lit ''stdout'' @ lit ''.raw''" "lit ''stderr.raw'' = lit ''stderr'' @ lit ''.raw''" by simp_all
  show ?thesis
    by (rule that [of "the (case verify_capture spool cid ws of Inr v \<Rightarrow> Some v | Inl e \<Rightarrow> None)"])
       (simp_all add: verify_capture_def r s dir check_digest_matches raw_path_def l Let_def del: lit_simps)
qed

text \<open>
  Verification is sound and complete with respect to the manifest: for a capture whose manifest
  records digests, the status is \<open>AVAILABLE\<close> exactly when the two raw streams and the event index are
  regular files whose SHA-256 digests are those the manifest records, and \<open>TAMPERED\<close> otherwise.
\<close>

theorem verify_capture_iff:
  assumes "resolve_capture spool cid = Inr r" "authorized_manifest spool r ws = Inr (AVAILABLE, Some kvs, None)"
    and "jget kvs ''streams'' = Some (JObj streams)" "jget kvs ''event_index'' = Some (JObj events)"
  shows "\<exists>v. verify_capture spool cid ws = Inr v \<and>
    (vr_status v = AVAILABLE \<longleftrightarrow>
       digest_holds spool (raw_path cid (lit ''stdout'')) (nested_digest streams ''stdout'') \<and>
       digest_holds spool (raw_path cid (lit ''stderr'')) (nested_digest streams ''stderr'') \<and>
       digest_holds spool [lit ''captures'', cid, lit ''events.ndjson''] (jget events ''sha256'')) \<and>
    (vr_status v = AVAILABLE \<or> vr_status v = TAMPERED)"
  using assms by (rule verify_capture_manifest) auto

definition tampered_spool :: node where
  "tampered_spool = Dir 448 [(lit ''captures'', Dir 448 [(lit ''c1'', Dir 448
     [(lit ''manifest.json'', File 384 ''{\"streams\": {}, \"event_index\": {}}''), (lit ''stdout.raw'', FileLink ''elsewhere'')])])]"

theorem verify_capture_iff_witness:
  "\<exists>v. verify_capture (Some tampered_spool) (lit ''c1'') None = Inr v \<and> vr_status v = TAMPERED"
proof -
  have r: "resolve_capture (Some tampered_spool) (lit ''c1'') = Inr \<lparr>rc_status = AVAILABLE, rc_capture_id = lit ''c1'',
      rc_path = Some [lit ''captures'', lit ''c1''], rc_detail = None\<rparr>" (is "_ = Inr ?r") by code_simp
  have "json_load ''{\"streams\": {}, \"event_index\": {}}'' = Inr (JObj [(lit ''streams'', JObj []), (lit ''event_index'', JObj [])])"
    by code_simp
  then have a: "authorized_manifest (Some tampered_spool) ?r None =
      Inr (AVAILABLE, Some [(lit ''streams'', JObj []), (lit ''event_index'', JObj [])], None)"
    by (simp add: authorized_manifest_def load_manifest_def authorize_workspace_def tampered_spool_def entry_at_def)
  have "\<not> digest_holds (Some tampered_spool) (raw_path (lit ''c1'') (lit ''stdout'')) d" for d
    by (simp add: digest_holds_def tampered_spool_def entry_at_def raw_path_def)
  with verify_capture_iff [OF r a, of "[]" "[]"] show ?thesis by (auto simp: jget_def)
qed

section \<open>Reading back a capture\<close>

definition finalized_at :: "pystr \<Rightarrow> resolved_capture" where
  "finalized_at cid = \<lparr>rc_status = AVAILABLE, rc_capture_id = cid, rc_path = Some [lit ''captures'', cid], rc_detail = None\<rparr>"

lemma finalized_resolves:
  assumes h: "holds_capture root (final_dir cid) st (JObj M)" and ok: "json_ok (JObj M)" "M \<noteq> []"
    and cid: "valid_capture_id cid" "os_name cid"
  shows "resolve_capture (Some root) cid = Inr (finalized_at cid)"
    and "load_manifest (Some root) (finalized_at cid) = Inr (AVAILABLE, Some (sort_key fst (sort_pairs M)), None)"
proof -
  obtain d where d: "node_get root [lit ''captures'', cid] = Some d" "is_dir d"
    using h by (auto simp: holds_capture_def final_dir_def simp del: lit_simps)
  obtain c where c: "node_get root [lit ''captures''] = Some c" "is_dir c"
    using d node_get_append [of root "[lit ''captures'']" "[cid]"] dir_above [of _ "[cid]" d]
    by (cases "node_get root [lit ''captures'']") (auto simp del: lit_simps)
  have "is_dir root" using dir_above [OF c] .
  then show "resolve_capture (Some root) cid = Inr (finalized_at cid)" using c d cid
    by (auto simp: finalized_at_def resolve_capture_def safe_directory_def is_dir_def simp del: lit_simps)
  have "node_get root [lit ''captures'', cid, lit ''manifest.json''] = Some (File PRIVATE_FILE (json_file (JObj M)))"
    using h by (simp add: holds_capture_def final_dir_def del: lit_simps)
  then show "load_manifest (Some root) (finalized_at cid) = Inr (AVAILABLE, Some (sort_key fst (sort_pairs M)), None)"
    using json_load_dumps [OF ok] by (simp add: finalized_at_def load_manifest_def entry_at_def json_file_def del: lit_simps)
qed

lemma manifest_fields:
  "\<exists>M. manifest_json cid st c fin = JObj M \<and> M \<noteq> [] \<and>
     jget M ''streams'' = Some (JObj [(lit ''stdout'', stream_json (cs_stdout st)), (lit ''stderr'', stream_json (cs_stderr st))]) \<and>
     jget M ''event_index'' = Some (JObj [(lit ''events'', JInt (int (sequence_no st))), (lit ''sha256'', JStr (lit (event_hash st)))]) \<and>
     jget M ''capture_status'' = Some (JStr (status_name (status_of st)))"
  by (simp add: manifest_json_def jget_def)

text \<open>A finalized directory without storage failure verifies, inspects and reads back.\<close>

lemma finalized_readable:
  assumes h: "holds_capture r (final_dir cid) st (manifest_json cid st c fin)" and j: "json_ok (manifest_json cid st c fin)"
    and cid: "valid_capture_id cid" "os_name cid"
  obtains M where "manifest_json cid st c fin = JObj M" "resolve_capture (Some r) cid = Inr (finalized_at cid)"
    "authorized_manifest (Some r) (finalized_at cid) None = Inr (AVAILABLE, Some (sort_key fst (sort_pairs M)), None)"
    "distinct (map fst M)"
proof -
  obtain M where M: "manifest_json cid st c fin = JObj M" "M \<noteq> []" using manifest_fields by metis
  note res = finalized_resolves [OF h [unfolded M(1)] j [unfolded M(1)] M(2) cid]
  then have "authorized_manifest (Some r) (finalized_at cid) None = Inr (AVAILABLE, Some (sort_key fst (sort_pairs M)), None)"
    by (simp add: authorized_manifest_def authorize_workspace_def)
  then show ?thesis using that M(1) res(1) j by simp
qed

lemma finalized_verifies:
  assumes h: "holds_capture r (final_dir cid) st (manifest_json cid st c fin)" and j: "json_ok (manifest_json cid st c fin)"
    and cid: "valid_capture_id cid" "os_name cid"
    and ok: "drain_inv max_bytes rs st" "\<not> capture_failed st"
  shows "\<exists>v. verify_capture (Some r) cid None = Inr v \<and> vr_status v = AVAILABLE"
proof -
  obtain M where M: "manifest_json cid st c fin = JObj M" and res: "resolve_capture (Some r) cid = Inr (finalized_at cid)"
    and auth: "authorized_manifest (Some r) (finalized_at cid) None = Inr (AVAILABLE, Some (sort_key fst (sort_pairs M)), None)"
    and dM: "distinct (map fst M)" by (rule finalized_readable [OF h j cid])
  let ?streams = "[(lit ''stdout'', stream_json (cs_stdout st)), (lit ''stderr'', stream_json (cs_stderr st))]"
  let ?events = "[(lit ''events'', JInt (int (sequence_no st))), (lit ''sha256'', JStr (lit (event_hash st)))]"
  have "jget M ''streams'' = Some (JObj ?streams)" "jget M ''event_index'' = Some (JObj ?events)"
    using manifest_fields [of cid st c fin] M by auto
  then have kvs: "jget (sort_key fst (sort_pairs M)) ''streams'' = Some (JObj (sort_key fst (sort_pairs ?streams)))"
    "jget (sort_key fst (sort_pairs M)) ''event_index'' = Some (JObj (sort_key fst (sort_pairs ?events)))"
    unfolding jget_sorted [OF dM] by (simp_all only: option.map sort_keys.simps)
  have dig: "nested_digest (sort_key fst (sort_pairs ?streams)) ''stdout'' = Some (JStr (lit (writer_sha256 (cs_stdout st))))"
    "nested_digest (sort_key fst (sort_pairs ?streams)) ''stderr'' = Some (JStr (lit (writer_sha256 (cs_stderr st))))"
    "jget (sort_key fst (sort_pairs ?events)) ''sha256'' = Some (JStr (lit (event_hash st)))"
    by (simp_all add: nested_digest_def jget_sorted stream_json_def) (simp_all add: jget_def)
  have files: "entry_at (Some r) (raw_path cid (lit ''stdout'')) = Some (File PRIVATE_FILE (sw_content (cs_stdout st)))"
    "entry_at (Some r) (raw_path cid (lit ''stderr'')) = Some (File PRIVATE_FILE (sw_content (cs_stderr st)))"
    "entry_at (Some r) [lit ''captures'', cid, lit ''events.ndjson''] = Some (File PRIVATE_FILE (utf8_encode (event_content st)))"
    using h by (simp_all add: holds_capture_def final_dir_def entry_at_def raw_path_def)
  have "event_content st = concat (map event_line (event_log st))"
    using ok by (auto simp: drain_inv_def total_inv_def)
  then have held: "digest_holds (Some r) (raw_path cid (lit ''stdout'')) (Some (JStr (lit (writer_sha256 (cs_stdout st)))))"
    "digest_holds (Some r) (raw_path cid (lit ''stderr'')) (Some (JStr (lit (writer_sha256 (cs_stderr st)))))"
    "digest_holds (Some r) [lit ''captures'', cid, lit ''events.ndjson''] (Some (JStr (lit (event_hash st))))"
    using not_failed_content [OF ok, of Stdout] not_failed_content [OF ok, of Stderr]
    by (auto intro!: digest_holdsI files simp: writer_sha256_def event_hash_def both_streams simp del: lit_simps)
  obtain v where "verify_capture (Some r) cid None = Inr v" "vr_status v = AVAILABLE"
    by (rule verify_capture_manifest [OF res auth kvs, unfolded dig]) (simp only: held simp_thms if_True)
  then show ?thesis by blast
qed

lemma finalized_inspects:
  assumes h: "holds_capture r (final_dir cid) st (manifest_json cid st c fin)" and j: "json_ok (manifest_json cid st c fin)"
    and cid: "valid_capture_id cid" "os_name cid"
  shows "\<exists>i. inspect_capture (Some r) cid None = Inr i \<and> ir_status i = AVAILABLE \<and>
      ir_capture_status i = Some (status_name (status_of st))"
proof -
  obtain M where M: "manifest_json cid st c fin = JObj M" and res: "resolve_capture (Some r) cid = Inr (finalized_at cid)"
    and auth: "authorized_manifest (Some r) (finalized_at cid) None = Inr (AVAILABLE, Some (sort_key fst (sort_pairs M)), None)"
    and dM: "distinct (map fst M)" by (rule finalized_readable [OF h j cid])
  have "jget M ''capture_status'' = Some (JStr (status_name (status_of st)))"
    using manifest_fields [of cid st c fin] M by auto
  then show ?thesis using res auth by (simp add: inspect_capture_def jget_sorted [OF dM])
qed

lemma finalized_range:
  assumes h: "holds_capture r (final_dir cid) st (manifest_json cid st c fin)" and j: "json_ok (manifest_json cid st c fin)"
    and cid: "valid_capture_id cid" "os_name cid" and n: "stop \<le> int (length (sw_content (writer_of s st)))"
    and range: "0 \<le> start" "start \<le> stop" "stop - start \<le> limit" "0 < limit"
  shows "\<exists>sl. slice_stream (Some r) cid (stream_name s) start stop limit None = Inr sl \<and>
      sl_status sl = AVAILABLE \<and> sl_data sl = read_range (sw_content (writer_of s st)) start stop"
proof -
  obtain M where res: "resolve_capture (Some r) cid = Inr (finalized_at cid)"
    and auth: "authorized_manifest (Some r) (finalized_at cid) None = Inr (AVAILABLE, Some (sort_key fst (sort_pairs M)), None)"
    by (rule finalized_readable [OF h j cid])
  have raw: "entry_at (Some r) (raw_path cid (stream_name s)) = Some (File PRIVATE_FILE (sw_content (writer_of s st)))"
    using h by (cases s) (simp_all add: holds_capture_def final_dir_def entry_at_def raw_path_def stream_name_def writer_of_def)
  then have "stream_path (Some r) (finalized_at cid) (stream_name s) None = Inr (AVAILABLE, Some (raw_path cid (stream_name s)), None)"
    using auth by (cases s) (simp_all add: stream_path_def finalized_at_def raw_path_def stream_name_def)
  then show ?thesis unfolding slice_stream_def Let_def using res raw n range
    by (simp add: read_range_def del: lit_simps)
qed

lemma finalized_slices:
  assumes h: "holds_capture r (final_dir cid) st (manifest_json cid st c fin)" and j: "json_ok (manifest_json cid st c fin)"
    and cid: "valid_capture_id cid" "os_name cid" and n: "n = int (length (sw_content (writer_of s st)))" "n \<le> limit" "0 < limit"
  shows "\<exists>sl. slice_stream (Some r) cid (stream_name s) 0 n limit None = Inr sl \<and>
      sl_status sl = AVAILABLE \<and> sl_data sl = sw_content (writer_of s st)"
  using finalized_range [OF h j cid, of n s 0 limit] n by (simp add: read_range_def)

lemma retained_counts:
  assumes "drain_inv max_bytes reads st" "\<not> capture_failed st"
  shows "res_stdout_bytes (capture_result_of cid st c) = int (length (sw_content (cs_stdout st)))"
    "res_stderr_bytes (capture_result_of cid st c) = int (length (sw_content (cs_stderr st)))"
    "prefix (sw_content (cs_stdout st)) (stream_bytes Stdout reads)" "prefix (sw_content (cs_stderr st)) (stream_bytes Stderr reads)"
  using assms not_failed_content [OF assms, of Stdout] not_failed_content [OF assms, of Stderr]
  by (simp_all add: drain_inv_def stream_inv_def capture_result_of_def both_streams)

text \<open>
  C11.  Captures round-trip through the spool: after a run of \<open>capture_command\<close> that ends with a status
  other than \<open>CAPTURE_FAILED\<close>, whose id is a single file name and whose manifest can be printed, the
  capture verifies as \<open>AVAILABLE\<close>, inspection reports the status of the run, and for each of the two
  streams a slice over the whole retained stream, within the caller's limit, returns the retained
  bytes, which are a prefix of what the command wrote there.
\<close>

theorem capture_reads_back:
  assumes c: "capture_command argv max_bytes required env root = (Some r, Inr res)"
    and ok: "res_capture_status res \<noteq> CAPTURE_FAILED"
    and cid: "valid_capture_id (env_capture_id env)" "os_name (env_capture_id env)"
    and j: "json_ok (manifest_json (env_capture_id env) (drain_all max_bytes required (env_reads env)) (command_of env) (env_finished_ns env))"
    and n: "res_stdout_bytes res \<le> limit" "res_stderr_bytes res \<le> limit" "0 < limit"
  shows "\<exists>v i out err. verify_capture (Some r) (env_capture_id env) None = Inr v \<and> vr_status v = AVAILABLE \<and>
    inspect_capture (Some r) (env_capture_id env) None = Inr i \<and> ir_status i = AVAILABLE \<and>
    ir_capture_status i = Some (status_name (res_capture_status res)) \<and>
    slice_stream (Some r) (env_capture_id env) (lit ''stdout'') 0 (res_stdout_bytes res) limit None = Inr out \<and> sl_status out = AVAILABLE \<and>
    sl_data out = sw_content (cs_stdout (drain_all max_bytes required (env_reads env))) \<and> prefix (sl_data out) (stream_bytes Stdout (env_reads env)) \<and>
    slice_stream (Some r) (env_capture_id env) (lit ''stderr'') 0 (res_stderr_bytes res) limit None = Inr err \<and> sl_status err = AVAILABLE \<and>
    sl_data err = sw_content (cs_stderr (drain_all max_bytes required (env_reads env))) \<and> prefix (sl_data err) (stream_bytes Stderr (env_reads env))"
proof -
  define cid where "cid = env_capture_id env"
  from c obtain r' st where s: "Some r = Some r'" "0 \<le> max_bytes" "st = drain_all max_bytes required (env_reads env)"
    "drain_inv max_bytes (env_reads env) st" "res = capture_result_of cid st (command_of env)"
    "holds_capture r' (final_dir cid) st (manifest_json cid st (command_of env) (env_finished_ns env))"
    unfolding cid_def by (rule capture_command_spool)
  have h: "holds_capture r (final_dir cid) st (manifest_json cid st (command_of env) (env_finished_ns env))" using s(1,6) by simp
  note jj = j [folded cid_def s(3)] and cc = cid [folded cid_def]
  have nf: "\<not> capture_failed st" using ok s(5) by (auto simp: capture_result_of_def status_of_def split: if_splits)
  note b = retained_counts(1,2) [OF s(4) nf, of cid "command_of env", folded s(5)] retained_counts(3,4) [OF s(4) nf]
  have "res_capture_status res = status_of st" using s(5) by (simp add: capture_result_of_def)
  with finalized_verifies [OF h jj cc s(4) nf] finalized_inspects [OF h jj cc] b
    finalized_slices [OF h jj cc, of _ Stdout, unfolded writer_of_def stream_name_def stream.case, OF b(1) n(1,3)]
    finalized_slices [OF h jj cc, of _ Stderr, unfolded writer_of_def stream_name_def stream.case, OF b(2) n(2,3)]
  show ?thesis unfolding cid_def [symmetric] s(3) [symmetric] by auto
qed

lemma manifest_ok:
  assumes "list_all is_scalar cid" "json_ok (command_json c)" "list_all (\<lambda>x. json_ok (JInt x)) (cr_signals_sent c)" "json_ok (JInt fin)"
    and "json_ok (JInt (retained_bytes (cs_stdout st)))" "json_ok (JInt (retained_bytes (cs_stderr st)))" "json_ok (JInt (int (sequence_no st)))"
  shows "json_ok (manifest_json cid st c fin)"
  using assms(1-3) assms(4-) [unfolded json_ok.simps]
  by (simp add: manifest_json_def stream_json_def status_name_def items_ok_iff list_all_iff lit_eq_iff
      lit_scalar [unfolded list_all_iff] del: lit_simps split: capture_status.splits)

theorem capture_reads_back_witness:
  "\<exists>r res s e. capture_command example_argv 3 False example_env None = (Some r, Inr res) \<and> res_capture_status res = TRUNCATED \<and>
     slice_stream (Some r) (lit ''c1'') (lit ''stdout'') 0 (res_stdout_bytes res) 10 None = Inr s \<and> sl_data s = ''ab'' \<and>
     slice_stream (Some r) (lit ''c1'') (lit ''stderr'') 0 (res_stderr_bytes res) 10 None = Inr e \<and> sl_status e = AVAILABLE"
proof -
  let ?st = "drain_all 3 False (env_reads example_env)"
  have v: "validate_argv example_argv = Inr [lit ''ls'']" by code_simp
  obtain r where r: "capture_command example_argv 3 False example_env None =
      (Some r, Inr (capture_result_of (lit ''c1'') ?st (command_of example_env)))"
    using fresh_capture [of example_env example_argv _ 3 False, OF _ _ _ _ v] by (auto simp: example_env_def)
  have st: "status_of ?st = TRUNCATED" "retained_bytes (cs_stdout ?st) = 2" "sw_content (cs_stdout ?st) = ''ab''"
    "json_ok (JInt (retained_bytes (cs_stdout ?st)))" "json_ok (JInt (retained_bytes (cs_stderr ?st)))"
    "json_ok (JInt (int (sequence_no ?st)))" "json_ok (command_json (command_of example_env))"
    "valid_capture_id (env_capture_id example_env)" "os_name (env_capture_id example_env)"
    "list_all is_scalar (env_capture_id example_env)" "json_ok (JInt (env_finished_ns example_env))"
    "list_all (\<lambda>x. json_ok (JInt x)) (cr_signals_sent (command_of example_env))" "retained_bytes (cs_stderr ?st) \<le> 10" by code_simp+
  have j: "json_ok (manifest_json (env_capture_id example_env) ?st (command_of example_env) (env_finished_ns example_env))"
    by (intro manifest_ok st)
  show ?thesis
    using capture_reads_back [OF r _ st(8,9) j, of 10] r st(1-3,13)
    by (auto simp: capture_result_of_def example_env_def simp del: lit_simps)
qed

definition long_number_spool :: node where
  "long_number_spool = Dir 448 [(lit ''captures'', Dir 448 [(lit ''c1'', Dir 448
     [(lit ''manifest.json'', File 384 (replicate 4301 CHR ''1''))])])]"

lemma json_load_ones:
  assumes "MAX_INT_DIGITS < n" shows "json_load (replicate n CHR ''1'') = Inl TooLongError"
proof -
  obtain k where n: "n = Suc (Suc k)" using assms by (auto simp: MAX_INT_DIGITS_def dest!: less_imp_Suc_add)
  let ?t = "replicate n (49 :: nat)"
  have "utf8_encode_char 49 = ''1''" by code_simp
  then have b: "utf8_encode ?t = replicate n CHR ''1''" by (induction n) simp_all
  have "decode_bytes (utf8_encode ?t) = Some ?t" by (rule decode_ascii) (auto simp: ascii_text_def n)
  moreover have "takeWhile is_digit ?t = ?t" by (simp add: is_digit_def)
  then have "parse_atom ?t = Inl IntTooLong" using assms
    by (simp add: parse_atom_def take_literal_def parse_number_def parse_fraction_def parse_exponent_def Let_def n)
  then have "loads ?t = Inl IntTooLong" by (simp add: loads_def skip_ws_def is_ws_def n parse_value.simps)
  ultimately show ?thesis by (simp add: json_load_def b)
qed

text \<open>
  Two malformed inputs escape as an exception where the interface promises a status: a capture id
  with a null character raises \<open>ValueError\<close> instead of \<open>DENIED\<close>, and a manifest with an integer of more
  than 4300 digits raises \<open>ValueError\<close> instead of \<open>TAMPERED\<close>.
\<close>

theorem retrieval_escaping_errors:
  "inspect_capture (Some long_number_spool) (lit ''c'' @ [0]) None = Inl (ValueError ''embedded null byte'') \<and>
   inspect_capture (Some long_number_spool) (lit ''c1'') None =
     Inl (ValueError ''Exceeds the limit for integer string conversion'')"
proof
  show "inspect_capture (Some long_number_spool) (lit ''c'' @ [0]) None = Inl (ValueError ''embedded null byte'')"
    by (simp add: inspect_capture_def resolve_capture_def valid_capture_id_def safe_directory_def os_name_def long_number_spool_def)
  show "inspect_capture (Some long_number_spool) (lit ''c1'') None =
     Inl (ValueError ''Exceeds the limit for integer string conversion'')"
    using json_load_ones [of 4301]
    by (simp add: inspect_capture_def resolve_capture_def valid_capture_id_def safe_directory_def os_name_def long_number_spool_def
        is_scalar_def authorized_manifest_def load_manifest_def entry_at_def MAX_INT_DIGITS_def)
qed

end
