(* ===== verification/Formats.thy ===== *)
theory Formats
  imports Serialization
begin

text \<open>
  The textual formats the contracts share: portable identifiers, \<open>sha256:<hex>\<close> digests, secret
  references, and the canonical JSON encoding \<open>json.dumps(sort_keys=True, separators=(",", ":"),
  ensure_ascii=False, allow_nan=False).encode("utf-8")\<close> that every digest of the control plane and of the
  extension protocol is taken over.  Each format is the full match of the regular expression the
  source compiles; the classes contain no newline, so \<open>$\<close> adds nothing.
\<close>

section \<open>Character classes\<close>

definition is_lower :: "nat \<Rightarrow> bool" where "is_lower c \<longleftrightarrow> 97 \<le> c \<and> c \<le> 122"
definition is_upper :: "nat \<Rightarrow> bool" where "is_upper c \<longleftrightarrow> 65 \<le> c \<and> c \<le> 90"

definition is_alnum :: "nat \<Rightarrow> bool" where
  "is_alnum c \<longleftrightarrow> is_lower c \<or> is_upper c \<or> is_digit c"

text \<open>\<open>[A-Za-z0-9][A-Za-z0-9<extra>]{0,limit}\<close>\<close>

definition portable :: "string \<Rightarrow> nat \<Rightarrow> pystr \<Rightarrow> bool" where
  "portable extra limit s \<longleftrightarrow>
     (case s of [] \<Rightarrow> False
      | c # r \<Rightarrow> is_alnum c \<and> length r \<le> limit \<and> list_all (\<lambda>x. is_alnum x \<or> x \<in> set (lit extra)) r)"

text \<open>\<open>sha256:[a-f0-9]{64}\<close>\<close>

definition is_hex :: "nat \<Rightarrow> bool" where
  "is_hex c \<longleftrightarrow> is_digit c \<or> 97 \<le> c \<and> c \<le> 102"

definition is_digest :: "pystr \<Rightarrow> bool" where
  "is_digest s \<longleftrightarrow> take 7 s = lit ''sha256:'' \<and> length s = 71 \<and> list_all is_hex (drop 7 s)"

text \<open>\<open>secret://[A-Za-z0-9._:/-]+\<close>\<close>

definition is_secret_ref :: "pystr \<Rightarrow> bool" where
  "is_secret_ref s \<longleftrightarrow> take 9 s = lit ''secret://'' \<and> drop 9 s \<noteq> [] \<and>
     list_all (\<lambda>c. is_alnum c \<or> c \<in> set (lit ''._:/-'')) (drop 9 s)"

text \<open>\<open>str.split\<close> with a one-character separator.\<close>

fun split_on :: "nat \<Rightarrow> pystr \<Rightarrow> pystr list" where
  "split_on sep [] = [[]]"
| "split_on sep (c # s) =
     (if c = sep then [] # split_on sep s
      else case split_on sep s of p # ps \<Rightarrow> (c # p) # ps | [] \<Rightarrow> [[c]])"

lemma split_on_nonempty [simp]: "split_on sep s \<noteq> []"
  by (induction s) (auto split: list.splits)

text \<open>\<open>PurePosixPath\<close>: empty and \<open>.\<close> components disappear, \<open>..\<close> stays.\<close>

definition path_parts :: "pystr \<Rightarrow> pystr list" where
  "path_parts s = filter (\<lambda>p. p \<noteq> [] \<and> p \<noteq> lit ''.'') (split_on 47 s)"

definition path_absolute :: "pystr \<Rightarrow> bool" where
  "path_absolute s \<longleftrightarrow> prefix (lit ''/'') s"

fun join_with :: "nat \<Rightarrow> pystr list \<Rightarrow> pystr" where
  "join_with sep [] = []"
| "join_with sep [p] = p"
| "join_with sep (p # ps) = p @ sep # join_with sep ps"

section \<open>Canonical encoding and digests\<close>

definition encode_json :: "json \<Rightarrow> bytes option" where
  "encode_json v =
     (if encodable v \<and> list_all is_scalar (dumps False v) then Some (utf8_encode (dumps False v)) else None)"

definition digest_of :: "bytes \<Rightarrow> pystr" where
  "digest_of b = lit ''sha256:'' @ lit (sha256_hex b)"

lemma encode_json_ok: "json_ok v \<Longrightarrow> encode_json v = Some (utf8_encode (dumps False v))"
  by (simp add: encode_json_def json_ok_finite dumps_def print_json_scalar sort_keys_ok)

lemma encode_json_inject:
  assumes "json_ok v" "json_ok w" "encode_json v = encode_json w" shows "sort_keys v = sort_keys w"
proof -
  have "utf8_decode (utf8_encode (dumps False u)) = dumps False u" if "json_ok u" for u
  proof (rule utf8_decode_encode)
    fix c assume "c \<in> set (dumps False u)"
    then show "is_scalar c" using print_json_scalar [OF sort_keys_ok [OF that]] by (simp add: dumps_def list_all_iff)
  qed
  then have "dumps False v = dumps False w" using assms by (metis encode_json_ok option.inject)
  then show ?thesis using assms dumps_inject by blast
qed

lemma hex_digits_ok: "list_all is_hex (lit (sha256_hex b))"
proof -
  have "\<forall>c \<in> set (sha256_hex b). is_hex (of_char c)"
    using sha256_hex_digits [of b] by (auto simp: is_hex_def is_digit_def)
  then show ?thesis by (auto simp: lit_def list_all_iff)
qed

lemma digest_of_ok: "is_digest (digest_of b)"
  using hex_digits_ok [of b] by (simp add: is_digest_def digest_of_def length_sha256_hex)

lemma digest_scalar:
  assumes "is_digest d" shows "list_all is_scalar d"
proof -
  have "take 7 d = lit ''sha256:''" "list_all is_hex (drop 7 d)" using assms by (simp_all add: is_digest_def del: lit_simps)
  moreover have "is_hex x \<Longrightarrow> is_scalar x" for x by (auto simp: is_hex_def is_scalar_def is_digit_def)
  ultimately have "list_all is_scalar (take 7 d)" "list_all is_scalar (drop 7 d)"
    by (simp_all only: lit_scalar) (metis list.pred_mono_strong)
  then have "list_all is_scalar (take 7 d @ drop 7 d)" by (simp only: list_all_append)
  then show ?thesis by (simp only: append_take_drop_id)
qed

end
