(* ===== verification/DateTime.thy ===== *)
theory DateTime
  imports Json
begin

text \<open>
  What the control plane uses of Python's \<open>datetime\<close>: \<open>fromisoformat\<close>, \<open>astimezone(UTC)\<close>,
  \<open>isoformat(timespec="milliseconds")\<close> and adding a \<open>timedelta\<close>, after the compiled implementation of
  Python 3.12, including its leniency about a character left over before the offset.  A datetime is
  its local time in microseconds since 0001-01-01T00:00 with its UTC offset, if it has one.  Leaving
  the years 1 to 9999 is an \<open>OverflowError\<close>.  Shown: the calendar conversions are inverse to each
  other and a printed time is read back, cut to milliseconds.
\<close>

section \<open>The proleptic Gregorian calendar\<close>

definition is_leap :: "nat \<Rightarrow> bool" where
  "is_leap y \<longleftrightarrow> y mod 4 = 0 \<and> (y mod 100 \<noteq> 0 \<or> y mod 400 = 0)"

definition days_before_year :: "nat \<Rightarrow> nat" where
  "days_before_year year = (let y = year - 1 in y * 365 + y div 4 - y div 100 + y div 400)"

definition month_days :: "nat list" where
  "month_days = [31, 28, 31, 30, 31, 30, 31, 31, 30, 31, 30, 31]"

definition days_in_month :: "nat \<Rightarrow> nat \<Rightarrow> nat" where
  "days_in_month y m = (if m = 2 \<and> is_leap y then 29 else month_days ! (m - 1))"

definition days_before_month :: "nat \<Rightarrow> nat \<Rightarrow> nat" where
  "days_before_month y m = sum_list (take (m - 1) month_days) + (if 2 < m \<and> is_leap y then 1 else 0)"

definition ymd2ord :: "nat \<Rightarrow> nat \<Rightarrow> nat \<Rightarrow> nat" where
  "ymd2ord y m d = days_before_year y + days_before_month y m + d"

definition valid_date :: "nat \<Rightarrow> nat \<Rightarrow> nat \<Rightarrow> bool" where
  "valid_date y m d \<longleftrightarrow> 1 \<le> y \<and> y \<le> 9999 \<and> 1 \<le> m \<and> m \<le> 12 \<and> 1 \<le> d \<and> d \<le> days_in_month y m"

definition ord2ymd :: "nat \<Rightarrow> nat \<times> nat \<times> nat" where
  "ord2ymd ordinal =
     (let n = ordinal - 1; n400 = n div 146097; n = n mod 146097;
          n100 = n div 36524; n = n mod 36524; n4 = n div 1461; n = n mod 1461; n1 = n div 365; n = n mod 365;
          year = n400 * 400 + 1 + n100 * 100 + n4 * 4 + n1
      in if n1 = 4 \<or> n100 = 4 then (year - 1, 12, 31)
         else let leap = (n1 = 3 \<and> (n4 \<noteq> 24 \<or> n100 = 3));
                  before = (\<lambda>m. sum_list (take (m - 1) month_days) + (if 2 < m \<and> leap then 1 else 0));
                  month = (n + 50) div 32;
                  month = (if n < before month then month - 1 else month)
              in (year, month, n - before month + 1))"

definition MAXORDINAL :: nat where "MAXORDINAL = 3652059"

definition isoweek1monday :: "nat \<Rightarrow> nat" where
  "isoweek1monday y = (let firstday = ymd2ord y 1 1; firstweekday = (firstday + 6) mod 7
     in firstday - firstweekday + (if 3 < firstweekday then 7 else 0))"

definition isoweek_ordinal :: "nat \<Rightarrow> nat \<Rightarrow> nat \<Rightarrow> nat option" where
  "isoweek_ordinal y w d =
     (let first = ymd2ord y 1 1 mod 7;
          long = (first = 4 \<or> first = 3 \<and> is_leap y);
          ordinal = isoweek1monday y + (w - 1) * 7 + (d - 1)
      in if \<not> (1 \<le> y \<and> y \<le> 9999) \<or> \<not> (1 \<le> w \<and> (w \<le> 52 \<or> w = 53 \<and> long)) \<or> \<not> (1 \<le> d \<and> d \<le> 7) then None
         else if MAXORDINAL < ordinal then None else Some ordinal)"

section \<open>Reading ISO 8601 text\<close>

record datetime =
  dt_local :: int
  dt_offset :: "int option"

definition num :: "nat \<Rightarrow> pystr \<Rightarrow> nat option" where
  "num n s = (if n \<le> length s \<and> list_all is_digit (take n s) then Some (digits_value (take n s)) else None)"

text \<open>Where the date ends in a text of at least seven characters.\<close>

definition separator_location :: "pystr \<Rightarrow> nat option" where
  "separator_location s =
     (if length s = 7 then Some 7
      else if s ! 4 = 45 then
        (if s ! 5 = 87 then
           (if 8 < length s \<and> s ! 8 = 45 then
              (if length s = 9 then None else if 10 < length s \<and> is_digit (s ! 10) then Some 8 else Some 10)
            else Some 8)
         else Some 10)
      else if s ! 4 = 87 then
        (let idx = 7 + length (takeWhile is_digit (drop 7 s))
         in if idx < 9 then Some idx else if idx mod 2 = 0 then Some 7 else Some 8)
      else Some 8)"

definition dash_agrees :: "bool \<Rightarrow> pystr \<Rightarrow> bool" where
  "dash_agrees has_sep s \<longleftrightarrow> (take 1 s = [45]) = has_sep"

text \<open>The date part, as an ordinal.\<close>

definition parse_date :: "pystr \<Rightarrow> nat option" where
  "parse_date s =
     (case num 4 s of
        None \<Rightarrow> None
      | Some year \<Rightarrow>
          (let has_sep = (take 1 (drop 4 s) = [45]);
               skip = (if has_sep then 1 else 0);
               r = drop (4 + skip) s
           in if take 1 r = [87] then
                (case num 2 (drop 1 r) of
                   None \<Rightarrow> None
                 | Some week \<Rightarrow>
                     (let r = drop 3 r in
                      if r = [] then isoweek_ordinal year week 1
                      else if \<not> dash_agrees has_sep r then None
                      else case num 1 (drop skip r) of None \<Rightarrow> None | Some day \<Rightarrow> isoweek_ordinal year week day))
              else
                (case num 2 r of
                   None \<Rightarrow> None
                 | Some month \<Rightarrow>
                     (let r = drop 2 r in
                      if \<not> dash_agrees has_sep r then None
                      else case num 2 (drop skip r) of
                          None \<Rightarrow> None
                        | Some day \<Rightarrow> if valid_date year month day then Some (ymd2ord year month day) else None))))"

text \<open>
  \<open>HH[:?MM[:?SS]]\<close> and the fraction, as the compiled implementation reads them: \<open>i\<close> components are
  read, \<open>sep\<close> tells whether the first was followed by a colon.  The flag of the result tells whether
  the text was consumed; a single character after a component, or anything after six digits of
  fraction, is left over.
\<close>

definition read_fraction :: "pystr \<Rightarrow> (nat \<times> bool) option" where
  "read_fraction f = (let k = min 6 (length f) in
     if list_all is_digit (take k f)
     then Some (digits_value (take k f) * 10 ^ (6 - k), dropWhile is_digit (drop k f) = []) else None)"

fun read_clock :: "nat \<Rightarrow> bool \<Rightarrow> nat list \<Rightarrow> pystr \<Rightarrow> (nat list \<times> bool) option" where
  "read_clock 0 sep vals r = map_option (\<lambda>(us, clean). (vals @ [us], clean)) (read_fraction r)"
| "read_clock (Suc i) sep vals r =
     (case num 2 r of
        None \<Rightarrow> None
      | Some v \<Rightarrow>
          (let vals = vals @ [v]; fill = (\<lambda>vs. vs @ replicate (4 - length vs) 0) in
           case drop 2 r of
             [] \<Rightarrow> Some (fill vals, True)
           | c # rest \<Rightarrow>
               (let sep = (if i = 2 then c = 58 else sep) in
                if rest = [] then Some (fill vals, False)
                else if sep \<and> c = 58 then read_clock i sep vals rest
                else if c = 46 \<or> c = 44 then
                  map_option (\<lambda>(us, clean). (take 3 (fill vals) @ [us], clean)) (read_fraction rest)
                else if \<not> sep then read_clock i sep vals (c # rest)
                else None)))"

definition parse_clock :: "pystr \<Rightarrow> ((nat \<times> nat \<times> nat \<times> nat) \<times> bool) option" where
  "parse_clock t = map_option (\<lambda>(v, clean). ((v ! 0, v ! 1, v ! 2, v ! 3), clean)) (read_clock 3 False [] t)"

definition clock_us :: "nat \<times> nat \<times> nat \<times> nat \<Rightarrow> int" where
  "clock_us c = (case c of (h, m, s, us) \<Rightarrow> ((int h * 60 + int m) * 60 + int s) * 1000000 + int us)"

definition DAY_US :: int where "DAY_US = 86400000000"

definition zone_index :: "pystr \<Rightarrow> nat option" where
  "zone_index t = (let n = length (takeWhile (\<lambda>c. c \<notin> {43, 45, 90}) t) in if n < length t then Some n else None)"

definition parse_zone :: "nat \<Rightarrow> pystr \<Rightarrow> int option" where
  "parse_zone sign z =
     (case parse_clock z of
        Some ((h, m, s, us), True) \<Rightarrow>
          (let c = (h, m, s, if h = 0 \<and> m = 0 \<and> s = 0 then 0 else us); off = (if sign = 45 then - clock_us c else clock_us c) in if \<bar>off\<bar> < DAY_US then Some off else None)
      | _ \<Rightarrow> None)"

text \<open>The time part: microseconds since midnight and the offset.\<close>

definition parse_time :: "pystr \<Rightarrow> (int \<times> int option) option" where
  "parse_time t =
     (case parse_clock (case zone_index t of Some z \<Rightarrow> take z t | None \<Rightarrow> t) of
        None \<Rightarrow> None
      | Some ((h, m, s, us), clean) \<Rightarrow>
          if 23 < h \<or> 59 < m \<or> 59 < s then None
          else case zone_index t of
              None \<Rightarrow> if clean then Some (clock_us (h, m, s, us), None) else None
            | Some z \<Rightarrow>
                if t ! z = 90 then (if Suc z = length t then Some (clock_us (h, m, s, us), Some 0) else None)
                else map_option (\<lambda>off. (clock_us (h, m, s, us), Some off)) (parse_zone (t ! z) (drop (Suc z) t)))"

definition fromisoformat :: "pystr \<Rightarrow> datetime option" where
  "fromisoformat s =
     (if length s < 7 then None
      else case separator_location s of
          None \<Rightarrow> None
        | Some loc \<Rightarrow>
            (case parse_date (take loc s) of
               None \<Rightarrow> None
             | Some ordinal \<Rightarrow>
                 (let t = drop (Suc loc) s; day = (int ordinal - 1) * DAY_US in
                  if length s \<le> loc then Some \<lparr>dt_local = day, dt_offset = None\<rparr>
                  else case parse_time t of
                      None \<Rightarrow> None
                    | Some (us, off) \<Rightarrow> Some \<lparr>dt_local = day + us, dt_offset = off\<rparr>)))"

text \<open>\<open>value.replace("Z", "+00:00")\<close>\<close>

definition replace_z :: "pystr \<Rightarrow> pystr" where
  "replace_z s = concat (map (\<lambda>c. if c = 90 then lit ''+00:00'' else [c]) s)"

section \<open>Arithmetic and printing in UTC\<close>

definition in_range :: "int \<Rightarrow> bool" where
  "in_range us \<longleftrightarrow> 0 \<le> us \<and> us < int MAXORDINAL * DAY_US"

text \<open>The instant of an aware datetime, on which comparisons are made.\<close>

definition instant :: "datetime \<Rightarrow> int" where
  "instant t = dt_local t - (case dt_offset t of Some o1 \<Rightarrow> o1 | None \<Rightarrow> 0)"

definition aware :: "datetime \<Rightarrow> bool" where
  "aware t \<longleftrightarrow> dt_offset t \<noteq> None"

definition to_utc :: "datetime \<Rightarrow> int result" where
  "to_utc t = (if in_range (instant t) then Inr (instant t) else Inl (OverflowError ''date value out of range''))"

definition add_ms :: "int \<Rightarrow> int \<Rightarrow> int result" where
  "add_ms us ms = (let r = us + ms * 1000 in
     if in_range r then Inr r else Inl (OverflowError ''date value out of range''))"

definition pad :: "nat \<Rightarrow> nat \<Rightarrow> pystr" where
  "pad width n = (let d = decimal n in replicate (width - length d) 48 @ d)"

text \<open>\<open>isoformat(timespec="milliseconds")\<close> of a UTC time with \<open>+00:00\<close> replaced by \<open>Z\<close>.\<close>

definition isoformat_z :: "int \<Rightarrow> pystr" where
  "isoformat_z us =
     (let (y, m, d) = ord2ymd (nat (us div DAY_US) + 1); r = nat (us mod DAY_US) div 1000
      in pad 4 y @ [45] @ pad 2 m @ [45] @ pad 2 d @ [84] @ pad 2 (r div 3600000) @ [58] @ pad 2 (r div 60000 mod 60) @ [58] @
         pad 2 (r div 1000 mod 60) @ [46] @ pad 3 (r mod 1000) @ [90])"


section \<open>Printed times are read back\<close>

lemma year_digits:
  assumes h: "b \<le> 3" "c \<le> 24" "e \<le> 3"
  shows "days_before_year (a * 400 + 1 + b * 100 + c * 4 + e) = 146097 * a + 36524 * b + 1461 * c + 365 * (e::nat)"
proof -
  let ?y = "a * 400 + b * 100 + c * 4 + e"
  have 1: "?y div 4 = 100 * a + 25 * b + c"
    by (rule div_nat_eqI) (use h in simp_all)
  have 2: "?y div 100 = 4 * a + b" by (rule div_nat_eqI) (use h in simp_all)
  have 3: "?y div 400 = a" by (rule div_nat_eqI) (use h in simp_all)
  have "a * 400 + 1 + b * 100 + c * 4 + e - 1 = ?y" by simp
  then have "days_before_year (a * 400 + 1 + b * 100 + c * 4 + e) = ?y * 365 + (100 * a + 25 * b + c) - (4 * a + b) + a"
    by (simp only: days_before_year_def Let_def 1 2 3)
  then show ?thesis by simp
qed

lemma leap_digits:
  assumes h: "b \<le> 3" "c \<le> 24" "e \<le> 3"
  shows "is_leap (a * 400 + 1 + b * 100 + c * 4 + e) \<longleftrightarrow> e = 3 \<and> (c \<noteq> 24 \<or> b = (3::nat))"
proof -
  let ?y = "a * 400 + 1 + b * 100 + c * 4 + e"
  have "?y = (e + 1) + 4 * (100 * a + 25 * b + c)" by simp
  then have 1: "?y mod 4 = (e + 1) mod 4" by (metis mod_mult_self2)
  have "?y = (c * 4 + e + 1) + 100 * (4 * a + b)" by simp
  then have 2: "?y mod 100 = (c * 4 + e + 1) mod 100" by (metis mod_mult_self2)
  have "?y = (b * 100 + c * 4 + e + 1) + 400 * a" by simp
  then have 3: "?y mod 400 = (b * 100 + c * 4 + e + 1) mod 400" by (metis mod_mult_self2)
  have 4: "(e + 1) mod 4 = 0 \<longleftrightarrow> e = 3" using h(3) by (cases "e = 3") auto
  have m: "k mod n = 0 \<longleftrightarrow> k = n" if "0 < k" "k \<le> n" for k n :: nat
    using that by (cases "k = n") simp_all
  have 5: "(c * 4 + e + 1) mod 100 = 0 \<longleftrightarrow> c = 24 \<and> e = 3"
    using h m [of "c * 4 + e + 1" 100] by simp linarith
  have 6: "(b * 100 + c * 4 + e + 1) mod 400 = 0 \<longleftrightarrow> b = 3 \<and> c = 24 \<and> e = 3"
    using h m [of "b * 100 + c * 4 + e + 1" 400] by simp linarith
  show ?thesis by (auto simp only: is_leap_def 1 2 3 4 5 6)
qed

definition month_before :: "bool \<Rightarrow> nat \<Rightarrow> nat" where
  "month_before leap m = sum_list (take (m - 1) month_days) + (if 2 < m \<and> leap then 1 else 0)"

definition month_of :: "bool \<Rightarrow> nat \<Rightarrow> nat" where
  "month_of leap n = (let month = (n + 50) div 32 in if n < month_before leap month then month - 1 else month)"

definition month_split_ok :: "bool \<Rightarrow> nat \<Rightarrow> bool" where
  "month_split_ok leap n \<longleftrightarrow> (let m = month_of leap n in 1 \<le> m \<and> m \<le> 12 \<and> month_before leap m \<le> n \<and>
     n - month_before leap m + 1 \<le> (if m = 2 \<and> leap then 29 else month_days ! (m - 1)))"

lemma month_split: "n < 365 \<Longrightarrow> month_split_ok leap n"
proof -
  assume n: "n < 365"
  define q where "q = (n + 50) div 32"
  have b: "32 * q \<le> n + 50" "n + 50 < 32 * q + 32" unfolding q_def by presburger+
  have qb: "1 \<le> q" "q \<le> 12" using b n by linarith+
  have "q = 1 \<or> q = 2 \<or> q = 3 \<or> q = 4 \<or> q = 5 \<or> q = 6 \<or> q = 7 \<or> q = 8 \<or> q = 9 \<or> q = 10 \<or> q = 11 \<or> q = 12"
    using qb by presburger
  then show ?thesis
    by (elim disjE; use b n in \<open>auto simp: month_split_ok_def month_of_def month_before_def month_days_def Let_def q_def [symmetric]\<close>)
qed

lemma year_bound:
  assumes "b \<le> 3" "c \<le> 24" "e \<le> 3" "146097 * a + 36524 * b + 1461 * c + 365 * e < 3652059"
  shows "a * 400 + 1 + b * 100 + c * 4 + e \<le> (9999::nat)"
proof (cases "a \<le> 24")
  case True
  then show ?thesis using assms by linarith
next
  case False
  then show ?thesis using assms by linarith
qed

text \<open>The last day of a leap year, the only day the year digits do not reach.\<close>

lemma leap_year_end:
  assumes h: "b \<le> 3" "c \<le> 24" "e = 3" "c \<noteq> 24 \<or> b = 3"
    and o: "ordinal = 146097 * a + 36524 * b + 1461 * c + 1461" "ordinal \<le> MAXORDINAL"
  shows "valid_date (a * 400 + 1 + b * 100 + c * 4 + e) 12 31 \<and> ymd2ord (a * 400 + 1 + b * 100 + c * 4 + e) 12 31 = ordinal"
proof -
  let ?y = "a * 400 + 1 + b * 100 + c * 4 + e"
  have e: "e \<le> 3" using h(3) by simp
  have "is_leap ?y" using leap_digits [OF h(1,2) e] h(3,4) by blast
  moreover have "days_before_year ?y = 146097 * a + 36524 * b + 1461 * c + 1095" using year_digits [OF h(1,2) e] h(3) by simp
  moreover have "?y \<le> 9999" by (rule year_bound [OF h(1,2) e]) (use o h(3) in \<open>simp add: MAXORDINAL_def\<close>)
  ultimately show ?thesis using o(1)
    by (simp add: valid_date_def ymd2ord_def days_before_month_def days_in_month_def month_days_def)
qed

lemma ord2ymd_inverse:
  assumes "1 \<le> ordinal" "ordinal \<le> MAXORDINAL" "ord2ymd ordinal = (y, m, d)"
  shows "valid_date y m d \<and> ymd2ord y m d = ordinal"
proof -
  define a where "a = (ordinal - 1) div 146097"
  define r1 where "r1 = (ordinal - 1) mod 146097"
  define b where "b = r1 div 36524"
  define r2 where "r2 = r1 mod 36524"
  define c where "c = r2 div 1461"
  define r3 where "r3 = r2 mod 1461"
  define e where "e = r3 div 365"
  define n where "n = r3 mod 365"
  define year where "year = a * 400 + 1 + b * 100 + c * 4 + e"
  have splits: "ordinal - 1 = 146097 * a + r1" "r1 = 36524 * b + r2" "r2 = 1461 * c + r3" "r3 = 365 * e + n"
    "r1 < 146097" "r2 < 36524" "r3 < 1461" "n < 365"
    unfolding a_def b_def c_def e_def n_def r1_def r2_def r3_def by simp_all
  have ymd: "ord2ymd ordinal = (if e = 4 \<or> b = 4 then (year - 1, 12, 31)
      else let leap = (e = 3 \<and> (c \<noteq> 24 \<or> b = 3)) in (year, month_of leap n, n - month_before leap (month_of leap n) + 1))"
    by (simp only: ord2ymd_def Let_def month_of_def month_before_def flip: a_def r1_def b_def r2_def c_def r3_def e_def n_def year_def)
  have bc: "b \<le> 4" "c \<le> 24" "e \<le> 4" using splits by linarith+
  have y0: "1 \<le> year" by (simp add: year_def)
  show ?thesis
  proof (cases "e = 4 \<or> b = 4")
    case True
    then have r: "y = year - 1" "m = 12" "d = 31" using assms(3) by (auto simp: ymd)
    obtain b' c' where "b' \<le> 3 \<and> c' \<le> 24 \<and> (c' \<noteq> 24 \<or> b' = 3) \<and> year - 1 = a * 400 + 1 + b' * 100 + c' * 4 + 3 \<and>
      ordinal = 146097 * a + 36524 * b' + 1461 * c' + 1461"
    proof (cases "b = 4")
      case True
      then have "c = 0" "e = 0" "n = 0" "r3 = 0" "r2 = 0" using splits by linarith+
      then show ?thesis using True splits assms(1) by (intro that [of 3 24]) (simp add: year_def)
    next
      case False
      then have "e = 4" "n = 0" "c \<le> 23" using True splits by linarith+
      then show ?thesis using False bc splits assms(1) by (intro that [of b c]) (simp add: year_def)
    qed
    then show ?thesis using leap_year_end [of b' c' 3 ordinal a] assms(2) by (simp only: r)
  next
    case False
    then have h: "b \<le> 3" "c \<le> 24" "e \<le> 3" using bc by linarith+
    define leap where "leap = (e = 3 \<and> (c \<noteq> 24 \<or> b = 3))"
    have leap: "is_leap year \<longleftrightarrow> leap" unfolding leap_def year_def by (rule leap_digits [OF h])
    have yd: "days_before_year year = 146097 * a + 36524 * b + 1461 * c + 365 * e" unfolding year_def by (rule year_digits [OF h])
    have r: "y = year" "m = month_of leap n" "d = n - month_before leap m + 1"
      using assms(3) False by (auto simp: ymd Let_def leap_def)
    have ok: "1 \<le> m" "m \<le> 12" "month_before leap m \<le> n" "d \<le> days_in_month y m"
      using month_split [OF splits(8), of leap] by (simp_all add: month_split_ok_def Let_def days_in_month_def leap r flip: r(2))
    have "year \<le> 9999" unfolding year_def
      by (rule year_bound [OF h]) (use splits assms(1,2) in \<open>simp add: MAXORDINAL_def\<close>)
    moreover have "days_before_month year m = month_before leap m" by (simp add: days_before_month_def month_before_def leap)
    ultimately show ?thesis using ok splits assms(1) y0 by (simp add: valid_date_def ymd2ord_def r(1,3) yd)
  qed
qed

lemma digits_length: "n < 10 ^ k \<Longrightarrow> 0 < k \<Longrightarrow> length (decimal n) \<le> k"
proof (induction k arbitrary: n)
  case (Suc k)
  show ?case
  proof (cases "n < 10")
    case True
    then show ?thesis by (simp add: decimal_def digits_in.simps)
  next
    case False
    then have "0 < k" using Suc.prems(1) by (cases k) simp_all
    have "n div 10 < 10 ^ k" using Suc.prems(1) by (simp add: less_mult_imp_div_less mult.commute)
    then show ?thesis using Suc.IH [of "n div 10"] \<open>0 < k\<close> False by (simp add: decimal_def digits_in.simps [of 10 n])
  qed
qed simp

lemma digits_value_zeros: "digits_value (replicate k 48 @ ds) = digits_value ds"
  by (induction k) (simp_all add: digits_value_def)

lemma pad_digits:
  assumes "n < 10 ^ k" "0 < k"
  shows "length (pad k n) = k" "list_all is_digit (pad k n)" "digits_value (pad k n) = n"
proof -
  show "length (pad k n) = k" using digits_length [OF assms] by (simp add: pad_def Let_def)
  show "list_all is_digit (pad k n)" using decimal_digits [of _ n] by (auto simp: pad_def Let_def list_all_iff is_digit_def)
  show "digits_value (pad k n) = n" by (simp add: pad_def Let_def digits_value_zeros decimal_value)
qed

lemma pad_shapes:
  "n < 100 \<Longrightarrow> \<exists>a b. pad 2 n = [a, b] \<and> is_digit a \<and> is_digit b \<and> digits_value [a, b] = n"
  "n < 1000 \<Longrightarrow> \<exists>a b c. pad 3 n = [a, b, c] \<and> is_digit a \<and> is_digit b \<and> is_digit c \<and> digits_value [a, b, c] = n"
  "n < 10000 \<Longrightarrow> \<exists>a b c d. pad 4 n = [a, b, c, d] \<and> is_digit a \<and> is_digit b \<and> is_digit c \<and> is_digit d \<and> digits_value [a, b, c, d] = n"
proof -
  assume "n < 100"
  then have p: "length (pad 2 n) = Suc (Suc 0)" "list_all is_digit (pad 2 n)" "digits_value (pad 2 n) = n"
    using pad_digits [of n 2] by simp_all
  from p(1) obtain a b where "pad 2 n = [a, b]" by (auto simp: length_Suc_conv)
  with p(2,3) show "\<exists>a b. pad 2 n = [a, b] \<and> is_digit a \<and> is_digit b \<and> digits_value [a, b] = n" by simp
next
  assume "n < 1000"
  then have p: "length (pad 3 n) = Suc (Suc (Suc 0))" "list_all is_digit (pad 3 n)" "digits_value (pad 3 n) = n"
    using pad_digits [of n 3] by simp_all
  from p(1) obtain a b c where "pad 3 n = [a, b, c]" by (auto simp: length_Suc_conv)
  with p(2,3) show "\<exists>a b c. pad 3 n = [a, b, c] \<and> is_digit a \<and> is_digit b \<and> is_digit c \<and> digits_value [a, b, c] = n" by simp
next
  assume "n < 10000"
  then have p: "length (pad 4 n) = Suc (Suc (Suc (Suc 0)))" "list_all is_digit (pad 4 n)" "digits_value (pad 4 n) = n"
    using pad_digits [of n 4] by simp_all
  from p(1) obtain a b c d where "pad 4 n = [a, b, c, d]" by (auto simp: length_Suc_conv)
  with p(2,3) show "\<exists>a b c d. pad 4 n = [a, b, c, d] \<and> is_digit a \<and> is_digit b \<and> is_digit c \<and> is_digit d \<and> digits_value [a, b, c, d] = n"
    by simp
qed

lemma digit_not_mark:
  assumes "is_digit c" shows "c \<noteq> 43" "c \<noteq> 44" "c \<noteq> 45" "c \<noteq> 46" "c \<noteq> 58" "c \<noteq> 87" "c \<noteq> 90"
  using assms by (auto simp: is_digit_def)

text \<open>A text of the printed shape denotes the date and time of its fields.\<close>

lemma fromisoformat_fields:
  assumes "y < 10000" "m < 100" "d < 100" "valid_date y m d" "h < 24" "mi < 60" "s < 60" "ms < 1000"
  shows "fromisoformat (replace_z (pad 4 y @ [45] @ pad 2 m @ [45] @ pad 2 d @ [84] @ pad 2 h @ [58] @ pad 2 mi @ [58] @
      pad 2 s @ [46] @ pad 3 ms @ [90])) =
    Some \<lparr>dt_local = (int (ymd2ord y m d) - 1) * DAY_US + clock_us (h, mi, s, ms * 1000), dt_offset = Some 0\<rparr>"
proof -
  obtain y1 y2 y3 y4 where y: "pad 4 y = [y1, y2, y3, y4]" "is_digit y1" "is_digit y2" "is_digit y3" "is_digit y4"
    "digits_value [y1, y2, y3, y4] = y" using pad_shapes(3) [OF assms(1)] by blast
  obtain m1 m2 where m: "pad 2 m = [m1, m2]" "is_digit m1" "is_digit m2" "digits_value [m1, m2] = m"
    using pad_shapes(1) [OF assms(2)] by blast
  obtain d1 d2 where d: "pad 2 d = [d1, d2]" "is_digit d1" "is_digit d2" "digits_value [d1, d2] = d"
    using pad_shapes(1) [OF assms(3)] by blast
  obtain h1 h2 where h: "pad 2 h = [h1, h2]" "is_digit h1" "is_digit h2" "digits_value [h1, h2] = h"
    using pad_shapes(1) [of h] assms(5) by auto
  obtain n1 n2 where n: "pad 2 mi = [n1, n2]" "is_digit n1" "is_digit n2" "digits_value [n1, n2] = mi"
    using pad_shapes(1) [of mi] assms(6) by auto
  obtain s1 s2 where s: "pad 2 s = [s1, s2]" "is_digit s1" "is_digit s2" "digits_value [s1, s2] = s"
    using pad_shapes(1) [of s] assms(7) by auto
  obtain k1 k2 k3 where k: "pad 3 ms = [k1, k2, k3]" "is_digit k1" "is_digit k2" "is_digit k3" "digits_value [k1, k2, k3] = ms"
    using pad_shapes(2) [OF assms(8)] by blast
  note dg = y(2-5) m(2,3) d(2,3) h(2,3) n(2,3) s(2,3) k(2-4)
  note marks = dg [THEN digit_not_mark(1)] dg [THEN digit_not_mark(2)] dg [THEN digit_not_mark(3)] dg [THEN digit_not_mark(4)]
    dg [THEN digit_not_mark(5)] dg [THEN digit_not_mark(6)] dg [THEN digit_not_mark(7)]
  let ?day = "[y1, y2, y3, y4, 45, m1, m2, 45, d1, d2]"
  let ?clock = "[h1, h2, 58, n1, n2, 58, s1, s2, 46, k1, k2, k3]"
  have shape: "replace_z (pad 4 y @ [45] @ pad 2 m @ [45] @ pad 2 d @ [84] @ pad 2 h @ [58] @ pad 2 mi @ [58] @
      pad 2 s @ [46] @ pad 3 ms @ [90]) = ?day @ 84 # ?clock @ [43, 48, 48, 58, 48, 48]"
    by (simp add: replace_z_def y(1) m(1) d(1) h(1) n(1) s(1) k(1) marks)
  have date: "parse_date ?day = Some (ymd2ord y m d)"
    by (simp add: parse_date_def num_def dg marks y(6) m(4) d(4) dash_agrees_def assms(4) Let_def)
  have clock: "parse_clock ?clock = Some ((h, mi, s, ms * 1000), True)"
    by (simp add: parse_clock_def eval_nat_numeral num_def dg marks h(4) n(4) s(4) k(5) read_fraction_def Let_def)
  have zone: "parse_zone 43 [48, 48, 58, 48, 48] = Some 0" by code_simp
  have index: "zone_index (?clock @ [43, 48, 48, 58, 48, 48]) = Some 12"
    by (simp add: zone_index_def marks)
  have time: "parse_time (?clock @ [43, 48, 48, 58, 48, 48]) = Some (clock_us (h, mi, s, ms * 1000), Some 0)"
    using assms(5-7) clock zone by (simp add: parse_time_def index [simplified])
  have "separator_location (?day @ 84 # ?clock @ [43, 48, 48, 58, 48, 48]) = Some 10"
    by (simp add: separator_location_def marks)
  then show ?thesis unfolding shape using date time by (simp add: fromisoformat_def)
qed

lemma clock_split:
  fixes r :: nat
  shows "int (r div 3600000) * 3600000 + int (r div 60000 mod 60) * 60000 + int (r div 1000 mod 60) * 1000 + int (r mod 1000) = int r"
proof -
  define a where "a = r div 1000"
  define b where "b = a div 60"
  have "r div 60000 = b" using div_mult2_eq [of r 1000 60] by (simp add: a_def b_def)
  moreover have "r div 3600000 = b div 60" using div_mult2_eq [of r 60000 60] calculation by simp
  moreover have "int r = int a * 1000 + int (r mod 1000)" "int a = int b * 60 + int (a mod 60)"
    "int b = int (b div 60) * 60 + int (b mod 60)"
    unfolding a_def b_def by (simp_all add: zdiv_int zmod_int)
  ultimately show ?thesis by (simp flip: a_def)
qed

text \<open>
  The canonical text of any instant of the years 1 to 9999 is accepted by \<open>fromisoformat\<close> and
  denotes that instant in UTC, cut to milliseconds.
\<close>

lemma isoformat_read_back:
  assumes "in_range us"
  shows "fromisoformat (replace_z (isoformat_z us)) = Some \<lparr>dt_local = us - us mod 1000, dt_offset = Some 0\<rparr>"
proof -
  define o1 where "o1 = nat (us div DAY_US) + 1"
  define r where "r = nat (us mod DAY_US) div 1000"
  obtain y m d where ymd: "ord2ymd o1 = (y, m, d)" using prod_cases3 by blast
  have us: "0 \<le> us" "us < int MAXORDINAL * DAY_US" using assms by (simp_all add: in_range_def)
  have "us div DAY_US < int MAXORDINAL" using us by (simp add: DAY_US_def div_less_iff_less_mult MAXORDINAL_def)
  then have o1: "1 \<le> o1" "o1 \<le> MAXORDINAL" "int o1 - 1 = us div DAY_US"
    using us by (auto simp: o1_def DAY_US_def)
  note inverse = ord2ymd_inverse [OF o1(1,2) ymd]
  have "month_days ! (m - 1) \<le> 31" if "1 \<le> m" "m \<le> 12"
  proof -
    have "list_all (\<lambda>k. k \<le> 31) month_days" "length month_days = 12" by (simp_all add: month_days_def)
    then show ?thesis using that by (simp add: list_all_length)
  qed
  then have b: "y < 10000" "m < 100" "d < 100" using inverse by (auto simp: valid_date_def days_in_month_def split: if_splits)
  have r0: "0 \<le> us mod DAY_US" "us mod DAY_US < 86400000000" by (simp_all add: DAY_US_def)
  have ir: "int r = us mod DAY_US div 1000" using r0(1) by (simp add: r_def zdiv_int)
  then have "int r < 86400000" using r0 by simp
  then have "r < 86400000" by simp
  then have h: "r div 3600000 < 24" "r div 60000 mod 60 < 60" "r div 1000 mod 60 < 60" "r mod 1000 < 1000" by simp_all
  have printed: "isoformat_z us = pad 4 y @ [45] @ pad 2 m @ [45] @ pad 2 d @ [84] @ pad 2 (r div 3600000) @ [58] @
      pad 2 (r div 60000 mod 60) @ [58] @ pad 2 (r div 1000 mod 60) @ [46] @ pad 3 (r mod 1000) @ [90]"
    using ymd by (simp only: isoformat_z_def Let_def prod.case flip: o1_def r_def)
  have "clock_us (r div 3600000, r div 60000 mod 60, r div 1000 mod 60, r mod 1000 * 1000) = int r * 1000"
    using clock_split [of r] by (simp add: clock_us_def)
  also have "\<dots> = us mod DAY_US - us mod 1000"
    by (simp add: ir DAY_US_def minus_mod_eq_div_mult [symmetric] mod_mod_cancel)
  finally have "(int (ymd2ord y m d) - 1) * DAY_US + clock_us (r div 3600000, r div 60000 mod 60, r div 1000 mod 60, r mod 1000 * 1000)
      = us - us mod 1000"
    using inverse o1(3) by (simp add: minus_mod_eq_div_mult [symmetric])
  then show ?thesis using fromisoformat_fields [OF b conjunct1 [OF inverse] h] by (simp only: printed)
qed

lemma isoformat_cut: "isoformat_z (us - us mod 1000) = isoformat_z us"
proof -
  define q where "q = us div 1000"
  have cut: "us - us mod 1000 = 1000 * q" by (simp add: q_def minus_mod_eq_mult_div)
  have "us div DAY_US = q div 86400000" using zdiv_zmult2_eq [of 86400000 us 1000] by (simp add: DAY_US_def q_def)
  moreover have "1000 * q div DAY_US = q div 86400000" using div_mult_mult1 [of 1000 q 86400000] by (simp add: DAY_US_def)
  moreover have "us mod DAY_US = 1000 * (q mod 86400000) + us mod 1000"
    using zmod_zmult2_eq [of 86400000 us 1000] by (simp add: DAY_US_def q_def)
  moreover have "1000 * q mod DAY_US = 1000 * (q mod 86400000)" using mult_mod_right [of 1000 q 86400000] by (simp add: DAY_US_def)
  moreover have "nat (1000 * (q mod 86400000) + us mod 1000) div 1000 = nat (1000 * (q mod 86400000)) div 1000"
  proof -
    have "nat x div 1000 = nat (x div 1000)" if "0 \<le> x" for x :: int using nat_div_distrib [OF that, of 1000] by simp
    then show ?thesis by simp
  qed
  ultimately show ?thesis by (simp only: isoformat_z_def cut)
qed

lemma in_range_cut: "in_range us \<Longrightarrow> in_range (us - us mod 1000)"
proof -
  assume us: "in_range us"
  then have "us mod 1000 \<le> us" "0 \<le> us mod 1000" by (simp_all add: in_range_def zmod_le_nonneg_dividend)
  with us show ?thesis by (simp add: in_range_def)
qed

end
