(* ===== verification/Control.thy ===== *)
theory Control
  imports Formats JsonBytes DateTime
begin

text \<open>
  \<open>control/contracts.py\<close>: the typed values of the v2 control boundary.  Each dataclass is a record and
  its \<open>__post_init__\<close> a constructor \<open>mk_...\<close> that returns the record or the \<open>ControlContractError\<close>.
  Values are typed by construction, so the run-time type tests of the source appear only where a
  document of unknown shape is read (\<open>from_dict\<close>).  Shown: capability documents round-trip,
  negotiation fails closed, and no constructible snapshot widens trust or disclosure.
\<close>

section \<open>Features and command scopes\<close>

datatype engine_feature =
    DIRECT_ARGV | EXPLICIT_SHELL | STDIN | RETRIEVAL | ONE_VERSION_BACK_READ | PTY | LIVE_OUTPUT | PARENT_SHELL_STATE

datatype capture_commitment = MEMORY_ONLY | PROCESS_LOCAL | HOST_PERSISTENT | REPLICATED

datatype capture_durability = DurNone | DurHost | DurReplica | DurAuthoritative

definition commitment_value :: "capture_commitment \<Rightarrow> pystr" where
  "commitment_value c = (case c of MEMORY_ONLY \<Rightarrow> lit ''memory-only'' | PROCESS_LOCAL \<Rightarrow> lit ''process-local''
     | HOST_PERSISTENT \<Rightarrow> lit ''host-persistent'' | REPLICATED \<Rightarrow> lit ''replicated'')"

definition durability_value :: "capture_durability \<Rightarrow> pystr" where
  "durability_value d = (case d of DurNone \<Rightarrow> lit ''none'' | DurHost \<Rightarrow> lit ''host'' | DurReplica \<Rightarrow> lit ''replica''
     | DurAuthoritative \<Rightarrow> lit ''authoritative'')"

record command_scope =
  execution_modes :: "pystr list"
  explicit_shell_argv :: "pystr list list"
  stdin_modes :: "pystr list"

definition default_scope :: command_scope where
  "default_scope = \<lparr>execution_modes = [lit ''direct-argv''], explicit_shell_argv = [], stdin_modes = [lit ''none'']\<rparr>"

definition modes_ok :: "nat \<Rightarrow> string \<Rightarrow> string list \<Rightarrow> pystr list \<Rightarrow> bool" where
  "modes_ok limit needed allowed modes \<longleftrightarrow> modes \<noteq> [] \<and> length modes \<le> limit \<and> distinct modes \<and>
     lit needed \<in> set modes \<and> set modes \<subseteq> set (map lit allowed)"

definition plain_argument :: "pystr \<Rightarrow> bool" where
  "plain_argument s \<longleftrightarrow> s \<noteq> [] \<and> length s \<le> 4096 \<and> list_all (\<lambda>c. 32 \<le> c \<and> c \<noteq> 127) s"

definition shell_argv_ok :: "pystr list \<Rightarrow> bool" where
  "shell_argv_ok argv \<longleftrightarrow> 2 \<le> length argv \<and> length argv \<le> 8 \<and> prefix (lit ''/'') (hd argv) \<and>
     \<not> sublist (lit ''//'') (hd argv) \<and>
     list_all (\<lambda>p. p \<notin> {[], lit ''.'', lit ''..''}) (tl (split_on 47 (hd argv))) \<and>
     last argv \<in> {lit ''-c'', lit ''-lc''} \<and> list_all plain_argument argv"

definition mk_scope :: "command_scope \<Rightarrow> command_scope result" where
  "mk_scope s =
     (if \<not> modes_ok 2 ''direct-argv'' [''direct-argv'', ''explicit-shell''] (execution_modes s)
        then Inl (ControlContractError ''command scope execution modes are invalid'')
      else if \<not> modes_ok 3 ''none'' [''none'', ''inherited'', ''file-ref''] (stdin_modes s)
        then Inl (ControlContractError ''command scope stdin modes are invalid'')
      else if 16 < length (explicit_shell_argv s)
        then Inl (ControlContractError ''command scope has too many reviewed shell interpreters'')
      else if \<not> list_all shell_argv_ok (explicit_shell_argv s)
        then Inl (ControlContractError ''reviewed shell interpreter argv is invalid'')
      else if \<not> distinct (explicit_shell_argv s)
        then Inl (ControlContractError ''reviewed shell interpreter argv must be unique'')
      else if (lit ''explicit-shell'' \<in> set (execution_modes s)) \<noteq> (explicit_shell_argv s \<noteq> [])
        then Inl (ControlContractError ''explicit-shell mode and reviewed interpreter argv must be declared together'')
      else Inr s)"

definition str_list :: "pystr list \<Rightarrow> json" where
  "str_list xs = JArr (map JStr xs)"

definition scope_json :: "command_scope \<Rightarrow> json" where
  "scope_json s = JObj [(lit ''execution_modes'', str_list (execution_modes s)),
     (lit ''explicit_shell_argv'', JArr (map str_list (explicit_shell_argv s))), (lit ''stdin_modes'', str_list (stdin_modes s))]"

section \<open>Bindings, cache entries and engines\<close>

definition require_digest :: "pystr \<Rightarrow> string \<Rightarrow> unit result" where
  "require_digest s label = check_r (is_digest s) (ControlContractError (label @ '' must be a sha256:<hex> digest''))"

definition require_text :: "pystr \<Rightarrow> string \<Rightarrow> unit result" where
  "require_text s label = check_r (s \<noteq> []) (ControlContractError (label @ '' must be non-empty''))"

definition require_timestamp :: "pystr \<Rightarrow> string \<Rightarrow> unit result" where
  "require_timestamp s label = bind_r (require_text s label) (\<lambda>_.
     case fromisoformat (replace_z s) of
       None \<Rightarrow> Inl (ControlContractError (label @ '' must be an ISO-8601 timestamp'')) | Some t \<Rightarrow> Inr ())"

record policy_binding =
  pb_snapshot_id :: pystr
  pb_ref :: pystr
  pb_digest :: pystr

definition mk_binding :: "policy_binding \<Rightarrow> policy_binding result" where
  "mk_binding b = bind_r (require_text (pb_snapshot_id b) ''snapshot_id'') (\<lambda>_.
     bind_r (require_text (pb_ref b) ''policy ref'') (\<lambda>_.
     bind_r (require_digest (pb_digest b) ''policy digest'') (\<lambda>_. Inr b)))"

definition binding_json :: "policy_binding \<Rightarrow> json" where
  "binding_json b = JObj [(lit ''snapshot_id'', JStr (pb_snapshot_id b)), (lit ''ref'', JStr (pb_ref b)),
     (lit ''digest'', JStr (pb_digest b))]"

text \<open>Reading one field of a document: a missing key is a \<open>KeyError\<close>, which every caller turns into its own error.\<close>

definition field_of :: "exn \<Rightarrow> jdict \<Rightarrow> string \<Rightarrow> json result" where
  "field_of missing kvs k = (case jget kvs k of None \<Rightarrow> Inl missing | Some v \<Rightarrow> Inr v)"

definition string_field :: "json \<Rightarrow> string \<Rightarrow> pystr result" where
  "string_field v label =
     (case v of JStr s \<Rightarrow> if s = [] then Inl (ControlContractError (label @ '' must be a non-empty string'')) else Inr s
      | _ \<Rightarrow> Inl (ControlContractError (label @ '' must be a non-empty string'')))"

definition bool_field :: "json \<Rightarrow> string \<Rightarrow> bool result" where
  "bool_field v label = (case v of JBool b \<Rightarrow> Inr b | _ \<Rightarrow> Inl (ControlContractError (label @ '' must be a boolean'')))"

definition positive_int :: "json \<Rightarrow> string \<Rightarrow> int result" where
  "positive_int v label = (case v of JInt i \<Rightarrow> Inr i | _ \<Rightarrow> Inl (ControlContractError (label @ '' must be an integer'')))"

fun nonempty_strings :: "json list \<Rightarrow> pystr list option" where
  "nonempty_strings [] = Some []"
| "nonempty_strings (JStr s # xs) = (if s = [] then None else map_option (Cons s) (nonempty_strings xs))"
| "nonempty_strings (_ # xs) = None"

definition string_tuple :: "json \<Rightarrow> string \<Rightarrow> pystr list result" where
  "string_tuple v label =
     (case v of
        JArr xs \<Rightarrow> (case nonempty_strings xs of Some ss \<Rightarrow> Inr ss
                   | None \<Rightarrow> Inl (ControlContractError (label @ '' must be a list of non-empty strings'')))
      | _ \<Rightarrow> Inl (ControlContractError (label @ '' must be a list of non-empty strings'')))"

definition binding_of_json :: "jdict \<Rightarrow> policy_binding result" where
  "binding_of_json kvs = (let missing = ControlContractError ''policy binding is missing a field'' in
     bind_r (field_of missing kvs ''snapshot_id'') (\<lambda>a. bind_r (string_field a ''snapshot_id'') (\<lambda>sid.
     bind_r (field_of missing kvs ''ref'') (\<lambda>b. bind_r (string_field b ''policy ref'') (\<lambda>rf.
     bind_r (field_of missing kvs ''digest'') (\<lambda>c. bind_r (string_field c ''policy digest'') (\<lambda>dg.
       mk_binding \<lparr>pb_snapshot_id = sid, pb_ref = rf, pb_digest = dg\<rparr>)))))))"

record policy_cache_entry =
  ce_key :: pystr
  ce_binding :: policy_binding
  ce_owner :: pystr
  ce_max_age_ms :: int

definition mk_cache_entry :: "policy_cache_entry \<Rightarrow> policy_cache_entry result" where
  "mk_cache_entry c = bind_r (require_text (ce_key c) ''cache key'') (\<lambda>_.
     if ce_owner c \<noteq> lit ''python-policy-control'' then Inl (ControlContractError ''policy cache owner must be python-policy-control'')
     else if ce_max_age_ms c < 1 then Inl (ControlContractError ''policy cache max_age_ms must be positive'')
     else Inr c)"

definition cache_json :: "policy_cache_entry \<Rightarrow> json" where
  "cache_json c = JObj [(lit ''key'', JStr (ce_key c)), (lit ''snapshot_id'', JStr (pb_snapshot_id (ce_binding c))),
     (lit ''owner'', JStr (ce_owner c)), (lit ''max_age_ms'', JInt (ce_max_age_ms c))]"

record engine_identity =
  en_id :: pystr
  en_version :: pystr
  en_platform :: pystr

definition mk_identity :: "engine_identity \<Rightarrow> engine_identity result" where
  "mk_identity e = bind_r (require_text (en_id e) ''engine id'') (\<lambda>_.
     bind_r (require_text (en_version e) ''engine version'') (\<lambda>_.
     bind_r (require_text (en_platform e) ''engine platform'') (\<lambda>_. Inr e)))"

definition identity_json :: "engine_identity \<Rightarrow> json" where
  "identity_json e = JObj [(lit ''id'', JStr (en_id e)), (lit ''version'', JStr (en_version e)), (lit ''platform'', JStr (en_platform e))]"

record engine_capabilities =
  ec_engine :: engine_identity
  ec_run_request_versions :: "pystr list"
  ec_policy_snapshot_versions :: "pystr list"
  ec_run_result_versions :: "pystr list"
  ec_capture_manifest_versions :: "pystr list"
  ec_direct_argv :: bool
  ec_explicit_shell :: bool
  ec_stdin :: bool
  ec_retrieval :: bool
  ec_one_version_back_read :: bool
  ec_max_argv_items :: int
  ec_max_capture_bytes :: int
  ec_max_projection_bytes :: int
  ec_pty :: bool
  ec_live_output :: bool
  ec_parent_shell_state :: bool

definition mk_capabilities :: "engine_capabilities \<Rightarrow> engine_capabilities result" where
  "mk_capabilities c =
     (if \<not> ec_direct_argv c then Inl (ControlContractError ''direct argv is the frozen baseline capability'')
      else if \<not> ec_one_version_back_read c
        then Inl (ControlContractError ''one-version-back read is the frozen baseline capability'')
      else if ec_max_argv_items c < 1 then Inl (ControlContractError ''max_argv_items must be positive'')
      else if ec_max_capture_bytes c < 1 then Inl (ControlContractError ''max_capture_bytes must be positive'')
      else if ec_max_projection_bytes c < 1 then Inl (ControlContractError ''max_projection_bytes must be positive'')
      else Inr c)"

definition supports :: "engine_capabilities \<Rightarrow> engine_feature \<Rightarrow> bool" where
  "supports c f = (case f of DIRECT_ARGV \<Rightarrow> ec_direct_argv c | EXPLICIT_SHELL \<Rightarrow> ec_explicit_shell c | STDIN \<Rightarrow> ec_stdin c
     | RETRIEVAL \<Rightarrow> ec_retrieval c | ONE_VERSION_BACK_READ \<Rightarrow> ec_one_version_back_read c | PTY \<Rightarrow> ec_pty c
     | LIVE_OUTPUT \<Rightarrow> ec_live_output c | PARENT_SHELL_STATE \<Rightarrow> ec_parent_shell_state c)"

definition CAPABILITIES_SCHEMA :: pystr where "CAPABILITIES_SCHEMA = lit ''vuoro.outctl.engine-capabilities/v2''"

definition versions_dict :: "engine_capabilities \<Rightarrow> jdict" where
  "versions_dict c = [(lit ''run_request'', str_list (ec_run_request_versions c)),
     (lit ''policy_snapshot'', str_list (ec_policy_snapshot_versions c)), (lit ''run_result'', str_list (ec_run_result_versions c)),
     (lit ''capture_manifest'', str_list (ec_capture_manifest_versions c))]"

definition features_dict :: "engine_capabilities \<Rightarrow> jdict" where
  "features_dict c = [(lit ''direct_argv'', JBool (ec_direct_argv c)), (lit ''explicit_shell'', JBool (ec_explicit_shell c)),
     (lit ''stdin'', JBool (ec_stdin c)), (lit ''retrieval'', JBool (ec_retrieval c)),
     (lit ''one_version_back_read'', JBool (ec_one_version_back_read c)), (lit ''pty'', JBool (ec_pty c)),
     (lit ''live_output'', JBool (ec_live_output c)), (lit ''parent_shell_state'', JBool (ec_parent_shell_state c))]"

definition limits_dict :: "engine_capabilities \<Rightarrow> jdict" where
  "limits_dict c = [(lit ''max_argv_items'', JInt (ec_max_argv_items c)), (lit ''max_capture_bytes'', JInt (ec_max_capture_bytes c)),
     (lit ''max_projection_bytes'', JInt (ec_max_projection_bytes c))]"

definition capabilities_dict :: "engine_capabilities \<Rightarrow> jdict" where
  "capabilities_dict c = [(lit ''schema_version'', JStr CAPABILITIES_SCHEMA), (lit ''engine'', identity_json (ec_engine c)),
     (lit ''contract_versions'', JObj (versions_dict c)), (lit ''features'', JObj (features_dict c)),
     (lit ''limits'', JObj (limits_dict c))]"

definition invalid_document :: exn where
  "invalid_document = ControlContractError ''invalid engine capabilities document''"

definition string_at :: "jdict \<Rightarrow> string \<Rightarrow> string \<Rightarrow> pystr result" where
  "string_at kvs k label = bind_r (field_of invalid_document kvs k) (\<lambda>v. string_field v label)"

definition tuple_at :: "jdict \<Rightarrow> string \<Rightarrow> string \<Rightarrow> pystr list result" where
  "tuple_at kvs k label = bind_r (field_of invalid_document kvs k) (\<lambda>v. string_tuple v label)"

definition bool_at :: "jdict \<Rightarrow> string \<Rightarrow> string \<Rightarrow> bool result" where
  "bool_at kvs k label = bind_r (field_of invalid_document kvs k) (\<lambda>v. bool_field v label)"

definition optional_bool_at :: "jdict \<Rightarrow> string \<Rightarrow> string \<Rightarrow> bool result" where
  "optional_bool_at kvs k label = (case jget kvs k of None \<Rightarrow> Inr False | Some v \<Rightarrow> bool_field v label)"

definition int_at :: "jdict \<Rightarrow> string \<Rightarrow> string \<Rightarrow> int result" where
  "int_at kvs k label = bind_r (field_of invalid_document kvs k) (\<lambda>v. positive_int v label)"

definition capabilities_of_sections :: "jdict \<Rightarrow> jdict \<Rightarrow> jdict \<Rightarrow> jdict \<Rightarrow> engine_capabilities result" where
  "capabilities_of_sections engine versions features limits =
     bind_r (string_at engine ''id'' ''engine.id'') (\<lambda>ident.
     bind_r (string_at engine ''version'' ''engine.version'') (\<lambda>version.
     bind_r (string_at engine ''platform'' ''engine.platform'') (\<lambda>platform.
     bind_r (mk_identity \<lparr>en_id = ident, en_version = version, en_platform = platform\<rparr>) (\<lambda>identity.
     bind_r (tuple_at versions ''run_request'' ''contract_versions.run_request'') (\<lambda>rq.
     bind_r (tuple_at versions ''policy_snapshot'' ''contract_versions.policy_snapshot'') (\<lambda>ps.
     bind_r (tuple_at versions ''run_result'' ''contract_versions.run_result'') (\<lambda>rr.
     bind_r (tuple_at versions ''capture_manifest'' ''contract_versions.capture_manifest'') (\<lambda>cm.
     bind_r (bool_at features ''direct_argv'' ''features.direct_argv'') (\<lambda>da.
     bind_r (bool_at features ''explicit_shell'' ''features.explicit_shell'') (\<lambda>es.
     bind_r (bool_at features ''stdin'' ''features.stdin'') (\<lambda>si.
     bind_r (bool_at features ''retrieval'' ''features.retrieval'') (\<lambda>re.
     bind_r (bool_at features ''one_version_back_read'' ''features.one_version_back_read'') (\<lambda>ov.
     bind_r (int_at limits ''max_argv_items'' ''max_argv_items'') (\<lambda>ma.
     bind_r (int_at limits ''max_capture_bytes'' ''max_capture_bytes'') (\<lambda>mc.
     bind_r (int_at limits ''max_projection_bytes'' ''max_projection_bytes'') (\<lambda>mp.
     bind_r (optional_bool_at features ''pty'' ''features.pty'') (\<lambda>pt.
     bind_r (optional_bool_at features ''live_output'' ''features.live_output'') (\<lambda>lo.
     bind_r (optional_bool_at features ''parent_shell_state'' ''features.parent_shell_state'') (\<lambda>pp.
       mk_capabilities \<lparr>ec_engine = identity, ec_run_request_versions = rq, ec_policy_snapshot_versions = ps,
         ec_run_result_versions = rr, ec_capture_manifest_versions = cm, ec_direct_argv = da, ec_explicit_shell = es,
         ec_stdin = si, ec_retrieval = re, ec_one_version_back_read = ov, ec_max_argv_items = ma, ec_max_capture_bytes = mc,
         ec_max_projection_bytes = mp, ec_pty = pt, ec_live_output = lo, ec_parent_shell_state = pp\<rparr>)))))))))))))))))))"

definition capabilities_of_dict :: "jdict \<Rightarrow> engine_capabilities result" where
  "capabilities_of_dict kvs =
     (if jget kvs ''schema_version'' \<noteq> Some (JStr CAPABILITIES_SCHEMA)
        then Inl (ControlContractError ''unsupported engine capabilities schema'')
      else case (jget kvs ''engine'', jget kvs ''contract_versions'', jget kvs ''features'', jget kvs ''limits'') of
          (Some (JObj engine), Some (JObj versions), Some (JObj features), Some (JObj limits)) \<Rightarrow>
            capabilities_of_sections engine versions features limits
        | _ \<Rightarrow> Inl invalid_document)"

section \<open>Negotiation\<close>

record capability_requirement =
  rq_features :: "engine_feature list"
  rq_run_request_version :: pystr
  rq_policy_snapshot_version :: pystr
  rq_run_result_version :: pystr

definition default_requirement :: capability_requirement where
  "default_requirement = \<lparr>rq_features = [DIRECT_ARGV], rq_run_request_version = lit ''v2'',
     rq_policy_snapshot_version = lit ''v2'', rq_run_result_version = lit ''v2''\<rparr>"

record negotiated_capabilities =
  ng_engine :: engine_capabilities
  ng_required :: capability_requirement

definition unsupported_contracts :: "engine_capabilities \<Rightarrow> capability_requirement \<Rightarrow> string list" where
  "unsupported_contracts c r =
     map fst (filter (\<lambda>(name, version, supported). version \<notin> set supported)
       [(''run_request'', rq_run_request_version r, ec_run_request_versions c),
        (''policy_snapshot'', rq_policy_snapshot_version r, ec_policy_snapshot_versions c),
        (''run_result'', rq_run_result_version r, ec_run_result_versions c)])"

definition negotiate_capabilities ::
  "engine_capabilities \<Rightarrow> capability_requirement option \<Rightarrow> negotiated_capabilities result" where
  "negotiate_capabilities capabilities required =
     (let requirement = (case required of None \<Rightarrow> default_requirement | Some r \<Rightarrow> r);
          missing = filter (\<lambda>f. \<not> supports capabilities f) (rq_features requirement)
      in if missing \<noteq> [] \<or> unsupported_contracts capabilities requirement \<noteq> []
         then Inl (CapabilityNegotiationError ''missing features or unsupported contracts'')
         else Inr \<lparr>ng_engine = capabilities, ng_required = requirement\<rparr>)"

section \<open>Sinks and snapshots\<close>

definition TRUST_DOMAINS :: "pystr list" where
  "TRUST_DOMAINS = map lit [''trusted-local'', ''restricted'', ''export'', ''metadata-only'']"

definition DISCLOSURES :: "pystr list" where
  "DISCLOSURES = map lit [''safe-unredacted'', ''sanitized'', ''metadata-only'', ''deny'']"

definition SINK_NAMES :: "pystr list" where
  "SINK_NAMES = map lit [''model'', ''runner'', ''audit-receipt'', ''handoff'']"

definition CLASSIFICATIONS :: "pystr list" where
  "CLASSIFICATIONS = map lit [''public'', ''internal'', ''confidential'', ''secret'']"

record sink_policy =
  sk_name :: pystr
  sk_trust_domain :: pystr
  sk_disclosure :: pystr
  sk_redaction_required :: bool
  sk_classification_ceiling :: "pystr option"

definition mk_sink :: "sink_policy \<Rightarrow> sink_policy result" where
  "mk_sink s = bind_r (require_text (sk_name s) ''sink name'') (\<lambda>_.
     if sk_name s \<notin> set SINK_NAMES then Inl (ControlContractError ''unsupported sink name'')
     else if sk_trust_domain s \<notin> set TRUST_DOMAINS then Inl (ControlContractError ''unsupported sink trust domain'')
     else if sk_disclosure s \<notin> set DISCLOSURES then Inl (ControlContractError ''unsupported sink disclosure'')
     else if sk_disclosure s = lit ''safe-unredacted'' \<and> (sk_trust_domain s \<noteq> lit ''trusted-local'' \<or> sk_redaction_required s)
       then Inl (ControlContractError ''safe-unredacted requires trusted-local without redaction'')
     else if sk_disclosure s = lit ''sanitized'' \<and> \<not> sk_redaction_required s
       then Inl (ControlContractError ''sanitized sinks require redaction'')
     else if sk_trust_domain s = lit ''metadata-only'' \<and> sk_disclosure s \<noteq> lit ''metadata-only''
       then Inl (ControlContractError ''metadata-only sinks require metadata-only disclosure'')
     else if sk_trust_domain s \<in> {lit ''restricted'', lit ''export''} \<and> sk_disclosure s = lit ''safe-unredacted''
       then Inl (ControlContractError ''restricted/export sinks cannot be safe-unredacted'')
     else if (case sk_classification_ceiling s of None \<Rightarrow> False | Some c \<Rightarrow> c \<notin> set CLASSIFICATIONS)
       then Inl (ControlContractError ''unsupported sink classification ceiling'')
     else Inr s)"

definition sink_dict :: "sink_policy \<Rightarrow> jdict" where
  "sink_dict s = [(lit ''name'', JStr (sk_name s)), (lit ''trust_domain'', JStr (sk_trust_domain s)),
     (lit ''disclosure'', JStr (sk_disclosure s)), (lit ''redaction_required'', JBool (sk_redaction_required s))] @
     (case sk_classification_ceiling s of None \<Rightarrow> [] | Some c \<Rightarrow> [(lit ''classification_ceiling'', JStr c)])"

text \<open>The trust domains a session may hand on to a sink: its own and the narrower ones.\<close>

definition allowed_domains :: "pystr \<Rightarrow> pystr list" where
  "allowed_domains d = dropWhile (\<lambda>x. x \<noteq> d) TRUST_DOMAINS"

record policy_snapshot =
  ps_binding :: policy_binding
  ps_source_ref :: pystr
  ps_source_digest :: pystr
  ps_cache :: policy_cache_entry
  ps_session_id :: pystr
  ps_trust_domain :: pystr
  ps_commissioned :: bool
  ps_sinks :: "sink_policy list"
  ps_capture_commitment :: capture_commitment
  ps_capture_durability :: capture_durability
  ps_capture_required :: bool
  ps_issued_at :: pystr
  ps_expires_at :: pystr
  ps_command_scope :: command_scope

definition ephemeral :: "capture_commitment \<Rightarrow> bool" where
  "ephemeral c \<longleftrightarrow> c = MEMORY_ONLY \<or> c = PROCESS_LOCAL"

definition durability_error :: "capture_commitment \<Rightarrow> capture_durability \<Rightarrow> string option" where
  "durability_error c d =
     (if ephemeral c then (if d \<noteq> DurNone then Some ''ephemeral capture must have none durability'' else None)
      else if c = HOST_PERSISTENT then (if d \<noteq> DurHost then Some ''host-persistent capture must have host durability'' else None)
      else if d = DurReplica \<or> d = DurAuthoritative then None else Some ''replicated capture must have replica durability'')"

definition snapshot_times :: "pystr \<Rightarrow> pystr \<Rightarrow> unit result" where
  "snapshot_times issued expires =
     bind_r (require_timestamp issued ''issued_at'') (\<lambda>_. bind_r (require_timestamp expires ''expires_at'') (\<lambda>_.
       case (fromisoformat (replace_z issued), fromisoformat (replace_z expires)) of
         (Some i, Some e) \<Rightarrow> check_r (aware i \<and> aware e \<and> instant i < instant e)
            (ControlContractError ''policy snapshot expiry must be after issue time'')
       | _ \<Rightarrow> Inl (ControlContractError ''policy snapshot expiry must be after issue time'')))"

definition mk_snapshot :: "policy_snapshot \<Rightarrow> policy_snapshot result" where
  "mk_snapshot s =
     bind_r (require_text (ps_source_ref s) ''policy source ref'') (\<lambda>_.
     bind_r (require_digest (ps_source_digest s) ''policy source digest'') (\<lambda>_.
     bind_r (require_text (ps_session_id s) ''session id'') (\<lambda>_.
     if ps_trust_domain s \<notin> set TRUST_DOMAINS then Inl (ControlContractError ''unsupported policy trust domain'')
     else if ps_trust_domain s = lit ''trusted-local'' \<and> \<not> ps_commissioned s
       then Inl (ControlContractError ''trusted-local snapshots must be commissioned'')
     else if ps_sinks s = [] then Inl (ControlContractError ''policy snapshot must define at least one valid sink'')
     else if \<not> distinct (map sk_name (ps_sinks s)) then Inl (ControlContractError ''policy snapshot sink names must be unique'')
     else case durability_error (ps_capture_commitment s) (ps_capture_durability s) of
         Some e \<Rightarrow> Inl (ControlContractError e)
       | None \<Rightarrow>
           if ps_capture_required s \<and> ephemeral (ps_capture_commitment s)
             then Inl (ControlContractError ''required capture must survive the process'')
           else if \<not> list_all (\<lambda>k. sk_trust_domain k \<in> set (allowed_domains (ps_trust_domain s))) (ps_sinks s)
             then Inl (ControlContractError ''sink widens the commissioned session trust domain'')
           else if ps_trust_domain s = lit ''trusted-local'' \<and> (\<not> ps_capture_required s \<or> ephemeral (ps_capture_commitment s))
             then Inl (ControlContractError ''trusted-local snapshots require persistent capture'')
           else bind_r (snapshot_times (ps_issued_at s) (ps_expires_at s)) (\<lambda>_.
             if ce_binding (ps_cache s) \<noteq> ps_binding s
               then Inl (ControlContractError ''policy cache entry does not bind the snapshot'')
             else Inr s))))"

text \<open>\<open>is_valid_at\<close> for an explicit time; a naive time is refused.\<close>

definition is_valid_at :: "policy_snapshot \<Rightarrow> datetime \<Rightarrow> bool result" where
  "is_valid_at s now =
     (if \<not> aware now then Inl (ValueError ''now must be timezone-aware'')
      else case fromisoformat (replace_z (ps_expires_at s)) of
          None \<Rightarrow> Inl (ValueError ''Invalid isoformat string'')
        | Some e \<Rightarrow> if aware e then Inr (instant now < instant e)
                   else Inl (TypeError ''cannot compare offset-naive and offset-aware datetimes''))"

definition snapshot_dict :: "policy_snapshot \<Rightarrow> jdict" where
  "snapshot_dict s = [(lit ''schema_version'', JStr (lit ''vuoro.outctl.policy-snapshot/v2'')),
     (lit ''snapshot_id'', JStr (pb_snapshot_id (ps_binding s))), (lit ''policy_ref'', JStr (pb_ref (ps_binding s))),
     (lit ''policy_digest'', JStr (pb_digest (ps_binding s))),
     (lit ''source'', JObj [(lit ''ref'', JStr (ps_source_ref s)), (lit ''digest'', JStr (ps_source_digest s))]),
     (lit ''cache'', cache_json (ps_cache s)),
     (lit ''session'', JObj [(lit ''session_id'', JStr (ps_session_id s)), (lit ''trust_domain'', JStr (ps_trust_domain s)),
        (lit ''commissioned'', JBool (ps_commissioned s))]),
     (lit ''sinks'', JArr (map (\<lambda>k. JObj (sink_dict k)) (ps_sinks s))),
     (lit ''capture'', JObj [(lit ''commitment'', JStr (commitment_value (ps_capture_commitment s))),
        (lit ''durability'', JStr (durability_value (ps_capture_durability s))), (lit ''required'', JBool (ps_capture_required s))]),
     (lit ''command_scope'', scope_json (ps_command_scope s)),
     (lit ''execution_authority'', JObj [(lit ''owner'', JStr (lit ''external-runner'')),
        (lit ''can_authorize_execution'', JBool False), (lit ''can_retry'', JBool False)]),
     (lit ''issued_at'', JStr (ps_issued_at s)), (lit ''expires_at'', JStr (ps_expires_at s))]"

section \<open>Properties\<close>

lemma nonempty_strings_map: "list_all (\<lambda>s. s \<noteq> []) ss \<Longrightarrow> nonempty_strings (map JStr ss) = Some ss"
  by (induction ss) auto

lemma string_tuple_list: "list_all (\<lambda>s. s \<noteq> []) ss \<Longrightarrow> string_tuple (str_list ss) label = Inr ss"
  by (simp add: string_tuple_def str_list_def nonempty_strings_map)

lemmas document_reads = string_at_def tuple_at_def bool_at_def int_at_def optional_bool_at_def field_of_def
  string_field_def bool_field_def positive_int_def

lemma sections_read_back:
  assumes "mk_identity (ec_engine c) = Inr e" "mk_capabilities c = Inr c'"
    and "list_all (\<lambda>s. s \<noteq> []) (ec_run_request_versions c)" "list_all (\<lambda>s. s \<noteq> []) (ec_policy_snapshot_versions c)"
    and "list_all (\<lambda>s. s \<noteq> []) (ec_run_result_versions c)" "list_all (\<lambda>s. s \<noteq> []) (ec_capture_manifest_versions c)"
  shows "capabilities_of_sections [(lit ''id'', JStr (en_id (ec_engine c))), (lit ''version'', JStr (en_version (ec_engine c))),
      (lit ''platform'', JStr (en_platform (ec_engine c)))] (versions_dict c) (features_dict c) (limits_dict c) = Inr c"
proof -
  have e: "en_id (ec_engine c) \<noteq> []" "en_version (ec_engine c) \<noteq> []" "en_platform (ec_engine c) \<noteq> []"
    using assms(1) by (auto simp: mk_identity_def require_text_def bind_r_Inr_iff)
  have f: "ec_direct_argv c" "ec_one_version_back_read c" "\<not> ec_max_argv_items c < 1" "\<not> ec_max_capture_bytes c < 1"
    "\<not> ec_max_projection_bytes c < 1" using assms(2) by (auto simp: mk_capabilities_def split: if_splits)
  show ?thesis using e f assms(3-)
    by (simp add: mk_capabilities_def capabilities_of_sections_def document_reads versions_dict_def features_dict_def limits_dict_def jget_def
        lit_eq_iff string_tuple_list mk_identity_def require_text_def del: lit_simps)
qed

text \<open>
  Capability documents round-trip: an engine's capabilities that the constructors accept, with
  non-empty version strings, are read back exactly from the document \<open>to_dict\<close> writes.
\<close>

theorem capabilities_round_trip:
  assumes "mk_identity (ec_engine c) = Inr e" "mk_capabilities c = Inr c'"
    and "list_all (\<lambda>s. s \<noteq> []) (ec_run_request_versions c @ ec_policy_snapshot_versions c @ ec_run_result_versions c @
      ec_capture_manifest_versions c)"
  shows "capabilities_of_dict (capabilities_dict c) = Inr c"
  using sections_read_back [OF assms(1,2)] assms(3)
  by (simp add: capabilities_of_dict_def capabilities_dict_def identity_json_def jget_def lit_eq_iff del: lit_simps)

definition example_capabilities :: engine_capabilities where
  "example_capabilities = \<lparr>ec_engine = \<lparr>en_id = lit ''native'', en_version = lit ''2.0'', en_platform = lit ''linux-x86_64''\<rparr>,
     ec_run_request_versions = [lit ''v2''], ec_policy_snapshot_versions = [lit ''v2''], ec_run_result_versions = [lit ''v2''],
     ec_capture_manifest_versions = [lit ''v1'', lit ''v2''], ec_direct_argv = True, ec_explicit_shell = False, ec_stdin = True,
     ec_retrieval = True, ec_one_version_back_read = True, ec_max_argv_items = 4096, ec_max_capture_bytes = 1000000,
     ec_max_projection_bytes = 65536, ec_pty = False, ec_live_output = False, ec_parent_shell_state = False\<rparr>"

theorem capabilities_round_trip_witness:
  "capabilities_of_dict (capabilities_dict example_capabilities) = Inr example_capabilities"
  by (rule capabilities_round_trip [of _ "ec_engine example_capabilities" example_capabilities]) code_simp+

text \<open>
  Negotiation fails closed: it succeeds exactly when the engine supports every required feature
  and advertises each of the three required contract versions, and then changes nothing;
  otherwise it raises \<open>CapabilityNegotiationError\<close>.
\<close>

theorem negotiation_fails_closed:
  "let r = (case required of None \<Rightarrow> default_requirement | Some r \<Rightarrow> r);
       satisfied = ((\<forall>f \<in> set (rq_features r). supports c f) \<and> rq_run_request_version r \<in> set (ec_run_request_versions c) \<and>
         rq_policy_snapshot_version r \<in> set (ec_policy_snapshot_versions c) \<and> rq_run_result_version r \<in> set (ec_run_result_versions c))
   in (satisfied \<and> negotiate_capabilities c required = Inr \<lparr>ng_engine = c, ng_required = r\<rparr>) \<or>
      (\<not> satisfied \<and> (\<exists>m. negotiate_capabilities c required = Inl (CapabilityNegotiationError m)))"
  by (auto simp: negotiate_capabilities_def unsupported_contracts_def Let_def filter_empty_conv split: option.splits)

theorem negotiation_fails_closed_witness:
  "negotiate_capabilities example_capabilities None = Inr \<lparr>ng_engine = example_capabilities, ng_required = default_requirement\<rparr>"
proof -
  have "\<not> (\<exists>m. negotiate_capabilities example_capabilities None = Inl (CapabilityNegotiationError m))"
    by (simp add: negotiate_capabilities_def unsupported_contracts_def example_capabilities_def default_requirement_def supports_def)
  then show ?thesis using negotiation_fails_closed [of None example_capabilities] by (auto simp: Let_def)
qed

lemma mk_sink_ok:
  assumes "mk_sink k = Inr k'"
  shows "k' = k" "sk_trust_domain k \<in> set TRUST_DOMAINS" "sk_disclosure k \<in> set DISCLOSURES"
    "sk_disclosure k = lit ''safe-unredacted'' \<Longrightarrow> sk_trust_domain k = lit ''trusted-local'' \<and> \<not> sk_redaction_required k"
    "sk_disclosure k = lit ''sanitized'' \<Longrightarrow> sk_redaction_required k"
    "sk_trust_domain k = lit ''metadata-only'' \<Longrightarrow> sk_disclosure k = lit ''metadata-only''"
  using assms by (auto simp: mk_sink_def bind_r_Inr_iff simp del: lit_simps split: if_splits)

lemma mk_snapshot_ok:
  assumes "mk_snapshot s = Inr s'"
  shows "s' = s" "ps_trust_domain s \<in> set TRUST_DOMAINS" "ps_sinks s \<noteq> []" "distinct (map sk_name (ps_sinks s))"
    "\<And>k. k \<in> set (ps_sinks s) \<Longrightarrow> sk_trust_domain k \<in> set (allowed_domains (ps_trust_domain s))"
    "ps_trust_domain s = lit ''trusted-local'' \<Longrightarrow> ps_commissioned s \<and> ps_capture_required s \<and> \<not> ephemeral (ps_capture_commitment s)"
    "ps_capture_required s \<Longrightarrow> \<not> ephemeral (ps_capture_commitment s)"
    "snapshot_times (ps_issued_at s) (ps_expires_at s) = Inr ()" "ce_binding (ps_cache s) = ps_binding s"
  using assms
  by (auto simp: mk_snapshot_def bind_r_Inr_iff list_all_iff simp del: lit_simps split: if_splits option.splits)

lemma allowed_trusted: "lit ''trusted-local'' \<in> set (allowed_domains d) \<Longrightarrow> d \<in> set TRUST_DOMAINS \<Longrightarrow> d = lit ''trusted-local''"
  by (auto simp: allowed_domains_def TRUST_DOMAINS_def split: if_splits)

lemma allowed_metadata: "d \<in> set (allowed_domains (lit ''metadata-only'')) \<Longrightarrow> d = lit ''metadata-only''"
  by (simp add: allowed_domains_def TRUST_DOMAINS_def)

text \<open>Which domain a sink may have in which session, written out.\<close>

definition within_domain :: "pystr \<Rightarrow> pystr \<Rightarrow> bool" where
  "within_domain session sink_domain \<longleftrightarrow>
     session = lit ''trusted-local'' \<and>
       sink_domain \<in> {lit ''trusted-local'', lit ''restricted'', lit ''export'', lit ''metadata-only''} \<or>
     session = lit ''restricted'' \<and> sink_domain \<in> {lit ''restricted'', lit ''export'', lit ''metadata-only''} \<or>
     session = lit ''export'' \<and> sink_domain \<in> {lit ''export'', lit ''metadata-only''} \<or>
     session = lit ''metadata-only'' \<and> sink_domain = lit ''metadata-only''"

lemma allowed_within: "x \<in> set (allowed_domains d) \<Longrightarrow> d \<in> set TRUST_DOMAINS \<Longrightarrow> within_domain d x"
  by (auto simp: within_domain_def allowed_domains_def TRUST_DOMAINS_def split: if_splits)

lemma snapshot_timesD:
  assumes "snapshot_times i e = Inr ()"
  obtains ti te where "fromisoformat (replace_z i) = Some ti" "fromisoformat (replace_z e) = Some te" "aware ti" "aware te"
    "instant ti < instant te"
  using assms by (auto simp: snapshot_times_def bind_r_Inr_iff split: option.splits)

text \<open>
  C17.  No constructible policy snapshot widens trust or disclosure: the trust domain of every sink is
  that of the session or one after it in the order \<open>trusted-local\<close>, \<open>restricted\<close>, \<open>export\<close>,
  \<open>metadata-only\<close>; unless the session is \<open>trusted-local\<close> no sink is \<open>safe-unredacted\<close>, in a \<open>metadata-only\<close> session every sink discloses
  metadata only, a \<open>sanitized\<close> sink always redacts, a \<open>trusted-local\<close> session is commissioned and has
  required persistent capture, and the snapshot expires after it was issued, from which moment
  \<open>is_valid_at\<close> is false.
\<close>

theorem snapshot_never_widens:
  assumes s: "mk_snapshot s = Inr s'" and k: "\<forall>k \<in> set (ps_sinks s). mk_sink k = Inr k"
  shows "(\<forall>k \<in> set (ps_sinks s). within_domain (ps_trust_domain s) (sk_trust_domain k) \<and>
      (sk_disclosure k = lit ''safe-unredacted'' \<longrightarrow> ps_trust_domain s = lit ''trusted-local'' \<and> ps_commissioned s) \<and>
      (sk_disclosure k = lit ''sanitized'' \<longrightarrow> sk_redaction_required k) \<and>
      (ps_trust_domain s = lit ''metadata-only'' \<longrightarrow> sk_disclosure k = lit ''metadata-only'')) \<and>
    (ps_trust_domain s = lit ''trusted-local'' \<longrightarrow> ps_capture_required s) \<and>
    (ps_capture_required s \<longrightarrow> \<not> ephemeral (ps_capture_commitment s)) \<and>
    (\<exists>i e. fromisoformat (replace_z (ps_issued_at s)) = Some i \<and> fromisoformat (replace_z (ps_expires_at s)) = Some e \<and>
       instant i < instant e \<and> (\<forall>now. aware now \<longrightarrow> is_valid_at s now = Inr (instant now < instant e)))"
proof -
  note ok = mk_snapshot_ok [OF s]
  from ok(8) obtain i e where t: "fromisoformat (replace_z (ps_issued_at s)) = Some i"
    "fromisoformat (replace_z (ps_expires_at s)) = Some e" "aware e" "instant i < instant e" by (rule snapshot_timesD)
  have "ps_trust_domain s = lit ''trusted-local'' \<and> ps_commissioned s"
    if "k \<in> set (ps_sinks s)" "sk_disclosure k = lit ''safe-unredacted''" for k
    using mk_sink_ok(4) [of k k] ok(5) [OF that(1)] allowed_trusted ok(2,6) k that by metis
  moreover have "within_domain (ps_trust_domain s) (sk_trust_domain k)" if "k \<in> set (ps_sinks s)" for k
    using ok(2,5) allowed_within that by blast
  moreover have "sk_redaction_required k" if "k \<in> set (ps_sinks s)" "sk_disclosure k = lit ''sanitized''" for k
    using mk_sink_ok(5) k that by blast
  moreover have "sk_disclosure k = lit ''metadata-only''"
    if "k \<in> set (ps_sinks s)" "ps_trust_domain s = lit ''metadata-only''" for k
    using mk_sink_ok(6) [of k k] ok(5) [OF that(1)] allowed_metadata k that by metis
  moreover have "is_valid_at s now = Inr (instant now < instant e)" if "aware now" for now
    using that t by (simp add: is_valid_at_def)
  ultimately show ?thesis using t ok(6,7) by blast
qed

definition example_snapshot :: policy_snapshot where
  "example_snapshot =
     (let b = \<lparr>pb_snapshot_id = lit ''s1'', pb_ref = lit ''policy://p'', pb_digest = lit ''sha256:'' @ replicate 64 97\<rparr> in
      \<lparr>ps_binding = b, ps_source_ref = lit ''policy-source://p.yaml'', ps_source_digest = lit ''sha256:'' @ replicate 64 98,
       ps_cache = \<lparr>ce_key = lit ''k'', ce_binding = b, ce_owner = lit ''python-policy-control'', ce_max_age_ms = 1000\<rparr>,
       ps_session_id = lit ''session'', ps_trust_domain = lit ''restricted'', ps_commissioned = False,
       ps_sinks = [\<lparr>sk_name = lit ''model'', sk_trust_domain = lit ''export'', sk_disclosure = lit ''sanitized'',
         sk_redaction_required = True, sk_classification_ceiling = Some (lit ''internal'')\<rparr>],
       ps_capture_commitment = HOST_PERSISTENT, ps_capture_durability = DurHost, ps_capture_required = True,
       ps_issued_at = lit ''2026-08-12T08:00:00Z'', ps_expires_at = lit ''2026-08-12T11:00:00+02:00'',
       ps_command_scope = default_scope\<rparr>)"

theorem snapshot_never_widens_witness:
  "mk_snapshot example_snapshot = Inr example_snapshot \<and> ps_trust_domain example_snapshot \<noteq> lit ''trusted-local'' \<and>
   list_all (\<lambda>k. sk_disclosure k \<noteq> lit ''safe-unredacted'' \<and> within_domain (ps_trust_domain example_snapshot) (sk_trust_domain k))
     (ps_sinks example_snapshot)"
proof -
  have m: "mk_snapshot example_snapshot = Inr example_snapshot" by code_simp
  have k: "\<forall>k \<in> set (ps_sinks example_snapshot). mk_sink k = Inr k" by code_simp
  have t: "ps_trust_domain example_snapshot \<noteq> lit ''trusted-local''" by code_simp
  from snapshot_never_widens [OF m k] m t show ?thesis by (auto simp: list_all_iff simp del: lit_simps)
qed

end
