(* ===== verification/Extensions.thy ===== *)
theory Extensions
  imports Formats
begin

text \<open>
  \<open>extensions/contracts.py\<close>: the typed and bounded values exchanged with extensions.  A payload is
  walked with one shared item budget, and a result is encoded together with its own size, which is
  found by iterating until the size is stable.  Payloads are JSON values by their type, so the
  \<open>TypeError\<close> branches for other Python objects do not arise.  Shown: what the walk accepts, and
  that the size iteration always ends, with the size of what is returned.
\<close>

section \<open>Walking JSON payloads\<close>

definition MAX_RESULT_BYTES :: int where "MAX_RESULT_BYTES = 64 * 1024"
definition MAX_REQUEST_BYTES :: nat where "MAX_REQUEST_BYTES = 64 * 1024"
definition MAX_DEADLINE_MS :: int where "MAX_DEADLINE_MS = 5000"
definition MAX_JSON_DEPTH :: nat where "MAX_JSON_DEPTH = 32"
definition MAX_JSON_ITEMS :: nat where "MAX_JSON_ITEMS = 2048"
definition MAX_JSON_STRING_LENGTH :: nat where "MAX_JSON_STRING_LENGTH = 32 * 1024"
definition MAX_KEY_LENGTH :: nat where "MAX_KEY_LENGTH = 128"

definition FORBIDDEN_KEY_NAMES :: "string list" where
  "FORBIDDEN_KEY_NAMES =
     [''authorize_execution'', ''authorized'', ''authorization'', ''budget'', ''can_authorize_execution'',
      ''can_retry'', ''capture'', ''capture_commitment'', ''capture_id'', ''capture_ref'', ''capture_required'',
      ''capture_status'', ''command'', ''command_argv'', ''command_scope'', ''commissioned'', ''commissioning'',
      ''credential'', ''deadline'', ''deadline_ms'', ''disclosure'', ''disclosure_mode'', ''durability'',
      ''environment'', ''execution_mode'', ''execution_authorized'', ''execution_authority'', ''lifecycle'',
      ''lifecycle_state'', ''limits'', ''max_result_bytes'', ''persistence'', ''persistence_mode'', ''policy'',
      ''policy_candidate'', ''raw_output'', ''redaction'', ''redaction_required'', ''retry'', ''sanitizer'',
      ''secret'', ''secret_ref'', ''secret_value'', ''secrets'', ''shell_command'', ''spool_path'', ''stdin'',
      ''stdin_mode'', ''stdin_ref'', ''trust'', ''trust_domain'']"

text \<open>\<open>re.sub(r"[^a-z0-9]", "", name.casefold())\<close>\<close>

definition normalized_key :: "pystr \<Rightarrow> pystr" where
  "normalized_key k = filter (\<lambda>c. is_lower c \<or> is_digit c) (casefold k)"

definition FORBIDDEN_KEYS :: "pystr list" where
  "FORBIDDEN_KEYS = map (\<lambda>n. normalized_key (lit n)) FORBIDDEN_KEY_NAMES"

definition forbidden_key :: "pystr \<Rightarrow> bool" where
  "forbidden_key k \<longleftrightarrow> normalized_key k \<in> set FORBIDDEN_KEYS"

definition finite_float :: "pystr \<Rightarrow> bool" where
  "finite_float t \<longleftrightarrow> t \<notin> {lit ''NaN'', lit ''Infinity'', lit ''-Infinity''}"

text \<open>The remaining item budget after the walk; the walk returns its argument unchanged.\<close>

fun validate_json :: "nat \<Rightarrow> nat \<Rightarrow> json \<Rightarrow> nat result"
  and validate_items :: "nat \<Rightarrow> nat \<Rightarrow> json list \<Rightarrow> nat result"
  and validate_pairs :: "nat \<Rightarrow> nat \<Rightarrow> (pystr \<times> json) list \<Rightarrow> nat result" where
  "validate_json depth budget v =
     (if MAX_JSON_DEPTH < depth then Inl (ValueError ''extension JSON exceeds the nesting limit'')
      else if budget = 0 then Inl (ValueError ''extension JSON exceeds the item limit'')
      else case v of
          JStr s \<Rightarrow> if MAX_JSON_STRING_LENGTH < length s then Inl (ValueError ''extension JSON string is too long'')
                    else Inr (budget - 1)
        | JFloat t \<Rightarrow> if finite_float t then Inr (budget - 1)
                    else Inl (ValueError ''extension JSON contains a non-finite number'')
        | JArr xs \<Rightarrow> validate_items (Suc depth) (budget - 1) xs
        | JObj kvs \<Rightarrow> validate_pairs (Suc depth) (budget - 1) kvs
        | _ \<Rightarrow> Inr (budget - 1))"
| "validate_items depth budget [] = Inr budget"
| "validate_items depth budget (x # xs) =
     bind_r (validate_json depth budget x) (\<lambda>b. validate_items depth b xs)"
| "validate_pairs depth budget [] = Inr budget"
| "validate_pairs depth budget ((k, v) # kvs) =
     (if MAX_KEY_LENGTH < length k then Inl (ValueError ''extension JSON key is too long'')
      else if forbidden_key k then Inl (ValueError ''extension result field is outside the extension boundary'')
      else bind_r (validate_json depth budget v) (\<lambda>b. validate_pairs depth b kvs))"

declare validate_json.simps [simp del]

text \<open>The declarative reading: how many values, how deep, and which fields.\<close>

fun json_items :: "json \<Rightarrow> nat" where
  "json_items (JArr xs) = Suc (sum_list (map json_items xs))"
| "json_items (JObj kvs) = Suc (sum_list (map (\<lambda>(k, v). json_items v) kvs))"
| "json_items _ = 1"

fun json_fits :: "nat \<Rightarrow> json \<Rightarrow> bool" where
  "json_fits depth (JArr xs) \<longleftrightarrow> depth \<le> MAX_JSON_DEPTH \<and> (\<forall>x \<in> set xs. json_fits (Suc depth) x)"
| "json_fits depth (JObj kvs) \<longleftrightarrow> depth \<le> MAX_JSON_DEPTH \<and>
     (\<forall>(k, v) \<in> set kvs. length k \<le> MAX_KEY_LENGTH \<and> \<not> forbidden_key k \<and> json_fits (Suc depth) v)"
| "json_fits depth (JStr s) \<longleftrightarrow> depth \<le> MAX_JSON_DEPTH \<and> length s \<le> MAX_JSON_STRING_LENGTH"
| "json_fits depth (JFloat t) \<longleftrightarrow> depth \<le> MAX_JSON_DEPTH \<and> finite_float t"
| "json_fits depth _ \<longleftrightarrow> depth \<le> MAX_JSON_DEPTH"

lemma json_items_pos: "0 < json_items v"
  by (cases v) auto

lemma validate_json_iff:
  "validate_json depth budget v = Inr b \<longleftrightarrow> json_fits depth v \<and> json_items v \<le> budget \<and> b = budget - json_items v"
  "validate_items depth budget xs = Inr b \<longleftrightarrow> (\<forall>x \<in> set xs. json_fits depth x) \<and>
     sum_list (map json_items xs) \<le> budget \<and> b = budget - sum_list (map json_items xs)"
  "validate_pairs depth budget kvs = Inr b \<longleftrightarrow>
     (\<forall>(k, v) \<in> set kvs. length k \<le> MAX_KEY_LENGTH \<and> \<not> forbidden_key k \<and> json_fits depth v) \<and>
     sum_list (map (\<lambda>(k, v). json_items v) kvs) \<le> budget \<and> b = budget - sum_list (map (\<lambda>(k, v). json_items v) kvs)"
proof (induction depth budget v and depth budget xs and depth budget kvs arbitrary: b and b and b
    rule: validate_json_validate_items_validate_pairs.induct)
  case (1 depth budget v)
  then show ?case
    by (cases v) (auto simp: validate_json.simps [of depth budget] split: if_splits)
qed (auto simp: bind_r_Inr_iff)

section \<open>Encoding a result with its size\<close>

datatype extension_kind = FACTS | POLICY_CANDIDATE | PROJECTION_CANDIDATE | SANITIZER
datatype extension_phase = COMMISSIONING | PROJECTION
datatype extension_status = ACCEPTED | EMPTY | REJECTED | TIMED_OUT | FAILED | MALFORMED

definition kind_value :: "extension_kind \<Rightarrow> pystr" where
  "kind_value k = (case k of FACTS \<Rightarrow> lit ''facts'' | POLICY_CANDIDATE \<Rightarrow> lit ''policy-candidate''
     | PROJECTION_CANDIDATE \<Rightarrow> lit ''projection-candidate'' | SANITIZER \<Rightarrow> lit ''sanitizer'')"

definition phase_value :: "extension_phase \<Rightarrow> pystr" where
  "phase_value p = (case p of COMMISSIONING \<Rightarrow> lit ''commissioning'' | PROJECTION \<Rightarrow> lit ''projection'')"

definition status_value :: "extension_status \<Rightarrow> pystr" where
  "status_value s = (case s of ACCEPTED \<Rightarrow> lit ''accepted'' | EMPTY \<Rightarrow> lit ''empty'' | REJECTED \<Rightarrow> lit ''rejected''
     | TIMED_OUT \<Rightarrow> lit ''timed-out'' | FAILED \<Rightarrow> lit ''failed'' | MALFORMED \<Rightarrow> lit ''malformed'')"

definition kind_json :: "extension_kind option \<Rightarrow> json" where
  "kind_json k = (case k of None \<Rightarrow> JNull | Some k \<Rightarrow> JStr (kind_value k))"

definition result_fields ::
  "pystr \<Rightarrow> extension_status \<Rightarrow> extension_kind option \<Rightarrow> jdict \<Rightarrow> pystr list \<Rightarrow> jdict" where
  "result_fields ext_id status kind payload diagnostics =
     [(lit ''extension_id'', JStr ext_id), (lit ''status'', JStr (status_value status)), (lit ''kind'', kind_json kind),
      (lit ''payload'', JObj payload), (lit ''diagnostics'', JArr (map JStr diagnostics))]"

text \<open>
  The loop of \<open>_result_bytes\<close>: re-encode with the size observed last until the size is that of the
  encoding.  Nothing in the code bounds the number of rounds.
\<close>

partial_function (option) stable_size :: "(nat \<Rightarrow> nat) \<Rightarrow> nat \<Rightarrow> nat option" where
  "stable_size encoded_size sz =
     (let observed = encoded_size sz in if observed = sz then Some sz else stable_size encoded_size observed)"

declare stable_size.simps [code]

definition sized_json :: "jdict \<Rightarrow> nat \<Rightarrow> json" where
  "sized_json fields n = JObj (fields @ [(lit ''encoded_bytes'', JInt (int n))])"

definition encoded_length :: "json \<Rightarrow> nat" where
  "encoded_length v = length (utf8_encode (dumps False v))"

text \<open>The outer option is the loop, the inner result the encoding error.\<close>

definition result_bytes ::
  "pystr \<Rightarrow> extension_status \<Rightarrow> extension_kind option \<Rightarrow> jdict \<Rightarrow> pystr list \<Rightarrow> bytes result option" where
  "result_bytes ext_id status kind payload diagnostics =
     (let fields = result_fields ext_id status kind payload diagnostics in
      case encode_json (JObj fields) of
        None \<Rightarrow> Some (Inl (ValueError ''result is not JSON serializable''))
      | Some b \<Rightarrow>
          map_option (\<lambda>n. Inr (utf8_encode (dumps False (sized_json fields n))))
            (stable_size (\<lambda>n. encoded_length (sized_json fields n)) (length b)))"

section \<open>The size iteration ends\<close>

text \<open>
  Encoding with a size is longer than without by a constant and the digits of the size.  The
  iteration therefore climbs, and a size that covers its own digits bounds it.
\<close>

lemma digits_mono: "m \<le> n \<Longrightarrow> length (digits_in 10 m) \<le> length (digits_in 10 n)"
proof (induction "10 :: nat" m arbitrary: n rule: digits_in.induct)
  case (1 m)
  show ?case
  proof (cases "m < 10")
    case True
    then show ?thesis by (simp add: digits_in.simps [of 10 m] Suc_le_eq)
  next
    case False
    then have "length (digits_in 10 (m div 10)) \<le> length (digits_in 10 (n div 10))"
      using 1(1) [OF _ div_le_mono [OF 1(2)]] by simp
    then show ?thesis using False 1(2) by (simp add: digits_in.simps [of 10 m] digits_in.simps [of 10 n])
  qed
qed

lemma digits_tenth: "length (digits_in 10 n) \<le> Suc (n div 10)"
proof (induction "10 :: nat" n rule: digits_in.induct)
  case (1 n)
  show ?case
  proof (cases "n < 10")
    case False
    then have "length (digits_in 10 (n div 10)) \<le> Suc (n div 10 div 10)" using 1 by simp
    moreover have "n div 10 div 10 < n div 10" using False by (intro div_less_dividend) (simp_all add: div_greater_zero_iff)
    ultimately show ?thesis using False by (simp add: digits_in.simps [of 10 n])
  qed (simp add: digits_in.simps [of 10 n])
qed

lemma stable_size_ends:
  assumes f: "\<And>n. f n = base + length (decimal n)" and "sz \<le> f sz" "sz \<le> 2 * base + 2"
  shows "\<exists>n. stable_size f sz = Some n \<and> f n = n"
  using assms(2,3)
proof (induction "2 * base + 2 - sz" arbitrary: sz rule: less_induct)
  case less
  show ?case
  proof (cases "f sz = sz")
    case True
    then show ?thesis by (subst stable_size.simps) simp
  next
    case False
    then have lt: "sz < f sz" using less.prems(1) by simp
    have "length (digits_in 10 sz) \<le> length (digits_in 10 (f sz))" using lt by (intro digits_mono) simp
    then have up: "f sz \<le> f (f sz)" using f [of sz] f [of "f sz"] by (simp add: decimal_def)
    have "f sz \<le> base + Suc (sz div 10)" using f [of sz] digits_tenth [of sz] by (simp add: decimal_def)
    moreover have "10 * (sz div 10) \<le> sz" by simp
    ultimately have top: "f sz \<le> 2 * base + 2" using less.prems(2) by linarith
    from less.hyps [of "f sz"] lt up top False show ?thesis
      by (subst stable_size.simps) (auto simp: Let_def)
  qed
qed

lemma utf8_length_ascii: "(\<And>c. c \<in> set t \<Longrightarrow> c < 128) \<Longrightarrow> length (utf8_encode t) = length t"
  by (induction t) (auto simp: utf8_encode_char_def)

lemma decimal_length: "length (utf8_encode (decimal n)) = length (decimal n)"
  using decimal_digits by (intro utf8_length_ascii) (fastforce simp: is_digit_def)

lemma sorted_fields:
  "sort_keys (sized_json (result_fields ext_id status kind payload diagnostics) n) =
     JObj [(lit ''diagnostics'', sort_keys (JArr (map JStr diagnostics))), (lit ''encoded_bytes'', JInt (int n)),
       (lit ''extension_id'', JStr ext_id), (lit ''kind'', sort_keys (kind_json kind)),
       (lit ''payload'', sort_keys (JObj payload)), (lit ''status'', JStr (status_value status))]"
  "sort_keys (JObj (result_fields ext_id status kind payload diagnostics)) =
     JObj [(lit ''diagnostics'', sort_keys (JArr (map JStr diagnostics))),
       (lit ''extension_id'', JStr ext_id), (lit ''kind'', sort_keys (kind_json kind)),
       (lit ''payload'', sort_keys (JObj payload)), (lit ''status'', JStr (status_value status))]"
  by (simp_all add: sized_json_def result_fields_def)

lemma encoded_length_sized:
  "encoded_length (sized_json (result_fields ext_id status kind payload diagnostics) n) =
     encoded_length (JObj (result_fields ext_id status kind payload diagnostics)) + 17 + length (decimal n)"
proof -
  have "length (utf8_encode (print_str False (lit ''encoded_bytes''))) = 15" "length (utf8_encode_char 58) = 1"
    "length (utf8_encode_char 44) = 1" by code_simp+
  then show ?thesis
    unfolding encoded_length_def dumps_def sorted_fields
    by (simp add: print_int_def decimal_length del: lit_simps sort_keys.simps)
qed

lemma result_bytes_ends:
  "\<exists>r. result_bytes ext_id status kind payload diagnostics = Some r \<and>
     (case r of Inl e \<Rightarrow> encode_json (JObj (result_fields ext_id status kind payload diagnostics)) = None
      | Inr b \<Rightarrow> b = utf8_encode (dumps False (sized_json (result_fields ext_id status kind payload diagnostics) (length b))))"
proof (cases "encode_json (JObj (result_fields ext_id status kind payload diagnostics))")
  case None
  then show ?thesis by (simp add: result_bytes_def)
next
  case (Some b)
  let ?f = "\<lambda>n. encoded_length (sized_json (result_fields ext_id status kind payload diagnostics) n)"
  have b: "length b = encoded_length (JObj (result_fields ext_id status kind payload diagnostics))"
    using Some by (auto simp: encode_json_def encoded_length_def split: if_splits)
  have "\<exists>n. stable_size ?f (length b) = Some n \<and> ?f n = n"
    by (rule stable_size_ends [of _ "length b + 17"]) (simp_all add: encoded_length_sized b)
  then obtain n where "stable_size ?f (length b) = Some n" "?f n = n" by blast
  then show ?thesis using Some by (simp add: result_bytes_def encoded_length_def)
qed

text \<open>
  C16.  The size iteration of \<open>_result_bytes\<close> always ends: for every result whose fields can be encoded
  it returns an encoding, and the \<open>encoded_bytes\<close> field in it is the exact length of that encoding.
\<close>

theorem result_bytes_total:
  "\<exists>r. result_bytes ext_id status kind payload diagnostics = Some r \<and>
     (case r of Inl e \<Rightarrow> encode_json (JObj (result_fields ext_id status kind payload diagnostics)) = None
      | Inr b \<Rightarrow> b = utf8_encode (dumps False (sized_json (result_fields ext_id status kind payload diagnostics) (length b))))"
  by (rule result_bytes_ends)

section \<open>Contexts, requests and results\<close>

record extension_context =
  xc_workspace_id :: pystr
  xc_session_id :: pystr
  xc_policy_snapshot_id :: "pystr option"
  xc_deadline_ms :: int
  xc_phase :: extension_phase
  xc_commissioning_context_digest :: "pystr option"
  xc_policy_ref :: "pystr option"
  xc_policy_digest :: "pystr option"

definition truthy :: "pystr option \<Rightarrow> bool" where
  "truthy s \<longleftrightarrow> (case s of None \<Rightarrow> False | Some t \<Rightarrow> t \<noteq> [])"

definition digest_given :: "pystr option \<Rightarrow> bool" where
  "digest_given s \<longleftrightarrow> (case s of None \<Rightarrow> False | Some d \<Rightarrow> is_digest d)"

definition mk_context :: "extension_context \<Rightarrow> extension_context result" where
  "mk_context c =
     (if xc_workspace_id c = [] \<or> xc_session_id c = []
        then Inl (ValueError ''extension context identifiers must be non-empty'')
      else if 256 < length (xc_workspace_id c) \<or> 256 < length (xc_session_id c)
        then Inl (ValueError ''extension context identifiers exceed their bounds'')
      else if \<not> (1 \<le> xc_deadline_ms c \<and> xc_deadline_ms c \<le> MAX_DEADLINE_MS)
        then Inl (ValueError ''extension deadline_ms is outside the supported bounds'')
      else case xc_phase c of
          COMMISSIONING \<Rightarrow>
            if xc_policy_snapshot_id c \<noteq> None \<or> xc_policy_ref c \<noteq> None
              then Inl (ValueError ''commissioning context cannot claim a policy snapshot'')
            else if \<not> digest_given (xc_commissioning_context_digest c) \<or> xc_policy_digest c \<noteq> None
              then Inl (ValueError ''commissioning context requires its exact context digest'')
            else Inr c
        | PROJECTION \<Rightarrow>
            if \<not> truthy (xc_policy_snapshot_id c) \<or> xc_commissioning_context_digest c \<noteq> None
              then Inl (ValueError ''projection context requires a policy snapshot id'')
            else if (xc_policy_ref c = None) \<noteq> (xc_policy_digest c = None)
              then Inl (ValueError ''projection policy ref and digest must be supplied together'')
            else if xc_policy_digest c \<noteq> None \<and> \<not> digest_given (xc_policy_digest c)
              then Inl (ValueError ''projection policy digest must be sha256:<hex>'')
            else Inr c)"

definition portable_id :: "pystr \<Rightarrow> bool" where
  "portable_id s \<longleftrightarrow> portable ''._-'' 159 s"

record extension_request =
  rq_extension_id :: pystr
  rq_context :: extension_context
  rq_input :: jdict
  rq_max_result_bytes :: int

definition mk_request :: "extension_request \<Rightarrow> extension_request result" where
  "mk_request r =
     (if \<not> portable_id (rq_extension_id r)
        then Inl (ValueError ''extension_id must be a portable 1..160 character identifier'')
      else if \<not> (1 \<le> rq_max_result_bytes r \<and> rq_max_result_bytes r \<le> MAX_RESULT_BYTES)
        then Inl (ValueError ''max_result_bytes is outside the supported bounds'')
      else bind_r (validate_json 0 MAX_JSON_ITEMS (JObj (rq_input r))) (\<lambda>_. Inr r))"

record extension_result =
  xr_extension_id :: pystr
  xr_status :: extension_status
  xr_kind :: "extension_kind option"
  xr_payload :: jdict
  xr_diagnostics :: "pystr list"
  xr_max_bytes :: int

text \<open>The encoding of a result; the loop in it always returns, so that the second case never arises.\<close>

definition encoded_result :: "extension_result \<Rightarrow> bytes result" where
  "encoded_result r =
     (case result_bytes (xr_extension_id r) (xr_status r) (xr_kind r) (xr_payload r) (xr_diagnostics r) of
        Some b \<Rightarrow> b | None \<Rightarrow> Inl (ValueError ''size iteration does not return''))"

definition mk_result :: "extension_result \<Rightarrow> extension_result result" where
  "mk_result r =
     (if \<not> portable_id (xr_extension_id r) then Inl (ValueError ''extension_id must be a portable identifier'')
      else if \<not> (1 \<le> xr_max_bytes r \<and> xr_max_bytes r \<le> MAX_RESULT_BYTES)
        then Inl (ValueError ''max_bytes is outside the supported bounds'')
      else bind_r (validate_json 0 MAX_JSON_ITEMS (JObj (xr_payload r))) (\<lambda>_.
        if xr_status r = ACCEPTED \<and> xr_kind r = None
          then Inl (ValueError ''accepted extension results require a contribution kind'')
        else if xr_status r \<noteq> ACCEPTED \<and> xr_kind r \<noteq> None
          then Inl (ValueError ''non-accepted extension results cannot carry a contribution kind'')
        else if xr_status r \<noteq> ACCEPTED \<and> xr_payload r \<noteq> []
          then Inl (ValueError ''non-accepted extension results cannot carry a payload'')
        else if list_ex (\<lambda>d. 512 < length d) (xr_diagnostics r)
          then Inl (ValueError ''extension diagnostics must be short strings'')
        else bind_r (encoded_result r) (\<lambda>b.
          if xr_max_bytes r < int (length b) then Inl (ExtensionResultTooLarge ''extension result exceeds its limit'')
          else Inr r)))"

definition result_to_dict :: "extension_result \<Rightarrow> json result" where
  "result_to_dict r = bind_r (encoded_result r) (\<lambda>b.
     Inr (JObj [(lit ''extension_id'', JStr (xr_extension_id r)), (lit ''status'', JStr (status_value (xr_status r))),
       (lit ''kind'', kind_json (xr_kind r)), (lit ''payload'', JObj (xr_payload r)),
       (lit ''diagnostics'', JArr (map JStr (xr_diagnostics r))), (lit ''encoded_bytes'', JInt (int (length b)))]))"

definition accepted_result ::
  "extension_request \<Rightarrow> extension_kind \<Rightarrow> jdict \<Rightarrow> pystr list \<Rightarrow> extension_result result" where
  "accepted_result request kind payload diagnostics =
     mk_result \<lparr>xr_extension_id = rq_extension_id request, xr_status = ACCEPTED, xr_kind = Some kind,
       xr_payload = payload, xr_diagnostics = diagnostics, xr_max_bytes = rq_max_result_bytes request\<rparr>"

definition failed_result :: "extension_request \<Rightarrow> extension_status \<Rightarrow> pystr list \<Rightarrow> extension_result result" where
  "failed_result request status diagnostics =
     (if status = ACCEPTED \<or> status = EMPTY then Inl (ValueError ''failed() requires a failure status'')
      else mk_result \<lparr>xr_extension_id = rq_extension_id request, xr_status = status, xr_kind = None,
        xr_payload = [], xr_diagnostics = diagnostics, xr_max_bytes = rq_max_result_bytes request\<rparr>)"

section \<open>Properties\<close>

lemma encoded_result_Inr:
  assumes "encoded_result r = Inr b"
  shows "b = utf8_encode (dumps False (sized_json (result_fields (xr_extension_id r) (xr_status r) (xr_kind r)
    (xr_payload r) (xr_diagnostics r)) (length b)))"
proof -
  obtain s where s: "result_bytes (xr_extension_id r) (xr_status r) (xr_kind r) (xr_payload r) (xr_diagnostics r) = Some s"
    "case s of Inl e \<Rightarrow> encode_json (JObj (result_fields (xr_extension_id r) (xr_status r) (xr_kind r)
        (xr_payload r) (xr_diagnostics r))) = None
     | Inr b \<Rightarrow> b = utf8_encode (dumps False (sized_json (result_fields (xr_extension_id r) (xr_status r) (xr_kind r)
        (xr_payload r) (xr_diagnostics r)) (length b)))"
    using result_bytes_ends by metis
  then show ?thesis using assms by (simp add: encoded_result_def)
qed

text \<open>
  C15.  An extension result cannot widen authority: whatever passes the constructor has a payload in
  which no object at any depth has a key that normalises to a reserved authority field (in any
  spelling of case and separators), of bounded depth, item count and string lengths; only an
  accepted result carries a kind or a payload; and its encoding fits the negotiated byte budget.
\<close>

theorem extension_result_bounded:
  assumes "mk_result r = Inr r'"
  shows "r' = r \<and> json_fits 0 (JObj (xr_payload r)) \<and> json_items (JObj (xr_payload r)) \<le> MAX_JSON_ITEMS \<and>
    (xr_status r \<noteq> ACCEPTED \<longrightarrow> xr_kind r = None \<and> xr_payload r = []) \<and> (xr_status r = ACCEPTED \<longrightarrow> xr_kind r \<noteq> None) \<and>
    (\<exists>b. encoded_result r = Inr b \<and> int (length b) \<le> xr_max_bytes r \<and> xr_max_bytes r \<le> MAX_RESULT_BYTES \<and>
       b = utf8_encode (dumps False (sized_json (result_fields (xr_extension_id r) (xr_status r) (xr_kind r)
         (xr_payload r) (xr_diagnostics r)) (length b))))"
  using assms encoded_result_Inr [of r]
  by (auto simp: mk_result_def bind_r_Inr_iff validate_json_iff simp del: json_fits.simps json_items.simps split: if_splits)

definition example_result :: extension_result where
  "example_result = \<lparr>xr_extension_id = lit ''ext.demo'', xr_status = ACCEPTED, xr_kind = Some FACTS,
     xr_payload = [(lit ''facts'', JObj [(lit ''os'', JStr (lit ''linux''))])], xr_diagnostics = [], xr_max_bytes = 4096\<rparr>"

theorem extension_result_bounded_witness:
  "mk_result example_result = Inr example_result \<and> json_fits 0 (JObj (xr_payload example_result))"
proof -
  have r: "mk_result example_result = Inr example_result" by code_simp
  from extension_result_bounded [OF r] r show ?thesis by blast
qed

end
