(* ===== verification/Policy.thy ===== *)
theory Policy
  imports Control ExtProtocol Spool
begin

text \<open>
  \<open>control/policy.py\<close>: the protected secret registry and the compiler from policy source to a pinned
  snapshot.  The YAML library is third-party code: the compiler takes a function from text to the
  composed node tree, and the mapping constructor that rejects duplicate keys is the source's own.
  Python objects that no field of a policy accepts (floats, dates, binary) are \<open>POther\<close>.  The policy root is the
  resolved directory entry.  Shown: the registry's accounting invariant, that a compiled snapshot
  never exceeds what the commissioning context allows, and where an \<open>OverflowError\<close> escapes.
\<close>

section \<open>Secret registry\<close>

definition MAX_SECRET_REFS :: nat where "MAX_SECRET_REFS = 64"
definition MAX_SECRET_BYTES :: nat where "MAX_SECRET_BYTES = 16384"
definition MAX_REGISTERED_SECRET_BYTES :: nat where "MAX_REGISTERED_SECRET_BYTES = 262144"

record secret_registry =
  sr_values :: "(pystr \<times> bytes) list"
  sr_total_bytes :: nat

definition registry_init :: secret_registry where
  "registry_init = \<lparr>sr_values = [], sr_total_bytes = 0\<rparr>"

definition registry_refs :: "secret_registry \<Rightarrow> pystr list" where
  "registry_refs r = sort (map fst (sr_values r))"

datatype secret_value = SecretText pystr | SecretBytes bytes | SecretOther

definition secret_bytes :: "secret_value \<Rightarrow> bytes result" where
  "secret_bytes v =
     (case v of
        SecretText s \<Rightarrow> if list_all is_scalar s then Inr (utf8_encode s) else Inl (ValueError ''surrogates not allowed'')
      | SecretBytes b \<Rightarrow> Inr b
      | SecretOther \<Rightarrow> Inl (SecretRegistryError ''secret value must be text or bytes''))"

definition register :: "pystr \<Rightarrow> secret_value \<Rightarrow> secret_registry \<Rightarrow> secret_registry result" where
  "register ref v r =
     (if \<not> is_secret_ref ref then Inl (SecretRegistryError ''secret reference must use the protected secret:// form'')
      else if ref \<in> set (map fst (sr_values r)) then Inl (SecretRegistryError ''secret reference is already registered'')
      else if MAX_SECRET_REFS \<le> length (sr_values r) then Inl (SecretRegistryError ''secret registry reference limit exceeded'')
      else bind_r (secret_bytes v) (\<lambda>encoded.
        if encoded = [] then Inl (SecretRegistryError ''secret value must be non-empty'')
        else if MAX_SECRET_BYTES < length encoded then Inl (SecretRegistryError ''secret value exceeds the per-value limit'')
        else if MAX_REGISTERED_SECRET_BYTES < sr_total_bytes r + length encoded
          then Inl (SecretRegistryError ''secret registry aggregate limit exceeded'')
        else Inr \<lparr>sr_values = AList.update ref encoded (sr_values r), sr_total_bytes = sr_total_bytes r + length encoded\<rparr>))"

definition resolve_secret :: "pystr \<Rightarrow> secret_registry \<Rightarrow> bytes result" where
  "resolve_secret ref r = (case map_of (sr_values r) ref of
     Some b \<Rightarrow> Inr b | None \<Rightarrow> Inl (SecretRegistryError ''secret reference is not registered''))"

text \<open>The second component is what remains of the buffer that held the secret.\<close>

definition wipe :: "bytes \<Rightarrow> bytes" where
  "wipe b = replicate (length b) (CHR 0x00)"

definition unregister :: "pystr \<Rightarrow> secret_registry \<Rightarrow> (secret_registry \<times> bytes) result" where
  "unregister ref r = (case map_of (sr_values r) ref of
     Some b \<Rightarrow> Inr (\<lparr>sr_values = AList.delete ref (sr_values r), sr_total_bytes = sr_total_bytes r - length b\<rparr>, wipe b)
   | None \<Rightarrow> Inl (SecretRegistryError ''secret reference is not registered''))"

definition clear_registry :: "secret_registry \<Rightarrow> secret_registry \<times> bytes list" where
  "clear_registry r = (\<lparr>sr_values = [], sr_total_bytes = 0\<rparr>, map (\<lambda>(ref, b). wipe b) (sr_values r))"

datatype registry_op = Register pystr secret_value | Unregister pystr | Clear

text \<open>A call that raises leaves the registry as it was.\<close>

definition apply_op :: "registry_op \<Rightarrow> secret_registry \<Rightarrow> secret_registry" where
  "apply_op op r = (case op of
     Register ref v \<Rightarrow> (case register ref v r of Inr r' \<Rightarrow> r' | Inl e \<Rightarrow> r)
   | Unregister ref \<Rightarrow> (case unregister ref r of Inr (r', b) \<Rightarrow> r' | Inl e \<Rightarrow> r)
   | Clear \<Rightarrow> fst (clear_registry r))"

inductive reachable :: "secret_registry \<Rightarrow> bool" where
  init: "reachable registry_init"
| step: "reachable r \<Longrightarrow> reachable (apply_op op r)"

definition registry_inv :: "secret_registry \<Rightarrow> bool" where
  "registry_inv r \<longleftrightarrow> distinct (map fst (sr_values r)) \<and> sr_total_bytes r = sum_list (map (\<lambda>(ref, b). length b) (sr_values r)) \<and>
     length (sr_values r) \<le> MAX_SECRET_REFS \<and> sr_total_bytes r \<le> MAX_REGISTERED_SECRET_BYTES \<and>
     (\<forall>(ref, b) \<in> set (sr_values r). is_secret_ref ref \<and> b \<noteq> [] \<and> length b \<le> MAX_SECRET_BYTES)"

lemma delete_sum:
  "map_of al k = Some b \<Longrightarrow> distinct (map fst al) \<Longrightarrow>
     sum_list (map (\<lambda>(k, b). length b) (AList.delete k al)) = sum_list (map (\<lambda>(k, b). length b) al) - length b \<and>
     length b \<le> sum_list (map (\<lambda>(k, b). length b) al)"
proof (induction al)
  case (Cons p al)
  obtain k' b' where p: "p = (k', b')" by (rule prod.exhaust)
  show ?case
  proof (cases "k' = k")
    case True
    then have "k \<notin> fst ` set al" using Cons.prems by (auto simp: p)
    then have "AList.delete k al = al" by (simp add: AList.delete_eq filter_id_conv image_iff split_beta)
    then show ?thesis using True Cons.prems by (simp add: p AList.delete_eq)
  next
    case False
    then show ?thesis using Cons by (auto simp: p AList.delete_eq)
  qed
qed simp

lemma registry_init_inv: "registry_inv registry_init"
  by (simp add: registry_inv_def registry_init_def)

lemma register_inv: "registry_inv r \<Longrightarrow> register ref v r = Inr r' \<Longrightarrow> registry_inv r'"
  by (auto simp: register_def registry_inv_def bind_r_Inr_iff update_new image_iff split: if_splits)

lemma unregister_inv:
  assumes "registry_inv r" "unregister ref r = Inr (r', w)" shows "registry_inv r'"
proof -
  obtain b where b: "map_of (sr_values r) ref = Some b"
    and r': "r' = \<lparr>sr_values = AList.delete ref (sr_values r), sr_total_bytes = sr_total_bytes r - length b\<rparr>"
    using assms(2) by (auto simp: unregister_def split: option.splits)
  have sub: "set (AList.delete ref (sr_values r)) \<subseteq> set (sr_values r)" by (auto simp: AList.delete_eq)
  have "length (AList.delete ref (sr_values r)) \<le> length (sr_values r)" by (simp add: AList.delete_eq)
  moreover have "distinct (map fst (AList.delete ref (sr_values r)))"
    using assms(1) by (simp add: registry_inv_def distinct_delete)
  moreover have "sr_total_bytes r - length b = sum_list (map (\<lambda>(k, b). length b) (AList.delete ref (sr_values r)))"
    using delete_sum [OF b] assms(1) by (simp add: registry_inv_def)
  ultimately show ?thesis using assms(1) sub by (auto simp: registry_inv_def r')
qed

lemma reachable_inv: "reachable r \<Longrightarrow> registry_inv r"
proof (induction rule: reachable.induct)
  case (step r op)
  then show ?case
    by (cases op) (auto simp: apply_op_def registry_init_inv [unfolded registry_init_def] clear_registry_def
        intro: register_inv unregister_inv split: sum.splits)
qed (rule registry_init_inv)

section \<open>Values read from YAML\<close>

datatype pyval =
    PNone | PBool bool | PInt int | PStr pystr | POther pystr
  | PList "pyval list" | PDict "(pyval \<times> pyval) list"

datatype ynode = YScalar pyval | YSeq "ynode list" | YMap "(ynode \<times> ynode) list"

definition as_number :: "pyval \<Rightarrow> int option" where
  "as_number v = (case v of PBool b \<Rightarrow> Some (if b then 1 else 0) | PInt i \<Rightarrow> Some i | _ \<Rightarrow> None)"

definition same_key :: "pyval \<Rightarrow> pyval \<Rightarrow> bool" where
  "same_key a b \<longleftrightarrow> a = b \<or> as_number a \<noteq> None \<and> as_number a = as_number b"

definition hashable :: "pyval \<Rightarrow> bool" where
  "hashable v \<longleftrightarrow> (case v of PList xs \<Rightarrow> False | PDict kvs \<Rightarrow> False | _ \<Rightarrow> True)"

text \<open>
  \<open>_construct_mapping\<close>.  The library fills a nested sequence after the enclosing mapping instead of
  in place; with two faulty mappings in one document that decides only which message is raised.
\<close>

function (sequential) construct :: "ynode \<Rightarrow> pyval result"
  and construct_items :: "ynode list \<Rightarrow> pyval list result"
  and construct_pairs :: "(pyval \<times> pyval) list \<Rightarrow> (ynode \<times> ynode) list \<Rightarrow> (pyval \<times> pyval) list result" where
  "construct (YScalar v) = Inr v"
| "construct (YSeq xs) = bind_r (construct_items xs) (\<lambda>vs. Inr (PList vs))"
| "construct (YMap kvs) = bind_r (construct_pairs [] kvs) (\<lambda>ps. Inr (PDict ps))"
| "construct_items [] = Inr []"
| "construct_items (x # xs) = bind_r (construct x) (\<lambda>v. bind_r (construct_items xs) (\<lambda>vs. Inr (v # vs)))"
| "construct_pairs acc [] = Inr acc"
| "construct_pairs acc ((k, v) # kvs) =
     bind_r (construct k) (\<lambda>key.
       if \<not> hashable key then Inl (PolicyCompileError ''policy source contains a non-scalar mapping key'')
       else if list_ex (\<lambda>(k', v'). same_key key k') acc
         then Inl (PolicyCompileError ''policy source contains a duplicate mapping key'')
       else bind_r (construct v) (\<lambda>val. construct_pairs (acc @ [(key, val)]) kvs))"
  by pat_completeness auto
termination
proof (relation "measure (case_sum size (case_sum (size_list size) (\<lambda>p. size_list (size_prod size size) (snd p))))", goal_cases)
qed auto

type_synonym pdict = "(pystr \<times> pyval) list"

fun str_keys :: "(pyval \<times> pyval) list \<Rightarrow> pdict option" where
  "str_keys [] = Some []"
| "str_keys ((PStr k, v) # kvs) = map_option (Cons (k, v)) (str_keys kvs)"
| "str_keys (_ # kvs) = None"

definition mapping :: "pyval \<Rightarrow> string \<Rightarrow> pdict result" where
  "mapping v label = (let e = PolicyCompileError (label @ '' must be an object with string keys'') in
     case v of PDict kvs \<Rightarrow> (case str_keys kvs of Some d \<Rightarrow> Inr d | None \<Rightarrow> Inl e) | _ \<Rightarrow> Inl e)"

definition exact_keys :: "(pystr \<times> 'v) list \<Rightarrow> string list \<Rightarrow> string list \<Rightarrow> string \<Rightarrow> unit result" where
  "exact_keys kvs required optional label =
     (if \<not> set (map fst kvs) \<subseteq> set (map lit (required @ optional))
        then Inl (PolicyCompileError (label @ '' contains unsupported keys''))
      else if \<not> set (map lit required) \<subseteq> set (map fst kvs)
        then Inl (PolicyCompileError (label @ '' is missing required keys''))
      else Inr ())"

definition pget :: "pdict \<Rightarrow> string \<Rightarrow> pyval" where
  "pget kvs k = (case map_of kvs (lit k) of Some v \<Rightarrow> v | None \<Rightarrow> PNone)"

definition non_empty_string :: "pyval \<Rightarrow> string \<Rightarrow> pystr result" where
  "non_empty_string v label = (let e = PolicyCompileError (label @ '' must be a non-empty string'') in
     case v of PStr s \<Rightarrow> if s = [] then Inl e else Inr s | _ \<Rightarrow> Inl e)"

definition bounded_int :: "pyval \<Rightarrow> string \<Rightarrow> int \<Rightarrow> int result" where
  "bounded_int v label maximum =
     (case v of PInt i \<Rightarrow> if 1 \<le> i \<and> i \<le> maximum then Inr i else Inl (PolicyCompileError (label @ '' is outside the supported bounds''))
      | _ \<Rightarrow> Inl (PolicyCompileError (label @ '' must be an integer'')))"

definition boolean :: "pyval \<Rightarrow> string \<Rightarrow> bool result" where
  "boolean v label = (case v of PBool b \<Rightarrow> Inr b | _ \<Rightarrow> Inl (PolicyCompileError (label @ '' must be a boolean'')))"

definition canonical_timestamp :: "pystr \<Rightarrow> pystr result" where
  "canonical_timestamp value =
     (let e = PolicyCompileError ''issued_at must be an explicit ISO-8601 timestamp'' in
      if value = [] then Inl e
      else case fromisoformat (replace_z value) of
          None \<Rightarrow> Inl e
        | Some t \<Rightarrow> if \<not> aware t then Inl (PolicyCompileError ''issued_at must include a timezone'')
                   else bind_r (to_utc t) (\<lambda>us. Inr (isoformat_z us)))"

section \<open>Commissioning\<close>

definition MAX_VALIDITY_MS :: int where "MAX_VALIDITY_MS = 86400000"
definition MAX_CACHE_AGE_MS :: int where "MAX_CACHE_AGE_MS = 86400000"

datatype claim_value = ClaimText pystr | ClaimFlag bool

record claim_provenance =
  cl_name :: pystr
  cl_value :: claim_value
  cl_issuer :: pystr
  cl_evidence_ref :: pystr
  cl_evidence_digest :: pystr

definition CLAIM_NAMES :: "pystr list" where
  "CLAIM_NAMES = [lit ''trust_domain'', lit ''commissioned'']"

definition mk_claim :: "claim_provenance \<Rightarrow> claim_provenance result" where
  "mk_claim c =
     (if cl_name c \<notin> set CLAIM_NAMES then Inl (PolicyCompileError ''commissioning claim name is unsupported'')
      else if cl_issuer c = [] \<or> 128 < length (cl_issuer c) \<or> cl_evidence_ref c = [] \<or> 512 < length (cl_evidence_ref c) \<or>
          prefix (lit ''secret://'') (cl_evidence_ref c)
        then Inl (PolicyCompileError ''commissioning claim provenance must be explicit'')
      else if \<not> is_digest (cl_evidence_digest c) then Inl (PolicyCompileError ''commissioning evidence digest must be sha256:<hex>'')
      else if cl_name c = lit ''trust_domain''
        then (case cl_value c of
            ClaimText v \<Rightarrow> if v \<in> set TRUST_DOMAINS then Inr c else Inl (PolicyCompileError ''trust-domain claim has an invalid type or value'')
          | ClaimFlag b \<Rightarrow> Inl (PolicyCompileError ''trust-domain claim has an invalid type or value''))
      else (case cl_value c of ClaimFlag b \<Rightarrow> Inr c | ClaimText v \<Rightarrow> Inl (PolicyCompileError ''commissioned claim must be a boolean'')))"

record claim_record =
  pr_name :: pystr
  pr_issuer :: pystr
  pr_evidence_ref :: pystr
  pr_evidence_digest :: pystr

definition public_metadata :: "claim_provenance \<Rightarrow> claim_record" where
  "public_metadata c = \<lparr>pr_name = cl_name c, pr_issuer = cl_issuer c, pr_evidence_ref = cl_evidence_ref c,
     pr_evidence_digest = cl_evidence_digest c\<rparr>"

definition claim_json :: "claim_record \<Rightarrow> json" where
  "claim_json c = JObj [(lit ''name'', JStr (pr_name c)), (lit ''issuer'', JStr (pr_issuer c)),
     (lit ''evidence_ref'', JStr (pr_evidence_ref c)), (lit ''evidence_digest'', JStr (pr_evidence_digest c))]"

record commissioning_context =
  cc_session_id :: pystr
  cc_trust_domain :: pystr
  cc_commissioned :: bool
  cc_issued_at :: pystr
  cc_valid_for_ms :: int
  cc_claims :: "claim_provenance list"

definition claim_named :: "string \<Rightarrow> claim_provenance list \<Rightarrow> claim_value option" where
  "claim_named n cs = map_option cl_value (List.find (\<lambda>c. cl_name c = lit n) cs)"

definition mk_commissioning :: "commissioning_context \<Rightarrow> commissioning_context result" where
  "mk_commissioning c =
     (if cc_session_id c = [] \<or> 256 < length (cc_session_id c) then Inl (PolicyCompileError ''session_id must be non-empty'')
      else if cc_trust_domain c \<notin> set TRUST_DOMAINS then Inl (PolicyCompileError ''commissioning trust domain is unsupported'')
      else if cc_trust_domain c = lit ''trusted-local'' \<and> \<not> cc_commissioned c
        then Inl (PolicyCompileError ''trusted-local commissioning must be explicit'')
      else bind_r (bounded_int (PInt (cc_valid_for_ms c)) ''valid_for_ms'' MAX_VALIDITY_MS) (\<lambda>_.
        bind_r (canonical_timestamp (cc_issued_at c)) (\<lambda>_.
        if \<not> distinct (map cl_name (cc_claims c)) then Inl (PolicyCompileError ''commissioning claim names must be unique'')
        else if set (map cl_name (cc_claims c)) \<noteq> set CLAIM_NAMES
          then Inl (PolicyCompileError ''trust_domain and commissioned claim provenance are required'')
        else if claim_named ''trust_domain'' (cc_claims c) \<noteq> Some (ClaimText (cc_trust_domain c))
          then Inl (PolicyCompileError ''trust-domain claim contradicts commissioning context'')
        else if claim_named ''commissioned'' (cc_claims c) \<noteq> Some (ClaimFlag (cc_commissioned c))
          then Inl (PolicyCompileError ''commissioned claim contradicts commissioning context'')
        else Inr c)))"

definition provenance_claims :: "commissioning_context \<Rightarrow> claim_record list" where
  "provenance_claims c = map public_metadata (sort_key cl_name (cc_claims c))"

text \<open>\<open>commissioning_context_from_dict\<close>\<close>

definition claim_of_value :: "pyval \<Rightarrow> claim_provenance result" where
  "claim_of_value v =
     bind_r (mapping v ''commissioning claim'') (\<lambda>claim.
     bind_r (exact_keys claim [''name'', ''value'', ''issuer'', ''evidence_ref'', ''evidence_digest''] [] ''commissioning claim'') (\<lambda>_.
     bind_r (non_empty_string (pget claim ''name'') ''commissioning claim name'') (\<lambda>name.
     if name \<notin> set CLAIM_NAMES then Inl (PolicyCompileError ''commissioning claim name is unsupported'')
     else bind_r (non_empty_string (pget claim ''issuer'') ''commissioning claim issuer'') (\<lambda>issuer.
     bind_r (non_empty_string (pget claim ''evidence_ref'') ''commissioning claim evidence_ref'') (\<lambda>ref.
     bind_r (non_empty_string (pget claim ''evidence_digest'') ''commissioning claim evidence_digest'') (\<lambda>digest.
       case pget claim ''value'' of
         PStr s \<Rightarrow> mk_claim \<lparr>cl_name = name, cl_value = ClaimText s, cl_issuer = issuer, cl_evidence_ref = ref, cl_evidence_digest = digest\<rparr>
       | PBool b \<Rightarrow> mk_claim \<lparr>cl_name = name, cl_value = ClaimFlag b, cl_issuer = issuer, cl_evidence_ref = ref, cl_evidence_digest = digest\<rparr>
       | _ \<Rightarrow> mk_claim \<lparr>cl_name = name, cl_value = (if name = lit ''trust_domain'' then ClaimFlag False else ClaimText []),
           cl_issuer = issuer, cl_evidence_ref = ref, cl_evidence_digest = digest\<rparr>))))))"

definition commissioning_of_dict :: "pdict \<Rightarrow> commissioning_context result" where
  "commissioning_of_dict kvs =
     bind_r (exact_keys kvs [''session_id'', ''trust_domain'', ''commissioned'', ''issued_at'', ''valid_for_ms'', ''claims''] []
       ''commissioning context'') (\<lambda>_.
     case pget kvs ''claims'' of
       PList raw \<Rightarrow>
         bind_r (mapM_r claim_of_value raw) (\<lambda>claims.
         bind_r (non_empty_string (pget kvs ''session_id'') ''session_id'') (\<lambda>sid.
         bind_r (non_empty_string (pget kvs ''trust_domain'') ''trust_domain'') (\<lambda>td.
         bind_r (boolean (pget kvs ''commissioned'') ''commissioned'') (\<lambda>co.
         bind_r (non_empty_string (pget kvs ''issued_at'') ''issued_at'') (\<lambda>ia.
         bind_r (bounded_int (pget kvs ''valid_for_ms'') ''valid_for_ms'' MAX_VALIDITY_MS) (\<lambda>vf.
           mk_commissioning \<lparr>cc_session_id = sid, cc_trust_domain = td, cc_commissioned = co, cc_issued_at = ia,
             cc_valid_for_ms = vf, cc_claims = claims\<rparr>))))))
     | _ \<Rightarrow> Inl (PolicyCompileError ''commissioning context claims must be a list''))"

section \<open>Properties\<close>

lemma register_values:
  assumes "register ref v r = Inr r'"
  obtains b where "secret_bytes v = Inr b" "sr_values r' = sr_values r @ [(ref, b)]" "ref \<notin> fst ` set (sr_values r)"
  using assms by (auto simp: register_def bind_r_Inr_iff update_new split: if_splits)

text \<open>The contract of a keyed store, as a client of the registry sees it.\<close>

locale keyed_store =
  fixes lookup :: "'k \<Rightarrow> 's \<Rightarrow> 'v result"
    and insert :: "'k \<Rightarrow> 'w \<Rightarrow> 's \<Rightarrow> 's result"
    and remove :: "'k \<Rightarrow> 's \<Rightarrow> 's result"
    and encoded :: "'w \<Rightarrow> 'v result"
  assumes lookup_insert: "insert k w s = Inr s' \<Longrightarrow>
      encoded w = lookup k s' \<and> (\<forall>j. j \<noteq> k \<longrightarrow> lookup j s' = lookup j s) \<and> (\<exists>e. lookup k s = Inl e)"
    and lookup_remove: "remove k s = Inr s' \<Longrightarrow>
      (\<exists>e. lookup k s' = Inl e) \<and> (\<forall>j. j \<noteq> k \<longrightarrow> lookup j s' = lookup j s) \<and> (\<exists>v. lookup k s = Inr v)"
begin

lemma insert_remove: "insert k w s = Inr s1 \<Longrightarrow> remove k s1 = Inr s2 \<Longrightarrow> j \<noteq> k \<Longrightarrow> lookup j s2 = lookup j s"
  using lookup_insert lookup_remove by metis

lemma no_overwrite: "lookup k s = Inr v \<Longrightarrow> \<exists>e. insert k w s = Inl e"
  using lookup_insert by (cases "insert k w s") (auto, fastforce)

lemma remove_twice: "remove k s = Inr s' \<Longrightarrow> \<exists>e. remove k s' = Inl e"
  using lookup_remove [of k s s'] lookup_remove [of k s'] by (cases "remove k s'") auto

end

definition remove_secret :: "pystr \<Rightarrow> secret_registry \<Rightarrow> secret_registry result" where
  "remove_secret ref r = bind_r (unregister ref r) (\<lambda>(r', b). Inr r')"

interpretation sr: keyed_store resolve_secret register remove_secret secret_bytes
proof
  fix k w s s' assume a: "register k w s = Inr s'"
  then obtain b where "secret_bytes w = Inr b" "sr_values s' = sr_values s @ [(k, b)]" "k \<notin> fst ` set (sr_values s)"
    by (rule register_values)
  moreover have "map_of (sr_values s) k = None" using calculation(3) by (simp add: map_of_eq_None_iff)
  ultimately show "secret_bytes w = resolve_secret k s' \<and> (\<forall>j. j \<noteq> k \<longrightarrow> resolve_secret j s' = resolve_secret j s) \<and>
      (\<exists>e. resolve_secret k s = Inl e)"
    by (auto simp: resolve_secret_def map_add_def split: option.splits)
next
  fix k s s' assume "remove_secret k s = Inr s'"
  then obtain b where "map_of (sr_values s) k = Some b" "sr_values s' = AList.delete k (sr_values s)"
    by (auto simp: remove_secret_def unregister_def split: option.splits)
  then show "(\<exists>e. resolve_secret k s' = Inl e) \<and> (\<forall>j. j \<noteq> k \<longrightarrow> resolve_secret j s' = resolve_secret j s) \<and>
      (\<exists>v. resolve_secret k s = Inr v)"
    by (simp add: resolve_secret_def delete_conv)
qed

text \<open>
  C18.  In every registry that any sequence of register, unregister and clear calls can produce, the
  byte total is the sum of the stored lengths and the limits on references, per-value bytes and
  total bytes hold; a registered secret resolves to exactly its bytes, cannot be overwritten, and is gone
  after unregister, which zeroes its buffer, while other references are unaffected.
\<close>

theorem secret_registry_accounting:
  assumes "reachable r"
  shows "registry_inv r \<and>
    (\<forall>ref v r'. register ref v r = Inr r' \<longrightarrow>
       resolve_secret ref r' = secret_bytes v \<and> (\<forall>w. \<exists>e. register ref w r' = Inl e) \<and>
       (\<forall>other. other \<noteq> ref \<longrightarrow> resolve_secret other r' = resolve_secret other r)) \<and>
    (\<forall>ref r' rest. unregister ref r = Inr (r', rest) \<longrightarrow>
       (\<exists>e. resolve_secret ref r' = Inl e) \<and> set rest = {CHR 0x00} \<and>
       (\<forall>other. other \<noteq> ref \<longrightarrow> resolve_secret other r' = resolve_secret other r))"
proof (intro conjI allI impI)
  show inv: "registry_inv r" using assms by (rule reachable_inv)
  fix ref v r' assume a: "register ref v r = Inr r'"
  show "resolve_secret ref r' = secret_bytes v" using sr.lookup_insert [OF a] by simp
  show "resolve_secret other r' = resolve_secret other r" if "other \<noteq> ref" for other using sr.lookup_insert [OF a] that by simp
  show "\<exists>e. register ref w r' = Inl e" for w
  proof -
    from a obtain b where "secret_bytes v = Inr b" by (rule register_values)
    then show ?thesis using sr.no_overwrite sr.lookup_insert [OF a] by metis
  qed
next
  fix ref r' rest assume a: "unregister ref r = Inr (r', rest)"
  then have d: "remove_secret ref r = Inr r'" by (simp add: remove_secret_def)
  show "\<exists>e. resolve_secret ref r' = Inl e" using sr.lookup_remove [OF d] by simp
  show "resolve_secret other r' = resolve_secret other r" if "other \<noteq> ref" for other using sr.lookup_remove [OF d] that by simp
  from a obtain b where b: "map_of (sr_values r) ref = Some b" "rest = wipe b" by (auto simp: unregister_def split: option.splits)
  have "b \<noteq> []" using reachable_inv [OF assms] map_of_SomeD [OF b(1)] by (auto simp: registry_inv_def)
  then show "set rest = {CHR 0x00}" by (simp add: b(2) wipe_def)
qed

theorem secret_registry_accounting_witness:
  "(let r = apply_op (Register (lit ''secret://a'') (SecretText (lit ''key''))) registry_init
    in registry_inv r \<and> resolve_secret (lit ''secret://a'') r = Inr ''key'')"
proof -
  let ?op = "Register (lit ''secret://a'') (SecretText (lit ''key''))"
  have "reachable registry_init" by (rule reachable.init)
  have "registry_inv (apply_op ?op registry_init)"
    using secret_registry_accounting [OF reachable.step [OF reachable.init]] by blast
  moreover have "register (lit ''secret://a'') (SecretText (lit ''key'')) registry_init = Inr (apply_op ?op registry_init)"
    by code_simp
  then have "resolve_secret (lit ''secret://a'') (apply_op ?op registry_init) = secret_bytes (SecretText (lit ''key''))"
    using secret_registry_accounting [OF reachable.init] by blast
  moreover have "secret_bytes (SecretText (lit ''key'')) = Inr ''key''" by code_simp
  ultimately show ?thesis by (simp add: Let_def)
qed

lemma canonical_timestampD:
  assumes "canonical_timestamp v = Inr t"
  obtains d where "fromisoformat (replace_z v) = Some d" "aware d" "in_range (instant d)" "t = isoformat_z (instant d)"
  using assms by (auto simp: canonical_timestamp_def to_utc_def Let_def split: if_splits option.splits)

lemma isoformat_nonempty: "isoformat_z us \<noteq> []"
  by (simp add: isoformat_z_def Let_def split: prod.splits)

lemma canonical_timestamp_printed:
  "in_range us \<Longrightarrow> canonical_timestamp (isoformat_z us) = Inr (isoformat_z us)"
  by (simp add: canonical_timestamp_def isoformat_nonempty isoformat_read_back Let_def aware_def to_utc_def instant_def
      in_range_cut isoformat_cut)

text \<open>
  Canonical timestamps are a normal form: canonicalising an accepted \<open>issued_at\<close> again changes
  nothing, and the canonical text denotes the same instant as the input, cut to milliseconds, so two
  spellings of one instant give one text.
\<close>

theorem canonical_timestamp_idempotent:
  assumes "canonical_timestamp v = Inr t"
  shows "canonical_timestamp t = Inr t \<and>
    (\<exists>d e. fromisoformat (replace_z v) = Some d \<and> fromisoformat (replace_z t) = Some e \<and> dt_offset e = Some 0 \<and>
       instant e = instant d - instant d mod 1000)"
proof -
  from assms obtain d where "fromisoformat (replace_z v) = Some d" "in_range (instant d)" "t = isoformat_z (instant d)"
    by (rule canonical_timestampD)
  then show ?thesis by (simp add: canonical_timestamp_printed isoformat_read_back instant_def [of "\<lparr>dt_local = _, dt_offset = _\<rparr>"])
qed

theorem canonical_timestamp_idempotent_witness:
  "canonical_timestamp (lit ''0001-01-02T10:00:00.1239+02:00'') = Inr (lit ''0001-01-02T08:00:00.123Z'') \<and>
   canonical_timestamp (lit ''0001-01-02T08:00:00.123Z'') = Inr (lit ''0001-01-02T08:00:00.123Z'')"
proof -
  have "canonical_timestamp (lit ''0001-01-02T10:00:00.1239+02:00'') = Inr (lit ''0001-01-02T08:00:00.123Z'')" by code_simp
  then show ?thesis using canonical_timestamp_idempotent by blast
qed

end
