(* ===== verification/Compiler.thy ===== *)
theory Compiler
  imports Policy
begin

text \<open>
  \<open>control/policy.py\<close>, from reading the source file to the pinned snapshot.  The policy root is the
  entry its path resolves to (\<open>None\<close> when it does not resolve); the working of the YAML library is the
  argument \<open>yaml\<close>, which returns the composed nodes, \<open>None\<close> when it raises a \<open>YAMLError\<close>, or another
  exception of a scalar constructor.  Shown: what is read is exactly the bounded regular file; a
  compiled snapshot stays within its commissioning context; its digest is the one recomputed from
  its own document; the order of sinks does not matter; and which exceptions \<open>lint\<close> lets through.
\<close>

section \<open>Reading the source\<close>

definition MAX_POLICY_SOURCE_BYTES :: nat where "MAX_POLICY_SOURCE_BYTES = 1048576"

function read_chunks :: "nat \<Rightarrow> bytes \<Rightarrow> bytes" where
  "read_chunks remaining b =
     (if remaining = 0 \<or> b = [] then []
      else let n = min 65536 remaining; chunk = take n b in chunk @ read_chunks (remaining - length chunk) (drop n b))"
  by pat_completeness auto
termination by (relation "measure (\<lambda>(remaining, b). length b)") (auto simp: min_def)

declare read_chunks.simps [simp del]

definition unsafe_source :: exn where
  "unsafe_source = PolicySourcePathError ''policy source cannot be opened safely''"

definition read_file :: "node option \<Rightarrow> bytes result" where
  "read_file entry =
     (let unbounded = Inl (PolicySourcePathError ''policy source must be a bounded regular file'') in
      case entry of
        None \<Rightarrow> Inl unsafe_source
      | Some Symlink \<Rightarrow> Inl unsafe_source
      | Some (FileLink c) \<Rightarrow> Inl unsafe_source
      | Some (Broken m e) \<Rightarrow> Inl unsafe_source
      | Some Special \<Rightarrow> unbounded
      | Some (Dir m cs) \<Rightarrow> unbounded
      | Some (File m b) \<Rightarrow>
          if MAX_POLICY_SOURCE_BYTES < length b then unbounded
          else let body = read_chunks (MAX_POLICY_SOURCE_BYTES + 1) b in
            if MAX_POLICY_SOURCE_BYTES < length body then Inl (PolicySourcePathError ''policy source exceeds the byte limit'')
            else Inr body)"

text \<open>Every step opens one name without following a link; a name the system interface cannot take raises \<open>ValueError\<close>.\<close>

fun open_parts :: "pystr list \<Rightarrow> node \<Rightarrow> bytes result" where
  "open_parts [] n = Inl unsafe_source"
| "open_parts (p # ps) n =
     (if \<not> os_name p then Inl (ValueError ''embedded null byte'')
      else let entry = node_get n [p] in
        if ps = [] then read_file entry
        else (case entry of Some (Dir m cs) \<Rightarrow> open_parts ps (Dir m cs) | _ \<Rightarrow> Inl unsafe_source))"

definition read_policy_source :: "node option \<Rightarrow> pystr \<Rightarrow> bytes result" where
  "read_policy_source root source_path =
     (if path_absolute source_path \<or> path_parts source_path = [] \<or> lit ''..'' \<in> set (path_parts source_path)
        then Inl (PolicySourcePathError ''policy source must be a safe relative path'')
      else case root of
          None \<Rightarrow> Inl (PolicySourcePathError ''policy root cannot be resolved safely'')
        | Some n \<Rightarrow> if \<not> is_dir n then Inl (PolicySourcePathError ''policy root must be a directory'')
                   else open_parts (path_parts source_path) n)"

type_synonym yaml_loader = "pystr \<Rightarrow> ynode option result"

definition parse_source :: "yaml_loader \<Rightarrow> bytes \<Rightarrow> pdict result" where
  "parse_source yaml body =
     (let invalid = Inl (PolicyCompileError ''policy source is not valid UTF-8 YAML'') in
      case utf8_strict body of
        None \<Rightarrow> invalid
      | Some s \<Rightarrow>
          if \<not> list_all is_scalar s then invalid
          else bind_r (yaml s) (\<lambda>composed.
            case composed of None \<Rightarrow> invalid | Some n \<Rightarrow> bind_r (construct n) (\<lambda>v. mapping v ''policy source'')))"

section \<open>Validating the source\<close>

record policy_source =
  so_policy_ref :: pystr
  so_max_age_ms :: int
  so_sinks :: "sink_policy list"
  so_commitment :: capture_commitment
  so_durability :: capture_durability
  so_required :: bool
  so_scope :: command_scope

definition commitment_of :: "pystr \<Rightarrow> capture_commitment option" where
  "commitment_of s = List.find (\<lambda>c. commitment_value c = s) [MEMORY_ONLY, PROCESS_LOCAL, HOST_PERSISTENT, REPLICATED]"

definition durability_of :: "pystr \<Rightarrow> capture_durability option" where
  "durability_of s = List.find (\<lambda>d. durability_value d = s) [DurNone, DurHost, DurReplica, DurAuthoritative]"

definition validated_capture :: "pyval \<Rightarrow> (capture_commitment \<times> capture_durability \<times> bool) result" where
  "validated_capture v =
     bind_r (mapping v ''capture'') (\<lambda>capture.
     bind_r (exact_keys capture [''commitment'', ''durability'', ''required''] [] ''capture'') (\<lambda>_.
     bind_r (non_empty_string (pget capture ''commitment'') ''capture.commitment'') (\<lambda>commitment.
     bind_r (non_empty_string (pget capture ''durability'') ''capture.durability'') (\<lambda>durability.
     bind_r (boolean (pget capture ''required'') ''capture.required'') (\<lambda>required.
       case (commitment_of commitment, durability_of durability) of
         (Some c, Some d) \<Rightarrow> Inr (c, d, required)
       | _ \<Rightarrow> Inl (PolicyCompileError ''capture contains an unsupported commitment or durability''))))))"

text \<open>A constructor called inside \<open>try ... except ValueError\<close>.\<close>

definition is_value_error :: "exn \<Rightarrow> bool" where
  "is_value_error e = (case e of TypeError m \<Rightarrow> False | OSError \<Rightarrow> False | PolicyError m \<Rightarrow> False | PolicyNotFoundError n \<Rightarrow> False
     | PolicyCycleError n \<Rightarrow> False | OverflowError m \<Rightarrow> False | NativeEngineUnavailable m \<Rightarrow> False | CancelledError \<Rightarrow> False | _ \<Rightarrow> True)"

definition or_compile_error :: "string \<Rightarrow> 'a result \<Rightarrow> 'a result" where
  "or_compile_error m r = (case r of Inl e \<Rightarrow> Inl (if is_value_error e then PolicyCompileError m else e) | Inr x \<Rightarrow> Inr x)"

definition validated_ceiling :: "pdict \<Rightarrow> pystr option result" where
  "validated_ceiling sink =
     (if lit ''classification_ceiling'' \<notin> set (map fst sink) then Inr None
      else bind_r (non_empty_string (pget sink ''classification_ceiling'') ''sink.classification_ceiling'') (\<lambda>c.
        if c \<notin> set CLASSIFICATIONS then Inl (PolicyCompileError ''sink classification ceiling is unsupported'') else Inr (Some c)))"

definition validated_sink :: "pystr list \<Rightarrow> pyval \<Rightarrow> sink_policy result" where
  "validated_sink names v =
     bind_r (mapping v ''sink'') (\<lambda>sink.
     bind_r (exact_keys sink [''name'', ''trust_domain'', ''disclosure'', ''redaction_required''] [''classification_ceiling''] ''sink'') (\<lambda>_.
     bind_r (non_empty_string (pget sink ''name'') ''sink.name'') (\<lambda>name.
     if name \<notin> set SINK_NAMES then Inl (PolicyCompileError ''sink name is not a supported RunRequest target'')
     else if name \<in> set names then Inl (PolicyCompileError ''sink names must be unique'')
     else bind_r (non_empty_string (pget sink ''trust_domain'') ''sink.trust_domain'') (\<lambda>trust.
     bind_r (non_empty_string (pget sink ''disclosure'') ''sink.disclosure'') (\<lambda>disclosure.
     if trust \<notin> set TRUST_DOMAINS \<or> disclosure \<notin> set DISCLOSURES
       then Inl (PolicyCompileError ''sink contains an unsupported trust or disclosure value'')
     else bind_r (boolean (pget sink ''redaction_required'') ''sink.redaction_required'') (\<lambda>redact.
     bind_r (validated_ceiling sink) (\<lambda>ceiling.
       or_compile_error ''sink trust/disclosure combination is invalid''
         (mk_sink \<lparr>sk_name = name, sk_trust_domain = trust, sk_disclosure = disclosure, sk_redaction_required = redact,
            sk_classification_ceiling = ceiling\<rparr>))))))))"

fun validated_sinks :: "pystr list \<Rightarrow> pyval list \<Rightarrow> sink_policy list result" where
  "validated_sinks names [] = Inr []"
| "validated_sinks names (v # vs) =
     bind_r (validated_sink names v) (\<lambda>k. bind_r (validated_sinks (sk_name k # names) vs) (\<lambda>ks. Inr (k # ks)))"

definition sinks_of :: "pyval \<Rightarrow> sink_policy list result" where
  "sinks_of v = (case v of
     PList raw \<Rightarrow>
       if raw = [] then Inl (PolicyCompileError ''sinks must be a non-empty list'')
       else if length SINK_NAMES < length raw then Inl (PolicyCompileError ''sinks exceeds the supported target count'')
       else validated_sinks [] raw
   | _ \<Rightarrow> Inl (PolicyCompileError ''sinks must be a non-empty list''))"

fun strings :: "pyval list \<Rightarrow> pystr list option" where
  "strings [] = Some []"
| "strings (PStr s # vs) = map_option (Cons s) (strings vs)"
| "strings (_ # vs) = None"

fun argvs :: "pyval list \<Rightarrow> pystr list list option" where
  "argvs [] = Some []"
| "argvs (PList xs # vs) = (case strings xs of Some a \<Rightarrow> map_option (Cons a) (argvs vs) | None \<Rightarrow> None)"
| "argvs (_ # vs) = None"

definition list_field :: "(pyval list \<Rightarrow> 'a option) \<Rightarrow> pyval \<Rightarrow> string \<Rightarrow> 'a result" where
  "list_field f v m = (case v of
     PList xs \<Rightarrow> (case f xs of Some r \<Rightarrow> Inr r | None \<Rightarrow> Inl (PolicyCompileError m))
   | _ \<Rightarrow> Inl (PolicyCompileError m))"

definition validated_command_scope :: "pyval \<Rightarrow> command_scope result" where
  "validated_command_scope v =
     (if v = PDict [] then Inr default_scope
      else bind_r (mapping v ''command_scope'') (\<lambda>scope.
        bind_r (exact_keys scope [''execution_modes'', ''explicit_shell_argv'', ''stdin_modes''] [] ''command_scope'') (\<lambda>_.
        bind_r (list_field strings (pget scope ''execution_modes'') ''command_scope.execution_modes must be a string list'') (\<lambda>em.
        bind_r (list_field strings (pget scope ''stdin_modes'') ''command_scope.stdin_modes must be a string list'') (\<lambda>sm.
        bind_r (list_field argvs (pget scope ''explicit_shell_argv'') ''command_scope.explicit_shell_argv must be an argv list'') (\<lambda>av.
          or_compile_error ''command_scope is contradictory or unbounded''
            (mk_scope \<lparr>execution_modes = em, explicit_shell_argv = av, stdin_modes = sm\<rparr>)))))))"

definition scope_value :: "pdict \<Rightarrow> pyval" where
  "scope_value kvs = (case map_of kvs (lit ''command_scope'') of Some v \<Rightarrow> v | None \<Rightarrow> PDict [])"

definition POLICY_SCHEMA :: pystr where "POLICY_SCHEMA = lit ''vuoro.outctl.policy-source/v1''"

definition validated_source :: "pdict \<Rightarrow> policy_source result" where
  "validated_source kvs =
     bind_r (exact_keys kvs [''schema_version'', ''policy_ref'', ''cache'', ''sinks'', ''capture''] [''command_scope''] ''policy source'') (\<lambda>_.
     if pget kvs ''schema_version'' \<noteq> PStr POLICY_SCHEMA
       then Inl (PolicyCompileError ''policy source schema_version is unsupported'')
     else bind_r (non_empty_string (pget kvs ''policy_ref'') ''policy_ref'') (\<lambda>ref.
     if \<not> prefix (lit ''policy://'') ref then Inl (PolicyCompileError ''policy_ref must use the policy:// scheme'')
     else bind_r (mapping (pget kvs ''cache'') ''cache'') (\<lambda>cache.
     bind_r (exact_keys cache [''max_age_ms''] [] ''cache'') (\<lambda>_.
     bind_r (bounded_int (pget cache ''max_age_ms'') ''cache.max_age_ms'' MAX_CACHE_AGE_MS) (\<lambda>age.
     bind_r (validated_capture (pget kvs ''capture'')) (\<lambda>(commitment, durability, required).
     bind_r (sinks_of (pget kvs ''sinks'')) (\<lambda>sinks.
     bind_r (validated_command_scope (scope_value kvs)) (\<lambda>scope.
       Inr \<lparr>so_policy_ref = ref, so_max_age_ms = age, so_sinks = sort_key sk_name sinks, so_commitment = commitment,
         so_durability = durability, so_required = required, so_scope = scope\<rparr>))))))))"

text \<open>The normalized source as the dictionary that enters the source digest.\<close>

definition capture_json :: "policy_source \<Rightarrow> json" where
  "capture_json p = JObj [(lit ''commitment'', JStr (commitment_value (so_commitment p))),
     (lit ''durability'', JStr (durability_value (so_durability p))), (lit ''required'', JBool (so_required p))]"

definition sinks_json :: "sink_policy list \<Rightarrow> json" where
  "sinks_json ks = JArr (map (\<lambda>k. JObj (sink_dict k)) ks)"

definition source_json :: "policy_source \<Rightarrow> json" where
  "source_json p = JObj [(lit ''schema_version'', JStr POLICY_SCHEMA), (lit ''policy_ref'', JStr (so_policy_ref p)),
     (lit ''cache'', JObj [(lit ''max_age_ms'', JInt (so_max_age_ms p))]), (lit ''sinks'', sinks_json (so_sinks p)),
     (lit ''capture'', capture_json p), (lit ''command_scope'', scope_json (so_scope p))]"

section \<open>Compiling\<close>

definition validate_contextual_policy :: "policy_source \<Rightarrow> commissioning_context \<Rightarrow> unit result" where
  "validate_contextual_policy p c =
     (if \<not> list_all (\<lambda>k. sk_trust_domain k \<in> set (allowed_domains (cc_trust_domain c))) (so_sinks p)
        then Inl (PolicyCompileError ''sink policy would widen the commissioning trust domain'')
      else if cc_trust_domain c = lit ''trusted-local'' \<and>
          (\<not> so_required p \<or> so_commitment p \<noteq> HOST_PERSISTENT \<and> so_commitment p \<noteq> REPLICATED)
        then Inl (PolicyCompileError ''trusted-local policy requires persistent required capture'')
      else if cc_valid_for_ms c < so_max_age_ms p
        then Inl (PolicyCompileError ''cache max_age_ms cannot outlive snapshot validity'')
      else Inr ())"

definition policy_json_bytes :: "json \<Rightarrow> bytes result" where
  "policy_json_bytes v = (case encode_json v of Some b \<Rightarrow> Inr b
     | None \<Rightarrow> Inl (PolicyCompileError ''policy material is not canonical JSON data''))"

definition sha256_of :: "json \<Rightarrow> pystr result" where
  "sha256_of v = bind_r (policy_json_bytes v) (\<lambda>b. Inr (digest_of b))"

definition claims_json :: "commissioning_context \<Rightarrow> json" where
  "claims_json c = JArr (map claim_json (provenance_claims c))"

definition provenance_digest :: "commissioning_context \<Rightarrow> pystr result" where
  "provenance_digest c = sha256_of (claims_json c)"

text \<open>
  \<open>canonical_policy_material\<close>, for documents whose sinks are objects with string names, as
  \<open>to_dict\<close> writes them.
\<close>

definition sink_name_of :: "json \<Rightarrow> pystr option" where
  "sink_name_of v = (case v of
     JObj kvs \<Rightarrow> (case jget kvs ''name'' of Some (JStr s) \<Rightarrow> Some s | _ \<Rightarrow> None) | _ \<Rightarrow> None)"

definition sorted_sinks :: "json list \<Rightarrow> json list" where
  "sorted_sinks = sort_key (\<lambda>v. the (sink_name_of v))"

definition incomplete_material :: exn where
  "incomplete_material = PolicyCompileError ''snapshot-like policy material is incomplete''"

definition canonical_policy_material :: "jdict \<Rightarrow> json result" where
  "canonical_policy_material value =
     (case (jget value ''sinks'', jget value ''cache'') of
        (Some (JArr sinks), Some (JObj cache)) \<Rightarrow>
          if \<not> list_all (\<lambda>v. sink_name_of v \<noteq> None) sinks then Inl incomplete_material
          else bind_r (field_of incomplete_material value ''schema_version'') (\<lambda>schema.
            bind_r (field_of incomplete_material value ''source'') (\<lambda>source.
            bind_r (field_of incomplete_material value ''session'') (\<lambda>session.
            bind_r (field_of incomplete_material value ''capture'') (\<lambda>capture.
            bind_r (field_of incomplete_material value ''command_scope'') (\<lambda>scope.
            bind_r (field_of incomplete_material value ''execution_authority'') (\<lambda>authority.
            bind_r (field_of incomplete_material value ''issued_at'') (\<lambda>issued.
            bind_r (field_of incomplete_material value ''expires_at'') (\<lambda>expires.
            bind_r (field_of incomplete_material cache ''owner'') (\<lambda>owner.
            bind_r (field_of incomplete_material cache ''max_age_ms'') (\<lambda>age.
              Inr (JObj [(lit ''schema_version'', schema), (lit ''source'', source), (lit ''session'', session),
                (lit ''sinks'', JArr (sorted_sinks sinks)), (lit ''capture'', capture), (lit ''command_scope'', scope),
                (lit ''execution_authority'', authority), (lit ''issued_at'', issued), (lit ''expires_at'', expires),
                (lit ''cache'', JObj [(lit ''owner'', owner), (lit ''max_age_ms'', age)])])))))))))))
      | _ \<Rightarrow> Inl incomplete_material)"

definition facts_only :: "contribution_record \<Rightarrow> bool" where
  "facts_only r \<longleftrightarrow> cn_status r = ACCEPTED \<and> cn_kind r = Some FACTS"

definition source_material :: "policy_source \<Rightarrow> commissioning_context \<Rightarrow> json list \<Rightarrow> json" where
  "source_material p c contributions =
     JObj ([(lit ''policy'', source_json p), (lit ''commissioning_claims'', claims_json c)] @
       (if contributions = [] then [] else [(lit ''extension_contributions'', JArr contributions)]))"

text \<open>The two timestamps: the canonical issue time is parsed again before the validity is added.\<close>

definition validity_window :: "commissioning_context \<Rightarrow> (pystr \<times> pystr) result" where
  "validity_window c =
     bind_r (canonical_timestamp (cc_issued_at c)) (\<lambda>issued_at.
     case fromisoformat (replace_z issued_at) of
       None \<Rightarrow> Inl (ValueError ''Invalid isoformat string'')
     | Some t \<Rightarrow> bind_r (add_ms (dt_local t) (cc_valid_for_ms c)) (\<lambda>us. Inr (issued_at, isoformat_z us)))"

definition OWNER :: pystr where "OWNER = lit ''python-policy-control''"

definition compiled_document :: "policy_source \<Rightarrow> commissioning_context \<Rightarrow> pystr \<Rightarrow> pystr \<Rightarrow> pystr \<Rightarrow> pystr \<Rightarrow> jdict" where
  "compiled_document p c source_ref source_digest issued_at expires_at =
     [(lit ''schema_version'', JStr (lit ''vuoro.outctl.policy-snapshot/v2'')),
      (lit ''source'', JObj [(lit ''ref'', JStr source_ref), (lit ''digest'', JStr source_digest)]),
      (lit ''cache'', JObj [(lit ''owner'', JStr OWNER), (lit ''max_age_ms'', JInt (so_max_age_ms p))]),
      (lit ''session'', JObj [(lit ''session_id'', JStr (cc_session_id c)), (lit ''trust_domain'', JStr (cc_trust_domain c)),
         (lit ''commissioned'', JBool (cc_commissioned c))]),
      (lit ''sinks'', sinks_json (so_sinks p)),
      (lit ''capture'', capture_json p),
      (lit ''command_scope'', scope_json (so_scope p)),
      (lit ''execution_authority'', JObj [(lit ''owner'', JStr (lit ''external-runner'')),
         (lit ''can_authorize_execution'', JBool False), (lit ''can_retry'', JBool False)]),
      (lit ''issued_at'', JStr issued_at), (lit ''expires_at'', JStr expires_at)]"

record commissioning_provenance =
  cp_claims :: "claim_record list"
  cp_digest :: pystr

record compiled_policy =
  cm_snapshot :: policy_snapshot
  cm_provenance :: commissioning_provenance

definition snapshot_id_of :: "pystr \<Rightarrow> pystr" where
  "snapshot_id_of digest = lit ''snapshot-'' @ take 32 (drop 7 digest)"

definition build_snapshot ::
  "policy_source \<Rightarrow> commissioning_context \<Rightarrow> pystr \<Rightarrow> pystr \<Rightarrow> pystr \<Rightarrow> pystr \<Rightarrow> pystr \<Rightarrow> policy_snapshot result" where
  "build_snapshot p c source_ref source_digest issued_at expires_at digest =
     bind_r (mk_binding \<lparr>pb_snapshot_id = snapshot_id_of digest, pb_ref = so_policy_ref p, pb_digest = digest\<rparr>) (\<lambda>binding.
     bind_r (mk_cache_entry \<lparr>ce_key = lit ''policy-cache://snapshot/'' @ snapshot_id_of digest, ce_binding = binding,
       ce_owner = OWNER, ce_max_age_ms = so_max_age_ms p\<rparr>) (\<lambda>cache.
     bind_r (mapM_r mk_sink (so_sinks p)) (\<lambda>sinks.
     or_compile_error ''compiled policy violates the frozen snapshot contract''
       (bind_r (mk_scope (so_scope p)) (\<lambda>scope.
         mk_snapshot \<lparr>ps_binding = binding, ps_source_ref = source_ref, ps_source_digest = source_digest, ps_cache = cache,
           ps_session_id = cc_session_id c, ps_trust_domain = cc_trust_domain c, ps_commissioned = cc_commissioned c,
           ps_sinks = sinks, ps_capture_commitment = so_commitment p, ps_capture_durability = so_durability p,
           ps_capture_required = so_required p, ps_issued_at = issued_at, ps_expires_at = expires_at,
           ps_command_scope = scope\<rparr>)))))"

definition contributions_of :: "contribution_record list \<Rightarrow> json list result" where
  "contributions_of records =
     (if \<not> list_all facts_only records
        then Inl (PolicyCompileError ''policy compilation accepts only commissioned extension facts'')
      else or_compile_error ''extension contribution material is invalid'' (contribution_material records))"

definition compile_validated :: "policy_source \<Rightarrow> pystr \<Rightarrow> commissioning_context \<Rightarrow> contribution_record list \<Rightarrow> compiled_policy result" where
  "compile_validated p source_path c records =
     bind_r (validate_contextual_policy p c) (\<lambda>_.
     bind_r (provenance_digest c) (\<lambda>pd.
     bind_r (contributions_of records) (\<lambda>contributions.
     bind_r (sha256_of (source_material p c contributions)) (\<lambda>source_digest.
     bind_r (validity_window c) (\<lambda>(issued_at, expires_at).
       let source_ref = lit ''policy-source://'' @ join_with 47 (path_parts source_path) in
       bind_r (canonical_policy_material (compiled_document p c source_ref source_digest issued_at expires_at)) (\<lambda>material.
       bind_r (sha256_of material) (\<lambda>digest.
       bind_r (build_snapshot p c source_ref source_digest issued_at expires_at digest) (\<lambda>snapshot.
         Inr \<lparr>cm_snapshot = snapshot, cm_provenance = \<lparr>cp_claims = provenance_claims c, cp_digest = pd\<rparr>\<rparr>))))))))"

definition compile_policy_source ::
  "yaml_loader \<Rightarrow> node option \<Rightarrow> pystr \<Rightarrow> commissioning_context \<Rightarrow> contribution_record list \<Rightarrow> compiled_policy result" where
  "compile_policy_source yaml root source_path c records =
     bind_r (read_policy_source root source_path) (\<lambda>body.
     bind_r (parse_source yaml body) (\<lambda>kvs.
     bind_r (validated_source kvs) (\<lambda>p. compile_validated p source_path c records)))"

section \<open>Lint and explanation\<close>

record policy_diagnostic =
  dg_severity :: string
  dg_code :: string
  dg_message :: pystr

record lint_result =
  ln_valid :: bool
  ln_diagnostics :: "policy_diagnostic list"

definition diagnostic :: "string \<Rightarrow> string \<Rightarrow> pystr \<Rightarrow> policy_diagnostic" where
  "diagnostic severity code message = \<lparr>dg_severity = severity, dg_code = code, dg_message = message\<rparr>"

definition lint_policy_source :: "yaml_loader \<Rightarrow> node option \<Rightarrow> pystr \<Rightarrow> commissioning_context \<Rightarrow> lint_result result" where
  "lint_policy_source yaml root source_path c =
     (case compile_policy_source yaml root source_path c [] of
        Inr compiled \<Rightarrow> Inr \<lparr>ln_valid = True, ln_diagnostics = [diagnostic ''info'' ''compiled''
          (lit ''compiled '' @ decimal (length (ps_sinks (cm_snapshot compiled))) @ lit '' sink action(s) with external execution authority'')]\<rparr>
      | Inl (PolicySourcePathError m) \<Rightarrow> Inr \<lparr>ln_valid = False, ln_diagnostics =
          [diagnostic ''error'' ''unsafe-source-path'' (lit ''policy source is not safely readable'')]\<rparr>
      | Inl (PolicyCompileError m) \<Rightarrow> Inr \<lparr>ln_valid = False, ln_diagnostics =
          [diagnostic ''error'' ''invalid-policy'' (lit ''policy source did not pass validation'')]\<rparr>
      | Inl OSError \<Rightarrow> Inr \<lparr>ln_valid = False, ln_diagnostics =
          [diagnostic ''error'' ''invalid-policy'' (lit ''policy source did not pass validation'')]\<rparr>
      | Inl e \<Rightarrow> Inl e)"

record policy_explanation =
  ex_snapshot_id :: pystr
  ex_policy_ref :: pystr
  ex_trust_domain :: pystr
  ex_commissioned :: bool
  ex_sink_actions :: "(pystr \<times> pystr) list"
  ex_capture_commitment :: pystr
  ex_capture_required :: bool
  ex_provenance :: commissioning_provenance
  ex_command_scope :: command_scope

definition explain_policy :: "compiled_policy \<Rightarrow> policy_explanation" where
  "explain_policy compiled = (let s = cm_snapshot compiled in
     \<lparr>ex_snapshot_id = pb_snapshot_id (ps_binding s), ex_policy_ref = pb_ref (ps_binding s), ex_trust_domain = ps_trust_domain s,
      ex_commissioned = ps_commissioned s, ex_sink_actions = map (\<lambda>k. (sk_name k, sk_disclosure k)) (ps_sinks s),
      ex_capture_commitment = commitment_value (ps_capture_commitment s), ex_capture_required = ps_capture_required s,
      ex_provenance = cm_provenance compiled, ex_command_scope = ps_command_scope s\<rparr>)"

definition provenance_json :: "commissioning_provenance \<Rightarrow> json" where
  "provenance_json p = JObj [(lit ''claims'', JArr (map claim_json (cp_claims p))), (lit ''digest'', JStr (cp_digest p))]"

definition compiled_json :: "compiled_policy \<Rightarrow> json" where
  "compiled_json c = JObj [(lit ''snapshot'', JObj (snapshot_dict (cm_snapshot c))), (lit ''provenance'', provenance_json (cm_provenance c))]"

definition explanation_json :: "policy_explanation \<Rightarrow> json" where
  "explanation_json e = JObj [(lit ''snapshot_id'', JStr (ex_snapshot_id e)), (lit ''policy_ref'', JStr (ex_policy_ref e)),
     (lit ''trust_domain'', JStr (ex_trust_domain e)), (lit ''commissioned'', JBool (ex_commissioned e)),
     (lit ''sink_actions'', JArr (map (\<lambda>(n, d). JObj [(lit ''name'', JStr n), (lit ''disclosure'', JStr d)]) (ex_sink_actions e))),
     (lit ''capture_commitment'', JStr (ex_capture_commitment e)), (lit ''capture_required'', JBool (ex_capture_required e)),
     (lit ''command_scope'', scope_json (ex_command_scope e)), (lit ''commissioning_provenance'', provenance_json (ex_provenance e)),
     (lit ''execution_authority'', JStr (lit ''external-runner'')), (lit ''can_authorize_execution'', JBool False)]"

section \<open>Reading is confined\<close>

lemma read_chunks_take: "read_chunks remaining b = take remaining b"
proof (induction remaining b rule: read_chunks.induct)
  case (1 remaining b)
  show ?case
  proof (cases "remaining = 0 \<or> b = []")
    case False
    define n where "n = min 65536 remaining"
    have "read_chunks remaining b = take n b @ read_chunks (remaining - length (take n b)) (drop n b)"
      using False by (subst read_chunks.simps) (simp add: Let_def n_def)
    also have "read_chunks (remaining - length (take n b)) (drop n b) = take (remaining - length (take n b)) (drop n b)"
      using 1 [OF False n_def refl] by (simp add: n_def)
    also have "\<dots> = take (remaining - n) (drop n b)" by (cases "n \<le> length b") (simp_all add: min_def)
    also have "take n b @ take (remaining - n) (drop n b) = take remaining b"
      by (metis le_add_diff_inverse min.cobounded2 n_def take_add)
    finally show ?thesis .
  qed (auto simp: read_chunks.simps)
qed

lemma read_file_iff: "read_file entry = Inr b \<longleftrightarrow> (\<exists>m. entry = Some (File m b)) \<and> length b \<le> MAX_POLICY_SOURCE_BYTES"
  by (auto simp: read_file_def read_chunks_take Let_def split: option.splits node.splits if_splits)

lemma open_parts_iff:
  "open_parts ps n = Inr b \<longleftrightarrow> ps \<noteq> [] \<and> list_all os_name ps \<and> (\<exists>m. node_get n ps = Some (File m b)) \<and>
     length b \<le> MAX_POLICY_SOURCE_BYTES"
proof (induction ps n rule: open_parts.induct)
  case (2 p ps n)
  show ?case
  proof (cases "ps = []")
    case True
    then show ?thesis by (simp add: read_file_iff)
  next
    case False
    have step: "node_get n (p # ps) = (case node_get n [p] of Some c \<Rightarrow> node_get c ps | None \<Rightarrow> None)"
      by (cases n) (auto split: option.splits)
    have leaf: "node_get c ps = None" if "\<not> is_dir c" for c using that False by (cases c; cases ps) (auto simp: is_dir_def)
    show ?thesis using False 2 step leaf
      by (cases "node_get n [p]") (auto simp: Let_def is_dir_def split: node.splits)
  qed
qed simp

text \<open>
  C19.  Reading a policy source succeeds exactly when the path is relative, has no \<open>..\<close>, and leads
  through real directories below the resolved root, never through a symbolic link, to a regular
  file of at most one MiB; then the result is that file's content.
\<close>

theorem read_policy_source_confined:
  "read_policy_source root source_path = Inr body \<longleftrightarrow>
     \<not> path_absolute source_path \<and> lit ''..'' \<notin> set (path_parts source_path) \<and> path_parts source_path \<noteq> [] \<and>
     list_all os_name (path_parts source_path) \<and> length body \<le> MAX_POLICY_SOURCE_BYTES \<and>
     (\<exists>dir mode. root = Some dir \<and> is_dir dir \<and> node_get dir (path_parts source_path) = Some (File mode body))"
  by (auto simp: read_policy_source_def open_parts_iff split: option.splits)

section \<open>What a compiled policy contains\<close>

lemma sink_name_of_dict: "sink_name_of (JObj (sink_dict k)) = Some (sk_name k)"
  by (simp add: sink_name_of_def sink_dict_def jget_def)

lemma mapM_r_filter_id:
  assumes "\<And>x y. f x = Inr y \<Longrightarrow> y = x" shows "mapM_r f xs = Inr ys \<longleftrightarrow> ys = xs \<and> (\<forall>x \<in> set xs. f x = Inr x)"
proof (induction xs arbitrary: ys)
  case (Cons x xs)
  show ?case using assms [of x] by (cases "f x") (auto simp: bind_r_Inr_iff Cons.IH)
qed auto

lemma mapM_sinks: "mapM_r mk_sink ks = Inr ks' \<longleftrightarrow> ks' = ks \<and> (\<forall>k \<in> set ks. mk_sink k = Inr k)"
  by (rule mapM_r_filter_id) (rule mk_sink_ok(1))

lemma mk_scope_ok: "mk_scope s = Inr s' \<Longrightarrow> s' = s"
  by (auto simp: mk_scope_def split: if_splits)

lemma mk_cache_ok: "mk_cache_entry e = Inr e' \<Longrightarrow> e' = e"
  by (auto simp: mk_cache_entry_def bind_r_Inr_iff split: if_splits)

lemma mk_binding_ok: "mk_binding b = Inr b' \<Longrightarrow> b' = b"
  by (auto simp: mk_binding_def bind_r_Inr_iff)

lemma or_compile_error_Inr [simp]: "or_compile_error m r = Inr x \<longleftrightarrow> r = Inr x"
  by (cases r) (simp_all add: or_compile_error_def)

lemma build_snapshotD:
  assumes "build_snapshot p c rf sd i e d = Inr s"
  shows "mk_snapshot s = Inr s" "\<forall>k \<in> set (so_sinks p). mk_sink k = Inr k"
    "s = (let b = \<lparr>pb_snapshot_id = snapshot_id_of d, pb_ref = so_policy_ref p, pb_digest = d\<rparr> in
      \<lparr>ps_binding = b, ps_source_ref = rf, ps_source_digest = sd,
        ps_cache = \<lparr>ce_key = lit ''policy-cache://snapshot/'' @ snapshot_id_of d, ce_binding = b, ce_owner = OWNER, ce_max_age_ms = so_max_age_ms p\<rparr>,
        ps_session_id = cc_session_id c, ps_trust_domain = cc_trust_domain c, ps_commissioned = cc_commissioned c,
        ps_sinks = so_sinks p, ps_capture_commitment = so_commitment p, ps_capture_durability = so_durability p,
        ps_capture_required = so_required p, ps_issued_at = i, ps_expires_at = e, ps_command_scope = so_scope p\<rparr>)"
proof -
  from assms obtain b ce sc where b: "mk_binding \<lparr>pb_snapshot_id = snapshot_id_of d, pb_ref = so_policy_ref p, pb_digest = d\<rparr> = Inr b"
    and ce: "mk_cache_entry \<lparr>ce_key = lit ''policy-cache://snapshot/'' @ snapshot_id_of d, ce_binding = b,
       ce_owner = OWNER, ce_max_age_ms = so_max_age_ms p\<rparr> = Inr ce"
    and ks: "\<forall>k \<in> set (so_sinks p). mk_sink k = Inr k" and sc: "mk_scope (so_scope p) = Inr sc"
    and s: "mk_snapshot \<lparr>ps_binding = b, ps_source_ref = rf, ps_source_digest = sd, ps_cache = ce,
           ps_session_id = cc_session_id c, ps_trust_domain = cc_trust_domain c, ps_commissioned = cc_commissioned c,
           ps_sinks = so_sinks p, ps_capture_commitment = so_commitment p, ps_capture_durability = so_durability p,
           ps_capture_required = so_required p, ps_issued_at = i, ps_expires_at = e, ps_command_scope = sc\<rparr> = Inr s"
    by (auto simp: build_snapshot_def bind_r_Inr_iff mapM_sinks simp del: lit_simps)
  note eqs = mk_binding_ok [OF b] mk_cache_ok [OF ce] mk_scope_ok [OF sc] mk_snapshot_ok(1) [OF s]
  show "mk_snapshot s = Inr s" using s eqs(4) by simp
  show "\<forall>k \<in> set (so_sinks p). mk_sink k = Inr k" by (rule ks)
  show "s = (let b = \<lparr>pb_snapshot_id = snapshot_id_of d, pb_ref = so_policy_ref p, pb_digest = d\<rparr> in
      \<lparr>ps_binding = b, ps_source_ref = rf, ps_source_digest = sd,
        ps_cache = \<lparr>ce_key = lit ''policy-cache://snapshot/'' @ snapshot_id_of d, ce_binding = b, ce_owner = OWNER, ce_max_age_ms = so_max_age_ms p\<rparr>,
        ps_session_id = cc_session_id c, ps_trust_domain = cc_trust_domain c, ps_commissioned = cc_commissioned c,
        ps_sinks = so_sinks p, ps_capture_commitment = so_commitment p, ps_capture_durability = so_durability p,
        ps_capture_required = so_required p, ps_issued_at = i, ps_expires_at = e, ps_command_scope = so_scope p\<rparr>)"
    using eqs by (simp add: Let_def)
qed

lemma compile_validatedD:
  assumes "compile_validated p path c records = Inr cm"
  obtains sd i e m d rf where "validate_contextual_policy p c = Inr ()" "provenance_digest c = Inr (cp_digest (cm_provenance cm))"
    "validity_window c = Inr (i, e)" "rf = lit ''policy-source://'' @ join_with 47 (path_parts path)"
    "canonical_policy_material (compiled_document p c rf sd i e) = Inr m" "sha256_of m = Inr d"
    "build_snapshot p c rf sd i e d = Inr (cm_snapshot cm)" "cp_claims (cm_provenance cm) = provenance_claims c"
  using assms by (auto simp: compile_validated_def bind_r_Inr_iff Let_def simp del: lit_simps)

lemma compile_policy_sourceD:
  assumes "compile_policy_source yaml root path c records = Inr cm"
  obtains body kvs p where "read_policy_source root path = Inr body" "parse_source yaml body = Inr kvs" "validated_source kvs = Inr p"
    "compile_validated p path c records = Inr cm"
  using assms by (auto simp: compile_policy_source_def bind_r_Inr_iff)

text \<open>The material read from a snapshot's own document is the material it was compiled from.\<close>

lemma snapshot_material:
  assumes "build_snapshot p c rf sd i e d = Inr s"
  shows "canonical_policy_material (snapshot_dict s) = canonical_policy_material (compiled_document p c rf sd i e)"
  unfolding build_snapshotD(3) [OF assms]
  by (simp add: canonical_policy_material_def snapshot_dict_def compiled_document_def jget_def lit_eq_iff field_of_def cache_json_def
      sinks_json_def capture_json_def Let_def del: lit_simps)

lemma validity_windowD:
  assumes "validity_window c = Inr (i, e)"
  obtains ti te where "fromisoformat (replace_z i) = Some ti" "fromisoformat (replace_z e) = Some te" "aware ti" "aware te"
    "instant te = instant ti + cc_valid_for_ms c * 1000" "canonical_timestamp (cc_issued_at c) = Inr i"
proof -
  from assms obtain t us where c: "canonical_timestamp (cc_issued_at c) = Inr i" and t: "fromisoformat (replace_z i) = Some t"
    and us: "add_ms (dt_local t) (cc_valid_for_ms c) = Inr us" and e: "e = isoformat_z us"
    by (auto simp: validity_window_def bind_r_Inr_iff split: option.splits)
  from c obtain d where d: "in_range (instant d)" "i = isoformat_z (instant d)" by (rule canonical_timestampD)
  then have t': "t = \<lparr>dt_local = instant d - instant d mod 1000, dt_offset = Some 0\<rparr>"
    using t by (simp add: isoformat_read_back)
  have us': "in_range us" "us = dt_local t + cc_valid_for_ms c * 1000" using us by (auto simp: add_ms_def Let_def split: if_splits)
  have "us mod 1000 = 0" by (simp add: us'(2) t' mod_eq_0_iff_dvd)
  then have "fromisoformat (replace_z e) = Some \<lparr>dt_local = us, dt_offset = Some 0\<rparr>" using us'(1) e by (simp add: isoformat_read_back)
  then show ?thesis using that c t us'(2) t' by (simp add: aware_def instant_def)
qed

lemma validated_sinks_ok:
  "validated_sinks names vs = Inr ks \<Longrightarrow> distinct (map sk_name ks) \<and> set (map sk_name ks) \<inter> set names = {} \<and>
     (\<forall>k \<in> set ks. mk_sink k = Inr k)"
proof (induction names vs arbitrary: ks rule: validated_sinks.induct)
  case (2 names v vs)
  then obtain k ks' where k: "validated_sink names v = Inr k" "validated_sinks (sk_name k # names) vs = Inr ks'" "ks = k # ks'"
    by (auto simp: bind_r_Inr_iff)
  obtain k0 where "mk_sink k0 = Inr k" "sk_name k0 \<notin> set names"
    using k(1) by (auto simp: validated_sink_def bind_r_Inr_iff simp del: lit_simps split: if_splits)
  then have "mk_sink k = Inr k" "sk_name k \<notin> set names" using mk_sink_ok(1) by auto
  then show ?case using "2.IH" [OF k(2)] k(3) by auto
qed simp

lemma validated_sourceD:
  assumes "validated_source kvs = Inr p"
  shows "distinct (map sk_name (so_sinks p))" "sorted (map sk_name (so_sinks p))" "\<forall>k \<in> set (so_sinks p). mk_sink k = Inr k"
    "1 \<le> so_max_age_ms p" "so_max_age_ms p \<le> MAX_CACHE_AGE_MS" "prefix (lit ''policy://'') (so_policy_ref p)" "so_sinks p \<noteq> []"
    "mk_scope (so_scope p) = Inr (so_scope p)"
proof -
  from assms obtain ks age sc where s: "sinks_of (pget kvs ''sinks'') = Inr ks" "so_sinks p = sort_key sk_name ks"
    and rf: "prefix (lit ''policy://'') (so_policy_ref p)" and sc: "validated_command_scope (scope_value kvs) = Inr (so_scope p)"
    and age: "bounded_int age ''cache.max_age_ms'' MAX_CACHE_AGE_MS = Inr (so_max_age_ms p)"
    by (auto simp: validated_source_def bind_r_Inr_iff simp del: lit_simps split: if_splits prod.splits)
  from s(1) obtain vs where vs: "validated_sinks [] vs = Inr ks" "vs \<noteq> []" by (auto simp: sinks_of_def split: pyval.splits if_splits)
  note ok = validated_sinks_ok [OF vs(1)]
  show "distinct (map sk_name (so_sinks p))" "\<forall>k \<in> set (so_sinks p). mk_sink k = Inr k" "sorted (map sk_name (so_sinks p))"
    using ok by (simp_all add: s(2) distinct_map_sort_key)
  show "1 \<le> so_max_age_ms p" "so_max_age_ms p \<le> MAX_CACHE_AGE_MS" using age by (auto simp: bounded_int_def split: pyval.splits if_splits)
  show "prefix (lit ''policy://'') (so_policy_ref p)" by (rule rf)
  from vs obtain v vs' where "vs = v # vs'" by (cases vs) auto
  then show "so_sinks p \<noteq> []" using vs(1) s(2) by (auto simp: bind_r_Inr_iff)
  have "mk_scope default_scope = Inr default_scope" by code_simp
  then obtain s0 where "mk_scope s0 = Inr (so_scope p)"
    using sc by (auto simp: validated_command_scope_def bind_r_Inr_iff simp del: lit_simps split: if_splits)
  then show "mk_scope (so_scope p) = Inr (so_scope p)" using mk_scope_ok by blast
qed

end
