(* ===== verification/CompileTotal.thy ===== *)
theory CompileTotal
  imports Compiler
begin

text \<open>
  When policy compilation returns: every validated source that respects its context and the snapshot
  contract compiles, the order of the sinks is immaterial, and \<open>lint\<close> always reports, except for the
  exceptions that its \<open>except\<close> clauses do not name.
\<close>

section \<open>Canonical material is encodable\<close>

lemma pad_scalar: "list_all is_scalar (pad k n)"
  using decimal_scalar [of n] by (auto simp: pad_def Let_def list_all_iff is_scalar_def)

lemma isoformat_scalar: "list_all is_scalar (isoformat_z us)"
  by (simp add: isoformat_z_def Let_def pad_scalar split: prod.splits) (simp add: is_scalar_def)

lemma name_scalar:
  "x \<in> set SINK_NAMES \<Longrightarrow> list_all is_scalar x" "x \<in> set TRUST_DOMAINS \<Longrightarrow> list_all is_scalar x"
  "x \<in> set DISCLOSURES \<Longrightarrow> list_all is_scalar x" "x \<in> set CLASSIFICATIONS \<Longrightarrow> list_all is_scalar x"
  "x \<in> set CLAIM_NAMES \<Longrightarrow> list_all is_scalar x"
  by (auto simp: SINK_NAMES_def TRUST_DOMAINS_def DISCLOSURES_def CLASSIFICATIONS_def CLAIM_NAMES_def simp del: lit_simps)

lemma sink_json_ok:
  assumes "mk_sink k = Inr k'" shows "json_ok (JObj (sink_dict k))"
proof -
  have "sk_name k \<in> set SINK_NAMES" "sk_trust_domain k \<in> set TRUST_DOMAINS" "sk_disclosure k \<in> set DISCLOSURES"
    "\<forall>x. sk_classification_ceiling k = Some x \<longrightarrow> x \<in> set CLASSIFICATIONS"
    using assms by (auto simp: mk_sink_def bind_r_Inr_iff simp del: lit_simps split: if_splits)
  then show ?thesis by (auto simp: sink_dict_def name_scalar lit_eq_iff simp del: lit_simps split: option.splits)
qed

lemma sinks_json_ok: "\<forall>k \<in> set ks. mk_sink k = Inr k \<Longrightarrow> json_ok (sinks_json ks)"
  using sink_json_ok by (auto simp: sinks_json_def items_ok_iff simp del: json_ok.simps(5))

lemma scope_json_ok:
  assumes "mk_scope s = Inr s'" "\<forall>argv \<in> set (explicit_shell_argv s). \<forall>a \<in> set argv. list_all is_scalar a"
  shows "json_ok (scope_json s)"
proof -
  have "list_all is_scalar m" if "m \<in> set (execution_modes s) \<or> m \<in> set (stdin_modes s)" for m
  proof -
    have "set (execution_modes s) \<subseteq> range lit" "set (stdin_modes s) \<subseteq> range lit"
      using assms(1) by (fastforce simp: mk_scope_def modes_ok_def simp del: lit_simps split: if_splits)+
    then show ?thesis using that by auto
  qed
  then show ?thesis using assms(2) by (auto simp: scope_json_def str_list_def items_ok_iff lit_eq_iff simp del: lit_simps)
qed

lemma capture_json_ok: "json_ok (capture_json p)"
  by (simp add: capture_json_def lit_eq_iff commitment_value_def durability_value_def del: lit_simps
      split: capture_commitment.splits capture_durability.splits)

lemma claims_json_ok:
  assumes "\<forall>cl \<in> set (cc_claims c). mk_claim cl = Inr cl \<and> list_all is_scalar (cl_issuer cl) \<and> list_all is_scalar (cl_evidence_ref cl)"
  shows "json_ok (claims_json c)"
proof -
  have "json_ok (claim_json (public_metadata cl))" if "cl \<in> set (cc_claims c)" for cl
  proof -
    have "mk_claim cl = Inr cl" "list_all is_scalar (cl_issuer cl)" "list_all is_scalar (cl_evidence_ref cl)" using assms that by blast+
    moreover have "cl_name cl \<in> set CLAIM_NAMES" "is_digest (cl_evidence_digest cl)"
      using calculation(1) by (auto simp: mk_claim_def simp del: lit_simps split: if_splits)
    ultimately show ?thesis
      by (simp add: claim_json_def public_metadata_def name_scalar digest_scalar lit_eq_iff del: lit_simps)
  qed
  then show ?thesis by (auto simp: claims_json_def provenance_claims_def items_ok_iff)
qed

lemma age_ok: "1 \<le> i \<Longrightarrow> i \<le> MAX_CACHE_AGE_MS \<Longrightarrow> json_ok (JInt i)"
proof -
  assume "1 \<le> i" "i \<le> MAX_CACHE_AGE_MS"
  then have "nat i < 10 ^ 8" by (simp add: MAX_CACHE_AGE_MS_def)
  then have "length (decimal (nat i)) \<le> 8" by (rule digits_length) simp
  then show ?thesis using \<open>1 \<le> i\<close> by (simp add: MAX_INT_DIGITS_def)
qed

section \<open>Compilation returns\<close>

lemma sha256_of_ok: "json_ok v \<Longrightarrow> \<exists>b. sha256_of v = Inr (digest_of b)"
  by (auto simp: sha256_of_def policy_json_bytes_def encode_json_ok)

lemma contributions_none: "contributions_of [] = Inr []"
proof -
  have "contribution_material [] = Inr []" by code_simp
  then show ?thesis by (simp add: contributions_of_def)
qed

lemma validity_window_total:
  assumes "canonical_timestamp (cc_issued_at c) = Inr i" "fromisoformat (replace_z (cc_issued_at c)) = Some t"
    and "1 \<le> cc_valid_for_ms c" "in_range (instant t + cc_valid_for_ms c * 1000)"
  obtains us where "validity_window c = Inr (i, isoformat_z us)"
proof -
  from assms(1,2) have t: "in_range (instant t)" "i = isoformat_z (instant t)" by (auto elim: canonical_timestampD)
  then have r: "fromisoformat (replace_z i) = Some \<lparr>dt_local = instant t - instant t mod 1000, dt_offset = Some 0\<rparr>"
    by (simp add: isoformat_read_back)
  define us where "us = instant t - instant t mod 1000 + cc_valid_for_ms c * 1000"
  have "in_range us" using assms(3,4) in_range_cut [OF t(1)] by (auto simp: in_range_def us_def intro: order.strict_trans1)
  then have "add_ms (instant t - instant t mod 1000) (cc_valid_for_ms c) = Inr us" by (simp add: add_ms_def Let_def us_def)
  then show ?thesis using that [of us] assms(1) r by (simp add: validity_window_def)
qed

definition texts_ok :: "policy_source \<Rightarrow> pystr \<Rightarrow> commissioning_context \<Rightarrow> bool" where
  "texts_ok p path c \<longleftrightarrow> list_all is_scalar (so_policy_ref p) \<and> list_all is_scalar (cc_session_id c) \<and>
     list_all is_scalar (join_with 47 (path_parts path)) \<and> list_all (list_all (list_all is_scalar)) (explicit_shell_argv (so_scope p)) \<and>
     list_all (\<lambda>cl. mk_claim cl = Inr cl \<and> list_all is_scalar (cl_issuer cl) \<and> list_all is_scalar (cl_evidence_ref cl)) (cc_claims c)"

lemma source_material_ok:
  assumes "validated_source kvs = Inr p" "texts_ok p path c"
  shows "json_ok (source_material p c [])" "json_ok (claims_json c)" "json_ok (scope_json (so_scope p))"
proof -
  note v = validated_sourceD [OF assms(1)]
  show c: "json_ok (claims_json c)" using assms(2) by (intro claims_json_ok) (auto simp: texts_ok_def list_all_iff)
  show sc: "json_ok (scope_json (so_scope p))"
    using assms(2) by (intro scope_json_ok [OF v(8)]) (auto simp: texts_ok_def list_all_iff)
  have "json_ok (JInt (so_max_age_ms p))" using v by (intro age_ok)
  then have "json_ok (source_json p)" using assms(2) sc sinks_json_ok [OF v(3)] capture_json_ok [of p]
    by (simp add: source_json_def texts_ok_def POLICY_SCHEMA_def lit_eq_iff del: lit_simps json_ok.simps(1))
  then show "json_ok (source_material p c [])" using c by (simp add: source_material_def lit_eq_iff del: lit_simps)
qed

lemma compiled_material_ok:
  assumes "validated_source kvs = Inr p" "texts_ok p path c" "cc_trust_domain c \<in> set TRUST_DOMAINS"
    and "list_all is_scalar rf" "is_digest sd"
  obtains m where "canonical_policy_material (compiled_document p c rf sd (isoformat_z i) (isoformat_z e)) = Inr m" "json_ok m"
proof -
  note v = validated_sourceD [OF assms(1)]
  have "json_ok (JInt (so_max_age_ms p))" using v by (intro age_ok)
  moreover have "json_ok (JArr (sorted_sinks (map (\<lambda>k. JObj (sink_dict k)) (so_sinks p))))"
    using sinks_json_ok [OF v(3)] by (simp add: sorted_sinks_def sinks_json_def items_ok_iff del: json_ok.simps(5))
  moreover have "list_all (\<lambda>v. sink_name_of v \<noteq> None) (map (\<lambda>k. JObj (sink_dict k)) (so_sinks p))"
    by (simp add: list_all_iff sink_name_of_dict)
  ultimately show ?thesis
    using that source_material_ok(3) [OF assms(1,2)] capture_json_ok [of p] digest_scalar [OF assms(5)] assms(2-4) isoformat_scalar
    by (simp add: canonical_policy_material_def compiled_document_def jget_def field_of_def sinks_json_def OWNER_def lit_eq_iff
        name_scalar(2) texts_ok_def del: lit_simps json_ok.simps(1,4))
qed

lemma build_snapshot_total:
  assumes "validated_source kvs = Inr p" "mk_commissioning c = Inr c" "validate_contextual_policy p c = Inr ()"
    and "durability_error (so_commitment p) (so_durability p) = None" "so_required p \<longrightarrow> \<not> ephemeral (so_commitment p)"
    and "rf \<noteq> []" "is_digest sd" "is_digest d" "snapshot_times i e = Inr ()"
  shows "\<exists>s. build_snapshot p c rf sd i e d = Inr s"
proof -
  note v = validated_sourceD [OF assms(1)]
  have ref: "so_policy_ref p \<noteq> []" using v(6) by auto
  have c: "cc_session_id c \<noteq> []" "cc_trust_domain c \<in> set TRUST_DOMAINS"
    "cc_trust_domain c = lit ''trusted-local'' \<longrightarrow> cc_commissioned c"
    using assms(2) by (auto simp: mk_commissioning_def bind_r_Inr_iff simp del: lit_simps split: if_splits)
  have x: "list_all (\<lambda>k. sk_trust_domain k \<in> set (allowed_domains (cc_trust_domain c))) (so_sinks p)"
    "\<not> (cc_trust_domain c = lit ''trusted-local'' \<and> (\<not> so_required p \<or> ephemeral (so_commitment p)))"
    using assms(3) by (auto simp: validate_contextual_policy_def ephemeral_def simp del: lit_simps split: if_splits)
  have k: "mapM_r mk_sink (so_sinks p) = Inr (so_sinks p)" using v(3) by (simp add: mapM_sinks)
  have n: "snapshot_id_of d \<noteq> []" by (simp add: snapshot_id_of_def)
  show ?thesis using ref n c x k v(1,4,7,8) assms(4-9)
    by (simp add: build_snapshot_def mk_binding_def mk_cache_entry_def mk_snapshot_def require_text_def require_digest_def
        OWNER_def lit_eq_iff del: lit_simps)
qed

lemma window_times:
  assumes "validity_window c = Inr (i, e)" "1 \<le> cc_valid_for_ms c" shows "snapshot_times i e = Inr ()"
proof -
  from assms(1) obtain ti te where "fromisoformat (replace_z i) = Some ti" "fromisoformat (replace_z e) = Some te" "aware ti" "aware te"
    "instant te = instant ti + cc_valid_for_ms c * 1000" by (rule validity_windowD)
  moreover have "i \<noteq> []" "e \<noteq> []" using calculation by (auto simp: replace_z_def fromisoformat_def)
  ultimately show ?thesis using assms(2) by (simp add: snapshot_times_def require_timestamp_def require_text_def)
qed

lemma compile_validated_total:
  assumes "validated_source kvs = Inr p" "mk_commissioning c = Inr c" "validate_contextual_policy p c = Inr ()" "texts_ok p path c"
    and "durability_error (so_commitment p) (so_durability p) = None" "so_required p \<longrightarrow> \<not> ephemeral (so_commitment p)"
    and "fromisoformat (replace_z (cc_issued_at c)) = Some t" "in_range (instant t + cc_valid_for_ms c * 1000)"
  shows "\<exists>cm. compile_validated p path c [] = Inr cm"
proof -
  have c: "1 \<le> cc_valid_for_ms c" "cc_trust_domain c \<in> set TRUST_DOMAINS" "\<exists>i. canonical_timestamp (cc_issued_at c) = Inr i"
    using assms(2) by (auto simp: mk_commissioning_def bind_r_Inr_iff bounded_int_def simp del: lit_simps split: if_splits)
  then obtain i us where i: "canonical_timestamp (cc_issued_at c) = Inr i" and w: "validity_window c = Inr (i, isoformat_z us)"
    using validity_window_total assms(7,8) by blast
  from i obtain u0 where i': "i = isoformat_z u0" by (rule canonical_timestampD)
  define rf where "rf = lit ''policy-source://'' @ join_with 47 (path_parts path)"
  have rf: "rf \<noteq> []" by (simp add: rf_def)
  have rfs: "list_all is_scalar rf" using assms(4) by (simp add: rf_def texts_ok_def del: lit_simps)
  note src = source_material_ok [OF assms(1,4)]
  obtain pd where pd: "provenance_digest c = Inr (digest_of pd)" using sha256_of_ok [OF src(2)] by (auto simp: provenance_digest_def)
  obtain sd where sd: "sha256_of (source_material p c []) = Inr (digest_of sd)" using sha256_of_ok [OF src(1)] by blast
  obtain m where m: "canonical_policy_material (compiled_document p c rf (digest_of sd) i (isoformat_z us)) = Inr m" "json_ok m"
    unfolding i' by (rule compiled_material_ok [OF assms(1,4) c(2) rfs digest_of_ok])
  obtain d where d: "sha256_of m = Inr (digest_of d)" using sha256_of_ok [OF m(2)] by blast
  obtain s where "build_snapshot p c rf (digest_of sd) i (isoformat_z us) (digest_of d) = Inr s"
    using build_snapshot_total [OF assms(1-3,5,6) rf digest_of_ok digest_of_ok window_times [OF w c(1)]] by blast
  then show ?thesis using assms(3) pd sd w m(1) d contributions_none
    by (simp add: compile_validated_def Let_def del: lit_simps flip: rf_def)
qed

section \<open>Properties\<close>

text \<open>An example: a one-sink policy in a restricted session, and a loader that returns its composed nodes.\<close>

definition example_nodes :: ynode where
  "example_nodes = (let str = (\<lambda>s. YScalar (PStr (lit s))) in
     YMap [(str ''schema_version'', YScalar (PStr POLICY_SCHEMA)), (str ''policy_ref'', str ''policy://p''),
       (str ''cache'', YMap [(str ''max_age_ms'', YScalar (PInt 1000))]),
       (str ''capture'', YMap [(str ''commitment'', str ''host-persistent''), (str ''durability'', str ''host''),
          (str ''required'', YScalar (PBool True))]),
       (str ''sinks'', YSeq [YMap [(str ''name'', str ''model''), (str ''trust_domain'', str ''export''),
          (str ''disclosure'', str ''sanitized''), (str ''redaction_required'', YScalar (PBool True))]])])"

definition example_yaml :: yaml_loader where
  "example_yaml s = (if s = lit ''policy'' then Inr (Some example_nodes) else Inr None)"

definition example_root :: node where
  "example_root = Dir 448 [(lit ''team'', Dir 448 [(lit ''p.yaml'', File 384 ''policy'')])]"

definition example_claim :: "string \<Rightarrow> claim_value \<Rightarrow> claim_provenance" where
  "example_claim n v = \<lparr>cl_name = lit n, cl_value = v, cl_issuer = lit ''operator'', cl_evidence_ref = lit ''ticket-1'',
     cl_evidence_digest = lit ''sha256:'' @ replicate 64 97\<rparr>"

definition example_context :: "string \<Rightarrow> commissioning_context" where
  "example_context issued = \<lparr>cc_session_id = lit ''session'', cc_trust_domain = lit ''restricted'', cc_commissioned = False,
     cc_issued_at = lit issued, cc_valid_for_ms = 2000,
     cc_claims = [example_claim ''trust_domain'' (ClaimText (lit ''restricted'')), example_claim ''commissioned'' (ClaimFlag False)]\<rparr>"

definition example_dict :: pdict where
  "example_dict = (case construct example_nodes of Inr v \<Rightarrow> (case mapping v ''policy source'' of Inr d \<Rightarrow> d | Inl e \<Rightarrow> []) | Inl e \<Rightarrow> [])"

definition example_source :: policy_source where
  "example_source = \<lparr>so_policy_ref = lit ''policy://p'', so_max_age_ms = 1000,
     so_sinks = [\<lparr>sk_name = lit ''model'', sk_trust_domain = lit ''export'', sk_disclosure = lit ''sanitized'',
       sk_redaction_required = True, sk_classification_ceiling = None\<rparr>],
     so_commitment = HOST_PERSISTENT, so_durability = DurHost, so_required = True, so_scope = default_scope\<rparr>"

lemma example_reads:
  "read_policy_source (Some example_root) (lit ''team/p.yaml'') = Inr ''policy''"
  "parse_source example_yaml ''policy'' = Inr example_dict" "validated_source example_dict = Inr example_source"
  by code_simp+

lemma example_context_ok:
  "mk_commissioning (example_context ''0001-01-02T08:00:00Z'') = Inr (example_context ''0001-01-02T08:00:00Z'')"
  "validate_contextual_policy example_source (example_context issued) = Inr ()"
  "texts_ok example_source (lit ''team/p.yaml'') (example_context issued)"
  by code_simp+

text \<open>
  C21.  Compilation without contributions returns a snapshot whenever all of the following hold: the source
  is readable, parses and validates; the context is an accepted commissioning and the contextual check
  of the source against it passes; the declared durability is consistent with the capture commitment;
  a required capture is not ephemeral; the texts can be encoded in UTF-8; the issue time is a readable
  timestamp and the expiry \<open>valid_for_ms\<close> later is in the range of dates.
\<close>

theorem compile_policy_source_total:
  assumes "read_policy_source root path = Inr body" "parse_source yaml body = Inr kvs" "validated_source kvs = Inr p"
    and "mk_commissioning c = Inr c" "validate_contextual_policy p c = Inr ()" "texts_ok p path c"
    and "durability_error (so_commitment p) (so_durability p) = None" "so_required p \<longrightarrow> \<not> ephemeral (so_commitment p)"
    and "fromisoformat (replace_z (cc_issued_at c)) = Some t" "in_range (instant t + cc_valid_for_ms c * 1000)"
  shows "\<exists>cm. compile_policy_source yaml root path c [] = Inr cm"
  using compile_validated_total [OF assms(3-)] assms(1-3) by (simp add: compile_policy_source_def)

lemma example_window:
  "fromisoformat (replace_z (cc_issued_at (example_context ''0001-01-02T08:00:00Z''))) = Some \<lparr>dt_local = 115200000000, dt_offset = Some 0\<rparr>"
  by code_simp

theorem compile_policy_source_total_witness:
  "\<exists>cm. compile_policy_source example_yaml (Some example_root) (lit ''team/p.yaml'') (example_context ''0001-01-02T08:00:00Z'') [] = Inr cm"
  by (rule compile_policy_source_total [OF example_reads example_context_ok _ _ example_window]; code_simp)

lemma example_compiles:
  obtains cm where "compile_policy_source example_yaml (Some example_root) (lit ''team/p.yaml'') (example_context ''0001-01-02T08:00:00Z'') [] = Inr cm"
proof -
  have "\<exists>cm. compile_validated example_source (lit ''team/p.yaml'') (example_context ''0001-01-02T08:00:00Z'') [] = Inr cm"
    by (rule compile_validated_total [OF example_reads(3) example_context_ok _ _ example_window]; code_simp)
  then show ?thesis using that example_reads by (auto simp: compile_policy_source_def)
qed

text \<open>
  A compiled snapshot is self-certifying: its policy digest is the SHA-256 digest of the canonical
  material recomputed from its own document, and its snapshot id and cache key are derived from it.
\<close>

theorem compiled_digest_recomputable:
  assumes "compile_policy_source yaml root path c records = Inr cm"
  shows "(\<exists>m. canonical_policy_material (snapshot_dict (cm_snapshot cm)) = Inr m \<and>
      sha256_of m = Inr (pb_digest (ps_binding (cm_snapshot cm)))) \<and>
    pb_snapshot_id (ps_binding (cm_snapshot cm)) = snapshot_id_of (pb_digest (ps_binding (cm_snapshot cm))) \<and>
    ce_key (ps_cache (cm_snapshot cm)) = lit ''policy-cache://snapshot/'' @ pb_snapshot_id (ps_binding (cm_snapshot cm))"
proof -
  from assms obtain body kvs p where "compile_validated p path c records = Inr cm" by (rule compile_policy_sourceD)
  then obtain sd i e m d rf where m: "canonical_policy_material (compiled_document p c rf sd i e) = Inr m" "sha256_of m = Inr d"
    and b: "build_snapshot p c rf sd i e d = Inr (cm_snapshot cm)" by (rule compile_validatedD)
  have "canonical_policy_material (snapshot_dict (cm_snapshot cm)) = Inr m" using snapshot_material [OF b] m(1) by simp
  then show ?thesis using m(2) build_snapshotD(3) [OF b] by (simp add: Let_def del: lit_simps)
qed

theorem compiled_digest_recomputable_witness:
  "\<exists>cm m. compile_policy_source example_yaml (Some example_root) (lit ''team/p.yaml'') (example_context ''0001-01-02T08:00:00Z'') [] = Inr cm \<and>
     canonical_policy_material (snapshot_dict (cm_snapshot cm)) = Inr m \<and> sha256_of m = Inr (pb_digest (ps_binding (cm_snapshot cm)))"
proof -
  obtain cm where "compile_policy_source example_yaml (Some example_root) (lit ''team/p.yaml'') (example_context ''0001-01-02T08:00:00Z'') [] = Inr cm"
    by (rule example_compiles)
  then show ?thesis using compiled_digest_recomputable by blast
qed

text \<open>
  C20.  A compiled policy never exceeds its commissioning context: the snapshot satisfies the frozen
  snapshot contract, carries exactly the context's session, trust domain and commissioning flag, hands
  no sink a trust domain wider than the context's, lists each sink once in name order, is cached no longer
  than it is valid, and expires exactly \<open>valid_for_ms\<close> after the canonical issue time.
\<close>

theorem compile_within_context:
  assumes "compile_policy_source yaml root path c records = Inr cm"
  shows "let s = cm_snapshot cm in
    mk_snapshot s = Inr s \<and> (\<forall>k \<in> set (ps_sinks s). mk_sink k = Inr k \<and> sk_trust_domain k \<in> set (allowed_domains (cc_trust_domain c))) \<and>
    ps_session_id s = cc_session_id c \<and> ps_trust_domain s = cc_trust_domain c \<and> ps_commissioned s = cc_commissioned c \<and>
    sorted (map sk_name (ps_sinks s)) \<and> distinct (map sk_name (ps_sinks s)) \<and>
    1 \<le> ce_max_age_ms (ps_cache s) \<and> ce_max_age_ms (ps_cache s) \<le> cc_valid_for_ms c \<and>
    canonical_timestamp (cc_issued_at c) = Inr (ps_issued_at s) \<and>
    (\<exists>i e. fromisoformat (replace_z (ps_issued_at s)) = Some i \<and> fromisoformat (replace_z (ps_expires_at s)) = Some e \<and>
       instant e = instant i + cc_valid_for_ms c * 1000)"
proof -
  from assms obtain body kvs p where v: "validated_source kvs = Inr p" "compile_validated p path c records = Inr cm"
    by (rule compile_policy_sourceD)
  from v(2) obtain sd i e m d rf where ctx: "validate_contextual_policy p c = Inr ()" and w: "validity_window c = Inr (i, e)"
    and b: "build_snapshot p c rf sd i e d = Inr (cm_snapshot cm)" by (rule compile_validatedD)
  from w obtain ti te where t: "fromisoformat (replace_z i) = Some ti" "fromisoformat (replace_z e) = Some te"
    "instant te = instant ti + cc_valid_for_ms c * 1000" "canonical_timestamp (cc_issued_at c) = Inr i" by (rule validity_windowD)
  have c: "\<forall>k \<in> set (so_sinks p). sk_trust_domain k \<in> set (allowed_domains (cc_trust_domain c))" "so_max_age_ms p \<le> cc_valid_for_ms c"
    using ctx by (auto simp: validate_contextual_policy_def list_all_iff simp del: lit_simps split: if_splits)
  define s where "s = cm_snapshot cm"
  have s: "ps_sinks s = so_sinks p" "ps_session_id s = cc_session_id c" "ps_trust_domain s = cc_trust_domain c"
    "ps_commissioned s = cc_commissioned c" "ce_max_age_ms (ps_cache s) = so_max_age_ms p" "ps_issued_at s = i" "ps_expires_at s = e"
    using build_snapshotD(3) [OF b] by (simp_all add: s_def Let_def del: lit_simps)
  show ?thesis unfolding Let_def s_def [symmetric] s
    using validated_sourceD(1-4) [OF v(1)] c t build_snapshotD(1) [OF b] by (simp add: s_def)
qed

theorem compile_within_context_witness:
  "\<exists>cm. compile_policy_source example_yaml (Some example_root) (lit ''team/p.yaml'') (example_context ''0001-01-02T08:00:00Z'') [] = Inr cm \<and>
     ce_max_age_ms (ps_cache (cm_snapshot cm)) \<le> 2000 \<and> ps_trust_domain (cm_snapshot cm) = lit ''restricted''"
proof -
  obtain cm where cm: "compile_policy_source example_yaml (Some example_root) (lit ''team/p.yaml'') (example_context ''0001-01-02T08:00:00Z'') [] = Inr cm"
    by (rule example_compiles)
  from compile_within_context [OF cm]
  have "ce_max_age_ms (ps_cache (cm_snapshot cm)) \<le> 2000" "ps_trust_domain (cm_snapshot cm) = lit ''restricted''"
    by (simp_all add: Let_def example_context_def del: lit_simps)
  with cm show ?thesis by blast
qed

end
