(* ===== verification/Lint.thy ===== *)
theory Lint
  imports CompileTotal
begin

text \<open>
  \<open>lint_policy_source\<close> of \<open>control/policy.py\<close>: which exceptions compilation raises, that \<open>lint\<close> turns
  them into one diagnostic, and the \<open>OverflowError\<close> and \<open>ValueError\<close> it lets through.
\<close>

section \<open>Exceptions of each step\<close>

definition reported :: "exn \<Rightarrow> bool" where
  "reported e = (case e of PolicyCompileError m \<Rightarrow> True | PolicySourcePathError m \<Rightarrow> True | _ \<Rightarrow> False)"

lemma reported_simps [simp]: "reported (PolicyCompileError m)" "reported (PolicySourcePathError m)"
  by (simp_all add: reported_def)

lemma raises_only_if:
  "(b \<Longrightarrow> raises_only V x) \<Longrightarrow> (\<not> b \<Longrightarrow> raises_only V y) \<Longrightarrow> raises_only V (if b then x else y)"
  by simp

lemma raises_only_option:
  "(v = None \<Longrightarrow> raises_only V x) \<Longrightarrow> (\<And>u. v = Some u \<Longrightarrow> raises_only V (f u)) \<Longrightarrow> raises_only V (case v of None \<Rightarrow> x | Some u \<Rightarrow> f u)"
  by (cases v) simp_all

lemma open_parts_raises: "list_all os_name ps \<Longrightarrow> raises_only reported (open_parts ps n)"
  by (induction ps n rule: open_parts.induct)
    (auto simp: Let_def unsafe_source_def read_file_def split: option.splits node.splits)

lemma read_raises: "list_all os_name (path_parts path) \<Longrightarrow> raises_only reported (read_policy_source root path)"
  by (auto simp: read_policy_source_def intro: open_parts_raises split: option.splits)

lemma mapping_raises: "raises_only reported (mapping v label)"
  by (simp add: mapping_def Let_def split: pyval.splits option.splits)

lemma construct_raises:
  "raises_only reported (construct n)" "raises_only reported (construct_items ns)" "raises_only reported (construct_pairs acc kvs)"
  by (induction n and ns and acc kvs rule: construct_construct_items_construct_pairs.induct)
    (auto intro!: raises_only_bind)

lemma field_raises:
  "raises_only reported (exact_keys kvs r opt label)" "raises_only reported (non_empty_string v label)"
  "raises_only reported (bounded_int v label b)" "raises_only reported (boolean v label)"
  "raises_only reported (list_field f v label)"
  by (simp_all add: exact_keys_def non_empty_string_def bounded_int_def boolean_def list_field_def Let_def split: pyval.splits option.splits)

definition contract_error :: "exn \<Rightarrow> bool" where
  "contract_error e = (case e of ControlContractError m \<Rightarrow> True | _ \<Rightarrow> False)"

lemma contract_error_simps [simp]: "contract_error (ControlContractError m)"
  by (simp add: contract_error_def)

lemma or_compile_error_raises: "raises_only contract_error r \<Longrightarrow> raises_only reported (or_compile_error m r)"
  by (auto simp: or_compile_error_def raises_only_def contract_error_def is_value_error_def split: sum.splits exn.splits)

lemma contract_raises:
  "raises_only contract_error (mk_sink k)" "raises_only contract_error (mk_scope s)"
  "raises_only contract_error (mk_snapshot q)"
proof -
  show "raises_only contract_error (mk_sink k)" by (simp add: mk_sink_def require_text_def check_r_def del: lit_simps)
  show "raises_only contract_error (mk_scope s)" by (simp add: mk_scope_def del: lit_simps)
  have "raises_only contract_error (snapshot_times i e)" for i e
    by (auto simp: snapshot_times_def require_timestamp_def require_text_def intro!: raises_only_bind split: option.splits)
  then show "raises_only contract_error (mk_snapshot q)"
    unfolding mk_snapshot_def require_text_def require_digest_def
    by (intro raises_only_bind raises_only_if raises_only_option; simp del: lit_simps)
qed

lemmas step_raises = mapping_raises field_raises or_compile_error_raises [OF contract_raises(1)] or_compile_error_raises [OF contract_raises(2)]

lemma parse_raises:
  assumes "\<And>s. \<exists>r. yaml s = Inr r" shows "raises_only reported (parse_source yaml body)"
proof -
  have "raises_only reported (yaml s)" for s using assms [of s] by auto
  then show ?thesis
    by (auto simp: parse_source_def Let_def intro!: raises_only_bind construct_raises mapping_raises split: option.splits)
qed

lemma validated_sink_raises: "raises_only reported (validated_sink names v)"
  by (auto simp: validated_sink_def validated_ceiling_def simp del: lit_simps intro!: raises_only_bind step_raises)

lemma validated_sinks_raises: "raises_only reported (validated_sinks names vs)"
  by (induction names vs rule: validated_sinks.induct) (auto intro!: raises_only_bind validated_sink_raises)

lemma validated_source_raises: "raises_only reported (validated_source kvs)"
  by (auto simp: validated_source_def validated_capture_def sinks_of_def validated_command_scope_def simp del: lit_simps
      intro!: raises_only_bind step_raises validated_sinks_raises split: option.splits pyval.splits prod.splits)

section \<open>Exceptions of compilation\<close>

lemma sha256_of_raises: "raises_only reported (sha256_of v)"
  by (auto simp: sha256_of_def policy_json_bytes_def intro!: raises_only_bind split: option.splits)

lemma sha256_of_digest: "sha256_of v = Inr d \<Longrightarrow> is_digest d"
  using digest_of_ok by (auto simp: sha256_of_def bind_r_Inr_iff)

lemma material_raises: "raises_only reported (canonical_policy_material kvs)"
  by (auto simp: canonical_policy_material_def incomplete_material_def field_of_def simp del: lit_simps
      intro!: raises_only_bind split: option.splits json.splits)

lemma build_snapshot_raises:
  assumes "validated_source kvs = Inr p" "is_digest d" shows "raises_only reported (build_snapshot p c rf sd i e d)"
proof -
  note v = validated_sourceD [OF assms(1)]
  have "so_policy_ref p \<noteq> []" using v(6) by auto
  then have b: "mk_binding \<lparr>pb_snapshot_id = snapshot_id_of d, pb_ref = so_policy_ref p, pb_digest = d\<rparr> =
      Inr \<lparr>pb_snapshot_id = snapshot_id_of d, pb_ref = so_policy_ref p, pb_digest = d\<rparr>"
    using assms(2) by (simp add: mk_binding_def require_text_def require_digest_def snapshot_id_of_def)
  have ce: "mk_cache_entry \<lparr>ce_key = lit ''policy-cache://snapshot/'' @ snapshot_id_of d, ce_binding = x, ce_owner = OWNER,
      ce_max_age_ms = so_max_age_ms p\<rparr> = Inr \<lparr>ce_key = lit ''policy-cache://snapshot/'' @ snapshot_id_of d, ce_binding = x,
      ce_owner = OWNER, ce_max_age_ms = so_max_age_ms p\<rparr>" for x
    using v(4) by (simp add: mk_cache_entry_def require_text_def OWNER_def)
  have k: "mapM_r mk_sink (so_sinks p) = Inr (so_sinks p)" using v(3) by (simp add: mapM_sinks)
  show ?thesis unfolding build_snapshot_def b ce k bind_r_simps
    by (intro or_compile_error_raises raises_only_bind contract_raises)
qed

lemma contextual_raises: "raises_only reported (validate_contextual_policy p c)"
  unfolding validate_contextual_policy_def by (intro raises_only_if) simp_all

lemma compile_validated_raises:
  assumes "validated_source kvs = Inr p" "validity_window c = Inr w"
  shows "raises_only reported (compile_validated p path c [])"
proof -
  obtain i e where w: "w = (i, e)" by (cases w)
  show ?thesis
    unfolding compile_validated_def provenance_digest_def contributions_none assms(2) w bind_r_simps Let_def prod.case
    by (intro raises_only_bind contextual_raises sha256_of_raises material_raises build_snapshot_raises [OF assms(1)] raises_only_simps;
        erule sha256_of_digest)
qed

lemma compile_raises:
  assumes "list_all os_name (path_parts path)" "\<And>s. \<exists>r. yaml s = Inr r" "validity_window c = Inr w"
  shows "raises_only reported (compile_policy_source yaml root path c [])"
  unfolding compile_policy_source_def
  by (intro raises_only_bind read_raises parse_raises validated_source_raises compile_validated_raises [OF _ assms(3)] assms(1,2))

lemma accepted_window:
  assumes "mk_commissioning c = Inr c" "fromisoformat (replace_z (cc_issued_at c)) = Some t"
    and "in_range (instant t + cc_valid_for_ms c * 1000)"
  obtains w where "validity_window c = Inr w"
proof -
  have "1 \<le> cc_valid_for_ms c" "\<exists>i. canonical_timestamp (cc_issued_at c) = Inr i"
    using assms(1) by (auto simp: mk_commissioning_def bind_r_Inr_iff bounded_int_def simp del: lit_simps split: if_splits)
  then show ?thesis using validity_window_total assms(2,3) that by metis
qed

section \<open>Properties\<close>

text \<open>
  Lint always reports: for an accepted commissioning context whose snapshot would expire within
  the year 9999, a path the system interface accepts and a YAML library that raises nothing but
  \<open>YAMLError\<close>, \<open>lint_policy_source\<close> returns exactly one diagnostic, and reports the policy valid
  exactly when it compiles.
\<close>

theorem lint_always_reports:
  assumes "list_all os_name (path_parts path)" "\<forall>s. \<exists>r. yaml s = Inr r" "mk_commissioning c = Inr c"
    and "fromisoformat (replace_z (cc_issued_at c)) = Some t" "in_range (instant t + cc_valid_for_ms c * 1000)"
  shows "\<exists>r. lint_policy_source yaml root path c = Inr r \<and> length (ln_diagnostics r) = 1 \<and>
    (ln_valid r \<longleftrightarrow> (\<exists>cm. compile_policy_source yaml root path c [] = Inr cm))"
proof -
  obtain w where "validity_window c = Inr w" by (rule accepted_window [OF assms(3-5)])
  then have "raises_only reported (compile_policy_source yaml root path c [])"
    using assms(1,2) by (intro compile_raises) auto
  then show ?thesis
    by (auto simp: lint_policy_source_def raises_only_def reported_def split: sum.splits exn.splits)
qed

theorem lint_always_reports_witness:
  "\<exists>r. lint_policy_source example_yaml (Some example_root) (lit ''team/p.yaml'') (example_context ''0001-01-02T08:00:00Z'') = Inr r \<and>
     ln_valid r"
proof -
  obtain cm where "compile_policy_source example_yaml (Some example_root) (lit ''team/p.yaml'') (example_context ''0001-01-02T08:00:00Z'') [] = Inr cm"
    by (rule example_compiles)
  moreover have "list_all os_name (path_parts (lit ''team/p.yaml''))" by code_simp
  moreover have "\<forall>s. \<exists>r. example_yaml s = Inr r" by (simp add: example_yaml_def del: lit_simps)
  moreover have "in_range (instant \<lparr>dt_local = 115200000000, dt_offset = Some 0\<rparr> + cc_valid_for_ms (example_context ''0001-01-02T08:00:00Z'') * 1000)"
    by code_simp
  ultimately show ?thesis
    using lint_always_reports [OF _ _ example_context_ok(1) example_window] by blast
qed

text \<open>
  An accepted context can still make lint raise: when a readable, valid policy would expire after
  the year 9999, \<open>lint_policy_source\<close> raises \<open>OverflowError\<close> instead of returning a diagnostic.
\<close>

theorem lint_overflow_escapes:
  assumes "read_policy_source root path = Inr body" "parse_source yaml body = Inr kvs" "validated_source kvs = Inr p"
    and "mk_commissioning c = Inr c" "validate_contextual_policy p c = Inr ()" "texts_ok p path c"
    and "fromisoformat (replace_z (cc_issued_at c)) = Some t" "\<not> in_range (instant t - instant t mod 1000 + cc_valid_for_ms c * 1000)"
  shows "lint_policy_source yaml root path c = Inl (OverflowError ''date value out of range'')"
proof -
  from assms(4) obtain i where i: "canonical_timestamp (cc_issued_at c) = Inr i"
    by (auto simp: mk_commissioning_def bind_r_Inr_iff simp del: lit_simps split: if_splits)
  then have "in_range (instant t)" "i = isoformat_z (instant t)" using assms(7) by (auto elim: canonical_timestampD)
  then have "validity_window c = Inl (OverflowError ''date value out of range'')"
    using i assms(8) by (simp add: validity_window_def isoformat_read_back add_ms_def Let_def)
  moreover obtain pd sd where "provenance_digest c = Inr pd" "sha256_of (source_material p c []) = Inr sd"
    using source_material_ok(1,2) [OF assms(3,6)] sha256_of_ok unfolding provenance_digest_def by metis
  ultimately have "compile_policy_source yaml root path c [] = Inl (OverflowError ''date value out of range'')"
    using assms(1-3,5) contributions_none by (simp add: compile_policy_source_def compile_validated_def)
  then show ?thesis by (simp add: lint_policy_source_def)
qed

lemma last_second:
  "fromisoformat (replace_z (lit ''9999-12-31T23:59:59.000Z'')) = Some \<lparr>dt_local = 315537897599000000, dt_offset = Some 0\<rparr>"
proof -
  have "lit ''9999-12-31T23:59:59.000Z'' = pad 4 9999 @ [45] @ pad 2 12 @ [45] @ pad 2 31 @ [84] @ pad 2 23 @ [58] @ pad 2 59 @ [58] @
      pad 2 59 @ [46] @ pad 3 0 @ [90]"
    by code_simp
  moreover have "valid_date 9999 12 31" by (simp add: valid_date_def days_in_month_def month_days_def)
  moreover have "ymd2ord 9999 12 31 = 3652059" "clock_us (23, 59, 59, 0) = 86399000000"
    by (simp_all add: ymd2ord_def days_before_year_def days_before_month_def month_days_def is_leap_def clock_us_def)
  ultimately show ?thesis using fromisoformat_fields [of 9999 12 31 23 59 59 0] by (simp add: DAY_US_def del: lit_simps)
qed

theorem lint_overflow_escapes_witness:
  "lint_policy_source example_yaml (Some example_root) (lit ''team/p.yaml'') (example_context ''9999-12-31T23:59:59.000Z'') =
     Inl (OverflowError ''date value out of range'')"
proof (rule lint_overflow_escapes [OF example_reads _ example_context_ok(2,3)])
  let ?c = "example_context ''9999-12-31T23:59:59.000Z''"
  have "canonical_timestamp (lit ''9999-12-31T23:59:59.000Z'') = Inr (isoformat_z 315537897599000000)"
    by (simp add: canonical_timestamp_def last_second Let_def aware_def to_utc_def instant_def in_range_def MAXORDINAL_def DAY_US_def del: lit_simps)
      (simp add: lit_def)
  then show "mk_commissioning ?c = Inr ?c"
    by (simp add: mk_commissioning_def example_context_def example_claim_def bounded_int_def MAX_VALIDITY_MS_def TRUST_DOMAINS_def
        CLAIM_NAMES_def claim_named_def lit_eq_iff insert_commute del: lit_simps) (simp add: lit_def)
  show "fromisoformat (replace_z (cc_issued_at ?c)) = Some \<lparr>dt_local = 315537897599000000, dt_offset = Some 0\<rparr>"
    using last_second by (simp add: example_context_def del: lit_simps)
qed (simp add: instant_def in_range_def MAXORDINAL_def DAY_US_def example_context_def del: lit_simps)

section \<open>Order of sinks\<close>

lemma validated_sink_names:
  "validated_sink names v = Inr k \<longleftrightarrow> validated_sink [] v = Inr k \<and> sk_name k \<notin> set names"
proof -
  have "validated_sink ns v = Inr k \<Longrightarrow> validated_sink [] v = Inr k \<and> sk_name k \<notin> set ns" for ns
    using mk_sink_ok(1) by (fastforce simp: validated_sink_def bind_r_Inr_iff simp del: lit_simps split: if_splits)
  moreover have "validated_sink [] v = Inr k \<Longrightarrow> sk_name k \<notin> set names \<Longrightarrow> validated_sink names v = Inr k"
    using mk_sink_ok(1) by (fastforce simp: validated_sink_def bind_r_Inr_iff simp del: lit_simps split: if_splits)
  ultimately show ?thesis by blast
qed

lemma validated_sinks_all2:
  "validated_sinks names vs = Inr ks \<longleftrightarrow>
     list_all2 (\<lambda>v k. validated_sink [] v = Inr k) vs ks \<and> distinct (map sk_name ks) \<and> set (map sk_name ks) \<inter> set names = {}"
proof (induction names vs arbitrary: ks rule: validated_sinks.induct)
  case (2 names v vs)
  show ?case by (cases ks) (auto simp: bind_r_Inr_iff validated_sink_names [of names] "2.IH")
qed auto

lemma sinks_of_order:
  assumes "mset xs = mset ys" "sinks_of (PList xs) = Inr ks"
  obtains ks' where "sinks_of (PList ys) = Inr ks'" "sort_key sk_name ks' = sort_key sk_name ks"
proof -
  define g where "g v = (case validated_sink [] v of Inr k \<Rightarrow> k | Inl e \<Rightarrow> undefined)" for v
  have len: "length xs = length ys" using assms(1) by (rule mset_eq_length)
  have v: "xs \<noteq> []" "\<not> length SINK_NAMES < length xs" "list_all2 (\<lambda>v k. validated_sink [] v = Inr k) xs ks" "distinct (map sk_name ks)"
    using assms(2) by (auto simp: sinks_of_def validated_sinks_all2 split: if_splits)
  have all: "validated_sink [] v = Inr (g v)" if "v \<in> set xs" for v
    using v(3) that by (auto simp: list_all2_conv_all_nth in_set_conv_nth g_def)
  have ks: "ks = map g xs" using v(3) by (auto simp: list_all2_conv_all_nth g_def intro!: nth_equalityI)
  have m: "mset (map g ys) = mset ks" using assms(1) by (simp add: ks)
  have d: "distinct (map sk_name (map g ys))" using mset_distinct_map [OF m, of sk_name] v(4) by simp
  have "list_all2 (\<lambda>v k. validated_sink [] v = Inr k) ys (map g ys)"
    using all mset_eq_setD [OF assms(1)] by (auto simp: list_all2_conv_all_nth)
  then have "sinks_of (PList ys) = Inr (map g ys)" using v(1,2) len d by (auto simp: sinks_of_def validated_sinks_all2)
  moreover have "sort_key sk_name (map g ys) = sort_key sk_name ks" by (rule sort_key_mset_eq [OF m d])
  ultimately show ?thesis by (rule that)
qed

lemma pget_update: "pget (AList.update (lit k) v kvs) j = (if j = k then v else pget kvs j)"
  by (simp add: pget_def update_conv' lit_eq_iff)

lemma keys_update: "k \<in> fst ` set kvs \<Longrightarrow> set (map fst (AList.update k v kvs)) = set (map fst kvs)"
  by (induction kvs) auto

text \<open>
  Authoring order is irrelevant: permuting the sinks of an accepted policy source gives the same
  normalized source, hence the same snapshot, digest and snapshot id.
\<close>

theorem sink_order_irrelevant:
  assumes "validated_source kvs = Inr p" "map_of kvs (lit ''sinks'') = Some (PList xs)" "mset xs = mset ys"
  shows "validated_source (AList.update (lit ''sinks'') (PList ys) kvs) = Inr p"
proof -
  let ?kvs = "AList.update (lit ''sinks'') (PList ys) kvs"
  have "lit ''sinks'' \<in> fst ` set kvs" using assms(2) by (metis domI dom_map_of_conv_image_fst)
  then have keys: "exact_keys ?kvs r opt label = exact_keys kvs r opt label" for r opt label
    by (simp only: exact_keys_def keys_update)
  have get: "pget ?kvs j = (if j = ''sinks'' then PList ys else pget kvs j)" for j by (rule pget_update)
  have scope: "scope_value ?kvs = scope_value kvs" by (simp add: scope_value_def update_conv' lit_eq_iff del: lit_simps)
  have xs: "pget kvs ''sinks'' = PList xs" using assms(2) by (simp add: pget_def)
  obtain ks where ks: "sinks_of (PList xs) = Inr ks"
    using assms(1) by (auto simp: validated_source_def bind_r_Inr_iff xs simp del: lit_simps split: if_splits prod.splits)
  from sinks_of_order [OF assms(3) ks] obtain ks' where "sinks_of (PList ys) = Inr ks'" "sort_key sk_name ks' = sort_key sk_name ks" .
  then have "validated_source ?kvs = validated_source kvs"
    by (simp add: validated_source_def keys get scope xs ks case_prod_beta' del: lit_simps cong: if_cong)
  then show ?thesis using assms(1) by simp
qed

definition second_sink :: pyval where
  "second_sink = PDict [(PStr (lit ''name''), PStr (lit ''audit-receipt'')), (PStr (lit ''trust_domain''), PStr (lit ''metadata-only'')),
     (PStr (lit ''disclosure''), PStr (lit ''metadata-only'')), (PStr (lit ''redaction_required''), PBool False)]"

definition two_sinks :: pdict where
  "two_sinks = (case pget example_dict ''sinks'' of PList ks \<Rightarrow> AList.update (lit ''sinks'') (PList (ks @ [second_sink])) example_dict | _ \<Rightarrow> [])"

theorem sink_order_irrelevant_witness:
  "\<exists>p k. length (so_sinks p) = 2 \<and> validated_source two_sinks = Inr p \<and>
     validated_source (AList.update (lit ''sinks'') (PList [second_sink, k]) two_sinks) = Inr p"
proof -
  define k where "k = (case pget example_dict ''sinks'' of PList ks \<Rightarrow> hd ks | _ \<Rightarrow> PNone)"
  have "(case validated_source two_sinks of Inr p \<Rightarrow> length (so_sinks p) = 2 | Inl e \<Rightarrow> False)" by code_simp
  then obtain p where p: "validated_source two_sinks = Inr p" "length (so_sinks p) = 2" by (auto split: sum.splits)
  have m: "map_of two_sinks (lit ''sinks'') = Some (PList [k, second_sink])" unfolding k_def by code_simp
  have "mset [k, second_sink] = mset [second_sink, k]" by simp
  from sink_order_irrelevant [OF p(1) m this] p show ?thesis by blast
qed

end
