(* ===== verification/Rollout.thy ===== *)
theory Rollout
  imports Control Spool
begin

text \<open>
  \<open>native/rollout.py\<close> and \<open>native/selector.py\<close>: the fail-closed choice between the Python reference
  engine and a pinned native artifact.  What the host does is an argument, \<open>native_host\<close>: the entry
  the executable path opens, whether \<open>/proc/self/fd\<close> exists, what running the opened bytes with given
  arguments returns, and \<open>repr\<close> of a float literal (used only to print a document again).  Interpolated
  values are left out of error messages.  Shown: evidence that is accepted is complete, a native
  engine is chosen only behind every gate, bypass never fails, and canary cohorts only grow.
\<close>

unbundle bit_operations_syntax

section \<open>Evidence\<close>

datatype rollout_track = TrackPython | TrackShadow | TrackCanary | TrackNativeDefault
datatype rollout_mode = BYPASS | SHADOW | ENFORCE

definition mode_value :: "rollout_mode \<Rightarrow> pystr" where
  "mode_value m = (case m of BYPASS \<Rightarrow> lit ''bypass'' | SHADOW \<Rightarrow> lit ''shadow'' | ENFORCE \<Rightarrow> lit ''enforce'')"

definition mode_of :: "pystr \<Rightarrow> rollout_mode option" where
  "mode_of s = List.find (\<lambda>m. mode_value m = s) [BYPASS, SHADOW, ENFORCE]"

text \<open>\<open>[a-z0-9](?:[a-z0-9._-]{0,62}[a-z0-9])?\<close>\<close>

definition lower_alnum :: "nat \<Rightarrow> bool" where
  "lower_alnum c \<longleftrightarrow> is_lower c \<or> is_digit c"

definition is_token :: "pystr \<Rightarrow> bool" where
  "is_token s \<longleftrightarrow> s \<noteq> [] \<and> length s \<le> 64 \<and> lower_alnum (hd s) \<and> lower_alnum (last s) \<and>
     list_all (\<lambda>c. lower_alnum c \<or> c \<in> set (lit ''._-'')) s"

definition is_commit :: "pystr \<Rightarrow> bool" where
  "is_commit s \<longleftrightarrow> length s = 40 \<and> list_all is_hex s"

record host_class =
  hc_operating_system :: pystr
  hc_architecture :: pystr
  hc_libc :: pystr
  hc_python_abi :: pystr

definition mk_host_class :: "host_class \<Rightarrow> host_class result" where
  "mk_host_class h =
     (if \<not> is_token (hc_operating_system h) then Inl (RolloutEvidenceError ''invalid host-class operating_system'')
      else if \<not> is_token (hc_architecture h) then Inl (RolloutEvidenceError ''invalid host-class architecture'')
      else if \<not> is_token (hc_libc h) then Inl (RolloutEvidenceError ''invalid host-class libc'')
      else if \<not> is_token (hc_python_abi h) then Inl (RolloutEvidenceError ''invalid host-class python_abi'')
      else Inr h)"

definition host_identifier :: "host_class \<Rightarrow> pystr" where
  "host_identifier h = hc_operating_system h @ [45] @ hc_architecture h @ [45] @ hc_libc h @ [45] @ hc_python_abi h"

definition native_platform :: "host_class \<Rightarrow> pystr" where
  "native_platform h = hc_operating_system h @ [45] @ hc_architecture h"

definition validate_evidence_ids :: "pystr list \<Rightarrow> string \<Rightarrow> unit result" where
  "validate_evidence_ids values label =
     (if values = [] \<or> 64 < length values then Inl (RolloutEvidenceError (label @ '' requires 1 to 64 evidence identifiers''))
      else if list_ex (\<lambda>s. s = [] \<or> 256 < length s) values
        then Inl (RolloutEvidenceError (label @ '' evidence identifiers must contain 1 to 256 chars''))
      else if \<not> distinct values then Inl (RolloutEvidenceError (label @ '' evidence identifiers must be unique''))
      else Inr ())"

record wave_gate =
  wg_wave :: int
  wg_commit :: pystr
  wg_evidence_ids :: "pystr list"

definition mk_wave_gate :: "wave_gate \<Rightarrow> wave_gate result" where
  "mk_wave_gate w =
     (if \<not> (0 \<le> wg_wave w \<and> wg_wave w < 8) then Inl (RolloutEvidenceError ''prior wave must be in W0-W7'')
      else if \<not> is_commit (wg_commit w) then Inl (RolloutEvidenceError ''wave commit must be a full Git SHA'')
      else bind_r (validate_evidence_ids (wg_evidence_ids w) ''wave'') (\<lambda>_. Inr w))"

record host_artifact =
  ha_host_class :: pystr
  ha_native_sha256 :: pystr
  ha_capabilities_sha256 :: pystr

definition mk_host_artifact :: "host_artifact \<Rightarrow> host_artifact result" where
  "mk_host_artifact a =
     (if \<not> is_token (ha_host_class a) then Inl (RolloutEvidenceError ''invalid pinned host class'')
      else if \<not> is_digest (ha_native_sha256 a) then Inl (RolloutEvidenceError ''native artifact digest must be sha256:<hex>'')
      else if \<not> is_digest (ha_capabilities_sha256 a)
        then Inl (RolloutEvidenceError ''native capabilities digest must be sha256:<hex>'')
      else Inr a)"

record rollout_evidence =
  re_release_manifest_digest :: pystr
  re_repository_commit :: pystr
  re_host_artifacts :: "host_artifact list"
  re_prior_waves :: "wave_gate list"
  re_clean_install_passed :: bool
  re_host_conformance_passed :: bool
  re_shadow_passed :: bool
  re_rollback_passed :: bool
  re_canary_passed :: bool
  re_evidence_ids :: "pystr list"
  re_canary_basis_points :: int
  re_native_default_enabled :: bool
  re_native_default_authorization :: "pystr option"

definition mk_evidence :: "rollout_evidence \<Rightarrow> rollout_evidence result" where
  "mk_evidence e =
     (let hosts = map ha_host_class (re_host_artifacts e) in
      if \<not> is_digest (re_release_manifest_digest e) then Inl (RolloutEvidenceError ''release manifest digest must be sha256:<hex>'')
      else if \<not> is_commit (re_repository_commit e) then Inl (RolloutEvidenceError ''repository commit must be a full Git SHA'')
      else if re_host_artifacts e = [] then Inl (RolloutEvidenceError ''at least one pinned host artifact is required'')
      else if 32 < length (re_host_artifacts e) then Inl (RolloutEvidenceError ''at most 32 pinned host artifacts are supported'')
      else if hosts \<noteq> sort hosts \<or> \<not> distinct hosts then Inl (RolloutEvidenceError ''pinned host artifacts must be unique and sorted'')
      else if map wg_wave (re_prior_waves e) \<noteq> [0..7] then Inl (RolloutEvidenceError ''prior wave evidence must contain W0-W7 exactly once'')
      else bind_r (validate_evidence_ids (re_evidence_ids e) ''rollout'') (\<lambda>_.
        if \<not> (0 \<le> re_canary_basis_points e \<and> re_canary_basis_points e \<le> 10000)
          then Inl (RolloutEvidenceError ''canary basis points must be in 0..10000'')
        else if re_native_default_enabled e \<and> (case re_native_default_authorization e of None \<Rightarrow> True | Some a \<Rightarrow> a = [])
          then Inl (RolloutEvidenceError ''native default requires an external authorization reference'')
        else if \<not> re_native_default_enabled e \<and> re_native_default_authorization e \<noteq> None
          then Inl (RolloutEvidenceError ''disabled native default cannot carry authorization'')
        else if (case re_native_default_authorization e of None \<Rightarrow> False | Some a \<Rightarrow> 256 < length a)
          then Inl (RolloutEvidenceError ''native default authorization is too long'')
        else Inr e))"

definition pre_shadow_passed :: "rollout_evidence \<Rightarrow> bool" where
  "pre_shadow_passed e \<longleftrightarrow> re_clean_install_passed e \<and> re_host_conformance_passed e \<and> re_rollback_passed e"

definition pre_canary_passed :: "rollout_evidence \<Rightarrow> bool" where
  "pre_canary_passed e \<longleftrightarrow> pre_shadow_passed e \<and> re_shadow_passed e"

definition default_passed :: "rollout_evidence \<Rightarrow> bool" where
  "default_passed e \<longleftrightarrow> pre_canary_passed e \<and> re_canary_passed e"

definition artifact_for :: "rollout_evidence \<Rightarrow> pystr \<Rightarrow> host_artifact option" where
  "artifact_for e h = List.find (\<lambda>a. ha_host_class a = h) (re_host_artifacts e)"

section \<open>Reading evidence\<close>

definition malformed :: exn where
  "malformed = RolloutEvidenceError ''malformed W8 adoption evidence''"

definition exact_evidence_keys :: "jdict \<Rightarrow> string list \<Rightarrow> string \<Rightarrow> unit result" where
  "exact_evidence_keys kvs expected label =
     check_r (set (map fst kvs) = set (map lit expected)) (RolloutEvidenceError (label @ '' must contain exactly the expected keys''))"

definition ev_string :: "jdict \<Rightarrow> string \<Rightarrow> pystr result" where
  "ev_string kvs k = (case jget kvs k of Some (JStr s) \<Rightarrow> if s = [] then Inl malformed else Inr s | _ \<Rightarrow> Inl malformed)"

definition ev_optional_string :: "jdict \<Rightarrow> string \<Rightarrow> pystr option result" where
  "ev_optional_string kvs k = (case jget kvs k of Some JNull \<Rightarrow> Inr None
     | Some (JStr s) \<Rightarrow> if s = [] then Inl malformed else Inr (Some s) | _ \<Rightarrow> Inl malformed)"

definition strict_bool :: "jdict \<Rightarrow> string \<Rightarrow> bool result" where
  "strict_bool kvs k = (case jget kvs k of Some (JBool b) \<Rightarrow> Inr b | _ \<Rightarrow> Inl malformed)"

definition strict_int :: "jdict \<Rightarrow> string \<Rightarrow> int result" where
  "strict_int kvs k = (case jget kvs k of Some (JInt i) \<Rightarrow> Inr i | _ \<Rightarrow> Inl malformed)"

fun all_strings :: "json list \<Rightarrow> pystr list option" where
  "all_strings [] = Some []"
| "all_strings (JStr s # vs) = map_option (Cons s) (all_strings vs)"
| "all_strings (_ # vs) = None"

definition ev_strings :: "jdict \<Rightarrow> string \<Rightarrow> pystr list result" where
  "ev_strings kvs k = (case jget kvs k of
     Some (JArr vs) \<Rightarrow> (case all_strings vs of Some ss \<Rightarrow> Inr ss | None \<Rightarrow> Inl malformed) | _ \<Rightarrow> Inl malformed)"

definition ev_list :: "jdict \<Rightarrow> string \<Rightarrow> json list result" where
  "ev_list kvs k = (case jget kvs k of Some (JArr vs) \<Rightarrow> Inr vs | _ \<Rightarrow> Inl malformed)"

definition ev_object :: "jdict \<Rightarrow> string \<Rightarrow> jdict result" where
  "ev_object kvs k = (case jget kvs k of Some (JObj o1) \<Rightarrow> Inr o1 | _ \<Rightarrow> Inl malformed)"

definition wave_gate_of :: "json \<Rightarrow> wave_gate result" where
  "wave_gate_of v = (case v of
     JObj kvs \<Rightarrow>
       bind_r (exact_evidence_keys kvs [''wave'', ''commit'', ''evidence_ids''] ''prior wave'') (\<lambda>_.
       bind_r (ev_strings kvs ''evidence_ids'') (\<lambda>ids.
       bind_r (strict_int kvs ''wave'') (\<lambda>wave.
       bind_r (ev_string kvs ''commit'') (\<lambda>commit.
         mk_wave_gate \<lparr>wg_wave = wave, wg_commit = commit, wg_evidence_ids = ids\<rparr>))))
   | _ \<Rightarrow> Inl malformed)"

definition host_artifact_of :: "json \<Rightarrow> host_artifact result" where
  "host_artifact_of v = (case v of
     JObj kvs \<Rightarrow>
       bind_r (exact_evidence_keys kvs [''host_class'', ''native_sha256'', ''capabilities_sha256''] ''host artifact'') (\<lambda>_.
       bind_r (ev_string kvs ''host_class'') (\<lambda>h.
       bind_r (ev_string kvs ''native_sha256'') (\<lambda>n.
       bind_r (ev_string kvs ''capabilities_sha256'') (\<lambda>c.
         mk_host_artifact \<lparr>ha_host_class = h, ha_native_sha256 = n, ha_capabilities_sha256 = c\<rparr>))))
   | _ \<Rightarrow> Inl malformed)"

definition evidence_of_dict :: "jdict \<Rightarrow> rollout_evidence result" where
  "evidence_of_dict kvs =
     bind_r (exact_evidence_keys kvs [''schema_version'', ''release_manifest_digest'', ''repository_commit'', ''host_artifacts'',
       ''prior_waves'', ''gates'', ''rollout'', ''evidence_ids''] ''W8 adoption evidence'') (\<lambda>_.
     if jget kvs ''schema_version'' \<noteq> Some (JStr (lit ''vuoro.outctl.w8-adoption-evidence/v1''))
       then Inl (RolloutEvidenceError ''unsupported W8 adoption evidence schema'')
     else bind_r (ev_list kvs ''prior_waves'') (\<lambda>wave_values.
     bind_r (ev_object kvs ''gates'') (\<lambda>gates.
     bind_r (ev_object kvs ''rollout'') (\<lambda>rollout.
     bind_r (exact_evidence_keys gates [''clean_install_passed'', ''host_conformance_passed'', ''shadow_passed'', ''rollback_passed'',
       ''canary_passed''] ''gates'') (\<lambda>_.
     bind_r (exact_evidence_keys rollout [''canary_basis_points'', ''native_default_enabled'', ''native_default_authorization''] ''rollout'') (\<lambda>_.
     bind_r (mapM_r wave_gate_of wave_values) (\<lambda>waves.
     bind_r (ev_list kvs ''host_artifacts'') (\<lambda>host_values.
     bind_r (ev_strings kvs ''evidence_ids'') (\<lambda>ids.
     bind_r (ev_string kvs ''release_manifest_digest'') (\<lambda>digest.
     bind_r (ev_string kvs ''repository_commit'') (\<lambda>commit.
     bind_r (mapM_r host_artifact_of host_values) (\<lambda>hosts.
     bind_r (strict_bool gates ''clean_install_passed'') (\<lambda>clean.
     bind_r (strict_bool gates ''host_conformance_passed'') (\<lambda>conform.
     bind_r (strict_bool gates ''shadow_passed'') (\<lambda>shadow.
     bind_r (strict_bool gates ''rollback_passed'') (\<lambda>rollback.
     bind_r (strict_bool gates ''canary_passed'') (\<lambda>canary.
     bind_r (strict_int rollout ''canary_basis_points'') (\<lambda>points.
     bind_r (strict_bool rollout ''native_default_enabled'') (\<lambda>enabled.
     bind_r (ev_optional_string rollout ''native_default_authorization'') (\<lambda>authorization.
       mk_evidence \<lparr>re_release_manifest_digest = digest, re_repository_commit = commit, re_host_artifacts = hosts,
         re_prior_waves = waves, re_clean_install_passed = clean, re_host_conformance_passed = conform, re_shadow_passed = shadow,
         re_rollback_passed = rollback, re_canary_passed = canary, re_evidence_ids = ids, re_canary_basis_points = points,
         re_native_default_enabled = enabled, re_native_default_authorization = authorization\<rparr>))))))))))))))))))))"

section \<open>Running the pinned artifact\<close>

record completed_process =
  pc_returncode :: int
  pc_stdout :: bytes
  pc_stderr :: bytes

text \<open>\<open>nh_exec\<close> returns \<open>None\<close> when starting the process fails or it times out.\<close>

record native_host =
  nh_entry :: "node option"
  nh_abspath :: pystr
  nh_proc_fd :: bool
  nh_exec :: "bytes \<Rightarrow> pystr list \<Rightarrow> completed_process option"
  nh_float_repr :: "pystr \<Rightarrow> pystr"

definition run_pinned_native :: "native_host \<Rightarrow> pystr \<Rightarrow> pystr list \<Rightarrow> int \<Rightarrow> completed_process result" where
  "run_pinned_native h expected arguments timeout =
     (if \<not> is_digest expected then Inl (NativeEngineUnavailable ''native artifact digest pin is malformed'')
      else if timeout \<le> 0 then Inl (NativeEngineUnavailable ''native execution timeout must be positive'')
      else if list_ex (\<lambda>a. 0 \<in> set a) arguments then Inl (NativeEngineUnavailable ''native execution arguments are invalid'')
      else case nh_entry h of
          Some (File mode content) \<Rightarrow>
            if mode AND 73 = 0 then Inl (NativeEngineUnavailable ''pinned native artifact is not a regular executable'')
            else if mode AND 18 \<noteq> 0 then Inl (NativeEngineUnavailable ''pinned native artifact is group/world writable'')
            else if digest_of content \<noteq> expected then Inl (NativeEngineUnavailable ''native artifact does not match the pinned release'')
            else if \<not> nh_proc_fd h then Inl (NativeEngineUnavailable ''descriptor execution is unavailable on this host'')
            else (case nh_exec h content arguments of
                Some done1 \<Rightarrow> Inr done1
              | None \<Rightarrow> Inl (NativeEngineUnavailable ''pinned native execution failed''))
        | Some (Dir m cs) \<Rightarrow> Inl (NativeEngineUnavailable ''pinned native artifact is not a regular executable'')
        | Some Special \<Rightarrow> Inl (NativeEngineUnavailable ''pinned native artifact is not a regular executable'')
        | _ \<Rightarrow> Inl (NativeEngineUnavailable ''pinned native artifact is unavailable or unsafe''))"

definition MAX_CAPABILITY_BYTES :: nat where "MAX_CAPABILITY_BYTES = 1048576"

text \<open>A document printed again: floats by their \<open>repr\<close>, everything else as in \<open>Json\<close>.\<close>

fun reprint :: "(pystr \<Rightarrow> pystr) \<Rightarrow> json \<Rightarrow> json" where
  "reprint f (JFloat t) = JFloat (f t)"
| "reprint f (JArr xs) = JArr (map (reprint f) xs)"
| "reprint f (JObj kvs) = JObj (map (\<lambda>(k, v). (k, reprint f v)) kvs)"
| "reprint f v = v"

definition canonical_json_digest :: "(pystr \<Rightarrow> pystr) \<Rightarrow> jdict \<Rightarrow> pystr" where
  "canonical_json_digest f kvs = digest_of (utf8_encode (dumps True (reprint f (JObj kvs))))"

definition probe_native_capabilities :: "native_host \<Rightarrow> pystr option \<Rightarrow> (engine_capabilities \<times> pystr) result" where
  "probe_native_capabilities h expected =
     (case expected of
        None \<Rightarrow> Inl (NativeEngineUnavailable ''native capability probe requires an artifact digest pin'')
      | Some d \<Rightarrow>
          bind_r (run_pinned_native h d [lit ''capabilities'', lit ''--json''] 5) (\<lambda>completed.
          if pc_returncode completed \<noteq> 0 \<or> pc_stderr completed \<noteq> [] \<or> MAX_CAPABILITY_BYTES < length (pc_stdout completed)
            then Inl (NativeEngineUnavailable ''native capability probe was not clean and bounded'')
          else (case json_load (pc_stdout completed) of
              Inr (JObj document) \<Rightarrow>
                (case capabilities_of_dict document of
                   Inr caps \<Rightarrow> Inr (caps, canonical_json_digest (nh_float_repr h) document)
                 | Inl e \<Rightarrow> Inl (NativeEngineUnavailable ''native capability document is invalid''))
            | _ \<Rightarrow> Inl (NativeEngineUnavailable ''native capability document is invalid''))))"

section \<open>Selecting an engine\<close>

datatype engine_choice = PYTHON_REFERENCE | RUST_NATIVE

record engine_selection =
  es_choice :: engine_choice
  es_executable :: "pystr option"
  es_reason :: string

type_synonym environment = "(pystr \<times> pystr) list"

definition env_get :: "environment \<Rightarrow> string \<Rightarrow> pystr option" where
  "env_get env k = map_of env (lit k)"

text \<open>
  \<open>select_engine\<close>: \<open>which\<close> is what \<open>shutil.which("outctl-native")\<close> finds, \<open>runnable\<close> whether a path is an
  executable file, \<open>resolved\<close> its resolution.
\<close>

definition engine_alias :: "pystr \<Rightarrow> engine_choice option" where
  "engine_alias s = map_of [(lit ''python'', PYTHON_REFERENCE), (lit ''python-reference'', PYTHON_REFERENCE),
     (lit ''rust'', RUST_NATIVE), (lit ''rust-native'', RUST_NATIVE)] s"

definition nonempty :: "pystr option \<Rightarrow> pystr option" where
  "nonempty v = (if v = Some [] then None else v)"

definition or_else :: "'a option \<Rightarrow> 'a option \<Rightarrow> 'a option" where
  "or_else a b = (case a of Some x \<Rightarrow> Some x | None \<Rightarrow> b)"

definition select_engine ::
  "pystr option \<Rightarrow> environment \<Rightarrow> pystr option \<Rightarrow> pystr option \<Rightarrow> (pystr \<Rightarrow> bool) \<Rightarrow> (pystr \<Rightarrow> pystr) \<Rightarrow> engine_selection result" where
  "select_engine configured env native which runnable resolved =
     (if env_get env ''OUTCTL_ENABLED'' = Some (lit ''0'') \<or> env_get env ''OUTCTL_MODE'' = Some (lit ''bypass'')
        then Inr \<lparr>es_choice = PYTHON_REFERENCE, es_executable = None, es_reason = ''rollback/bypass selected''\<rparr>
      else let requested = (case nonempty configured of Some c \<Rightarrow> c
             | None \<Rightarrow> (case env_get env ''OUTCTL_ENGINE'' of Some e \<Rightarrow> e | None \<Rightarrow> lit ''python-reference'')) in
        case engine_alias requested of
          None \<Rightarrow> Inl (ValueError ''unsupported OUTCTL_ENGINE value'')
        | Some PYTHON_REFERENCE \<Rightarrow> Inr \<lparr>es_choice = PYTHON_REFERENCE, es_executable = None,
            es_reason = ''Python compatibility reference selected''\<rparr>
        | Some RUST_NATIVE \<Rightarrow>
            (case or_else native (or_else (nonempty (env_get env ''OUTCTL_NATIVE_BINARY'')) (nonempty which)) of
               None \<Rightarrow> Inl (NativeEngineUnavailable ''rust-native was explicitly selected but outctl-native is unavailable'')
             | Some candidate \<Rightarrow>
                 if \<not> runnable candidate
                   then Inl (NativeEngineUnavailable ''rust-native was explicitly selected but outctl-native is unavailable'')
                 else Inr \<lparr>es_choice = RUST_NATIVE, es_executable = Some (resolved candidate), es_reason = ''explicit native selection''\<rparr>))"

fun be_value :: "bytes \<Rightarrow> nat" where
  "be_value [] = 0"
| "be_value (b # bs) = of_char b * 256 ^ length bs + be_value bs"

definition cohort_bucket :: "pystr \<Rightarrow> host_class \<Rightarrow> pystr \<Rightarrow> nat result" where
  "cohort_bucket digest host key =
     (if \<not> is_digest digest \<or> key = [] \<or> 4096 < length key then Inl (RolloutEvidenceError ''canary cohort inputs are invalid'')
      else let material = digest @ [0] @ host_identifier host @ [0] @ key in
        if \<not> list_all is_scalar material then Inl (ValueError ''surrogates not allowed'')
        else Inr (be_value (take 8 (sha256 (utf8_encode material))) mod 10000))"

definition python_selection :: "string \<Rightarrow> engine_selection" where
  "python_selection reason = \<lparr>es_choice = PYTHON_REFERENCE, es_executable = None, es_reason = reason\<rparr>"

definition native_selection :: "native_host \<Rightarrow> host_class \<Rightarrow> capability_requirement option \<Rightarrow> host_artifact \<Rightarrow> engine_selection result" where
  "native_selection h host requirement pin =
     bind_r (probe_native_capabilities h (Some (ha_native_sha256 pin))) (\<lambda>(caps, observed).
     if observed \<noteq> ha_capabilities_sha256 pin then Inl (NativeEngineUnavailable ''native capabilities do not match the pinned release'')
     else if en_platform (ec_engine caps) \<noteq> native_platform host
       then Inl (NativeEngineUnavailable ''native platform does not match the selected host class'')
     else bind_r (negotiate_capabilities caps requirement) (\<lambda>_.
       Inr \<lparr>es_choice = RUST_NATIVE, es_executable = Some (nh_abspath h),
         es_reason = ''pinned native artifact passed capability negotiation''\<rparr>))"

record rollout_selection =
  rs_mode :: rollout_mode
  rs_track :: rollout_track
  rs_engine :: engine_selection
  rs_native_digest :: "pystr option"
  rs_cohort_bucket :: "nat option"
  rs_reason :: string

definition python_track :: "rollout_mode \<Rightarrow> string \<Rightarrow> nat option \<Rightarrow> string \<Rightarrow> rollout_selection" where
  "python_track m engine_reason bucket reason = \<lparr>rs_mode = m, rs_track = TrackPython, rs_engine = python_selection engine_reason,
     rs_native_digest = None, rs_cohort_bucket = bucket, rs_reason = reason\<rparr>"

definition native_track ::
  "native_host \<Rightarrow> host_class \<Rightarrow> capability_requirement option \<Rightarrow> host_artifact \<Rightarrow> rollout_mode \<Rightarrow> rollout_track \<Rightarrow> nat option \<Rightarrow> string \<Rightarrow>
     rollout_selection result" where
  "native_track h host requirement pin m track bucket reason =
     bind_r (native_selection h host requirement pin) (\<lambda>native.
       Inr \<lparr>rs_mode = m, rs_track = track, rs_engine = native, rs_native_digest = Some (ha_native_sha256 pin),
         rs_cohort_bucket = bucket, rs_reason = reason\<rparr>)"

definition select_enforce ::
  "rollout_evidence \<Rightarrow> host_class \<Rightarrow> native_host \<Rightarrow> capability_requirement option \<Rightarrow> pystr option \<Rightarrow> rollout_mode \<Rightarrow> host_artifact \<Rightarrow>
     rollout_selection result" where
  "select_enforce e host h requirement canary_key m pin =
     (if \<not> pre_canary_passed e
        then Inr (python_track m ''native canary gate is incomplete'' None ''shadow evidence must pass before native canary selection'')
      else if re_native_default_enabled e then
        (if \<not> default_passed e then Inl (RolloutEvidenceError ''native default requested before the canary gate passed'')
         else native_track h host requirement pin m TrackNativeDefault None
           ''all W0-W8 gates and the external default authorization passed'')
      else case canary_key of
          Some key \<Rightarrow>
            if re_canary_basis_points e = 0
              then Inr (python_track m ''native default is disabled'' None ''no authorized native canary/default applies'')
            else bind_r (cohort_bucket (re_release_manifest_digest e) host key) (\<lambda>bucket.
              if int bucket < re_canary_basis_points e
                then native_track h host requirement pin m TrackCanary (Some bucket)
                  ''caller key is in the deterministic native canary cohort''
              else Inr (python_track m ''caller key is outside the native canary cohort'' (Some bucket)
                  ''non-canary enforce traffic remains on the Python reference''))
        | None \<Rightarrow> Inr (python_track m ''native default is disabled'' None ''no authorized native canary/default applies''))"

definition select_rollout_engines ::
  "rollout_evidence \<Rightarrow> pystr \<Rightarrow> host_class \<Rightarrow> native_host \<Rightarrow> capability_requirement option \<Rightarrow> pystr option \<Rightarrow> environment \<Rightarrow>
     rollout_selection result" where
  "select_rollout_engines e mode host h requirement canary_key env =
     (let enabled = env_get env ''OUTCTL_ENABLED'' in
      if enabled = Some (lit ''0'') \<or> mode = lit ''bypass''
        then Inr (python_track BYPASS ''rollback/bypass selected'' None
          ''break-glass path requires no rollout evidence or capture migration'')
      else if enabled \<noteq> None \<and> enabled \<noteq> Some (lit ''1'') then Inl (RolloutEvidenceError ''OUTCTL_ENABLED must be 0 or 1'')
      else case mode_of mode of
          None \<Rightarrow> Inl (RolloutEvidenceError ''unsupported rollout mode'')
        | Some m \<Rightarrow>
            if (case env_get env ''OUTCTL_RELEASE_MANIFEST_DIGEST'' of None \<Rightarrow> False | Some d \<Rightarrow> d \<noteq> re_release_manifest_digest e)
              then Inl (RolloutEvidenceError ''configured release manifest digest does not match evidence'')
            else case artifact_for e (host_identifier host) of
                None \<Rightarrow> Inr (python_track m ''host class is not enabled for this release'' None
                  ''unsupported host classes fail back to the Python reference'')
              | Some pin \<Rightarrow>
                  if \<not> pre_shadow_passed e
                    then Inr (python_track m ''W8 pre-shadow gates are incomplete'' None
                      ''clean install, host conformance, and rollback must all pass'')
                  else if m = SHADOW
                    then native_track h host requirement pin m TrackShadow None
                      ''native executes once; shadow exposure preserves the ordinary result''
                  else select_enforce e host h requirement canary_key m pin)"

definition run_native :: "rollout_selection \<Rightarrow> native_host \<Rightarrow> pystr list \<Rightarrow> int \<Rightarrow> completed_process result" where
  "run_native s h arguments timeout =
     (case (es_executable (rs_engine s), rs_native_digest s) of
        (Some x, Some d) \<Rightarrow> if es_choice (rs_engine s) \<noteq> RUST_NATIVE
          then Inl (NativeEngineUnavailable ''rollout selection does not contain a native engine'')
          else run_pinned_native h d arguments timeout
      | _ \<Rightarrow> Inl (NativeEngineUnavailable ''rollout selection does not contain a native engine''))"

section \<open>Properties\<close>

lemma run_pinned_nativeD:
  assumes "run_pinned_native h d arguments timeout = Inr r"
  obtains mode content where "nh_entry h = Some (File mode content)" "digest_of content = d" "mode AND 18 = 0" "mode AND 73 \<noteq> 0"
    "nh_exec h content arguments = Some r" "nh_proc_fd h"
  using assms by (auto simp: run_pinned_native_def split: if_splits option.splits node.splits)

lemma probeD:
  assumes "probe_native_capabilities h (Some d) = Inr (caps, observed)"
  obtains mode content doc where "nh_entry h = Some (File mode content)" "digest_of content = d" "mode AND 18 = 0" "mode AND 73 \<noteq> 0"
    "capabilities_of_dict doc = Inr caps" "observed = canonical_json_digest (nh_float_repr h) doc"
  using assms
  by (auto simp: probe_native_capabilities_def bind_r_Inr_iff simp del: lit_simps elim!: run_pinned_nativeD
      split: if_splits sum.splits json.splits)

definition pinned_native :: "native_host \<Rightarrow> host_class \<Rightarrow> capability_requirement option \<Rightarrow> host_artifact \<Rightarrow> bool" where
  "pinned_native h host requirement pin \<longleftrightarrow>
     (\<exists>mode content caps doc ok. nh_entry h = Some (File mode content) \<and> digest_of content = ha_native_sha256 pin \<and>
        mode AND 18 = 0 \<and> mode AND 73 \<noteq> 0 \<and> capabilities_of_dict doc = Inr caps \<and>
        canonical_json_digest (nh_float_repr h) doc = ha_capabilities_sha256 pin \<and>
        en_platform (ec_engine caps) = native_platform host \<and> negotiate_capabilities caps requirement = Inr ok)"

lemma native_selectionD:
  assumes "native_selection h host requirement pin = Inr s" shows "pinned_native h host requirement pin"
proof -
  from assms obtain caps ok where p: "probe_native_capabilities h (Some (ha_native_sha256 pin)) = Inr (caps, ha_capabilities_sha256 pin)"
    "en_platform (ec_engine caps) = native_platform host" "negotiate_capabilities caps requirement = Inr ok"
    by (auto simp: native_selection_def bind_r_Inr_iff split: if_splits)
  from p(1) show ?thesis by (rule probeD) (use p(2,3) in \<open>auto simp: pinned_native_def\<close>)
qed

lemma native_trackD:
  assumes "native_track h host requirement pin m track bucket reason = Inr s"
  shows "pinned_native h host requirement pin \<and> rs_mode s = m \<and> rs_track s = track \<and> rs_native_digest s = Some (ha_native_sha256 pin) \<and>
    rs_cohort_bucket s = bucket"
  using assms by (auto simp: native_track_def bind_r_Inr_iff dest: native_selectionD)

lemma native_track_track: "native_track h host requirement pin m track bucket reason = Inr s \<Longrightarrow> rs_track s = track"
  by (auto simp: native_track_def bind_r_Inr_iff)

lemma python_track_choice [simp]: "es_choice (rs_engine (python_track m a b c)) = PYTHON_REFERENCE"
  "rs_track (python_track m a b c) = TrackPython"
  by (simp_all add: python_track_def python_selection_def)

definition gate_passed :: "rollout_evidence \<Rightarrow> host_class \<Rightarrow> pystr option \<Rightarrow> rollout_selection \<Rightarrow> bool" where
  "gate_passed e host canary_key s = (case rs_track s of
     TrackPython \<Rightarrow> False
   | TrackShadow \<Rightarrow> rs_mode s = SHADOW
   | TrackNativeDefault \<Rightarrow> default_passed e \<and> re_native_default_enabled e
   | TrackCanary \<Rightarrow> pre_canary_passed e \<and> (\<exists>key b. canary_key = Some key \<and>
       cohort_bucket (re_release_manifest_digest e) host key = Inr b \<and> rs_cohort_bucket s = Some b \<and> int b < re_canary_basis_points e))"

lemma select_enforceD:
  assumes "select_enforce e host h requirement canary_key m pin = Inr s" "es_choice (rs_engine s) = RUST_NATIVE"
  shows "gate_passed e host canary_key s \<and> pinned_native h host requirement pin \<and> rs_native_digest s = Some (ha_native_sha256 pin)"
  using assms by (auto simp: select_enforce_def gate_passed_def bind_r_Inr_iff dest!: native_trackD split: if_splits option.splits)

text \<open>
  C22.  A native engine is selected only behind every gate: not under bypass, only for a host class
  pinned by the evidence after clean install, conformance and rollback passed, and only when the
  opened file is the pinned artifact (digest, executable, not group or world writable) whose capability
  document has the pinned digest, names the host's platform and satisfies the requirement; beyond that in
  shadow mode, or as the authorized default after the canary gate, or for a key inside the canary
  cohort.  Launching the selection runs exactly bytes with the pinned digest.
\<close>

theorem native_requires_gates:
  assumes s: "select_rollout_engines e mode host h requirement canary_key env = Inr s" and n: "es_choice (rs_engine s) = RUST_NATIVE"
  shows "env_get env ''OUTCTL_ENABLED'' \<noteq> Some (lit ''0'') \<and> mode \<noteq> lit ''bypass'' \<and> pre_shadow_passed e \<and> gate_passed e host canary_key s \<and>
    (\<exists>pin. pin \<in> set (re_host_artifacts e) \<and> ha_host_class pin = host_identifier host \<and>
       rs_native_digest s = Some (ha_native_sha256 pin) \<and> pinned_native h host requirement pin \<and>
       (\<forall>now arguments timeout r. run_native s now arguments timeout = Inr r \<longrightarrow>
          (\<exists>m content. nh_entry now = Some (File m content) \<and> digest_of content = ha_native_sha256 pin \<and>
             nh_exec now content arguments = Some r)))"
proof -
  from s n obtain pin m where a: "env_get env ''OUTCTL_ENABLED'' \<noteq> Some (lit ''0'')" "mode \<noteq> lit ''bypass''" "pre_shadow_passed e"
    and pin: "artifact_for e (host_identifier host) = Some pin"
    and sel: "(if m = SHADOW then native_track h host requirement pin m TrackShadow None
        ''native executes once; shadow exposure preserves the ordinary result''
      else select_enforce e host h requirement canary_key m pin) = Inr s"
    by (auto simp: select_rollout_engines_def Let_def simp del: lit_simps split: if_splits option.splits)
  have in_set: "pin \<in> set (re_host_artifacts e)" "ha_host_class pin = host_identifier host"
    using pin find_SomeD by (fastforce simp: artifact_for_def)+
  have g: "gate_passed e host canary_key s \<and> pinned_native h host requirement pin \<and> rs_native_digest s = Some (ha_native_sha256 pin)"
    using sel n by (auto simp: gate_passed_def dest!: native_trackD select_enforceD split: if_splits)
  moreover have "\<exists>m content. nh_entry now = Some (File m content) \<and> digest_of content = ha_native_sha256 pin \<and>
      nh_exec now content arguments = Some r" if "run_native s now arguments timeout = Inr r" for now arguments timeout r
    using that g by (auto simp: run_native_def elim!: run_pinned_nativeD split: option.splits if_splits)
  ultimately show ?thesis using a in_set by blast
qed

definition example_host :: host_class where
  "example_host = \<lparr>hc_operating_system = lit ''linux'', hc_architecture = lit ''x86_64'', hc_libc = lit ''glibc'', hc_python_abi = lit ''cp312''\<rparr>"

definition example_stdout :: bytes where
  "example_stdout = utf8_encode (dumps True (JObj (capabilities_dict example_capabilities)) @ [10])"

definition example_document :: jdict where
  "example_document = sort_key fst (sort_pairs (capabilities_dict example_capabilities))"

definition example_native :: native_host where
  "example_native = \<lparr>nh_entry = Some (File 493 ''elf''), nh_abspath = lit ''/opt/outctl-native'', nh_proc_fd = True,
     nh_exec = (\<lambda>content arguments. Some \<lparr>pc_returncode = 0, pc_stdout = example_stdout, pc_stderr = []\<rparr>), nh_float_repr = (\<lambda>t. t)\<rparr>"

definition example_pin :: host_artifact where
  "example_pin = \<lparr>ha_host_class = lit ''linux-x86_64-glibc-cp312'', ha_native_sha256 = digest_of ''elf'',
     ha_capabilities_sha256 = canonical_json_digest (\<lambda>t. t) example_document\<rparr>"

definition example_evidence :: "int \<Rightarrow> rollout_evidence" where
  "example_evidence points = \<lparr>re_release_manifest_digest = lit ''sha256:'' @ replicate 64 97, re_repository_commit = replicate 40 98,
     re_host_artifacts = [example_pin],
     re_prior_waves = map (\<lambda>w. \<lparr>wg_wave = w, wg_commit = replicate 40 99, wg_evidence_ids = [lit ''run-1'']\<rparr>) [0..7],
     re_clean_install_passed = True, re_host_conformance_passed = True, re_shadow_passed = True, re_rollback_passed = True,
     re_canary_passed = False, re_evidence_ids = [lit ''w8-1''], re_canary_basis_points = points,
     re_native_default_enabled = False, re_native_default_authorization = None\<rparr>"

lemma example_probe:
  "probe_native_capabilities example_native (Some (ha_native_sha256 example_pin)) =
     Inr (example_capabilities, ha_capabilities_sha256 example_pin)"
proof -
  have "json_ok (JObj (capabilities_dict example_capabilities))" by code_simp
  moreover have "capabilities_dict example_capabilities \<noteq> []" by (simp add: capabilities_dict_def)
  ultimately have "json_load example_stdout = Inr (JObj example_document)"
    unfolding example_stdout_def by (subst json_load_dumps) (simp_all add: example_document_def)
  moreover have "capabilities_of_dict example_document = Inr example_capabilities" by code_simp
  moreover have "length example_stdout \<le> MAX_CAPABILITY_BYTES"
  proof -
    have "length example_stdout < 2000" by code_simp
    then show ?thesis by (simp add: MAX_CAPABILITY_BYTES_def)
  qed
  moreover have "(493::nat) AND 73 \<noteq> 0" "(493::nat) AND 18 = 0" by simp_all
  moreover have "\<not> list_ex (\<lambda>a. 0 \<in> set a) [lit ''capabilities'', lit ''--json'']" by code_simp
  ultimately show ?thesis
    by (simp add: probe_native_capabilities_def run_pinned_native_def example_native_def example_pin_def digest_of_ok del: lit_simps)
qed

lemma example_selection:
  "native_selection example_native example_host None example_pin = Inr \<lparr>es_choice = RUST_NATIVE, es_executable = Some (lit ''/opt/outctl-native''),
     es_reason = ''pinned native artifact passed capability negotiation''\<rparr>"
proof -
  have "en_platform (ec_engine example_capabilities) = native_platform example_host" by code_simp
  moreover have "\<exists>ok. negotiate_capabilities example_capabilities None = Inr ok"
    by (simp add: negotiate_capabilities_def unsupported_contracts_def example_capabilities_def default_requirement_def supports_def)
  ultimately show ?thesis using example_probe by (auto simp: native_selection_def example_native_def simp del: lit_simps)
qed

lemma example_artifact: "artifact_for (example_evidence points) (host_identifier example_host) = Some example_pin"
  by (simp add: artifact_for_def example_evidence_def example_pin_def host_identifier_def example_host_def)

lemma example_gates: "pre_canary_passed (example_evidence points)" "pre_shadow_passed (example_evidence points)"
  by (simp_all add: pre_canary_passed_def pre_shadow_passed_def example_evidence_def)

theorem native_requires_gates_witness:
  "\<exists>s. select_rollout_engines (example_evidence 0) (lit ''shadow'') example_host example_native None None [] = Inr s \<and>
     gate_passed (example_evidence 0) example_host None s \<and> pinned_native example_native example_host None example_pin"
proof -
  obtain s where s: "select_rollout_engines (example_evidence 0) (lit ''shadow'') example_host example_native None None [] = Inr s"
    "es_choice (rs_engine s) = RUST_NATIVE"
    by (simp add: select_rollout_engines_def env_get_def mode_of_def mode_value_def native_track_def example_artifact example_gates
        example_selection lit_eq_iff del: lit_simps)
  from native_requires_gates [OF s] obtain pin where g: "gate_passed (example_evidence 0) example_host None s"
    "pin \<in> set (re_host_artifacts (example_evidence 0))" "pinned_native example_native example_host None pin" by blast
  then have "pin = example_pin" by (simp add: example_evidence_def)
  then show ?thesis using s(1) g by blast
qed

lemma bucket_range: "cohort_bucket d host key = Inr b \<Longrightarrow> b < 10000"
  by (auto simp: cohort_bucket_def Let_def split: if_splits)

lemma gates_unchanged:
  "pre_shadow_passed (e\<lparr>re_canary_basis_points := q\<rparr>) = pre_shadow_passed e"
  "pre_canary_passed (e\<lparr>re_canary_basis_points := q\<rparr>) = pre_canary_passed e"
  "default_passed (e\<lparr>re_canary_basis_points := q\<rparr>) = default_passed e"
  "artifact_for (e\<lparr>re_canary_basis_points := q\<rparr>) = artifact_for e"
  by (auto simp: pre_shadow_passed_def pre_canary_passed_def default_passed_def artifact_for_def)

lemma select_enforce_canary:
  "select_enforce e host h requirement canary_key m pin = Inr s \<and> rs_track s = TrackCanary \<longleftrightarrow>
     pre_canary_passed e \<and> \<not> re_native_default_enabled e \<and> re_canary_basis_points e \<noteq> 0 \<and>
     (\<exists>key b. canary_key = Some key \<and> cohort_bucket (re_release_manifest_digest e) host key = Inr b \<and> int b < re_canary_basis_points e \<and>
        native_track h host requirement pin m TrackCanary (Some b) ''caller key is in the deterministic native canary cohort'' = Inr s)"
proof (cases "pre_canary_passed e \<and> \<not> re_native_default_enabled e \<and> re_canary_basis_points e \<noteq> 0")
  case False
  then show ?thesis by (auto simp: select_enforce_def dest: native_track_track split: if_splits option.splits)
next
  case True
  show ?thesis
  proof (cases canary_key)
    case (Some key)
    with True show ?thesis by (cases "cohort_bucket (re_release_manifest_digest e) host key")
        (auto simp: select_enforce_def dest: native_track_track)
  qed (use True in \<open>auto simp: select_enforce_def\<close>)
qed

text \<open>
  Canary cohorts only grow: raising the basis points keeps every key that was selected for the
  canary on the same selection, and at 10000 basis points enforce mode puts every encodable key of
  at most 4096 characters into the canary once the gates passed and the pinned artifact is usable.
\<close>

theorem canary_cohort_monotone:
  "(select_rollout_engines e mode host h requirement canary_key env = Inr s \<and> rs_track s = TrackCanary \<and> re_canary_basis_points e \<le> q \<longrightarrow>
      select_rollout_engines (e\<lparr>re_canary_basis_points := q\<rparr>) mode host h requirement canary_key env = Inr s) \<and>
   (re_canary_basis_points e = 10000 \<and> \<not> re_native_default_enabled e \<and> pre_canary_passed e \<and> is_digest (re_release_manifest_digest e) \<and>
    artifact_for e (host_identifier host) = Some pin \<and> native_selection h host requirement pin = Inr n \<and>
    list_all is_scalar (host_identifier host @ key) \<and> key \<noteq> [] \<and> length key \<le> 4096 \<longrightarrow>
      (\<exists>s. select_rollout_engines e (lit ''enforce'') host h requirement (Some key) [] = Inr s \<and> rs_track s = TrackCanary \<and> rs_engine s = n))"
proof (intro conjI impI)
  assume a: "select_rollout_engines e mode host h requirement canary_key env = Inr s \<and> rs_track s = TrackCanary \<and> re_canary_basis_points e \<le> q"
  have enforce: "select_enforce (e\<lparr>re_canary_basis_points := q\<rparr>) host h requirement canary_key m pin = Inr s"
    if "select_enforce e host h requirement canary_key m pin = Inr s" for m pin
    using that a select_enforce_canary [of e host h requirement canary_key m pin s]
      select_enforce_canary [of "e\<lparr>re_canary_basis_points := q\<rparr>" host h requirement canary_key m pin s] by (auto simp: gates_unchanged)
  show "select_rollout_engines (e\<lparr>re_canary_basis_points := q\<rparr>) mode host h requirement canary_key env = Inr s"
    using a enforce
    by (auto simp: select_rollout_engines_def Let_def gates_unchanged simp del: lit_simps dest: native_track_track split: if_splits option.splits)
next
  assume a: "re_canary_basis_points e = 10000 \<and> \<not> re_native_default_enabled e \<and> pre_canary_passed e \<and> is_digest (re_release_manifest_digest e) \<and>
    artifact_for e (host_identifier host) = Some pin \<and> native_selection h host requirement pin = Inr n \<and>
    list_all is_scalar (host_identifier host @ key) \<and> key \<noteq> [] \<and> length key \<le> 4096"
  have "list_all is_scalar (re_release_manifest_digest e)" using a by (intro digest_scalar) blast
  then obtain b where b: "cohort_bucket (re_release_manifest_digest e) host key = Inr b"
    using a by (simp add: cohort_bucket_def Let_def is_scalar_def)
  have "pre_shadow_passed e" using a by (simp add: pre_canary_passed_def)
  then show "\<exists>s. select_rollout_engines e (lit ''enforce'') host h requirement (Some key) [] = Inr s \<and> rs_track s = TrackCanary \<and> rs_engine s = n"
    using a b bucket_range [OF b]
    by (simp add: select_rollout_engines_def env_get_def mode_of_def mode_value_def select_enforce_def native_track_def lit_eq_iff del: lit_simps)
qed

theorem canary_cohort_monotone_witness:
  "\<exists>s. rs_track s = TrackCanary \<and>
     select_rollout_engines (example_evidence 10000) (lit ''enforce'') example_host example_native None (Some (lit ''session'')) [] = Inr s \<and>
     select_rollout_engines ((example_evidence 10000)\<lparr>re_canary_basis_points := 20000\<rparr>) (lit ''enforce'') example_host example_native None
       (Some (lit ''session'')) [] = Inr s"
proof -
  have "list_all is_scalar (host_identifier example_host @ lit ''session'')" by code_simp
  moreover have "is_digest (re_release_manifest_digest (example_evidence 10000))" 
    by (simp add: example_evidence_def del: lit_simps) code_simp
  moreover have "lit ''session'' \<noteq> []" "length (lit ''session'') \<le> 4096" by simp_all
  moreover have "re_canary_basis_points (example_evidence 10000) = 10000" "\<not> re_native_default_enabled (example_evidence 10000)"
    by (simp_all add: example_evidence_def)
  ultimately obtain s where s: "rs_track s = TrackCanary"
    "select_rollout_engines (example_evidence 10000) (lit ''enforce'') example_host example_native None (Some (lit ''session'')) [] = Inr s"
    using canary_cohort_monotone [where e = "example_evidence 10000" and host = example_host and h = example_native and requirement = None
        and key = "lit ''session''"] example_gates(1) example_artifact example_selection by blast
  then show ?thesis using canary_cohort_monotone [of "example_evidence 10000" "lit ''enforce''" example_host example_native None
      "Some (lit ''session'')" "[]" s 20000] by (auto simp: example_evidence_def simp del: lit_simps)
qed

lemma mk_evidenceD:
  assumes "mk_evidence e = Inr e'"
  shows "e' = e" "map wg_wave (re_prior_waves e) = [0..7]" "distinct (map ha_host_class (re_host_artifacts e))"
    "sorted (map ha_host_class (re_host_artifacts e))" "re_host_artifacts e \<noteq> []"
    "0 \<le> re_canary_basis_points e" "re_canary_basis_points e \<le> 10000" "is_digest (re_release_manifest_digest e)"
    "re_native_default_enabled e \<longleftrightarrow> re_native_default_authorization e \<noteq> None"
proof -
  show "e' = e" "map wg_wave (re_prior_waves e) = [0..7]" "distinct (map ha_host_class (re_host_artifacts e))"
    "re_host_artifacts e \<noteq> []" "0 \<le> re_canary_basis_points e" "re_canary_basis_points e \<le> 10000" "is_digest (re_release_manifest_digest e)"
    using assms by (auto simp: mk_evidence_def Let_def bind_r_Inr_iff split: if_splits)
  show "re_native_default_enabled e \<longleftrightarrow> re_native_default_authorization e \<noteq> None"
    using assms by (auto simp: mk_evidence_def Let_def bind_r_Inr_iff split: if_splits option.splits)
  have "map ha_host_class (re_host_artifacts e) = sort (map ha_host_class (re_host_artifacts e))"
    using assms by (auto simp: mk_evidence_def Let_def split: if_splits)
  then show "sorted (map ha_host_class (re_host_artifacts e))" by (metis sorted_sort)
qed

lemma mk_wave_gateD: "mk_wave_gate w = Inr w' \<Longrightarrow> w' = w \<and> is_commit (wg_commit w) \<and> wg_evidence_ids w \<noteq> []"
  by (auto simp: mk_wave_gate_def validate_evidence_ids_def bind_r_Inr_iff split: if_splits)

lemma wave_gate_ofD: "wave_gate_of v = Inr w \<Longrightarrow> is_commit (wg_commit w) \<and> wg_evidence_ids w \<noteq> []"
  by (auto simp: wave_gate_of_def bind_r_Inr_iff dest!: mk_wave_gateD split: json.splits)

lemma host_artifact_ofD: "host_artifact_of v = Inr a \<Longrightarrow> is_digest (ha_native_sha256 a) \<and> is_digest (ha_capabilities_sha256 a)"
  by (auto simp: host_artifact_of_def mk_host_artifact_def bind_r_Inr_iff split: json.splits if_splits)

lemma mapM_r_all: "mapM_r f xs = Inr ys \<Longrightarrow> (\<And>x y. f x = Inr y \<Longrightarrow> P y) \<Longrightarrow> y \<in> set ys \<Longrightarrow> P y"
  by (induction xs arbitrary: ys) (auto simp: bind_r_Inr_iff)

lemma evidence_of_dictD:
  assumes "evidence_of_dict kvs = Inr e"
  obtains ws hs where "mapM_r wave_gate_of ws = Inr (re_prior_waves e)" "mapM_r host_artifact_of hs = Inr (re_host_artifacts e)"
    "mk_evidence e = Inr e"
proof -
  from assms obtain ws hs waves hosts e0 where "mapM_r wave_gate_of ws = Inr waves" "mapM_r host_artifact_of hs = Inr hosts"
    "mk_evidence e0 = Inr e" "re_prior_waves e0 = waves" "re_host_artifacts e0 = hosts"
    by (auto simp: evidence_of_dict_def bind_r_Inr_iff simp del: lit_simps split: if_splits)
  then show ?thesis using that mk_evidenceD(1) by metis
qed

text \<open>
  Accepted rollout evidence is complete: waves W0 to W7 in order, each with a full commit id and
  evidence; at least one host class, each pinned once with well-formed digests, in order; a canary share
  between 0 and 10000; and the native default enabled exactly when an authorization is present.  Each
  host class therefore has at most one pin, which \<open>artifact_for\<close> returns.
\<close>

theorem evidence_complete:
  assumes "evidence_of_dict kvs = Inr e"
  shows "map wg_wave (re_prior_waves e) = [0..7] \<and> (\<forall>w \<in> set (re_prior_waves e). is_commit (wg_commit w) \<and> wg_evidence_ids w \<noteq> []) \<and>
    re_host_artifacts e \<noteq> [] \<and> sorted (map ha_host_class (re_host_artifacts e)) \<and>
    (\<forall>a \<in> set (re_host_artifacts e). is_digest (ha_native_sha256 a) \<and> is_digest (ha_capabilities_sha256 a) \<and>
       artifact_for e (ha_host_class a) = Some a) \<and>
    0 \<le> re_canary_basis_points e \<and> re_canary_basis_points e \<le> 10000 \<and>
    (re_native_default_enabled e \<longleftrightarrow> re_native_default_authorization e \<noteq> None)"
proof -
  from assms obtain ws hs where m: "mapM_r wave_gate_of ws = Inr (re_prior_waves e)" "mapM_r host_artifact_of hs = Inr (re_host_artifacts e)"
    "mk_evidence e = Inr e" by (rule evidence_of_dictD)
  note ok = mk_evidenceD [OF m(3)]
  have "artifact_for e (ha_host_class a) = Some a" if a: "a \<in> set (re_host_artifacts e)" for a
  proof -
    obtain b where "artifact_for e (ha_host_class a) = Some b"
      using a by (cases "artifact_for e (ha_host_class a)") (auto simp: artifact_for_def find_None_iff)
    moreover from this have "b \<in> set (re_host_artifacts e)" "ha_host_class b = ha_host_class a"
      using find_SomeD by (fastforce simp: artifact_for_def)+
    ultimately show ?thesis using ok(3) a by (auto simp: distinct_map inj_on_def)
  qed
  moreover have "is_commit (wg_commit w) \<and> wg_evidence_ids w \<noteq> []" if "w \<in> set (re_prior_waves e)" for w
    by (rule mapM_r_all [OF m(1) _ that]) (rule wave_gate_ofD)
  moreover have "is_digest (ha_native_sha256 a) \<and> is_digest (ha_capabilities_sha256 a)" if "a \<in> set (re_host_artifacts e)" for a
    by (rule mapM_r_all [OF m(2) _ that]) (rule host_artifact_ofD)
  ultimately show ?thesis using ok by blast
qed

definition example_evidence_document :: jdict where
  "example_evidence_document =
     [(lit ''schema_version'', JStr (lit ''vuoro.outctl.w8-adoption-evidence/v1'')),
      (lit ''release_manifest_digest'', JStr (lit ''sha256:'' @ replicate 64 97)), (lit ''repository_commit'', JStr (replicate 40 98)),
      (lit ''host_artifacts'', JArr [JObj [(lit ''host_class'', JStr (lit ''linux-x86_64-glibc-cp312'')),
         (lit ''native_sha256'', JStr (lit ''sha256:'' @ replicate 64 99)), (lit ''capabilities_sha256'', JStr (lit ''sha256:'' @ replicate 64 100))]]),
      (lit ''prior_waves'', JArr (map (\<lambda>w. JObj [(lit ''wave'', JInt w), (lit ''commit'', JStr (replicate 40 101)),
         (lit ''evidence_ids'', JArr [JStr (lit ''run'')])]) [0..7])),
      (lit ''gates'', JObj [(lit ''clean_install_passed'', JBool True), (lit ''host_conformance_passed'', JBool True),
         (lit ''shadow_passed'', JBool True), (lit ''rollback_passed'', JBool True), (lit ''canary_passed'', JBool False)]),
      (lit ''rollout'', JObj [(lit ''canary_basis_points'', JInt 250), (lit ''native_default_enabled'', JBool False),
         (lit ''native_default_authorization'', JNull)]),
      (lit ''evidence_ids'', JArr [JStr (lit ''w8'')])]"

theorem evidence_complete_witness:
  "\<exists>e. evidence_of_dict example_evidence_document = Inr e \<and> map wg_wave (re_prior_waves e) = [0..7] \<and> re_canary_basis_points e \<le> 10000"
proof -
  have "(case evidence_of_dict example_evidence_document of Inr e \<Rightarrow> True | Inl x \<Rightarrow> False)" by code_simp
  then obtain e where "evidence_of_dict example_evidence_document = Inr e" by (auto split: sum.splits)
  then show ?thesis using evidence_complete by blast
qed

end
