(* ===== verification/Models.thy ===== *)
theory Models
  imports Json
begin

text \<open>
  \<open>models.py\<close>: the typed models of the checked-in schemas.  The dataclasses are data here, a class with
  its fields, type hints and defaults in declaration order, and \<open>_from_dict\<close>, \<open>_coerce\<close> and \<open>_to_dict\<close>
  are the functions that interpret them.  The hints \<open>str\<close>, \<open>int\<close>, \<open>bool\<close> and \<open>float\<close> are one
  constructor: \<open>_coerce\<close> returns a value unchanged under each of them.  A union lists its members other
  than None.  Shown: what is read from a document is read back from the document it is written to, except
  for a member named \<open>extra\<close>, which is lost.
\<close>

section \<open>Dataclasses and instances\<close>

datatype default_value = Missing | DefaultNone | DefaultStr pystr

datatype hint = HAny | HScalar | HClass dataclass | HList hint | HDict hint | HUnion "hint list"
  and dataclass = DC string "(pystr \<times> hint \<times> default_value) list"

fun class_fields :: "dataclass \<Rightarrow> (pystr \<times> hint \<times> default_value) list" where
  "class_fields (DC n fs) = fs"

definition field_of_class :: "dataclass \<Rightarrow> pystr \<Rightarrow> (hint \<times> default_value) option" where
  "field_of_class dc k = map_of (class_fields dc) k"

definition EXTRA :: pystr where "EXTRA = lit ''extra''"

definition has_extra :: "dataclass \<Rightarrow> bool" where
  "has_extra dc \<longleftrightarrow> EXTRA \<in> set (map fst (class_fields dc))"

datatype mval = MData json | MList "mval list" | MDict "(pystr \<times> mval) list" | MInst dataclass "(pystr \<times> mval) list"

section \<open>Reading\<close>

text \<open>Calling the constructor with the collected keyword arguments.\<close>

definition keyword_args :: "dataclass \<Rightarrow> (pystr \<times> mval) list \<Rightarrow> jdict \<Rightarrow> (pystr \<times> mval) list" where
  "keyword_args dc kwargs extra =
     (if has_extra dc then AList.update EXTRA (MData (if extra = [] then JNull else JObj extra)) kwargs else kwargs)"

definition argument_for :: "(pystr \<times> mval) list \<Rightarrow> pystr \<times> hint \<times> default_value \<Rightarrow> (pystr \<times> mval) result" where
  "argument_for kwargs f = (case f of (n, h, d) \<Rightarrow>
     (case map_of kwargs n of
        Some m \<Rightarrow> Inr (n, m)
      | None \<Rightarrow> (case d of
          Missing \<Rightarrow> Inl (TypeError ''missing a required argument'')
        | DefaultNone \<Rightarrow> Inr (n, MData JNull)
        | DefaultStr s \<Rightarrow> Inr (n, MData (JStr s)))))"

definition instantiate :: "dataclass \<Rightarrow> (pystr \<times> mval) list \<times> jdict \<Rightarrow> mval result" where
  "instantiate dc collected = (case collected of (kwargs, extra) \<Rightarrow>
     bind_r (mapM_r (argument_for (keyword_args dc kwargs extra)) (class_fields dc)) (\<lambda>vs. Inr (MInst dc vs)))"

function (sequential) coerce :: "hint \<Rightarrow> json \<Rightarrow> mval result"
  and coerce_items :: "hint \<Rightarrow> json list \<Rightarrow> mval list result"
  and coerce_entries :: "hint \<Rightarrow> jdict \<Rightarrow> (pystr \<times> mval) list result"
  and coerce_union :: "hint list \<Rightarrow> json \<Rightarrow> mval result"
  and coerce_members :: "dataclass \<Rightarrow> jdict \<Rightarrow> ((pystr \<times> mval) list \<times> jdict) result" where
  "coerce h JNull = Inr (MData JNull)"
| "coerce HAny v = Inr (MData v)"
| "coerce HScalar v = Inr (MData v)"
| "coerce (HClass dc) (JObj kvs) = bind_r (coerce_members dc kvs) (instantiate dc)"
| "coerce (HClass dc) v = Inl (TypeError ''expected dict'')"
| "coerce (HList h) (JArr xs) = bind_r (coerce_items h xs) (\<lambda>ms. Inr (MList ms))"
| "coerce (HList h) v = Inl (TypeError ''expected list'')"
| "coerce (HDict h) (JObj kvs) = bind_r (coerce_entries h kvs) (\<lambda>ms. Inr (MDict ms))"
| "coerce (HDict h) v = Inl (TypeError ''expected dict'')"
| "coerce (HUnion [h]) v = coerce h v"
| "coerce (HUnion hs) v = coerce_union hs v"
| "coerce_items h [] = Inr []"
| "coerce_items h (x # xs) = bind_r (coerce h x) (\<lambda>m. bind_r (coerce_items h xs) (\<lambda>ms. Inr (m # ms)))"
| "coerce_entries h [] = Inr []"
| "coerce_entries h ((k, v) # kvs) = bind_r (coerce h v) (\<lambda>m. bind_r (coerce_entries h kvs) (\<lambda>ms. Inr ((k, m) # ms)))"
| "coerce_union [] v = Inl (TypeError ''value did not match any member'')"
| "coerce_union (h # hs) v =
     (case coerce h v of
        Inr m \<Rightarrow> Inr m
      | Inl (TypeError e) \<Rightarrow> coerce_union hs v
      | Inl (ValueError e) \<Rightarrow> coerce_union hs v
      | Inl e \<Rightarrow> Inl e)"
| "coerce_members dc [] = Inr ([], [])"
| "coerce_members dc ((k, v) # kvs) =
     (case field_of_class dc k of
        Some (h, d) \<Rightarrow> bind_r (coerce h v) (\<lambda>m. bind_r (coerce_members dc kvs) (\<lambda>(kwargs, extra). Inr ((k, m) # kwargs, extra)))
      | None \<Rightarrow> if has_extra dc then bind_r (coerce_members dc kvs) (\<lambda>(kwargs, extra). Inr (kwargs, (k, v) # extra))
                else Inl (ValueError ''class does not accept field''))"
  by pat_completeness auto
termination
  by (relation "measures
    [case_sum (case_sum (\<lambda>(h, v). size v) (\<lambda>(h, xs). size_list size xs))
       (case_sum (\<lambda>(h, kvs). size_list (size_prod (\<lambda>_. 0) size) kvs) (case_sum (\<lambda>(hs, v). size v) (\<lambda>(dc, kvs). size_list (size_prod (\<lambda>_. 0) size) kvs))),
     case_sum (case_sum (\<lambda>(h, v). size h) (\<lambda>_. 0)) (case_sum (\<lambda>_. 0) (case_sum (\<lambda>(hs, v). size_list size hs) (\<lambda>_. 0)))]") auto

definition from_dict :: "dataclass \<Rightarrow> jdict \<Rightarrow> mval result" where
  "from_dict dc kvs = bind_r (coerce_members dc kvs) (instantiate dc)"

text \<open>Reading an attribute, and calling a constructor with keyword arguments.\<close>

definition attribute :: "mval \<Rightarrow> pystr \<Rightarrow> mval result" where
  "attribute m n = (case m of
     MInst dc vs \<Rightarrow> (case map_of vs n of Some v \<Rightarrow> Inr v | None \<Rightarrow> Inl (AttributeError ''no attribute''))
   | _ \<Rightarrow> Inl (AttributeError ''no attribute''))"

definition new_instance :: "dataclass \<Rightarrow> (pystr \<times> mval) list \<Rightarrow> mval result" where
  "new_instance dc kwargs = bind_r (mapM_r (argument_for kwargs) (class_fields dc)) (\<lambda>vs. Inr (MInst dc vs))"

section \<open>Writing\<close>

definition without_none :: "jdict \<Rightarrow> jdict" where
  "without_none kvs = filter (\<lambda>(k, v). v \<noteq> JNull) kvs"

fun to_dict :: "mval \<Rightarrow> json"
  and to_items :: "mval list \<Rightarrow> json list"
  and to_values :: "(pystr \<times> mval) list \<Rightarrow> jdict"
  and to_fields :: "dataclass \<Rightarrow> jdict \<Rightarrow> (pystr \<times> mval) list \<Rightarrow> jdict" where
  "to_dict (MData v) = v"
| "to_dict (MList ms) = JArr (to_items ms)"
| "to_dict (MDict ms) = JObj (to_values ms)"
| "to_dict (MInst dc vs) = JObj (to_fields dc [] vs)"
| "to_items [] = []"
| "to_items (m # ms) = to_dict m # to_items ms"
| "to_values [] = []"
| "to_values ((k, m) # ms) = (k, to_dict m) # to_values ms"
| "to_fields dc result [] = result"
| "to_fields dc result ((n, m) # vs) =
     to_fields dc
       (if n = EXTRA then (case m of MData (JObj kvs) \<Rightarrow> foldl (\<lambda>r (k, v). AList.update k v r) result (without_none kvs) | _ \<Rightarrow> result)
        else if m = MData JNull \<and> map_option snd (field_of_class dc n) \<noteq> Some Missing then result
        else AList.update n (to_dict m) result) vs"

section \<open>The classes\<close>

definition extra_field :: "pystr \<times> hint \<times> default_value" where
  "extra_field = (EXTRA, HUnion [HDict HAny], DefaultNone)"

definition output_policy_metadata_class :: dataclass where
  "output_policy_metadata_class = DC ''OutputPolicyMetadata'' [
    (lit ''name'', HScalar, Missing), extra_field]"

definition output_policy_capture_class :: dataclass where
  "output_policy_capture_class = DC ''OutputPolicyCapture'' [
    (lit ''required'', HScalar, Missing), (lit ''backend'', HScalar, Missing),
    (lit ''maxBytes'', HScalar, Missing), (lit ''onFailure'', HScalar, Missing),
    (lit ''onQuotaExceeded'', HScalar, Missing), (lit ''rawMode'', HUnion [HScalar], DefaultNone),
    (lit ''rawRetention'', HUnion [HScalar], DefaultNone),
    (lit ''manifestRetention'', HUnion [HScalar], DefaultNone), extra_field]"

definition output_policy_budget_class :: dataclass where
  "output_policy_budget_class = DC ''OutputPolicyBudget'' [
    (lit ''maxEstimatedTokens'', HScalar, Missing), (lit ''maxBytes'', HScalar, Missing),
    (lit ''maxLines'', HScalar, Missing), (lit ''estimator'', HScalar, Missing)]"

definition output_policy_projection_class :: dataclass where
  "output_policy_projection_class = DC ''OutputPolicyProjection'' [
    (lit ''mode'', HScalar, Missing), (lit ''fullIfUnderBytes'', HUnion [HScalar], DefaultNone),
    (lit ''headLines'', HUnion [HScalar], DefaultNone), (lit ''tailLines'', HUnion [HScalar], DefaultNone),
    (lit ''failureContextBefore'', HUnion [HScalar], DefaultNone),
    (lit ''failureContextAfter'', HUnion [HScalar], DefaultNone),
    (lit ''warningContextBefore'', HUnion [HScalar], DefaultNone),
    (lit ''warningContextAfter'', HUnion [HScalar], DefaultNone),
    (lit ''collapseCarriageReturnProgress'', HUnion [HScalar], DefaultNone),
    (lit ''maxLogicalLineBytes'', HUnion [HScalar], DefaultNone),
    (lit ''includeRetrievalHints'', HUnion [HScalar], DefaultNone), extra_field]"

definition output_policy_redaction_class :: dataclass where
  "output_policy_redaction_class = DC ''OutputPolicyRedaction'' [
    (lit ''beforeModel'', HScalar, Missing), (lit ''beforeLocalRaw'', HScalar, Missing),
    (lit ''beforeReplica'', HScalar, Missing), (lit ''exactSecretSource'', HUnion [HScalar], DefaultNone),
    (lit ''ruleSetRef'', HUnion [HScalar], DefaultNone), extra_field]"

definition output_policy_spec_class :: dataclass where
  "output_policy_spec_class = DC ''OutputPolicySpec'' [
    (lit ''capture'', HClass output_policy_capture_class, Missing),
    (lit ''budget'', HClass output_policy_budget_class, Missing),
    (lit ''projection'', HClass output_policy_projection_class, Missing),
    (lit ''redaction'', HClass output_policy_redaction_class, Missing), extra_field]"

definition output_policy_class :: dataclass where
  "output_policy_class = DC ''OutputPolicy'' [
    (lit ''metadata'', HClass output_policy_metadata_class, Missing),
    (lit ''spec'', HClass output_policy_spec_class, Missing),
    (lit ''apiVersion'', HScalar, DefaultStr (lit ''vuoro.outctl/v1alpha1'')),
    (lit ''kind'', HScalar, DefaultStr (lit ''OutputPolicy'')), extra_field]"

definition output_policy_set_metadata_class :: dataclass where
  "output_policy_set_metadata_class = DC ''OutputPolicySetMetadata'' [
    (lit ''name'', HScalar, Missing), extra_field]"

definition output_policy_set_defaults_class :: dataclass where
  "output_policy_set_defaults_class = DC ''OutputPolicySetDefaults'' [
    (lit ''policy'', HScalar, Missing), extra_field]"

definition output_policy_set_inline_policy_class :: dataclass where
  "output_policy_set_inline_policy_class = DC ''OutputPolicySetInlinePolicy'' [
    (lit ''extends'', HUnion [HScalar], DefaultNone), (lit ''capture'', HUnion [HDict HAny], DefaultNone),
    (lit ''budget'', HUnion [HDict HAny], DefaultNone), (lit ''projection'', HUnion [HDict HAny], DefaultNone),
    (lit ''redaction'', HUnion [HDict HAny], DefaultNone), (lit ''security'', HUnion [HDict HAny], DefaultNone),
    (lit ''retention'', HUnion [HDict HAny], DefaultNone), (lit ''replica'', HUnion [HDict HAny], DefaultNone),
    extra_field]"

definition output_policy_set_profile_class :: dataclass where
  "output_policy_set_profile_class = DC ''OutputPolicySetProfile'' [
    (lit ''name'', HScalar, Missing), (lit ''policy'', HScalar, Missing),
    (lit ''match'', HUnion [HDict HAny], DefaultNone), (lit ''hintOnly'', HUnion [HScalar], DefaultNone),
    (lit ''projectionMode'', HUnion [HScalar], DefaultNone),
    (lit ''selectors'', HUnion [HDict HAny], DefaultNone), extra_field]"

definition output_policy_set_spec_class :: dataclass where
  "output_policy_set_spec_class = DC ''OutputPolicySetSpec'' [
    (lit ''defaults'', HClass output_policy_set_defaults_class, Missing),
    (lit ''policies'', HDict (HClass output_policy_set_inline_policy_class), Missing),
    (lit ''profiles'', HList (HClass output_policy_set_profile_class), Missing), extra_field]"

definition output_policy_set_class :: dataclass where
  "output_policy_set_class = DC ''OutputPolicySet'' [
    (lit ''metadata'', HClass output_policy_set_metadata_class, Missing),
    (lit ''spec'', HClass output_policy_set_spec_class, Missing),
    (lit ''apiVersion'', HScalar, DefaultStr (lit ''vuoro.outctl/v1alpha1'')),
    (lit ''kind'', HScalar, DefaultStr (lit ''OutputPolicySet'')), extra_field]"

definition command_result_invocation_class :: dataclass where
  "command_result_invocation_class = DC ''CommandResultInvocation'' [
    (lit ''argv_display'', HList HScalar, Missing), (lit ''shell'', HScalar, Missing),
    (lit ''cwd'', HScalar, Missing), (lit ''host_id'', HScalar, Missing), (lit ''harness'', HScalar, Missing),
    (lit ''started_at'', HScalar, Missing), (lit ''ended_at'', HUnion [HScalar], DefaultNone),
    (lit ''duration_ms'', HUnion [HScalar], DefaultNone), extra_field]"

definition command_result_command_class :: dataclass where
  "command_result_command_class = DC ''CommandResultCommand'' [
    (lit ''started'', HScalar, Missing), (lit ''exit_code'', HUnion [HScalar], Missing),
    (lit ''signal'', HUnion [HScalar, HScalar], Missing), (lit ''timed_out'', HScalar, Missing),
    (lit ''cancelled'', HScalar, Missing), extra_field]"

definition command_result_capture_source_class :: dataclass where
  "command_result_capture_source_class = DC ''CommandResultCaptureSource'' [
    (lit ''availability'', HScalar, Missing), (lit ''host_id'', HScalar, Missing),
    (lit ''path'', HScalar, Missing), extra_field]"

definition command_result_capture_class :: dataclass where
  "command_result_capture_class = DC ''CommandResultCapture'' [
    (lit ''status'', HScalar, Missing), (lit ''stdout_bytes'', HScalar, Missing),
    (lit ''stderr_bytes'', HScalar, Missing), (lit ''truncated'', HScalar, Missing),
    (lit ''manifest_sha256'', HScalar, Missing),
    (lit ''source'', HClass command_result_capture_source_class, Missing),
    (lit ''stdout_lines'', HUnion [HScalar], DefaultNone), (lit ''stderr_lines'', HUnion [HScalar], DefaultNone),
    (lit ''event_count'', HUnion [HScalar], DefaultNone), (lit ''stdout_sha256'', HUnion [HScalar], DefaultNone),
    (lit ''stderr_sha256'', HUnion [HScalar], DefaultNone), extra_field]"

definition command_result_projection_class :: dataclass where
  "command_result_projection_class = DC ''CommandResultProjection'' [
    (lit ''projection_id'', HScalar, Missing), (lit ''policy_ref'', HScalar, Missing),
    (lit ''policy_digest'', HScalar, Missing), (lit ''mode'', HScalar, Missing),
    (lit ''bytes'', HScalar, Missing), (lit ''lines'', HScalar, Missing),
    (lit ''estimated_tokens'', HScalar, Missing), (lit ''lossy'', HScalar, Missing),
    (lit ''normalized'', HScalar, Missing), (lit ''deduplicated'', HScalar, Missing),
    (lit ''redacted'', HScalar, Missing), (lit ''sha256'', HScalar, Missing),
    (lit ''inline_text'', HUnion [HScalar], DefaultNone), (lit ''projection_ref'', HUnion [HScalar], DefaultNone),
    (lit ''token_estimator'', HUnion [HScalar], DefaultNone),
    (lit ''omitted_stdout_lines'', HUnion [HScalar], DefaultNone),
    (lit ''omitted_stderr_lines'', HUnion [HScalar], DefaultNone), extra_field]"

definition command_result_retrieval_class :: dataclass where
  "command_result_retrieval_class = DC ''CommandResultRetrieval'' [
    (lit ''available'', HScalar, Missing), (lit ''capabilities'', HList HScalar, Missing),
    (lit ''examples'', HUnion [HList HScalar], DefaultNone), extra_field]"

definition command_result_envelope_class :: dataclass where
  "command_result_envelope_class = DC ''CommandResultEnvelope'' [
    (lit ''capture_ref'', HScalar, Missing), (lit ''capture_id'', HScalar, Missing),
    (lit ''bindings'', HDict (HUnion [HScalar]), Missing),
    (lit ''invocation'', HClass command_result_invocation_class, Missing),
    (lit ''command'', HClass command_result_command_class, Missing),
    (lit ''capture'', HClass command_result_capture_class, Missing),
    (lit ''projection'', HClass command_result_projection_class, Missing),
    (lit ''retrieval'', HClass command_result_retrieval_class, Missing),
    (lit ''replicas'', HList (HDict HAny), Missing),
    (lit ''metrics'', HDict (HUnion [HScalar, HScalar, HScalar]), Missing),
    (lit ''schema_version'', HScalar, DefaultStr (lit ''vuoro.outctl.result/v1alpha1'')), extra_field]"

definition capture_manifest_source_class :: dataclass where
  "capture_manifest_source_class = DC ''CaptureManifestSource'' [
    (lit ''host_id'', HScalar, Missing), (lit ''workspace_id'', HScalar, Missing),
    (lit ''cwd'', HScalar, Missing), extra_field]"

definition capture_manifest_policy_class :: dataclass where
  "capture_manifest_policy_class = DC ''CaptureManifestPolicy'' [
    (lit ''name'', HScalar, Missing), (lit ''digest'', HScalar, Missing), extra_field]"

definition capture_manifest_capture_class :: dataclass where
  "capture_manifest_capture_class = DC ''CaptureManifestCapture'' [
    (lit ''status'', HScalar, Missing), (lit ''required'', HScalar, Missing),
    (lit ''max_bytes'', HScalar, Missing), (lit ''truncated'', HScalar, Missing), extra_field]"

definition capture_manifest_stream_class :: dataclass where
  "capture_manifest_stream_class = DC ''CaptureManifestStream'' [
    (lit ''path'', HScalar, Missing), (lit ''bytes'', HScalar, Missing),
    (lit ''sha256'', HUnion [HScalar], Missing), (lit ''complete'', HScalar, Missing),
    (lit ''lines'', HUnion [HScalar], DefaultNone), (lit ''last_captured_offset'', HUnion [HScalar], DefaultNone),
    extra_field]"

definition capture_manifest_streams_class :: dataclass where
  "capture_manifest_streams_class = DC ''CaptureManifestStreams'' [
    (lit ''stdout'', HClass capture_manifest_stream_class, Missing),
    (lit ''stderr'', HClass capture_manifest_stream_class, Missing), extra_field]"

definition capture_manifest_event_index_class :: dataclass where
  "capture_manifest_event_index_class = DC ''CaptureManifestEventIndex'' [
    (lit ''path'', HScalar, Missing), (lit ''bytes'', HScalar, Missing), (lit ''sha256'', HScalar, Missing),
    (lit ''events'', HList (HDict HAny), Missing), extra_field]"

definition capture_manifest_projection_class :: dataclass where
  "capture_manifest_projection_class = DC ''CaptureManifestProjection'' [
    (lit ''projection_id'', HScalar, Missing), (lit ''policy_ref'', HScalar, Missing),
    (lit ''policy_digest'', HScalar, Missing), (lit ''mode'', HScalar, Missing),
    (lit ''bytes'', HScalar, Missing), (lit ''lines'', HScalar, Missing),
    (lit ''estimated_tokens'', HScalar, Missing), (lit ''lossy'', HScalar, Missing),
    (lit ''normalized'', HScalar, Missing), (lit ''deduplicated'', HScalar, Missing),
    (lit ''redacted'', HScalar, Missing), (lit ''sha256'', HScalar, Missing), extra_field]"

definition capture_manifest_class :: dataclass where
  "capture_manifest_class = DC ''CaptureManifest'' [
    (lit ''capture_id'', HScalar, Missing), (lit ''created_at'', HScalar, Missing),
    (lit ''source'', HClass capture_manifest_source_class, Missing), (lit ''bindings'', HDict HAny, Missing),
    (lit ''policy'', HClass capture_manifest_policy_class, Missing),
    (lit ''command'', HClass command_result_command_class, Missing),
    (lit ''capture'', HClass capture_manifest_capture_class, Missing),
    (lit ''streams'', HClass capture_manifest_streams_class, Missing),
    (lit ''event_index'', HClass capture_manifest_event_index_class, Missing),
    (lit ''schema_version'', HScalar, DefaultStr (lit ''vuoro.outctl.capture/v1alpha1'')),
    (lit ''finalized_at'', HUnion [HScalar], DefaultNone),
    (lit ''projections'', HUnion [HList (HClass capture_manifest_projection_class)], DefaultNone), extra_field]"

definition audit_event_class :: dataclass where
  "audit_event_class = DC ''AuditEvent'' [
    (lit ''event_type'', HScalar, Missing), (lit ''occurred_at'', HScalar, Missing),
    (lit ''capture_ref'', HScalar, Missing), (lit ''capture_manifest_sha256'', HScalar, Missing),
    (lit ''bindings'', HDict HAny, Missing), (lit ''actor'', HDict HAny, Missing),
    (lit ''schema_version'', HScalar, DefaultStr (lit ''vuoro.outctl.audit-event/v1alpha1'')),
    (lit ''projection_sha256'', HUnion [HScalar], DefaultNone),
    (lit ''policy_digest'', HUnion [HScalar], DefaultNone), (lit ''status'', HUnion [HDict HAny], DefaultNone),
    (lit ''metrics'', HUnion [HDict HAny], DefaultNone), (lit ''replica'', HUnion [HDict HAny], DefaultNone),
    extra_field]"

section \<open>Well-formed classes and clean documents\<close>

fun wf_hint :: "hint \<Rightarrow> bool" and wf_class :: "dataclass \<Rightarrow> bool" and wf_fields :: "(pystr \<times> hint \<times> default_value) list \<Rightarrow> bool" where
  "wf_hint HAny \<longleftrightarrow> True"
| "wf_hint HScalar \<longleftrightarrow> True"
| "wf_hint (HClass dc) \<longleftrightarrow> wf_class dc"
| "wf_hint (HList h) \<longleftrightarrow> wf_hint h"
| "wf_hint (HDict h) \<longleftrightarrow> wf_hint h"
| "wf_hint (HUnion hs) \<longleftrightarrow> (case hs of [] \<Rightarrow> False | h # r \<Rightarrow> (if r = [] then wf_hint h else h = HScalar))"
| "wf_class (DC n fs) \<longleftrightarrow> distinct (map fst fs) \<and> wf_fields fs \<and> EXTRA \<notin> set (map fst (butlast fs))"
| "wf_fields [] \<longleftrightarrow> True"
| "wf_fields ((n, h, d) # fs) \<longleftrightarrow> wf_hint h \<and> (case d of DefaultStr s \<Rightarrow> h = HScalar | _ \<Rightarrow> True) \<and> (n = EXTRA \<longrightarrow> d = DefaultNone) \<and> wf_fields fs"

text \<open>
  A document that loses nothing: no member named \<open>extra\<close>, no unknown member that is None, and no None for
  a field whose default is a string.
\<close>

function (sequential) clean :: "hint \<Rightarrow> json \<Rightarrow> bool"
  and clean_items :: "hint \<Rightarrow> json list \<Rightarrow> bool"
  and clean_values :: "hint \<Rightarrow> jdict \<Rightarrow> bool"
  and clean_members :: "dataclass \<Rightarrow> jdict \<Rightarrow> bool" where
  "clean (HClass dc) (JObj kvs) \<longleftrightarrow> distinct (map fst kvs) \<and> clean_members dc kvs"
| "clean (HList h) (JArr xs) \<longleftrightarrow> clean_items h xs"
| "clean (HDict h) (JObj kvs) \<longleftrightarrow> clean_values h kvs"
| "clean (HUnion [h]) v \<longleftrightarrow> clean h v"
| "clean h v \<longleftrightarrow> True"
| "clean_items h [] \<longleftrightarrow> True"
| "clean_items h (x # xs) \<longleftrightarrow> clean h x \<and> clean_items h xs"
| "clean_values h [] \<longleftrightarrow> True"
| "clean_values h ((k, v) # kvs) \<longleftrightarrow> clean h v \<and> clean_values h kvs"
| "clean_members dc [] \<longleftrightarrow> True"
| "clean_members dc ((k, v) # kvs) \<longleftrightarrow> k \<noteq> EXTRA \<and> clean_members dc kvs \<and>
     (case field_of_class dc k of
        Some (h, d) \<Rightarrow> clean h v \<and> (case d of DefaultStr s \<Rightarrow> v \<noteq> JNull | _ \<Rightarrow> True)
      | None \<Rightarrow> v \<noteq> JNull)"
  by pat_completeness auto
termination
  by (relation "measures
    [case_sum (case_sum (\<lambda>(h, v). size v) (\<lambda>(h, xs). size_list size xs))
       (case_sum (\<lambda>(h, kvs). size_list (size_prod (\<lambda>_. 0) size) kvs) (\<lambda>(dc, kvs). size_list (size_prod (\<lambda>_. 0) size) kvs)),
     case_sum (case_sum (\<lambda>(h, v). size h) (\<lambda>_. 0)) (\<lambda>_. 0)]") auto

lemma wf_fields_iff:
  "wf_fields fs \<longleftrightarrow> (\<forall>(n, h, d) \<in> set fs. wf_hint h \<and> (case d of DefaultStr s \<Rightarrow> h = HScalar | _ \<Rightarrow> True) \<and> (n = EXTRA \<longrightarrow> d = DefaultNone))"
  by (induction fs) auto

section \<open>Reading back an instance\<close>

text \<open>What reading established of the keyword arguments and the extra members of an instance.\<close>

definition collected_ok :: "dataclass \<Rightarrow> (pystr \<times> mval) list \<Rightarrow> jdict \<Rightarrow> bool" where
  "collected_ok dc kwargs extra \<longleftrightarrow>
     (\<forall>(k, m) \<in> set kwargs. k \<noteq> EXTRA \<and> (\<exists>h d. field_of_class dc k = Some (h, d) \<and> coerce h (to_dict m) = Inr m \<and>
        (case d of DefaultStr s \<Rightarrow> m \<noteq> MData JNull | _ \<Rightarrow> True))) \<and>
     (\<forall>(k, v) \<in> set extra. k \<noteq> EXTRA \<and> field_of_class dc k = None \<and> v \<noteq> JNull) \<and> distinct (map fst extra) \<and>
     (extra \<noteq> [] \<longrightarrow> has_extra dc)"

definition kept :: "dataclass \<Rightarrow> pystr \<times> mval \<Rightarrow> bool" where
  "kept dc f \<longleftrightarrow> fst f \<noteq> EXTRA \<and> \<not> (snd f = MData JNull \<and> map_option snd (field_of_class dc (fst f)) \<noteq> Some Missing)"

lemma to_fields_plain:
  "distinct (map fst vs) \<Longrightarrow> EXTRA \<notin> set (map fst vs) \<Longrightarrow> set (map fst vs) \<inter> set (map fst result) = {} \<Longrightarrow>
     to_fields dc result (vs @ rest) = to_fields dc (result @ map (\<lambda>(n, m). (n, to_dict m)) (filter (kept dc) vs)) rest"
proof (induction vs arbitrary: result)
  case (Cons f vs)
  obtain n m where f: "f = (n, m)" by (rule prod.exhaust)
  have new: "AList.update n (to_dict m) result = result @ [(n, to_dict m)]"
    using Cons.prems(3) by (intro update_new) (auto simp: f)
  show ?case
  proof (cases "kept dc f")
    case True
    then show ?thesis using Cons.prems new Cons.IH [of "result @ [(n, to_dict m)]"] by (auto simp: f kept_def)
  next
    case False
    then show ?thesis using Cons.prems Cons.IH [of result] by (auto simp: f kept_def)
  qed
qed simp

lemma update_all_new:
  "distinct (map fst kvs) \<Longrightarrow> set (map fst kvs) \<inter> set (map fst result) = {} \<Longrightarrow>
     foldl (\<lambda>r (k, v). AList.update k v r) result kvs = result @ kvs"
proof (induction kvs arbitrary: result)
  case (Cons p kvs)
  obtain k v where p: "p = (k, v)" by (rule prod.exhaust)
  have "AList.update k v result = result @ [(k, v)]" using Cons.prems(2) by (intro update_new) (auto simp: p)
  then show ?case using Cons.prems Cons.IH [of "result @ [(k, v)]"] by (auto simp: p)
qed simp

lemma coerce_members_append:
  "\<forall>(k, m) \<in> set ms. \<exists>h d. field_of_class dc k = Some (h, d) \<and> coerce h (to_dict m) = Inr m \<Longrightarrow>
   coerce_members dc rest = Inr (kw, ex) \<Longrightarrow> coerce_members dc (map (\<lambda>(n, m). (n, to_dict m)) ms @ rest) = Inr (ms @ kw, ex)"
  by (induction ms) auto

lemma coerce_members_extra:
  "\<forall>(k, v) \<in> set ex. field_of_class dc k = None \<Longrightarrow> (ex \<noteq> [] \<longrightarrow> has_extra dc) \<Longrightarrow> coerce_members dc ex = Inr ([], ex)"
  by (induction ex) auto

lemma argument_forD:
  assumes "argument_for K (n, h, d) = Inr y"
  obtains mv where "y = (n, mv)" "map_of K n = Some mv \<or> map_of K n = None \<and> (d = DefaultNone \<and> mv = MData JNull \<or> (\<exists>s. d = DefaultStr s \<and> mv = MData (JStr s)))"
  using assms by (auto simp: argument_for_def split: option.splits default_value.splits)

lemma arguments_aligned:
  assumes "mapM_r (argument_for K) fs = Inr vs"
  shows "map fst vs = map fst fs"
    "(n, mv) \<in> set vs \<Longrightarrow> \<exists>h d. (n, h, d) \<in> set fs \<and> argument_for K (n, h, d) = Inr (n, mv)"
proof -
  have "map fst vs = map fst fs \<and> (\<forall>(n, mv) \<in> set vs. \<exists>h d. (n, h, d) \<in> set fs \<and> argument_for K (n, h, d) = Inr (n, mv))"
    using assms
  proof (induction fs arbitrary: vs)
    case (Cons f fs)
    obtain n h d where f: "f = (n, h, d)" using prod_cases3 by blast
    from Cons.prems obtain y ys where y: "argument_for K f = Inr y" "mapM_r (argument_for K) fs = Inr ys" "vs = y # ys"
      by (auto simp: bind_r_Inr_iff)
    from y(1) obtain mv where "y = (n, mv)" unfolding f by (rule argument_forD)
    then show ?case using y Cons.IH [OF y(2)] by (fastforce simp: f)
  qed simp
  then show "map fst vs = map fst fs"
    "(n, mv) \<in> set vs \<Longrightarrow> \<exists>h d. (n, h, d) \<in> set fs \<and> argument_for K (n, h, d) = Inr (n, mv)" by auto
qed

lemma keyword_args_lookup:
  "map_of (keyword_args dc kw ex) n =
     (if has_extra dc \<and> n = EXTRA then Some (MData (if ex = [] then JNull else JObj ex)) else map_of kw n)"
  by (simp add: keyword_args_def update_conv')

lemma mapM_r_pointwise: "list_all2 (\<lambda>x y. f x = Inr y) xs ys \<Longrightarrow> mapM_r f xs = Inr ys"
  by (simp add: mapM_r_all2)

lemma field_facts:
  assumes "wf_class dc" "(n, h, d) \<in> set (class_fields dc)"
  shows "field_of_class dc n = Some (h, d)" "wf_hint h" "d = DefaultStr s \<Longrightarrow> h = HScalar"
proof -
  obtain nm fs where dc: "dc = DC nm fs" by (cases dc)
  show "field_of_class dc n = Some (h, d)" using assms by (simp add: dc field_of_class_def)
  show "wf_hint h" "d = DefaultStr s \<Longrightarrow> h = HScalar" using assms by (auto simp: dc wf_fields_iff)
qed

text \<open>An instance as the constructor built it from what was collected.\<close>

definition built :: "dataclass \<Rightarrow> (pystr \<times> mval) list \<Rightarrow> jdict \<Rightarrow> (pystr \<times> mval) list \<Rightarrow> bool" where
  "built dc kw ex vs \<longleftrightarrow> wf_class dc \<and> mapM_r (argument_for (keyword_args dc kw ex)) (class_fields dc) = Inr vs"

definition read_instance :: "dataclass \<Rightarrow> (pystr \<times> mval) list \<Rightarrow> jdict \<Rightarrow> (pystr \<times> mval) list \<Rightarrow> bool" where
  "read_instance dc kw ex vs \<longleftrightarrow> built dc kw ex vs \<and> collected_ok dc kw ex"

lemma builtD:
  assumes "built dc kw ex vs"
  shows "wf_class dc" "mapM_r (argument_for (keyword_args dc kw ex)) (class_fields dc) = Inr vs"
    "map fst vs = map fst (class_fields dc)" "distinct (map fst vs)"
proof -
  show a: "wf_class dc" "mapM_r (argument_for (keyword_args dc kw ex)) (class_fields dc) = Inr vs"
    using assms by (simp_all add: built_def)
  then show n: "map fst vs = map fst (class_fields dc)" by (intro arguments_aligned(1))
  show "distinct (map fst vs)" using a(1) by (cases dc) (simp add: n)
qed

lemma read_instanceD:
  assumes "read_instance dc kw ex vs"
  shows "wf_class dc" "collected_ok dc kw ex" "mapM_r (argument_for (keyword_args dc kw ex)) (class_fields dc) = Inr vs"
    "map fst vs = map fst (class_fields dc)" "distinct (map fst vs)"
  using assms builtD [of dc kw ex vs] by (simp_all add: read_instance_def)

lemma value_cases:
  assumes i: "read_instance dc kw ex vs" and v: "(n, mv) \<in> set vs" "n \<noteq> EXTRA"
  obtains h d where "(n, h, d) \<in> set (class_fields dc)" "coerce h (to_dict mv) = Inr mv" "mv = MData JNull \<Longrightarrow> d = Missing \<or> d = DefaultNone"
proof -
  note i = read_instanceD [OF i]
  from arguments_aligned(2) [OF i(3) v(1)] obtain h d where f: "(n, h, d) \<in> set (class_fields dc)"
    "argument_for (keyword_args dc kw ex) (n, h, d) = Inr (n, mv)" by blast
  note ff = field_facts [OF i(1) f(1)]
  from f(2) have "map_of kw n = Some mv \<or> (d = DefaultNone \<and> mv = MData JNull \<or> (\<exists>s. d = DefaultStr s \<and> mv = MData (JStr s)))"
    using v(2) by (auto elim!: argument_forD simp: keyword_args_lookup)
  then show ?thesis
  proof (elim disjE exE conjE)
    assume "map_of kw n = Some mv"
    then have "(n, mv) \<in> set kw" by (rule map_of_SomeD)
    then obtain h' d' where c: "field_of_class dc n = Some (h', d')" "coerce h' (to_dict mv) = Inr mv"
      "case d' of DefaultStr s \<Rightarrow> mv \<noteq> MData JNull | _ \<Rightarrow> True" using i(2) unfolding collected_ok_def by blast
    then have "h' = h" "d' = d" using ff(1) by simp_all
    then show ?thesis using c(2,3) by (intro that [OF f(1)]) (simp_all split: default_value.splits)
  next
    assume "d = DefaultNone" "mv = MData JNull"
    then show ?thesis using that [OF f(1)] by simp
  next
    fix s assume "d = DefaultStr s" "mv = MData (JStr s)"
    then show ?thesis using that [OF f(1)] ff(3) by simp
  qed
qed

lemma extra_value:
  assumes i: "built dc kw ex vs" and v: "(EXTRA, mv) \<in> set vs"
  shows "mv = MData (if ex = [] then JNull else JObj ex)" "has_extra dc"
proof -
  note i = builtD [OF i]
  show e: "has_extra dc" using v i(3) unfolding has_extra_def by (metis fst_conv image_eqI list.set_map)
  from arguments_aligned(2) [OF i(2) v] show "mv = MData (if ex = [] then JNull else JObj ex)"
    using e by (auto elim!: argument_forD simp: keyword_args_lookup)
qed

lemma extra_last:
  assumes i: "built dc kw ex vs" and e: "has_extra dc"
  shows "vs = butlast vs @ [(EXTRA, MData (if ex = [] then JNull else JObj ex))]" "EXTRA \<notin> set (map fst (butlast vs))"
proof -
  note d = builtD [OF i]
  show bl: "EXTRA \<notin> set (map fst (butlast vs))" using d(1) by (cases dc) (simp add: map_butlast d(3) del: set_map)
  have "EXTRA \<in> set (map fst vs)" using e by (simp add: has_extra_def d(3) del: set_map)
  moreover from this have ne: "vs \<noteq> []" by auto
  then have "map fst vs = map fst (butlast vs) @ [fst (last vs)]" by (metis append_butlast_last_id last_map map_butlast map_is_Nil_conv)
  ultimately have "fst (last vs) = EXTRA" using bl by (metis UnE empty_iff insert_iff list.set(1) list.simps(15) set_append)
  then have l: "last vs = (EXTRA, snd (last vs))" by (metis prod.collapse)
  then have "snd (last vs) = MData (if ex = [] then JNull else JObj ex)" using extra_value(1) [OF i] ne by (metis last_in_set)
  then show "vs = butlast vs @ [(EXTRA, MData (if ex = [] then JNull else JObj ex))]" using l ne by (metis append_butlast_last_id)
qed

lemma extra_new:
  assumes "collected_ok dc kw ex" "set (map fst P) \<subseteq> set (map fst (class_fields dc))"
  shows "foldl (\<lambda>r (k, v). AList.update k v r) P (without_none ex) = P @ ex"
proof -
  have exd: "distinct (map fst ex)" "\<forall>(k, v) \<in> set ex. field_of_class dc k = None \<and> v \<noteq> JNull"
    using assms(1) by (auto simp: collected_ok_def)
  have "k \<notin> set (map fst (class_fields dc))" if "k \<in> set (map fst ex)" for k
    using exd(2) that by (force simp: field_of_class_def map_of_eq_None_iff)
  then have "set (map fst ex) \<inter> set (map fst P) = {}" using assms(2) by blast
  moreover have "without_none ex = ex" using exd(2) by (auto simp: without_none_def filter_id_conv)
  ultimately show ?thesis using update_all_new [OF exd(1)] by simp
qed


lemma written_fold:
  assumes i: "built dc kw ex vs" and x: "ex \<noteq> [] \<Longrightarrow> has_extra dc"
  shows "to_fields dc [] vs = foldl (\<lambda>r (k, v). AList.update k v r) (map (\<lambda>(n, m). (n, to_dict m)) (filter (kept dc) vs)) (without_none ex)"
proof (cases "has_extra dc")
  case True
  note d = builtD [OF i] and l = extra_last [OF i True]
  let ?mv = "MData (if ex = [] then JNull else JObj ex)" and ?bs = "butlast vs"
  let ?P = "map (\<lambda>(n, m). (n, to_dict m)) (filter (kept dc) ?bs)"
  have "to_fields dc [] vs = to_fields dc ?P [(EXTRA, ?mv)]"
    using to_fields_plain [of ?bs "[]" dc "[(EXTRA, ?mv)]"] l d(4) distinct_butlast [OF d(4)] by (simp add: map_butlast)
  also have "\<dots> = foldl (\<lambda>r (k, v). AList.update k v r) ?P (without_none ex)" by (simp add: without_none_def)
  also have "filter (kept dc) ?bs = filter (kept dc) vs" by (subst (2) l(1)) (simp add: kept_def)
  finally show ?thesis .
next
  case False
  note d = builtD [OF i]
  have "EXTRA \<notin> set (map fst vs)" using False by (simp add: has_extra_def d(3) del: set_map)
  moreover have "ex = []" using x False by blast
  ultimately show ?thesis using to_fields_plain [of vs "[]" dc "[]"] d(4) by (simp add: without_none_def)
qed

lemma written:
  assumes i: "read_instance dc kw ex vs"
  shows "to_fields dc [] vs = map (\<lambda>(n, m). (n, to_dict m)) (filter (kept dc) vs) @ ex"
proof -
  note d = read_instanceD [OF i]
  let ?P = "map (\<lambda>(n, m). (n, to_dict m)) (filter (kept dc) vs)"
  have "set (map fst ?P) \<subseteq> set (map fst (class_fields dc))" by (auto simp flip: d(4) intro!: rev_image_eqI)
  from extra_new [OF d(2) this] show ?thesis
    using i written_fold [of dc kw ex vs] by (simp add: read_instance_def collected_ok_def)
qed

lemma mapM_r_same:
  "mapM_r f xs = Inr ys \<Longrightarrow> (\<And>x y. x \<in> set xs \<Longrightarrow> y \<in> set ys \<Longrightarrow> f x = Inr y \<Longrightarrow> g x = Inr y) \<Longrightarrow> mapM_r g xs = Inr ys"
  by (induction xs arbitrary: ys) (auto simp: bind_r_Inr_iff)

lemma argument_unchanged:
  assumes i: "read_instance dc kw ex vs" and f: "(n, h, d) \<in> set (class_fields dc)" "(n, mv) \<in> set vs"
    and a: "argument_for (keyword_args dc kw ex) (n, h, d) = Inr (n, mv)"
  shows "argument_for (keyword_args dc (filter (kept dc) vs) ex) (n, h, d) = Inr (n, mv)"
proof (cases "n = EXTRA")
  case True
  then show ?thesis using extra_value [OF i [unfolded read_instance_def, THEN conjunct1]] f(2) by (simp add: argument_for_def keyword_args_lookup)
next
  case False
  note r = read_instanceD [OF i]
  obtain h' d' where v: "(n, h', d') \<in> set (class_fields dc)" "mv = MData JNull \<Longrightarrow> d' = Missing \<or> d' = DefaultNone"
    using value_cases [OF i f(2) False] by metis
  have fo: "field_of_class dc n = Some (h, d)" "d' = d" using field_facts(1) [OF r(1) f(1)] field_facts(1) [OF r(1) v(1)] by simp_all
  have uniq: "map_of vs n = Some mv" using f(2) r(5) by simp
  have dk: "distinct (map fst (filter (kept dc) vs))" using r(5) by (simp add: distinct_map_filter)
  show ?thesis
  proof (cases "kept dc (n, mv)")
    case True
    then have "map_of (filter (kept dc) vs) n = Some mv" using dk f(2) by simp
    then show ?thesis using False by (simp add: argument_for_def keyword_args_lookup)
  next
    case nk: False
    then have mv: "mv = MData JNull" "d \<noteq> Missing" using fo False by (auto simp: kept_def)
    then have "d = DefaultNone" using v(2) fo(2) by simp
    moreover have "map_of (filter (kept dc) vs) n = None"
    proof (rule ccontr)
      assume "map_of (filter (kept dc) vs) n \<noteq> None"
      then obtain w where "map_of (filter (kept dc) vs) n = Some w" by auto
      then have "(n, w) \<in> set (filter (kept dc) vs)" by (rule map_of_SomeD)
      then show False using eq_key_imp_eq_value [OF r(5), of n w mv] f(2) nk by auto
    qed
    ultimately show ?thesis using mv False by (simp add: argument_for_def keyword_args_lookup)
  qed
qed

lemma instance_reads_back:
  assumes i: "read_instance dc kw ex vs"
  shows "coerce_members dc (to_fields dc [] vs) = Inr (filter (kept dc) vs, ex)"
    "coerce (HClass dc) (to_dict (MInst dc vs)) = Inr (MInst dc vs)"
proof -
  note r = read_instanceD [OF i]
  have "coerce_members dc ex = Inr ([], ex)"
    using r(2) by (intro coerce_members_extra) (auto simp: collected_ok_def)
  moreover have "\<forall>(k, m) \<in> set (filter (kept dc) vs). \<exists>h d. field_of_class dc k = Some (h, d) \<and> coerce h (to_dict m) = Inr m"
  proof (clarsimp simp: kept_def)
    fix k m assume "(k, m) \<in> set vs" "k \<noteq> EXTRA"
    from value_cases [OF i this] obtain h d where "(k, h, d) \<in> set (class_fields dc)" "coerce h (to_dict m) = Inr m" by metis
    then show "\<exists>h. (\<exists>d. field_of_class dc k = Some (h, d)) \<and> coerce h (to_dict m) = Inr m" using field_facts(1) [OF r(1)] by blast
  qed
  ultimately show m: "coerce_members dc (to_fields dc [] vs) = Inr (filter (kept dc) vs, ex)"
    using coerce_members_append [of "filter (kept dc) vs" dc ex "[]" ex] by (simp add: written [OF i])
  have "mapM_r (argument_for (keyword_args dc (filter (kept dc) vs) ex)) (class_fields dc) = Inr vs"
  proof (rule mapM_r_same [OF r(3)])
    fix f y assume a: "f \<in> set (class_fields dc)" "y \<in> set vs" "argument_for (keyword_args dc kw ex) f = Inr y"
    obtain n h d where f: "f = (n, h, d)" using prod_cases3 by blast
    from a(3) obtain mv where "y = (n, mv)" unfolding f by (rule argument_forD)
    then show "argument_for (keyword_args dc (filter (kept dc) vs) ex) f = Inr y" using argument_unchanged [OF i] a f by simp
  qed
  then show "coerce (HClass dc) (to_dict (MInst dc vs)) = Inr (MInst dc vs)" by (simp add: m instantiate_def)
qed


section \<open>What is read is read back\<close>

lemma coerce_scalar: "coerce HScalar v = Inr (MData v)"
  by (cases v) simp_all

lemma coerce_any: "coerce HAny v = Inr (MData v)"
  by (cases v) simp_all

lemma coerce_union_one: "coerce (HUnion [h]) v = coerce h v"
  by (cases v) simp_all

lemma coerce_union_scalar: "coerce (HUnion (HScalar # g # hs)) v = Inr (MData v)"
  by (cases v) simp_all

lemma collected_field:
  assumes "collected_ok dc kw ex" "field_of_class dc k = Some (h, d)" "coerce h (to_dict m) = Inr m" "k \<noteq> EXTRA"
    "\<And>s. d = DefaultStr s \<Longrightarrow> m \<noteq> MData JNull"
  shows "collected_ok dc ((k, m) # kw) ex"
  using assms unfolding collected_ok_def by (cases d) simp_all

lemma collected_extra:
  assumes "collected_ok dc kw ex" "field_of_class dc k = None" "has_extra dc" "k \<noteq> EXTRA" "v \<noteq> JNull" "k \<notin> set (map fst ex)"
  shows "collected_ok dc kw ((k, v) # ex)"
  using assms unfolding collected_ok_def by simp

lemma field_of_class_facts:
  assumes "wf_class dc" "field_of_class dc k = Some (h, d)"
  shows "wf_hint h" "d = DefaultStr s \<Longrightarrow> h = HScalar"
  using field_facts(2,3) [OF assms(1), of k h d] assms(2) by (auto simp: field_of_class_def dest: map_of_SomeD)

lemma coerced_reads_back:
  "coerce h v = Inr m \<Longrightarrow> wf_hint h \<Longrightarrow> clean h v \<Longrightarrow> coerce h (to_dict m) = Inr m"
  "coerce_items h xs = Inr ms \<Longrightarrow> wf_hint h \<Longrightarrow> clean_items h xs \<Longrightarrow> coerce_items h (to_items ms) = Inr ms"
  "coerce_entries h kvs = Inr vs \<Longrightarrow> wf_hint h \<Longrightarrow> clean_values h kvs \<Longrightarrow> coerce_entries h (to_values vs) = Inr vs"
  "coerce_union hs u = Inr mu \<Longrightarrow> True"
  "coerce_members dc ms' = Inr (kw, ex) \<Longrightarrow> wf_class dc \<Longrightarrow> clean_members dc ms' \<Longrightarrow> distinct (map fst ms') \<Longrightarrow>
     collected_ok dc kw ex \<and> set (map fst ex) \<subseteq> set (map fst ms')"
proof (induction h v and h xs and h kvs and hs u and dc ms' arbitrary: m and ms and vs and mu and kw ex
    rule: coerce_coerce_items_coerce_entries_coerce_union_coerce_members.induct)
  case (4 dc kvs)
  from "4.prems"(1) obtain kw ex vs where r: "coerce_members dc kvs = Inr (kw, ex)"
    "mapM_r (argument_for (keyword_args dc kw ex)) (class_fields dc) = Inr vs" "m = MInst dc vs"
    by (auto simp: instantiate_def bind_r_Inr_iff)
  then have "read_instance dc kw ex vs" using "4.IH" [OF r(1)] "4.prems" by (simp add: read_instance_def built_def)
  then show ?case unfolding r(3) by (rule instance_reads_back)
next
  case (19 dc k v kvs)
  show ?case
  proof (cases "field_of_class dc k")
    case None
    with "19.prems" obtain ex' where r: "has_extra dc" "coerce_members dc kvs = Inr (kw, ex')" "ex = (k, v) # ex'"
      by (auto simp: bind_r_Inr_iff split: if_splits)
    have "collected_ok dc kw ex' \<and> set (map fst ex') \<subseteq> set (map fst kvs)" using "19.IH"(1) None r "19.prems" by simp
    then show ?thesis using collected_extra [of dc kw ex' k v] r None "19.prems" by auto
  next
    case (Some f)
    obtain h d where f: "f = (h, d)" by (rule prod.exhaust)
    with "19.prems" Some obtain m kw' where r: "coerce h v = Inr m" "coerce_members dc kvs = Inr (kw', ex)" "kw = (k, m) # kw'"
      by (auto simp: bind_r_Inr_iff)
    note w = field_of_class_facts [OF "19.prems"(2) Some [unfolded f]]
    have c: "clean h v" "case d of DefaultStr s \<Rightarrow> v \<noteq> JNull | _ \<Rightarrow> True" using "19.prems"(3) Some f by simp_all
    have "collected_ok dc kw' ex \<and> set (map fst ex) \<subseteq> set (map fst kvs)" using "19.IH"(3) Some f r "19.prems" by simp
    moreover have "coerce h (to_dict m) = Inr m" using "19.IH"(2) Some f r w(1) c(1) by simp
    moreover have "m \<noteq> MData JNull" if "d = DefaultStr s" for s using that w(2) c(2) r(1) by (auto simp: coerce_scalar)
    ultimately show ?thesis using collected_field [of dc kw' ex k h d m] Some f r "19.prems" by auto
  qed
qed (auto simp: bind_r_Inr_iff coerce_union_one coerce_union_scalar collected_ok_def coerce_scalar coerce_any split: list.splits if_splits)


section \<open>The checked-in classes\<close>

definition model_classes :: "dataclass list" where
  "model_classes = [output_policy_class, output_policy_set_class, command_result_envelope_class, capture_manifest_class, audit_event_class]"

lemmas model_class_defs = output_policy_metadata_class_def output_policy_capture_class_def output_policy_budget_class_def
  output_policy_projection_class_def output_policy_redaction_class_def output_policy_spec_class_def output_policy_class_def
  output_policy_set_metadata_class_def output_policy_set_defaults_class_def output_policy_set_inline_policy_class_def
  output_policy_set_profile_class_def output_policy_set_spec_class_def output_policy_set_class_def
  command_result_invocation_class_def command_result_command_class_def command_result_capture_source_class_def
  command_result_capture_class_def command_result_projection_class_def command_result_retrieval_class_def
  command_result_envelope_class_def capture_manifest_source_class_def capture_manifest_policy_class_def
  capture_manifest_capture_class_def capture_manifest_stream_class_def capture_manifest_streams_class_def
  capture_manifest_event_index_class_def capture_manifest_projection_class_def capture_manifest_class_def audit_event_class_def

lemma output_policy_wf: "wf_class output_policy_class" by code_simp
lemma output_policy_set_wf: "wf_class output_policy_set_class" by code_simp
lemma command_result_envelope_wf: "wf_class command_result_envelope_class" by code_simp
lemma capture_manifest_wf: "wf_class capture_manifest_class" by code_simp
lemma audit_event_wf: "wf_class audit_event_class" by code_simp

lemma model_classes_wf: "dc \<in> set model_classes \<Longrightarrow> wf_class dc"
  using output_policy_wf output_policy_set_wf command_result_envelope_wf capture_manifest_wf audit_event_wf
  by (auto simp: model_classes_def)

text \<open>
  C23.  For each of the schema models, the instance read from a document without a member named \<open>extra\<close>, an
  unknown member that is None, or a None where the default is a string, is written to a document from
  which the same instance is read, unknown members and nested models included.
\<close>

theorem model_round_trip:
  assumes "dc \<in> set model_classes" "distinct (map fst kvs)" "clean_members dc kvs" "from_dict dc kvs = Inr m"
  shows "\<exists>written. to_dict m = JObj written \<and> from_dict dc written = Inr m"
proof -
  have "coerce (HClass dc) (JObj kvs) = Inr m" using assms(4) by (simp add: from_dict_def)
  moreover from this obtain vs where "m = MInst dc vs" by (auto simp: instantiate_def bind_r_Inr_iff split: prod.splits)
  ultimately show ?thesis using coerced_reads_back(1) [of "HClass dc" "JObj kvs" m] model_classes_wf [OF assms(1)] assms(2,3)
    by (auto simp: from_dict_def)
qed


definition example_policy_document :: jdict where
  "example_policy_document = [
     (lit ''kind'', JStr (lit ''OutputPolicy'')), (lit ''owner'', JStr (lit ''build'')),
     (lit ''metadata'', JObj [(lit ''name'', JStr (lit ''ci''))]),
     (lit ''spec'', JObj [
        (lit ''capture'', JObj [(lit ''required'', JBool True), (lit ''backend'', JStr (lit ''local'')), (lit ''maxBytes'', JInt 9),
           (lit ''onFailure'', JStr (lit ''fail'')), (lit ''onQuotaExceeded'', JStr (lit ''truncate'')), (lit ''rawMode'', JNull)]),
        (lit ''budget'', JObj [(lit ''maxEstimatedTokens'', JInt 5), (lit ''maxBytes'', JInt 7), (lit ''maxLines'', JInt 3),
           (lit ''estimator'', JStr (lit ''bytes-div-4''))]),
        (lit ''projection'', JObj [(lit ''mode'', JStr (lit ''tail'')), (lit ''tailLines'', JInt 4)]),
        (lit ''redaction'', JObj [(lit ''beforeModel'', JBool True), (lit ''beforeLocalRaw'', JBool False), (lit ''beforeReplica'', JBool True)]),
        (lit ''security'', JObj [(lit ''level'', JNull)])])]"

definition result_value :: "mval result \<Rightarrow> mval" where
  "result_value r = (case r of Inr m \<Rightarrow> m | Inl e \<Rightarrow> MData JNull)"

theorem model_round_trip_witness:
  "\<exists>written. to_dict (result_value (from_dict output_policy_class example_policy_document)) = JObj written \<and>
     from_dict output_policy_class written = Inr (result_value (from_dict output_policy_class example_policy_document))"
proof -
  have "distinct (map fst example_policy_document)" "clean_members output_policy_class example_policy_document"
    "from_dict output_policy_class example_policy_document = Inr (result_value (from_dict output_policy_class example_policy_document))"
    by code_simp+
  then show ?thesis by (intro model_round_trip) (simp_all add: model_classes_def)
qed

section \<open>The lost member\<close>

lemma coerce_members_snoc:
  "coerce_members dc (xs @ ys) = bind_r (coerce_members dc xs) (\<lambda>(kw, ex). bind_r (coerce_members dc ys) (\<lambda>(kw', ex'). Inr (kw @ kw', ex @ ex')))"
proof (induction xs)
  case (Cons p xs)
  show ?case by (cases p) (auto simp: Cons.IH bind_r_def split: sum.splits option.splits)
qed (auto simp: bind_r_def split: sum.splits)

lemma coerce_entries_any: "coerce_entries HAny kvs = Inr (map (\<lambda>(k, v). (k, MData v)) kvs)"
  by (induction kvs) (auto simp: coerce_any)

lemma argument_for_cong: "map_of K = map_of K' \<Longrightarrow> argument_for K = argument_for K'"
  by (simp add: argument_for_def fun_eq_iff)

text \<open>
  A member named \<open>extra\<close> of a document is dropped without an error: the instance is the one read without it.
\<close>

theorem extra_member_lost:
  assumes "field_of_class dc EXTRA = Some (HUnion [HDict HAny], DefaultNone)"
  shows "from_dict dc (kvs @ [(EXTRA, JObj members)]) = from_dict dc kvs"
proof -
  have e: "has_extra dc" using assms by (auto simp: has_extra_def field_of_class_def dest!: map_of_SomeD intro: rev_image_eqI)
  then have "map_of (keyword_args dc (kw @ [(EXTRA, w)]) ex) = map_of (keyword_args dc kw ex)" for kw w ex
    by (simp add: keyword_args_lookup fun_eq_iff map_add_def split: option.splits)
  from argument_for_cong [OF this] have "instantiate dc (kw @ [(EXTRA, w)], ex) = instantiate dc (kw, ex)" for kw w ex
    by (simp add: instantiate_def)
  then show ?thesis using assms by (auto simp: from_dict_def coerce_members_snoc coerce_entries_any bind_r_def split: sum.splits)
qed


theorem extra_member_lost_witness:
  "from_dict output_policy_class (example_policy_document @ [(EXTRA, JObj [(lit ''a'', JInt 1)])]) = from_dict output_policy_class example_policy_document"
  by (rule extra_member_lost) code_simp

end
