(* ===== verification/OutputPolicy.thy ===== *)
theory OutputPolicy
  imports Models Serialization
begin

text \<open>
  \<open>policy.py\<close>: resolving a named policy of an OutputPolicySet along its \<open>extends\<close> chain and digesting it.
  A policy set and a resolved policy are instances of the classes of Models; \<open>_chain\<close> is the list of the
  names on the way, and the recursion ends because every step adds a name of the set to it.  Reading the
  YAML file and the JSON schema check of \<open>load_policy_set\<close> are not modelled: they precede every function
  here.  Shown: the look-up law of the deep merge, exactly when resolution reports a cycle or a missing
  policy, and that what an inline policy sets is what the resolved policy has.
\<close>

section \<open>Deep merge\<close>

function deep_merge :: "jdict \<Rightarrow> jdict \<Rightarrow> jdict" where
  "deep_merge result [] = result"
| "deep_merge result ((key, v) # override) =
     deep_merge (AList.update key
       (case v of
          JObj inner \<Rightarrow> (case map_of result key of Some (JObj base) \<Rightarrow> JObj (deep_merge base inner) | _ \<Rightarrow> v)
        | _ \<Rightarrow> v) result) override"
  by pat_completeness auto
termination
  by (relation "measure (\<lambda>(result, override). size_list (size_prod (\<lambda>_. 0) size) override)") auto

text \<open>\<open>_deep_merge(base, override)\<close> on arbitrary values: without a dict on both sides the loop raises.\<close>

definition merge_section :: "json \<Rightarrow> json \<Rightarrow> json result" where
  "merge_section base override =
     (case override of
        JObj members \<Rightarrow>
          (case base of
             JObj b \<Rightarrow> Inr (JObj (deep_merge b members))
           | _ \<Rightarrow> (case members of
               [] \<Rightarrow> Inr base
             | (k, JObj inner) # r \<Rightarrow> Inl (AttributeError ''get'')
             | _ \<Rightarrow> Inl (TypeError ''object does not support item assignment'')))
      | _ \<Rightarrow> Inl (AttributeError ''items''))"

section \<open>Resolution\<close>

definition POLICY_SECTIONS :: "pystr list" where
  "POLICY_SECTIONS = [lit ''capture'', lit ''budget'', lit ''projection'', lit ''redaction'', lit ''security'', lit ''retention'', lit ''replica'']"

text \<open>
  \<open>inline.extends\<close> as the name of the base, None where it is falsy.  The hint is not enforced on a scalar:
  a number that is not zero is looked up and not found, a list or dict cannot be a member of the chain.
\<close>

definition extends_of :: "mval \<Rightarrow> pystr option result" where
  "extends_of inline = bind_r (attribute inline (lit ''extends'')) (\<lambda>v. case v of
     MData (JStr s) \<Rightarrow> Inr (if s = [] then None else Some s)
   | MData JNull \<Rightarrow> Inr None
   | MData (JBool b) \<Rightarrow> if b then Inl (PolicyNotFoundError (lit ''True'')) else Inr None
   | MData (JInt i) \<Rightarrow> if i = 0 then Inr None else Inl (PolicyNotFoundError (print_int i))
   | MData (JFloat t) \<Rightarrow> if t \<in> {lit ''0.0'', lit ''-0.0''} then Inr None else Inl (PolicyNotFoundError t)
   | MData (JArr xs) \<Rightarrow> if xs = [] then Inr None else Inl (TypeError ''unhashable type'')
   | MData (JObj kvs) \<Rightarrow> if kvs = [] then Inr None else Inl (TypeError ''unhashable type'')
   | _ \<Rightarrow> Inl (TypeError ''unhashable type''))"

definition section_base :: "jdict \<Rightarrow> pystr \<Rightarrow> json" where
  "section_base spec s = (case map_of spec s of None \<Rightarrow> JObj [] | Some b \<Rightarrow> b)"

fun apply_sections :: "pystr list \<Rightarrow> jdict \<Rightarrow> jdict \<Rightarrow> jdict result" where
  "apply_sections [] inline_dict spec = Inr spec"
| "apply_sections (s # ss) inline_dict spec =
     (case map_of inline_dict s of
        None \<Rightarrow> apply_sections ss inline_dict spec
      | Some v \<Rightarrow> bind_r (merge_section (section_base spec s) v)
                   (\<lambda>r. apply_sections ss inline_dict (AList.update s r spec)))"

definition written_members :: "mval \<Rightarrow> jdict" where
  "written_members m = (case to_dict m of JObj kvs \<Rightarrow> kvs | _ \<Rightarrow> [])"

definition spec_of :: "mval \<Rightarrow> jdict" where
  "spec_of policy = (case map_of (written_members policy) (lit ''spec'') of Some (JObj s) \<Rightarrow> s | _ \<Rightarrow> [])"

definition resolved_data :: "pystr \<Rightarrow> jdict \<Rightarrow> jdict" where
  "resolved_data name spec = [
     (lit ''apiVersion'', JStr (lit ''vuoro.outctl/v1alpha1'')), (lit ''kind'', JStr (lit ''OutputPolicy'')),
     (lit ''metadata'', JObj [(lit ''name'', JStr name)]), (lit ''spec'', JObj spec)]"

definition build_policy :: "pystr \<Rightarrow> mval \<Rightarrow> jdict \<Rightarrow> mval result" where
  "build_policy name inline base_spec =
     bind_r (apply_sections POLICY_SECTIONS (written_members inline) base_spec) (\<lambda>spec.
       from_dict output_policy_class (resolved_data name spec))"

definition cycle_text :: "pystr list \<Rightarrow> pystr \<Rightarrow> pystr" where
  "cycle_text chain name = concat (map (\<lambda>n. n @ lit '' -> '') (sort (remdups chain))) @ name"

function resolve_inline :: "(pystr \<times> mval) list \<Rightarrow> pystr \<Rightarrow> pystr list \<Rightarrow> mval result" where
  "resolve_inline policies name chain =
     (if name \<in> set chain then Inl (PolicyCycleError (cycle_text chain name))
      else case map_of policies name of
        None \<Rightarrow> Inl (PolicyNotFoundError name)
      | Some inline \<Rightarrow>
          (case extends_of inline of
             Inl e \<Rightarrow> Inl e
           | Inr None \<Rightarrow> build_policy name inline []
           | Inr (Some base) \<Rightarrow>
               bind_r (resolve_inline policies base (name # chain)) (\<lambda>base_policy. build_policy name inline (spec_of base_policy))))"
  by pat_completeness auto
termination
proof (relation "measure (\<lambda>(policies, name, chain). card (set (map fst policies) - set chain))", goal_cases)
  case (2 policies name chain inline e base)
  then have "name \<in> set (map fst policies) - set chain" by (force dest: map_of_SomeD)
  moreover have "set (map fst policies) - set (name # chain) = set (map fst policies) - set chain - {name}" by auto
  ultimately have "card (set (map fst policies) - set (name # chain)) < card (set (map fst policies) - set chain)"
    by (metis List.finite_set card_Diff1_less finite_Diff)
  then show ?case by (simp only: in_measure split)
qed simp

declare resolve_inline.simps [simp del]

definition inline_policies :: "mval \<Rightarrow> (pystr \<times> mval) list result" where
  "inline_policies policy_set =
     bind_r (attribute policy_set (lit ''spec'')) (\<lambda>spec. bind_r (attribute spec (lit ''policies'')) (\<lambda>policies.
       case policies of
         MDict inline_policies \<Rightarrow> Inr inline_policies
       | _ \<Rightarrow> Inl (TypeError ''argument is not iterable'')))"

definition resolve_policy :: "mval \<Rightarrow> pystr \<Rightarrow> mval result" where
  "resolve_policy policy_set name = bind_r (inline_policies policy_set) (\<lambda>policies. resolve_inline policies name [])"

definition policy_digest :: "mval \<Rightarrow> pystr result" where
  "policy_digest policy = bind_r (canonical_sha256 (to_dict policy)) (\<lambda>d. Inr (lit (''sha256:'' @ d)))"

definition resolve_and_digest :: "mval \<Rightarrow> pystr \<Rightarrow> (mval \<times> pystr) result" where
  "resolve_and_digest policy_set name =
     bind_r (resolve_policy policy_set name) (\<lambda>resolved. bind_r (policy_digest resolved) (\<lambda>d. Inr (resolved, d)))"

section \<open>The merge\<close>

text \<open>What a key of an override does to the value the base has under it.\<close>

definition overridden :: "json option \<Rightarrow> json \<Rightarrow> json" where
  "overridden old v = (case v of JObj inner \<Rightarrow> (case old of Some (JObj base) \<Rightarrow> JObj (deep_merge base inner) | _ \<Rightarrow> v) | _ \<Rightarrow> v)"

lemma deep_merge_step: "deep_merge result ((key, v) # override) = deep_merge (AList.update key (overridden (map_of result key) v) result) override"
  by (simp add: overridden_def)

lemma deep_merge_get:
  "distinct (map fst override) \<Longrightarrow>
     map_of (deep_merge base override) k = (case map_of override k of None \<Rightarrow> map_of base k | Some v \<Rightarrow> Some (overridden (map_of base k) v))"
proof (induction override arbitrary: base)
  case (Cons p override)
  obtain k' v where p: "p = (k', v)" by (rule prod.exhaust)
  have "map_of override k = None" if "k = k'" using Cons.prems that by (auto simp: p map_of_eq_None_iff)
  then show ?case using Cons.prems by (auto simp: p Cons.IH deep_merge_step update_conv' simp del: deep_merge.simps(2) split: option.splits)
qed simp

lemma deep_merge_distinct: "distinct (map fst base) \<Longrightarrow> distinct (map fst (deep_merge base override))"
  by (induction override arbitrary: base) (auto simp: deep_merge_step distinct_update simp del: deep_merge.simps(2))


fun distinct_keys :: "json \<Rightarrow> bool" and distinct_keys_in :: "jdict \<Rightarrow> bool" where
  "distinct_keys (JObj kvs) \<longleftrightarrow> distinct (map fst kvs) \<and> distinct_keys_in kvs"
| "distinct_keys v \<longleftrightarrow> True"
| "distinct_keys_in [] \<longleftrightarrow> True"
| "distinct_keys_in ((k, v) # kvs) \<longleftrightarrow> distinct_keys v \<and> distinct_keys_in kvs"

lemma distinct_keys_inD: "distinct_keys_in kvs \<Longrightarrow> map_of kvs k = Some v \<Longrightarrow> distinct_keys v"
  by (induction kvs) (auto split: if_splits)

fun is_dict :: "json \<Rightarrow> bool" where
  "is_dict (JObj kvs) \<longleftrightarrow> True"
| "is_dict v \<longleftrightarrow> False"

fun at_path :: "json \<Rightarrow> pystr list \<Rightarrow> json option" where
  "at_path v [] = Some v"
| "at_path (JObj kvs) (k # p) = (case map_of kvs k of None \<Rightarrow> None | Some v \<Rightarrow> at_path v p)"
| "at_path v (k # p) = None"

text \<open>A document is silent on a path that leads out of it through dicts only.\<close>

fun silent_on :: "json \<Rightarrow> pystr list \<Rightarrow> bool" where
  "silent_on v [] \<longleftrightarrow> False"
| "silent_on (JObj kvs) (k # p) \<longleftrightarrow> (case map_of kvs k of None \<Rightarrow> True | Some v \<Rightarrow> silent_on v p)"
| "silent_on v (k # p) \<longleftrightarrow> False"

lemma silent_leaves_nothing: "silent_on v p \<Longrightarrow> at_path v p = None"
  by (induction v p rule: silent_on.induct) (auto split: option.splits)

lemma leaf_has_no_path: "p \<noteq> [] \<Longrightarrow> \<not> is_dict v \<Longrightarrow> at_path v p = None"
  by (cases v; cases p) auto

lemma merged_at_path:
  assumes "distinct_keys (JObj override)"
  shows "at_path (JObj override) p = Some v \<Longrightarrow> \<not> is_dict v \<Longrightarrow> at_path (JObj (deep_merge base override)) p = Some v"
    and "silent_on (JObj override) p \<Longrightarrow> at_path (JObj (deep_merge base override)) p = at_path (JObj base) p"
  using assms
proof (induction p arbitrary: base override)
  case (Cons k p)
  {
    case 1
    then obtain w where w: "map_of override k = Some w" "at_path w p = Some v" "distinct_keys w"
      by (auto dest: distinct_keys_inD simp del: map_of_eq_Some_iff split: option.splits)
    then show ?case using 1 Cons.IH(1) [of _ base]
      by (cases w) (auto simp: deep_merge_get overridden_def simp del: map_of_eq_Some_iff intro: Cons.IH(1) split: option.splits json.splits)
  next
    case 2
    show ?case
    proof (cases "map_of override k")
      case (Some w)
      then obtain inner where i: "w = JObj inner" "silent_on w p" "distinct_keys w" "p \<noteq> []"
        using 2 by (cases w; cases p) (auto dest: distinct_keys_inD simp del: map_of_eq_Some_iff split: option.splits)
      then show ?thesis using 2 Some silent_leaves_nothing [OF i(2)]
        by (auto simp: leaf_has_no_path deep_merge_get overridden_def simp del: map_of_eq_Some_iff intro: Cons.IH(2) split: option.splits json.splits)
    qed (use 2 in \<open>simp add: deep_merge_get\<close>)
  }
qed auto

section \<open>The extends relation\<close>

definition extends_to :: "(pystr \<times> mval) list \<Rightarrow> pystr \<Rightarrow> pystr \<Rightarrow> bool" where
  "extends_to policies a b \<longleftrightarrow> (\<exists>inline. map_of policies a = Some inline \<and> extends_of inline = Inr (Some b))"

lemma single_base: "extends_to policies a b \<Longrightarrow> extends_to policies a c \<Longrightarrow> b = c"
  by (auto simp: extends_to_def)

text \<open>A name from which the chain never ends.\<close>

definition looping :: "(pystr \<times> mval) list \<Rightarrow> pystr \<Rightarrow> bool" where
  "looping policies name \<longleftrightarrow> (\<exists>b. (extends_to policies)\<^sup>*\<^sup>* name b \<and> (extends_to policies)\<^sup>+\<^sup>+ b b)"

lemma looping_step:
  assumes "looping policies a"
  obtains b where "extends_to policies a b" "looping policies b"
proof -
  obtain c where c: "(extends_to policies)\<^sup>*\<^sup>* a c" "(extends_to policies)\<^sup>+\<^sup>+ c c" using assms unfolding looping_def by blast
  from c(1) show ?thesis
  proof (cases rule: converse_rtranclpE)
    case base
    with c(2) obtain d where "extends_to policies a d" "(extends_to policies)\<^sup>*\<^sup>* d c" by (auto dest: tranclpD)
    then show ?thesis using that c(2) unfolding looping_def by blast
  next
    case (step d)
    then show ?thesis using that c(2) unfolding looping_def by blast
  qed
qed

definition data_error :: "exn \<Rightarrow> bool" where
  "data_error e \<longleftrightarrow> (\<exists>s. e = TypeError s) \<or> (\<exists>s. e = ValueError s) \<or> (\<exists>s. e = AttributeError s)"

lemma argument_for_raises: "raises_only data_error (argument_for K f)"
  by (auto simp: argument_for_def data_error_def split: prod.splits option.splits default_value.splits)

lemma instantiate_raises: "raises_only data_error (instantiate dc c)"
  unfolding instantiate_def by (auto split: prod.splits intro!: raises_only_bind raises_only_mapM argument_for_raises)

lemma coerce_raises:
  "raises_only data_error (coerce h v)" "raises_only data_error (coerce_items h xs)" "raises_only data_error (coerce_entries h kvs)"
  "raises_only data_error (coerce_union hs v)" "raises_only data_error (coerce_members dc kvs)"
proof (induction h v and h xs and h kvs and hs v and dc kvs rule: coerce_coerce_items_coerce_entries_coerce_union_coerce_members.induct)
  case (19 dc k v kvs)
  show ?case
  proof (cases "field_of_class dc k")
    case (Some f)
    obtain h d where f: "f = (h, d)" by (rule prod.exhaust)
    show ?thesis using "19.IH"(2,3) [OF Some f [symmetric]] Some f by (auto intro!: raises_only_bind)
  qed (use "19.IH"(1) in \<open>auto simp: data_error_def intro!: raises_only_bind\<close>)
qed (auto simp: data_error_def instantiate_raises [unfolded data_error_def] raises_only_def bind_r_def
      split: sum.splits option.splits exn.splits dest!: raises_onlyD [OF instantiate_raises])

lemma merge_section_raises: "raises_only data_error (merge_section a b)"
  by (auto simp: merge_section_def data_error_def split: json.splits list.splits)

lemma apply_sections_raises: "raises_only data_error (apply_sections ss d spec)"
  by (induction ss arbitrary: spec) (auto intro!: raises_only_bind merge_section_raises split: option.splits)

lemma build_policy_raises: "raises_only data_error (build_policy name inline spec)"
  unfolding build_policy_def from_dict_def
  by (intro raises_only_bind apply_sections_raises coerce_raises instantiate_raises)


section \<open>When resolution fails\<close>

lemma extends_of_raises: "extends_of inline = Inl e \<Longrightarrow> data_error e \<or> (\<exists>n. e = PolicyNotFoundError n)"
  by (auto simp: extends_of_def attribute_def data_error_def bind_r_def split: sum.splits mval.splits json.splits option.splits if_splits)

lemma no_policy_error [simp]: "\<not> data_error (PolicyCycleError t)" "\<not> data_error (PolicyNotFoundError n)"
  by (simp_all add: data_error_def)

text \<open>The recursion, with what surrounds it abstracted to the errors it can raise.\<close>

lemma resolve_cycle_sound:
  "resolve_inline policies name chain = Inl (PolicyCycleError t) \<Longrightarrow>
     \<exists>b. (extends_to policies)\<^sup>*\<^sup>* name b \<and> (b \<in> set chain \<or> (extends_to policies)\<^sup>+\<^sup>+ b b)"
proof (induction policies name chain rule: resolve_inline.induct)
  case (1 policies name chain)
  show ?case
  proof (cases "name \<in> set chain")
    case False
    then obtain inline base where r: "map_of policies name = Some inline" "extends_of inline = Inr (Some base)"
      "resolve_inline policies base (name # chain) = Inl (PolicyCycleError t)"
      using "1.prems" extends_of_raises raises_onlyD [OF build_policy_raises]
      by (fastforce simp: resolve_inline.simps [of policies name chain] bind_r_Inl_iff split: option.splits sum.splits)
    then obtain b where b: "(extends_to policies)\<^sup>*\<^sup>* base b" "b \<in> set (name # chain) \<or> (extends_to policies)\<^sup>+\<^sup>+ b b"
      using "1.IH" False by blast
    have e: "extends_to policies name base" using r by (simp add: extends_to_def)
    show ?thesis
    proof (cases "b = name")
      case True
      then show ?thesis using e b(1) by (metis rtranclp.rtrancl_refl rtranclp_into_tranclp2)
    next
      case False
      then show ?thesis using e b by (auto intro: converse_rtranclp_into_rtranclp)
    qed
  qed blast
qed

lemma resolve_cycle_complete:
  "looping policies name \<Longrightarrow> \<exists>t. resolve_inline policies name chain = Inl (PolicyCycleError t)"
proof (induction policies name chain rule: resolve_inline.induct)
  case (1 policies name chain)
  obtain base where b: "extends_to policies name base" "looping policies base" using "1.prems" by (rule looping_step)
  then obtain inline where i: "map_of policies name = Some inline" "extends_of inline = Inr (Some base)" by (auto simp: extends_to_def)
  show ?case
  proof (cases "name \<in> set chain")
    case False
    then obtain t where "resolve_inline policies base (name # chain) = Inl (PolicyCycleError t)" using "1.IH" i b(2) by blast
    then show ?thesis using False i by (simp add: resolve_inline.simps [of policies name chain])
  qed (simp add: resolve_inline.simps [of policies name chain])
qed


text \<open>A name the chain ends at: one that is missing, or a policy that names no base.\<close>

definition dangling :: "(pystr \<times> mval) list \<Rightarrow> pystr \<Rightarrow> bool" where
  "dangling policies b \<longleftrightarrow> (case map_of policies b of None \<Rightarrow> True | Some inline \<Rightarrow> (\<exists>n. extends_of inline = Inl (PolicyNotFoundError n)))"

definition grounded :: "(pystr \<times> mval) list \<Rightarrow> pystr \<Rightarrow> bool" where
  "grounded policies b \<longleftrightarrow> (\<exists>inline. map_of policies b = Some inline \<and>
     (extends_of inline = Inr None \<or> (\<exists>e. extends_of inline = Inl e \<and> data_error e)))"

lemma ends_have_no_base: "dangling policies b \<or> grounded policies b \<Longrightarrow> \<not> extends_to policies b c"
  by (auto simp: dangling_def grounded_def extends_to_def split: option.splits)

lemma unique_end:
  assumes "(extends_to policies)\<^sup>*\<^sup>* a b" "(extends_to policies)\<^sup>*\<^sup>* a c" "\<And>d. \<not> extends_to policies b d" "\<And>d. \<not> extends_to policies c d"
  shows "b = c"
  using assms(1,2)
proof (induction rule: converse_rtranclp_induct)
  case base
  then show ?case using assms(3) by (auto elim: converse_rtranclpE)
next
  case (step a a')
  from step.prems show ?case
  proof (cases rule: converse_rtranclpE)
    case base
    then show ?thesis using step.hyps(1) assms(4) by blast
  next
    case (step a'')
    then show ?thesis using step.IH single_base [OF step(1)] \<open>extends_to policies a a'\<close> by metis
  qed
qed

lemma resolve_ends:
  "resolve_inline policies name chain = r \<Longrightarrow> (\<And>t. r \<noteq> Inl (PolicyCycleError t)) \<Longrightarrow>
     \<exists>b. (extends_to policies)\<^sup>*\<^sup>* name b \<and>
       (if \<exists>n. r = Inl (PolicyNotFoundError n) then dangling policies b else grounded policies b \<and> raises_only data_error r)"
proof (induction policies name chain arbitrary: r rule: resolve_inline.induct)
  case (1 policies name chain)
  have nc: "name \<notin> set chain"
    using "1.prems"(1) "1.prems"(2) [of "cycle_text chain name"] by (auto simp: resolve_inline.simps [of policies name chain])
  note unfolded = resolve_inline.simps [of policies name chain]
  consider "map_of policies name = None" | inline e where "map_of policies name = Some inline" "extends_of inline = Inl e"
    | inline where "map_of policies name = Some inline" "extends_of inline = Inr None"
    | inline base where "map_of policies name = Some inline" "extends_of inline = Inr (Some base)"
    by (metis not_Some_eq sum.exhaust)
  then show ?case
  proof cases
    case 4
    let ?r = "resolve_inline policies base (name # chain)"
    have r: "r = bind_r ?r (\<lambda>p. build_policy name inline (spec_of p))" using "1.prems"(1) 4 nc by (simp add: unfolded)
    then obtain b where b: "(extends_to policies)\<^sup>*\<^sup>* base b"
      "if \<exists>n. ?r = Inl (PolicyNotFoundError n) then dangling policies b else grounded policies b \<and> raises_only data_error ?r"
      using "1.IH" [OF nc 4(1,2) refl refl] "1.prems"(2) by (metis bind_r_simps(1))
    have "(extends_to policies)\<^sup>*\<^sup>* name b" using 4 b(1) by (auto simp: extends_to_def intro: converse_rtranclp_into_rtranclp)
    moreover have nf: "build_policy name inline s \<noteq> Inl (PolicyNotFoundError n)" for s n
      using raises_onlyD [OF build_policy_raises] no_policy_error(2) by blast
    then have "(\<exists>n. r = Inl (PolicyNotFoundError n)) \<longleftrightarrow> (\<exists>n. ?r = Inl (PolicyNotFoundError n))" by (cases ?r) (auto simp: r)
    moreover have "raises_only data_error ?r \<Longrightarrow> raises_only data_error r" unfolding r by (intro raises_only_bind build_policy_raises)
    ultimately show ?thesis using b(2) by (metis (full_types))
  qed (use "1.prems" nc extends_of_raises raises_onlyD [OF build_policy_raises] in
        \<open>fastforce simp: unfolded dangling_def grounded_def raises_only_def split: option.splits sum.splits\<close>)+
qed


text \<open>
  C24.  Resolution always ends, with a cycle error exactly when the \<open>extends\<close> chain of the name never ends,
  with a not-found error exactly when it leads to a name the set does not have, and otherwise with a
  policy or a plain TypeError, ValueError or AttributeError.
\<close>

theorem resolve_policy_exact:
  assumes "inline_policies policy_set = Inr policies"
  shows "((\<exists>t. resolve_policy policy_set name = Inl (PolicyCycleError t)) \<longleftrightarrow> looping policies name) \<and>
    ((\<exists>n. resolve_policy policy_set name = Inl (PolicyNotFoundError n)) \<longleftrightarrow>
       (\<exists>b. (extends_to policies)\<^sup>*\<^sup>* name b \<and> dangling policies b)) \<and>
    (case resolve_policy policy_set name of
       Inr policy \<Rightarrow> True
     | Inl e \<Rightarrow> (\<exists>t. e = PolicyCycleError t) \<or> (\<exists>n. e = PolicyNotFoundError n) \<or> data_error e)"
proof -
  let ?r = "resolve_inline policies name []"
  have r: "resolve_policy policy_set name = ?r" using assms by (simp add: resolve_policy_def)
  have cyc: "(\<exists>t. ?r = Inl (PolicyCycleError t)) \<longleftrightarrow> looping policies name"
    using resolve_cycle_sound [of policies name "[]"] resolve_cycle_complete [of policies name "[]"] by (auto simp: looping_def)
  have no_loop: False if "(extends_to policies)\<^sup>*\<^sup>* name b" "dangling policies b" "looping policies name" for b
    using that(1,3)
  proof (induction rule: converse_rtranclp_induct)
    case base
    then show ?case using that(2) ends_have_no_base by (blast elim: looping_step)
  next
    case (step y z)
    from step.prems obtain z' where "extends_to policies y z'" "looping policies z'" by (rule looping_step)
    then show ?case using step single_base by metis
  qed
  note ends = resolve_ends [of policies name "[]", OF refl]
  have "(\<exists>n. ?r = Inl (PolicyNotFoundError n)) \<longleftrightarrow> (\<exists>b. (extends_to policies)\<^sup>*\<^sup>* name b \<and> dangling policies b)"
  proof
    assume "\<exists>b. (extends_to policies)\<^sup>*\<^sup>* name b \<and> dangling policies b"
    then obtain b where b: "(extends_to policies)\<^sup>*\<^sup>* name b" "dangling policies b" by blast
    then have "?r \<noteq> Inl (PolicyCycleError t)" for t using no_loop cyc by blast
    from ends [OF this] obtain c where c: "(extends_to policies)\<^sup>*\<^sup>* name c"
      "if \<exists>n. ?r = Inl (PolicyNotFoundError n) then dangling policies c else grounded policies c \<and> raises_only data_error ?r" by blast
    have "b = c" using b c ends_have_no_base by (intro unique_end [OF b(1) c(1)]) (auto split: if_splits)
    then show "\<exists>n. ?r = Inl (PolicyNotFoundError n)" using b(2) c(2)
      by (auto simp: dangling_def grounded_def split: if_splits)
  qed (use ends in fastforce)
  moreover have "case ?r of Inr policy \<Rightarrow> True | Inl e \<Rightarrow> (\<exists>t. e = PolicyCycleError t) \<or> (\<exists>n. e = PolicyNotFoundError n) \<or> data_error e"
    using ends by (fastforce simp: raises_only_def split: sum.splits)
  ultimately show ?thesis unfolding r using cyc by blast
qed


section \<open>Documents keep distinct keys\<close>

lemma distinct_keys_in_iff: "distinct_keys_in kvs \<longleftrightarrow> (\<forall>(k, v) \<in> set kvs. distinct_keys v)"
  by (induction kvs) auto

definition dict_ok :: "jdict \<Rightarrow> bool" where
  "dict_ok kvs \<longleftrightarrow> distinct_keys (JObj kvs)"

lemma set_update_subset: "set (AList.update k v al) \<subseteq> insert (k, v) (set al)"
  by (induction al) auto

lemma dict_ok_update: "dict_ok al \<Longrightarrow> distinct_keys v \<Longrightarrow> dict_ok (AList.update k v al)"
  using set_update_subset [of k v al] by (fastforce simp: dict_ok_def distinct_keys_in_iff distinct_update)

lemma dict_ok_updates:
  "dict_ok al \<Longrightarrow> \<forall>(k, v) \<in> set kvs. distinct_keys v \<Longrightarrow> dict_ok (foldl (\<lambda>r (k, v). AList.update k v r) al kvs)"
  by (induction kvs arbitrary: al) (auto simp: dict_ok_update)

lemma dict_ok_nil [simp]: "dict_ok []"
  by (simp add: dict_ok_def)

lemma to_fields_ok:
  "dict_ok r \<Longrightarrow> \<forall>(n, m) \<in> set vs. distinct_keys (to_dict m) \<Longrightarrow> dict_ok (to_fields dc r vs)"
proof (induction vs arbitrary: r)
  case (Cons f vs)
  obtain n m where f: "f = (n, m)" by (rule prod.exhaust)
  have "dict_ok (foldl (\<lambda>r (k, v). AList.update k v r) r (without_none kvs))" if "m = MData (JObj kvs)" for kvs
    using Cons.prems that by (intro dict_ok_updates) (auto simp: f distinct_keys_in_iff without_none_def)
  moreover have "dict_ok (AList.update n (to_dict m) r)" using Cons.prems by (intro dict_ok_update) (auto simp: f)
  ultimately show ?case using Cons.prems by (auto simp: f Cons.IH split: mval.splits json.splits)
qed simp

lemma deep_merge_ok: "dict_ok base \<Longrightarrow> dict_ok override \<Longrightarrow> dict_ok (deep_merge base override)"
proof (induction base override rule: deep_merge.induct)
  case (2 base key v override)
  have v: "distinct_keys v" "dict_ok override" using "2.prems"(2) by (auto simp: dict_ok_def)
  have b: "dict_ok b" if "map_of base key = Some (JObj b)" for b
    using "2.prems"(1) that by (auto simp: dict_ok_def simp del: map_of_eq_Some_iff dest: distinct_keys_inD)
  have "distinct_keys (overridden (map_of base key) v)"
  proof (cases "\<exists>inner b. v = JObj inner \<and> map_of base key = Some (JObj b)")
    case True
    then obtain inner b where i: "v = JObj inner" "map_of base key = Some (JObj b)" by blast
    then have "dict_ok (deep_merge b inner)" using "2.IH"(1) [OF i] b v(1) by (simp add: dict_ok_def)
    then show ?thesis by (simp add: i overridden_def dict_ok_def)
  next
    case False
    then have "overridden (map_of base key) v = v" by (auto simp: overridden_def split: json.splits option.splits)
    then show ?thesis using v(1) by simp
  qed
  then show ?case using "2.IH"(2) "2.prems"(1) v(2) by (simp add: dict_ok_update overridden_def)
qed simp

lemma argument_ok:
  assumes "argument_for K f = Inr (n, m)" "\<forall>(k, m) \<in> set K. distinct_keys (to_dict m)"
  shows "distinct_keys (to_dict m)"
  using assms by (force simp: argument_for_def dest!: map_of_SomeD split: prod.splits option.splits default_value.splits)

lemma instantiate_ok:
  assumes "instantiate dc (kw, ex) = Inr m" "\<forall>(k, m) \<in> set kw. distinct_keys (to_dict m)" "dict_ok ex"
  shows "distinct_keys (to_dict m)"
proof -
  let ?K = "keyword_args dc kw ex"
  obtain vs where vs: "m = MInst dc vs" "mapM_r (argument_for ?K) (class_fields dc) = Inr vs"
    using assms(1) by (auto simp: instantiate_def bind_r_Inr_iff)
  have "\<forall>(k, m) \<in> set ?K. distinct_keys (to_dict m)"
    using assms(2,3) set_update_subset [of EXTRA _ kw] by (fastforce simp: keyword_args_def dict_ok_def split: if_splits)
  then have "\<forall>(n, m) \<in> set vs. distinct_keys (to_dict m)" using arguments_aligned(2) [OF vs(2)] argument_ok by blast
  then show ?thesis using to_fields_ok [of "[]" vs dc] by (simp add: vs(1) dict_ok_def)
qed

lemma coerced_ok:
  "coerce h v = Inr m \<Longrightarrow> distinct_keys v \<Longrightarrow> distinct_keys (to_dict m)"
  "coerce_items h xs = Inr ms \<Longrightarrow> True"
  "coerce_entries h kvs = Inr vs \<Longrightarrow> dict_ok kvs \<Longrightarrow> dict_ok (to_values vs) \<and> map fst (to_values vs) = map fst kvs"
  "coerce_union hs u = Inr mu \<Longrightarrow> distinct_keys u \<Longrightarrow> distinct_keys (to_dict mu)"
  "coerce_members dc ms' = Inr (kw, ex) \<Longrightarrow> dict_ok ms' \<Longrightarrow>
     (\<forall>(k, m) \<in> set kw. distinct_keys (to_dict m)) \<and> dict_ok ex \<and> set ex \<subseteq> set ms'"
proof (induction h v and h xs and h kvs and hs u and dc ms' arbitrary: m and ms and vs and mu and kw ex
    rule: coerce_coerce_items_coerce_entries_coerce_union_coerce_members.induct)
  case (4 dc kvs)
  from "4.prems"(1) obtain kw ex where c: "coerce_members dc kvs = Inr (kw, ex)" "instantiate dc (kw, ex) = Inr m"
    by (auto simp: bind_r_Inr_iff)
  have "dict_ok kvs" using "4.prems"(2) by (simp add: dict_ok_def)
  then show ?case using "4.IH" [OF c(1)] instantiate_ok [OF c(2)] by blast
next
  case (19 dc k v kvs)
  have p: "distinct_keys v" "dict_ok kvs" "k \<notin> fst ` set kvs" using "19.prems"(2) by (auto simp: dict_ok_def)
  show ?case
  proof (cases "field_of_class dc k")
    case None
    with "19.prems" obtain ex' where r: "has_extra dc" "coerce_members dc kvs = Inr (kw, ex')" "ex = (k, v) # ex'"
      by (auto simp: bind_r_Inr_iff split: if_splits)
    have ih: "(\<forall>(k, m) \<in> set kw. distinct_keys (to_dict m)) \<and> dict_ok ex' \<and> set ex' \<subseteq> set kvs" using "19.IH"(1) None r p by simp
    then have "k \<notin> fst ` set ex'" using p(3) by blast
    then show ?thesis using ih r(3) p(1) by (auto simp: dict_ok_def)
  next
    case (Some f)
    obtain h d where f: "f = (h, d)" by (rule prod.exhaust)
    with "19.prems" Some obtain m kw' where r: "coerce h v = Inr m" "coerce_members dc kvs = Inr (kw', ex)" "kw = (k, m) # kw'"
      by (auto simp: bind_r_Inr_iff)
    then show ?thesis using "19.IH"(2,3) [OF Some f [symmetric]] p by (auto simp: r)
  qed
qed (auto simp: bind_r_Inr_iff dict_ok_def split: sum.splits exn.splits)


section \<open>Members survive reading and writing\<close>

lemma updates_distinct:
  "distinct (map fst kvs) \<Longrightarrow> map_of (foldl (\<lambda>r (k, v). AList.update k v r) r kvs) k = (case map_of kvs k of None \<Rightarrow> map_of r k | Some v \<Rightarrow> Some v)"
proof (induction kvs arbitrary: r)
  case (Cons p kvs)
  obtain k' v where p: "p = (k', v)" by (rule prod.exhaust)
  have "map_of kvs k = None" if "k = k'" using Cons.prems that by (auto simp: p map_of_eq_None_iff)
  then show ?case using Cons by (auto simp: p update_conv' split: option.splits)
qed simp

lemma without_none_lookup: "distinct (map fst kvs) \<Longrightarrow> map_of (without_none kvs) k = (case map_of kvs k of Some v \<Rightarrow> if v = JNull then None else Some v | None \<Rightarrow> None)"
proof (induction kvs)
  case (Cons p kvs)
  obtain k' v where p: "p = (k', v)" by (rule prod.exhaust)
  have "map_of kvs k = None" if "k = k'" using Cons.prems that by (auto simp: p map_of_eq_None_iff)
  then show ?case using Cons by (auto simp: p without_none_def split: option.splits)
qed (simp add: without_none_def)

lemma kept_lookup:
  "distinct (map fst vs) \<Longrightarrow> map_of (map (\<lambda>(n, m). (n, to_dict m)) (filter (kept dc) vs)) k =
     (case map_of vs k of Some m \<Rightarrow> if kept dc (k, m) then Some (to_dict m) else None | None \<Rightarrow> None)"
proof (induction vs)
  case (Cons f vs)
  obtain n m where f: "f = (n, m)" by (rule prod.exhaust)
  have "map_of vs k = None" if "k = n" using Cons.prems that by (auto simp: f map_of_eq_None_iff)
  then show ?case using Cons by (auto simp: f split: option.splits)
qed simp

lemma coerce_not_none:
  "coerce h v = Inr m \<Longrightarrow> v \<noteq> JNull \<Longrightarrow> m \<noteq> MData JNull"
  "coerce_items h xs = Inr ms \<Longrightarrow> True"
  "coerce_entries h kvs = Inr vs \<Longrightarrow> True"
  "coerce_union hs u = Inr mu \<Longrightarrow> u \<noteq> JNull \<Longrightarrow> mu \<noteq> MData JNull"
  "coerce_members dc ms' = Inr (kw, ex) \<Longrightarrow> True"
  by (induction h v and h xs and h kvs and hs u and dc ms' arbitrary: m and ms and vs and mu and kw ex
    rule: coerce_coerce_items_coerce_entries_coerce_union_coerce_members.induct)
    (auto simp: bind_r_Inr_iff instantiate_def split: sum.splits exn.splits)

lemma collected_member:
  assumes "coerce_members dc kvs = Inr (kw, ex)" "map_of kvs k = Some v"
  shows "case field_of_class dc k of Some (h, d) \<Rightarrow> \<exists>mv. map_of kw k = Some mv \<and> coerce h v = Inr mv | None \<Rightarrow> map_of ex k = Some v \<and> has_extra dc"
  using assms
proof (induction kvs arbitrary: kw ex)
  case (Cons p kvs)
  obtain k' v' where p: "p = (k', v')" by (rule prod.exhaust)
  show ?case using Cons.prems Cons.IH by (auto simp: p bind_r_Inr_iff split: option.splits if_splits)
qed simp

lemma collected_keys:
  assumes "coerce_members dc kvs = Inr (kw, ex)"
  shows "map_of ex k \<noteq> None \<Longrightarrow> field_of_class dc k = None \<and> has_extra dc" "ex \<noteq> [] \<Longrightarrow> has_extra dc"
  using assms by (induction kvs arbitrary: kw ex) (auto simp: bind_r_Inr_iff split: option.splits if_splits)


text \<open>A member of a document other than \<open>extra\<close> and None is in the document its instance is written to.\<close>

lemma member_survives:
  assumes c: "coerce (HClass dc) (JObj kvs) = Inr m" "wf_class dc" "dict_ok kvs" and k: "map_of kvs k = Some v" "k \<noteq> EXTRA" "v \<noteq> JNull"
  obtains w where "to_dict m = JObj w"
    "case field_of_class dc k of Some (h, d) \<Rightarrow> \<exists>mv. coerce h v = Inr mv \<and> map_of w k = Some (to_dict mv) | None \<Rightarrow> map_of w k = Some v"
proof -
  from c(1) obtain kw ex where ce: "coerce_members dc kvs = Inr (kw, ex)" "instantiate dc (kw, ex) = Inr m" by (auto simp: bind_r_Inr_iff)
  then obtain vs where vs: "m = MInst dc vs" "mapM_r (argument_for (keyword_args dc kw ex)) (class_fields dc) = Inr vs"
    by (auto simp: instantiate_def bind_r_Inr_iff)
  have b: "built dc kw ex vs" using c(2) vs(2) by (simp add: built_def)
  note bd = builtD [OF b]
  have exd: "distinct (map fst ex)" using coerced_ok(5) [OF ce(1) c(3)] by (auto simp: dict_ok_def)
  let ?P = "map (\<lambda>(n, m). (n, to_dict m)) (filter (kept dc) vs)"
  have wl: "map_of (to_fields dc [] vs) k = (case map_of (without_none ex) k of None \<Rightarrow> map_of ?P k | Some v \<Rightarrow> Some v)"
    using exd by (simp add: written_fold [OF b collected_keys(2) [OF ce(1)]] updates_distinct without_none_def distinct_map_filter)
  show ?thesis
  proof (cases "field_of_class dc k")
    case None
    then have "map_of (without_none ex) k = Some v"
      using collected_member [OF ce(1) k(1)] k(3) by (simp add: without_none_lookup [OF exd])
    then show ?thesis using that wl None by (simp add: vs(1))
  next
    case (Some f)
    obtain h d where f: "f = (h, d)" by (rule prod.exhaust)
    from collected_member [OF ce(1) k(1)] obtain mv where mv: "map_of kw k = Some mv" "coerce h v = Inr mv" by (auto simp: Some f)
    have "map_of ex k = None" using collected_keys(1) [OF ce(1)] Some by fastforce
    moreover have "(k, mv) \<in> set vs"
    proof -
      have "k \<in> set (map fst vs)" using Some unfolding bd(3) by (auto simp: field_of_class_def dest: map_of_SomeD intro: rev_image_eqI)
      then obtain mv' where m': "(k, mv') \<in> set vs" by auto
      from arguments_aligned(2) [OF vs(2) m'] have "mv' = mv" using mv(1) k(2) by (auto simp: argument_for_def keyword_args_lookup)
      then show ?thesis using m' by simp
    qed
    moreover have "kept dc (k, mv)" using coerce_not_none(1) [OF mv(2) k(3)] k(2) by (simp add: kept_def)
    ultimately have "map_of (to_fields dc [] vs) k = Some (to_dict mv)"
      using wl bd(4) by (simp add: without_none_lookup [OF exd] kept_lookup)
    then show ?thesis using that mv(2) Some f by (simp add: vs(1))
  qed
qed


section \<open>What a resolved policy says\<close>

lemma apply_sections_other: "apply_sections ss d spec = Inr r \<Longrightarrow> s \<notin> set ss \<Longrightarrow> map_of r s = map_of spec s"
  by (induction ss arbitrary: spec) (auto simp: bind_r_Inr_iff update_conv' split: option.splits)

lemma apply_sections_lookup:
  assumes "apply_sections ss d spec = Inr r" "distinct ss" "s \<in> set ss"
  shows "case map_of d s of None \<Rightarrow> map_of r s = map_of spec s | Some v \<Rightarrow> \<exists>x. merge_section (section_base spec s) v = Inr x \<and> map_of r s = Some x"
  using assms
proof (induction ss arbitrary: spec)
  case (Cons a ss)
  have base: "section_base (AList.update a x spec) s = section_base spec s" if "a \<noteq> s" for x using that by (simp add: section_base_def update_conv')
  show ?case
  proof (cases "a = s")
    case True
    then show ?thesis using Cons.prems apply_sections_other [of ss d _ r s]
      by (auto simp: bind_r_Inr_iff update_conv' simp del: map_of_eq_Some_iff split: option.splits)
  next
    case False
    show ?thesis
    proof (cases "map_of d a")
      case None
      then show ?thesis using False Cons by simp
    next
      case (Some v)
      then obtain x where "apply_sections ss d (AList.update a x spec) = Inr r" using Cons.prems(1) by (auto simp: bind_r_Inr_iff)
      then show ?thesis using Cons.IH [of "AList.update a x spec"] Cons.prems(2,3) False base [OF False] by (simp add: update_conv' split: option.splits)
    qed
  qed
qed simp

lemma merge_section_ok: "merge_section a b = Inr x \<Longrightarrow> distinct_keys a \<Longrightarrow> distinct_keys b \<Longrightarrow> distinct_keys x"
  using deep_merge_ok by (auto simp: merge_section_def dict_ok_def split: json.splits list.splits)

lemma dict_ok_lookup: "dict_ok d \<Longrightarrow> map_of d k = Some v \<Longrightarrow> distinct_keys v"
  using distinct_keys_inD by (auto simp: dict_ok_def)

lemma apply_sections_ok: "apply_sections ss d spec = Inr r \<Longrightarrow> dict_ok d \<Longrightarrow> dict_ok spec \<Longrightarrow> dict_ok r"
proof (induction ss arbitrary: spec)
  case (Cons s ss)
  show ?case
  proof (cases "map_of d s")
    case (Some v)
    with Cons.prems(1) obtain x where x: "merge_section (section_base spec s) v = Inr x"
      "apply_sections ss d (AList.update s x spec) = Inr r" by (auto simp: bind_r_Inr_iff)
    have "distinct_keys (section_base spec s)"
      using dict_ok_lookup [OF Cons.prems(3)] by (auto simp: section_base_def split: option.splits simp del: map_of_eq_Some_iff)
    then have "distinct_keys x" using merge_section_ok [OF x(1)] dict_ok_lookup [OF Cons.prems(2) Some] by blast
    then show ?thesis using Cons.IH [OF x(2) Cons.prems(2)] dict_ok_update Cons.prems(3) by blast
  qed (use Cons in simp)
qed simp

lemma written_members_ok: "distinct_keys (to_dict m) \<Longrightarrow> dict_ok (written_members m)"
  by (auto simp: written_members_def dict_ok_def split: json.splits)

lemma spec_of_ok: "distinct_keys (to_dict m) \<Longrightarrow> dict_ok (spec_of m)"
  using dict_ok_lookup [OF written_members_ok] by (fastforce simp: spec_of_def dict_ok_def split: option.splits json.splits simp del: map_of_eq_Some_iff)

lemma resolved_data_ok: "dict_ok spec \<Longrightarrow> dict_ok (resolved_data name spec)"
  by (simp add: dict_ok_def resolved_data_def lit_eq_iff del: lit_simps)

lemma build_policy_ok:
  assumes "build_policy name inline spec = Inr m" "distinct_keys (to_dict inline)" "dict_ok spec"
  shows "distinct_keys (to_dict m)"
proof -
  from assms(1) obtain r where r: "apply_sections POLICY_SECTIONS (written_members inline) spec = Inr r"
    "coerce (HClass output_policy_class) (JObj (resolved_data name r)) = Inr m"
    by (auto simp: build_policy_def from_dict_def bind_r_Inr_iff)
  have "dict_ok (resolved_data name r)"
    using apply_sections_ok [OF r(1) written_members_ok [OF assms(2)] assms(3)] by (rule resolved_data_ok)
  then show ?thesis using coerced_ok(1) [OF r(2)] by (simp add: dict_ok_def)
qed

lemma resolve_inlineE:
  assumes "resolve_inline policies name chain = Inr m"
  obtains inline where "name \<notin> set chain" "map_of policies name = Some inline" "extends_of inline = Inr None" "build_policy name inline [] = Inr m"
  | inline base p where "name \<notin> set chain" "map_of policies name = Some inline" "extends_of inline = Inr (Some base)"
      "resolve_inline policies base (name # chain) = Inr p" "build_policy name inline (spec_of p) = Inr m"
  using assms by (auto simp: resolve_inline.simps [of policies name chain] bind_r_Inr_iff simp del: map_of_eq_Some_iff
      split: option.splits sum.splits if_splits)

lemma resolve_inline_ok:
  "resolve_inline policies name chain = Inr m \<Longrightarrow> \<forall>(n, i) \<in> set policies. distinct_keys (to_dict i) \<Longrightarrow> distinct_keys (to_dict m)"
proof (induction policies name chain arbitrary: m rule: resolve_inline.induct)
  case (1 policies name chain)
  have d: "distinct_keys (to_dict i)" if "map_of policies name = Some i" for i using "1.prems"(2) map_of_SomeD [OF that] by blast
  from "1.prems"(1) show ?case
  proof (cases rule: resolve_inlineE)
    case (1 inline)
    then show ?thesis using build_policy_ok [OF _ d] by simp
  next
    case (2 inline base p)
    have "distinct_keys (to_dict p)" using "1.IH" [OF 2(1-3) refl 2(4) "1.prems"(2)] .
    then show ?thesis using build_policy_ok [OF 2(5) d [OF 2(2)]] spec_of_ok by blast
  qed
qed

lemma resolve_shorter_chain:
  "resolve_inline policies name chain = Inr m \<Longrightarrow> set chain' \<subseteq> set chain \<Longrightarrow> resolve_inline policies name chain' = Inr m"
proof (induction policies name chain arbitrary: m chain' rule: resolve_inline.induct)
  case (1 policies name chain)
  from "1.prems"(1) show ?case
  proof (cases rule: resolve_inlineE)
    case (1 inline)
    then show ?thesis using "1.prems"(2) by (auto simp: resolve_inline.simps [of policies name chain'])
  next
    case (2 inline base p)
    have "resolve_inline policies base (name # chain') = Inr p"
      using "1.IH" [OF 2(1-3) refl 2(4), of "name # chain'"] "1.prems"(2) by auto
    then show ?thesis using 2 "1.prems"(2) by (auto simp: resolve_inline.simps [of policies name chain'])
  qed
qed


text \<open>Within a section every named field holds a plain value.\<close>

definition flat_class :: "dataclass \<Rightarrow> bool" where
  "flat_class dc \<longleftrightarrow> list_all (\<lambda>(n, h, d). n = EXTRA \<or> h = HScalar \<or> h = HUnion [HScalar]) (class_fields dc)"

lemma flat_class_coerce:
  assumes "flat_class dc" "field_of_class dc k = Some (h, d)" "k \<noteq> EXTRA"
  shows "coerce h v = Inr (MData v)"
proof -
  have "(k, h, d) \<in> set (class_fields dc)" using assms(2) by (auto simp: field_of_class_def dest: map_of_SomeD)
  then have "h = HScalar \<or> h = HUnion [HScalar]" using assms(1,3) by (auto simp: flat_class_def list_all_iff)
  then show ?thesis by (auto simp: coerce_scalar coerce_union_one)
qed

lemma flat_member_survives:
  assumes "coerce (HClass dc) (JObj kvs) = Inr m" "wf_class dc" "flat_class dc" "dict_ok kvs" "map_of kvs k = Some v" "k \<noteq> EXTRA" "v \<noteq> JNull"
  shows "at_path (to_dict m) [k] = Some v"
proof -
  obtain w where w: "to_dict m = JObj w"
    "case field_of_class dc k of Some (h, d) \<Rightarrow> \<exists>mv. coerce h v = Inr mv \<and> map_of w k = Some (to_dict mv) | None \<Rightarrow> map_of w k = Some v"
    using member_survives [OF assms(1,2,4,5,6,7)] by blast
  then have "map_of w k = Some v"
    using flat_class_coerce [OF assms(3) _ assms(6), of _ _ v] by (auto simp del: map_of_eq_Some_iff split: option.splits)
  then show ?thesis using w(1) by simp
qed

lemma section_fields_table:
  "list_all (\<lambda>s. s \<noteq> EXTRA \<and> (case field_of_class output_policy_spec_class s of None \<Rightarrow> True
     | Some (h, d) \<Rightarrow> (case h of HClass c \<Rightarrow> wf_class c \<and> flat_class c | _ \<Rightarrow> False))) POLICY_SECTIONS"
  by code_simp

lemma section_fields:
  assumes "s \<in> set POLICY_SECTIONS"
  shows "s \<noteq> EXTRA \<and>
     (case field_of_class output_policy_spec_class s of None \<Rightarrow> True | Some (h, d) \<Rightarrow> \<exists>c. h = HClass c \<and> wf_class c \<and> flat_class c)"
proof -
  have t: "s \<noteq> EXTRA \<and> (case field_of_class output_policy_spec_class s of None \<Rightarrow> True
     | Some (h, d) \<Rightarrow> (case h of HClass c \<Rightarrow> wf_class c \<and> flat_class c | _ \<Rightarrow> False))"
    using section_fields_table assms by (simp add: list_all_iff)
  then show ?thesis by (auto split: option.splits hint.splits)
qed

lemma section_survives:
  assumes c: "coerce (HClass output_policy_spec_class) (JObj spec) = Inr m" "dict_ok spec"
    and s: "s \<in> set POLICY_SECTIONS" "map_of spec s = Some (JObj b)" "map_of b k = Some v" "k \<noteq> EXTRA" "v \<noteq> JNull"
  shows "at_path (to_dict m) [s, k] = Some v"
proof -
  have wf: "wf_class output_policy_spec_class" using output_policy_wf by (simp add: output_policy_class_def)
  have bok: "dict_ok b" using dict_ok_lookup [OF c(2) s(2)] by (simp add: dict_ok_def)
  have "s \<noteq> EXTRA" using section_fields [OF s(1)] by simp
  then obtain w where w: "to_dict m = JObj w"
    "case field_of_class output_policy_spec_class s of Some (h, d) \<Rightarrow> \<exists>mv. coerce h (JObj b) = Inr mv \<and> map_of w s = Some (to_dict mv)
     | None \<Rightarrow> map_of w s = Some (JObj b)"
    using member_survives [OF c(1) wf c(2) s(2)] by blast
  show ?thesis
  proof (cases "field_of_class output_policy_spec_class s")
    case None
    then show ?thesis using w s(3) by simp
  next
    case (Some f)
    then obtain cl d where cl: "f = (HClass cl, d)" "wf_class cl" "flat_class cl" using section_fields [OF s(1)] by (auto split: prod.splits)
    then obtain mv where "coerce (HClass cl) (JObj b) = Inr mv" "map_of w s = Some (to_dict mv)" using w(2) Some by auto
    then show ?thesis using w(1) flat_member_survives [OF _ cl(2,3) bok s(3-5)] by simp
  qed
qed

lemma resolved_section:
  assumes "build_policy name inline base = Inr m" "distinct_keys (to_dict inline)" "dict_ok base"
    and s: "s \<in> set POLICY_SECTIONS" "k \<noteq> EXTRA" "v \<noteq> JNull"
    and spec: "\<And>spec. apply_sections POLICY_SECTIONS (written_members inline) base = Inr spec \<Longrightarrow> at_path (JObj spec) [s, k] = Some v"
  shows "at_path (to_dict m) [lit ''spec'', s, k] = Some v"
proof -
  from assms(1) obtain r where r: "apply_sections POLICY_SECTIONS (written_members inline) base = Inr r"
    "coerce (HClass output_policy_class) (JObj (resolved_data name r)) = Inr m"
    by (auto simp: build_policy_def from_dict_def bind_r_Inr_iff)
  have ok: "dict_ok r" using apply_sections_ok [OF r(1) written_members_ok [OF assms(2)] assms(3)] .
  have f: "field_of_class output_policy_class (lit ''spec'') = Some (HClass output_policy_spec_class, Missing)" "lit ''spec'' \<noteq> EXTRA"
    "map_of (resolved_data name r) (lit ''spec'') = Some (JObj r)"
    by (simp_all add: field_of_class_def output_policy_class_def EXTRA_def resolved_data_def lit_eq_iff del: lit_simps)
  obtain w where w': "to_dict m = JObj w"
    "case field_of_class output_policy_class (lit ''spec'') of Some (h, d) \<Rightarrow> \<exists>mv. coerce h (JObj r) = Inr mv \<and> map_of w (lit ''spec'') = Some (to_dict mv)
     | None \<Rightarrow> map_of w (lit ''spec'') = Some (JObj r)"
    using member_survives [OF r(2) output_policy_wf resolved_data_ok [OF ok] f(3,2)] by blast
  then obtain ms where w: "to_dict m = JObj w" "coerce (HClass output_policy_spec_class) (JObj r) = Inr ms" "map_of w (lit ''spec'') = Some (to_dict ms)"
    unfolding f(1) option.case prod.case by blast
  from spec [OF r(1)] obtain b where b: "map_of r s = Some (JObj b)" "map_of b k = Some v"
    by (auto simp del: map_of_eq_Some_iff split: option.splits elim!: at_path.elims)
  show ?thesis using section_survives [OF w(2) ok s(1) b s(2,3)] by (simp add: w(1,3) del: lit_simps)
qed


lemma merge_section_at:
  assumes "merge_section (section_base spec s) v = Inr x" "distinct_keys v"
  shows "at_path v [k] = Some u \<Longrightarrow> \<not> is_dict u \<Longrightarrow> at_path x [k] = Some u"
    "silent_on v [k] \<Longrightarrow> at_path (section_base spec s) [k] = Some u \<Longrightarrow> at_path x [k] = Some u"
proof -
  assume a: "at_path v [k] = Some u" "\<not> is_dict u"
  then obtain o' where o': "v = JObj o'" "map_of o' k = Some u" by (auto elim!: at_path.elims simp del: map_of_eq_Some_iff split: option.splits)
  then obtain b where "x = JObj (deep_merge b o')" using assms(1) by (auto simp: merge_section_def split: json.splits list.splits)
  then show "at_path x [k] = Some u" using merged_at_path(1) [of o' "[k]" u b] assms(2) a o'(1) by simp
next
  assume a: "silent_on v [k]" "at_path (section_base spec s) [k] = Some u"
  then obtain o' b where o': "v = JObj o'" "section_base spec s = JObj b"
    by (auto elim!: at_path.elims silent_on.elims simp del: map_of_eq_Some_iff split: option.splits)
  then have "x = JObj (deep_merge b o')" using assms(1) by (simp add: merge_section_def)
  then show "at_path x [k] = Some u" using merged_at_path(2) [of o' "[k]" b] assms(2) a o' by simp
qed

lemma policy_sections_distinct: "distinct POLICY_SECTIONS"
  by (simp add: POLICY_SECTIONS_def lit_eq_iff del: lit_simps)

lemma applied_at:
  assumes "apply_sections POLICY_SECTIONS (written_members inline) base = Inr r" "distinct_keys (to_dict inline)" "s \<in> set POLICY_SECTIONS" "\<not> is_dict u"
  shows "at_path (to_dict inline) [s, k] = Some u \<Longrightarrow> at_path (JObj r) [s, k] = Some u"
    "silent_on (to_dict inline) [s, k] \<Longrightarrow> at_path (JObj base) [s, k] = Some u \<Longrightarrow> at_path (JObj r) [s, k] = Some u"
proof -
  let ?d = "written_members inline"
  note l = apply_sections_lookup [OF assms(1) policy_sections_distinct assms(3)]
  have ok: "distinct_keys v" if "map_of ?d s = Some v" for v using dict_ok_lookup [OF written_members_ok [OF assms(2)] that] .
  {
    assume "at_path (to_dict inline) [s, k] = Some u"
    then obtain v where v: "map_of ?d s = Some v" "at_path v [k] = Some u"
      by (cases "to_dict inline") (auto simp: written_members_def simp del: map_of_eq_Some_iff split: option.splits)
    then show "at_path (JObj r) [s, k] = Some u" using l merge_section_at(1) [OF _ ok [OF v(1)] v(2) assms(4)] by auto
  }
  assume a: "silent_on (to_dict inline) [s, k]" "at_path (JObj base) [s, k] = Some u"
  show "at_path (JObj r) [s, k] = Some u"
  proof (cases "map_of ?d s")
    case None
    then show ?thesis using l a(2) by simp
  next
    case (Some v)
    have "silent_on v [k]" using a(1) Some by (cases "to_dict inline") (auto simp: written_members_def split: option.splits)
    moreover have "at_path (section_base base s) [k] = Some u" using a(2) by (auto simp: section_base_def split: option.splits)
    ultimately show ?thesis using l Some merge_section_at(2) [OF _ ok [OF Some]] by auto
  qed
qed

text \<open>
  A value the inline policy sets is in the resolved policy, and a value it does not mention is the
  one of the resolved base, in every section, through any chain of bases.
\<close>

theorem resolved_policy_values:
  assumes ps: "inline_policies policy_set = Inr policies" "\<forall>(n, i) \<in> set policies. distinct_keys (to_dict i)"
    and r: "resolve_policy policy_set name = Inr m" "map_of policies name = Some inline"
    and s: "s \<in> set POLICY_SECTIONS" "k \<noteq> EXTRA" "v \<noteq> JNull" "\<not> is_dict v"
  shows "(at_path (to_dict inline) [s, k] = Some v \<longrightarrow> at_path (to_dict m) [lit ''spec'', s, k] = Some v) \<and>
    (extends_of inline = Inr (Some b) \<and> resolve_policy policy_set b = Inr base \<and> silent_on (to_dict inline) [s, k] \<and>
       at_path (to_dict base) [lit ''spec'', s, k] = Some v \<longrightarrow> at_path (to_dict m) [lit ''spec'', s, k] = Some v)"
proof -
  have d: "distinct_keys (to_dict inline)" using ps(2) map_of_SomeD [OF r(2)] by blast
  have res: "resolve_inline policies name [] = Inr m" using r(1) ps(1) by (simp add: resolve_policy_def)
  then obtain spec where bp: "build_policy name inline spec = Inr m" "dict_ok spec"
    "extends_of inline = Inr (Some b) \<Longrightarrow> \<exists>p. resolve_inline policies b [name] = Inr p \<and> spec = spec_of p"
  proof (cases rule: resolve_inlineE)
    case (2 i b' p)
    then show ?thesis using that [of "spec_of p"] r(2) spec_of_ok [OF resolve_inline_ok [OF 2(4) ps(2)]] by auto
  qed (use that r(2) in auto)
  note at = applied_at [OF _ d s(1,4), where k = k] and reach = resolved_section [OF bp(1) d bp(2) s(1-3)]
  have "at_path (to_dict m) [lit ''spec'', s, k] = Some v" if "at_path (to_dict inline) [s, k] = Some v"
    using that at(1) by (intro reach)
  moreover have "at_path (to_dict m) [lit ''spec'', s, k] = Some v"
    if e: "extends_of inline = Inr (Some b)" "resolve_policy policy_set b = Inr base" "silent_on (to_dict inline) [s, k]"
      "at_path (to_dict base) [lit ''spec'', s, k] = Some v"
  proof -
    obtain p where p: "resolve_inline policies b [name] = Inr p" "spec = spec_of p" using bp(3) [OF e(1)] by blast
    then have "p = base" using resolve_shorter_chain [OF p(1), of "[]"] e(2) ps(1) by (simp add: resolve_policy_def)
    then have "at_path (JObj spec) [s, k] = Some v" using e(4) p(2)
      by (cases "to_dict base") (auto simp: spec_of_def written_members_def simp del: map_of_eq_Some_iff lit_simps elim!: at_path.elims split: option.splits)
    then show ?thesis using at(2) e(3) by (intro reach)
  qed
  ultimately show ?thesis by blast
qed


section \<open>Examples\<close>

definition example_base_policy :: json where
  "example_base_policy = JObj [
     (lit ''capture'', JObj [(lit ''required'', JBool True), (lit ''backend'', JStr (lit ''local'')), (lit ''maxBytes'', JInt 9),
        (lit ''onFailure'', JStr (lit ''fail'')), (lit ''onQuotaExceeded'', JStr (lit ''truncate''))]),
     (lit ''budget'', JObj [(lit ''maxEstimatedTokens'', JInt 5), (lit ''maxBytes'', JInt 7), (lit ''maxLines'', JInt 3), (lit ''estimator'', JStr (lit ''bytes''))]),
     (lit ''projection'', JObj [(lit ''mode'', JStr (lit ''tail''))]),
     (lit ''redaction'', JObj [(lit ''beforeModel'', JBool True), (lit ''beforeLocalRaw'', JBool False), (lit ''beforeReplica'', JBool True)])]"

definition example_policy_set_document :: jdict where
  "example_policy_set_document = [
     (lit ''metadata'', JObj [(lit ''name'', JStr (lit ''set''))]),
     (lit ''spec'', JObj [
        (lit ''defaults'', JObj [(lit ''policy'', JStr (lit ''base''))]),
        (lit ''policies'', JObj [
           (lit ''base'', example_base_policy),
           (lit ''ci'', JObj [(lit ''extends'', JStr (lit ''base'')), (lit ''budget'', JObj [(lit ''maxBytes'', JInt 2)])]),
           (lit ''a'', JObj [(lit ''extends'', JStr (lit ''b''))]), (lit ''b'', JObj [(lit ''extends'', JStr (lit ''a''))]),
           (lit ''lost'', JObj [(lit ''extends'', JStr (lit ''gone''))])]),
        (lit ''profiles'', JArr [])])]"

definition example_policy_set :: mval where
  "example_policy_set = result_value (from_dict output_policy_set_class example_policy_set_document)"

definition values_of :: "'a list result \<Rightarrow> 'a list" where
  "values_of r = (case r of Inr x \<Rightarrow> x | Inl e \<Rightarrow> [])"

definition example_policies :: "(pystr \<times> mval) list" where
  "example_policies = values_of (inline_policies example_policy_set)"

definition error_is :: "(exn \<Rightarrow> bool) \<Rightarrow> 'a result \<Rightarrow> bool" where
  "error_is V r \<longleftrightarrow> (case r of Inl e \<Rightarrow> V e | Inr x \<Rightarrow> False)"

lemma example_inline_policies: "inline_policies example_policy_set = Inr example_policies" by code_simp

lemma example_policies_ok: "list_all (\<lambda>(n, i). distinct_keys (to_dict i)) example_policies" by code_simp

lemma example_cycle: "error_is (\<lambda>e. case e of PolicyCycleError t \<Rightarrow> True | _ \<Rightarrow> False) (resolve_policy example_policy_set (lit ''a''))" by code_simp

lemma example_missing: "error_is (\<lambda>e. case e of PolicyNotFoundError t \<Rightarrow> True | _ \<Rightarrow> False) (resolve_policy example_policy_set (lit ''lost''))" by code_simp

theorem resolve_policy_exact_witness:
  "looping example_policies (lit ''a'') \<and> (\<exists>b. (extends_to example_policies)\<^sup>*\<^sup>* (lit ''lost'') b \<and> dangling example_policies b)"
proof -
  have "\<exists>t. resolve_policy example_policy_set (lit ''a'') = Inl (PolicyCycleError t)"
    using example_cycle by (auto simp: error_is_def split: sum.splits exn.splits)
  moreover have "\<exists>t. resolve_policy example_policy_set (lit ''lost'') = Inl (PolicyNotFoundError t)"
    using example_missing by (auto simp: error_is_def split: sum.splits exn.splits)
  ultimately show ?thesis using resolve_policy_exact [OF example_inline_policies] by blast
qed

definition example_ci :: mval where "example_ci = result_value (resolve_policy example_policy_set (lit ''ci''))"
definition example_base :: mval where "example_base = result_value (resolve_policy example_policy_set (lit ''base''))"
definition example_inline_ci :: mval where
  "example_inline_ci = (case map_of example_policies (lit ''ci'') of Some i \<Rightarrow> i | None \<Rightarrow> MData JNull)"

theorem resolved_policy_values_witness:
  "at_path (to_dict example_ci) [lit ''spec'', lit ''budget'', lit ''maxBytes''] = Some (JInt 2) \<and>
   at_path (to_dict example_ci) [lit ''spec'', lit ''budget'', lit ''maxLines''] = Some (JInt 3)"
proof -
  have ok: "\<forall>(n, i) \<in> set example_policies. distinct_keys (to_dict i)" using example_policies_ok by (auto simp: list_all_iff)
  have r: "resolve_policy example_policy_set (lit ''ci'') = Inr example_ci" "map_of example_policies (lit ''ci'') = Some example_inline_ci"
    "resolve_policy example_policy_set (lit ''base'') = Inr example_base" "extends_of example_inline_ci = Inr (Some (lit ''base''))"
    by code_simp+
  have p: "at_path (to_dict example_inline_ci) [lit ''budget'', lit ''maxBytes''] = Some (JInt 2)"
    "silent_on (to_dict example_inline_ci) [lit ''budget'', lit ''maxLines'']"
    "at_path (to_dict example_base) [lit ''spec'', lit ''budget'', lit ''maxLines''] = Some (JInt 3)"
    "lit ''budget'' \<in> set POLICY_SECTIONS" "lit ''maxBytes'' \<noteq> EXTRA" "lit ''maxLines'' \<noteq> EXTRA"
    by code_simp+
  show ?thesis
    using resolved_policy_values [OF example_inline_policies ok r(1,2) p(4,5), of "JInt 2"]
      resolved_policy_values [OF example_inline_policies ok r(1,2) p(4,6), of "JInt 3" "lit ''base''" example_base] p(1-3) r(3,4)
    by (simp del: lit_simps)
qed

end
