(* ===== verification/Transparent.thy ===== *)
theory Transparent
  imports Projection
begin

text \<open>
  The converse of losslessness: text that needs no treatment is not treated.  Lines of plain characters
  that fit the limits, no two adjacent ones alike, come through \<open>project_bytes\<close> unchanged and the result
  is not marked lossy.  Two lines are alike for the normalizer when length and SHA-256 agree.
\<close>

section \<open>Plain lines\<close>

definition plain_char :: "nat \<Rightarrow> bool" where
  "plain_char c \<longleftrightarrow> \<not> control_category c \<and> is_scalar c \<and> c \<noteq> replacement_char"

definition line_identity :: "pystr \<Rightarrow> int \<times> string" where
  "line_identity l = (text_bytes l, sha256_hex (utf8_encode l))"

definition tidy_lines :: "projection_limits \<Rightarrow> pystr list \<Rightarrow> bool" where
  "tidy_lines L ls \<longleftrightarrow> list_all (\<lambda>l. list_all plain_char l \<and> text_bytes l \<le> representative_budget L) ls \<and>
     successively (\<lambda>k l. line_identity k \<noteq> line_identity l) ls"

definition terminated :: "pystr list \<Rightarrow> pystr" where
  "terminated ls = concat (map (\<lambda>l. l @ [newline]) ls)"

lemma terminated_simps [simp]: "terminated [] = []" "terminated (l # ls) = l @ newline # terminated ls" "terminated (ks @ ls) = terminated ks @ terminated ls"
  by (simp_all add: terminated_def)

lemma plain_char_neutral: "plain_char c \<Longrightarrow> neutralize_character c = ([c], False) \<and> c \<noteq> 13 \<and> c \<noteq> newline"
  using control_category_ascii by (auto simp: plain_char_def neutralize_character_def)

definition line_record :: "projection_limits \<Rightarrow> pystr \<Rightarrow> logical_record" where
  "line_record L l = foldl (\<lambda>r c. record_add r [c]) (record_init (representative_budget L)) l"

lemma record_adds:
  "\<not> clipped r \<Longrightarrow> lr_byte_count r + text_bytes l \<le> representative_bytes r \<Longrightarrow>
     foldl (\<lambda>r c. record_add r [c]) r l = r\<lparr>lr_characters := lr_characters r @ map (\<lambda>c. [c]) l, lr_byte_count := lr_byte_count r + text_bytes l,
       hashed := hashed r @ utf8_encode l, total_bytes := total_bytes r + text_bytes l\<rparr>"
proof (induction l arbitrary: r)
  case (Cons c l)
  have b: "text_bytes (c # l) = text_bytes [c] + text_bytes l" by (rule text_bytes_Cons)
  have nn: "0 \<le> text_bytes l" by simp
  have one: "record_add r [c] = r\<lparr>lr_characters := lr_characters r @ [[c]], lr_byte_count := lr_byte_count r + text_bytes [c],
       hashed := hashed r @ utf8_encode [c], total_bytes := total_bytes r + text_bytes [c]\<rparr>"
    using Cons.prems b nn by (simp add: record_add_def Let_def text_bytes_def)
  show ?case using Cons.prems b by (simp add: one Cons.IH)
qed (simp add: text_bytes_def)

lemma line_record_facts:
  assumes "text_bytes l \<le> representative_budget L"
  shows "render (line_record L l) = l" "\<not> clipped (line_record L l)" "record_identity (line_record L l) = line_identity l"
proof -
  have r: "line_record L l = (record_init (representative_budget L))\<lparr>lr_characters := map (\<lambda>c. [c]) l, lr_byte_count := text_bytes l,
       hashed := utf8_encode l, total_bytes := text_bytes l\<rparr>"
    using record_adds [of "record_init (representative_budget L)" l] assms by (simp add: line_record_def record_init_def)
  show "render (line_record L l) = l" "\<not> clipped (line_record L l)" "record_identity (line_record L l) = line_identity l"
    by (simp_all add: r render_def record_init_def record_identity_def line_identity_def Let_def)
qed

lemma feed_plain:
  "list_all plain_char l \<Longrightarrow> normalizer_feed add n l = n\<lparr>current := foldl (\<lambda>r c. record_add r [c]) (current n) l\<rparr>"
  unfolding normalizer_feed_def
  by (induction l arbitrary: n) (auto simp: feed_char_def dest!: plain_char_neutral)

section \<open>The state between lines\<close>

text \<open>Everything but the last line has reached the collector, the last one waits for the next.\<close>

definition calm :: "projection_limits \<Rightarrow> pystr \<Rightarrow> pystr option \<Rightarrow> failure_collector normalizer \<Rightarrow> bool" where
  "calm L out waiting n \<longleftrightarrow> failure_inv (sink n) \<and> \<not> truncated (sink n) \<and> pc_limits (sink n) = L \<and> characters (sink n) = out \<and>
     nz_representative_bytes n = representative_budget L \<and> current n = record_init (representative_budget L) \<and>
     progress_first n = None \<and> progress_last n = None \<and> flags_clear n \<and>
     (case waiting of None \<Rightarrow> repeat_record n = None
      | Some l \<Rightarrow> repeat_record n = Some (line_record L l) \<and> repeat_count n = 1 \<and> text_bytes l \<le> representative_budget L)"

lemma failure_add_fits:
  assumes "failure_inv fc" "\<not> truncated fc" "fits (characters fc @ t) (pc_limits fc)"
  shows "failure_inv (failure_add fc t a) \<and> \<not> truncated (failure_add fc t a) \<and> characters (failure_add fc t a) = characters fc @ t \<and>
    pc_limits (failure_add fc t a) = pc_limits fc"
proof -
  have "prefix_inv fc" using assms(1,2) by (simp add: failure_inv_def)
  then have "\<not> truncated (failure_add fc t a)" using prefix_add_truncated_iff [of fc t] assms(2,3) by (simp add: failure_add_truncated_iff)
  then show ?thesis using failure_add_exact [OF assms(1)] failure_add_inv [OF assms(1)] by simp
qed

lemma flush_calm:
  assumes "calm L out waiting n" "fits (out @ (case waiting of None \<Rightarrow> [] | Some l \<Rightarrow> l @ [newline])) L"
  shows "calm L (out @ (case waiting of None \<Rightarrow> [] | Some l \<Rightarrow> l @ [newline])) None (flush_repetition failure_add n)"
proof (cases waiting)
  case None
  then show ?thesis using assms by (simp add: calm_def flush_repetition_def)
next
  case (Some l)
  have l: "repeat_record n = Some (line_record L l)" "repeat_count n = 1" "text_bytes l \<le> representative_budget L"
    using assms(1) Some by (simp_all add: calm_def)
  note r = line_record_facts [OF l(3)]
  let ?s = "failure_add (sink n) (l @ [newline]) (is_failure_anchor l)"
  have s: "failure_inv ?s" "\<not> truncated ?s" "characters ?s = out @ l @ [newline]" "pc_limits ?s = L"
    using failure_add_fits [of "sink n" "l @ [newline]"] assms Some by (auto simp: calm_def)
  show ?thesis using assms(1) s by (simp add: Some flush_repetition_def l r emit_def calm_def flags_clear_def Let_def)
qed

lemma line_calm:
  assumes c: "calm L out waiting n" and l: "list_all plain_char l" "text_bytes l \<le> representative_budget L"
    and d: "\<And>k. waiting = Some k \<Longrightarrow> line_identity k \<noteq> line_identity l"
    and f: "fits (out @ (case waiting of None \<Rightarrow> [] | Some k \<Rightarrow> k @ [newline])) L"
  shows "calm L (out @ (case waiting of None \<Rightarrow> [] | Some k \<Rightarrow> k @ [newline])) (Some l) (normalizer_feed failure_add n (l @ [newline]))"
proof -
  let ?n = "n\<lparr>current := line_record L l\<rparr>"
  let ?m = "n\<lparr>raw_line := raw_line n + 1, current := record_init (representative_budget L)\<rparr>"
  have cur: "current n = record_init (representative_budget L)" "progress_first n = None" "nz_representative_bytes n = representative_budget L"
    using c by (simp_all add: calm_def)
  have m: "calm L out waiting ?m" using c by (simp add: calm_def flags_clear_def split: option.splits)
  have feed: "normalizer_feed failure_add n (l @ [newline]) = finish_line failure_add True ?n"
    using l(1) by (simp add: normalizer_feed_append feed_plain cur(1) line_record_def) (simp add: normalizer_feed_def feed_char_def)
  have new: "record_identity (line_record L l) \<noteq> record_identity rr" if "repeat_record n = Some rr" for rr
  proof -
    from c that obtain k where k: "waiting = Some k" "rr = line_record L k" "text_bytes k \<le> representative_budget L"
      by (auto simp: calm_def split: option.splits)
    show ?thesis using d [OF k(1)] line_record_facts(3) [OF l(2)] line_record_facts(3) [OF k(3)] by (simp add: k(2))
  qed
  have "finish_line failure_add True ?n = (flush_repetition failure_add ?m)\<lparr>repeat_record := Some (line_record L l), repeat_count := 1, repeat_start := raw_line n + 1\<rparr>"
    using new by (simp add: finish_line_def flush_progress_none cur fresh_record_def Let_def split: option.splits)
  then show ?thesis using flush_calm [OF m f] l(2) by (simp add: feed calm_def flags_clear_def)
qed

lemma lines_calm:
  assumes "calm L out waiting n" "tidy_lines L ls" "\<And>k. waiting = Some k \<Longrightarrow> ls \<noteq> [] \<Longrightarrow> line_identity k \<noteq> line_identity (hd ls)"
    "fits (out @ (case waiting of None \<Rightarrow> [] | Some k \<Rightarrow> k @ [newline]) @ terminated ls) L"
  shows "\<exists>out' w'. calm L out' w' (normalizer_feed failure_add n (terminated ls)) \<and>
    out' @ (case w' of None \<Rightarrow> [] | Some k \<Rightarrow> k @ [newline]) = out @ (case waiting of None \<Rightarrow> [] | Some k \<Rightarrow> k @ [newline]) @ terminated ls"
  using assms
proof (induction ls arbitrary: out waiting n)
  case Nil
  then show ?case by (auto simp: normalizer_feed_def)
next
  case (Cons l ls)
  let ?o = "out @ (case waiting of None \<Rightarrow> [] | Some k \<Rightarrow> k @ [newline])"
  have tl: "list_all plain_char l" "text_bytes l \<le> representative_budget L" "tidy_lines L ls" "ls \<noteq> [] \<Longrightarrow> line_identity l \<noteq> line_identity (hd ls)"
    using Cons.prems(2) by (auto simp: tidy_lines_def successively_Cons)
  have "fits (?o @ l @ newline # terminated ls) L" using Cons.prems(4) by simp
  then have f: "fits ?o L" by (rule fits_prefix)
  note s = line_calm [OF Cons.prems(1) tl(1,2) _ f]
  have "\<exists>out' w'. calm L out' w' (normalizer_feed failure_add (normalizer_feed failure_add n (l @ [newline])) (terminated ls)) \<and>
    out' @ (case w' of None \<Rightarrow> [] | Some k \<Rightarrow> k @ [newline]) = ?o @ (case Some l of None \<Rightarrow> [] | Some k \<Rightarrow> k @ [newline]) @ terminated ls"
    using Cons.prems(3,4) tl(3,4) by (intro Cons.IH s) auto
  then show ?case by (simp flip: normalizer_feed_append)
qed

lemma run_tidy:
  assumes "limits_ok L" "tidy_lines L ls" "fits (terminated ls) L"
  shows "calm L (terminated ls) None (run_normalizer L (terminated ls))"
proof -
  let ?n = "normalizer_init (failure_init L) L" and ?m = "normalizer_feed failure_add (normalizer_init (failure_init L) L) (terminated ls)"
  have "calm L [] None ?n"
    using failure_init_inv [OF assms(1)] by (simp add: calm_def normalizer_init_def flags_clear_def)
  from lines_calm [OF this assms(2)] assms(3) obtain out w where
    c: "calm L out w ?m" "out @ (case w of None \<Rightarrow> [] | Some k \<Rightarrow> k @ [newline]) = terminated ls" by auto
  have e: "record_empty (current ?m)" "progress_first ?m = None" using c(1) by (simp_all add: calm_def record_empty_def record_init_def)
  have "calm L (terminated ls) None (flush_repetition failure_add ?m)" using flush_calm [OF c(1)] c(2) assms(3) by simp
  then show ?thesis by (simp add: run_normalizer_def normalizer_finish_def e flush_progress_none Let_def)
qed

lemma redaction_nothing: "\<forall>v \<in> V. v \<noteq> [] \<and> \<not> sublist v data \<Longrightarrow> redaction V rep data data 0"
proof (induction data)
  case (Cons b data)
  have "\<forall>v \<in> V. \<not> prefix v (b # data)" using Cons.prems prefix_imp_sublist by blast
  moreover have "\<forall>v \<in> V. v \<noteq> [] \<and> \<not> sublist v data" using Cons.prems by (auto simp: sublist_Cons_right)
  ultimately show ?case by (intro redaction.copy Cons.IH)
qed (rule redaction.stop)

lemma untreated_projection:
  assumes a: "resolve_limits a = Inr L" "limits_ok L" "build_redactor a = Inr r"
    and t: "tidy_lines L ls" "fits (terminated ls) L" "concat cs = utf8_encode (terminated ls)"
    and s: "list_all (\<lambda>v. \<not> sublist v (concat cs)) (rvalues r)"
  shows "\<exists>res. project_bytes (map BytesChunk cs) a = Inr res \<and> pr_text res = terminated ls \<and> pr_output res = concat cs \<and>
    \<not> pr_lossy res \<and> \<not> pr_redacted res \<and> pr_gap_marker res = None"
proof -
  note r = build_redactor_ok [OF a(3)]
  obtain r' red where red: "redactor_feed True r (concat cs) = (r', red)" by (rule prod.exhaust)
  have "\<forall>v \<in> set (rvalues r). v \<noteq> [] \<and> \<not> sublist v (concat cs)" using s by (fastforce simp: list_all_iff)
  then have "redaction (set (rvalues r)) (replacement r) (concat cs) (concat cs) 0" by (rule redaction_nothing)
  with redactor_final_spec [OF _ _ red] r have rr: "red = concat cs" "\<not> redacted r'" using redaction_deterministic by blast+
  have plain: "plain_char c \<or> c = newline" if "c \<in> set (terminated ls)" for c
    using that t(1) by (auto simp: terminated_def tidy_lines_def list_all_iff split: if_splits)
  have sc: "is_scalar newline" by (simp add: is_scalar_def)
  have dec: "utf8_decode red = terminated ls" unfolding rr(1) t(3)
    using plain sc by (intro utf8_decode_encode) (auto simp: plain_char_def)
  have c: "calm L (terminated ls) None (run_normalizer L (terminated ls))" by (rule run_tidy [OF a(2) t(1,2)])
  then have fl: "\<not> controls_changed (run_normalizer L (terminated ls))" "\<not> repetition_collapsed (run_normalizer L (terminated ls))"
    "\<not> truncated (final_collector L (terminated ls))" by (simp_all add: calm_def flags_clear_def)
  let ?p = "project_whole L r (concat cs)"
  note pt = project_whole_text [OF red, of L, unfolded dec]
  have g: "pr_gap_marker ?p = None" unfolding pt(2)
    using fl(3) failure_finish_None_iff [OF final_collector_ok(1) [OF a(2)]] final_collector_ok(3) [OF a(2)] a(2) by simp
  have tx: "pr_text ?p = terminated ls" using project_whole_unflagged [OF a(2) red g] fl by (simp add: dec)
  have "replacement_char \<notin> set (terminated ls)" using plain by (fastforce simp: plain_char_def)
  then have "\<not> pr_lossy ?p" unfolding pt(3) tx using rr(2) fl g by simp
  moreover have "\<not> pr_redacted ?p" unfolding pt(4) by (rule rr(2))
  moreover have "pr_output ?p = concat cs" using project_whole_metadata [of L r "concat cs"] by (simp add: Let_def t(3) tx [unfolded t(3)])
  ultimately show ?thesis using project_bytes_eq [OF a(1,3), of cs] g tx by blast
qed

text \<open>
  C25.  Text that needs no treatment gets none: lines of plain characters (no control, no surrogate, no
  replacement character), each ended by a newline and within the budget of one line (at most 4096
  bytes, and less than the byte and token limits by the room for the two markers), no two adjacent
  ones alike in length and digest, together within the limits and without a secret, are shown
  unchanged, in whatever chunks they arrive, and the projection is neither marked lossy nor redacted.
\<close>

theorem project_bytes_transparent:
  assumes a: "resolve_limits a = Inr L" "limits_ok L" "build_redactor a = Inr r"
    and t: "tidy_lines L ls" "fits (terminated ls) L" "concat cs = utf8_encode (terminated ls)"
    and s: "list_all (\<lambda>v. \<not> sublist v (concat cs)) (rvalues r)"
  shows "\<exists>res. project_bytes (map BytesChunk cs) a = Inr res \<and> pr_text res = terminated ls \<and> pr_output res = concat cs \<and>
    \<not> pr_lossy res \<and> \<not> pr_redacted res \<and> pr_gap_marker res = None"
  by (rule untreated_projection [OF assms])

text \<open>Lines of different length are never alike.\<close>

lemma tidy_by_length:
  assumes "list_all (\<lambda>l. list_all plain_char l \<and> text_bytes l \<le> representative_budget L) ls"
    "successively (\<lambda>k l. text_bytes k \<noteq> text_bytes l) ls"
  shows "tidy_lines L ls"
  using assms by (auto simp: tidy_lines_def line_identity_def intro: successively_mono)

definition example_lines :: "pystr list" where "example_lines = [lit ''ok'', lit ''done'']"

theorem project_bytes_transparent_witness:
  "\<exists>res. project_bytes [BytesChunk [CHR ''o''], BytesChunk (''k'' @ [CHR 0x0A] @ ''done'' @ [CHR 0x0A])] default_args = Inr res \<and>
     pr_text res = terminated example_lines \<and> \<not> pr_lossy res"
proof -
  have L: "limits_ok default_limits" by code_simp
  have e: "list_all (\<lambda>l. list_all plain_char l \<and> text_bytes l \<le> representative_budget default_limits) example_lines"
    "successively (\<lambda>k l. text_bytes k \<noteq> text_bytes l) example_lines" "fits (terminated example_lines) default_limits"
    "concat [[CHR ''o''], ''k'' @ [CHR 0x0A] @ ''done'' @ [CHR 0x0A]] = utf8_encode (terminated example_lines)" by code_simp+
  from project_bytes_transparent [OF default_setup(1) L default_setup(3) tidy_by_length [OF e(1,2)] e(3,4)] show ?thesis by auto
qed

end
