(* ===== verification/Semantic.thy ===== *)
theory Semantic
  imports Transparent Retrieval Formats
begin

text \<open>
  \<open>semantic.py\<close>: the pod-health summary of a wide pod listing.  The generator \<open>_line_bytes\<close> is the list of
  what it yields, a wrong chunk ending it with an error, and the loop over it may stop before its end.
  Shown: the scan depends on the bytes only and counts every row of the table; a summary marked
  \<open>decision_complete\<close> is the whole summary and shows every anomalous row; and a table whose
  first column is \<open>NAME\<close> is accepted but read one column off.
\<close>

section \<open>Text\<close>

text \<open>The characters \<open>str.split()\<close> and \<open>str.strip()\<close> take for white space.\<close>

definition is_space :: "nat \<Rightarrow> bool" where
  "is_space c \<longleftrightarrow> 9 \<le> c \<and> c \<le> 13 \<or> 28 \<le> c \<and> c \<le> 32 \<or> c = 0x85 \<or> c = 0xA0 \<or> c = 0x1680 \<or> 0x2000 \<le> c \<and> c \<le> 0x200A \<or>
     c = 0x2028 \<or> c = 0x2029 \<or> c = 0x202F \<or> c = 0x205F \<or> c = 0x3000"

lemma dropWhile_shorter: "length (dropWhile P xs) \<le> length xs"
  by (induction xs) auto

function split_words :: "pystr \<Rightarrow> pystr list" where
  "split_words t =
     (let u = dropWhile is_space t in
      if u = [] then [] else takeWhile (\<lambda>c. \<not> is_space c) u # split_words (dropWhile (\<lambda>c. \<not> is_space c) u))"
  by pat_completeness auto
termination
proof (relation "measure length", goal_cases)
  case (2 t u)
  then obtain c u' where u: "u = c # u'" by (meson neq_Nil_conv)
  have "dropWhile is_space t = c # u'" using 2(1) u by simp
  then have "\<not> is_space c" using hd_dropWhile [of is_space t] by simp
  then have "length (dropWhile (\<lambda>c. \<not> is_space c) u) \<le> length u'" by (simp add: u dropWhile_shorter)
  also have "length u' < length u" by (simp add: u)
  also have "length u \<le> length t" using 2(1) dropWhile_shorter by auto
  finally show ?case by simp
qed simp

declare split_words.simps [simp del]

definition strip :: "pystr \<Rightarrow> pystr" where
  "strip t = rev (dropWhile is_space (rev (dropWhile is_space t)))"

fun join_str :: "pystr \<Rightarrow> pystr list \<Rightarrow> pystr" where
  "join_str sep [] = []"
| "join_str sep [t] = t"
| "join_str sep (t # u # ts) = t @ sep @ join_str sep (u # ts)"

section \<open>Rows\<close>

definition POD_HEALTH_STATUSES :: "pystr list" where
  "POD_HEALTH_STATUSES = [lit ''Error'', lit ''OOMKilled'', lit ''Pending'', lit ''CrashLoopBackOff'', lit ''ImagePullBackOff'']"

definition MAX_SEMANTIC_LINE_BYTES :: nat where "MAX_SEMANTIC_LINE_BYTES = 1048576"
definition MAX_ANOMALOUS_ROW_BYTES :: nat where "MAX_ANOMALOUS_ROW_BYTES = 512"
definition SEMANTIC_FULL_IF_UNDER_BYTES :: int where "SEMANTIC_FULL_IF_UNDER_BYTES = 16384"
definition POD_HEALTH_ADAPTER :: pystr where "POD_HEALTH_ADAPTER = lit ''kubernetes.pod-health/v1''"

record pod_health =
  header_seen :: bool
  parse_failed :: bool
  total_rows :: nat
  status_counts :: "(pystr \<times> nat) list"
  anomalous_rows :: "pystr list"
  rows_dropped :: nat
  rows_clipped :: nat

definition pod_health_init :: pod_health where
  "pod_health_init = \<lparr>header_seen = False, parse_failed = False, total_rows = 0, status_counts = [], anomalous_rows = [],
     rows_dropped = 0, rows_clipped = 0\<rparr>"

definition count_of :: "(pystr \<times> nat) list \<Rightarrow> pystr \<Rightarrow> nat" where
  "count_of cs s = (case map_of cs s of Some n \<Rightarrow> n | None \<Rightarrow> 0)"

definition OTHER_STATUS :: pystr where "OTHER_STATUS = lit ''<other>''"

definition tally :: "pystr \<Rightarrow> (pystr \<times> nat) list \<Rightarrow> (pystr \<times> nat) list" where
  "tally status cs =
     (let key = (if status \<in> set (map fst cs) \<or> length cs < 128 then status else OTHER_STATUS)
      in AList.update key (count_of cs key + 1) cs)"

definition row_status :: "pystr list \<Rightarrow> pystr" where
  "row_status tokens = take 128 (tokens ! 3)"

definition row_text :: "pystr list \<Rightarrow> pystr" where
  "row_text tokens = take 128 (tokens ! 0) @ lit ''/'' @ take 256 (tokens ! 1) @ lit '' status='' @ row_status tokens @
     lit '' ready='' @ take 64 (tokens ! 2)"

definition clip_row :: "pystr \<Rightarrow> pystr" where
  "clip_row row = fst (utf8_loop False (take (MAX_ANOMALOUS_ROW_BYTES - 25) (utf8_encode row))) @ lit '' [... row clipped ...]''"

definition row_too_long :: "pystr \<Rightarrow> bool" where
  "row_too_long row \<longleftrightarrow> MAX_ANOMALOUS_ROW_BYTES < length (utf8_encode row)"

definition buffer_row :: "pystr \<Rightarrow> pod_health \<Rightarrow> pod_health" where
  "buffer_row row a =
     (if length (anomalous_rows a) < 4096 then a\<lparr>anomalous_rows := anomalous_rows a @ [row]\<rparr>
      else a\<lparr>rows_dropped := rows_dropped a + 1\<rparr>)"

definition add_row :: "pystr \<Rightarrow> pod_health \<Rightarrow> pod_health" where
  "add_row line a =
     (let tokens = split_words line in
      if length tokens < 4 then a\<lparr>parse_failed := True\<rparr>
      else
        let status = row_status tokens;
            a = a\<lparr>total_rows := total_rows a + 1, status_counts := tally status (status_counts a)\<rparr> in
        if status \<in> set POD_HEALTH_STATUSES then
          (let row = row_text tokens in
           if row_too_long row then buffer_row (clip_row row) (a\<lparr>rows_clipped := rows_clipped a + 1\<rparr>)
           else buffer_row row a)
        else a)"

section \<open>Lines\<close>

datatype line_event = Line bytes | Overlong | ChunkError

definition rstrip_cr :: "bytes \<Rightarrow> bytes" where
  "rstrip_cr b = rev (dropWhile (\<lambda>c. c = CHR 0x0D) (rev b))"

fun scan_bytes :: "bytes \<Rightarrow> bool \<Rightarrow> bytes \<Rightarrow> line_event list \<times> bytes \<times> bool" where
  "scan_bytes acc skipping [] = ([], acc, skipping)"
| "scan_bytes acc skipping (c # cs) =
     (if skipping then scan_bytes acc (c \<noteq> CHR 0x0A) cs
      else if c = CHR 0x0A then (let (ls, r) = scan_bytes [] False cs in (Line (rstrip_cr acc) # ls, r))
      else if MAX_SEMANTIC_LINE_BYTES < length (acc @ [c]) then (let (ls, r) = scan_bytes [] True cs in (Overlong # ls, r))
      else scan_bytes (acc @ [c]) False cs)"

fun line_bytes_from :: "bytes \<Rightarrow> bool \<Rightarrow> chunk_arg list \<Rightarrow> line_event list" where
  "line_bytes_from acc skipping [] = (if acc \<noteq> [] \<and> \<not> skipping then [Line (rstrip_cr acc)] else [])"
| "line_bytes_from acc skipping (OtherChunk # cs) = [ChunkError]"
| "line_bytes_from acc skipping (BytesChunk c # cs) =
     (let (ls, acc, skipping) = scan_bytes acc skipping c in ls @ line_bytes_from acc skipping cs)"

definition line_bytes :: "chunk_arg list \<Rightarrow> line_event list" where
  "line_bytes = line_bytes_from [] False"

section \<open>The scan\<close>

datatype scan_step = Continue bool pod_health | Stop pod_health | NotTable

definition scan_line :: "bool \<Rightarrow> pod_health \<Rightarrow> bytes \<Rightarrow> scan_step" where
  "scan_line first_content_seen a raw =
     (let line = strip (utf8_decode raw) in
      if line = [] then Continue first_content_seen a
      else if \<not> first_content_seen then
        (if prefix (lit ''no resources found'') (casefold line) then Stop (a\<lparr>header_seen := True\<rparr>)
         else
           let header = split_words line in
           if length header < 4 \<or> casefold (hd header) \<notin> {lit ''namespace'', lit ''name''} then NotTable
           else if lit ''status'' \<notin> casefold ` set header then NotTable
           else Continue True (a\<lparr>header_seen := True\<rparr>))
      else if header_seen a then Continue first_content_seen (add_row line a)
      else Continue first_content_seen a)"

fun scan_pods :: "line_event list \<Rightarrow> bool \<Rightarrow> pod_health \<Rightarrow> pod_health option result" where
  "scan_pods [] seen a = Inr (Some a)"
| "scan_pods (ChunkError # es) seen a = Inl (TypeError ''semantic projection chunks must be bytes'')"
| "scan_pods (Overlong # es) seen a = scan_pods es seen (a\<lparr>parse_failed := True\<rparr>)"
| "scan_pods (Line raw # es) seen a =
     (case scan_line seen a raw of
        Continue seen a \<Rightarrow> scan_pods es seen a
      | Stop a \<Rightarrow> Inr (Some a)
      | NotTable \<Rightarrow> Inr None)"

definition scan_table :: "chunk_arg list \<Rightarrow> pod_health option result" where
  "scan_table chunks = bind_r (scan_pods (line_bytes chunks) False pod_health_init) (\<lambda>r. case r of
     None \<Rightarrow> Inr None
   | Some a \<Rightarrow> if \<not> header_seen a \<or> parse_failed a then Inr None else Inr (Some a))"

section \<open>The summary\<close>

definition summary_fits :: "pystr \<Rightarrow> projection_limits \<Rightarrow> bool" where
  "summary_fits t L \<longleftrightarrow> (let encoded = utf8_encode t in
     int (length encoded) \<le> max_bytes L \<and> int (length (split_lines [] encoded)) \<le> max_lines L \<and>
     (int (length encoded) + 3) div 4 \<le> max_estimated_tokens L)"

definition total_anomalies :: "pod_health \<Rightarrow> nat" where
  "total_anomalies a = sum_list (map (count_of (status_counts a)) POD_HEALTH_STATUSES)"

definition count_text :: "pystr \<times> nat \<Rightarrow> pystr" where
  "count_text p = fst p @ lit ''='' @ decimal (snd p)"

definition summary_head :: "pod_health \<Rightarrow> pystr list" where
  "summary_head a =
     (let cs = join_str (lit '', '') (map count_text (sort (status_counts a))) in
     [lit ''Complete health scan; compact evidence view.'',
      lit ''scan_coverage: complete'',
      lit ''total_rows: '' @ decimal (total_rows a),
      lit ''status_counts: '' @ (if cs = [] then lit ''none'' else cs),
      lit ''health_predicates: '' @ join_str (lit '', '') (map (\<lambda>s. count_text (s, count_of (status_counts a) s)) POD_HEALTH_STATUSES),
      lit ''anomalous_rows_total: '' @ decimal (total_anomalies a),
      lit ''routine_rows_omitted: '' @ decimal (total_rows a - total_anomalies a),
      lit ''anomalous_rows:''])"

definition join_lines :: "pystr list \<Rightarrow> pystr" where
  "join_lines = join_str (lit [CHR 0x0A])"

definition bullet :: "pystr \<Rightarrow> pystr" where
  "bullet row = lit ''- '' @ row"

fun show_rows :: "projection_limits \<Rightarrow> pystr list \<Rightarrow> pystr list \<Rightarrow> nat \<Rightarrow> pystr list \<times> nat" where
  "show_rows L ls [] shown = (ls, shown)"
| "show_rows L ls (row # rows) shown =
     (if \<not> summary_fits (join_lines (ls @ [bullet row, []])) L then (ls, shown)
      else show_rows L (ls @ [bullet row]) rows (shown + 1))"

definition summary_text :: "pod_health \<Rightarrow> projection_limits \<Rightarrow> pystr \<times> nat" where
  "summary_text a L =
     (let (ls, shown) = show_rows L (summary_head a) (anomalous_rows a) 0;
          ls = ls @ [lit ''anomalous_rows_shown: '' @ decimal shown] @
            (if rows_dropped a \<noteq> 0 then [lit ''anomalous_rows_not_buffered: '' @ decimal (rows_dropped a)] else []) @
            (if rows_clipped a \<noteq> 0 then [lit ''anomalous_rows_clipped: '' @ decimal (rows_clipped a)] else [])
      in (join_lines ls @ lit [CHR 0x0A], shown))"

section \<open>Projection\<close>

definition projection_call :: "value_arg list \<Rightarrow> (pystr \<times> value_arg list) list option \<Rightarrow> projection_limits \<Rightarrow> projection_args" where
  "projection_call exact_values rules L = default_args\<lparr>arg_exact_values := exact_values, arg_redaction_rules := rules, arg_limits := Some L\<rparr>"

definition decision_complete :: "pod_health \<Rightarrow> nat \<Rightarrow> bool \<Rightarrow> bool" where
  "decision_complete a shown lossy \<longleftrightarrow> \<not> lossy \<and> shown = total_anomalies a \<and> rows_dropped a = 0 \<and> rows_clipped a = 0"

definition counts_json :: "(pystr \<times> nat) list \<Rightarrow> json" where
  "counts_json cs = JObj (map (\<lambda>(s, n). (s, JInt (int n))) cs)"

definition pod_annotations :: "pod_health \<Rightarrow> nat \<Rightarrow> bool \<Rightarrow> jdict" where
  "pod_annotations a shown lossy =
     [(lit ''presentation'', JStr (if decision_complete a shown lossy then lit ''semantic-complete'' else lit ''semantic-bounded'')),
      (lit ''semantic_adapter'', JStr POD_HEALTH_ADAPTER),
      (lit ''scan_coverage'', JStr (lit ''complete'')),
      (lit ''decision_complete'', JBool (decision_complete a shown lossy)),
      (lit ''total_rows'', JInt (int (total_rows a))),
      (lit ''status_counts'', counts_json (sort (status_counts a))),
      (lit ''health_predicates'', counts_json (map (\<lambda>s. (s, count_of (status_counts a) s)) POD_HEALTH_STATUSES)),
      (lit ''anomalous_rows_total'', JInt (int (total_anomalies a))),
      (lit ''anomalous_rows_shown'', JInt (int shown)),
      (lit ''routine_rows_omitted'', JInt (int (total_rows a - total_anomalies a))),
      (lit ''anomalous_rows_clipped'', JInt (int (rows_clipped a)))]"

text \<open>A projection with its annotations; \<open>None\<close> in place of the pair when the table was not recognized.\<close>

type_synonym annotated = "projection_result \<times> jdict option"

definition project_pod_health ::
  "chunk_arg list \<Rightarrow> projection_limits \<Rightarrow> value_arg list \<Rightarrow> (pystr \<times> value_arg list) list option \<Rightarrow> annotated option result" where
  "project_pod_health chunks L exact_values rules =
     bind_r (scan_table chunks) (\<lambda>r. case r of
       None \<Rightarrow> Inr None
     | Some a \<Rightarrow>
         (let (t, shown) = summary_text a L in
          bind_r (project_bytes [BytesChunk (utf8_encode t)] (projection_call exact_values rules L)) (\<lambda>projected.
            Inr (Some (projected, Some (pod_annotations a shown (pr_lossy projected)))))))"

definition IDENTITY_FLAGS :: "pystr list" where
  "IDENTITY_FLAGS = [lit ''--kubeconfig'', lit ''--context'', lit ''--cluster'', lit ''--user'', lit ''--server'', lit ''--token'',
     lit ''--certificate-authority'', lit ''--client-certificate'', lit ''--client-key'', lit ''--tls-server-name'']"

fun drop_identity :: "pystr list \<Rightarrow> pystr list" where
  "drop_identity [] = []"
| "drop_identity (t # ts) = (if t \<in> set IDENTITY_FLAGS then drop_identity (drop 1 ts) else t # drop_identity ts)"

definition path_name :: "pystr \<Rightarrow> pystr" where
  "path_name s = (if path_parts s = [] then [] else last (path_parts s))"

definition detect_semantic_adapter :: "pystr list \<Rightarrow> pystr option" where
  "detect_semantic_adapter argv =
     (if argv = [] then None
      else
        let tokens = (if casefold (path_name (hd argv)) = lit ''kubectl'' then tl argv else argv);
            logical = drop_identity tokens in
        if logical = [] \<or> casefold (hd logical) \<noteq> lit ''get'' then None
        else
          let positionals = filter (\<lambda>t. \<not> prefix (lit ''-'') t) (tl logical);
              all_namespaces = lit ''-A'' \<in> set logical \<or> lit ''--all-namespaces'' \<in> set logical in
          if all_namespaces \<and> positionals \<noteq> [] \<and> casefold (hd positionals) \<in> {lit ''pod'', lit ''pods''}
          then Some POD_HEALTH_ADAPTER else None)"


section \<open>The scan depends on the bytes only\<close>

lemma scan_bytes_append:
  "scan_bytes acc skipping (xs @ ys) =
     (let (l1, acc1, s1) = scan_bytes acc skipping xs; (l2, r) = scan_bytes acc1 s1 ys in (l1 @ l2, r))"
  by (induction acc skipping xs rule: scan_bytes.induct) (auto simp: Let_def split: prod.splits)

lemma line_bytes_from_concat:
  "line_bytes_from acc skipping (map BytesChunk cs) =
     (let (ls, acc, skipping) = scan_bytes acc skipping (concat cs) in ls @ line_bytes_from acc skipping [])"
proof (induction cs arbitrary: acc skipping)
  case (Cons c cs)
  show ?case by (auto simp: Cons.IH scan_bytes_append Let_def split: prod.splits simp del: line_bytes_from.simps(1))
qed (simp add: Let_def)

lemma line_bytes_concat: "line_bytes (map BytesChunk cs) = line_bytes [BytesChunk (concat cs)]"
  using line_bytes_from_concat [of "[]" False cs] line_bytes_from_concat [of "[]" False "[concat cs]"] by (simp add: line_bytes_def)

section \<open>Counting\<close>

lemma tally_keys: "distinct (map fst cs) \<Longrightarrow> distinct (map fst (tally s cs))"
  by (simp add: tally_def Let_def distinct_update)

lemma count_of_update: "count_of (AList.update k n cs) s = (if s = k then n else count_of cs s)"
  by (simp add: count_of_def update_conv')

text \<open>While there are at most 128 different statuses every one is counted under its own name.\<close>

lemma tally_exact:
  assumes "distinct (map fst cs)" "set (map fst cs) \<subseteq> S" "finite S" "card S \<le> 128" "s \<in> S"
  shows "count_of (tally s cs) k = count_of cs k + (if k = s then 1 else 0)" "set (map fst (tally s cs)) \<subseteq> S"
proof -
  have "length cs < 128" if "s \<notin> set (map fst cs)"
  proof -
    have "set (map fst cs) \<subset> S" using that assms(2,5) by blast
    then have "card (set (map fst cs)) < card S" using assms(3) by (rule psubset_card_mono [rotated])
    then show ?thesis using distinct_card [OF assms(1)] assms(4) by simp
  qed
  then have t: "tally s cs = AList.update s (count_of cs s + 1) cs" by (auto simp: tally_def Let_def simp del: set_map)
  show "count_of (tally s cs) k = count_of cs k + (if k = s then 1 else 0)" by (simp add: t count_of_update)
  show "set (map fst (tally s cs)) \<subseteq> S" using assms(2,5) set_map dom_update [of s "count_of cs s + 1" cs]
    by (auto simp: t)
qed

section \<open>The rows of the table\<close>

definition content_lines :: "line_event list \<Rightarrow> pystr list" where
  "content_lines es = filter (\<lambda>l. l \<noteq> []) (map (\<lambda>e. case e of Line raw \<Rightarrow> strip (utf8_decode raw) | _ \<Rightarrow> []) es)"

lemma content_lines_Cons:
  "content_lines (Line raw # es) = (if strip (utf8_decode raw) = [] then content_lines es else strip (utf8_decode raw) # content_lines es)"
  "content_lines (Overlong # es) = content_lines es" "content_lines [] = []"
  by (simp_all add: content_lines_def)

definition table_rows :: "chunk_arg list \<Rightarrow> pystr list list" where
  "table_rows chunks = (case content_lines (line_bytes chunks) of
     [] \<Rightarrow> []
   | header # ls \<Rightarrow> if prefix (lit ''no resources found'') (casefold header) then [] else map split_words ls)"

definition is_anomalous :: "pystr list \<Rightarrow> bool" where
  "is_anomalous row \<longleftrightarrow> row_status row \<in> set POD_HEALTH_STATUSES"

definition add_rows :: "pod_health \<Rightarrow> pystr list \<Rightarrow> pod_health" where
  "add_rows = foldl (\<lambda>a l. add_row l a)"

lemma add_row_failed: "parse_failed a \<Longrightarrow> parse_failed (add_row l a)"
  by (simp add: add_row_def buffer_row_def Let_def)

lemma add_row_header [simp]: "header_seen (add_row l a) = header_seen a"
  by (simp add: add_row_def buffer_row_def Let_def)

lemma add_rows_failed: "parse_failed a \<Longrightarrow> parse_failed (add_rows a ls)"
  unfolding add_rows_def by (induction ls arbitrary: a) (auto simp: add_row_failed)

lemma scan_pods_failed: "scan_pods es seen a = Inr (Some b) \<Longrightarrow> parse_failed a \<Longrightarrow> parse_failed b"
proof (induction es seen a rule: scan_pods.induct)
  case (4 raw es seen a)
  then show ?case by (cases "scan_line seen a raw") (auto simp: scan_line_def Let_def add_row_failed split: if_splits)
qed auto

lemma scan_pods_rows:
  "scan_pods es True a = Inr (Some b) \<Longrightarrow> header_seen a \<Longrightarrow> \<not> parse_failed b \<Longrightarrow> b = add_rows a (content_lines es)"
proof (induction es "True" a rule: scan_pods.induct)
  case (3 es a)
  then show ?case using scan_pods_failed [OF 3(2) [unfolded scan_pods.simps]] by simp
next
  case (4 raw es a)
  show ?case
  proof (cases "strip (utf8_decode raw) = []")
    case True
    then show ?thesis using 4 by (simp add: scan_line_def content_lines_Cons)
  next
    case False
    let ?l = "strip (utf8_decode raw)"
    have s: "scan_line True a raw = Continue True (add_row ?l a)" using False 4(3) by (simp add: scan_line_def)
    then show ?thesis using 4(1) [OF s] 4(2-4) False by (simp add: content_lines_Cons add_rows_def)
  qed
qed (simp_all add: content_lines_Cons add_rows_def)

lemma scan_pods_table:
  "scan_pods es False a = Inr (Some b) \<Longrightarrow> \<not> parse_failed b \<Longrightarrow> header_seen b \<Longrightarrow> \<not> header_seen a \<Longrightarrow>
     \<exists>h ls. content_lines es = h # ls \<and>
       b = add_rows (a\<lparr>header_seen := True\<rparr>) (if prefix (lit ''no resources found'') (casefold h) then [] else ls)"
proof (induction es "False" a rule: scan_pods.induct)
  case (3 es a)
  then show ?case using scan_pods_failed [OF 3(2) [unfolded scan_pods.simps]] by simp
next
  case (4 raw es a)
  show ?case
  proof (cases "strip (utf8_decode raw) = []")
    case True
    then show ?thesis using 4 by (simp add: scan_line_def content_lines_Cons)
  next
    case False
    show ?thesis
    proof (cases "prefix (lit ''no resources found'') (casefold (strip (utf8_decode raw)))")
      case True
      then show ?thesis using 4 False by (auto simp: scan_line_def content_lines_Cons add_rows_def simp del: lit_simps)
    next
      case nr: False
      with False have s: "scan_line False a raw \<noteq> NotTable \<Longrightarrow> scan_line False a raw = Continue True (a\<lparr>header_seen := True\<rparr>)"
        by (simp add: scan_line_def Let_def del: lit_simps split: if_splits)
      then have "scan_line False a raw = Continue True (a\<lparr>header_seen := True\<rparr>)" using 4(2) by force
      then show ?thesis using 4(2,3) scan_pods_rows [of es "a\<lparr>header_seen := True\<rparr>" b] False nr
        by (simp add: content_lines_Cons del: lit_simps)
    qed
  qed
qed auto


lemma scan_table_rows:
  assumes "scan_table chunks = Inr (Some a)"
  shows "\<exists>ls. a = add_rows (pod_health_init\<lparr>header_seen := True\<rparr>) ls \<and> table_rows chunks = map split_words ls" "\<not> parse_failed a"
proof -
  from assms have s: "scan_pods (line_bytes chunks) False pod_health_init = Inr (Some a)" "header_seen a" "\<not> parse_failed a"
    by (auto simp: scan_table_def bind_r_Inr_iff split: option.splits if_splits)
  from scan_pods_table [OF s(1,3,2)] obtain h ls where h: "content_lines (line_bytes chunks) = h # ls"
    "a = add_rows (pod_health_init\<lparr>header_seen := True\<rparr>) (if prefix (lit ''no resources found'') (casefold h) then [] else ls)"
    by (auto simp: pod_health_init_def)
  then show "\<exists>ls. a = add_rows (pod_health_init\<lparr>header_seen := True\<rparr>) ls \<and> table_rows chunks = map split_words ls"
    by (intro exI [of _ "if prefix (lit ''no resources found'') (casefold h) then [] else ls"]) (simp add: table_rows_def del: lit_simps)
  show "\<not> parse_failed a" by (rule s(3))
qed

lemma add_row_step:
  assumes "\<not> parse_failed (add_row l a)"
  shows "4 \<le> length (split_words l)" "total_rows (add_row l a) = Suc (total_rows a)"
    "status_counts (add_row l a) = tally (row_status (split_words l)) (status_counts a)"
    "rows_dropped (add_row l a) = 0 \<Longrightarrow> rows_clipped (add_row l a) = 0 \<Longrightarrow> rows_dropped a = 0 \<and> rows_clipped a = 0 \<and>
       anomalous_rows (add_row l a) = anomalous_rows a @ (if is_anomalous (split_words l) then [row_text (split_words l)] else [])"
  using assms by (auto simp: add_row_def buffer_row_def is_anomalous_def Let_def split: if_splits)

text \<open>What adding rows establishes, as long as none is malformed.\<close>

lemma add_rows_totals:
  "\<not> parse_failed (add_rows a ls) \<Longrightarrow>
     list_all (\<lambda>r. 4 \<le> length r) (map split_words ls) \<and> total_rows (add_rows a ls) = total_rows a + length ls \<and>
     status_counts (add_rows a ls) = foldl (\<lambda>cs s. tally s cs) (status_counts a) (map row_status (map split_words ls)) \<and>
     (rows_dropped (add_rows a ls) = 0 \<and> rows_clipped (add_rows a ls) = 0 \<longrightarrow> rows_dropped a = 0 \<and> rows_clipped a = 0 \<and>
       anomalous_rows (add_rows a ls) = anomalous_rows a @ map row_text (filter is_anomalous (map split_words ls)))"
proof (induction ls arbitrary: a)
  case (Cons l ls)
  have step: "add_rows a (l # ls) = add_rows (add_row l a) ls" by (simp add: add_rows_def)
  have nf: "\<not> parse_failed (add_row l a)" using Cons.prems add_rows_failed by (auto simp: step)
  show ?case using Cons.IH [of "add_row l a"] Cons.prems add_row_step [OF nf] by (auto simp: step)
qed (simp add: add_rows_def)

lemma tallies_exact:
  "distinct (map fst cs) \<Longrightarrow> set (map fst cs) \<union> set ss \<subseteq> S \<Longrightarrow> finite S \<Longrightarrow> card S \<le> 128 \<Longrightarrow>
     count_of (foldl (\<lambda>cs s. tally s cs) cs ss) k = count_of cs k + count_list ss k"
proof (induction ss arbitrary: cs)
  case (Cons s ss)
  have S: "set (map fst cs) \<subseteq> S" "s \<in> S" using Cons.prems(2) by auto
  note t = tally_exact [OF Cons.prems(1) S(1) Cons.prems(3,4) S(2)]
  have "count_of (foldl (\<lambda>cs s. tally s cs) (tally s cs) ss) k = count_of (tally s cs) k + count_list ss k"
    using Cons.prems t(2) by (intro Cons.IH tally_keys) auto
  then show ?case by (simp add: t(1))
qed simp

lemma table_counts:
  assumes "scan_table chunks = Inr (Some a)" "card (set (map row_status (table_rows chunks))) \<le> 128"
  shows "total_rows a = length (table_rows chunks)"
    "count_of (status_counts a) s = count_list (map row_status (table_rows chunks)) s"
    "rows_dropped a = 0 \<Longrightarrow> rows_clipped a = 0 \<Longrightarrow> anomalous_rows a = map row_text (filter is_anomalous (table_rows chunks))"
proof -
  from scan_table_rows [OF assms(1)] obtain ls where ls: "a = add_rows (pod_health_init\<lparr>header_seen := True\<rparr>) ls"
    "table_rows chunks = map split_words ls" "\<not> parse_failed a" by blast
  note t = add_rows_totals [of "pod_health_init\<lparr>header_seen := True\<rparr>" ls, folded ls(1), OF ls(3)]
  show "total_rows a = length (table_rows chunks)" using t ls(2) by (simp add: pod_health_init_def)
  show "count_of (status_counts a) s = count_list (map row_status (table_rows chunks)) s"
    using t tallies_exact [of "[]" "map row_status (table_rows chunks)" "set (map row_status (table_rows chunks))" s] assms(2)
    by (simp add: pod_health_init_def ls(2) count_of_def)
  show "rows_dropped a = 0 \<Longrightarrow> rows_clipped a = 0 \<Longrightarrow> anomalous_rows a = map row_text (filter is_anomalous (table_rows chunks))"
    using t ls(2) by (simp add: pod_health_init_def)
qed

lemma count_list_in: "distinct ks \<Longrightarrow> sum_list (map (count_list xs) ks) = length (filter (\<lambda>x. x \<in> set ks) xs)"
proof (induction xs)
  case (Cons x xs)
  have "sum_list (map (\<lambda>k. if x = k then count_list xs k + 1 else count_list xs k) ks) =
      sum_list (map (count_list xs) ks) + (if x \<in> set ks then 1 else 0)"
    using Cons.prems by (induction ks) auto
  then show ?case using Cons by simp
qed (simp add: sum_list_triv map_replicate_const flip: replicate_length_same)

lemma anomalies_counted:
  assumes "scan_table chunks = Inr (Some a)" "card (set (map row_status (table_rows chunks))) \<le> 128"
  shows "total_anomalies a = length (filter is_anomalous (table_rows chunks))"
proof -
  have "distinct POD_HEALTH_STATUSES" by (simp add: POD_HEALTH_STATUSES_def lit_eq_iff del: lit_simps)
  moreover have "count_of (status_counts a) = count_list (map row_status (table_rows chunks))" using table_counts(2) [OF assms] by auto
  moreover have "is_anomalous = (\<lambda>r. row_status r \<in> set POD_HEALTH_STATUSES)" by (auto simp: is_anomalous_def)
  ultimately show ?thesis
    using count_list_in [of POD_HEALTH_STATUSES "map row_status (table_rows chunks)"] by (simp add: total_anomalies_def filter_map comp_def)
qed

section \<open>The summary shows what it says\<close>

lemma show_rows_prefix:
  "show_rows L ls rows n = (ls', m) \<Longrightarrow> \<exists>k \<le> length rows. m = n + k \<and> ls' = ls @ map bullet (take k rows)"
proof (induction L ls rows n rule: show_rows.induct)
  case (2 L ls row rows shown)
  show ?case
  proof (cases "summary_fits (join_lines (ls @ [bullet row, []])) L")
    case True
    with 2 obtain k where "k \<le> length rows" "m = shown + 1 + k" "ls' = (ls @ [bullet row]) @ map bullet (take k rows)" by auto
    then show ?thesis by (intro exI [of _ "Suc k"]) simp
  next
    case False
    then show ?thesis using 2(2) by (intro exI [of _ 0]) simp
  qed
qed simp

lemma join_str_member: "t \<in> set ts \<Longrightarrow> sublist t (join_str sep ts)"
proof (induction sep ts rule: join_str.induct)
  case (3 sep t' u ts)
  show ?case
  proof (cases "t \<in> set (u # ts)")
    case True
    then obtain ps qs where "join_str sep (u # ts) = ps @ t @ qs" using 3(1) by (auto simp: sublist_def)
    then have "join_str sep (t' # u # ts) = (t' @ sep @ ps) @ t @ qs" by simp
    then show ?thesis unfolding sublist_def by blast
  next
    case False
    then show ?thesis using 3(2) by (auto intro: sublist_append_rightI)
  qed
qed auto


lemma utf8_encode_sublist: "sublist s t \<Longrightarrow> sublist (utf8_encode s) (utf8_encode t)"
  by (auto simp: sublist_def) (metis utf8_encode_simps(3))

lemma lossless_output:
  assumes "project_bytes [BytesChunk b] (projection_call vals rules L) = Inr res" "limits_ok L" "\<not> pr_lossy res"
  shows "pr_output res = b"
proof -
  from assms(1) obtain L' r where L: "resolve_limits (projection_call vals rules L) = Inr L'" "build_redactor (projection_call vals rules L) = Inr r"
    "res = project_whole L' r b" by (rule project_bytes_whole) simp
  have "limits_ok L'" using L(1) assms(2) by (simp add: resolve_limits_def projection_call_def default_args_def)
  then show ?thesis using build_redactor_ok [OF L(2)] assms(3) unfolding L(3) by (intro project_whole_exact) auto
qed

text \<open>
  The table as its header lays it out: the first content line names the columns, and the status of a row
  stands in the column headed \<open>STATUS\<close>.
\<close>

definition table_header :: "chunk_arg list \<Rightarrow> pystr list" where
  "table_header chunks = (case content_lines (line_bytes chunks) of [] \<Rightarrow> [] | header # ls \<Rightarrow> split_words header)"

definition status_column :: "pystr list \<Rightarrow> nat" where
  "status_column header = length (takeWhile (\<lambda>w. casefold w \<noteq> lit ''status'') header)"

definition unhealthy :: "nat \<Rightarrow> pystr list \<Rightarrow> bool" where
  "unhealthy column row \<longleftrightarrow>
     row ! column \<in> {lit ''Error'', lit ''OOMKilled'', lit ''Pending'', lit ''CrashLoopBackOff'', lit ''ImagePullBackOff''}"

definition evidence_line :: "nat \<Rightarrow> pystr list \<Rightarrow> pystr" where
  "evidence_line column row = lit ''- '' @ take 128 (row ! 0) @ lit ''/'' @ take 256 (row ! 1) @ lit '' status='' @ row ! column @
     lit '' ready='' @ take 64 (row ! 2)"

lemma take_short: "length s < n \<Longrightarrow> take n x = s \<longleftrightarrow> x = s"
  by (cases "n \<le> length x") auto

lemma anomalous_unhealthy: "is_anomalous = unhealthy 3"
proof
  fix row
  have "take 128 (row ! 3) \<in> {lit ''Error'', lit ''OOMKilled'', lit ''Pending'', lit ''CrashLoopBackOff'', lit ''ImagePullBackOff''} \<longleftrightarrow> unhealthy 3 row"
    unfolding unhealthy_def by (simp add: take_short lit_def del: lit_simps)
  then show "is_anomalous row = unhealthy 3 row" by (simp add: is_anomalous_def row_status_def POD_HEALTH_STATUSES_def del: lit_simps)
qed

lemma unhealthy_line:
  assumes "unhealthy 3 row" shows "bullet (row_text row) = evidence_line 3 row"
proof -
  have "length (row ! 3) \<le> 128" using assms unfolding unhealthy_def by (auto simp: lit_def simp del: lit_simps)
  then show ?thesis by (simp add: bullet_def row_text_def row_status_def evidence_line_def del: lit_simps)
qed

lemma few_statuses:
  assumes "card ((\<lambda>row. row ! 3) ` set rows) \<le> 128" shows "card (set (map row_status rows)) \<le> 128"
proof -
  have "set (map row_status rows) = take 128 ` (\<lambda>row. row ! 3) ` set rows" by (auto simp: row_status_def)
  then show ?thesis using assms card_image_le [of "(\<lambda>row. row ! 3) ` set rows" "take 128"] by simp
qed

text \<open>
  C26.  A pod-health summary marked decision-complete is the whole table.  For a listing in which the header
  names \<open>STATUS\<close> as the fourth column (as a namespace column makes it), with at most 128 different statuses:
  the reported totals are the number of rows and the number of rows whose cell under \<open>STATUS\<close> is one of
  the five health predicates, and each such row is shown with its namespace, name, status and
  readiness, however the listing was cut into chunks.
\<close>

theorem pod_health_complete:
  fixes cs
  defines "rows \<equiv> table_rows [BytesChunk (concat cs)]"
  defines "column \<equiv> status_column (table_header [BytesChunk (concat cs)])"
  assumes p: "project_pod_health (map BytesChunk cs) L vals rules = Inr (Some (res, Some ann))"
    and d: "map_of ann (lit ''decision_complete'') = Some (JBool True)"
    and L: "limits_ok L" and layout: "rows = [] \<or> column = 3" and few: "card ((\<lambda>row. row ! column) ` set rows) \<le> 128"
  shows "map_of ann (lit ''total_rows'') = Some (JInt (int (length rows))) \<and>
    map_of ann (lit ''anomalous_rows_total'') = Some (JInt (int (length (filter (unhealthy column) rows)))) \<and>
    list_all (\<lambda>row. unhealthy column row \<longrightarrow> sublist (utf8_encode (evidence_line column row)) (pr_output res)) rows"
proof -
  have same: "table_rows (map BytesChunk cs) = table_rows [BytesChunk (concat cs)]" by (simp add: table_rows_def line_bytes_concat)
  from p obtain a where a: "scan_table (map BytesChunk cs) = Inr (Some a)"
    "project_bytes [BytesChunk (utf8_encode (fst (summary_text a L)))] (projection_call vals rules L) = Inr res"
    "ann = pod_annotations a (snd (summary_text a L)) (pr_lossy res)"
    by (auto simp: project_pod_health_def bind_r_Inr_iff Let_def case_prod_beta split: option.splits)
  have dc: "\<not> pr_lossy res" "snd (summary_text a L) = total_anomalies a" "rows_dropped a = 0" "rows_clipped a = 0"
    using d by (simp_all add: a(3) pod_annotations_def decision_complete_def lit_eq_iff del: lit_simps)
  let ?rows = "table_rows [BytesChunk (concat cs)]"
  have few': "card (set (map row_status ?rows)) \<le> 128" using few layout few_statuses unfolding rows_def by (cases "?rows = []") auto
  note t = table_counts [OF a(1), unfolded same, OF few'] and an = anomalies_counted [OF a(1), unfolded same, OF few']
  have out: "pr_output res = utf8_encode (fst (summary_text a L))" by (rule lossless_output [OF a(2) L dc(1)])
  obtain ls shown where sr: "show_rows L (summary_head a) (anomalous_rows a) 0 = (ls, shown)" by (rule prod.exhaust)
  have "snd (summary_text a L) = shown" by (simp add: summary_text_def sr Let_def)
  then have "shown = length (anomalous_rows a)" unfolding dc(2) an t(3) [OF dc(3,4)] by simp
  then have ls: "ls = summary_head a @ map bullet (anomalous_rows a)" using show_rows_prefix [OF sr] by auto
  have "sublist (utf8_encode (bullet (row_text row))) (pr_output res)" if "row \<in> set ?rows" "is_anomalous row" for row
  proof -
    have "bullet (row_text row) \<in> set ls" using that t(3) dc(3,4) by (simp add: ls)
    then have "sublist (bullet (row_text row)) (fst (summary_text a L))"
      by (auto simp: summary_text_def sr Let_def join_lines_def intro!: sublist_order.order_trans [OF join_str_member sublist_append_rightI])
    then show ?thesis unfolding out by (rule utf8_encode_sublist)
  qed
  then have shown: "list_all (\<lambda>row. unhealthy 3 row \<longrightarrow> sublist (utf8_encode (evidence_line 3 row)) (pr_output res)) ?rows"
    using unhealthy_line by (simp add: list_all_iff anomalous_unhealthy)
  have "map_of ann (lit ''total_rows'') = Some (JInt (int (length ?rows)))"
    "map_of ann (lit ''anomalous_rows_total'') = Some (JInt (int (length (filter (unhealthy 3) ?rows))))"
    using t(1) an by (simp_all add: a(3) pod_annotations_def lit_eq_iff anomalous_unhealthy del: lit_simps)
  with shown show ?thesis using layout unfolding rows_def by (cases "?rows = []") simp_all
qed


section \<open>Examples\<close>

definition example_listing :: bytes where
  "example_listing = ''NAMESPACE NAME READY STATUS AGE'' @ [CHR 0x0A] @ ''a web 0/1 Pending 5m'' @ [CHR 0x0A] @
     concat (replicate 10 (''b d 1 R'' @ [CHR 0x0A]))"

definition found :: "'a option result \<Rightarrow> 'a list" where
  "found r = (case r of Inr (Some x) \<Rightarrow> [x] | _ \<Rightarrow> [])"

definition example_pods :: pod_health where
  "example_pods = hd (found (scan_table [BytesChunk example_listing]))"

lemma example_scan: "scan_table [BytesChunk example_listing] = Inr (Some example_pods)" by code_simp

definition example_summary :: "pystr list" where
  "example_summary = summary_head example_pods @ [bullet (lit ''a/web status=Pending ready=0/1''), lit ''anomalous_rows_shown: 1'']"

lemma example_summary_text: "summary_text example_pods default_limits = (terminated example_summary, 1)" by code_simp

lemma example_summary_tidy:
  "list_all (\<lambda>l. list_all plain_char l \<and> text_bytes l \<le> representative_budget default_limits) example_summary"
  "successively (\<lambda>k l. text_bytes k \<noteq> text_bytes l) example_summary" "fits (terminated example_summary) default_limits"
  by code_simp+

lemma example_decision: "decision_complete example_pods 1 False" by code_simp

lemma example_layout: "status_column (table_header [BytesChunk example_listing]) = 3" by code_simp

lemma example_few: "card ((\<lambda>row. row ! 3) ` set (table_rows [BytesChunk example_listing])) \<le> 128" by code_simp

theorem pod_health_complete_witness:
  "\<exists>res ann. project_pod_health [BytesChunk example_listing] default_limits [] None = Inr (Some (res, Some ann)) \<and>
     map_of ann (lit ''total_rows'') = Some (JInt (int (length (table_rows [BytesChunk example_listing])))) \<and>
     list_all (\<lambda>row. \<not> unhealthy 3 row \<or> sublist (utf8_encode (evidence_line 3 row)) (pr_output res)) (table_rows [BytesChunk example_listing])"
proof -
  let ?a = "projection_call [] None default_limits"
  have a: "resolve_limits ?a = Inr default_limits" "build_redactor ?a = build_redactor default_args"
    by (simp_all add: projection_call_def resolve_limits_def build_redactor_def resolve_values_def default_args_def)
  have L: "limits_ok default_limits" by code_simp
  from untreated_projection [OF a(1) L a(2) [unfolded default_setup(3)] tidy_by_length [OF example_summary_tidy(1,2)] example_summary_tidy(3),
      of "[utf8_encode (terminated example_summary)]"]
  obtain res where res: "project_bytes [BytesChunk (utf8_encode (terminated example_summary))] ?a = Inr res" "\<not> pr_lossy res" by auto
  let ?ann = "pod_annotations example_pods 1 False"
  have p: "project_pod_health (map BytesChunk [example_listing]) default_limits [] None = Inr (Some (res, Some ?ann))"
    by (simp add: project_pod_health_def example_scan example_summary_text res)
  have d: "map_of ?ann (lit ''decision_complete'') = Some (JBool True)"
    using example_decision by (simp add: pod_annotations_def lit_eq_iff del: lit_simps)
  show ?thesis using pod_health_complete [OF p d L] example_layout example_few p
    by (auto simp: list_all_iff simp del: lit_simps)
qed

section \<open>A table read one column off\<close>

text \<open>
  \<open>kubectl get pods\<close> without the namespace column: the header starts with \<open>NAME\<close> and is accepted, but the status is
  taken from the fourth column, which is the number of restarts.  A crashing pod is counted as routine.
\<close>

definition name_listing :: bytes where
  "name_listing = ''NAME READY STATUS RESTARTS AGE'' @ [CHR 0x0A] @ ''web 0/1 CrashLoopBackOff 9 5m'' @ [CHR 0x0A]"

theorem pod_health_name_header:
  "(case scan_table [BytesChunk name_listing] of
      Inr (Some a) \<Rightarrow> total_rows a = 1 \<and> total_anomalies a = 0 \<and> decision_complete a 0 False
    | _ \<Rightarrow> False)"
  by code_simp

end
