(* ===== verification/Envelope.thy ===== *)
theory Envelope
  imports Models Semantic
begin

text \<open>
  \<open>envelope.py\<close>: the result envelope, an instance of \<open>CommandResultEnvelope\<close> built from a finished capture, a
  projection with its annotations and the caller's invocation.  The manifest is read from the spool tree.
\<close>

section \<open>Building the envelope\<close>

definition mstr :: "pystr \<Rightarrow> mval" where "mstr s = MData (JStr s)"
definition mint :: "int \<Rightarrow> mval" where "mint i = MData (JInt i)"
definition mbool :: "bool \<Rightarrow> mval" where "mbool b = MData (JBool b)"
definition mopt :: "int option \<Rightarrow> mval" where "mopt i = MData (jopt_int i)"

definition envelope_status :: "capture_status \<Rightarrow> pystr" where
  "envelope_status s = (case s of COMPLETE \<Rightarrow> lit ''COMPLETE'' | TRUNCATED \<Rightarrow> lit ''CAPTURE_TRUNCATED'' | CAPTURE_FAILED \<Rightarrow> lit ''CAPTURE_FAILED'')"

definition RETRIEVAL_CAPABILITIES :: "pystr list" where
  "RETRIEVAL_CAPABILITIES = [lit ''inspect'', lit ''slice'', lit ''tail'', lit ''search'', lit ''verify'']"

definition manifest_sha256 :: "node option \<Rightarrow> capture_result \<Rightarrow> pystr result" where
  "manifest_sha256 spool capture = (case file_sha256 (entry_at spool (res_path capture @ [lit ''manifest.json''])) of
     Some d \<Rightarrow> Inr d | None \<Rightarrow> Inl OSError)"

record envelope_args =
  ea_policy_ref :: pystr
  ea_policy_digest :: pystr
  ea_mode :: pystr
  ea_bindings :: "(pystr \<times> pystr option) list"
  ea_projection_id :: "pystr option"
  ea_capture_ref :: "pystr option"
  ea_source_path :: "pystr option"
  ea_deduplicated :: bool
  ea_replicas :: "jdict list"
  ea_spool_path :: pystr

definition default_envelope_args :: "pystr \<Rightarrow> pystr \<Rightarrow> pystr \<Rightarrow> envelope_args" where
  "default_envelope_args ref digest spool_path = \<lparr>ea_policy_ref = ref, ea_policy_digest = digest, ea_mode = lit ''auto'', ea_bindings = [],
     ea_projection_id = None, ea_capture_ref = None, ea_source_path = None, ea_deduplicated = False, ea_replicas = [],
     ea_spool_path = spool_path\<rparr>"

definition capture_ref_of :: "pystr \<Rightarrow> pystr \<Rightarrow> pystr" where
  "capture_ref_of capture_id digest = lit ''outctl://capture/'' @ capture_id @ lit ''/manifest/sha256/'' @ digest"

definition non_empty :: "pystr option \<Rightarrow> pystr \<Rightarrow> pystr" where
  "non_empty s fallback = (case s of Some t \<Rightarrow> if t = [] then fallback else t | None \<Rightarrow> fallback)"

definition bindings_value :: "(pystr \<times> pystr option) list \<Rightarrow> mval" where
  "bindings_value bs = MDict (map (\<lambda>(k, v). (k, MData (case v of Some s \<Rightarrow> JStr s | None \<Rightarrow> JNull))) bs)"

definition redaction_metadata :: "redaction_rule list \<Rightarrow> json" where
  "redaction_metadata rules = JObj [(lit ''rules'', JArr (map (\<lambda>r. JObj [(lit ''id'', JStr (rule_identifier r)), (lit ''count'', JInt (int (rule_count r)))]) rules))]"

definition projection_metadata :: "annotated \<Rightarrow> jdict" where
  "projection_metadata p = foldl (\<lambda>m (k, v). AList.update k v m) [(lit ''redaction'', redaction_metadata (pr_redaction_rules (fst p)))]
     (case snd p of Some ann \<Rightarrow> ann | None \<Rightarrow> [])"

definition command_value :: "command_result \<Rightarrow> mval result" where
  "command_value c = new_instance command_result_command_class [
     (lit ''started'', mbool (cr_started c)), (lit ''exit_code'', mopt (cr_exit_code c)), (lit ''signal'', mopt (cr_signal c)),
     (lit ''timed_out'', mbool (cr_timed_out c)), (lit ''cancelled'', mbool (cr_cancelled c))]"

definition capture_value :: "capture_result \<Rightarrow> pystr \<Rightarrow> mval \<Rightarrow> pystr \<Rightarrow> mval result" where
  "capture_value capture digest host_id source_path =
     (let status = envelope_status (res_capture_status capture) in
      bind_r (new_instance command_result_capture_source_class [
          (lit ''availability'', mstr (lit ''local-only'')), (lit ''host_id'', host_id), (lit ''path'', mstr source_path)]) (\<lambda>source.
      new_instance command_result_capture_class [
        (lit ''status'', mstr status), (lit ''stdout_bytes'', mint (res_stdout_bytes capture)), (lit ''stderr_bytes'', mint (res_stderr_bytes capture)),
        (lit ''truncated'', mbool (status = lit ''CAPTURE_TRUNCATED'')), (lit ''manifest_sha256'', mstr digest),
        (lit ''stdout_sha256'', mstr (lit (res_stdout_sha256 capture))), (lit ''stderr_sha256'', mstr (lit (res_stderr_sha256 capture))),
        (lit ''event_count'', mint (int (res_event_count capture))), (lit ''source'', source)]))"

definition projection_value :: "annotated \<Rightarrow> envelope_args \<Rightarrow> mval result" where
  "projection_value p a = new_instance command_result_projection_class [
     (lit ''projection_id'', mstr (non_empty (ea_projection_id a) (lit ''sha256:'' @ lit (pr_sha256 (fst p))))),
     (lit ''policy_ref'', mstr (ea_policy_ref a)), (lit ''policy_digest'', mstr (ea_policy_digest a)), (lit ''mode'', mstr (ea_mode a)),
     (lit ''bytes'', mint (pr_bytes (fst p))), (lit ''lines'', mint (pr_lines (fst p))),
     (lit ''estimated_tokens'', mint (pr_estimated_tokens (fst p))), (lit ''lossy'', mbool (pr_lossy (fst p))),
     (lit ''normalized'', mbool (pr_normalized (fst p))), (lit ''deduplicated'', mbool (ea_deduplicated a)),
     (lit ''redacted'', mbool (pr_redacted (fst p))), (lit ''sha256'', mstr (lit (pr_sha256 (fst p)))),
     (lit ''inline_text'', mstr (pr_text (fst p))), (lit ''token_estimator'', mstr (lit ''utf8-bytes-div-4-v1'')),
     (EXTRA, MData (JObj (projection_metadata p)))]"

definition metrics_value :: "capture_result \<Rightarrow> projection_result \<Rightarrow> mval" where
  "metrics_value capture p =
     (let raw_tokens = (res_stdout_bytes capture + res_stderr_bytes capture + 3) div 4 in
      MDict [(lit ''raw_estimated_tokens'', mint raw_tokens), (lit ''exposed_estimated_tokens'', mint (pr_estimated_tokens p)),
        (lit ''estimated_tokens_avoided'', mint (max 0 (raw_tokens - pr_estimated_tokens p)))])"

definition build_result_envelope :: "node option \<Rightarrow> capture_result \<Rightarrow> annotated \<Rightarrow> mval \<Rightarrow> envelope_args \<Rightarrow> mval result" where
  "build_result_envelope spool capture projection invocation a =
     bind_r (manifest_sha256 spool capture) (\<lambda>digest.
     bind_r (command_value (res_command capture)) (\<lambda>command.
     bind_r (attribute invocation (lit ''host_id'')) (\<lambda>host_id.
     bind_r (capture_value capture digest host_id
        (case ea_source_path a of Some s \<Rightarrow> s | None \<Rightarrow> ea_spool_path a @ lit ''/'' @ join_with 47 (res_path capture))) (\<lambda>captured.
     bind_r (projection_value projection a) (\<lambda>projected.
     bind_r (new_instance command_result_retrieval_class [(lit ''available'', mbool True), (lit ''capabilities'', MList (map mstr RETRIEVAL_CAPABILITIES))]) (\<lambda>retrieval.
     new_instance command_result_envelope_class [
       (lit ''capture_ref'', mstr (non_empty (ea_capture_ref a) (capture_ref_of (res_capture_id capture) digest))),
       (lit ''capture_id'', mstr (res_capture_id capture)), (lit ''bindings'', bindings_value (ea_bindings a)),
       (lit ''invocation'', invocation), (lit ''command'', command), (lit ''capture'', captured), (lit ''projection'', projected),
       (lit ''retrieval'', retrieval), (lit ''replicas'', MList (map (\<lambda>r. MDict (map (\<lambda>(k, v). (k, MData v)) r)) (ea_replicas a))),
       (lit ''metrics'', metrics_value capture (fst projection))]))))))"

end
