(* ===== verification/Adapter.thy ===== *)
theory Adapter
  imports Envelope
begin

text \<open>
  \<open>adapter.py\<close>: the opt-in adapter that runs one command in bypass, shadow or enforce mode, and the
  retrieval bridge for its captures.  The environment variables, the clock, the working directory and the
  child process are arguments (\<open>adapter_env\<close>, with the \<open>capture_env\<close> of Capture for the process).  Shown: the
  break-glass switch and which setting decides the mode, that references issued in an envelope lead
  back to the captured bytes through the redacting bridge, and that the bridge redacts each slice for
  itself.
\<close>

section \<open>Modes\<close>

datatype adapter_mode = BYPASS | SHADOW | ENFORCE

definition adapter_mode_value :: "adapter_mode \<Rightarrow> pystr" where
  "adapter_mode_value m = (case m of BYPASS \<Rightarrow> lit ''bypass'' | SHADOW \<Rightarrow> lit ''shadow'' | ENFORCE \<Rightarrow> lit ''enforce'')"

definition mode_of_text :: "pystr \<Rightarrow> adapter_mode option" where
  "mode_of_text t = (if t = lit ''bypass'' then Some BYPASS else if t = lit ''shadow'' then Some SHADOW
     else if t = lit ''enforce'' then Some ENFORCE else None)"

datatype mode_arg = ModeArg adapter_mode | TextArg pystr

definition OUTCTL_ENABLED :: pystr where "OUTCTL_ENABLED = lit ''OUTCTL_ENABLED''"
definition OUTCTL_MODE :: pystr where "OUTCTL_MODE = lit ''OUTCTL_MODE''"

definition from_environment :: "(pystr \<times> pystr) list \<Rightarrow> mode_arg option \<Rightarrow> adapter_mode result" where
  "from_environment environ fallback =
     (let enabled = map_of environ OUTCTL_ENABLED in
      if enabled \<notin> {None, Some (lit ''0''), Some (lit ''1'')} then Inl (ValueError ''OUTCTL_ENABLED must be 0 or 1'')
      else if enabled = Some (lit ''0'') then Inr BYPASS
      else case map_of environ OUTCTL_MODE of
        None \<Rightarrow> (case fallback of
            None \<Rightarrow> Inr BYPASS
          | Some (ModeArg m) \<Rightarrow> Inr m
          | Some (TextArg t) \<Rightarrow> (case mode_of_text t of Some m \<Rightarrow> Inr m | None \<Rightarrow> Inl (ValueError ''not a valid AdapterMode'')))
      | Some t \<Rightarrow> (case mode_of_text (casefold t) of Some m \<Rightarrow> Inr m | None \<Rightarrow> Inl (ValueError ''OUTCTL_MODE must be one of'')))"

definition resolve_adapter_mode :: "mode_arg option \<Rightarrow> (pystr \<times> pystr) list \<Rightarrow> adapter_mode \<Rightarrow> adapter_mode result" where
  "resolve_adapter_mode configured environ fallback =
     bind_r (from_environment environ (Some (ModeArg fallback))) (\<lambda>environment_mode.
       if map_of environ OUTCTL_ENABLED = Some (lit ''0'') then Inr BYPASS
       else case configured of
         None \<Rightarrow> Inr environment_mode
       | Some (ModeArg m) \<Rightarrow> Inr m
       | Some (TextArg t) \<Rightarrow> (case mode_of_text (casefold t) of Some m \<Rightarrow> Inr m | None \<Rightarrow> Inl (ValueError ''configured mode must be one of'')))"

section \<open>Requests and results\<close>

record adapter_request =
  aq_mode :: adapter_mode
  aq_argv :: "pystr list"
  aq_policy_ref :: pystr
  aq_policy_digest :: pystr
  aq_host_id :: pystr
  aq_harness :: pystr
  aq_bindings :: "(pystr \<times> pystr option) list"
  aq_spool_root :: "pystr option"
  aq_cwd :: "pystr option"
  aq_max_capture_bytes :: int
  aq_limits :: projection_limits
  aq_exact_values :: "value_arg list"
  aq_rules :: "(pystr \<times> value_arg list) list option"
  aq_semantic_adapter :: "pystr option"

text \<open>\<open>__post_init__\<close>: the arguments as the caller gave them, and the request with its tuple of arguments.\<close>

definition mk_adapter_request :: "argv_arg \<Rightarrow> adapter_request \<Rightarrow> adapter_request result" where
  "mk_adapter_request argv q =
     bind_r (case argv of
        ShellString s \<Rightarrow> Inl (TypeError ''argv must be a non-empty sequence of strings'')
      | ArgvSequence args \<Rightarrow>
          if args = [] then Inl (TypeError ''argv must be a non-empty sequence of strings'')
          else mapM_r (\<lambda>a. case a of StrArgument s \<Rightarrow> Inr s | OtherArgument \<Rightarrow> Inl (TypeError ''argv must contain only strings'')) args) (\<lambda>values.
     if aq_mode q \<noteq> BYPASS \<and> aq_spool_root q = None then Inl (ValueError ''spool_root is required for shadow and enforce modes'')
     else if aq_max_capture_bytes q < 0 then Inl (ValueError ''max_capture_bytes must be non-negative'')
     else Inr (q\<lparr>aq_argv := values\<rparr>))"

record adapter_result =
  ad_mode :: adapter_mode
  ad_command :: command_result
  ad_ordinary_result :: command_result
  ad_capture :: "capture_result option"
  ad_envelope :: "mval option"
  ad_receipt :: "jdict option"

record adapter_retrieval =
  ar_capture_ref :: pystr
  ar_stream :: pystr
  ar_start :: int
  ar_end :: int
  ar_status :: retrieval_status
  ar_inline_text :: "pystr option"
  ar_projection_bytes :: int
  ar_estimated_tokens :: int
  ar_lossy :: bool
  ar_redacted :: bool
  ar_detail :: "string option"

record adapter_env =
  ae_capture :: capture_env
  ae_started_at :: pystr
  ae_ended_at :: pystr
  ae_duration_ms :: int
  ae_cwd :: pystr

section \<open>Running\<close>

definition run_bypass :: "capture_env \<Rightarrow> command_result result" where
  "run_bypass env =
     (if \<not> env_spawn_ok env then Inl OSError
      else case env_wait env of
        Exited rc \<Rightarrow> Inr (command_outcome rc False [])
      | WaitTimeout rc \<Rightarrow> Inr (command_outcome rc True [SIGKILL])
      | WaitCancelled \<Rightarrow> Inl CancelledError)"

text \<open>\<open>raw.read(64 * 1024)\<close> until the end of the file.\<close>

function file_chunks :: "bytes \<Rightarrow> bytes list" where
  "file_chunks b = (if b = [] then [] else take 65536 b # file_chunks (drop 65536 b))"
  by pat_completeness auto
termination by (relation "measure length") auto

declare file_chunks.simps [simp del]

definition capture_chunks_for_stream :: "node option \<Rightarrow> capture_result \<Rightarrow> string \<Rightarrow> bytes list result" where
  "capture_chunks_for_stream spool capture filename =
     (case entry_at spool (res_path capture @ [lit filename]) of
        Some (File m content) \<Rightarrow> Inr (file_chunks content)
      | _ \<Rightarrow> Inl OSError)"

definition capture_chunks :: "node option \<Rightarrow> capture_result \<Rightarrow> bytes list result" where
  "capture_chunks spool capture =
     bind_r (capture_chunks_for_stream spool capture ''stdout.raw'') (\<lambda>out.
     bind_r (capture_chunks_for_stream spool capture ''stderr.raw'') (\<lambda>err. Inr (out @ err)))"

definition request_args :: "adapter_request \<Rightarrow> projection_args" where
  "request_args q = projection_call (aq_exact_values q) (aq_rules q) (aq_limits q)"

text \<open>A chunk that cannot be read raises after \<open>project_bytes\<close> has checked its other arguments.\<close>

definition project_capture :: "node option \<Rightarrow> capture_result \<Rightarrow> adapter_request \<Rightarrow> annotated result" where
  "project_capture spool capture q =
     bind_r (case capture_chunks spool capture of
        Inr cs \<Rightarrow> project_bytes (map BytesChunk cs) (request_args q)
      | Inl e \<Rightarrow> bind_r (project_bytes [] (request_args q)) (\<lambda>_. Inl e)) (\<lambda>projection.
     Inr (projection, if \<not> pr_lossy projection \<and> res_stderr_bytes capture = 0
       then Some [(lit ''presentation'', JStr (lit ''exact-passthrough''))] else None))"

definition semantic_choice :: "adapter_request \<Rightarrow> pystr option" where
  "semantic_choice q = (case aq_semantic_adapter q of
     Some s \<Rightarrow> if s = [] then detect_semantic_adapter (aq_argv q) else Some s
   | None \<Rightarrow> detect_semantic_adapter (aq_argv q))"

definition choose_projection :: "node option \<Rightarrow> capture_result \<Rightarrow> adapter_request \<Rightarrow> annotated result" where
  "choose_projection spool capture q =
     bind_r (if semantic_choice q = Some (lit ''kubernetes.pod-health/v1'') \<and> SEMANTIC_FULL_IF_UNDER_BYTES < res_stdout_bytes capture
        then bind_r (capture_chunks_for_stream spool capture ''stdout.raw'') (\<lambda>cs.
          project_pod_health (map BytesChunk cs) (aq_limits q) (aq_exact_values q) (aq_rules q))
        else Inr None) (\<lambda>semantic. case semantic of Some p \<Rightarrow> Inr p | None \<Rightarrow> project_capture spool capture q)"

definition opaque_capture_source :: "pystr \<Rightarrow> pystr" where
  "opaque_capture_source capture_id = lit ''outctl://capture/'' @ capture_id"

definition invocation_value :: "adapter_request \<Rightarrow> adapter_env \<Rightarrow> mval result" where
  "invocation_value q e = new_instance command_result_invocation_class [
     (lit ''argv_display'', MList (map mstr (aq_argv q))), (lit ''shell'', mbool False),
     (lit ''cwd'', mstr (case aq_cwd q of Some d \<Rightarrow> d | None \<Rightarrow> ae_cwd e)), (lit ''host_id'', mstr (aq_host_id q)),
     (lit ''harness'', mstr (aq_harness q)), (lit ''started_at'', mstr (ae_started_at e)), (lit ''ended_at'', mstr (ae_ended_at e)),
     (lit ''duration_ms'', mint (ae_duration_ms e))]"

section \<open>The receipt\<close>

fun attribute_path :: "mval \<Rightarrow> pystr list \<Rightarrow> mval result" where
  "attribute_path m [] = Inr m"
| "attribute_path m (n # ns) = bind_r (attribute m n) (\<lambda>v. attribute_path v ns)"

definition written_attributes :: "mval \<Rightarrow> string list \<Rightarrow> (string \<times> string) list \<Rightarrow> jdict result" where
  "written_attributes m path names =
     mapM_r (\<lambda>(key, name). bind_r (attribute_path m (map lit path @ [lit name])) (\<lambda>v. Inr (lit key, to_dict v))) names"

definition extra_dict :: "mval \<Rightarrow> jdict" where
  "extra_dict v = (case to_dict v of JObj kvs \<Rightarrow> kvs | _ \<Rightarrow> [])"

definition redaction_receipt :: "mval \<Rightarrow> json result" where
  "redaction_receipt extra = (case to_dict extra of
     JObj kvs \<Rightarrow> (case map_of kvs (lit ''redaction'') of Some r \<Rightarrow> Inr r | None \<Rightarrow> Inl (KeyError (lit ''redaction'')))
   | _ \<Rightarrow> Inr (JObj [(lit ''rules'', JArr [])]))"

definition projection_receipt :: "mval \<Rightarrow> jdict result" where
  "projection_receipt envelope =
     bind_r (written_attributes envelope [''projection''] [(''id'', ''projection_id''), (''sha256'', ''sha256''), (''bytes'', ''bytes''),
       (''lines'', ''lines''), (''estimated_tokens'', ''estimated_tokens''), (''lossy'', ''lossy''), (''redacted'', ''redacted'')]) (\<lambda>p.
     bind_r (attribute_path envelope [lit ''projection'', EXTRA]) (\<lambda>extra.
     bind_r (redaction_receipt extra) (\<lambda>redaction.
     Inr (p @ [(lit ''redaction'', redaction),
       (lit ''annotations'', JObj (filter (\<lambda>(k, v). k \<noteq> lit ''redaction'') (extra_dict extra)))]))))"

definition receipt :: "adapter_request \<Rightarrow> capture_result \<Rightarrow> mval \<Rightarrow> jdict result" where
  "receipt q capture envelope =
     bind_r (written_attributes envelope [] [(''capture_ref'', ''capture_ref'')]) (\<lambda>ref.
     bind_r (written_attributes envelope [''capture''] [(''status'', ''status'')]) (\<lambda>status.
     bind_r (written_attributes envelope [''capture'', ''source''] [(''availability'', ''availability''), (''host_id'', ''host_id'')]) (\<lambda>source.
     bind_r (projection_receipt envelope) (\<lambda>projection.
     Inr ([(lit ''schema_version'', JStr (lit ''outctl.adapter.receipt/v1alpha1'')), (lit ''mode'', JStr (adapter_mode_value (aq_mode q))),
        (lit ''capture_id'', JStr (res_capture_id capture))] @ ref @
       [(lit ''bindings'', to_dict (bindings_value (aq_bindings q))),
        (lit ''policy'', JObj [(lit ''ref'', JStr (aq_policy_ref q)), (lit ''digest'', JStr (aq_policy_digest q))]),
        (lit ''command'', JObj [(lit ''started'', JBool (cr_started (res_command capture))), (lit ''exit_code'', jopt_int (cr_exit_code (res_command capture))),
           (lit ''signal'', jopt_int (cr_signal (res_command capture))), (lit ''timed_out'', JBool (cr_timed_out (res_command capture))),
           (lit ''cancelled'', JBool (cr_cancelled (res_command capture)))]),
        (lit ''capture'', JObj (status @ [(lit ''stdout_bytes'', JInt (res_stdout_bytes capture)), (lit ''stderr_bytes'', JInt (res_stderr_bytes capture))])),
        (lit ''source'', JObj source), (lit ''projection'', JObj projection)])))))"

section \<open>One adapter run\<close>

definition report :: "adapter_request \<Rightarrow> adapter_env \<Rightarrow> node option \<Rightarrow> capture_result \<Rightarrow> adapter_result result" where
  "report q e spool capture =
     bind_r (choose_projection spool capture q) (\<lambda>projection.
     bind_r (invocation_value q e) (\<lambda>invocation.
     bind_r (build_result_envelope spool capture projection invocation
        ((default_envelope_args (aq_policy_ref q) (aq_policy_digest q) [])\<lparr>ea_mode := adapter_mode_value (aq_mode q), ea_bindings := aq_bindings q,
          ea_source_path := Some (opaque_capture_source (res_capture_id capture))\<rparr>)) (\<lambda>envelope.
     bind_r (receipt q capture envelope) (\<lambda>rc.
     Inr \<lparr>ad_mode = aq_mode q, ad_command = res_command capture, ad_ordinary_result = res_command capture, ad_capture = Some capture,
          ad_envelope = Some envelope, ad_receipt = Some rc\<rparr>))))"

definition run_adapter :: "adapter_request \<Rightarrow> adapter_env \<Rightarrow> node option \<Rightarrow> node option \<times> adapter_result result" where
  "run_adapter q e root =
     (if aq_mode q = BYPASS then
        (root, bind_r (run_bypass (ae_capture e)) (\<lambda>c. Inr \<lparr>ad_mode = BYPASS, ad_command = c, ad_ordinary_result = c, ad_capture = None,
           ad_envelope = None, ad_receipt = None\<rparr>))
      else
        let (root, captured) = capture_command (ArgvSequence (map StrArgument (aq_argv q))) (aq_max_capture_bytes q) (aq_mode q = ENFORCE) (ae_capture e) root
        in (root, bind_r captured (report q e root)))"

section \<open>Retrieval through the adapter\<close>

fun partition_at :: "pystr \<Rightarrow> pystr \<Rightarrow> pystr \<times> bool \<times> pystr" where
  "partition_at sep [] = ([], False, [])"
| "partition_at sep (c # s) =
     (if prefix sep (c # s) then ([], True, drop (length sep) (c # s))
      else let (b, hit, r) = partition_at sep s in (c # b, hit, r))"

definition MANIFEST_MARKER :: pystr where "MANIFEST_MARKER = lit ''/manifest/sha256/''"
definition CAPTURE_PREFIX :: pystr where "CAPTURE_PREFIX = lit ''outctl://capture/''"

definition capture_id_from_ref :: "pystr \<Rightarrow> pystr result" where
  "capture_id_from_ref ref =
     (if \<not> prefix CAPTURE_PREFIX ref then Inl (ValueError ''capture_ref is not an outctl capture reference'')
      else
        let (capture_id, marker, digest) = partition_at MANIFEST_MARKER (drop (length CAPTURE_PREFIX) ref) in
        if capture_id = [] \<or> \<not> marker \<or> length digest \<noteq> 64 then Inl (ValueError ''capture_ref is malformed'')
        else if \<not> list_all is_hex digest then Inl (ValueError ''capture_ref digest is malformed'')
        else if \<not> list_all is_hex capture_id then Inl (ValueError ''capture_ref id is malformed'')
        else Inr capture_id)"

definition retrieve_adapter_slice ::
  "node option \<Rightarrow> adapter_request \<Rightarrow> pystr \<Rightarrow> pystr \<Rightarrow> int \<Rightarrow> int \<Rightarrow> int option \<Rightarrow> adapter_retrieval result" where
  "retrieve_adapter_slice spool q ref stream start stop maximum =
     (if aq_mode q = BYPASS then Inl (ValueError ''bypass mode has no adapter capture retrieval'')
      else
        let limit = (case maximum of None \<Rightarrow> max_bytes (aq_limits q) | Some n \<Rightarrow> n) in
        if limit \<le> 0 then Inl (ValueError ''max_bytes must be positive'')
        else bind_r (capture_id_from_ref ref) (\<lambda>capture_id.
          bind_r (slice_stream spool capture_id stream start stop limit None) (\<lambda>retrieved.
            if sl_status retrieved \<noteq> AVAILABLE then
              Inr \<lparr>ar_capture_ref = ref, ar_stream = stream, ar_start = start, ar_end = stop, ar_status = sl_status retrieved, ar_inline_text = None,
                   ar_projection_bytes = 0, ar_estimated_tokens = 0, ar_lossy = False, ar_redacted = False, ar_detail = sl_detail retrieved\<rparr>
            else bind_r (project_bytes [BytesChunk (sl_data retrieved)] (request_args q)) (\<lambda>p.
              Inr \<lparr>ar_capture_ref = ref, ar_stream = stream, ar_start = sl_start retrieved, ar_end = sl_end retrieved, ar_status = AVAILABLE,
                   ar_inline_text = Some (pr_text p), ar_projection_bytes = pr_bytes p, ar_estimated_tokens = pr_estimated_tokens p,
                   ar_lossy = pr_lossy p, ar_redacted = pr_redacted p, ar_detail = None\<rparr>))))"


section \<open>The mode\<close>

lemma mode_of_text_iff: "mode_of_text t = Some m \<longleftrightarrow> t = adapter_mode_value m"
  by (cases m) (auto simp: mode_of_text_def adapter_mode_value_def lit_eq_iff simp del: lit_simps)

lemma disabled_environment: "map_of environ OUTCTL_ENABLED = Some (lit ''0'') \<Longrightarrow> from_environment environ fallback = Inr BYPASS"
  by (simp add: from_environment_def del: lit_simps)

text \<open>
  The break-glass switch always selects bypass, and a run is shadowed or enforced only when the switch is
  absent or on and the deciding setting names that mode: the configured one, else the environment's,
  else the default.
\<close>

theorem adapter_mode_decided:
  "(map_of environ OUTCTL_ENABLED = Some (lit ''0'') \<longrightarrow> resolve_adapter_mode configured environ fallback = Inr BYPASS) \<and>
   (resolve_adapter_mode configured environ fallback = Inr m \<and> m \<noteq> BYPASS \<longrightarrow>
      map_of environ OUTCTL_ENABLED \<in> {None, Some (lit ''1'')} \<and>
      (case configured of
         Some (ModeArg k) \<Rightarrow> k = m
       | Some (TextArg t) \<Rightarrow> casefold t = adapter_mode_value m
       | None \<Rightarrow> (case map_of environ OUTCTL_MODE of Some t \<Rightarrow> casefold t = adapter_mode_value m | None \<Rightarrow> fallback = m)))"
proof (intro conjI impI)
  assume "map_of environ OUTCTL_ENABLED = Some (lit ''0'')"
  then show "resolve_adapter_mode configured environ fallback = Inr BYPASS"
    by (simp add: resolve_adapter_mode_def disabled_environment del: lit_simps)
next
  assume r: "resolve_adapter_mode configured environ fallback = Inr m \<and> m \<noteq> BYPASS"
  then have n0: "map_of environ OUTCTL_ENABLED \<noteq> Some (lit ''0'')"
    by (auto simp: resolve_adapter_mode_def disabled_environment simp del: lit_simps map_of_eq_Some_iff)
  from r obtain em where e: "from_environment environ (Some (ModeArg fallback)) = Inr em"
    "(case configured of None \<Rightarrow> Inr em | Some (ModeArg m) \<Rightarrow> Inr m
      | Some (TextArg t) \<Rightarrow> (case mode_of_text (casefold t) of Some m \<Rightarrow> Inr m | None \<Rightarrow> Inl (ValueError ''configured mode must be one of''))) = Inr m"
    using n0 by (auto simp: resolve_adapter_mode_def bind_r_Inr_iff simp del: lit_simps)
  have en: "map_of environ OUTCTL_ENABLED \<in> {None, Some (lit ''1'')}"
    using e(1) n0 by (auto simp: from_environment_def Let_def simp del: lit_simps map_of_eq_Some_iff split: if_splits)
  then show "map_of environ OUTCTL_ENABLED \<in> {None, Some (lit ''1'')}" .
  show "case configured of Some (ModeArg k) \<Rightarrow> k = m | Some (TextArg t) \<Rightarrow> casefold t = adapter_mode_value m
       | None \<Rightarrow> (case map_of environ OUTCTL_MODE of Some t \<Rightarrow> casefold t = adapter_mode_value m | None \<Rightarrow> fallback = m)"
    using e en n0 by (auto simp: from_environment_def Let_def mode_of_text_iff simp del: lit_simps map_of_eq_Some_iff
        split: option.splits mode_arg.splits if_splits)
qed

theorem adapter_mode_decided_witness:
  "resolve_adapter_mode (Some (ModeArg ENFORCE)) [(OUTCTL_ENABLED, lit ''0''), (OUTCTL_MODE, lit ''enforce'')] ENFORCE = Inr BYPASS \<and>
   resolve_adapter_mode None [(OUTCTL_MODE, lit ''Shadow'')] ENFORCE = Inr SHADOW \<and> casefold (lit ''Shadow'') = adapter_mode_value SHADOW"
proof -
  have "resolve_adapter_mode None [(OUTCTL_MODE, lit ''Shadow'')] ENFORCE = Inr SHADOW" by code_simp
  then show ?thesis
    using adapter_mode_decided [of "[(OUTCTL_ENABLED, lit ''0''), (OUTCTL_MODE, lit ''enforce'')]" "Some (ModeArg ENFORCE)" ENFORCE BYPASS]
      adapter_mode_decided [of "[(OUTCTL_MODE, lit ''Shadow'')]" None ENFORCE SHADOW]
    by (simp del: lit_simps)
qed

section \<open>References\<close>

lemma partition_at_found: "partition_at sep s = (a, True, b) \<Longrightarrow> s = a @ sep @ b"
proof (induction sep s arbitrary: a rule: partition_at.induct)
  case (2 sep c s)
  show ?case
  proof (cases "prefix sep (c # s)")
    case True
    then show ?thesis using "2.prems" by (auto simp: prefix_def)
  next
    case False
    then show ?thesis using 2 by (auto split: prod.splits)
  qed
qed simp

lemma partition_at_first: "sep \<noteq> [] \<Longrightarrow> hd sep \<notin> set cid \<Longrightarrow> partition_at sep (cid @ sep @ d) = (cid, True, d)"
proof (induction cid)
  case Nil
  then obtain c r where "sep = c # r" by (cases sep) auto
  then show ?case by simp
next
  case (Cons c cid)
  then have "\<not> prefix sep (c # cid @ sep @ d)" by (cases sep) auto
  then show ?case using Cons by simp
qed

lemma reference_iff:
  "capture_id_from_ref ref = Inr cid \<longleftrightarrow>
     (\<exists>d. ref = capture_ref_of cid d \<and> cid \<noteq> [] \<and> list_all is_hex cid \<and> length d = 64 \<and> list_all is_hex d)"
proof
  assume "capture_id_from_ref ref = Inr cid"
  then obtain d where p: "prefix CAPTURE_PREFIX ref" "partition_at MANIFEST_MARKER (drop (length CAPTURE_PREFIX) ref) = (cid, True, d)"
    and ok: "cid \<noteq> []" "list_all is_hex cid" "length d = 64" "list_all is_hex d"
    by (auto simp: capture_id_from_ref_def Let_def split: if_splits prod.splits)
  have "ref = CAPTURE_PREFIX @ cid @ MANIFEST_MARKER @ d" using p(1) partition_at_found [OF p(2)] by (auto simp: prefix_def)
  then show "\<exists>d. ref = capture_ref_of cid d \<and> cid \<noteq> [] \<and> list_all is_hex cid \<and> length d = 64 \<and> list_all is_hex d"
    using ok by (auto simp: capture_ref_of_def CAPTURE_PREFIX_def MANIFEST_MARKER_def simp del: lit_simps)
next
  assume "\<exists>d. ref = capture_ref_of cid d \<and> cid \<noteq> [] \<and> list_all is_hex cid \<and> length d = 64 \<and> list_all is_hex d"
  then obtain d where r: "ref = CAPTURE_PREFIX @ cid @ MANIFEST_MARKER @ d" and ok: "cid \<noteq> []" "list_all is_hex cid" "length d = 64" "list_all is_hex d"
    by (auto simp: capture_ref_of_def CAPTURE_PREFIX_def MANIFEST_MARKER_def simp del: lit_simps)
  have "MANIFEST_MARKER \<noteq> []" "hd MANIFEST_MARKER = 47" by (simp_all add: MANIFEST_MARKER_def)
  moreover have "47 \<notin> set cid" using ok(2) by (auto simp: list_all_iff is_hex_def is_digit_def)
  ultimately have "partition_at MANIFEST_MARKER (cid @ MANIFEST_MARKER @ d) = (cid, True, d)" by (intro partition_at_first) simp_all
  then show "capture_id_from_ref ref = Inr cid" using ok by (simp add: capture_id_from_ref_def r)
qed


text \<open>
  The adapter accepts exactly the references an envelope issues for a hexadecimal capture id and the
  digest of its manifest, and takes the id from them.
\<close>

theorem capture_ref_exact:
  "capture_id_from_ref ref = Inr cid \<longleftrightarrow>
     (\<exists>d. ref = capture_ref_of cid d \<and> cid \<noteq> [] \<and> list_all is_hex cid \<and> length d = 64 \<and> list_all is_hex d)"
  by (rule reference_iff)

section \<open>A captured run is always reported\<close>

lemma concat_file_chunks [simp]: "concat (file_chunks b) = b"
  by (induction b rule: file_chunks.induct) (subst file_chunks.simps, simp)

definition accepts :: "dataclass \<Rightarrow> pystr list \<Rightarrow> bool" where
  "accepts dc names \<longleftrightarrow> list_all (\<lambda>(n, h, d). d = Missing \<longrightarrow> n \<in> set names) (class_fields dc)"

lemma argument_for_name: "argument_for kwargs (n, h, d) = Inr nm \<Longrightarrow> fst nm = n"
  by (auto simp: argument_for_def split: option.splits default_value.splits)

lemma arguments_lookup:
  assumes "mapM_r (argument_for kwargs) fs = Inr vs" "map_of kwargs n = Some m" "n \<in> set (map fst fs)"
  shows "map_of vs n = Some m"
  using assms
proof (induction fs arbitrary: vs)
  case (Cons f fs)
  obtain k h d where f: "f = (k, h, d)" by (metis prod.exhaust)
  from Cons.prems(1) obtain nm ws where v: "argument_for kwargs f = Inr nm" "mapM_r (argument_for kwargs) fs = Inr ws" "vs = nm # ws"
    by (auto simp: bind_r_Inr_iff)
  have nm: "fst nm = k" using v(1) argument_for_name by (simp add: f)
  show ?case
  proof (cases "k = n")
    case True
    then have "argument_for kwargs f = Inr (n, m)" using Cons.prems(2) by (simp add: f argument_for_def)
    then show ?thesis using v by simp
  next
    case False
    then show ?thesis using Cons v nm by (cases nm) (auto simp: f)
  qed
qed simp

lemma new_instance_total:
  assumes "accepts dc (map fst kwargs)"
  shows "\<exists>m. new_instance dc kwargs = Inr m"
proof -
  have "\<exists>vs. mapM_r (argument_for kwargs) fs = Inr vs" if "set fs \<subseteq> set (class_fields dc)" for fs
    using that
  proof (induction fs)
    case (Cons f fs)
    obtain k h d where f: "f = (k, h, d)" by (metis prod.exhaust)
    have "d = Missing \<longrightarrow> map_of kwargs k \<noteq> None"
      using assms Cons.prems by (auto simp: accepts_def f list_all_iff map_of_eq_None_iff simp del: map_of_eq_Some_iff)
    then have "\<exists>nm. argument_for kwargs f = Inr nm" by (cases d) (auto simp: f argument_for_def split: option.splits)
    then show ?case using Cons by auto
  qed simp
  then show ?thesis by (fastforce simp: new_instance_def)
qed

lemma new_instance_attribute:
  assumes "new_instance dc kwargs = Inr m" "map_of kwargs n = Some v" "n \<in> set (map fst (class_fields dc))"
  shows "attribute m n = Inr v"
  using assms arguments_lookup by (fastforce simp: new_instance_def bind_r_Inr_iff attribute_def)

lemmas instance_check = accepts_def extra_field_def EXTRA_def lit_eq_iff

lemma invocation_total:
  "\<exists>i. invocation_value q e = Inr i \<and> attribute i (lit ''host_id'') = Inr (mstr (aq_host_id q))"
proof -
  have "\<exists>i. invocation_value q e = Inr i" unfolding invocation_value_def
    by (rule new_instance_total) (simp add: instance_check command_result_invocation_class_def del: lit_simps)
  then obtain i where i: "invocation_value q e = Inr i" ..
  have "attribute i (lit ''host_id'') = Inr (mstr (aq_host_id q))"
    by (rule new_instance_attribute [OF i [unfolded invocation_value_def]])
      (simp_all add: lit_eq_iff command_result_invocation_class_def del: lit_simps)
  then show ?thesis using i by blast
qed

lemma command_total: "\<exists>c. command_value k = Inr c" unfolding command_value_def
  by (rule new_instance_total) (simp add: instance_check command_result_command_class_def del: lit_simps)

definition has_attributes :: "mval \<Rightarrow> string list \<Rightarrow> bool" where
  "has_attributes m names \<longleftrightarrow> (\<forall>n \<in> set names. \<exists>v. attribute m (lit n) = Inr v)"

lemma capture_total:
  "\<exists>c s. capture_value capture digest host path = Inr c \<and> has_attributes c [''status''] \<and> attribute c (lit ''source'') = Inr s \<and>
     has_attributes s [''availability'', ''host_id'']"
proof -
  let ?skw = "[(lit ''availability'', mstr (lit ''local-only'')), (lit ''host_id'', host), (lit ''path'', mstr path)]"
  have "\<exists>s. new_instance command_result_capture_source_class ?skw = Inr s"
    by (rule new_instance_total) (simp add: instance_check command_result_capture_source_class_def del: lit_simps)
  then obtain s where s: "new_instance command_result_capture_source_class ?skw = Inr s" ..
  have "\<exists>c. capture_value capture digest host path = Inr c" unfolding capture_value_def Let_def s bind_r_simps
    by (rule new_instance_total) (simp add: instance_check command_result_capture_class_def del: lit_simps)
  then obtain c where c: "capture_value capture digest host path = Inr c" ..
  note cs = new_instance_attribute [OF c [unfolded capture_value_def Let_def s bind_r_simps]] and ss = new_instance_attribute [OF s]
  have "attribute c (lit ''source'') = Inr s" "has_attributes c [''status'']" "has_attributes s [''availability'', ''host_id'']"
    by (auto simp: has_attributes_def cs ss lit_eq_iff command_result_capture_class_def command_result_capture_source_class_def simp del: lit_simps)
  then show ?thesis using c by blast
qed

lemma metadata_redaction: "\<exists>r. map_of (projection_metadata p) (lit ''redaction'') = Some r"
proof -
  have "map_of m k \<noteq> None \<Longrightarrow> map_of (foldl (\<lambda>m (k, v). AList.update k v m) m kvs) k \<noteq> None" for m :: jdict and k kvs
  proof (induction kvs arbitrary: m)
    case (Cons kv kvs)
    have "map_of (AList.update (fst kv) (snd kv) m) k \<noteq> None"
      using Cons.prems by (simp add: update_conv' del: map_of_eq_Some_iff)
    with Cons.IH show ?case by (simp add: case_prod_beta)
  qed simp
  then show ?thesis unfolding projection_metadata_def by (simp del: lit_simps map_of_eq_Some_iff)
qed

lemma projection_value_total:
  "\<exists>v. projection_value p a = Inr v \<and> attribute v EXTRA = Inr (MData (JObj (projection_metadata p))) \<and>
     has_attributes v [''projection_id'', ''sha256'', ''bytes'', ''lines'', ''estimated_tokens'', ''lossy'', ''redacted'']"
proof -
  have "\<exists>v. projection_value p a = Inr v" unfolding projection_value_def
    by (rule new_instance_total) (simp add: instance_check command_result_projection_class_def del: lit_simps)
  then obtain v where v: "projection_value p a = Inr v" ..
  note vs = new_instance_attribute [OF v [unfolded projection_value_def]]
  have "attribute v EXTRA = Inr (MData (JObj (projection_metadata p)))"
    by (rule vs) (simp_all add: instance_check command_result_projection_class_def del: lit_simps)
  moreover have "has_attributes v [''projection_id'', ''sha256'', ''bytes'', ''lines'', ''estimated_tokens'', ''lossy'', ''redacted'']"
    by (auto simp: has_attributes_def vs lit_eq_iff EXTRA_def command_result_projection_class_def simp del: lit_simps)
  ultimately show ?thesis using v by blast
qed

text \<open>What the receipt reads of an envelope.\<close>

definition receipt_readable :: "mval \<Rightarrow> bool" where
  "receipt_readable m \<longleftrightarrow> has_attributes m [''capture_ref''] \<and>
     (\<exists>c s p d. attribute m (lit ''capture'') = Inr c \<and> has_attributes c [''status''] \<and> attribute c (lit ''source'') = Inr s \<and>
        has_attributes s [''availability'', ''host_id''] \<and> attribute m (lit ''projection'') = Inr p \<and>
        has_attributes p [''projection_id'', ''sha256'', ''bytes'', ''lines'', ''estimated_tokens'', ''lossy'', ''redacted''] \<and>
        attribute p EXTRA = Inr (MData (JObj (projection_metadata d))))"

lemma envelope_total:
  assumes d: "manifest_sha256 spool capture = Inr digest" and h: "attribute invocation (lit ''host_id'') = Inr host"
  shows "\<exists>m. build_result_envelope spool capture projection invocation a = Inr m \<and> receipt_readable m \<and>
    attribute m (lit ''capture_ref'') = Inr (mstr (non_empty (ea_capture_ref a) (capture_ref_of (res_capture_id capture) digest)))"
proof -
  obtain k where k: "command_value (res_command capture) = Inr k" using command_total by blast
  obtain c s where c: "capture_value capture digest host (case ea_source_path a of Some s \<Rightarrow> s | None \<Rightarrow> ea_spool_path a @ lit ''/'' @ join_with 47 (res_path capture)) = Inr c"
    "has_attributes c [''status'']" "attribute c (lit ''source'') = Inr s" "has_attributes s [''availability'', ''host_id'']"
    using capture_total by blast
  obtain p where p: "projection_value projection a = Inr p" "attribute p EXTRA = Inr (MData (JObj (projection_metadata projection)))"
    "has_attributes p [''projection_id'', ''sha256'', ''bytes'', ''lines'', ''estimated_tokens'', ''lossy'', ''redacted'']"
    using projection_value_total by blast
  have "\<exists>t. new_instance command_result_retrieval_class [(lit ''available'', mbool True), (lit ''capabilities'', MList (map mstr RETRIEVAL_CAPABILITIES))] = Inr t"
    by (rule new_instance_total) (simp add: instance_check command_result_retrieval_class_def del: lit_simps)
  then obtain t where t: "new_instance command_result_retrieval_class [(lit ''available'', mbool True), (lit ''capabilities'', MList (map mstr RETRIEVAL_CAPABILITIES))] = Inr t" ..
  note eq = build_result_envelope_def d h k c(1) p(1) t bind_r_simps
  have "\<exists>m. build_result_envelope spool capture projection invocation a = Inr m" unfolding eq
    by (rule new_instance_total) (simp add: instance_check command_result_envelope_class_def del: lit_simps)
  then obtain m where m: "build_result_envelope spool capture projection invocation a = Inr m" ..
  note ms = new_instance_attribute [OF m [unfolded eq]]
  have at: "attribute m (lit ''capture_ref'') = Inr (mstr (non_empty (ea_capture_ref a) (capture_ref_of (res_capture_id capture) digest)))"
    "attribute m (lit ''capture'') = Inr c" "attribute m (lit ''projection'') = Inr p"
    by (rule ms, simp_all add: lit_eq_iff command_result_envelope_class_def del: lit_simps)+
  moreover have "has_attributes m [''capture_ref'']" using at(1) by (simp add: has_attributes_def del: lit_simps)
  ultimately have "receipt_readable m" unfolding receipt_readable_def using c(2-4) p(2,3) by blast
  with m at show ?thesis by blast
qed

lemma written_total:
  assumes "attribute_path m (map lit path) = Inr v" "has_attributes v (map snd names)"
  shows "\<exists>kvs. written_attributes m path names = Inr kvs"
proof -
  have ap: "attribute_path m (map lit path @ [lit n]) = attribute v (lit n)" for n
    using assms(1) by (induction "map lit path" arbitrary: m path) (auto simp: bind_r_Inr_iff bind_r_def split: sum.splits)
  show ?thesis unfolding written_attributes_def ap using assms(2)
    by (induction names) (auto simp: has_attributes_def)
qed

lemma receipt_total:
  assumes "receipt_readable m"
  shows "\<exists>rc. receipt q capture m = Inr rc"
proof -
  from assms obtain c s p d where m: "has_attributes m [''capture_ref'']" "attribute m (lit ''capture'') = Inr c"
    "has_attributes c [''status'']" "attribute c (lit ''source'') = Inr s" "has_attributes s [''availability'', ''host_id'']"
    "attribute m (lit ''projection'') = Inr p" "attribute p EXTRA = Inr (MData (JObj (projection_metadata d)))"
    "has_attributes p [''projection_id'', ''sha256'', ''bytes'', ''lines'', ''estimated_tokens'', ''lossy'', ''redacted'']"
    unfolding receipt_readable_def by blast
  obtain k1 where k1: "written_attributes m [] [(''capture_ref'', ''capture_ref'')] = Inr k1"
    using written_total [of m "[]" m "[(''capture_ref'', ''capture_ref'')]"] m(1) by auto
  obtain k2 where k2: "written_attributes m [''capture''] [(''status'', ''status'')] = Inr k2"
    using written_total [of m "[''capture'']" c "[(''status'', ''status'')]"] m(2,3) by auto
  obtain k3 where k3: "written_attributes m [''capture'', ''source''] [(''availability'', ''availability''), (''host_id'', ''host_id'')] = Inr k3"
    using written_total [of m "[''capture'', ''source'']" s "[(''availability'', ''availability''), (''host_id'', ''host_id'')]"] m(2,4,5) by auto
  obtain k4 where k4: "written_attributes m [''projection''] [(''id'', ''projection_id''), (''sha256'', ''sha256''), (''bytes'', ''bytes''),
       (''lines'', ''lines''), (''estimated_tokens'', ''estimated_tokens''), (''lossy'', ''lossy''), (''redacted'', ''redacted'')] = Inr k4"
    using written_total [of m "[''projection'']" p "[(''id'', ''projection_id''), (''sha256'', ''sha256''), (''bytes'', ''bytes''),
       (''lines'', ''lines''), (''estimated_tokens'', ''estimated_tokens''), (''lossy'', ''lossy''), (''redacted'', ''redacted'')]"] m(6,8) by auto
  obtain r where r: "map_of (projection_metadata d) (lit ''redaction'') = Some r" using metadata_redaction by blast
  have "\<exists>k5. projection_receipt m = Inr k5"
    using k4 m(6,7) r by (simp add: projection_receipt_def redaction_receipt_def del: lit_simps map_of_eq_Some_iff)
  then show ?thesis using k1 k2 k3 by (auto simp: receipt_def simp del: lit_simps)
qed

lemma scan_bytes_events: "ChunkError \<notin> set (fst (scan_bytes acc skipping b))"
  by (induction acc skipping b rule: scan_bytes.induct) (auto simp: Let_def case_prod_beta)

lemma line_bytes_events: "ChunkError \<notin> set (line_bytes_from acc skipping (map BytesChunk cs))"
  using scan_bytes_events by (induction cs arbitrary: acc skipping) (auto simp: Let_def case_prod_beta)

lemma scan_pods_total: "ChunkError \<notin> set es \<Longrightarrow> \<exists>r. scan_pods es seen a = Inr r"
  by (induction es seen a rule: scan_pods.induct) (auto split: scan_step.splits)

lemma pod_health_total:
  assumes "resolve_limits (projection_call vals rules L) = Inr L'" "build_redactor (projection_call vals rules L) = Inr rd"
  shows "\<exists>p. project_pod_health (map BytesChunk cs) L vals rules = Inr p"
proof -
  obtain r where r: "scan_pods (line_bytes (map BytesChunk cs)) False pod_health_init = Inr r"
    using scan_pods_total line_bytes_events unfolding line_bytes_def by blast
  have "\<exists>x. scan_table (map BytesChunk cs) = Inr x" by (simp add: scan_table_def r split: option.splits)
  then obtain x where x: "scan_table (map BytesChunk cs) = Inr x" ..
  show ?thesis
    using project_bytes_eq [OF assms, of "[c]" for c] by (cases x) (simp_all add: project_pod_health_def x case_prod_beta)
qed

lemma choose_projection_total:
  assumes L: "resolve_limits (request_args q) = Inr L" "build_redactor (request_args q) = Inr rd"
    and f: "capture_chunks_for_stream spool capture ''stdout.raw'' = Inr out" "capture_chunks_for_stream spool capture ''stderr.raw'' = Inr err"
  shows "\<exists>p. choose_projection spool capture q = Inr p"
proof -
  obtain p where p: "project_pod_health (map BytesChunk out) (aq_limits q) (aq_exact_values q) (aq_rules q) = Inr p"
    using pod_health_total L unfolding request_args_def by blast
  have "\<exists>w. project_capture spool capture q = Inr w"
    using project_bytes_eq [OF L, of "out @ err"] f by (simp add: project_capture_def capture_chunks_def)
  then show ?thesis using p f(1) by (auto simp: choose_projection_def simp del: lit_simps split: option.splits)
qed

lemma captured_files:
  assumes h: "holds_capture r (final_dir cid) st M" and res: "res = capture_result_of cid st c"
  shows "\<exists>digest out err. manifest_sha256 (Some r) res = Inr (lit (sha256_hex digest)) \<and>
     capture_chunks_for_stream (Some r) res ''stdout.raw'' = Inr out \<and> capture_chunks_for_stream (Some r) res ''stderr.raw'' = Inr err"
  using h by (auto simp: holds_capture_def manifest_sha256_def file_sha256_def capture_chunks_for_stream_def entry_at_def res capture_result_of_def
      simp del: lit_simps)

lemma hex_id_ok: "cid \<noteq> [] \<Longrightarrow> list_all is_hex cid \<Longrightarrow> valid_capture_id cid \<and> os_name cid"
  by (auto simp: valid_capture_id_def os_name_def list_all_iff is_hex_def is_digit_def is_scalar_def)

lemma run_adapter_captured:
  assumes m: "aq_mode q \<noteq> BYPASS"
    and c: "capture_command (ArgvSequence (map StrArgument (aq_argv q))) (aq_max_capture_bytes q) (aq_mode q = ENFORCE) (ae_capture e) root = (Some r, Inr capture)"
    and L: "resolve_limits (request_args q) = Inr L" "build_redactor (request_args q) = Inr rd"
  shows "\<exists>a env digest. run_adapter q e root = (Some r, Inr a) \<and> ad_capture a = Some capture \<and> ad_command a = res_command capture \<and> ad_envelope a = Some env \<and>
    attribute env (lit ''capture_ref'') = Inr (mstr (capture_ref_of (res_capture_id capture) (lit (sha256_hex digest))))"
proof -
  from c obtain r' st where s: "Some r = Some r'" "capture = capture_result_of (env_capture_id (ae_capture e)) st (command_of (ae_capture e))"
    "holds_capture r' (final_dir (env_capture_id (ae_capture e))) st
       (manifest_json (env_capture_id (ae_capture e)) st (command_of (ae_capture e)) (env_finished_ns (ae_capture e)))"
    by (rule capture_command_spool)
  from captured_files [OF s(3,2)] s(1) obtain digest out err where f: "manifest_sha256 (Some r) capture = Inr (lit (sha256_hex digest))"
    "capture_chunks_for_stream (Some r) capture ''stdout.raw'' = Inr out" "capture_chunks_for_stream (Some r) capture ''stderr.raw'' = Inr err" by auto
  obtain p where p: "choose_projection (Some r) capture q = Inr p" using choose_projection_total [OF L f(2,3)] by blast
  obtain i where i: "invocation_value q e = Inr i" "attribute i (lit ''host_id'') = Inr (mstr (aq_host_id q))" using invocation_total by blast
  let ?args = "(default_envelope_args (aq_policy_ref q) (aq_policy_digest q) [])\<lparr>ea_mode := adapter_mode_value (aq_mode q), ea_bindings := aq_bindings q,
          ea_source_path := Some (opaque_capture_source (res_capture_id capture))\<rparr>"
  obtain env where env: "build_result_envelope (Some r) capture p i ?args = Inr env" "receipt_readable env"
    "attribute env (lit ''capture_ref'') = Inr (mstr (non_empty (ea_capture_ref ?args) (capture_ref_of (res_capture_id capture) (lit (sha256_hex digest)))))"
    using envelope_total [OF f(1) i(2)] by blast
  obtain rc where rc: "receipt q capture env = Inr rc" using receipt_total [OF env(2)] by blast
  have "non_empty (ea_capture_ref ?args) x = x" for x by (simp add: default_envelope_args_def non_empty_def)
  with env(3) have ref: "attribute env (lit ''capture_ref'') = Inr (mstr (capture_ref_of (res_capture_id capture) (lit (sha256_hex digest))))" by simp
  have "run_adapter q e root = (Some r, Inr \<lparr>ad_mode = aq_mode q, ad_command = res_command capture, ad_ordinary_result = res_command capture,
      ad_capture = Some capture, ad_envelope = Some env, ad_receipt = Some rc\<rparr>)"
    using m by (simp add: run_adapter_def c report_def p i(1) env(1) rc)
  then show ?thesis using ref by auto
qed

lemma captured_stream_range:
  fixes q env
  defines "st \<equiv> drain_all (aq_max_capture_bytes q) (aq_mode q = ENFORCE) (env_reads env)"
  assumes m: "aq_mode q \<noteq> BYPASS"
    and c: "capture_command argv (aq_max_capture_bytes q) (aq_mode q = ENFORCE) env root = (Some r, Inr capture)"
    and cid: "env_capture_id env \<noteq> []" "list_all is_hex (env_capture_id env)"
    and j: "json_ok (manifest_json (env_capture_id env) st (command_of env) (env_finished_ns env))"
    and L: "resolve_limits (request_args q) = Inr L" "build_redactor (request_args q) = Inr rd"
    and range: "stop \<le> int (length (sw_content (writer_of z st)))" "0 \<le> start" "start \<le> stop" "stop - start \<le> limit" "0 < limit"
  shows "\<exists>out. retrieve_adapter_slice (Some r) q (capture_ref_of (res_capture_id capture) (lit (sha256_hex digest))) (stream_name z) start stop (Some limit) =
      Inr out \<and> ar_status out = AVAILABLE \<and>
    ar_inline_text out = Some (pr_text (project_whole L rd (read_range (sw_content (writer_of z st)) start stop))) \<and>
    ar_redacted out = pr_redacted (project_whole L rd (read_range (sw_content (writer_of z st)) start stop))"
proof -
  from c obtain r' where s: "Some r = Some r'" "capture = capture_result_of (env_capture_id env) st (command_of env)"
    "holds_capture r' (final_dir (env_capture_id env)) st (manifest_json (env_capture_id env) st (command_of env) (env_finished_ns env))"
    unfolding st_def by (rule capture_command_spool) auto
  have h: "holds_capture r (final_dir (env_capture_id env)) st (manifest_json (env_capture_id env) st (command_of env) (env_finished_ns env))"
    using s(1,3) by simp
  note ids = hex_id_ok [OF cid, THEN conjunct1] hex_id_ok [OF cid, THEN conjunct2]
  obtain sl where sl: "slice_stream (Some r) (env_capture_id env) (stream_name z) start stop limit None = Inr sl"
    "sl_status sl = AVAILABLE" "sl_data sl = read_range (sw_content (writer_of z st)) start stop"
    using finalized_range [OF h j ids range] by blast
  have "capture_id_from_ref (capture_ref_of (env_capture_id env) (lit (sha256_hex digest))) = Inr (env_capture_id env)"
    unfolding reference_iff using cid hex_digits_ok by (auto simp del: lit_simps)
  then show ?thesis
    using m sl range(5) project_bytes_eq [OF L, of "[read_range (sw_content (writer_of z st)) start stop]"] s(2)
    by (simp add: retrieve_adapter_slice_def capture_result_of_def del: lit_simps)
qed

lemmas captured_range = captured_stream_range [where z = Stdout, unfolded writer_of_def stream_name_def stream.case]
lemmas captured_error_range = captured_stream_range [where z = Stderr, unfolded writer_of_def stream_name_def stream.case]

text \<open>
  C27.  A shadow or enforce run whose capture was stored (with a status other than \<open>CAPTURE_FAILED\<close>, a
  hexadecimal id and a printable manifest) and whose projection arguments are acceptable returns a
  result, and the reference in its envelope leads back to the capture: for each of the two streams the
  adapter's retrieval over the whole retained stream, within the caller's limit, answers \<open>AVAILABLE\<close>,
  and its text is what \<open>project_bytes\<close> makes of exactly the bytes retained, which are a prefix of
  what the command wrote there.
\<close>

theorem adapter_capture_retrievable:
  fixes q e
  defines "env \<equiv> ae_capture e"
  defines "st \<equiv> drain_all (aq_max_capture_bytes q) (aq_mode q = ENFORCE) (env_reads env)"
  assumes m: "aq_mode q \<noteq> BYPASS"
    and c: "capture_command (ArgvSequence (map StrArgument (aq_argv q))) (aq_max_capture_bytes q) (aq_mode q = ENFORCE) env root = (Some r, Inr capture)"
    and ok: "res_capture_status capture \<noteq> CAPTURE_FAILED"
    and cid: "env_capture_id env \<noteq> []" "list_all is_hex (env_capture_id env)"
    and j: "json_ok (manifest_json (env_capture_id env) st (command_of env) (env_finished_ns env))"
    and args: "acceptable_arguments (request_args q)"
    and n: "res_stdout_bytes capture \<le> limit" "res_stderr_bytes capture \<le> limit" "0 < limit"
  shows "\<exists>a m ref out err p p'. run_adapter q e root = (Some r, Inr a) \<and> ad_envelope a = Some m \<and> attribute m (lit ''capture_ref'') = Inr (mstr ref) \<and>
    retrieve_adapter_slice (Some r) q ref (lit ''stdout'') 0 (res_stdout_bytes capture) (Some limit) = Inr out \<and> ar_status out = AVAILABLE \<and>
    project_bytes [BytesChunk (sw_content (cs_stdout st))] (request_args q) = Inr p \<and>
    ar_inline_text out = Some (pr_text p) \<and> ar_redacted out = pr_redacted p \<and>
    retrieve_adapter_slice (Some r) q ref (lit ''stderr'') 0 (res_stderr_bytes capture) (Some limit) = Inr err \<and> ar_status err = AVAILABLE \<and>
    project_bytes [BytesChunk (sw_content (cs_stderr st))] (request_args q) = Inr p' \<and>
    ar_inline_text err = Some (pr_text p') \<and> ar_redacted err = pr_redacted p' \<and>
    prefix (sw_content (cs_stdout st)) (stream_bytes Stdout (env_reads env)) \<and> res_stdout_bytes capture = int (length (sw_content (cs_stdout st))) \<and>
    prefix (sw_content (cs_stderr st)) (stream_bytes Stderr (env_reads env)) \<and> res_stderr_bytes capture = int (length (sw_content (cs_stderr st)))"
proof -
  from args obtain L rd where L: "resolve_limits (request_args q) = Inr L" "build_redactor (request_args q) = Inr rd"
    unfolding acceptable_arguments_iff by blast
  from c obtain r' where s: "drain_inv (aq_max_capture_bytes q) (env_reads env) st"
    "capture = capture_result_of (env_capture_id env) st (command_of env)"
    unfolding st_def by (rule capture_command_spool) auto
  have nf: "\<not> capture_failed st" using ok s(2) by (auto simp: capture_result_of_def status_of_def split: if_splits)
  note b = retained_counts(1,2) [OF s(1) nf, of "env_capture_id env" "command_of env", folded s(2)] retained_counts(3,4) [OF s(1) nf]
  obtain a m digest where a: "run_adapter q e root = (Some r, Inr a)" "ad_envelope a = Some m"
    "attribute m (lit ''capture_ref'') = Inr (mstr (capture_ref_of (res_capture_id capture) (lit (sha256_hex digest))))"
    using run_adapter_captured [OF m c [unfolded env_def] L] by blast
  have p: "project_bytes [BytesChunk x] (request_args q) = Inr (project_whole L rd x)" for x
    using project_bytes_eq [OF L, of "[x]"] by simp
  have "read_range (sw_content (cs_stdout st)) 0 (res_stdout_bytes capture) = sw_content (cs_stdout st)"
    "read_range (sw_content (cs_stderr st)) 0 (res_stderr_bytes capture) = sw_content (cs_stderr st)" by (simp_all add: read_range_def b(1,2))
  with captured_range [OF m c cid j [unfolded st_def] L, folded st_def, of "res_stdout_bytes capture" 0 limit digest]
    captured_error_range [OF m c cid j [unfolded st_def] L, folded st_def, of "res_stderr_bytes capture" 0 limit digest] a b n
  show ?thesis unfolding p by auto
qed

section \<open>An example run\<close>

definition example_request :: adapter_request where
  "example_request = \<lparr>aq_mode = SHADOW, aq_argv = [lit ''ls''], aq_policy_ref = lit ''p'', aq_policy_digest = lit ''d'', aq_host_id = lit ''h'',
     aq_harness = lit ''x'', aq_bindings = [], aq_spool_root = Some (lit ''/s''), aq_cwd = None, aq_max_capture_bytes = 3, aq_limits = default_limits,
     aq_exact_values = [], aq_rules = None, aq_semantic_adapter = None\<rparr>"

definition example_adapter_env :: adapter_env where
  "example_adapter_env = \<lparr>ae_capture = example_env, ae_started_at = lit ''s'', ae_ended_at = lit ''e'', ae_duration_ms = 1, ae_cwd = lit ''/''\<rparr>"

lemma example_captured:
  "\<exists>r. capture_command (ArgvSequence (map StrArgument (aq_argv example_request))) (aq_max_capture_bytes example_request)
      (aq_mode example_request = ENFORCE) (ae_capture example_adapter_env) None =
    (Some r, Inr (capture_result_of (lit ''c1'') (drain_all 3 False (env_reads example_env)) (command_of example_env)))"
proof -
  have v: "validate_argv (ArgvSequence [StrArgument (lit ''ls'')]) = Inr [lit ''ls'']" by code_simp
  show ?thesis
    using fresh_capture [of example_env "ArgvSequence [StrArgument (lit ''ls'')]" _ 3 False, OF _ _ _ _ v]
    by (auto simp: example_env_def example_request_def example_adapter_env_def)
qed

lemma example_manifest_ok:
  "json_ok (manifest_json (env_capture_id example_env) (drain_all 3 False (env_reads example_env)) (command_of example_env) (env_finished_ns example_env))"
  by (rule manifest_ok; code_simp)

lemma example_setup:
  "resolve_limits (request_args example_request) = Inr default_limits"
  "build_redactor (request_args example_request) = build_redactor default_args"
  by (simp_all add: request_args_def example_request_def projection_call_def resolve_limits_def build_redactor_def resolve_values_def default_args_def)

theorem adapter_capture_retrievable_witness:
  "\<exists>r a m ref out err. run_adapter example_request example_adapter_env None = (Some r, Inr a) \<and> ad_envelope a = Some m \<and>
    attribute m (lit ''capture_ref'') = Inr (mstr ref) \<and>
    retrieve_adapter_slice (Some r) example_request ref (lit ''stdout'') 0 2 (Some 10) = Inr out \<and> ar_status out = AVAILABLE \<and>
    retrieve_adapter_slice (Some r) example_request ref (lit ''stderr'') 0 1 (Some 10) = Inr err \<and> ar_status err = AVAILABLE"
proof -
  let ?st = "drain_all 3 False (env_reads example_env)"
  let ?c = "capture_result_of (lit ''c1'') ?st (command_of example_env)"
  obtain r where c: "capture_command (ArgvSequence (map StrArgument (aq_argv example_request))) (aq_max_capture_bytes example_request)
      (aq_mode example_request = ENFORCE) (ae_capture example_adapter_env) None = (Some r, Inr ?c)" using example_captured by blast
  have st: "status_of ?st = TRUNCATED" "retained_bytes (cs_stdout ?st) = 2" "retained_bytes (cs_stderr ?st) = 1"
    "env_capture_id example_env \<noteq> []" "list_all is_hex (env_capture_id example_env)" by code_simp+
  have e: "ae_capture example_adapter_env = example_env" "aq_max_capture_bytes example_request = 3" "aq_mode example_request = SHADOW"
    by (simp_all add: example_adapter_env_def example_request_def)
  have res: "res_capture_status ?c \<noteq> CAPTURE_FAILED" "res_stdout_bytes ?c = 2" "res_stderr_bytes ?c = 1" using st by (simp_all add: capture_result_of_def)
  have args: "acceptable_arguments (request_args example_request)" by code_simp
  show ?thesis
    using adapter_capture_retrievable [OF _ c res(1) _ _ _ args, of 10] st(4,5) example_manifest_ok
    by (simp add: e res(2,3) del: lit_simps) blast
qed

section \<open>Slices are redacted one by one\<close>

definition split_env :: adapter_env where
  "split_env = example_adapter_env\<lparr>ae_capture := example_env\<lparr>env_reads := [(Stdout, ''hunter2'' @ [CHR 0x0A], 5, Written)]\<rparr>\<rparr>"

definition split_request :: adapter_request where
  "split_request = example_request\<lparr>aq_max_capture_bytes := 100, aq_exact_values := [BytesArg ''hunter2'']\<rparr>"

definition secret_redactor :: redactor where
  "secret_redactor = \<lparr>rvalues = [''hunter2''], rule_for_value = [(''hunter2'', EXACT_VALUE)],
     counts = [], max_length = 7, replacement = ''[REDACTED]'', pending = [], redacted = False\<rparr>"

lemma whole_by_parts:
  assumes "redactor_feed True rd data = (rd', red)" "redacted rd' = z" "fst (failure_finish (final_collector L (utf8_decode red))) = t"
  shows "pr_text (project_whole L rd data) = t \<and> pr_redacted (project_whole L rd data) = z"
  using project_whole_text [OF assms(1), of L] assms(2,3) by simp

lemma split_halves:
  "pr_text (project_whole default_limits secret_redactor ''hunt'') = lit ''hunt'' \<and> pr_redacted (project_whole default_limits secret_redactor ''hunt'') = False"
  "pr_text (project_whole default_limits secret_redactor (''er2'' @ [CHR 0x0A])) = lit (''er2'' @ [CHR 0x0A]) \<and>
     pr_redacted (project_whole default_limits secret_redactor (''er2'' @ [CHR 0x0A])) = False"
  "pr_text (project_whole default_limits secret_redactor (''hunter2'' @ [CHR 0x0A])) = lit (''[REDACTED]'' @ [CHR 0x0A]) \<and>
     pr_redacted (project_whole default_limits secret_redactor (''hunter2'' @ [CHR 0x0A])) = True"
  by (rule whole_by_parts [OF surjective_pairing]; code_simp)+

text \<open>
  Redaction sees one slice at a time: a secret that the retrieval of the whole output replaces is read
  in the clear, and reported as not redacted, by asking for two adjacent slices that cut it.
\<close>

theorem adapter_slices_split_secret:
  "\<exists>r a m ref s1 s2 whole. run_adapter split_request split_env None = (Some r, Inr a) \<and> ad_envelope a = Some m \<and>
    attribute m (lit ''capture_ref'') = Inr (mstr ref) \<and>
    retrieve_adapter_slice (Some r) split_request ref (lit ''stdout'') 0 4 (Some 100) = Inr s1 \<and>
    ar_inline_text s1 = Some (lit ''hunt'') \<and> \<not> ar_redacted s1 \<and>
    retrieve_adapter_slice (Some r) split_request ref (lit ''stdout'') 4 8 (Some 100) = Inr s2 \<and>
    ar_inline_text s2 = Some (lit (''er2'' @ [CHR 0x0A])) \<and> \<not> ar_redacted s2 \<and>
    retrieve_adapter_slice (Some r) split_request ref (lit ''stdout'') 0 8 (Some 100) = Inr whole \<and>
    ar_inline_text whole = Some (lit (''[REDACTED]'' @ [CHR 0x0A])) \<and> ar_redacted whole"
proof -
  let ?env = "ae_capture split_env"
  let ?st = "drain_all (aq_max_capture_bytes split_request) (aq_mode split_request = ENFORCE) (env_reads ?env)"
  let ?argv = "ArgvSequence (map StrArgument (aq_argv split_request))"
  have v: "validate_argv ?argv = Inr [lit ''ls'']" "aq_mode split_request \<noteq> BYPASS" "0 \<le> aq_max_capture_bytes split_request"
    "env_spawn_ok ?env" "env_close_ok ?env" "env_manifest_ok ?env" "env_wait ?env \<noteq> WaitCancelled" by code_simp+
  obtain r capture where c: "capture_command ?argv (aq_max_capture_bytes split_request) (aq_mode split_request = ENFORCE) ?env None = (Some r, Inr capture)"
    using fresh_capture [OF v(4-7,1,3)] by blast
  have j: "json_ok (manifest_json (env_capture_id ?env) ?st (command_of ?env) (env_finished_ns ?env))" by (rule manifest_ok; code_simp)
  have id: "env_capture_id ?env \<noteq> []" "list_all is_hex (env_capture_id ?env)" by code_simp+
  have L: "resolve_limits (request_args split_request) = Inr default_limits" "build_redactor (request_args split_request) = Inr secret_redactor"
    by code_simp+
  have cut: "length (sw_content (cs_stdout ?st)) = 8" "read_range (sw_content (cs_stdout ?st)) 0 4 = ''hunt''"
    "read_range (sw_content (cs_stdout ?st)) 4 8 = ''er2'' @ [CHR 0x0A]" "read_range (sw_content (cs_stdout ?st)) 0 8 = ''hunter2'' @ [CHR 0x0A]" by code_simp+
  obtain a m digest where a: "run_adapter split_request split_env None = (Some r, Inr a)" "ad_envelope a = Some m"
    "attribute m (lit ''capture_ref'') = Inr (mstr (capture_ref_of (res_capture_id capture) (lit (sha256_hex digest))))"
    using run_adapter_captured [OF v(2) c L] by blast
  note range = captured_range [OF v(2) c id j L, where digest = digest and limit = 100]
  have le: "4 \<le> int (length (sw_content (cs_stdout ?st)))" "8 \<le> int (length (sw_content (cs_stdout ?st)))" unfolding cut by simp_all
  let ?get = "\<lambda>start stop. retrieve_adapter_slice (Some r) split_request (capture_ref_of (res_capture_id capture) (lit (sha256_hex digest))) (lit ''stdout'')
      start stop (Some 100)"
  have s: "\<exists>out. ?get 0 4 = Inr out \<and> ar_inline_text out = Some (lit ''hunt'') \<and> \<not> ar_redacted out"
    "\<exists>out. ?get 4 8 = Inr out \<and> ar_inline_text out = Some (lit (''er2'' @ [CHR 0x0A])) \<and> \<not> ar_redacted out"
    "\<exists>out. ?get 0 8 = Inr out \<and> ar_inline_text out = Some (lit (''[REDACTED]'' @ [CHR 0x0A])) \<and> ar_redacted out"
    using range [of 4 0, OF le(1) order.refl, unfolded cut split_halves [THEN conjunct1] split_halves [THEN conjunct2]]
      range [of 8 4, OF le(2), unfolded cut split_halves [THEN conjunct1] split_halves [THEN conjunct2]]
      range [of 8 0, OF le(2) order.refl, unfolded cut split_halves [THEN conjunct1] split_halves [THEN conjunct2]]
    by auto
  then obtain s1 s2 whole where "?get 0 4 = Inr s1" "ar_inline_text s1 = Some (lit ''hunt'')" "\<not> ar_redacted s1"
    "?get 4 8 = Inr s2" "ar_inline_text s2 = Some (lit (''er2'' @ [CHR 0x0A]))" "\<not> ar_redacted s2"
    "?get 0 8 = Inr whole" "ar_inline_text whole = Some (lit (''[REDACTED]'' @ [CHR 0x0A]))" "ar_redacted whole" by blast
  with a show ?thesis by blast
qed

end
