(* ===== verification/Kubernetes.thy ===== *)
theory Kubernetes
  imports Adapter
begin

text \<open>
  \<open>kubernetes.py\<close>: the read boundary in front of \<open>kubectl\<close>.  The runner pins executable, kubeconfig and
  context; the caller only supplies logical arguments, which are validated before anything runs.  The
  file system is an argument: \<open>files\<close> gives the bytes of a regular file at a resolved path, \<open>resolve\<close> is
  \<open>Path.resolve\<close>.  Shown: which argument vectors pass, that the pinned prefix is the only place where an
  accepted vector names an identity, that a rejected vector leaves no trace, and that the Secret check
  looks at one positional argument only.
\<close>

section \<open>Arguments\<close>

definition VALUE_FLAGS :: "pystr list" where
  "VALUE_FLAGS = map lit [''-n'', ''--namespace'', ''-o'', ''--output'', ''--selector'', ''-l'', ''--field-selector'', ''--sort-by'', ''--since'',
     ''--since-time'', ''--tail'', ''--limit'', ''--request-timeout'']"

definition SIMPLE_READ_ONLY :: "pystr list" where
  "SIMPLE_READ_ONLY = map lit [''api-resources'', ''api-versions'', ''version'', ''explain'', ''top'']"

definition MUTATING_OR_INTERACTIVE :: "pystr list" where
  "MUTATING_OR_INTERACTIVE = map lit [''apply'', ''attach'', ''autoscale'', ''cp'', ''create'', ''debug'', ''delete'', ''drain'', ''edit'', ''exec'',
     ''expose'', ''label'', ''patch'', ''port-forward'', ''proxy'', ''replace'', ''rollout restart'', ''run'', ''scale'', ''set'', ''taint'', ''uncordon'']"

definition has_value :: "pystr \<Rightarrow> bool" where
  "has_value token \<longleftrightarrow> list_ex (\<lambda>flag. prefix (lit ''--'') flag \<and> prefix (flag @ lit ''='') token) VALUE_FLAGS"

fun positionals :: "bool \<Rightarrow> pystr list \<Rightarrow> pystr list" where
  "positionals skip [] = []"
| "positionals skip (token # ts) =
     (if skip then positionals False ts
      else if token = lit ''--'' then positionals False ts
      else if token \<in> set VALUE_FLAGS then positionals True ts
      else if has_value token then positionals False ts
      else if prefix (lit ''-'') token then positionals False ts
      else token # positionals False ts)"

definition flag_name :: "pystr \<Rightarrow> pystr" where
  "flag_name token = takeWhile (\<lambda>c. c \<noteq> 61) token"

fun check_tokens :: "pystr list \<Rightarrow> unit result" where
  "check_tokens [] = Inr ()"
| "check_tokens (token # ts) =
     (if flag_name token \<in> set IDENTITY_FLAGS then Inl (KubernetesReadError ''kubectl identity flags are runner-owned'')
      else if token = lit ''--raw'' \<or> prefix (lit ''--raw='') token then Inl (KubernetesReadError ''kubectl --raw is outside the read boundary'')
      else if token = lit ''--'' \<and> ts \<noteq> [] then Inl (KubernetesReadError ''trailing command argv is outside the read boundary'')
      else check_tokens ts)"

definition names_secret :: "pystr \<Rightarrow> bool" where
  "names_secret resource \<longleftrightarrow> list_ex (\<lambda>item. hd (split_on 46 (hd (split_on 47 item))) \<in> {lit ''secret'', lit ''secrets''}) (split_on 44 resource)"

definition combined_verb :: "pystr \<Rightarrow> pystr option \<Rightarrow> pystr" where
  "combined_verb verb subverb = (case subverb of Some s \<Rightarrow> if s = [] then verb else verb @ lit '' '' @ s | None \<Rightarrow> verb)"

definition secret_resource :: "pystr option \<Rightarrow> bool" where
  "secret_resource resource = (case resource of Some r \<Rightarrow> r \<noteq> [] \<and> names_secret r | None \<Rightarrow> False)"

definition allow_verb :: "pystr \<Rightarrow> pystr option \<Rightarrow> unit result" where
  "allow_verb verb subverb =
     (if verb \<in> set MUTATING_OR_INTERACTIVE \<or> combined_verb verb subverb \<in> set MUTATING_OR_INTERACTIVE then Inl (KubernetesReadError ''is not read-only'')
      else if verb \<in> {lit ''get'', lit ''describe'', lit ''logs''} then
        (if secret_resource subverb then Inl (KubernetesReadError ''Kubernetes Secret reads are outside the boundary'') else Inr ())
      else if verb \<in> set SIMPLE_READ_ONLY then Inr ()
      else if verb = lit ''auth'' \<and> subverb = Some (lit ''can-i'') then Inr ()
      else if verb = lit ''config'' \<and> subverb \<in> {Some (lit ''current-context''), Some (lit ''get-contexts''), Some (lit ''view'')} then Inr ()
      else if verb = lit ''cluster-info'' \<and> subverb \<noteq> Some (lit ''dump'') then Inr ()
      else if verb = lit ''rollout'' \<and> subverb \<in> {Some (lit ''status''), Some (lit ''history'')} then Inr ()
      else Inl (KubernetesReadError ''is not in the read-only allowlist''))"

definition check_verb :: "pystr list \<Rightarrow> unit result" where
  "check_verb ps =
     (if ps = [] then Inl (KubernetesReadError ''kubectl verb is missing'')
      else allow_verb (casefold (hd ps)) (if 1 < length ps then Some (casefold (ps ! 1)) else None))"

definition read_argument :: "argument \<Rightarrow> pystr result" where
  "read_argument a = (case a of
     StrArgument s \<Rightarrow> if s = [] \<or> 0 \<in> set s then Inl (KubernetesReadError ''kubectl read args contain an invalid argument'') else Inr s
   | OtherArgument \<Rightarrow> Inl (KubernetesReadError ''kubectl read args contain an invalid argument''))"

definition validate_kubectl_read_args :: "argv_arg \<Rightarrow> pystr list result" where
  "validate_kubectl_read_args args = (case args of
     ShellString s \<Rightarrow> Inl (KubernetesReadError ''kubectl read args must be a non-empty string sequence'')
   | ArgvSequence xs \<Rightarrow>
       if xs = [] then Inl (KubernetesReadError ''kubectl read args must be a non-empty string sequence'')
       else bind_r (mapM_r read_argument xs) (\<lambda>values.
         bind_r (check_tokens values) (\<lambda>_.
         bind_r (check_verb (positionals False values)) (\<lambda>_. Inr values))))"

section \<open>Identity and receipt\<close>

record kubernetes_identity =
  ki_executable :: pystr
  ki_kubeconfig :: pystr
  ki_context :: pystr
  ki_api_server_sha256 :: pystr

definition mk_kubernetes_identity :: "(pystr \<Rightarrow> pystr) \<Rightarrow> (pystr \<Rightarrow> bytes option) \<Rightarrow> kubernetes_identity \<Rightarrow> kubernetes_identity result" where
  "mk_kubernetes_identity resolve files i =
     (if files (resolve (ki_executable i)) = None \<or> files (resolve (ki_kubeconfig i)) = None
        then Inl (KubernetesReadError ''pinned executable and kubeconfig must be regular files'')
      else if ki_context i = [] then Inl (KubernetesReadError ''pinned context must not be empty'')
      else if length (ki_api_server_sha256 i) \<noteq> 64 \<or> \<not> list_all is_hex (ki_api_server_sha256 i)
        then Inl (KubernetesReadError ''api_server_sha256 must be lowercase SHA-256 hex'')
      else Inr (i\<lparr>ki_executable := resolve (ki_executable i), ki_kubeconfig := resolve (ki_kubeconfig i)\<rparr>))"

record kubernetes_receipt =
  kr_logical_command_id :: pystr
  kr_executable_sha256 :: pystr
  kr_kubeconfig_sha256 :: pystr
  kr_context_sha256 :: pystr
  kr_api_server_sha256 :: pystr
  kr_argv_sha256 :: pystr
  kr_identity_binding_sha256 :: pystr
  kr_identity_source :: pystr
  kr_direct_argv :: bool

definition kubernetes_receipt_dict :: "kubernetes_receipt \<Rightarrow> jdict" where
  "kubernetes_receipt_dict r =
     [(lit ''logical_command_id'', JStr (kr_logical_command_id r)), (lit ''executable_sha256'', JStr (kr_executable_sha256 r)),
      (lit ''kubeconfig_sha256'', JStr (kr_kubeconfig_sha256 r)), (lit ''context_sha256'', JStr (kr_context_sha256 r)),
      (lit ''api_server_sha256'', JStr (kr_api_server_sha256 r)), (lit ''argv_sha256'', JStr (kr_argv_sha256 r)),
      (lit ''identity_binding_sha256'', JStr (kr_identity_binding_sha256 r)), (lit ''identity_source'', JStr (kr_identity_source r)),
      (lit ''direct_argv'', JBool (kr_direct_argv r))]"

definition sha256_bytes :: "bytes \<Rightarrow> pystr" where
  "sha256_bytes b = lit (sha256_hex b)"

definition sha256_file :: "(pystr \<Rightarrow> bytes option) \<Rightarrow> pystr \<Rightarrow> pystr result" where
  "sha256_file files p = (case files p of Some b \<Rightarrow> Inr (sha256_bytes b) | None \<Rightarrow> Inl OSError)"

definition ascii_digest :: "json \<Rightarrow> pystr" where
  "ascii_digest v = sha256_bytes (utf8_encode (dumps True v))"

definition pinned_argv :: "kubernetes_identity \<Rightarrow> pystr list \<Rightarrow> pystr list" where
  "pinned_argv i args = [ki_executable i, lit ''--kubeconfig'', ki_kubeconfig i, lit ''--context'', ki_context i] @ args"

definition build_kubernetes_receipt ::
  "(pystr \<Rightarrow> bytes option) \<Rightarrow> pystr \<Rightarrow> kubernetes_identity \<Rightarrow> argv_arg \<Rightarrow> (pystr list \<times> kubernetes_receipt) result" where
  "build_kubernetes_receipt files cmd i args =
     (if cmd = [] then Inl (KubernetesReadError ''logical_command_id must not be empty'')
      else bind_r (validate_kubectl_read_args args) (\<lambda>logical_args.
        let argv = pinned_argv i logical_args in
        bind_r (sha256_file files (ki_executable i)) (\<lambda>executable.
        bind_r (sha256_file files (ki_kubeconfig i)) (\<lambda>kubeconfig.
        bind_r (encode_str (ki_context i)) (\<lambda>context_bytes.
        let context_sha256 = sha256_bytes context_bytes;
            argv_sha256 = ascii_digest (JArr (map JStr argv));
            binding = ascii_digest (JObj [(lit ''executable_sha256'', JStr executable), (lit ''kubeconfig_sha256'', JStr kubeconfig),
              (lit ''context_sha256'', JStr context_sha256), (lit ''api_server_sha256'', JStr (ki_api_server_sha256 i)),
              (lit ''argv_sha256'', JStr argv_sha256)])
        in Inr (argv, \<lparr>kr_logical_command_id = cmd, kr_executable_sha256 = executable, kr_kubeconfig_sha256 = kubeconfig,
             kr_context_sha256 = context_sha256, kr_api_server_sha256 = ki_api_server_sha256 i, kr_argv_sha256 = argv_sha256,
             kr_identity_binding_sha256 = binding, kr_identity_source = lit ''runner_injected'', kr_direct_argv = True\<rparr>))))))"

section \<open>One read\<close>

record kubernetes_call =
  kc_command_id :: pystr
  kc_args :: argv_arg
  kc_identity :: kubernetes_identity
  kc_mode :: adapter_mode
  kc_host_id :: pystr
  kc_harness :: pystr
  kc_policy_ref :: pystr
  kc_policy_digest :: pystr
  kc_spool_root :: "pystr option"
  kc_cwd :: "pystr option"
  kc_bindings :: "(pystr \<times> pystr option) list option"
  kc_limits :: "projection_limits option"

definition read_limits :: projection_limits where
  "read_limits = \<lparr>max_bytes = 65536, max_lines = 2000, max_estimated_tokens = 16000\<rparr>"

definition read_request :: "kubernetes_call \<Rightarrow> pystr list \<Rightarrow> adapter_request" where
  "read_request k argv = \<lparr>aq_mode = kc_mode k, aq_argv = argv, aq_policy_ref = kc_policy_ref k, aq_policy_digest = kc_policy_digest k,
     aq_host_id = kc_host_id k, aq_harness = kc_harness k,
     aq_bindings = AList.update (lit ''logical_command_id'') (Some (kc_command_id k)) (case kc_bindings k of Some b \<Rightarrow> b | None \<Rightarrow> []),
     aq_spool_root = kc_spool_root k, aq_cwd = kc_cwd k, aq_max_capture_bytes = 16 * 1024 * 1024,
     aq_limits = (case kc_limits k of Some L \<Rightarrow> L | None \<Rightarrow> read_limits), aq_exact_values = [], aq_rules = None, aq_semantic_adapter = None\<rparr>"

definition run_kubernetes_read ::
  "(pystr \<Rightarrow> bytes option) \<Rightarrow> kubernetes_call \<Rightarrow> adapter_env \<Rightarrow> node option \<Rightarrow> node option \<times> (adapter_result \<times> kubernetes_receipt) result" where
  "run_kubernetes_read files k e root =
     (case build_kubernetes_receipt files (kc_command_id k) (kc_identity k) (kc_args k) of
        Inl x \<Rightarrow> (root, Inl x)
      | Inr (argv, rc) \<Rightarrow>
          (case mk_adapter_request (ArgvSequence (map StrArgument argv)) (read_request k argv) of
             Inl x \<Rightarrow> (root, Inl x)
           | Inr q \<Rightarrow> (let (root, res) = run_adapter q e root in (root, bind_r res (\<lambda>a. Inr (a, rc))))))"

section \<open>What passes\<close>

definition safe_token :: "pystr \<Rightarrow> bool" where
  "safe_token t \<longleftrightarrow> t \<noteq> [] \<and> 0 \<notin> set t \<and> flag_name t \<notin> set IDENTITY_FLAGS \<and> t \<noteq> lit ''--raw'' \<and> \<not> prefix (lit ''--raw='') t"

text \<open>
  A resource argument names a Secret when at its beginning, or after one of its commas, the word up to
  the next comma, full stop or slash is \<open>secret\<close> or \<open>secrets\<close>.
\<close>

definition starts_secret :: "pystr \<Rightarrow> bool" where
  "starts_secret t \<longleftrightarrow> takeWhile (\<lambda>c. c \<noteq> 44 \<and> c \<noteq> 46 \<and> c \<noteq> 47) t \<in> {lit ''secret'', lit ''secrets''}"

definition reads_secret :: "pystr \<Rightarrow> bool" where
  "reads_secret r \<longleftrightarrow> starts_secret r \<or> (\<exists>before after. r = before @ 44 # after \<and> starts_secret after)"

lemma hd_split_on: "hd (split_on c s) = takeWhile (\<lambda>x. x \<noteq> c) s"
  by (induction s) (auto simp: hd_Cons_tl [symmetric] split: list.splits)

lemma split_on_Cons: "c \<noteq> sep \<Longrightarrow> split_on sep (c # s) = (c # hd (split_on sep s)) # tl (split_on sep s)"
  by (auto split: list.splits)

definition secret_item :: "pystr \<Rightarrow> bool" where
  "secret_item item \<longleftrightarrow> hd (split_on 46 (hd (split_on 47 item))) \<in> {lit ''secret'', lit ''secrets''}"

lemma secret_item_word: "secret_item (takeWhile (\<lambda>x. x \<noteq> 44) t) \<longleftrightarrow> starts_secret t"
proof -
  have "takeWhile (\<lambda>x. x \<noteq> 46) (takeWhile (\<lambda>x. x \<noteq> 47) (takeWhile (\<lambda>x. x \<noteq> 44) t)) = takeWhile (\<lambda>c. c \<noteq> 44 \<and> c \<noteq> 46 \<and> c \<noteq> 47) t"
    by (induction t) auto
  then show ?thesis by (simp add: secret_item_def starts_secret_def hd_split_on del: lit_simps)
qed

lemma secret_items_after:
  "list_ex secret_item (tl (split_on 44 r)) \<longleftrightarrow> (\<exists>before after. r = before @ 44 # after \<and> starts_secret after)"
proof (induction r)
  case (Cons c s)
  have cut: "(\<exists>before after. c # s = before @ 44 # after \<and> starts_secret after) \<longleftrightarrow>
      c = 44 \<and> starts_secret s \<or> (\<exists>before after. s = before @ 44 # after \<and> starts_secret after)"
    by (auto simp: Cons_eq_append_conv)
  show ?case
  proof (cases "c = 44")
    case True
    have "list_ex secret_item (split_on 44 s) \<longleftrightarrow> secret_item (hd (split_on 44 s)) \<or> list_ex secret_item (tl (split_on 44 s))"
      by (cases "split_on 44 s") auto
    then show ?thesis unfolding cut using True Cons.IH by (simp add: hd_split_on secret_item_word)
  qed (use Cons.IH cut split_on_Cons in \<open>simp\<close>)
qed simp

lemma names_secret_iff: "names_secret r \<longleftrightarrow> reads_secret r"
proof -
  have "names_secret r \<longleftrightarrow> secret_item (hd (split_on 44 r)) \<or> list_ex secret_item (tl (split_on 44 r))"
    unfolding names_secret_def secret_item_def [symmetric] by (cases "split_on 44 r") auto
  then show ?thesis by (simp add: reads_secret_def secret_items_after hd_split_on secret_item_word)
qed

definition read_command :: "pystr \<Rightarrow> pystr option \<Rightarrow> bool" where
  "read_command verb sub \<longleftrightarrow>
     verb \<in> {lit ''get'', lit ''describe'', lit ''logs''} \<and> (\<forall>r. sub = Some r \<longrightarrow> \<not> reads_secret r) \<or>
     verb \<in> set SIMPLE_READ_ONLY \<or> (verb = lit ''cluster-info'' \<and> sub \<noteq> Some (lit ''dump'')) \<or>
     (verb, sub) \<in> {(lit ''auth'', Some (lit ''can-i'')), (lit ''config'', Some (lit ''current-context'')), (lit ''config'', Some (lit ''get-contexts'')),
        (lit ''config'', Some (lit ''view'')), (lit ''rollout'', Some (lit ''status'')), (lit ''rollout'', Some (lit ''history''))}"

lemma check_tokens_iff:
  "check_tokens ts = Inr () \<longleftrightarrow>
     list_all (\<lambda>t. flag_name t \<notin> set IDENTITY_FLAGS \<and> t \<noteq> lit ''--raw'' \<and> \<not> prefix (lit ''--raw='') t) ts \<and> lit ''--'' \<notin> set (butlast ts)"
  by (induction ts) (auto simp del: lit_simps)

lemma read_arguments_iff:
  "mapM_r read_argument xs = Inr vs \<longleftrightarrow> xs = map StrArgument vs \<and> list_all (\<lambda>t. t \<noteq> [] \<and> 0 \<notin> set t) vs"
proof (induction xs arbitrary: vs)
  case (Cons x xs)
  then show ?case by (cases vs) (auto simp: bind_r_Inr_iff read_argument_def split: argument.splits if_splits)
qed auto

text \<open>The list of mutating verbs decides nothing that the allowlist does not.\<close>

lemma mutating_words:
  assumes "verb @ lit '' '' @ s \<in> set MUTATING_OR_INTERACTIVE"
  shows "verb = lit ''rollout'' \<and> s = lit ''restart''"
proof -
  have "list_all (\<lambda>t. 32 \<notin> set t \<or> t = lit ''rollout restart'') MUTATING_OR_INTERACTIVE" by code_simp
  moreover have "32 \<in> set (verb @ lit '' '' @ s)" by simp
  ultimately have "verb @ lit '' '' @ s = lit ''rollout restart''" using assms unfolding list_all_iff by blast
  then have "verb @ 32 # s = lit ''rollout'' @ 32 # lit ''restart''" by simp
  moreover have "32 \<notin> set (lit ''rollout'')" "32 \<notin> set (lit ''restart'')" by code_simp+
  ultimately show ?thesis by (metis append_Cons_eq_iff)
qed

lemma allowed_not_mutating:
  "list_all (\<lambda>v. v \<notin> set MUTATING_OR_INTERACTIVE)
     ([lit ''get'', lit ''describe'', lit ''logs'', lit ''auth'', lit ''config'', lit ''rollout'', lit ''cluster-info''] @ SIMPLE_READ_ONLY)"
  by code_simp

lemma no_secret_nil: "\<not> names_secret []"
  by (simp add: names_secret_def)

lemma combined_mutating: "combined_verb verb sub \<in> set MUTATING_OR_INTERACTIVE \<Longrightarrow>
    verb \<in> set MUTATING_OR_INTERACTIVE \<or> verb = lit ''rollout'' \<and> sub = Some (lit ''restart'')"
  using mutating_words by (auto simp: combined_verb_def split: option.splits if_splits simp del: lit_simps)

lemma read_not_mutating: "read_command verb sub \<Longrightarrow> verb \<notin> set MUTATING_OR_INTERACTIVE"
  using allowed_not_mutating unfolding read_command_def list_all_iff by (auto simp del: lit_simps)

lemma restart_not_read: "\<not> read_command (lit ''rollout'') (Some (lit ''restart''))"
proof -
  have "lit ''rollout'' \<notin> set SIMPLE_READ_ONLY" by code_simp
  then show ?thesis by (simp add: read_command_def lit_eq_iff del: lit_simps)
qed

lemma if_chain:
  "(if c then True else d) \<longleftrightarrow> c \<or> d" "(if c then False else d) \<longleftrightarrow> \<not> c \<and> d" "Inl x \<noteq> (Inr y :: 'a + unit)"
  by auto

lemma allowlisted:
  "(if verb \<in> {lit ''get'', lit ''describe'', lit ''logs''} then P
    else verb \<in> set SIMPLE_READ_ONLY \<or> Q) \<longleftrightarrow> verb \<in> {lit ''get'', lit ''describe'', lit ''logs''} \<and> P \<or> verb \<in> set SIMPLE_READ_ONLY \<or> Q"
  if "verb \<in> {lit ''get'', lit ''describe'', lit ''logs''} \<Longrightarrow> \<not> Q"
proof -
  have "list_all (\<lambda>v. v \<notin> set SIMPLE_READ_ONLY) [lit ''get'', lit ''describe'', lit ''logs'']" by code_simp
  then have "verb \<in> {lit ''get'', lit ''describe'', lit ''logs''} \<Longrightarrow> verb \<notin> set SIMPLE_READ_ONLY" by (auto simp: list_all_iff simp del: lit_simps)
  then show ?thesis using that unfolding if_bool_eq_disj by blast
qed

lemma allow_verb_iff: "allow_verb verb sub = Inr () \<longleftrightarrow> read_command verb sub"
proof (cases "verb \<in> set MUTATING_OR_INTERACTIVE \<or> combined_verb verb sub \<in> set MUTATING_OR_INTERACTIVE")
  case True
  then have "\<not> read_command verb sub" by (metis combined_mutating read_not_mutating restart_not_read)
  then show ?thesis using True by (simp add: allow_verb_def)
next
  case False
  define Q where "Q \<longleftrightarrow> verb = lit ''auth'' \<and> sub = Some (lit ''can-i'') \<or>
     verb = lit ''config'' \<and> sub \<in> {Some (lit ''current-context''), Some (lit ''get-contexts''), Some (lit ''view'')} \<or>
     verb = lit ''cluster-info'' \<and> sub \<noteq> Some (lit ''dump'') \<or> verb = lit ''rollout'' \<and> sub \<in> {Some (lit ''status''), Some (lit ''history'')}"
  have nq: "verb \<in> {lit ''get'', lit ''describe'', lit ''logs''} \<Longrightarrow> \<not> Q" unfolding Q_def by (auto simp: lit_eq_iff simp del: lit_simps)
  have "allow_verb verb sub = Inr () \<longleftrightarrow>
     (if verb \<in> {lit ''get'', lit ''describe'', lit ''logs''} then \<not> secret_resource sub else verb \<in> set SIMPLE_READ_ONLY \<or> Q)"
    unfolding allow_verb_def Q_def using False by (simp only: if_chain if_False if_distrib [where f = "\<lambda>r. r = Inr ()"] simp_thms cong: if_cong)
  also have "\<dots> \<longleftrightarrow> verb \<in> {lit ''get'', lit ''describe'', lit ''logs''} \<and> \<not> secret_resource sub \<or> verb \<in> set SIMPLE_READ_ONLY \<or> Q"
    by (rule allowlisted [OF nq])
  also have "\<dots> \<longleftrightarrow> read_command verb sub"
    unfolding read_command_def Q_def secret_resource_def names_secret_iff using no_secret_nil [unfolded names_secret_iff] by (cases sub) (auto simp del: lit_simps)
  finally show ?thesis .
qed

lemma check_verb_iff: "check_verb ps = Inr () \<longleftrightarrow>
    ps \<noteq> [] \<and> read_command (casefold (hd ps)) (if 1 < length ps then Some (casefold (ps ! 1)) else None)"
  by (simp add: check_verb_def allow_verb_iff)

lemma accepted_args_iff:
  "validate_kubectl_read_args args = Inr values \<longleftrightarrow>
     args = ArgvSequence (map StrArgument values) \<and> list_all safe_token values \<and> lit ''--'' \<notin> set (butlast values) \<and>
     (case positionals False values of
        [] \<Rightarrow> False
      | [v] \<Rightarrow> read_command (casefold v) None
      | v # s # _ \<Rightarrow> read_command (casefold v) (Some (casefold s)))"
proof -
  let ?ps = "positionals False values"
  have st: "list_all safe_token values \<longleftrightarrow> list_all (\<lambda>t. t \<noteq> [] \<and> 0 \<notin> set t) values \<and>
      list_all (\<lambda>t. flag_name t \<notin> set IDENTITY_FLAGS \<and> t \<noteq> lit ''--raw'' \<and> \<not> prefix (lit ''--raw='') t) values"
    unfolding safe_token_def list_all_iff by blast
  have ps: "check_verb ?ps = Inr () \<longleftrightarrow> (case ?ps of [] \<Rightarrow> False | [v] \<Rightarrow> read_command (casefold v) None
      | v # s # _ \<Rightarrow> read_command (casefold v) (Some (casefold s)))"
    unfolding check_verb_iff by (simp split: list.splits)
  have ne: "?ps \<noteq> [] \<Longrightarrow> values \<noteq> []" by auto
  have "validate_kubectl_read_args args = Inr values \<longleftrightarrow>
      (\<exists>xs. args = ArgvSequence xs \<and> xs \<noteq> [] \<and> mapM_r read_argument xs = Inr values \<and> check_tokens values = Inr () \<and> check_verb ?ps = Inr ())"
    by (auto simp: validate_kubectl_read_args_def bind_r_Inr_iff split: argv_arg.splits)
  also have "\<dots> \<longleftrightarrow> args = ArgvSequence (map StrArgument values) \<and> values \<noteq> [] \<and> list_all (\<lambda>t. t \<noteq> [] \<and> 0 \<notin> set t) values \<and>
      check_tokens values = Inr () \<and> check_verb ?ps = Inr ()" by (auto simp: read_arguments_iff)
  finally show ?thesis unfolding check_tokens_iff ps st using ne by (cases ?ps) (auto simp del: lit_simps)
qed


section \<open>The pinned identity\<close>

lemma identity_flag_name: "t \<in> set IDENTITY_FLAGS \<Longrightarrow> flag_name t = t"
proof -
  have "list_all (\<lambda>t. flag_name t = t) IDENTITY_FLAGS" by code_simp
  then show "t \<in> set IDENTITY_FLAGS \<Longrightarrow> flag_name t = t" by (simp add: list_all_iff)
qed

lemma drop_identity_none: "list_all (\<lambda>t. t \<notin> set IDENTITY_FLAGS) ts \<Longrightarrow> drop_identity ts = ts"
  by (induction ts rule: drop_identity.induct) auto

lemma drop_pinned:
  assumes "list_all safe_token args"
  shows "drop_identity (tl (pinned_argv i args)) = args"
proof -
  have "list_all (\<lambda>t. t \<notin> set IDENTITY_FLAGS) args" using assms identity_flag_name by (fastforce simp: safe_token_def list_all_iff)
  moreover have "lit ''--kubeconfig'' \<in> set IDENTITY_FLAGS" "lit ''--context'' \<in> set IDENTITY_FLAGS" by code_simp+
  ultimately show ?thesis using drop_identity_none by (simp add: pinned_argv_def del: lit_simps)
qed

lemma request_unchanged:
  "mk_adapter_request (ArgvSequence (map StrArgument argv)) (read_request k argv) = Inr q \<Longrightarrow> q = read_request k argv"
proof -
  have "mapM_r (\<lambda>a. case a of StrArgument s \<Rightarrow> Inr s | OtherArgument \<Rightarrow> Inl (TypeError e)) (map StrArgument argv) = Inr argv" for e
    by (induction argv) auto
  then show "mk_adapter_request (ArgvSequence (map StrArgument argv)) (read_request k argv) = Inr q \<Longrightarrow> q = read_request k argv"
    by (auto simp: mk_adapter_request_def read_request_def bind_r_Inr_iff split: if_splits)
qed

text \<open>
  C29.  Identity is the runner's: a read whose arguments are refused runs nothing and leaves the spool as it
  was, and a read that runs is a run of the adapter on exactly the argument vector of the runner's
  executable, \<open>--kubeconfig\<close> and its file, \<open>--context\<close> and its name, followed by the arguments that passed
  the boundary, none of which names an identity; taking the identity
  flags out again, as the semantic projection does, gives back exactly those arguments, and the
  receipt binds the argument vector that ran.
\<close>

theorem kubernetes_identity_pinned:
  "(validate_kubectl_read_args (kc_args k) = Inl x \<longrightarrow> (\<exists>y. run_kubernetes_read files k e root = (root, Inl y))) \<and>
   (run_kubernetes_read files k e root = (root', Inr (a, rc)) \<longrightarrow>
      (\<exists>args q. validate_kubectl_read_args (kc_args k) = Inr args \<and> run_adapter q e root = (root', Inr a) \<and>
        aq_argv q = [ki_executable (kc_identity k), lit ''--kubeconfig'', ki_kubeconfig (kc_identity k),
                     lit ''--context'', ki_context (kc_identity k)] @ args \<and>
        list_all (\<lambda>t. flag_name t \<notin> set IDENTITY_FLAGS) args \<and> drop_identity (tl (aq_argv q)) = args \<and>
        kr_argv_sha256 rc = ascii_digest (JArr (map JStr (aq_argv q)))))"
proof (intro conjI impI)
  assume "validate_kubectl_read_args (kc_args k) = Inl x"
  then show "\<exists>y. run_kubernetes_read files k e root = (root, Inl y)"
    by (simp add: run_kubernetes_read_def build_kubernetes_receipt_def)
next
  assume r: "run_kubernetes_read files k e root = (root', Inr (a, rc))"
  then obtain argv q where b: "build_kubernetes_receipt files (kc_command_id k) (kc_identity k) (kc_args k) = Inr (argv, rc)"
    "mk_adapter_request (ArgvSequence (map StrArgument argv)) (read_request k argv) = Inr q" "run_adapter q e root = (root', Inr a)"
    by (auto simp: run_kubernetes_read_def bind_r_Inr_iff case_prod_beta Let_def prod_eq_iff split: sum.splits)
  then obtain args where v: "validate_kubectl_read_args (kc_args k) = Inr args" "argv = pinned_argv (kc_identity k) args"
    "kr_argv_sha256 rc = ascii_digest (JArr (map JStr argv))"
    by (auto simp: build_kubernetes_receipt_def bind_r_Inr_iff Let_def simp del: lit_simps split: if_splits)
  have safe: "list_all safe_token args" using v(1) unfolding accepted_args_iff by blast
  then have "list_all (\<lambda>t. flag_name t \<notin> set IDENTITY_FLAGS) args" by (auto simp: safe_token_def list_all_iff)
  moreover have "aq_argv q = pinned_argv (kc_identity k) args" using request_unchanged [OF b(2)] v(2) by (simp add: read_request_def)
  ultimately show "\<exists>args q. validate_kubectl_read_args (kc_args k) = Inr args \<and> run_adapter q e root = (root', Inr a) \<and>
        aq_argv q = [ki_executable (kc_identity k), lit ''--kubeconfig'', ki_kubeconfig (kc_identity k),
                     lit ''--context'', ki_context (kc_identity k)] @ args \<and>
        list_all (\<lambda>t. flag_name t \<notin> set IDENTITY_FLAGS) args \<and> drop_identity (tl (aq_argv q)) = args \<and>
        kr_argv_sha256 rc = ascii_digest (JArr (map JStr (aq_argv q)))"
    using v b(3) drop_pinned [OF safe] unfolding pinned_argv_def by metis
qed

definition example_call :: "pystr list \<Rightarrow> kubernetes_call" where
  "example_call args = \<lparr>kc_command_id = lit ''c'', kc_args = ArgvSequence (map StrArgument args),
     kc_identity = \<lparr>ki_executable = lit ''/k'', ki_kubeconfig = lit ''/f'', ki_context = lit ''x'', ki_api_server_sha256 = []\<rparr>, kc_mode = BYPASS,
     kc_host_id = lit ''h'', kc_harness = lit ''n'', kc_policy_ref = lit ''p'', kc_policy_digest = lit ''d'', kc_spool_root = None, kc_cwd = None,
     kc_bindings = None, kc_limits = None\<rparr>"

theorem kubernetes_identity_pinned_witness:
  "(\<exists>y. run_kubernetes_read (\<lambda>_. Some []) (example_call [lit ''delete'', lit ''pod'']) example_adapter_env None = (None, Inl y)) \<and>
   (\<exists>q a. run_adapter q example_adapter_env None = (None, Inr a) \<and>
      aq_argv q = [lit ''/k'', lit ''--kubeconfig'', lit ''/f'', lit ''--context'', lit ''x'', lit ''get'', lit ''pods''])"
proof -
  let ?k = "example_call [lit ''get'', lit ''pods'']" and ?d = "example_call [lit ''delete'', lit ''pod'']"
  have v: "validate_kubectl_read_args (kc_args ?d) = Inl (KubernetesReadError ''is not read-only'')"
    "validate_kubectl_read_args (kc_args ?k) = Inr [lit ''get'', lit ''pods'']" "kc_identity ?k = kc_identity (example_call [])"
    "kc_command_id ?k \<noteq> []" "list_all is_scalar (ki_context (kc_identity (example_call [])))" by code_simp+
  have r: "\<exists>a. run_adapter (read_request ?k argv) example_adapter_env None = (None, Inr a)" for argv
    by (simp add: run_adapter_def read_request_def example_call_def run_bypass_def example_adapter_env_def example_env_def)
  have "\<exists>rc. build_kubernetes_receipt (\<lambda>_. Some []) (kc_command_id ?k) (kc_identity ?k) (kc_args ?k) =
      Inr (pinned_argv (kc_identity ?k) [lit ''get'', lit ''pods''], rc)"
    by (simp add: build_kubernetes_receipt_def v sha256_file_def encode_str_def Let_def del: lit_simps)
  then obtain rc where b: "build_kubernetes_receipt (\<lambda>_. Some []) (kc_command_id ?k) (kc_identity ?k) (kc_args ?k) =
      Inr (pinned_argv (kc_identity ?k) [lit ''get'', lit ''pods''], rc)" ..
  have m: "mk_adapter_request (ArgvSequence (map StrArgument (pinned_argv i args))) (read_request ?k (pinned_argv i args)) =
      Inr (read_request ?k (pinned_argv i args))" for i args
  proof -
    have "mapM_r (\<lambda>a. case a of StrArgument s \<Rightarrow> Inr s | OtherArgument \<Rightarrow> Inl (TypeError e)) (map StrArgument ss) = Inr ss" for e ss
      by (induction ss) auto
    then show ?thesis by (simp add: mk_adapter_request_def read_request_def example_call_def) (simp add: pinned_argv_def)
  qed
  obtain a where "run_kubernetes_read (\<lambda>_. Some []) ?k example_adapter_env None = (None, Inr (a, rc))"
    using r [of "pinned_argv (kc_identity ?k) [lit ''get'', lit ''pods'']"] by (auto simp: run_kubernetes_read_def b m simp del: lit_simps)
  moreover have "kc_identity ?k = \<lparr>ki_executable = lit ''/k'', ki_kubeconfig = lit ''/f'', ki_context = lit ''x'', ki_api_server_sha256 = []\<rparr>"
    by (simp add: example_call_def)
  ultimately show ?thesis
    using kubernetes_identity_pinned [of ?d "KubernetesReadError ''is not read-only''" "\<lambda>_. Some []" example_adapter_env None None undefined undefined]
      kubernetes_identity_pinned [of ?k undefined "\<lambda>_. Some []" example_adapter_env None None a rc] v
    by (auto simp del: lit_simps)
qed

text \<open>
  The Secret boundary looks at the second positional argument only, and takes the value of a flag it does
  not know for one: a Secret named as a further resource, or after such a flag, is accepted, while the
  same resource in second place is refused.
\<close>

theorem secret_boundary_gap:
  "validate_kubectl_read_args (ArgvSequence (map StrArgument [lit ''get'', lit ''pod/x'', lit ''secret/y''])) =
     Inr [lit ''get'', lit ''pod/x'', lit ''secret/y''] \<and>
   validate_kubectl_read_args (ArgvSequence (map StrArgument [lit ''get'', lit ''--chunk-size'', lit ''5'', lit ''secrets''])) =
     Inr [lit ''get'', lit ''--chunk-size'', lit ''5'', lit ''secrets''] \<and>
   validate_kubectl_read_args (ArgvSequence (map StrArgument [lit ''get'', lit ''secret/y''])) =
     Inl (KubernetesReadError ''Kubernetes Secret reads are outside the boundary'')"
  by (intro conjI; code_simp)

end
