(* ===== verification/Floats.thy ===== *)
theory Floats
  imports Json Complex_Main
begin

text \<open>
  Python floats as far as the evidence compilers use them: IEEE 754 double precision with rounding to
  nearest, ties to even.  A finite float is its exact rational value; every operation is the exact
  operation followed by \<open>double\<close>.  Signed zeros are one value: no operation used here tells them apart.
  With them, numeric equality between the values of a JSON document (\<open>True == 1 == 1.0\<close>) and the true
  division and rounding of integers.
\<close>

section \<open>Rounding\<close>

definition round_even :: "rat \<Rightarrow> int" where
  "round_even x =
     (let f = \<lfloor>x\<rfloor>; d = x - of_int f in
      if d < 1 / 2 then f else if 1 / 2 < d then f + 1 else if even f then f else f + 1)"

text \<open>The number of bits of a natural number, and the power of two a positive rational lies above.\<close>

fun bits :: "nat \<Rightarrow> nat" where
  "bits n = (if n = 0 then 0 else Suc (bits (n div 2)))"

declare bits.simps [simp del]

definition power2 :: "int \<Rightarrow> rat" where
  "power2 k = (if 0 \<le> k then 2 ^ nat k else 1 / 2 ^ nat (- k))"

definition magnitude :: "rat \<Rightarrow> int" where
  "magnitude x =
     (let (n, d) = quotient_of \<bar>x\<bar>; k = int (bits (nat n)) - int (bits (nat d))
      in if power2 k \<le> \<bar>x\<bar> then k else k - 1)"

definition double :: "rat \<Rightarrow> rat" where
  "double x = (if x = 0 then 0 else let e = max (magnitude x - 52) (- 1074) in of_int (round_even (x / power2 e)) * power2 e)"

datatype pyfloat = Finite rat | PosInf | NegInf | NaN

definition float_of_rat :: "rat \<Rightarrow> pyfloat" where
  "float_of_rat x = (let d = double x in
     if d = 0 \<or> magnitude d < 1024 then Finite d else if 0 < d then PosInf else NegInf)"

text \<open>\<open>float(int)\<close> and \<open>int / int\<close> raise \<open>OverflowError\<close> instead of giving an infinity.\<close>

definition float_of_int :: "int \<Rightarrow> pyfloat result" where
  "float_of_int i = (case float_of_rat (of_int i) of Finite d \<Rightarrow> Inr (Finite d) | _ \<Rightarrow> Inl (OverflowError ''int too large to convert to float''))"

definition true_division :: "int \<Rightarrow> int \<Rightarrow> pyfloat result" where
  "true_division a b = (case float_of_rat (of_int a / of_int b) of
     Finite d \<Rightarrow> Inr (Finite d) | _ \<Rightarrow> Inl (OverflowError ''integer division result too large for a float''))"

definition round_float :: "pyfloat \<Rightarrow> int result" where
  "round_float f = (case f of Finite d \<Rightarrow> Inr (round_even d) | NaN \<Rightarrow> Inl (ValueError ''cannot convert float NaN to integer'')
     | _ \<Rightarrow> Inl (OverflowError ''cannot convert float infinity to integer''))"

section \<open>Literals\<close>

definition literal_value :: "pystr \<Rightarrow> rat" where
  "literal_value t =
     (let neg = (t \<noteq> [] \<and> hd t = 45); s = (if neg then tl t else t);
          ds = takeWhile is_digit s;
          (frac, r) = parse_fraction (dropWhile is_digit s);
          (expo, _) = parse_exponent r;
          e = (case expo of c # d # x \<Rightarrow> if d = 45 then - int (digits_value x) else if d = 43 then int (digits_value x) else int (digits_value (d # x))
               | _ \<Rightarrow> 0);
          k = e - int (length (drop 1 frac));
          m = of_nat (digits_value (ds @ drop 1 frac)) * (if 0 \<le> k then 10 ^ nat k else 1 / 10 ^ nat (- k))
      in if neg then - m else m)"

definition float_of_text :: "pystr \<Rightarrow> pyfloat" where
  "float_of_text t =
     (if t = lit ''NaN'' then NaN else if t = lit ''Infinity'' then PosInf else if t = lit ''-Infinity'' then NegInf
      else float_of_rat (literal_value t))"

section \<open>Numbers in documents\<close>

definition number_of :: "json \<Rightarrow> pyfloat option" where
  "number_of v = (case v of
     JBool b \<Rightarrow> Some (Finite (if b then 1 else 0)) | JInt i \<Rightarrow> Some (Finite (of_int i)) | JFloat t \<Rightarrow> Some (float_of_text t) | _ \<Rightarrow> None)"

text \<open>\<open>==\<close> between an int and a float compares exact values.\<close>

fun py_eq :: "json \<Rightarrow> json \<Rightarrow> bool" and py_eq_items :: "json list \<Rightarrow> json list \<Rightarrow> bool"
  and py_eq_pairs :: "jdict \<Rightarrow> jdict \<Rightarrow> bool" where
  "py_eq (JArr xs) (JArr ys) \<longleftrightarrow> py_eq_items xs ys"
| "py_eq (JObj xs) (JObj ys) \<longleftrightarrow> length xs = length ys \<and> py_eq_pairs xs ys"
| "py_eq v w \<longleftrightarrow> (case (number_of v, number_of w) of
      (Some a, Some b) \<Rightarrow> a = b \<and> a \<noteq> NaN
    | (None, None) \<Rightarrow> v = w
    | _ \<Rightarrow> False)"
| "py_eq_items [] ys \<longleftrightarrow> ys = []"
| "py_eq_items (x # xs) ys \<longleftrightarrow> (case ys of y # ys' \<Rightarrow> py_eq x y \<and> py_eq_items xs ys' | [] \<Rightarrow> False)"
| "py_eq_pairs [] ys \<longleftrightarrow> True"
| "py_eq_pairs ((k, v) # xs) ys \<longleftrightarrow> (case map_of ys k of Some w \<Rightarrow> py_eq v w \<and> py_eq_pairs xs ys | None \<Rightarrow> False)"

text \<open>\<open>isinstance(v, int)\<close>, which holds of booleans too.\<close>

definition int_like :: "json \<Rightarrow> int option" where
  "int_like v = (case v of JInt i \<Rightarrow> Some i | JBool b \<Rightarrow> Some (if b then 1 else 0) | _ \<Rightarrow> None)"

lemma number_examples:
  "round_even (5 / 2) = 2" "round_even (7 / 2) = 4" "double 9007199254740993 = 9007199254740992" "literal_value (lit ''-12.50e-1'') = - 5 / 4"
  "py_eq (JFloat (lit ''1.0'')) (JBool True)" "\<not> py_eq (JFloat (lit ''NaN'')) (JFloat (lit ''NaN''))"
  by code_simp+

lemma py_eq_str [simp]: "py_eq (JStr s) v \<longleftrightarrow> v = JStr s" "py_eq v (JStr s) \<longleftrightarrow> v = JStr s"
  by (cases v; auto simp: number_of_def)+

end
