(* ===== verification/Contracts.thy ===== *)
theory Contracts
  imports Formats Floats
begin

text \<open>
  \<open>contracts.py\<close>: validation of the v1 evidence contracts.  The JSON Schema check is an argument:
  \<open>schema name v\<close> is the message of the first error \<open>jsonschema\<close> reports for a document.  What the module adds
  itself is modelled: the ban on raw bodies and local paths at every depth, the links between evidence
  records, the digests and the cross-field checks of each contract.  Shown: no accepted document
  names a raw or path field at any depth, and the digest of an accepted document is that of its content.
\<close>

section \<open>Fields that may not appear\<close>

text \<open>
  \<open>re.IGNORECASE\<close> on an ASCII literal: besides the upper-case letters, the dotted and dotless i, the
  long s and the Kelvin sign match.
\<close>

definition ignore_case :: "nat \<Rightarrow> nat" where
  "ignore_case c = (if is_upper c then c + 32 else if c = 0x130 \<or> c = 0x131 then 105 else if c = 0x17F then 115 else if c = 0x212A then 107 else c)"

definition RAW_NAMES :: "pystr list" where
  "RAW_NAMES = map lit [''stdout'', ''stderr'', ''raw_output'', ''projection_body'', ''events_jsonl'', ''tool_body'', ''transcript'', ''credential'', ''secret'']"

definition PATH_NAMES :: "pystr list" where
  "PATH_NAMES = map lit [''spoolpath'', ''spool_path'', ''localpath'', ''local_path'']"

definition raw_key :: "pystr \<Rightarrow> bool" where
  "raw_key k \<longleftrightarrow> map ignore_case k \<in> set RAW_NAMES"

definition path_key :: "pystr \<Rightarrow> bool" where
  "path_key k \<longleftrightarrow> list_ex (\<lambda>n. sublist n (map ignore_case k)) PATH_NAMES"

fun deny_unsafe :: "json \<Rightarrow> unit result" and deny_items :: "json list \<Rightarrow> unit result" and deny_pairs :: "jdict \<Rightarrow> unit result" where
  "deny_unsafe (JObj kvs) = deny_pairs kvs"
| "deny_unsafe (JArr xs) = deny_items xs"
| "deny_unsafe v = Inr ()"
| "deny_items [] = Inr ()"
| "deny_items (x # xs) = bind_r (deny_unsafe x) (\<lambda>_. deny_items xs)"
| "deny_pairs [] = Inr ()"
| "deny_pairs ((k, v) # kvs) =
     (if raw_key k then Inl (ContractValidationError ''raw or sensitive body field is forbidden'')
      else if path_key k then Inl (ContractValidationError ''bare local/spool path is forbidden'')
      else bind_r (deny_unsafe v) (\<lambda>_. deny_pairs kvs))"

section \<open>Reading documents\<close>

definition get :: "jdict \<Rightarrow> string \<Rightarrow> json" where
  "get kvs k = (case jget kvs k of Some v \<Rightarrow> v | None \<Rightarrow> JNull)"

definition is_true :: "jdict \<Rightarrow> string \<Rightarrow> bool" where
  "is_true kvs k \<longleftrightarrow> get kvs k = JBool True"

text \<open>The members of an array that are objects.\<close>

fun objects :: "json list \<Rightarrow> jdict list" where
  "objects [] = []"
| "objects (JObj kvs # xs) = kvs # objects xs"
| "objects (_ # xs) = objects xs"

definition hashable_json :: "json \<Rightarrow> bool" where
  "hashable_json v \<longleftrightarrow> (case v of JArr _ \<Rightarrow> False | JObj _ \<Rightarrow> False | _ \<Rightarrow> True)"

definition check_hashable :: "json list \<Rightarrow> unit result" where
  "check_hashable vs = (if list_all hashable_json vs then Inr () else Inl (TypeError ''unhashable type''))"

text \<open>\<open>len(xs) != len(set(xs))\<close>, membership and set equality under \<open>==\<close>.\<close>

definition py_in :: "json \<Rightarrow> json list \<Rightarrow> bool" where
  "py_in v vs \<longleftrightarrow> list_ex (py_eq v) vs"

fun py_distinct :: "json list \<Rightarrow> bool" where
  "py_distinct [] \<longleftrightarrow> True"
| "py_distinct (v # vs) \<longleftrightarrow> \<not> py_in v vs \<and> py_distinct vs"

fun py_remdups :: "json list \<Rightarrow> json list" where
  "py_remdups [] = []"
| "py_remdups (v # vs) = (if py_in v vs then py_remdups vs else v # py_remdups vs)"

definition py_same_set :: "json list \<Rightarrow> json list \<Rightarrow> bool" where
  "py_same_set vs ws \<longleftrightarrow> list_all (\<lambda>v. py_in v ws) vs \<and> list_all (\<lambda>w. py_in w vs) ws"

definition require :: "bool \<Rightarrow> string \<Rightarrow> unit result" where
  "require c msg = (if c then Inr () else Inl (ContractValidationError msg))"

definition require_distinct :: "json list \<Rightarrow> string \<Rightarrow> unit result" where
  "require_distinct vs msg = bind_r (check_hashable vs) (\<lambda>_. require (py_distinct vs) msg)"

section \<open>Evidence links\<close>

definition ARTIFACT :: pystr where "ARTIFACT = lit ''artifact:sha256:''"

definition artifact_bound :: "jdict \<Rightarrow> bool" where
  "artifact_bound record = (case get record ''locator'' of
     JStr l \<Rightarrow> prefix ARTIFACT l \<longrightarrow> get record ''digest'' = JStr (lit ''sha256:'' @ drop (length ARTIFACT) l)
   | _ \<Rightarrow> True)"

fun collect_evidence :: "pystr list \<Rightarrow> json list \<Rightarrow> pystr list result" where
  "collect_evidence ids [] = Inr ids"
| "collect_evidence ids (JObj record # rs) =
     (case get record ''evidence_id'' of
        JStr i \<Rightarrow>
          if i \<in> set ids then Inl (ContractValidationError ''enablement evidence IDs must be unique'')
          else if \<not> artifact_bound record then Inl (ContractValidationError ''artifact locator and digest do not bind same bytes'')
          else collect_evidence (i # ids) rs
      | _ \<Rightarrow> Inl (ContractValidationError ''enablement evidence IDs must be unique''))"
| "collect_evidence ids (_ # rs) = collect_evidence ids rs"

text \<open>\<open>sorted\<close> compares numbers with numbers and strings with strings, and nothing when one value is missing.\<close>

definition sortable :: "json list \<Rightarrow> bool" where
  "sortable vs \<longleftrightarrow> length vs \<le> 1 \<or> list_all (\<lambda>v. number_of v \<noteq> None) vs \<or> list_all (\<lambda>v. case v of JStr _ \<Rightarrow> True | _ \<Rightarrow> False) vs"

definition check_references :: "pystr list \<Rightarrow> json list \<Rightarrow> unit result" where
  "check_references ids refs =
     bind_r (check_hashable refs) (\<lambda>_.
       let missing = py_remdups (filter (\<lambda>v. \<not> py_in v (map JStr ids)) refs) in
       if missing = [] then Inr ()
       else if sortable missing then Inl (ContractValidationError ''references missing evidence IDs'')
       else Inl (TypeError ''not supported between instances''))"

fun check_sections :: "pystr list \<Rightarrow> jdict \<Rightarrow> unit result" where
  "check_sections ids [] = Inr ()"
| "check_sections ids ((k, v) # kvs) =
     (if k \<in> {lit ''evidence'', lit ''authorization''} then check_sections ids kvs
      else case v of
        JObj section \<Rightarrow> (case get section ''evidence_ids'' of
            JArr refs \<Rightarrow> bind_r (check_references ids refs) (\<lambda>_. check_sections ids kvs)
          | _ \<Rightarrow> check_sections ids kvs)
      | _ \<Rightarrow> check_sections ids kvs)"

definition validate_evidence_links :: "jdict \<Rightarrow> unit result" where
  "validate_evidence_links value = (case get value ''evidence'' of
     JArr records \<Rightarrow> bind_r (collect_evidence [] records) (\<lambda>ids. check_sections ids value)
   | _ \<Rightarrow> Inr ())"

section \<open>Cross-field checks\<close>

definition without :: "string \<Rightarrow> jdict \<Rightarrow> jdict" where
  "without k kvs = filter (\<lambda>(k', v). k' \<noteq> lit k) kvs"

definition canonical_bytes :: "jdict \<Rightarrow> bytes result" where
  "canonical_bytes kvs = (case encode_json (JObj kvs) of Some b \<Rightarrow> Inr b | None \<Rightarrow> Inl (ValueError ''value is not JSON serializable''))"

definition canonical_digest :: "jdict \<Rightarrow> string \<Rightarrow> pystr result" where
  "canonical_digest value omit = bind_r (canonical_bytes (without omit value)) (\<lambda>b. Inr (digest_of b))"

definition check_digest_field :: "jdict \<Rightarrow> string \<Rightarrow> string \<Rightarrow> unit result" where
  "check_digest_field value field msg = bind_r (canonical_digest value field) (\<lambda>d. require (get value field = JStr d) msg)"

definition MAX_PROTOCOL_CANONICAL_BYTES :: nat where "MAX_PROTOCOL_CANONICAL_BYTES = 64 * 1024"

definition check_study_protocol :: "jdict \<Rightarrow> unit result" where
  "check_study_protocol value =
     bind_r (check_digest_field value ''protocol_digest'' ''study protocol digest does not bind canonical bytes'') (\<lambda>_.
     if get value ''schema_version'' \<noteq> JStr (lit ''vuoro.outctl.study-protocol/v3'') then Inr ()
     else bind_r (canonical_bytes (without ''protocol_digest'' value)) (\<lambda>b.
       bind_r (require (length b \<le> MAX_PROTOCOL_CANONICAL_BYTES) ''study protocol canonical bytes exceed the v3 initial limit'') (\<lambda>_.
       require (get value ''digest_scope'' = JStr (lit ''canonical-json-v1'')) ''study protocol v3 digest scope is unsupported'')))"

text \<open>\<open>is not\<close> between two values of a document: only None and the booleans are the same object for sure.\<close>

definition same_flag :: "json \<Rightarrow> json \<Rightarrow> bool" where
  "same_flag v w \<longleftrightarrow> v = w \<and> (v = JNull \<or> v = JBool True \<or> v = JBool False)"

definition check_scenario_package :: "jdict \<Rightarrow> unit result" where
  "check_scenario_package value = (case get value ''requires'' of
     JObj requires \<Rightarrow> require (same_flag (get requires ''mutation_authority'') (get value ''mutation_authority_required''))
       ''scenario package mutation requirement must match requires.mutation_authority''
   | _ \<Rightarrow> Inr ())"

definition column :: "string \<Rightarrow> json list \<Rightarrow> json list" where
  "column k xs = map (\<lambda>obj. get obj k) (objects xs)"

definition check_scenario_suite :: "jdict \<Rightarrow> unit result" where
  "check_scenario_suite value =
     bind_r (check_digest_field value ''suite_digest'' ''scenario suite digest does not bind canonical bytes'') (\<lambda>_.
     case (get value ''scenarios'', get value ''required_classes'') of
       (JArr scenarios, JArr required) \<Rightarrow>
         bind_r (require_distinct (column ''scenario_id'' scenarios) ''scenario suite scenario IDs must be unique'') (\<lambda>_.
         bind_r (check_hashable (column ''scenario_class'' scenarios @ required)) (\<lambda>_.
         require (py_same_set (column ''scenario_class'' scenarios) required) ''scenario suite scenarios must cover required_classes exactly''))
     | _ \<Rightarrow> Inr ())"

definition records_of :: "json \<Rightarrow> json list" where
  "records_of v = (case v of JArr xs \<Rightarrow> xs | _ \<Rightarrow> [])"

definition check_arm_matrix :: "jdict \<Rightarrow> unit result" where
  "check_arm_matrix value =
     bind_r (check_digest_field value ''matrix_digest'' ''arm matrix digest does not bind canonical bytes'') (\<lambda>_.
     let arms = records_of (get value ''arms''); contrasts = records_of (get value ''contrasts''); arm_ids = column ''arm_id'' arms in
     bind_r (require_distinct arm_ids ''arm matrix arm IDs must be unique'') (\<lambda>_.
     bind_r (require_distinct (column ''contrast_id'' contrasts) ''arm matrix contrast IDs must be unique'') (\<lambda>_.
     require (list_all (\<lambda>c. py_in (get c ''treatment_arm'') arm_ids \<and> py_in (get c ''control_arm'') arm_ids) (objects contrasts))
       ''arm matrix contrast refers to an unknown arm'')))"

definition REQUIRED_CLASSES :: "json list" where
  "REQUIRED_CLASSES = map (JStr \<circ> lit) [''healthy'', ''node-not-ready'', ''crashloop'', ''gitops-reconciliation-failure'', ''storage-failure'', ''warning-events'']"

definition check_study_suite :: "jdict \<Rightarrow> unit result" where
  "check_study_suite value =
     bind_r (check_digest_field value ''suite_digest'' ''study suite digest does not bind canonical bytes'') (\<lambda>_.
     case get value ''scenarios'' of
       JArr scenarios \<Rightarrow>
         (let classes = column ''scenario_class'' scenarios in
          bind_r (require_distinct (column ''scenario_id'' scenarios) ''study suite scenario IDs must be unique'') (\<lambda>_.
          bind_r (check_hashable classes) (\<lambda>_.
          require (py_same_set classes REQUIRED_CLASSES \<and> length classes = length REQUIRED_CLASSES)
            ''study suite must bind exactly one scenario per required class'')))
     | _ \<Rightarrow> Inr ())"

definition check_command_policy :: "jdict \<Rightarrow> unit result" where
  "check_command_policy value =
     bind_r (check_digest_field value ''policy_digest'' ''approved command policy digest mismatch'') (\<lambda>_.
     case get value ''approved_classes'' of
       JArr approved \<Rightarrow> require_distinct (column ''command_class'' approved) ''approved command classes must be unique''
     | _ \<Rightarrow> Inr ())"

definition reduction_ppm :: "int \<Rightarrow> int \<Rightarrow> json result" where
  "reduction_ppm raw exposed =
     (if raw = 0 then Inr JNull
      else bind_r (true_division ((raw - exposed) * 1000000) raw) (\<lambda>f. bind_r (round_float f) (\<lambda>i. Inr (JInt i))))"

definition check_enforcement :: "jdict \<Rightarrow> unit result" where
  "check_enforcement value = (case (int_like (get value ''raw_bytes''), int_like (get value ''exposed_bytes'')) of
     (Some raw, Some exposed) \<Rightarrow> bind_r (reduction_ppm raw exposed) (\<lambda>reduction.
       require (py_eq (get value ''reduction_ppm'') reduction) ''enforcement reduction does not reconcile'')
   | _ \<Rightarrow> Inr ())"

definition check_study_analysis :: "jdict \<Rightarrow> unit result" where
  "check_study_analysis value = (case (get value ''pairs'', get value ''paired_summary'') of
     (JArr pairs, JObj summary) \<Rightarrow>
       (let valid = filter (\<lambda>p. is_true p ''protocol_valid'') (objects pairs);
            additional = length (filter (\<lambda>p. is_true p ''critical_miss_a'' \<and> get p ''critical_miss_b'' = JBool False) valid) in
        bind_r (require (py_eq (get summary ''protocol_valid_pairs'') (JInt (int (length valid)))) ''study protocol-valid pair count does not reconcile'') (\<lambda>_.
        require (py_eq (get summary ''additional_critical_misses'') (JInt (int additional))) ''study critical-miss summary does not reconcile''))
   | _ \<Rightarrow> Inr ())"

definition check_equivalence :: "jdict \<Rightarrow> unit result" where
  "check_equivalence value = (case get value ''equivalence'' of
     JObj e \<Rightarrow> require (get e ''semantically_equivalent'' =
         JBool (list_all (is_true e) [''exit_match'', ''signal_match'', ''stdout_digest_match'', ''stderr_digest_match'', ''cwd_match'']))
       ''shadow equivalence contradicts component checks''
   | _ \<Rightarrow> Inr ())"

definition overhead_accepted :: "int \<Rightarrow> int \<Rightarrow> bool" where
  "overhead_accepted direct delta = (if direct < 1000 then delta \<le> 100 else delta * 1000000 < direct * 50000)"

definition check_overhead :: "jdict \<Rightarrow> unit result" where
  "check_overhead value = (case get value ''overhead'' of
     JObj v \<Rightarrow> (case (int_like (get v ''direct_median_ms''), int_like (get v ''shadow_median_ms'')) of
         (Some direct, Some shadow) \<Rightarrow>
           bind_r (require (py_eq (get v ''wall_time_delta_ms'') (JInt (shadow - direct))) ''shadow overhead delta does not match medians'') (\<lambda>_.
           require (get v ''accepted'' = JBool (overhead_accepted direct (shadow - direct))) ''shadow overhead acceptance contradicts paired-median-v1'')
       | _ \<Rightarrow> Inr ())
   | _ \<Rightarrow> Inr ())"

definition check_shadow :: "jdict \<Rightarrow> unit result" where
  "check_shadow value = bind_r (check_equivalence value) (\<lambda>_. check_overhead value)"

definition check_ux :: "jdict \<Rightarrow> unit result" where
  "check_ux value = (case (int_like (get value ''retrievals''), int_like (get value ''retrievals_contributing_to_findings'')) of
     (Some retrievals, Some contributed) \<Rightarrow> require (contributed \<le> retrievals) ''contributing retrievals exceed total retrievals''
   | _ \<Rightarrow> Inr ())"

definition fixture_equivalent :: "json \<Rightarrow> bool" where
  "fixture_equivalent v = (case v of
     JObj f \<Rightarrow> list_all (is_true f) [''bypass_equivalent'', ''shadow_equivalent'', ''enforce_envelope_equivalent'', ''retrieval_equivalent'']
   | _ \<Rightarrow> False)"

definition check_conformance :: "jdict \<Rightarrow> unit result" where
  "check_conformance value =
     (let passed = (case get value ''fixture_results'' of JArr xs \<Rightarrow> list_all fixture_equivalent xs | _ \<Rightarrow> False);
          expected = (passed \<and> is_true value ''alternate_executor_constrained'' \<and> is_true value ''one_version_back_readable'')
      in require (get value ''conformant'' = JBool expected) ''conformance verdict contradicts fixture gates'')"

text \<open>\<open>any\<close> stops at the first contradiction; a severity that cannot be hashed raises when it is reached.\<close>

fun check_severities :: "jdict list \<Rightarrow> unit result" where
  "check_severities [] = Inr ()"
| "check_severities (f # fs) =
     (if \<not> is_true f ''critical'' then check_severities fs
      else if \<not> hashable_json (get f ''severity'') then Inl (TypeError ''unhashable type'')
      else if get f ''severity'' \<notin> {JStr (lit ''critical''), JStr (lit ''high'')} then Inl (ContractValidationError ''critical expected facts require high/critical severity'')
      else check_severities fs)"

definition check_expected_facts :: "jdict \<Rightarrow> unit result" where
  "check_expected_facts value = (case get value ''facts'' of
     JArr facts \<Rightarrow> bind_r (require_distinct (column ''fact_id'' facts) ''expected fact IDs must be unique'') (\<lambda>_. check_severities (objects facts))
   | _ \<Rightarrow> Inr ())"

definition check_evidence_reference :: "jdict \<Rightarrow> unit result" where
  "check_evidence_reference value = (case (int_like (get value ''start''), int_like (get value ''end'')) of
     (Some start, Some stop) \<Rightarrow> require (start \<le> stop) ''evidence reference end precedes start''
   | _ \<Rightarrow> Inr ())"

definition validate_semantics :: "string \<Rightarrow> jdict \<Rightarrow> unit result" where
  "validate_semantics name value =
     (if name = ''study-protocol'' then check_study_protocol value
      else if name = ''scenario-package'' then check_scenario_package value
      else if name = ''scenario-suite'' then check_scenario_suite value
      else if name = ''arm-matrix'' then check_arm_matrix value
      else if name = ''study-suite'' then check_study_suite value
      else if name = ''approved-command-policy'' then check_command_policy value
      else if name = ''enforcement-observation'' then check_enforcement value
      else if name = ''study-analysis'' then check_study_analysis value
      else if name = ''shadow-observation'' then check_shadow value
      else if name = ''ux-evidence'' then check_ux value
      else if name = ''cross-harness-conformance'' then check_conformance value
      else if name = ''expected-facts'' then check_expected_facts value
      else if name = ''evidence-reference'' then check_evidence_reference value
      else Inr ())"

section \<open>Validation\<close>

definition SCHEMAS :: "string list" where
  "SCHEMAS = [''approved-command-policy'', ''cross-harness-conformance'', ''enablement-evidence'', ''enforcement-observation'', ''evidence-reference'',
     ''expected-facts'', ''logical-command-request'', ''runner-command-result'', ''arm-matrix'', ''scenario-package'', ''scenario-suite'', ''scenario-manifest'',
     ''shadow-observation'', ''study-analysis'', ''study-analysis-v2'', ''study-protocol'', ''study-suite'', ''ux-evidence'']"

definition validate_contract :: "(string \<Rightarrow> jdict \<Rightarrow> string option) \<Rightarrow> string \<Rightarrow> jdict \<Rightarrow> jdict result" where
  "validate_contract schema name value =
     bind_r (deny_unsafe (JObj value)) (\<lambda>_.
     if name \<notin> set SCHEMAS then Inl (ContractValidationError ''unknown outctl contract schema'')
     else case schema name value of
       Some msg \<Rightarrow> Inl (ContractValidationError msg)
     | None \<Rightarrow>
         bind_r (if name = ''enablement-evidence'' then validate_evidence_links value else Inr ()) (\<lambda>_.
         bind_r (validate_semantics name value) (\<lambda>_. Inr value)))"

section \<open>What acceptance means\<close>

text \<open>Every key of a document, at any depth.\<close>

fun all_keys :: "json \<Rightarrow> pystr list" where
  "all_keys (JObj kvs) = concat (map (\<lambda>(k, v). k # all_keys v) kvs)"
| "all_keys (JArr xs) = concat (map all_keys xs)"
| "all_keys _ = []"

lemma deny_unsafe_ok:
  "deny_unsafe v = Inr u \<longleftrightarrow> list_all (\<lambda>k. \<not> raw_key k \<and> \<not> path_key k) (all_keys v)"
  "deny_items xs = Inr u \<longleftrightarrow> list_all (\<lambda>k. \<not> raw_key k \<and> \<not> path_key k) (all_keys (JArr xs))"
  "deny_pairs kvs = Inr u \<longleftrightarrow> list_all (\<lambda>k. \<not> raw_key k \<and> \<not> path_key k) (all_keys (JObj kvs))"
  by (induction v and xs and kvs rule: deny_unsafe_deny_items_deny_pairs.induct) (auto simp: bind_r_Inr_iff)

lemma accepted_contract:
  assumes "validate_contract schema name value = Inr w"
  shows "w = value" "deny_unsafe (JObj value) = Inr ()" "schema name value = None" "validate_semantics name value = Inr ()" "name \<in> set SCHEMAS"
  using assms by (auto simp: validate_contract_def bind_r_Inr_iff split: if_splits option.splits)

text \<open>The contracts that carry a digest of themselves, and the member that holds it.\<close>

definition DIGEST_FIELDS :: "(string \<times> string) list" where
  "DIGEST_FIELDS = [(''study-protocol'', ''protocol_digest''), (''scenario-suite'', ''suite_digest''), (''arm-matrix'', ''matrix_digest''),
     (''study-suite'', ''suite_digest''), (''approved-command-policy'', ''policy_digest'')]"

lemma digest_checked:
  assumes "validate_semantics name value = Inr ()" "map_of DIGEST_FIELDS name = Some field"
  shows "\<exists>b. canonical_bytes (without field value) = Inr b \<and> get value field = JStr (digest_of b)"
proof -
  have "\<exists>msg u. check_digest_field value field msg = Inr u"
    using assms by (auto simp: DIGEST_FIELDS_def validate_semantics_def check_study_protocol_def check_scenario_suite_def check_arm_matrix_def
        check_study_suite_def check_command_policy_def bind_r_Inr_iff Let_def split: if_splits)
  then show ?thesis by (auto simp: check_digest_field_def canonical_digest_def bind_r_Inr_iff require_def split: if_splits)
qed

text \<open>A document with the digest of its body in the named member.\<close>

definition body_bytes :: "jdict \<Rightarrow> bytes" where
  "body_bytes kvs = utf8_encode (dumps False (JObj kvs))"

definition sealed :: "string \<Rightarrow> jdict \<Rightarrow> jdict" where
  "sealed field kvs = (lit field, JStr (digest_of (body_bytes kvs))) # kvs"

lemma sealed_checks:
  assumes "json_ok (JObj body)" "lit field \<notin> set (map fst body)"
  shows "check_digest_field (sealed field body) field msg = Inr ()" "without field (sealed field body) = body"
    "get (sealed field body) field = JStr (digest_of (body_bytes body))"
    "f \<noteq> field \<Longrightarrow> get (sealed field body) f = get body f"
proof -
  show w: "without field (sealed field body) = body"
    using assms(2) by (auto simp: without_def sealed_def filter_id_conv image_iff)
  show g: "get (sealed field body) field = JStr (digest_of (body_bytes body))" by (simp add: get_def jget_def sealed_def)
  show "f \<noteq> field \<Longrightarrow> get (sealed field body) f = get body f" by (simp add: get_def jget_def sealed_def lit_eq_iff del: lit_simps)
  show "check_digest_field (sealed field body) field msg = Inr ()"
    using encode_json_ok [OF assms(1)] by (simp add: check_digest_field_def canonical_digest_def canonical_bytes_def w g require_def body_bytes_def)
qed

text \<open>
  C30.  An accepted contract is a known one, satisfies its schema and is returned unchanged; whatever
  the schema says it names no raw body and no local path at any depth; and where the contract carries
  a digest of itself, that digest is the one of the canonical bytes of the rest.
\<close>

theorem contract_accepted_safe:
  assumes "validate_contract schema name value = Inr w"
  shows "w = value \<and> name \<in> set SCHEMAS \<and> schema name w = None \<and> list_all (\<lambda>k. \<not> raw_key k \<and> \<not> path_key k) (all_keys (JObj w)) \<and>
    (case map_of DIGEST_FIELDS name of
       Some field \<Rightarrow> \<exists>b. canonical_bytes (without field w) = Inr b \<and> get w field = JStr (digest_of b)
     | None \<Rightarrow> True)"
  using accepted_contract [OF assms] deny_unsafe_ok(1) [of "JObj value"] digest_checked [of name "value"] by (auto split: option.splits)

text \<open>A policy that carries its digest, under a schema that requires the list of classes.\<close>

definition policy_body :: jdict where
  "policy_body = [(lit ''approved_classes'', JArr [JObj [(lit ''command_class'', JStr (lit ''read''))]])]"

definition classes_required :: "string \<Rightarrow> jdict \<Rightarrow> string option" where
  "classes_required name value = (if jget value ''approved_classes'' = None then Some ''approved_classes is a required property'' else None)"

theorem contract_accepted_safe_witness:
  "\<exists>w. validate_contract classes_required ''approved-command-policy'' (sealed ''policy_digest'' policy_body) = Inr w \<and>
     list_all (\<lambda>k. \<not> raw_key k \<and> \<not> path_key k) (all_keys (JObj w)) \<and>
     (\<exists>b. canonical_bytes (without ''policy_digest'' w) = Inr b \<and> get w ''policy_digest'' = JStr (digest_of b))"
proof -
  let ?p = "sealed ''policy_digest'' policy_body"
  have ok: "json_ok (JObj policy_body)" "lit ''policy_digest'' \<notin> set (map fst policy_body)" by code_simp+
  note sc = sealed_checks [OF ok]
  have "get policy_body ''approved_classes'' = JArr [JObj [(lit ''command_class'', JStr (lit ''read''))]]" by code_simp
  moreover have "require_distinct (column ''command_class'' [JObj [(lit ''command_class'', JStr (lit ''read''))]]) msg = Inr ()" for msg by code_simp
  ultimately have sem: "validate_semantics ''approved-command-policy'' ?p = Inr ()"
    by (simp add: validate_semantics_def check_command_policy_def sc(1,4))
  have "jget ?p ''approved_classes'' \<noteq> None" by (simp add: jget_def sealed_def policy_body_def)
  moreover have "deny_unsafe (JObj policy_body) = Inr ()" "\<not> raw_key (lit ''policy_digest'')" "\<not> path_key (lit ''policy_digest'')" by code_simp+
  ultimately have v: "validate_contract classes_required ''approved-command-policy'' ?p = Inr ?p"
    using sem by (simp add: validate_contract_def SCHEMAS_def classes_required_def sealed_def del: lit_simps)
  have "map_of DIGEST_FIELDS ''approved-command-policy'' = Some ''policy_digest''" by code_simp
  with contract_accepted_safe [OF v] v show ?thesis by auto
qed

end
