(* ===== verification/Harness.thy ===== *)
theory Harness
  imports Contracts "HOL-Library.Multiset"
begin

text \<open>
  \<open>harness.py\<close>: planning of matched N-arm sessions and their grouped concurrent execution.  The plan is a
  function of the three sealed documents.  Execution is a step relation on one start group at a time:
  threads enter the counted barrier and leave it, call the runner and store what it returned or
  raised, in any order.  The runner is an argument.  Shown: a plan has one group per scenario and
  replicate, with every arm exactly once, and the start orders are counterbalanced; session ids are
  unique; no session runs before its whole group is ready; every interleaving ends; and an execution
  returns the results in plan order, or the error of a session that failed in the first failing group.
\<close>

section \<open>Plans\<close>

record arm =
  arm_id :: pystr
  arm_capture :: pystr
  arm_projection :: pystr
  arm_tool_surface :: pystr
  arm_runner :: "pystr option"

record session =
  ses_id :: pystr
  ses_scenario_id :: pystr
  ses_arm_id :: pystr
  ses_replicate :: int
  ses_start_group :: pystr
  ses_start_order :: nat

record start_group =
  grp_id :: pystr
  grp_sessions :: "session list"

record launch_plan =
  lp_protocol_digest :: pystr
  lp_sessions :: "session list"
  lp_groups :: "start_group list"
  lp_estimated_sessions :: int
  lp_estimated_credits :: pyfloat
  lp_max_concurrent :: "int option"
  lp_max_sessions :: "int option"
  lp_max_credits :: "pyfloat option"

section \<open>Reading the documents\<close>

definition launch_error :: "'a result \<Rightarrow> 'a result" where
  "launch_error r = (case r of Inl (ContractValidationError m) \<Rightarrow> Inl (LaunchPlanError m) | _ \<Rightarrow> r)"

text \<open>The digest of the launcher, which unlike the one of the contracts prints NaN and the infinities.\<close>

fun integers_ok :: "json \<Rightarrow> bool" where
  "integers_ok (JInt i) \<longleftrightarrow> length (decimal (nat \<bar>i\<bar>)) \<le> MAX_INT_DIGITS"
| "integers_ok (JArr xs) \<longleftrightarrow> list_all integers_ok xs"
| "integers_ok (JObj kvs) \<longleftrightarrow> list_all (\<lambda>(k, v). integers_ok v) kvs"
| "integers_ok _ \<longleftrightarrow> True"

definition launcher_bytes :: "jdict \<Rightarrow> bytes result" where
  "launcher_bytes kvs =
     (let t = dumps False (JObj kvs) in
      if \<not> integers_ok (JObj kvs) then Inl (ValueError ''Exceeds the limit for integer string conversion'')
      else if \<not> list_all is_scalar t then Inl (ValueError ''surrogates not allowed'')
      else Inr (utf8_encode t))"

definition positive_limit :: "jdict \<Rightarrow> string \<Rightarrow> int option result" where
  "positive_limit raw name = (case get raw name of
     JNull \<Rightarrow> Inr None
   | JInt i \<Rightarrow> if i < 1 then Inl (LaunchPlanError ''must be a positive integer or null'') else Inr (Some i)
   | _ \<Rightarrow> Inl (LaunchPlanError ''must be a positive integer or null''))"

definition negative_float :: "pyfloat \<Rightarrow> bool" where
  "negative_float f = (case f of Finite d \<Rightarrow> d < 0 | NegInf \<Rightarrow> True | _ \<Rightarrow> False)"

text \<open>A number that is no boolean and not negative, as a float.\<close>

definition amount :: "json \<Rightarrow> string \<Rightarrow> pyfloat result" where
  "amount v msg = (case v of
     JInt i \<Rightarrow> if i < 0 then Inl (LaunchPlanError msg) else float_of_int i
   | JFloat t \<Rightarrow> if negative_float (float_of_text t) then Inl (LaunchPlanError msg) else Inr (float_of_text t)
   | _ \<Rightarrow> Inl (LaunchPlanError msg))"

definition amount_ok :: "json \<Rightarrow> bool" where
  "amount_ok v = (case v of JInt i \<Rightarrow> 0 \<le> i | JFloat t \<Rightarrow> \<not> negative_float (float_of_text t) | _ \<Rightarrow> False)"

definition limits_of :: "jdict \<Rightarrow> (int option \<times> int option \<times> pyfloat option) result" where
  "limits_of protocol = (case get protocol ''limits'' of
     JObj raw \<Rightarrow>
       (let max_credits = get raw ''max_credits'' in
        if max_credits \<noteq> JNull \<and> \<not> amount_ok max_credits then Inl (LaunchPlanError ''limits.max_credits must be a non-negative number or null'')
        else bind_r (positive_limit raw ''max_sessions'') (\<lambda>max_sessions.
          bind_r (positive_limit raw ''max_concurrent_sessions'') (\<lambda>max_concurrent.
          if max_credits = JNull then Inr (max_sessions, max_concurrent, None)
          else bind_r (amount max_credits []) (\<lambda>f. Inr (max_sessions, max_concurrent, Some f)))))
   | _ \<Rightarrow> Inl (LaunchPlanError ''v3 protocol limits are required''))"

definition text_member :: "jdict \<Rightarrow> string \<Rightarrow> pystr option" where
  "text_member kvs k = (case get kvs k of JStr s \<Rightarrow> if s = [] then None else Some s | _ \<Rightarrow> None)"

fun read_arms :: "pystr list \<Rightarrow> json list \<Rightarrow> arm list result" where
  "read_arms seen [] = Inr []"
| "read_arms seen (JObj item # rest) =
     (case (text_member item ''arm_id'', text_member item ''capture'', text_member item ''projection'', text_member item ''tool_surface'') of
        (Some i, Some c, Some p, Some t) \<Rightarrow>
          if i \<in> set seen then Inl (LaunchPlanError ''duplicate arm ID'')
          else bind_r (read_arms (i # seen) rest) (\<lambda>arms.
            Inr (\<lparr>arm_id = i, arm_capture = c, arm_projection = p, arm_tool_surface = t,
                  arm_runner = (case get item ''runner'' of JStr r \<Rightarrow> Some r | _ \<Rightarrow> None)\<rparr> # arms))
      | _ \<Rightarrow> Inl (LaunchPlanError ''arm matrix contains an incomplete arm''))"
| "read_arms seen (_ # rest) = Inl (LaunchPlanError ''arm matrix arm must be an object'')"

definition arms_of :: "jdict \<Rightarrow> arm list result" where
  "arms_of matrix = (case get matrix ''arms'' of
     JArr xs \<Rightarrow> if xs = [] then Inl (LaunchPlanError ''arm matrix must contain at least one arm'') else read_arms [] xs
   | _ \<Rightarrow> Inl (LaunchPlanError ''arm matrix must contain at least one arm''))"

definition validate_inputs ::
  "(string \<Rightarrow> jdict \<Rightarrow> string option) \<Rightarrow> jdict \<Rightarrow> jdict \<Rightarrow> jdict \<Rightarrow> (jdict list \<times> arm list) result" where
  "validate_inputs schema protocol suite matrix =
     bind_r (launch_error (validate_contract schema ''study-protocol'' protocol)) (\<lambda>protocol.
     bind_r (launch_error (validate_contract schema ''scenario-suite'' suite)) (\<lambda>suite.
     bind_r (launch_error (validate_contract schema ''arm-matrix'' matrix)) (\<lambda>matrix.
     if get protocol ''schema_version'' \<noteq> JStr (lit ''vuoro.outctl.study-protocol/v3'') then Inl (LaunchPlanError ''N-arm planning requires study-protocol/v3'')
     else if \<not> py_eq (get protocol ''scenario_suite_digest'') (get suite ''suite_digest'') then Inl (LaunchPlanError ''protocol does not bind the supplied scenario suite'')
     else if \<not> py_eq (get protocol ''arm_matrix_digest'') (get matrix ''matrix_digest'') then Inl (LaunchPlanError ''protocol does not bind the supplied arm matrix'')
     else bind_r (arms_of matrix) (\<lambda>arms.
       if \<not> py_eq (get protocol ''arm_ids'') (JArr (map (JStr \<circ> arm_id) arms)) then Inl (LaunchPlanError ''protocol arm_ids do not match the sealed arm matrix'')
       else bind_r (launcher_bytes (without ''protocol_digest'' protocol)) (\<lambda>encoded.
         if get protocol ''protocol_digest'' \<noteq> JStr (digest_of encoded) then Inl (LaunchPlanError ''protocol digest does not bind canonical bytes'')
         else if MAX_PROTOCOL_CANONICAL_BYTES < length encoded then Inl (LaunchPlanError ''protocol exceeds the v3 initial canonical byte limit'')
         else case get suite ''scenarios'' of
           JArr xs \<Rightarrow> if xs = [] then Inl (LaunchPlanError ''scenario suite must contain at least one scenario'') else Inr (objects xs, arms)
         | _ \<Rightarrow> Inl (LaunchPlanError ''scenario suite must contain at least one scenario''))))))"

section \<open>Planning\<close>

definition float_times :: "pyfloat \<Rightarrow> pyfloat \<Rightarrow> pyfloat" where
  "float_times a b = (case (a, b) of
     (Finite x, Finite y) \<Rightarrow> float_of_rat (x * y)
   | (Finite x, i) \<Rightarrow> if i = NaN \<or> x = 0 then NaN else if (0 < x) = (i = PosInf) then PosInf else NegInf
   | (i, Finite y) \<Rightarrow> if i = NaN \<or> y = 0 then NaN else if (0 < y) = (i = PosInf) then PosInf else NegInf
   | (i, j) \<Rightarrow> if i = NaN \<or> j = NaN then NaN else if i = j then PosInf else NegInf)"

definition float_less :: "pyfloat \<Rightarrow> pyfloat \<Rightarrow> bool" where
  "float_less a b = (case (a, b) of
     (Finite x, Finite y) \<Rightarrow> x < y
   | (NaN, _) \<Rightarrow> False | (_, NaN) \<Rightarrow> False
   | (NegInf, NegInf) \<Rightarrow> False | (NegInf, _) \<Rightarrow> True
   | (PosInf, _) \<Rightarrow> False | (_, PosInf) \<Rightarrow> True | (_, NegInf) \<Rightarrow> False)"

definition group_name :: "pystr \<Rightarrow> int \<Rightarrow> pystr" where
  "group_name scenario rep = scenario @ lit ''/r'' @ print_int rep"

definition plan_group :: "arm list \<Rightarrow> int \<Rightarrow> int \<Rightarrow> pystr \<Rightarrow> nat \<Rightarrow> nat \<Rightarrow> start_group" where
  "plan_group arms seed offset scenario index rep =
     (let gid = group_name scenario (int rep + offset);
          rotation = nat ((seed + offset + int index + int rep - 1) mod int (length arms));
          order = drop rotation arms @ take rotation arms
      in \<lparr>grp_id = gid, grp_sessions = map (\<lambda>(i, a). \<lparr>ses_id = gid @ lit ''/'' @ arm_id a, ses_scenario_id = scenario, ses_arm_id = arm_id a,
            ses_replicate = int rep + offset, ses_start_group = gid, ses_start_order = i\<rparr>) (zip [0..<length order] order)\<rparr>)"

fun plan_scenarios :: "arm list \<Rightarrow> int \<Rightarrow> int \<Rightarrow> nat \<Rightarrow> nat \<Rightarrow> jdict list \<Rightarrow> start_group list result" where
  "plan_scenarios arms seed offset reps index [] = Inr []"
| "plan_scenarios arms seed offset reps index (s # ss) =
     (case get s ''scenario_id'' of
        JStr scenario \<Rightarrow> bind_r (plan_scenarios arms seed offset reps (index + 1) ss) (\<lambda>gs.
          Inr (map (plan_group arms seed offset scenario index) [1..<reps + 1] @ gs))
      | _ \<Rightarrow> Inl (LaunchPlanError ''scenario binding has no scenario_id''))"

definition whole_number :: "jdict \<Rightarrow> string \<Rightarrow> int \<Rightarrow> string \<Rightarrow> int result" where
  "whole_number protocol field least msg = (case get protocol field of
     JInt i \<Rightarrow> if i < least then Inl (LaunchPlanError msg) else Inr i | _ \<Rightarrow> Inl (LaunchPlanError msg))"

definition over_limit :: "int option \<Rightarrow> int \<Rightarrow> bool" where
  "over_limit limit n = (case limit of Some m \<Rightarrow> m < n | None \<Rightarrow> False)"

definition over_credits :: "pyfloat option \<Rightarrow> pyfloat \<Rightarrow> bool" where
  "over_credits limit c = (case limit of Some m \<Rightarrow> float_less m c | None \<Rightarrow> False)"

definition estimate_credits :: "jdict \<Rightarrow> int \<Rightarrow> pyfloat result" where
  "estimate_credits protocol n =
     (let per_session = (case jget protocol ''estimated_credits_per_session'' of Some v \<Rightarrow> v | None \<Rightarrow> JInt 0) in
      if \<not> amount_ok per_session then Inl (LaunchPlanError ''estimated_credits_per_session must be non-negative'')
      else bind_r (float_of_int n) (\<lambda>t. bind_r (amount per_session []) (\<lambda>c. Inr (float_times t c))))"

definition plan_sessions ::
  "(string \<Rightarrow> jdict \<Rightarrow> string option) \<Rightarrow> jdict \<Rightarrow> jdict \<Rightarrow> jdict \<Rightarrow> int \<Rightarrow> launch_plan result" where
  "plan_sessions schema protocol suite matrix offset =
     (if offset < 0 then Inl (LaunchPlanError ''replicate_offset must be non-negative'')
      else bind_r (validate_inputs schema protocol suite matrix) (\<lambda>(scenarios, arms).
        bind_r (limits_of protocol) (\<lambda>(max_sessions, max_concurrent, max_credits).
        if over_limit max_concurrent (int (length arms)) then Inl (LaunchPlanError ''max_concurrent_sessions is smaller than one matched start group'')
        else bind_r (whole_number protocol ''replicates'' 1 ''protocol replicates must be positive'') (\<lambda>reps.
          let total = int (length scenarios) * int (length arms) * reps in
          if over_limit max_sessions total then Inl (LaunchPlanError ''planned session count exceeds max_sessions'')
          else bind_r (estimate_credits protocol total) (\<lambda>credits.
            if over_credits max_credits credits then Inl (LaunchPlanError ''estimated credits exceeds max_credits'')
            else bind_r (whole_number protocol ''randomization_seed'' 0 ''randomization_seed must be non-negative'') (\<lambda>seed.
              bind_r (plan_scenarios arms seed offset (nat reps) 0 scenarios) (\<lambda>groups.
                Inr \<lparr>lp_protocol_digest = (case get protocol ''protocol_digest'' of JStr d \<Rightarrow> d | _ \<Rightarrow> []),
                     lp_sessions = concat (map grp_sessions groups), lp_groups = groups, lp_estimated_sessions = total,
                     lp_estimated_credits = credits, lp_max_concurrent = max_concurrent, lp_max_sessions = max_sessions,
                     lp_max_credits = max_credits\<rparr>)))))))"

section \<open>Execution\<close>

text \<open>
  \<open>threading.Barrier\<close>: how many threads it takes, how many are inside, and whether it is letting them out.
  A thread enters when it is not draining and the arrival that completes the number starts the
  draining; while it drains the threads leave one by one, and the last one makes it ready again.  No
  timeout, no action and no \<open>abort\<close> is used, so the barrier never breaks and the handler of
  \<open>BrokenBarrierError\<close> is not reached; a thread that cannot be started is not modelled.
\<close>

record barrier =
  bar_parties :: nat
  bar_count :: nat
  bar_draining :: bool

definition bar_enter :: "barrier \<Rightarrow> barrier" where
  "bar_enter b = b\<lparr>bar_count := bar_count b + 1, bar_draining := (bar_count b + 1 = bar_parties b)\<rparr>"

definition bar_leave :: "barrier \<Rightarrow> barrier" where
  "bar_leave b = b\<lparr>bar_count := bar_count b - 1, bar_draining := (bar_count b - 1 \<noteq> 0)\<rparr>"

datatype phase = Starting | AtBarrier | Running | Finished

text \<open>The coordinator is \<open>Running\<close> once it has left the barrier and joins the threads.\<close>

record 'r group_state =
  gs_workers :: "(session \<times> phase) list"
  gs_coordinator :: phase
  gs_barrier :: barrier
  gs_results :: "(pystr \<times> 'r) list"
  gs_errors :: "(pystr \<times> exn) list"

definition group_init :: "start_group \<Rightarrow> (pystr \<times> 'r) list \<Rightarrow> 'r group_state" where
  "group_init g results = \<lparr>gs_workers = map (\<lambda>s. (s, Starting)) (grp_sessions g), gs_coordinator = Starting,
     gs_barrier = \<lparr>bar_parties = length (grp_sessions g) + 1, bar_count = 0, bar_draining = False\<rparr>, gs_results = results, gs_errors = []\<rparr>"

text \<open>What a worker stores under the lock when the runner has returned or raised.\<close>

definition store_outcome ::
  "(session \<Rightarrow> 'r result) \<Rightarrow> session \<Rightarrow> (pystr \<times> 'r) list \<times> (pystr \<times> exn) list \<Rightarrow> (pystr \<times> 'r) list \<times> (pystr \<times> exn) list" where
  "store_outcome runner s dicts = (case runner s of
     Inr v \<Rightarrow> (AList.update (ses_id s) v (fst dicts), snd dicts)
   | Inl e \<Rightarrow> (fst dicts, AList.update (ses_id s) e (snd dicts)))"

inductive group_step :: "(session \<Rightarrow> 'r result) \<Rightarrow> 'r group_state \<Rightarrow> 'r group_state \<Rightarrow> bool" for runner where
  arrive: "i < length (gs_workers st) \<Longrightarrow> gs_workers st ! i = (s, Starting) \<Longrightarrow> \<not> bar_draining (gs_barrier st) \<Longrightarrow>
    group_step runner st (st\<lparr>gs_workers := (gs_workers st)[i := (s, AtBarrier)], gs_barrier := bar_enter (gs_barrier st)\<rparr>)"
| coordinate: "gs_coordinator st = Starting \<Longrightarrow> \<not> bar_draining (gs_barrier st) \<Longrightarrow>
    group_step runner st (st\<lparr>gs_coordinator := AtBarrier, gs_barrier := bar_enter (gs_barrier st)\<rparr>)"
| pass: "i < length (gs_workers st) \<Longrightarrow> gs_workers st ! i = (s, AtBarrier) \<Longrightarrow> bar_draining (gs_barrier st) \<Longrightarrow>
    group_step runner st (st\<lparr>gs_workers := (gs_workers st)[i := (s, Running)], gs_barrier := bar_leave (gs_barrier st)\<rparr>)"
| release: "gs_coordinator st = AtBarrier \<Longrightarrow> bar_draining (gs_barrier st) \<Longrightarrow>
    group_step runner st (st\<lparr>gs_coordinator := Running, gs_barrier := bar_leave (gs_barrier st)\<rparr>)"
| finish: "i < length (gs_workers st) \<Longrightarrow> gs_workers st ! i = (s, Running) \<Longrightarrow>
    store_outcome runner s (gs_results st, gs_errors st) = (res, errs) \<Longrightarrow>
    group_step runner st (st\<lparr>gs_workers := (gs_workers st)[i := (s, Finished)], gs_results := res, gs_errors := errs\<rparr>)"

text \<open>All threads are joined.\<close>

definition group_done :: "'r group_state \<Rightarrow> bool" where
  "group_done st \<longleftrightarrow> gs_coordinator st = Running \<and> list_all (\<lambda>w. snd w = Finished) (gs_workers st)"

text \<open>
  The coordinator runs one group after the other; after a group with an error it raises, naming the
  error stored first.
\<close>

inductive executes ::
  "(session \<Rightarrow> 'r result) \<Rightarrow> start_group list \<Rightarrow> (pystr \<times> 'r) list \<Rightarrow> (pystr \<times> exn) + (pystr \<times> 'r) list \<Rightarrow> bool" for runner where
  finished: "executes runner [] results (Inr results)"
| next_group: "(group_step runner)\<^sup>*\<^sup>* (group_init g results) st \<Longrightarrow> group_done st \<Longrightarrow> gs_errors st = [] \<Longrightarrow>
    executes runner gs (gs_results st) out \<Longrightarrow> executes runner (g # gs) results out"
| raised: "(group_step runner)\<^sup>*\<^sup>* (group_init g results) st \<Longrightarrow> group_done st \<Longrightarrow> gs_errors st = err # errs \<Longrightarrow>
    executes runner (g # gs) results (Inl err)"

inductive_cases executes_nil: "executes runner [] results out"
inductive_cases executes_cons: "executes runner (g # gs) results out"
inductive_cases group_stepE: "group_step runner st st'"

text \<open>\<open>SessionFailed\<close> is the \<open>LaunchPlanError\<close> that names a session and has its exception as the cause.\<close>

definition returned :: "launch_plan \<Rightarrow> (pystr \<times> exn) + (pystr \<times> 'r) list \<Rightarrow> 'r list result" where
  "returned plan out = (case out of
     Inl (sid, error) \<Rightarrow> Inl (SessionFailed sid error)
   | Inr results \<Rightarrow> mapM_r (\<lambda>s. case map_of results (ses_id s) of Some v \<Rightarrow> Inr v | None \<Rightarrow> Inl (KeyError (ses_id s))) (lp_sessions plan))"

definition execute_plan :: "(session \<Rightarrow> 'r result) \<Rightarrow> launch_plan \<Rightarrow> 'r list result \<Rightarrow> bool" where
  "execute_plan runner plan r \<longleftrightarrow> (\<exists>out. executes runner (lp_groups plan) [] out \<and> r = returned plan out)"

section \<open>The threads of a group\<close>

definition phases :: "'r group_state \<Rightarrow> phase list" where
  "phases st = gs_coordinator st # map snd (gs_workers st)"

definition in_phase :: "phase \<Rightarrow> 'r group_state \<Rightarrow> nat" where
  "in_phase p st = count (mset (phases st)) p"

text \<open>One thread goes from one phase to another.\<close>

definition advances :: "phase \<Rightarrow> phase \<Rightarrow> 'r group_state \<Rightarrow> 'r group_state \<Rightarrow> bool" where
  "advances p q st st' \<longleftrightarrow> (\<exists>j < length (phases st). phases st ! j = p \<and> phases st' = (phases st)[j := q])"

lemma worker_advances:
  assumes "i < length (gs_workers st)" "gs_workers st ! i = (s, p)" "gs_workers st' = (gs_workers st)[i := (s, q)]" "gs_coordinator st' = gs_coordinator st"
  shows "advances p q st st'"
  unfolding advances_def using assms by (intro exI [of _ "Suc i"]) (simp add: phases_def map_update)

lemma coordinator_advances:
  "gs_coordinator st = p \<Longrightarrow> gs_coordinator st' = q \<Longrightarrow> gs_workers st' = gs_workers st \<Longrightarrow> advances p q st st'"
  unfolding advances_def by (intro exI [of _ 0]) (simp add: phases_def)

lemma step_advances:
  assumes "group_step runner st st'"
  shows "(advances Starting AtBarrier st st' \<and> \<not> bar_draining (gs_barrier st) \<and> gs_barrier st' = bar_enter (gs_barrier st)) \<or>
    (advances AtBarrier Running st st' \<and> bar_draining (gs_barrier st) \<and> gs_barrier st' = bar_leave (gs_barrier st)) \<or>
    (advances Running Finished st st' \<and> gs_barrier st' = gs_barrier st)"
  using assms
proof cases
  case (arrive i s)
  have "advances Starting AtBarrier st st'" using arrive by (intro worker_advances) simp_all
  with arrive show ?thesis by simp
next
  case coordinate
  have "advances Starting AtBarrier st st'" using coordinate by (intro coordinator_advances) simp_all
  with coordinate show ?thesis by simp
next
  case (pass i s)
  have "advances AtBarrier Running st st'" using pass by (intro worker_advances) simp_all
  with pass show ?thesis by simp
next
  case release
  have "advances AtBarrier Running st st'" using release by (intro coordinator_advances) simp_all
  with release show ?thesis by simp
next
  case (finish i s res errs)
  have "advances Running Finished st st'" using finish by (intro worker_advances) simp_all
  with finish show ?thesis by simp
qed

lemma advances_length: "advances p q st st' \<Longrightarrow> length (phases st') = length (phases st)"
  by (auto simp: advances_def)

lemma advances_counts:
  assumes "advances p q st st'" "p \<noteq> q"
  shows "in_phase p st = Suc (in_phase p st')" "in_phase q st' = Suc (in_phase q st)"
    "x \<noteq> p \<Longrightarrow> x \<noteq> q \<Longrightarrow> in_phase x st' = in_phase x st"
proof -
  from assms(1) obtain j where j: "j < length (phases st)" "phases st ! j = p" "phases st' = (phases st)[j := q]"
    by (auto simp: advances_def)
  have m: "mset (phases st') = add_mset q (mset (phases st) - {#p#})" using mset_update [OF j(1), of q] j(2,3) by simp
  have "p \<in># mset (phases st)" using j(1,2) nth_mem by (metis set_mset_mset)
  then have "0 < count (mset (phases st)) p" by (simp add: count_greater_zero_iff)
  then show "in_phase p st = Suc (in_phase p st')" "in_phase q st' = Suc (in_phase q st)"
    "x \<noteq> p \<Longrightarrow> x \<noteq> q \<Longrightarrow> in_phase x st' = in_phase x st" using assms(2) by (simp_all add: in_phase_def m)
qed

section \<open>The barrier\<close>

text \<open>
  The count is the number of threads inside.  While the barrier fills, some thread is still to come and
  none has gone through; while it drains, and afterwards, none is still to come.
\<close>

definition barrier_inv :: "'r group_state \<Rightarrow> bool" where
  "barrier_inv st \<longleftrightarrow> bar_parties (gs_barrier st) = length (phases st) \<and> bar_count (gs_barrier st) = in_phase AtBarrier st \<and>
     (if bar_draining (gs_barrier st) then in_phase Starting st = 0 \<and> 0 < in_phase AtBarrier st
      else in_phase Starting st = 0 \<and> in_phase AtBarrier st = 0 \<or>
        0 < in_phase Starting st \<and> in_phase Starting st + in_phase AtBarrier st = length (phases st))"

lemma barrier_init: "barrier_inv (group_init g results)"
proof -
  have "phases (group_init g results) = replicate (Suc (length (grp_sessions g))) Starting"
    by (simp add: phases_def group_init_def comp_def map_replicate_const)
  then show ?thesis by (simp add: barrier_inv_def in_phase_def group_init_def)
qed

lemma barrier_step:
  assumes "group_step runner st st'" "barrier_inv st"
  shows "barrier_inv st'"
  using step_advances [OF assms(1)]
proof (elim disjE conjE)
  assume a: "advances Starting AtBarrier st st'" "\<not> bar_draining (gs_barrier st)" "gs_barrier st' = bar_enter (gs_barrier st)"
  note c = advances_counts(1,2) [OF a(1)] advances_length [OF a(1)]
  show ?thesis using assms(2) a(2,3) c by (auto simp: barrier_inv_def bar_enter_def)
next
  assume a: "advances AtBarrier Running st st'" "bar_draining (gs_barrier st)" "gs_barrier st' = bar_leave (gs_barrier st)"
  note c = advances_counts(1) [OF a(1)] advances_counts(3) [OF a(1), of Starting] advances_length [OF a(1)]
  show ?thesis using assms(2) a(2,3) c by (auto simp: barrier_inv_def bar_leave_def)
next
  assume a: "advances Running Finished st st'" "gs_barrier st' = gs_barrier st"
  note c = advances_counts(3) [OF a(1), of Starting] advances_counts(3) [OF a(1), of AtBarrier] advances_length [OF a(1)]
  show ?thesis using assms(2) a(2) c by (auto simp: barrier_inv_def)
qed

lemma barrier_reachable: "(group_step runner)\<^sup>*\<^sup>* (group_init g results) st \<Longrightarrow> barrier_inv st"
  by (induction rule: rtranclp_induct) (auto intro: barrier_init barrier_step)

definition running :: "phase \<Rightarrow> bool" where
  "running p \<longleftrightarrow> p = Running \<or> p = Finished"

lemma in_phase_none: "in_phase p st = 0 \<longleftrightarrow> gs_coordinator st \<noteq> p \<and> (\<forall>w \<in> set (gs_workers st). snd w \<noteq> p)"
  by (auto simp: in_phase_def phases_def count_eq_zero_iff)

lemma three_phases:
  assumes "p \<in> set ps" "running p"
  shows "count (mset ps) Starting + count (mset ps) AtBarrier < length ps"
  using assms
proof (induction ps)
  case (Cons q ps)
  have "count (mset ps) Starting + count (mset ps) AtBarrier \<le> length ps" for ps :: "phase list" by (induction ps) auto
  from this [of ps] show ?case using Cons by (auto simp: running_def)
qed simp

lemma none_starting:
  assumes "barrier_inv st" "w \<in> set (gs_workers st)" "running (snd w)"
  shows "in_phase Starting st = 0"
proof -
  have "in_phase Starting st + in_phase AtBarrier st < length (phases st)"
    unfolding in_phase_def using assms(2,3) by (intro three_phases [of "snd w"]) (auto simp: phases_def)
  then show ?thesis using assms(1) by (auto simp: barrier_inv_def split: if_splits)
qed

section \<open>One group\<close>

definition stored :: "(session \<Rightarrow> 'r result) \<Rightarrow> session list \<Rightarrow> (pystr \<times> 'r) list \<Rightarrow> (pystr \<times> 'r) list \<times> (pystr \<times> exn) list" where
  "stored runner order results = foldl (\<lambda>d s. store_outcome runner s d) (results, []) order"

definition finished_sessions :: "'r group_state \<Rightarrow> session multiset" where
  "finished_sessions st = mset (map fst (filter (\<lambda>w. snd w = Finished) (gs_workers st)))"

text \<open>What holds of a group at every moment: its sessions, and the dictionaries as some order of completion leaves them.\<close>

definition group_inv :: "(session \<Rightarrow> 'r result) \<Rightarrow> start_group \<Rightarrow> (pystr \<times> 'r) list \<Rightarrow> 'r group_state \<Rightarrow> bool" where
  "group_inv runner g results st \<longleftrightarrow> map fst (gs_workers st) = grp_sessions g \<and>
     (\<exists>order. mset order = finished_sessions st \<and> stored runner order results = (gs_results st, gs_errors st))"

lemma finished_update:
  assumes "i < length ws" "ws ! i = (s, p)" "p \<noteq> Finished"
  shows "mset (map fst (filter (\<lambda>w. snd w = Finished) (ws[i := (s, q)]))) =
    mset (map fst (filter (\<lambda>w. snd w = Finished) ws)) + (if q = Finished then {#s#} else {#})"
proof -
  have ws: "ws = take i ws @ (s, p) # drop (Suc i) ws" using assms by (metis id_take_nth_drop)
  have up: "ws[i := (s, q)] = take i ws @ (s, q) # drop (Suc i) ws" using assms(1) by (rule upd_conv_take_nth_drop)
  show ?thesis unfolding up by (subst (3) ws) (use assms(3) in simp)
qed

lemma worker_names: "i < length ws \<Longrightarrow> ws ! i = (s, p) \<Longrightarrow> map fst (ws[i := (s, q)]) = map fst ws"
  by (rule nth_equalityI) (auto simp: nth_list_update)

lemma group_init_inv: "group_inv runner g results (group_init g results)"
proof -
  have "finished_sessions (group_init g results) = {#}" by (simp add: finished_sessions_def group_init_def filter_map comp_def)
  moreover have "stored runner [] results = (results, [])" by (simp add: stored_def)
  ultimately show ?thesis
    unfolding group_inv_def by (auto simp: group_init_def comp_def intro!: exI [of _ "[]"])
qed

lemma group_step_inv:
  assumes "group_step runner st st'" "group_inv runner g results st"
  shows "group_inv runner g results st'"
  using assms(1)
proof cases
  case (arrive i s)
  show ?thesis using assms(2) worker_names [OF arrive(2,3)] finished_update [OF arrive(2,3), of AtBarrier]
    unfolding group_inv_def by (simp add: arrive(1) finished_sessions_def)
next
  case (pass i s)
  show ?thesis using assms(2) worker_names [OF pass(2,3)] finished_update [OF pass(2,3), of Running]
    unfolding group_inv_def by (simp add: pass(1) finished_sessions_def)
next
  case (finish i s res errs)
  from assms(2) obtain order where ord: "mset order = finished_sessions st" "stored runner order results = (gs_results st, gs_errors st)"
    unfolding group_inv_def by blast
  have "mset (order @ [s]) = finished_sessions st'"
    using finished_update [OF finish(2,3), of Finished] ord(1) by (simp add: finish(1) finished_sessions_def)
  moreover have "stored runner (order @ [s]) results = (gs_results st', gs_errors st')" using ord(2) finish(4) by (simp add: stored_def finish(1))
  moreover have "map fst (gs_workers st') = grp_sessions g"
    using assms(2) worker_names [OF finish(2,3)] by (simp add: group_inv_def finish(1))
  ultimately show ?thesis unfolding group_inv_def by blast
qed (use assms(2) in \<open>auto simp: group_inv_def finished_sessions_def\<close>)

lemma group_reachable_inv: "(group_step runner)\<^sup>*\<^sup>* (group_init g results) st \<Longrightarrow> group_inv runner g results st"
  by (induction rule: rtranclp_induct) (auto intro: group_init_inv group_step_inv)

lemma group_finished:
  assumes "(group_step runner)\<^sup>*\<^sup>* (group_init g results) st" "group_done st"
  shows "\<exists>order. mset order = mset (grp_sessions g) \<and> stored runner order results = (gs_results st, gs_errors st)"
proof -
  have inv: "group_inv runner g results st" using assms(1) by (rule group_reachable_inv)
  have "filter (\<lambda>w. snd w = Finished) (gs_workers st) = gs_workers st"
    using assms(2) by (simp add: group_done_def list_all_iff filter_id_conv)
  then have "finished_sessions st = mset (grp_sessions g)" using inv by (metis group_inv_def finished_sessions_def)
  then show ?thesis using inv unfolding group_inv_def by metis
qed

section \<open>Every group ends\<close>

fun rank :: "phase \<Rightarrow> nat" where
  "rank Starting = 3" | "rank AtBarrier = 2" | "rank Running = 1" | "rank Finished = 0"

definition group_measure :: "'r group_state \<Rightarrow> nat" where
  "group_measure st = sum_list (map rank (phases st))"

lemma advances_measure:
  assumes "advances p q st st'" "rank q < rank p"
  shows "group_measure st' < group_measure st"
proof -
  from assms(1) obtain j where j: "j < length (phases st)" "phases st ! j = p" "phases st' = (phases st)[j := q]"
    by (auto simp: advances_def)
  have ps: "phases st = take j (phases st) @ p # drop (Suc j) (phases st)" using j(1,2) by (metis id_take_nth_drop)
  have up: "phases st' = take j (phases st) @ q # drop (Suc j) (phases st)" unfolding j(3) using j(1) by (rule upd_conv_take_nth_drop)
  show ?thesis unfolding group_measure_def up by (subst (3) ps) (use assms(2) in simp)
qed

lemma group_step_measure: "group_step runner st st' \<Longrightarrow> group_measure st' < group_measure st"
  using step_advances [of runner st st'] advances_measure [of _ _ st st'] by fastforce

lemma worker_at: "w \<in> set (gs_workers st) \<Longrightarrow> \<exists>i s. i < length (gs_workers st) \<and> gs_workers st ! i = (s, snd w)"
  by (metis in_set_conv_nth prod.collapse)

text \<open>A thread that is in one of the first two phases can go on, whichever thread it is.\<close>

lemma phase_step:
  assumes "barrier_inv st" "in_phase p st \<noteq> 0" "p = Starting \<or> p = AtBarrier \<and> in_phase Starting st = 0"
  shows "\<exists>st'. group_step runner st st'"
proof -
  have b: "bar_draining (gs_barrier st) \<longleftrightarrow> p = AtBarrier"
    using assms unfolding barrier_inv_def by (cases "bar_draining (gs_barrier st)") auto
  from assms(2) consider "gs_coordinator st = p" | w where "w \<in> set (gs_workers st)" "snd w = p"
    unfolding in_phase_none by blast
  then show ?thesis
  proof cases
    case 1
    then show ?thesis using b assms(3) group_step.coordinate [of st runner] group_step.release [of st runner] by auto
  next
    case (2 w)
    then obtain i s where "i < length (gs_workers st)" "gs_workers st ! i = (s, p)" using worker_at by metis
    then show ?thesis using b assms(3) group_step.arrive [of i st s runner] group_step.pass [of i st s runner] by auto
  qed
qed

lemma group_progress:
  assumes "barrier_inv st" "gs_coordinator st \<noteq> Finished" "\<not> group_done st"
  shows "\<exists>st'. group_step runner st st'"
proof (cases "in_phase Starting st = 0 \<and> in_phase AtBarrier st = 0")
  case False
  then show ?thesis using phase_step [OF assms(1), of Starting] phase_step [OF assms(1), of AtBarrier] by blast
next
  case True
  then have c: "gs_coordinator st = Running" "\<forall>w \<in> set (gs_workers st). running (snd w)"
    using assms(2) by (auto simp: in_phase_none running_def intro: phase.exhaust)
  with assms(3) obtain w where "w \<in> set (gs_workers st)" "snd w = Running" by (auto simp: group_done_def list_all_iff running_def)
  then obtain i s where w: "i < length (gs_workers st)" "gs_workers st ! i = (s, Running)" using worker_at by metis
  obtain res errs where "store_outcome runner s (gs_results st, gs_errors st) = (res, errs)" by (rule prod.exhaust)
  then show ?thesis using group_step.finish [OF w] by blast
qed

lemma coordinator_step: "group_step runner st st' \<Longrightarrow> gs_coordinator st \<noteq> Finished \<Longrightarrow> gs_coordinator st' \<noteq> Finished"
  by (cases rule: group_step.cases, assumption) auto

lemma coordinator_reachable: "(group_step runner)\<^sup>*\<^sup>* (group_init g results) st \<Longrightarrow> gs_coordinator st \<noteq> Finished"
  by (induction rule: rtranclp_induct) (auto simp: group_init_def dest: coordinator_step)

lemma reachable_progress:
  assumes "(group_step runner)\<^sup>*\<^sup>* (group_init g results) st" "\<not> group_done st"
  shows "\<exists>st'. group_step runner st st'"
  using group_progress barrier_reachable coordinator_reachable assms by metis

lemma group_ends:
  assumes "(group_step runner)\<^sup>*\<^sup>* (group_init g results) st"
  shows "\<exists>st'. (group_step runner)\<^sup>*\<^sup>* (group_init g results) st' \<and> group_done st'"
  using assms
proof (induction st rule: measure_induct_rule [of group_measure])
  case (less st)
  show ?case
  proof (cases "group_done st")
    case False
    then obtain st' where "group_step runner st st'" using reachable_progress less.prems by blast
    then show ?thesis using less group_step_measure by (meson rtranclp.rtrancl_into_rtrancl)
  qed (use less.prems in blast)
qed

lemma executes_total: "\<exists>out. executes runner gs results out"
proof (induction gs arbitrary: results)
  case (Cons g gs)
  obtain st where st: "(group_step runner)\<^sup>*\<^sup>* (group_init g results) st" "group_done st" using group_ends by blast
  show ?case
  proof (cases "gs_errors st")
    case Nil
    then show ?thesis using st Cons.IH by (meson executes.next_group)
  next
    case (Cons err errs)
    then show ?thesis using st by (blast intro: executes.raised)
  qed
qed (blast intro: executes.finished)

text \<open>A schedule without end would decrease the measure for ever.\<close>

lemma no_endless_schedule: "\<not> (\<forall>n. group_step runner (sched n) (sched (Suc n)))"
proof
  assume s: "\<forall>n. group_step runner (sched n) (sched (Suc n))"
  have "group_measure (sched n) + n \<le> group_measure (sched 0)" for n
  proof (induction n)
    case (Suc n)
    then show ?case using group_step_measure [OF s [rule_format, of n]] by simp
  qed simp
  from this [of "Suc (group_measure (sched 0))"] show False by simp
qed

section \<open>What an order of completion leaves\<close>

definition succeeds :: "(session \<Rightarrow> 'r result) \<Rightarrow> session \<Rightarrow> bool" where
  "succeeds runner s \<longleftrightarrow> (\<exists>v. runner s = Inr v)"

lemma stored_snoc: "stored runner (order @ [s]) results = store_outcome runner s (stored runner order results)"
  by (simp add: stored_def)

lemma update_member: "x \<in> set (AList.update k v al) \<Longrightarrow> x = (k, v) \<or> x \<in> set al"
  by (induction al) (auto split: if_splits)

lemma stored_errors:
  "snd (stored runner order results) = [] \<longleftrightarrow> list_all (succeeds runner) order"
  "\<And>sid e. (sid, e) \<in> set (snd (stored runner order results)) \<Longrightarrow> \<exists>s \<in> set order. sid = ses_id s \<and> runner s = Inl e"
proof (induction order rule: rev_induct)
  case Nil
  show "snd (stored runner [] results) = [] \<longleftrightarrow> list_all (succeeds runner) []" by (simp add: stored_def)
  show "\<And>sid e. (sid, e) \<in> set (snd (stored runner [] results)) \<Longrightarrow> \<exists>s \<in> set []. sid = ses_id s \<and> runner s = Inl e" by (simp add: stored_def)
next
  case (snoc s order)
  have ne: "AList.update k v xs \<noteq> []" for k and v :: exn and xs by (cases xs) auto
  show "snd (stored runner (order @ [s]) results) = [] \<longleftrightarrow> list_all (succeeds runner) (order @ [s])"
    using snoc.IH(1) ne by (cases "runner s") (auto simp: stored_snoc store_outcome_def succeeds_def [of runner s])
  show "\<exists>s \<in> set (order @ [s]). sid = ses_id s \<and> runner s = Inl e" if "(sid, e) \<in> set (snd (stored runner (order @ [s]) results))" for sid e
    using that snoc.IH(2) by (cases "runner s") (auto simp: stored_snoc store_outcome_def dest!: update_member)
qed

lemma stored_results:
  assumes "distinct (map ses_id order)" "list_all (succeeds runner) order"
  shows "map_of (fst (stored runner order results)) sid =
    (case find (\<lambda>s. ses_id s = sid) order of Some s \<Rightarrow> Some (projr (runner s)) | None \<Rightarrow> map_of results sid)"
  using assms
proof (induction order rule: rev_induct)
  case (snoc s order)
  obtain v where v: "runner s = Inr v" using snoc.prems(2) by (auto simp: succeeds_def)
  have f: "find P (xs @ [x]) = (case find P xs of Some y \<Rightarrow> Some y | None \<Rightarrow> if P x then Some x else None)" for P xs and x :: session
    by (induction xs) auto
  have "find (\<lambda>t. ses_id t = ses_id s) order = None" using snoc.prems(1) unfolding find_None_iff by (auto intro: rev_image_eqI)
  then show ?case using snoc v by (auto simp: stored_snoc store_outcome_def update_conv' f split: option.splits)
qed (simp add: stored_def)

lemma find_session:
  assumes "distinct (map ses_id order)" "s \<in> set order"
  shows "find (\<lambda>t. ses_id t = ses_id s) order = Some s"
  using assms by (induction order) auto

section \<open>Outcomes of executions\<close>

lemma executes_succeed:
  assumes "executes runner gs results out" "distinct (map ses_id (concat (map grp_sessions gs)))"
    "list_all (succeeds runner) (concat (map grp_sessions gs))"
  shows "\<exists>res. out = Inr res \<and> (\<forall>s \<in> set (concat (map grp_sessions gs)). map_of res (ses_id s) = Some (projr (runner s))) \<and>
    (\<forall>sid. sid \<notin> ses_id ` set (concat (map grp_sessions gs)) \<longrightarrow> map_of res sid = map_of results sid)"
  using assms
proof (induction rule: executes.induct)
  case (next_group g results st gs out)
  obtain order where o: "mset order = mset (grp_sessions g)" "stored runner order results = (gs_results st, gs_errors st)"
    using group_finished [OF next_group(1,2)] by blast
  have so: "set order = set (grp_sessions g)" using o(1) by (metis set_mset_mset)
  have "distinct (map ses_id (grp_sessions g))" using next_group.prems(1) by simp
  then have d: "distinct (map ses_id order)" using o(1) by (metis mset_eq_imp_distinct_iff mset_map)
  have ok: "list_all (succeeds runner) order" using next_group.prems(2) so by (auto simp: list_all_iff)
  note r = stored_results [OF d ok, of results, unfolded o(2) fst_conv]
  have "\<forall>s \<in> set (grp_sessions g). map_of (gs_results st) (ses_id s) = Some (projr (runner s))"
    using r find_session [OF d] so by simp
  moreover have "map_of (gs_results st) sid = map_of results sid" if "sid \<notin> ses_id ` set (grp_sessions g)" for sid
  proof -
    have "find (\<lambda>s. ses_id s = sid) order = None" using that so by (auto simp: find_None_iff)
    then show ?thesis using r by simp
  qed
  moreover obtain res where res: "out = Inr res"
    "\<forall>s \<in> set (concat (map grp_sessions gs)). map_of res (ses_id s) = Some (projr (runner s))"
    "\<forall>sid. sid \<notin> ses_id ` set (concat (map grp_sessions gs)) \<longrightarrow> map_of res sid = map_of (gs_results st) sid"
    using next_group.IH next_group.prems by auto
  moreover have "ses_id s \<notin> ses_id ` set (concat (map grp_sessions gs))" if "s \<in> set (grp_sessions g)" for s
    using next_group.prems(1) that by auto
  ultimately show ?case by (auto simp: image_Un)
next
  case (raised g results st err errs gs)
  obtain order where o: "mset order = mset (grp_sessions g)" "stored runner order results = (gs_results st, gs_errors st)"
    using group_finished [OF raised(1,2)] by blast
  have "set order = set (grp_sessions g)" using o(1) by (metis set_mset_mset)
  then have "list_all (succeeds runner) order" using raised.prems(2) by (auto simp: list_all_iff)
  then show ?case using stored_errors(1) [of runner order results] o(2) raised(3) by simp
qed auto

lemma executes_fail:
  assumes "executes runner gs results out" "\<not> list_all (succeeds runner) (concat (map grp_sessions gs))"
  shows "\<exists>gs1 g gs2 s e. gs = gs1 @ g # gs2 \<and> list_all (succeeds runner) (concat (map grp_sessions gs1)) \<and> out = Inl (ses_id s, e) \<and>
    s \<in> set (grp_sessions g) \<and> runner s = Inl e"
  using assms
proof (induction rule: executes.induct)
  case (next_group g results st gs out)
  obtain order where o: "mset order = mset (grp_sessions g)" "stored runner order results = (gs_results st, gs_errors st)"
    using group_finished [OF next_group(1,2)] by blast
  have "list_all (succeeds runner) (grp_sessions g)"
    using stored_errors(1) [of runner order results] o next_group(3) by (metis list_all_iff set_mset_mset snd_conv)
  then show ?case using next_group.IH next_group.prems by (fastforce intro: exI [of _ "g # _"])
next
  case (raised g results st err errs gs)
  obtain order where o: "mset order = mset (grp_sessions g)" "stored runner order results = (gs_results st, gs_errors st)"
    using group_finished [OF raised(1,2)] by blast
  obtain sid e where err: "err = (sid, e)" by (rule prod.exhaust)
  have "(sid, e) \<in> set (snd (stored runner order results))" using o(2) raised(3) err by simp
  then obtain s where "s \<in> set order" "sid = ses_id s" "runner s = Inl e" using stored_errors(2) by blast
  moreover have "set order = set (grp_sessions g)" using o(1) by (metis set_mset_mset)
  ultimately show ?case unfolding err by (intro exI [of _ "[]"] exI [of _ g] exI [of _ gs] exI [of _ s] exI [of _ e]) auto
qed auto

lemma returned_values:
  assumes "\<forall>s \<in> set (lp_sessions plan). map_of res (ses_id s) = Some (f s)"
  shows "returned plan (Inr res) = Inr (map f (lp_sessions plan))"
proof -
  have "mapM_r (\<lambda>s. case map_of res (ses_id s) of Some v \<Rightarrow> Inr v | None \<Rightarrow> Inl (KeyError (ses_id s))) ss = Inr (map f ss)"
    if "set ss \<subseteq> set (lp_sessions plan)" for ss using that assms by (induction ss) auto
  then show ?thesis by (simp add: returned_def)
qed

text \<open>
  C33.  What an execution of a plan with distinct session ids returns or raises, for every interleaving of
  the threads: if every session succeeds, the results in plan order, always the same; otherwise the
  error of a session that failed in the first group with a failure, naming that session and carrying
  the exception its own runner raised.  When several sessions of that group fail, which of them is named
  depends on the interleaving, and the statement leaves it open.
\<close>

theorem execution_outcome:
  assumes p: "lp_sessions plan = concat (map grp_sessions (lp_groups plan))" and d: "distinct (map ses_id (lp_sessions plan))"
    and x: "execute_plan runner plan r"
  shows "if list_all (succeeds runner) (lp_sessions plan) then r = Inr (map (\<lambda>s. projr (runner s)) (lp_sessions plan))
    else (\<exists>gs1 g gs2 s e. lp_groups plan = gs1 @ g # gs2 \<and> list_all (succeeds runner) (concat (map grp_sessions gs1)) \<and>
      s \<in> set (grp_sessions g) \<and> runner s = Inl e \<and> r = Inl (SessionFailed (ses_id s) e))"
proof -
  from x obtain out where o: "executes runner (lp_groups plan) [] out" "r = returned plan out" by (auto simp: execute_plan_def)
  show ?thesis
  proof (cases "list_all (succeeds runner) (lp_sessions plan)")
    case True
    then obtain res where "out = Inr res" "\<forall>s \<in> set (lp_sessions plan). map_of res (ses_id s) = Some (projr (runner s))"
      using executes_succeed [OF o(1)] p d by auto
    then show ?thesis using True o(2) returned_values [of plan res "\<lambda>s. projr (runner s)"] by simp
  next
    case False
    then have "\<not> list_all (succeeds runner) (concat (map grp_sessions (lp_groups plan)))" by (simp add: p)
    from executes_fail [OF o(1) this] obtain gs1 g gs2 s e where
      w: "lp_groups plan = gs1 @ g # gs2" "list_all (succeeds runner) (concat (map grp_sessions gs1))" "out = Inl (ses_id s, e)"
        "s \<in> set (grp_sessions g)" "runner s = Inl e" by blast
    have "r = Inl (SessionFailed (ses_id s) e)" by (simp add: o(2) w(3) returned_def)
    with w show ?thesis using False by (simp only: if_False) blast
  qed
qed

text \<open>
  C34.  The barrier holds at every moment of every interleaving: once the runner of one session of a group
  has been called, the coordinator and every worker of the group have arrived.  This follows from the
  count of the barrier, which is made for one thread per session and one for the coordinator.
\<close>

theorem barrier_respected:
  assumes "(group_step runner)\<^sup>*\<^sup>* (group_init g results) st" "w \<in> set (gs_workers st)" "running (snd w)"
  shows "map fst (gs_workers st) = grp_sessions g \<and> gs_coordinator st \<noteq> Starting \<and> list_all (\<lambda>v. snd v \<noteq> Starting) (gs_workers st)"
  using group_reachable_inv [OF assms(1)] none_starting [OF barrier_reachable [OF assms(1)] assms(2,3)]
  by (simp add: group_inv_def in_phase_none list_all_iff)

text \<open>
  C35.  Every execution ends, whatever the scheduler does: in a group that is not finished some thread can
  always take a step, so no interleaving is stuck at the barrier, there is no infinite sequence of
  steps, and hence a plan always has an outcome.
\<close>

theorem execution_ends:
  "((group_step runner)\<^sup>*\<^sup>* (group_init g results) st \<longrightarrow> group_done st \<or> (\<exists>st'. group_step runner st st')) \<and>
   \<not> (\<forall>n. group_step runner (sched n) (sched (Suc n))) \<and> (\<exists>r. execute_plan runner plan r)"
  using reachable_progress no_endless_schedule executes_total unfolding execute_plan_def by blast

lemma numbered:
  "map (\<lambda>w. f (snd w)) (zip [0..<length xs] xs) = map f xs" "map fst (zip [0..<length xs] xs) = [0..<length xs]"
  by (auto intro: nth_equalityI)

lemma planned_order:
  "map ses_arm_id (grp_sessions (plan_group arms seed offset scenario index rep)) =
     (let r = nat ((seed + offset + int index + int rep - 1) mod int (length arms)) in map arm_id (drop r arms @ take r arms))"
  "map ses_start_order (grp_sessions (plan_group arms seed offset scenario index rep)) =
     (let r = nat ((seed + offset + int index + int rep - 1) mod int (length arms)) in [0..<length (drop r arms @ take r arms)])"
  unfolding plan_group_def Let_def by (simp_all add: comp_def case_prod_beta numbered del: length_append length_drop length_take map_append)

lemma group_order:
  assumes "arms \<noteq> []"
  defines "n \<equiv> length arms"
  shows "length (grp_sessions (plan_group arms seed offset scenario index rep)) = n"
    "p < n \<Longrightarrow> ses_arm_id (grp_sessions (plan_group arms seed offset scenario index rep) ! p) =
       arm_id (arms ! nat ((seed + offset + int index + int rep - 1 + int p) mod int n))"
    "mset (map ses_arm_id (grp_sessions (plan_group arms seed offset scenario index rep))) = mset (map arm_id arms)"
    "map ses_start_order (grp_sessions (plan_group arms seed offset scenario index rep)) = [0..<n]"
proof -
  let ?k = "(seed + offset + int index + int rep - 1)"
  define r where "r = nat (?k mod int n)"
  have n: "0 < n" using assms by simp
  have r: "r < n" "int r = ?k mod int n" using n by (simp_all add: r_def nat_less_iff)
  have rot: "drop r arms @ take r arms = rotate r arms" using r(1) by (simp add: rotate_drop_take n_def)
  have g: "map ses_arm_id (grp_sessions (plan_group arms seed offset scenario index rep)) = map arm_id (rotate r arms)"
    unfolding planned_order Let_def r_def [symmetric] n_def [symmetric] rot by (rule refl)
  show len: "length (grp_sessions (plan_group arms seed offset scenario index rep)) = n"
    using arg_cong [OF g, of length] by (simp add: n_def)
  show "ses_arm_id (grp_sessions (plan_group arms seed offset scenario index rep) ! p) =
       arm_id (arms ! nat ((?k + int p) mod int n))" if p: "p < n"
  proof -
    have "ses_arm_id (grp_sessions (plan_group arms seed offset scenario index rep) ! p) = arm_id (rotate r arms ! p)"
      using arg_cong [OF g, of "\<lambda>xs. xs ! p"] p len by (simp add: n_def)
    also have "rotate r arms ! p = arms ! ((p + r) mod n)" using p by (simp add: nth_rotate n_def add.commute)
    also have "(p + r) mod n = nat ((?k + int p) mod int n)"
    proof -
      have "int ((p + r) mod n) = (int p + ?k) mod int n" by (simp add: zmod_int r(2) mod_simps)
      then show ?thesis by (metis add.commute nat_int)
    qed
    finally show ?thesis .
  qed
  show "mset (map ses_arm_id (grp_sessions (plan_group arms seed offset scenario index rep))) = mset (map arm_id arms)"
  proof -
    have "mset (rotate r arms) = mset arms" unfolding rot [symmetric] by (metis append_take_drop_id mset_append union_commute)
    then show ?thesis unfolding g by simp
  qed
  show "map ses_start_order (grp_sessions (plan_group arms seed offset scenario index rep)) = [0..<n]"
    unfolding planned_order Let_def r_def [symmetric] n_def [symmetric] rot by (simp add: n_def)
qed

lemma mod_position:
  assumes "0 < n" "j < n"
  shows "\<exists>!rep. rep \<in> {k..<k + n} \<and> nat ((c + int rep) mod int n) = j"
proof -
  define d where "d = nat ((int j - c - int k) mod int n)"
  have d: "d < n" "int d = (int j - c - int k) mod int n" using assms(1) by (simp_all add: d_def nat_less_iff)
  have "(c + int (k + d)) mod int n = (c + int k + (int j - c - int k) mod int n) mod int n" by (simp add: d(2) algebra_simps)
  also have "\<dots> = (c + int k + (int j - c - int k)) mod int n" by (rule mod_add_right_eq)
  finally have "(c + int (k + d)) mod int n = int j mod int n" by simp
  then have ex: "nat ((c + int (k + d)) mod int n) = j" using assms(2) by simp
  have "a = b" if "a \<in> {k..<k + n}" "b \<in> {k..<k + n}" "(c + int a) mod int n = (c + int b) mod int n" for a b
  proof -
    have "int n dvd int a - int b" using that(3) by (simp add: mod_eq_dvd_iff)
    moreover have "\<bar>int a - int b\<bar> < int n" using that(1,2) by auto
    ultimately have "int a - int b = 0" using dvd_imp_le_int [of "int a - int b" "int n"] by linarith
    then show ?thesis by simp
  qed
  then show ?thesis using ex d(1) assms by (intro ex1I [of _ "k + d"]) (auto simp: nat_eq_iff2)
qed

text \<open>
  C32.  Start orders are counterbalanced: whatever the seed, within as many consecutive replicates as there
  are arms every arm starts exactly once at every position.
\<close>

theorem start_order_counterbalanced:
  assumes "distinct (map arm_id arms)" "a \<in> set arms" "p < length arms"
  shows "\<exists>!rep. rep \<in> {k..<k + length arms} \<and>
    ses_arm_id (grp_sessions (plan_group arms seed offset scenario index rep) ! p) = arm_id a"
proof -
  let ?n = "length arms"
  obtain j where j: "j < ?n" "arms ! j = a" using assms(2) by (auto simp: in_set_conv_nth)
  have n: "0 < ?n" "arms \<noteq> []" using assms(3) by auto
  have "arm_id (arms ! i) = arm_id a \<longleftrightarrow> i = j" if "i < ?n" for i
    using assms(1) that j by (auto simp: distinct_conv_nth)
  then have iff: "ses_arm_id (grp_sessions (plan_group arms seed offset scenario index rep) ! p) = arm_id a \<longleftrightarrow>
      nat ((seed + offset + int index - 1 + int p + int rep) mod int ?n) = j" for rep
    using group_order(2) [OF n(2) assms(3), of seed offset scenario index rep] n by (simp add: nat_less_iff algebra_simps)
  show ?thesis unfolding iff by (rule mod_position [OF n(1) j(1)])
qed

section \<open>The plan\<close>

definition planned_groups :: "arm list \<Rightarrow> int \<Rightarrow> int \<Rightarrow> nat \<Rightarrow> nat \<Rightarrow> pystr list \<Rightarrow> start_group list" where
  "planned_groups arms seed offset reps index ids =
     concat (map (\<lambda>(i, scenario). map (plan_group arms seed offset scenario i) [1..<reps + 1]) (zip [index..<index + length ids] ids))"

lemma planned_groups_Cons:
  "planned_groups arms seed offset reps index (sc # ids) =
     map (plan_group arms seed offset sc index) [1..<reps + 1] @ planned_groups arms seed offset reps (index + 1) ids"
proof -
  have "[index..<Suc (index + length ids)] = index # [Suc index..<Suc (index + length ids)]" by (simp add: upt_rec)
  then show ?thesis by (simp add: planned_groups_def)
qed

lemma plan_scenarios_groups:
  assumes "plan_scenarios arms seed offset reps index ss = Inr gs"
  shows "\<exists>ids. map (\<lambda>s. get s ''scenario_id'') ss = map JStr ids \<and> gs = planned_groups arms seed offset reps index ids"
  using assms
proof (induction arms seed offset reps index ss arbitrary: gs rule: plan_scenarios.induct)
  case (2 arms seed offset reps index s ss)
  from "2.prems" obtain sc gs' where s: "get s ''scenario_id'' = JStr sc" "plan_scenarios arms seed offset reps (index + 1) ss = Inr gs'"
    "gs = map (plan_group arms seed offset sc index) [1..<reps + 1] @ gs'"
    by (auto simp: bind_r_Inr_iff split: json.splits)
  obtain ids where ids: "map (\<lambda>s. get s ''scenario_id'') ss = map JStr ids" "gs' = planned_groups arms seed offset reps (index + 1) ids"
    using "2.IH" [OF s(1,2)] by blast
  show ?case by (rule exI [of _ "sc # ids"]) (simp add: s(1,3) ids planned_groups_Cons del: upt.simps)
qed (auto simp: planned_groups_def)

lemma last_slash: "47 \<notin> set x \<Longrightarrow> 47 \<notin> set y \<Longrightarrow> a @ 47 # x = b @ 47 # (y :: pystr) \<Longrightarrow> a = b \<and> x = y"
proof -
  assume "47 \<notin> set x" "47 \<notin> set y" "a @ 47 # x = b @ 47 # y"
  then have "rev x @ 47 # rev a = rev y @ 47 # rev b" by (metis append.assoc append_Cons append_Nil rev.simps(2) rev_append)
  moreover have "takeWhile (\<lambda>c. c \<noteq> 47) (rev x @ 47 # rev a) = rev x" "takeWhile (\<lambda>c. c \<noteq> 47) (rev y @ 47 # rev b) = rev y"
    using \<open>47 \<notin> set x\<close> \<open>47 \<notin> set y\<close> by (subst takeWhile_append2; auto)+
  ultimately show ?thesis by (metis append_same_eq list.inject rev_is_rev_conv same_append_eq)
qed

lemma print_int_no_slash: "0 \<le> i \<Longrightarrow> 47 \<notin> set (print_int i)"
  using decimal_digits [of 47 "nat i"] by (auto simp: print_int_def is_digit_def)

lemma print_int_inject: "0 \<le> i \<Longrightarrow> 0 \<le> j \<Longrightarrow> print_int i = print_int j \<Longrightarrow> i = j"
  by (metis decimal_value int_nat_eq nat_0_le nonneg_int_cases not_less print_int_def)

lemma group_name_inject:
  assumes "0 \<le> i" "0 \<le> j" "group_name s i = group_name t j"
  shows "s = t \<and> i = j"
proof -
  have "s @ 47 # 114 # print_int i = t @ 47 # 114 # print_int j" using assms(3) by (simp add: group_name_def)
  then show ?thesis using last_slash [of "114 # print_int i" "114 # print_int j" s t] print_int_no_slash print_int_inject assms(1,2) by auto
qed

lemma planned_session:
  assumes "s \<in> set (grp_sessions (plan_group arms seed offset scenario index rep))"
  shows "\<exists>a \<in> set arms. ses_arm_id s = arm_id a \<and> ses_id s = group_name scenario (int rep + offset) @ 47 # arm_id a"
proof -
  from assms obtain r b where b: "b \<in> set (drop r arms) \<or> b \<in> set (take r arms)" "ses_arm_id s = arm_id b"
    "ses_id s = group_name scenario (int rep + offset) @ 47 # arm_id b"
    by (auto simp: plan_group_def Let_def dest!: set_zip_rightD)
  then have "b \<in> set arms" using in_set_dropD in_set_takeD by fastforce
  then show ?thesis using b by blast
qed

definition no_slash :: "arm list \<Rightarrow> bool" where
  "no_slash arms \<longleftrightarrow> list_all (\<lambda>a. 47 \<notin> set (arm_id a)) arms"

lemma session_id_inject:
  assumes "no_slash arms" "0 \<le> offset" "1 \<le> i" "1 \<le> j"
    "s \<in> set (grp_sessions (plan_group arms seed offset sc x i))" "t \<in> set (grp_sessions (plan_group arms seed offset sc' y j))"
    "ses_id s = ses_id t"
  shows "sc = sc' \<and> i = j"
proof -
  obtain a b where ab: "a \<in> set arms" "b \<in> set arms" "ses_id s = group_name sc (int i + offset) @ 47 # arm_id a"
    "ses_id t = group_name sc' (int j + offset) @ 47 # arm_id b" using planned_session assms(5,6) by metis
  have "group_name sc (int i + offset) = group_name sc' (int j + offset)"
    using last_slash [of "arm_id a" "arm_id b"] ab assms(1,7) by (auto simp: no_slash_def list_all_iff)
  then show ?thesis using group_name_inject [of "int i + offset" "int j + offset"] assms(2) by auto
qed

lemma group_ids_distinct:
  assumes "distinct (map arm_id arms)" "arms \<noteq> []"
  shows "distinct (map ses_id (grp_sessions (plan_group arms seed offset sc x i)))"
proof -
  have "distinct (map ses_arm_id (grp_sessions (plan_group arms seed offset sc x i)))"
    using group_order(3) [OF assms(2), of seed offset sc x i] assms(1) by (metis mset_eq_imp_distinct_iff)
  moreover have "ses_id s = ses_id t \<Longrightarrow> ses_arm_id s = ses_arm_id t"
    if "s \<in> set (grp_sessions (plan_group arms seed offset sc x i))" "t \<in> set (grp_sessions (plan_group arms seed offset sc x i))" for s t
    using planned_session [OF that(1)] planned_session [OF that(2)] by auto
  ultimately show ?thesis unfolding distinct_map inj_on_def by blast
qed

lemma planned_distinct:
  assumes "no_slash arms" "0 \<le> offset" "distinct (map arm_id arms)" "arms \<noteq> []" "distinct ids"
  shows "distinct (map ses_id (concat (map grp_sessions (planned_groups arms seed offset reps index ids))))"
  using assms(5)
proof (induction ids arbitrary: index)
  case (Cons sc ids)
  let ?one = "map (plan_group arms seed offset sc index) [1..<reps + 1]"
  have one: "distinct (map ses_id (concat (map grp_sessions (map (plan_group arms seed offset sc index) rs))))"
    if "distinct rs" "\<forall>r \<in> set rs. 1 \<le> r" for rs
    using that
  proof (induction rs)
    case (Cons r rs)
    have "ses_id s \<noteq> ses_id t" if "s \<in> set (grp_sessions (plan_group arms seed offset sc index r))"
      "t \<in> set (grp_sessions (plan_group arms seed offset sc index r'))" "r' \<in> set rs" for s t r'
      using session_id_inject [OF assms(1,2) _ _ that(1,2)] Cons.prems that(3) by auto
    then show ?case using Cons group_ids_distinct [OF assms(3,4)] by (fastforce simp: distinct_append)
  qed simp
  have "ses_id s \<noteq> ses_id t" if "s \<in> set (concat (map grp_sessions ?one))"
    "t \<in> set (concat (map grp_sessions (planned_groups arms seed offset reps (index + 1) ids)))" for s t
  proof -
    from that(1) obtain i where i: "1 \<le> i" "s \<in> set (grp_sessions (plan_group arms seed offset sc index i))" by auto
    from that(2) obtain j y sc' where j: "1 \<le> j" "t \<in> set (grp_sessions (plan_group arms seed offset sc' y j))" "sc' \<in> set ids"
      by (auto simp: planned_groups_def dest: set_zip_rightD)
    show ?thesis using session_id_inject [OF assms(1,2) i(1) j(1) i(2) j(2)] Cons.prems j(3) by auto
  qed
  then show ?case unfolding planned_groups_Cons using one [of "[1..<reps + 1]"] Cons by (fastforce simp: distinct_append simp del: upt_Suc)
qed (simp add: planned_groups_def)

lemma read_arms_ok:
  assumes "read_arms seen xs = Inr arms"
  shows "length arms = length xs" "distinct (map arm_id arms)" "set (map arm_id arms) \<inter> set seen = {}"
proof -
  have "length arms = length xs \<and> distinct (map arm_id arms) \<and> set (map arm_id arms) \<inter> set seen = {}" using assms
    by (induction seen xs arbitrary: arms rule: read_arms.induct) (fastforce simp: bind_r_Inr_iff split: option.splits if_splits)+
  then show "length arms = length xs" "distinct (map arm_id arms)" "set (map arm_id arms) \<inter> set seen = {}" by auto
qed

lemma arms_of_ok: "arms_of matrix = Inr arms \<Longrightarrow> arms \<noteq> [] \<and> distinct (map arm_id arms)"
  using read_arms_ok by (fastforce simp: arms_of_def split: json.splits if_splits)

lemma launch_error_ok: "launch_error r = Inr x \<longleftrightarrow> r = Inr x"
  by (auto simp: launch_error_def split: sum.splits exn.splits)

lemma py_distinct_ids: "py_distinct (map JStr ids) \<longleftrightarrow> distinct ids"
  by (induction ids) (auto simp: py_in_def list_ex_iff)

lemma inputs_ok:
  assumes "validate_inputs schema protocol suite matrix = Inr (scenarios, arms)"
  obtains xs where "arms_of matrix = Inr arms" "schema ''arm-matrix'' matrix = None" "schema ''scenario-suite'' suite = None"
    "get suite ''scenarios'' = JArr xs" "scenarios = objects xs" "validate_semantics ''scenario-suite'' suite = Inr ()"
proof -
  from assms have v: "validate_contract schema ''study-protocol'' protocol = Inr protocol"
    "validate_contract schema ''scenario-suite'' suite = Inr suite" "validate_contract schema ''arm-matrix'' matrix = Inr matrix"
    using accepted_contract(1) by (fastforce simp: validate_inputs_def bind_r_Inr_iff launch_error_ok)+
  note simps = launch_error_def validate_inputs_def v bind_r_simps sum.case
  obtain xs where "arms_of matrix = Inr arms" "get suite ''scenarios'' = JArr xs" "scenarios = objects xs"
    using assms by (auto simp: simps bind_r_Inr_iff split: if_splits json.splits)
  then show ?thesis using that accepted_contract(3,4) [OF v(2)] accepted_contract(3) [OF v(3)] by blast
qed

lemma scenario_ids_distinct:
  assumes "validate_semantics ''scenario-suite'' suite = Inr ()" "get suite ''scenarios'' = JArr xs" "get suite ''required_classes'' = JArr ys"
    "map (\<lambda>s. get s ''scenario_id'') (objects xs) = map JStr ids"
  shows "distinct ids"
proof -
  have "require_distinct (column ''scenario_id'' xs) ''scenario suite scenario IDs must be unique'' = Inr ()"
    using assms(1-3) by (auto simp: validate_semantics_def check_scenario_suite_def bind_r_Inr_iff)
  then show ?thesis using assms(4) by (simp add: require_distinct_def require_def bind_r_Inr_iff column_def py_distinct_ids split: if_splits)
qed

lemma planned_length:
  assumes "arms \<noteq> []"
  shows "length (concat (map grp_sessions (planned_groups arms seed offset reps index ids))) = length ids * length arms * reps"
proof -
  have "length (concat (map grp_sessions (map (plan_group arms seed offset sc i) rs))) = length rs * length arms" for sc i rs
    by (induction rs) (simp_all add: group_order(1) [OF assms])
  then have one: "length (concat (map grp_sessions (map (plan_group arms seed offset sc i) [1..<reps + 1]))) = length arms * reps" for sc i
    by simp
  show ?thesis
  proof (induction ids arbitrary: index)
    case (Cons sc ids)
    show ?case using Cons one by (simp del: upt_Suc add: planned_groups_Cons algebra_simps)
  qed (simp add: planned_groups_def)
qed

text \<open>The scenario and the replicate of a group, and that all its sessions share them.\<close>

definition group_key :: "start_group \<Rightarrow> pystr \<times> int" where
  "group_key g = (ses_scenario_id (hd (grp_sessions g)), ses_replicate (hd (grp_sessions g)))"

definition one_key :: "start_group \<Rightarrow> bool" where
  "one_key g \<longleftrightarrow> list_all (\<lambda>s. (ses_scenario_id s, ses_replicate s) = group_key g \<and> ses_start_group s = grp_id g) (grp_sessions g)"

lemma planned_key:
  assumes "arms \<noteq> []"
  shows "group_key (plan_group arms seed offset scenario index rep) = (scenario, int rep + offset)"
    "one_key (plan_group arms seed offset scenario index rep)"
proof -
  let ?g = "plan_group arms seed offset scenario index rep"
  have all: "ses_scenario_id s = scenario \<and> ses_replicate s = int rep + offset \<and> ses_start_group s = grp_id ?g" if "s \<in> set (grp_sessions ?g)" for s
    using that by (auto simp: plan_group_def Let_def)
  have "grp_sessions ?g \<noteq> []" using group_order(1) [OF assms] assms by (metis length_0_conv)
  then have "hd (grp_sessions ?g) \<in> set (grp_sessions ?g)" by simp
  with all show "group_key ?g = (scenario, int rep + offset)" by (simp add: group_key_def)
  then show "one_key ?g" using all by (simp add: one_key_def list_all_iff)
qed

lemma planned_keys:
  assumes "arms \<noteq> []"
  shows "map group_key (planned_groups arms seed offset reps index ids) = List.product ids (map (\<lambda>k. int k + offset) [1..<reps + 1])"
proof (induction ids arbitrary: index)
  case (Cons sc ids)
  show ?case by (simp add: planned_groups_Cons Cons.IH planned_key(1) [OF assms] del: upt_Suc)
qed (simp add: planned_groups_def)

text \<open>
  C31.  A plan is matched and within its limits.  It has exactly one start group for every scenario of the
  suite and every replicate from 1 to the protocol's number, shifted by the offset, in this order; all
  sessions of a group are of its scenario and replicate, and they hold every arm of the sealed matrix
  exactly once, numbered by start order.  The sessions of the plan are those of its groups, in order, and
  their ids are unique.  The announced numbers of sessions and credits are those of the plan, and the
  limits the protocol sets on sessions, on concurrent sessions and on credits all hold.  The schemas are
  assumed to require a list of classes and arm ids without a slash.
\<close>

theorem plan_matched:
  assumes plan: "plan_sessions schema protocol suite matrix offset = Inr plan"
    and suite_schema: "\<And>d. schema ''scenario-suite'' d = None \<Longrightarrow> \<exists>xs. get d ''required_classes'' = JArr xs"
    and matrix_schema: "\<And>d arms. schema ''arm-matrix'' d = None \<Longrightarrow> arms_of d = Inr arms \<Longrightarrow> no_slash arms"
  shows "\<exists>arms xs ids reps. arms_of matrix = Inr arms \<and> get suite ''scenarios'' = JArr xs \<and>
    map (\<lambda>s. get s ''scenario_id'') (objects xs) = map JStr ids \<and> distinct ids \<and> get protocol ''replicates'' = JInt reps \<and> 1 \<le> reps \<and>
    map group_key (lp_groups plan) = List.product ids (map (\<lambda>k. int k + offset) [1..<nat reps + 1]) \<and>
    (\<forall>g \<in> set (lp_groups plan). one_key g \<and> mset (map ses_arm_id (grp_sessions g)) = mset (map arm_id arms) \<and>
       map ses_start_order (grp_sessions g) = [0..<length arms]) \<and>
    lp_sessions plan = concat (map grp_sessions (lp_groups plan)) \<and> distinct (map ses_id (lp_sessions plan)) \<and>
    lp_estimated_sessions plan = int (length (lp_sessions plan)) \<and>
    estimate_credits protocol (int (length (lp_sessions plan))) = Inr (lp_estimated_credits plan) \<and>
    limits_of protocol = Inr (lp_max_sessions plan, lp_max_concurrent plan, lp_max_credits plan) \<and>
    (\<forall>m. lp_max_sessions plan = Some m \<longrightarrow> int (length (lp_sessions plan)) \<le> m) \<and>
    (\<forall>m. lp_max_concurrent plan = Some m \<longrightarrow> (\<forall>g \<in> set (lp_groups plan). int (length (grp_sessions g)) \<le> m)) \<and>
    (\<forall>m. lp_max_credits plan = Some m \<longrightarrow> \<not> float_less m (lp_estimated_credits plan))"
proof -
  have whole: "whole_number protocol f l msg = Inr n \<Longrightarrow> l \<le> n \<and> get protocol f = JInt n" for f l msg n
    by (auto simp: whole_number_def split: json.splits if_splits)
  have over: "\<not> over_limit l n \<Longrightarrow> l = Some m \<Longrightarrow> n \<le> m" for l n m by (simp add: over_limit_def)
  from plan obtain scenarios arms ms mc mx reps credits seed groups where p: "0 \<le> offset" "validate_inputs schema protocol suite matrix = Inr (scenarios, arms)"
    "\<not> over_limit mc (int (length arms))" "1 \<le> reps" "\<not> over_limit ms (int (length scenarios) * int (length arms) * reps)"
    "plan_scenarios arms seed offset (nat reps) 0 scenarios = Inr groups" "lp_sessions plan = concat (map grp_sessions groups)"
    "lp_groups plan = groups" "lp_estimated_sessions plan = int (length scenarios) * int (length arms) * reps" "lp_max_sessions plan = ms"
    "lp_max_concurrent plan = mc" "get protocol ''replicates'' = JInt reps" "limits_of protocol = Inr (ms, mc, mx)" "lp_max_credits plan = mx"
    "estimate_credits protocol (int (length scenarios) * int (length arms) * reps) = Inr credits" "lp_estimated_credits plan = credits"
    "\<not> over_credits mx credits"
    by (auto simp: plan_sessions_def bind_r_Inr_iff Let_def not_less split: if_splits dest!: whole)
  obtain xs where i: "arms_of matrix = Inr arms" "schema ''arm-matrix'' matrix = None" "schema ''scenario-suite'' suite = None"
    "get suite ''scenarios'' = JArr xs" "scenarios = objects xs" "validate_semantics ''scenario-suite'' suite = Inr ()"
    using inputs_ok [OF p(2)] by blast
  obtain ids where ids: "map (\<lambda>s. get s ''scenario_id'') scenarios = map JStr ids" "groups = planned_groups arms seed offset (nat reps) 0 ids"
    using plan_scenarios_groups [OF p(6)] by blast
  note arms = arms_of_ok [OF i(1)]
  have di: "distinct ids" using scenario_ids_distinct [OF i(6,4)] suite_schema [OF i(3)] ids(1) i(5) by blast
  then have d: "distinct (map ses_id (lp_sessions plan))"
    using planned_distinct [OF matrix_schema [OF i(2,1)] p(1)] arms by (simp add: p(7) ids(2))
  have "length ids = length scenarios" using arg_cong [OF ids(1), of length] by simp
  then have len: "int (length (lp_sessions plan)) = int (length scenarios) * int (length arms) * reps"
    using planned_length arms p(4) unfolding p(7) ids(2) by (metis int_nat_eq not_one_le_zero of_nat_mult order.trans zero_le_one)
  have g: "one_key g \<and> mset (map ses_arm_id (grp_sessions g)) = mset (map arm_id arms) \<and> map ses_start_order (grp_sessions g) = [0..<length arms] \<and>
      length (grp_sessions g) = length arms" if "g \<in> set groups" for g
    using that group_order planned_key(2) arms by (auto simp: ids(2) planned_groups_def)
  have keys: "map group_key (lp_groups plan) = List.product ids (map (\<lambda>k. int k + offset) [1..<nat reps + 1])"
    using planned_keys arms unfolding p(8) ids(2) by blast
  have credits: "\<not> float_less m (lp_estimated_credits plan)" if "lp_max_credits plan = Some m" for m
    using p(17) that [unfolded p(14)] unfolding p(16) by (simp add: over_credits_def)
  show ?thesis
  proof (intro exI conjI)
    show "map (\<lambda>s. get s ''scenario_id'') (objects xs) = map JStr ids" using ids(1) i(5) by simp
    show "estimate_credits protocol (int (length (lp_sessions plan))) = Inr (lp_estimated_credits plan)" using p(15,16) len by simp
  qed (use i(1,4) di p keys g d len over [OF p(3)] over [OF p(5)] credits in auto)
qed

section \<open>Examples\<close>

definition example_arms :: "arm list" where
  "example_arms = [\<lparr>arm_id = lit ''A'', arm_capture = lit ''c'', arm_projection = lit ''p'', arm_tool_surface = lit ''t'', arm_runner = None\<rparr>,
     \<lparr>arm_id = lit ''B'', arm_capture = lit ''c'', arm_projection = lit ''p'', arm_tool_surface = lit ''t'', arm_runner = None\<rparr>]"

theorem start_order_counterbalanced_witness:
  "\<exists>!rep. rep \<in> {1..<3} \<and> ses_arm_id (grp_sessions (plan_group example_arms 7 0 (lit ''s'') 0 rep) ! 1) = lit ''A''"
proof -
  have a: "distinct (map arm_id example_arms)" "example_arms ! 0 \<in> set example_arms" "1 < length example_arms"
    "arm_id (example_arms ! 0) = lit ''A''" "1 + length example_arms = 3" by code_simp+
  show ?thesis using start_order_counterbalanced [OF a(1-3), of 1 7 0 "lit ''s''" 0] unfolding a(4,5) .
qed

definition example_group :: start_group where
  "example_group = plan_group example_arms 7 0 (lit ''s'') 0 1"

definition example_plan :: launch_plan where
  "example_plan = \<lparr>lp_protocol_digest = [], lp_sessions = grp_sessions example_group, lp_groups = [example_group], lp_estimated_sessions = 2,
     lp_estimated_credits = Finite 0, lp_max_concurrent = None, lp_max_sessions = None, lp_max_credits = None\<rparr>"

lemma example_plan_ok:
  "lp_sessions example_plan = concat (map grp_sessions (lp_groups example_plan))" "distinct (map ses_id (lp_sessions example_plan))"
  "map ses_arm_id (lp_sessions example_plan) = [lit ''B'', lit ''A'']"
  by code_simp+

definition arm_a_fails :: "session \<Rightarrow> pystr result" where
  "arm_a_fails s = (if ses_arm_id s = lit ''A'' then Inl OSError else Inr (ses_arm_id s))"

theorem execution_outcome_witness:
  "execute_plan (\<lambda>s. Inr (ses_arm_id s)) example_plan (Inr [lit ''B'', lit ''A'']) \<and>
   execute_plan arm_a_fails example_plan (Inl (SessionFailed (lit ''s/r1/A'') OSError))"
proof -
  obtain r where r: "execute_plan (\<lambda>s. Inr (ses_arm_id s)) example_plan r"
    using executes_total unfolding execute_plan_def by blast
  have "list_all (succeeds (\<lambda>s. Inr (ses_arm_id s))) (lp_sessions example_plan)" by (simp add: succeeds_def list_all_iff)
  then have a: "r = Inr [lit ''B'', lit ''A'']" using execution_outcome [OF example_plan_ok(1,2) r] example_plan_ok(3) by (simp del: lit_simps)
  obtain q where q: "execute_plan arm_a_fails example_plan q"
    using executes_total unfolding execute_plan_def by blast
  have ids: "list_all (\<lambda>s. ses_arm_id s \<noteq> lit ''A'' \<or> ses_id s = lit ''s/r1/A'') (lp_sessions example_plan)" by code_simp
  have "lit ''A'' \<in> set (map ses_arm_id (lp_sessions example_plan))" unfolding example_plan_ok(3) by simp
  then have nf: "\<not> list_all (succeeds arm_a_fails) (lp_sessions example_plan)" by (auto simp: list_all_iff succeeds_def arm_a_fails_def simp del: lit_simps)
  with execution_outcome [OF example_plan_ok(1,2) q] obtain gs1 g gs2 s e where
    w: "lp_groups example_plan = gs1 @ g # gs2" "s \<in> set (grp_sessions g)" "arm_a_fails s = Inl e" "q = Inl (SessionFailed (ses_id s) e)" by auto
  have "s \<in> set (lp_sessions example_plan)" unfolding example_plan_ok(1) using w(1,2) by simp
  then have "ses_id s = lit ''s/r1/A''" "e = OSError" using w(3) ids by (auto simp: arm_a_fails_def list_all_iff simp del: lit_simps split: if_splits)
  then show ?thesis using r a q w(4) by simp
qed

definition solo_group :: start_group where
  "solo_group = \<lparr>grp_id = lit ''g'', grp_sessions = take 1 (grp_sessions example_group)\<rparr>"

text \<open>A group of one session up to the call of its runner.\<close>

lemma solo_run:
  defines "s \<equiv> hd (grp_sessions solo_group)"
  shows "(group_step (\<lambda>s. Inr ()))\<^sup>*\<^sup>* (group_init solo_group [])
    \<lparr>gs_workers = [(s, Running)], gs_coordinator = AtBarrier, gs_barrier = \<lparr>bar_parties = 2, bar_count = 1, bar_draining = True\<rparr>,
     gs_results = [], gs_errors = []\<rparr>"
proof -
  let ?step = "group_step (\<lambda>s. Inr ())"
  let ?st = "\<lambda>p c n d. \<lparr>gs_workers = [(s, p)], gs_coordinator = c, gs_barrier = \<lparr>bar_parties = 2, bar_count = n, bar_draining = d\<rparr>,
     gs_results = [] :: (pystr \<times> unit) list, gs_errors = []\<rparr>"
  have "grp_sessions solo_group = [s]" unfolding s_def by code_simp
  then have i: "group_init solo_group [] = ?st Starting Starting 0 False" by (simp add: group_init_def)
  have "?step (?st Starting Starting 0 False) (?st AtBarrier Starting 1 False)"
    using group_step.arrive [of 0 "?st Starting Starting 0 False" s] by (simp add: bar_enter_def)
  moreover have "?step (?st AtBarrier Starting 1 False) (?st AtBarrier AtBarrier 2 True)"
    using group_step.coordinate [of "?st AtBarrier Starting 1 False"] by (simp add: bar_enter_def numeral_2_eq_2)
  moreover have "?step (?st AtBarrier AtBarrier 2 True) (?st Running AtBarrier 1 True)"
    using group_step.pass [of 0 "?st AtBarrier AtBarrier 2 True" s] by (simp add: bar_leave_def)
  ultimately show ?thesis unfolding i by (meson rtranclp.rtrancl_into_rtrancl rtranclp.rtrancl_refl)
qed

theorem barrier_respected_witness:
  "\<exists>st w. (group_step (\<lambda>s. Inr ()))\<^sup>*\<^sup>* (group_init solo_group []) st \<and> w \<in> set (gs_workers st) \<and> running (snd w) \<and>
     gs_coordinator st \<noteq> Starting \<and> list_all (\<lambda>v. snd v \<noteq> Starting) (gs_workers st)"
proof -
  let ?w = "(hd (grp_sessions solo_group), Running)"
  have "?w \<in> set [?w]" "running (snd ?w)" by (simp_all add: running_def)
  with barrier_respected [OF solo_run, of ?w] solo_run show ?thesis by (metis group_state.select_convs(1))
qed

theorem execution_ends_witness:
  "\<exists>st st'. (group_step (\<lambda>s. Inr ()))\<^sup>*\<^sup>* (group_init solo_group []) st \<and> \<not> group_done st \<and> group_step (\<lambda>s. Inr ()) st st'"
proof -
  have "\<not> group_done \<lparr>gs_workers = [(hd (grp_sessions solo_group), Running)], gs_coordinator = AtBarrier,
      gs_barrier = \<lparr>bar_parties = 2, bar_count = 1, bar_draining = True\<rparr>, gs_results = [] :: (pystr \<times> unit) list, gs_errors = []\<rparr>"
    by (simp add: group_done_def)
  with execution_ends [of "\<lambda>s. Inr ()" solo_group "[]"] solo_run show ?thesis by blast
qed

text \<open>How long a printed document can be.\<close>

fun weight :: "json \<Rightarrow> nat" where
  "weight (JStr s) = 6 * length s + 2"
| "weight (JInt i) = length (print_int i)"
| "weight (JFloat t) = length t"
| "weight (JArr xs) = 2 + sum_list (map (\<lambda>x. weight x + 1) xs)"
| "weight (JObj kvs) = 2 + sum_list (map (\<lambda>(k, v). 6 * length k + 4 + weight v) kvs)"
| "weight _ = 5"

lemma print_str_weight: "length (print_str False s) \<le> 6 * length s + 2"
proof -
  have "length (escape_char False c) \<le> 6" for c by (simp add: escape_char_def u4_def)
  then have "length (concat (map (escape_char False) s)) \<le> 6 * length s" by (induction s) (simp_all add: add_mono)
  then show ?thesis by (simp add: print_str_def)
qed

lemma print_weight:
  "length (print_json False v) \<le> weight v"
  "length (print_items False xs) \<le> 1 + sum_list (map (\<lambda>x. weight x + 1) xs)"
  "length (print_pairs False kvs) \<le> 1 + sum_list (map (\<lambda>(k, v). 6 * length k + 4 + weight v) kvs)"
proof -
  have "length (print_json a v) \<le> weight v" "length (print_items a xs) \<le> 1 + sum_list (map (\<lambda>x. weight x + 1) xs)"
    "length (print_pairs a kvs) \<le> 1 + sum_list (map (\<lambda>(k, v). 6 * length k + 4 + weight v) kvs)" if "a = False" for a
    using that
  proof (induction a v and a xs and a kvs rule: print_json_print_items_print_pairs.induct)
    case (12 ascii k v)
    then show ?case using print_str_weight [of k] by simp
  next
    case (13 ascii k v p kvs)
    then show ?case using print_str_weight [of k] by simp
  qed (use print_str_weight in \<open>simp_all\<close>)
  then show "length (print_json False v) \<le> weight v"
  "length (print_items False xs) \<le> 1 + sum_list (map (\<lambda>x. weight x + 1) xs)"
  "length (print_pairs False kvs) \<le> 1 + sum_list (map (\<lambda>(k, v). 6 * length k + 4 + weight v) kvs)" by blast+
qed

lemma weight_sorted: "weight (sort_keys v) = weight v"
  "sum_list (map (\<lambda>x. weight x + 1) (sort_items xs)) = sum_list (map (\<lambda>x. weight x + 1) xs)"
  "sum_list (map (\<lambda>(k, v). 6 * length k + 4 + weight v) (sort_pairs kvs)) = sum_list (map (\<lambda>(k, v). 6 * length k + 4 + weight v) kvs)"
proof (induction v and xs and kvs rule: sort_keys_sort_items_sort_pairs.induct)
  case (2 kvs)
  have "sum_list (map f (sort_key g ys)) = sum_list (map f ys)" for f :: "pystr \<times> json \<Rightarrow> nat" and g :: "pystr \<times> json \<Rightarrow> pystr" and ys
    by (metis mset_map mset_sort sum_mset_sum_list)
  then show ?case using 2 by simp
qed simp_all

lemma utf8_encode_length: "length (utf8_encode t) \<le> 4 * length t"
proof -
  have "length (utf8_encode_char c) \<le> 4" for c by (simp add: utf8_encode_char_def)
  then show ?thesis by (induction t) (simp_all add: utf8_encode_def add_mono)
qed

lemma canonical_size: "length (utf8_encode (dumps False v)) \<le> 4 * weight v"
  using utf8_encode_length [of "dumps False v"] print_weight(1) [of "sort_keys v"] by (simp add: dumps_def weight_sorted)

definition suite_body :: jdict where
  "suite_body = [(lit ''required_classes'', JArr [JStr (lit ''c'')]),
     (lit ''scenarios'', JArr [JObj [(lit ''scenario_id'', JStr (lit ''s'')), (lit ''scenario_class'', JStr (lit ''c''))]])]"

definition arm_body :: "string \<Rightarrow> json" where
  "arm_body n = JObj [(lit ''arm_id'', JStr (lit n)), (lit ''capture'', JStr (lit ''c'')), (lit ''projection'', JStr (lit ''p'')), (lit ''tool_surface'', JStr (lit ''t''))]"

definition matrix_body :: jdict where
  "matrix_body = [(lit ''arms'', JArr [arm_body ''A'', arm_body ''B''])]"

definition protocol_body :: "pystr \<Rightarrow> pystr \<Rightarrow> jdict" where
  "protocol_body suite_digest matrix_digest =
     [(lit ''schema_version'', JStr (lit ''vuoro.outctl.study-protocol/v3'')), (lit ''digest_scope'', JStr (lit ''canonical-json-v1'')),
      (lit ''scenario_suite_digest'', JStr suite_digest), (lit ''arm_matrix_digest'', JStr matrix_digest),
      (lit ''arm_ids'', JArr [JStr (lit ''A''), JStr (lit ''B'')]), (lit ''limits'', JObj [(lit ''max_sessions'', JInt 4), (lit ''max_concurrent_sessions'', JInt 2)]),
      (lit ''replicates'', JInt 2), (lit ''randomization_seed'', JInt 1)]"

definition example_suite :: jdict where "example_suite = sealed ''suite_digest'' suite_body"
definition example_matrix :: jdict where "example_matrix = sealed ''matrix_digest'' matrix_body"
definition example_protocol :: jdict where
  "example_protocol = sealed ''protocol_digest'' (protocol_body (digest_of (body_bytes suite_body)) (digest_of (body_bytes matrix_body)))"

text \<open>A schema that requires what the plan relies on and nothing else.\<close>

definition strict_schema :: "string \<Rightarrow> jdict \<Rightarrow> string option" where
  "strict_schema name d =
     (if name = ''scenario-suite'' \<and> (case get d ''required_classes'' of JArr _ \<Rightarrow> False | _ \<Rightarrow> True) then Some ''required_classes''
      else if name = ''arm-matrix'' \<and> (case arms_of d of Inr arms \<Rightarrow> \<not> no_slash arms | Inl _ \<Rightarrow> False) then Some ''arm_id''
      else None)"

lemma digest_of_scalar: "list_all is_scalar (digest_of b)"
  using hex_digits_ok [of b] by (auto simp: digest_of_def list_all_iff is_hex_def is_digit_def is_scalar_def)

lemma digest_length: "length (digest_of b) = 71"
  by (simp add: digest_of_def)

lemma example_bodies_ok:
  "json_ok (JObj suite_body)" "json_ok (JObj matrix_body)" "lit ''suite_digest'' \<notin> set (map fst suite_body)"
  "lit ''matrix_digest'' \<notin> set (map fst matrix_body)" "lit ''protocol_digest'' \<notin> set (map fst (protocol_body d e))"
  "list_all is_scalar d \<Longrightarrow> list_all is_scalar e \<Longrightarrow> json_ok (JObj (protocol_body d e))"
  "weight (JObj (protocol_body d e)) \<le> 6 * length d + 6 * length e + 2000"
proof -
  show "json_ok (JObj suite_body)" "json_ok (JObj matrix_body)" "lit ''suite_digest'' \<notin> set (map fst suite_body)"
    "lit ''matrix_digest'' \<notin> set (map fst matrix_body)" by code_simp+
  show "lit ''protocol_digest'' \<notin> set (map fst (protocol_body d e))" by (simp add: protocol_body_def lit_eq_iff del: lit_simps)
  have c: "length (decimal (nat \<bar>4\<bar>)) \<le> MAX_INT_DIGITS" "length (decimal (nat \<bar>2\<bar>)) \<le> MAX_INT_DIGITS" "length (decimal (nat \<bar>1\<bar>)) \<le> MAX_INT_DIGITS"
    by code_simp+
  show "json_ok (JObj (protocol_body d e))" if "list_all is_scalar d" "list_all is_scalar e"
    using that c by (simp add: protocol_body_def lit_eq_iff lit_scalar del: lit_simps)
  have "length (print_int 4) = 1" "length (print_int 2) = 1" "length (print_int 1) = 1" by code_simp+
  then show "weight (JObj (protocol_body d e)) \<le> 6 * length d + 6 * length e + 2000" by (simp add: protocol_body_def)
qed

lemma example_documents:
  "validate_contract strict_schema ''scenario-suite'' example_suite = Inr example_suite"
  "validate_contract strict_schema ''arm-matrix'' example_matrix = Inr example_matrix"
  "validate_contract strict_schema ''study-protocol'' example_protocol = Inr example_protocol"
  "arms_of example_matrix = Inr example_arms"
proof -
  let ?d = "digest_of (body_bytes suite_body)" and ?e = "digest_of (body_bytes matrix_body)"
  have pb: "json_ok (JObj (protocol_body ?d ?e))" using example_bodies_ok(6) digest_of_scalar by blast
  note suite = sealed_checks [OF example_bodies_ok(1,3), folded example_suite_def]
    and matrix = sealed_checks [OF example_bodies_ok(2,4), folded example_matrix_def]
    and protocol = sealed_checks [OF pb example_bodies_ok(5), folded example_protocol_def]
  have safe: "deny_unsafe (JObj suite_body) = Inr ()" "deny_unsafe (JObj matrix_body) = Inr ()"
    "\<not> raw_key (lit ''suite_digest'') \<and> \<not> path_key (lit ''suite_digest'')" "\<not> raw_key (lit ''matrix_digest'') \<and> \<not> path_key (lit ''matrix_digest'')"
    "\<not> raw_key (lit ''protocol_digest'') \<and> \<not> path_key (lit ''protocol_digest'')"
    "deny_unsafe (JObj (protocol_body [] [])) = Inr ()" by code_simp+
  have "all_keys (JObj (protocol_body d e)) = all_keys (JObj (protocol_body [] []))" for d e by (simp add: protocol_body_def)
  then have "deny_unsafe (JObj (protocol_body ?d ?e)) = Inr ()" using safe(6) deny_unsafe_ok(1) by metis
  then have deny: "deny_pairs example_suite = Inr ()" "deny_pairs example_matrix = Inr ()" "deny_pairs example_protocol = Inr ()"
    using safe by (simp_all add: example_suite_def example_matrix_def example_protocol_def sealed_def del: lit_simps)
  have bodies: "get suite_body ''required_classes'' = JArr [JStr (lit ''c'')]"
    "get suite_body ''scenarios'' = JArr [JObj [(lit ''scenario_id'', JStr (lit ''s'')), (lit ''scenario_class'', JStr (lit ''c''))]]"
    "get matrix_body ''arms'' = JArr [arm_body ''A'', arm_body ''B'']" "get matrix_body ''contrasts'' = JNull"
    "column ''arm_id'' [arm_body ''A'', arm_body ''B''] = [JStr (lit ''A''), JStr (lit ''B'')]"
    "read_arms [] [arm_body ''A'', arm_body ''B''] = Inr example_arms" "no_slash example_arms"
    "column ''scenario_id'' [JObj [(lit ''scenario_id'', JStr (lit ''s'')), (lit ''scenario_class'', JStr (lit ''c''))]] = [JStr (lit ''s'')]"
    "column ''scenario_class'' [JObj [(lit ''scenario_id'', JStr (lit ''s'')), (lit ''scenario_class'', JStr (lit ''c''))]] = [JStr (lit ''c'')]" by code_simp+
  show arms: "arms_of example_matrix = Inr example_arms" using bodies(6) by (simp add: arms_of_def matrix(4) bodies(3))
  have sem: "validate_semantics ''scenario-suite'' example_suite = Inr ()"
    by (simp add: validate_semantics_def check_scenario_suite_def suite(1) suite(4) bodies require_distinct_def check_hashable_def hashable_json_def
        py_same_set_def py_in_def require_def del: lit_simps)
  show "validate_contract strict_schema ''scenario-suite'' example_suite = Inr example_suite"
    by (simp add: validate_contract_def deny sem SCHEMAS_def strict_schema_def suite(4) bodies)
  have "validate_semantics ''arm-matrix'' example_matrix = Inr ()"
    by (simp add: validate_semantics_def check_arm_matrix_def matrix(1) matrix(4) bodies records_of_def require_distinct_def check_hashable_def hashable_json_def
        py_in_def require_def column_def [of "''contrast_id''"] lit_eq_iff del: lit_simps)
  then show "validate_contract strict_schema ''arm-matrix'' example_matrix = Inr example_matrix"
    by (simp add: validate_contract_def deny SCHEMAS_def strict_schema_def arms bodies)
  have size: "length (body_bytes (protocol_body ?d ?e)) \<le> MAX_PROTOCOL_CANONICAL_BYTES"
    using canonical_size [of "JObj (protocol_body ?d ?e)"] example_bodies_ok(7) [of ?d ?e]
    by (simp add: body_bytes_def digest_length MAX_PROTOCOL_CANONICAL_BYTES_def)
  have "get (protocol_body ?d ?e) ''digest_scope'' = JStr (lit ''canonical-json-v1'')" by (simp add: protocol_body_def get_def jget_def lit_eq_iff del: lit_simps)
  moreover have "canonical_bytes (protocol_body ?d ?e) = Inr (body_bytes (protocol_body ?d ?e))"
    using encode_json_ok [OF pb] by (simp add: canonical_bytes_def body_bytes_def)
  ultimately have "validate_semantics ''study-protocol'' example_protocol = Inr ()"
    using size by (simp add: validate_semantics_def check_study_protocol_def protocol(1,2,4) require_def del: lit_simps)
  then show "validate_contract strict_schema ''study-protocol'' example_protocol = Inr example_protocol"
    by (simp add: validate_contract_def deny SCHEMAS_def strict_schema_def)
qed

lemma example_inputs: "validate_inputs strict_schema example_protocol example_suite example_matrix =
    Inr (objects [JObj [(lit ''scenario_id'', JStr (lit ''s'')), (lit ''scenario_class'', JStr (lit ''c''))]], example_arms)"
proof -
  let ?d = "digest_of (body_bytes suite_body)" and ?e = "digest_of (body_bytes matrix_body)"
  have pb: "json_ok (JObj (protocol_body ?d ?e))" using example_bodies_ok(6) digest_of_scalar by blast
  note suite = sealed_checks [OF example_bodies_ok(1,3), folded example_suite_def]
    and matrix = sealed_checks [OF example_bodies_ok(2,4), folded example_matrix_def]
    and protocol = sealed_checks [OF pb example_bodies_ok(5), folded example_protocol_def]
  have g: "get (protocol_body d e) ''schema_version'' = JStr (lit ''vuoro.outctl.study-protocol/v3'')" "get (protocol_body d e) ''scenario_suite_digest'' = JStr d"
    "get (protocol_body d e) ''arm_matrix_digest'' = JStr e" "get (protocol_body d e) ''arm_ids'' = JArr [JStr (lit ''A''), JStr (lit ''B'')]" for d e
    by (simp_all add: protocol_body_def get_def jget_def lit_eq_iff del: lit_simps)
  have s: "get suite_body ''scenarios'' = JArr [JObj [(lit ''scenario_id'', JStr (lit ''s'')), (lit ''scenario_class'', JStr (lit ''c''))]]"
    "map (JStr \<circ> arm_id) example_arms = [JStr (lit ''A''), JStr (lit ''B'')]" by code_simp+
  have "integers_ok (JObj (protocol_body [] []))" by code_simp
  then have "integers_ok (JObj (protocol_body ?d ?e))" by (simp add: protocol_body_def)
  then have lb: "launcher_bytes (protocol_body ?d ?e) = Inr (body_bytes (protocol_body ?d ?e))"
    using print_json_scalar [OF sort_keys_ok [OF pb]] by (simp add: launcher_bytes_def body_bytes_def dumps_def Let_def)
  have size: "length (body_bytes (protocol_body ?d ?e)) \<le> MAX_PROTOCOL_CANONICAL_BYTES"
    using canonical_size [of "JObj (protocol_body ?d ?e)"] example_bodies_ok(7) [of ?d ?e]
    by (simp add: body_bytes_def digest_length MAX_PROTOCOL_CANONICAL_BYTES_def)
  show ?thesis using size
    by (simp add: validate_inputs_def example_documents launch_error_def protocol(2-4) suite(3,4) matrix(3) g s lb del: lit_simps)
qed

theorem plan_matched_witness:
  "\<exists>plan arms. plan_sessions strict_schema example_protocol example_suite example_matrix 0 = Inr plan \<and> arms_of example_matrix = Inr arms \<and>
     lp_max_sessions plan = Some 4 \<and> int (length (lp_sessions plan)) \<le> 4 \<and> distinct (map ses_id (lp_sessions plan)) \<and>
     map group_key (lp_groups plan) = [(lit ''s'', 1), (lit ''s'', 2)]"
proof -
  have p: "limits_of (protocol_body d e) = Inr (Some 4, Some 2, None)" "whole_number (protocol_body d e) ''replicates'' 1 m = Inr 2"
    "whole_number (protocol_body d e) ''randomization_seed'' 0 m = Inr 1" "jget (protocol_body d e) ''estimated_credits_per_session'' = None" for d e m
    by (simp_all add: protocol_body_def limits_of_def whole_number_def positive_limit_def get_def jget_def lit_eq_iff del: lit_simps)
  let ?b = "protocol_body (digest_of (body_bytes suite_body)) (digest_of (body_bytes matrix_body))"
  have same: "get example_protocol f = get ?b f" "jget example_protocol f = jget ?b f" if "f \<noteq> ''protocol_digest''" for f
    using that by (simp_all add: example_protocol_def sealed_def get_def jget_def lit_eq_iff del: lit_simps)
  have q: "limits_of example_protocol = Inr (Some 4, Some 2, None)" "whole_number example_protocol ''replicates'' 1 m = Inr 2"
    "whole_number example_protocol ''randomization_seed'' 0 m = Inr 1" for m
    using p(1-3) [of "digest_of (body_bytes suite_body)" "digest_of (body_bytes matrix_body)"] by (simp_all add: limits_of_def whole_number_def same)
  have "float_of_int 4 = Inr (Finite 4)" "amount (JInt 0) [] = Inr (Finite 0)" "amount_ok (JInt 0)" by code_simp+
  then obtain c where c: "estimate_credits example_protocol 4 = Inr c" by (auto simp: estimate_credits_def same p(4))
  have r: "get [(lit ''scenario_id'', JStr (lit ''s'')), (lit ''scenario_class'', JStr (lit ''c''))] ''scenario_id'' = JStr (lit ''s'')"
    "length (objects [JObj [(lit ''scenario_id'', JStr (lit ''s'')), (lit ''scenario_class'', JStr (lit ''c''))]]) = 1" "length example_arms = 2" by code_simp+
  obtain plan where plan: "plan_sessions strict_schema example_protocol example_suite example_matrix 0 = Inr plan" "lp_max_sessions plan = Some 4"
    by (auto simp: plan_sessions_def example_inputs q r over_limit_def over_credits_def c simp del: lit_simps)
  have "\<And>d. strict_schema ''scenario-suite'' d = None \<Longrightarrow> \<exists>xs. get d ''required_classes'' = JArr xs"
    by (auto simp: strict_schema_def split: json.splits)
  moreover have "\<And>d arms. strict_schema ''arm-matrix'' d = None \<Longrightarrow> arms_of d = Inr arms \<Longrightarrow> no_slash arms"
    by (auto simp: strict_schema_def split: if_splits)
  ultimately obtain arms xs ids reps where m: "arms_of example_matrix = Inr arms" "get example_suite ''scenarios'' = JArr xs"
      "map (\<lambda>s. get s ''scenario_id'') (objects xs) = map JStr ids" "get example_protocol ''replicates'' = JInt reps"
      "map group_key (lp_groups plan) = List.product ids (map (\<lambda>k. int k + 0) [1..<nat reps + 1])"
      "distinct (map ses_id (lp_sessions plan))" "int (length (lp_sessions plan)) \<le> 4"
    using plan_matched [OF plan(1)] plan(2) by blast
  have "get example_suite ''scenarios'' = JArr [JObj [(lit ''scenario_id'', JStr (lit ''s'')), (lit ''scenario_class'', JStr (lit ''c''))]]"
    by (simp add: example_suite_def sealed_def suite_body_def get_def jget_def lit_eq_iff del: lit_simps)
  then have "map JStr ids = [JStr (lit ''s'')]" using m(2,3) r(1) by (simp del: lit_simps)
  moreover have "reps = 2" using m(4) q(2) [of "[]"] by (simp add: whole_number_def split: if_splits)
  ultimately have "map group_key (lp_groups plan) = List.product [lit ''s''] (map int [1..<3])"
    using m(5) by (auto simp: map_eq_Cons_conv simp del: lit_simps upt_Suc)
  then show ?thesis using plan m(1,6,7) by (auto simp: upt_rec simp del: lit_simps)
qed

end
