(* ===== verification/JsonLayout.thy ===== *)
theory JsonLayout
  imports Json
begin

text \<open>
  \<open>json.dumps\<close> with the separators it uses by default and with \<open>indent\<close>.  A layout says which white space
  stands after an opening bracket and between the items of one depth, before a closing bracket, and after
  a colon.  Shown: whatever the layout, \<open>json.loads\<close> reads back the sorted value, and with \<open>ensure_ascii\<close> the text is ASCII.
\<close>

record layout =
  lay_break :: "nat \<Rightarrow> pystr"
  lay_gap :: "nat \<Rightarrow> pystr"
  lay_colon :: pystr

definition blank :: "pystr \<Rightarrow> bool" where
  "blank s \<longleftrightarrow> list_all is_ws s"

fun print_lay :: "layout \<Rightarrow> bool \<Rightarrow> nat \<Rightarrow> json \<Rightarrow> pystr"
  and lay_items :: "layout \<Rightarrow> bool \<Rightarrow> nat \<Rightarrow> json list \<Rightarrow> pystr"
  and lay_pairs :: "layout \<Rightarrow> bool \<Rightarrow> nat \<Rightarrow> (pystr \<times> json) list \<Rightarrow> pystr" where
  "print_lay L ascii d (JArr xs) = (if xs = [] then [91, 93] else 91 # lay_break L (Suc d) @ lay_items L ascii d xs)"
| "print_lay L ascii d (JObj kvs) = (if kvs = [] then [123, 125] else 123 # lay_break L (Suc d) @ lay_pairs L ascii d kvs)"
| "print_lay L ascii d v = print_json ascii v"
| "lay_items L ascii d [] = []"
| "lay_items L ascii d [x] = print_lay L ascii (Suc d) x @ lay_break L d @ [93]"
| "lay_items L ascii d (x # y # xs) = print_lay L ascii (Suc d) x @ 44 # lay_gap L (Suc d) @ lay_items L ascii d (y # xs)"
| "lay_pairs L ascii d [] = []"
| "lay_pairs L ascii d [(k, v)] = print_str ascii k @ 58 # lay_colon L @ print_lay L ascii (Suc d) v @ lay_break L d @ [125]"
| "lay_pairs L ascii d ((k, v) # p # kvs) =
     print_str ascii k @ 58 # lay_colon L @ print_lay L ascii (Suc d) v @ 44 # lay_gap L (Suc d) @ lay_pairs L ascii d (p # kvs)"

text \<open>\<open>indent=2\<close>, and the separators \<open>", "\<close> and \<open>": "\<close> of a single line.\<close>

definition indented :: layout where
  "indented = \<lparr>lay_break = \<lambda>d. 10 # List.replicate (2 * d) 32, lay_gap = \<lambda>d. 10 # List.replicate (2 * d) 32, lay_colon = [32]\<rparr>"

definition one_line :: layout where
  "one_line = \<lparr>lay_break = \<lambda>d. [], lay_gap = \<lambda>d. [32], lay_colon = [32]\<rparr>"

definition dumps_lay :: "layout \<Rightarrow> bool \<Rightarrow> json \<Rightarrow> pystr" where
  "dumps_lay L ascii v = print_lay L ascii 0 (sort_keys v)"

section \<open>Reading back\<close>

lemma skip_blank: "blank w \<Longrightarrow> skip_ws (w @ s) = skip_ws s"
  by (auto simp: skip_ws_def blank_def list_all_iff dropWhile_append3)

lemma blank_ends: "blank w \<Longrightarrow> ends_number s \<Longrightarrow> ends_number (w @ s)"
  by (cases w) (auto simp: blank_def ends_number_def is_ws_def is_digit_def)

lemma print_lay_head: "json_ok v \<Longrightarrow> \<exists>c r. print_lay L ascii d v = c # r \<and> \<not> is_ws c \<and> c \<noteq> 93"
  using print_json_head [of v ascii] by (cases v) (auto simp: is_ws_def)

lemma lay_items_head: "items_ok xs \<Longrightarrow> xs \<noteq> [] \<Longrightarrow> \<exists>c r. lay_items L ascii d xs = c # r \<and> \<not> is_ws c \<and> c \<noteq> 93"
  using print_lay_head [of "hd xs" L ascii "Suc d"] by (cases xs rule: remdups_adj.cases) auto

lemma lay_pairs_head: "kvs \<noteq> [] \<Longrightarrow> \<exists>r. lay_pairs L ascii d kvs = 34 # r"
  by (cases kvs rule: remdups_adj.cases) (auto simp: print_str_def)

lemma blank_ascii: "blank w \<Longrightarrow> ascii_text w"
  by (auto simp: blank_def ascii_text_def list_all_iff is_ws_def)

definition lay_reads :: "layout \<Rightarrow> bool \<Rightarrow> json \<Rightarrow> bool" where
  "lay_reads L ascii v \<longleftrightarrow> (\<forall>d r n. ends_number r \<longrightarrow> 2 * length (print_lay L ascii d v) < n \<longrightarrow>
     parse_value n (print_lay L ascii d v @ r) = Inr (v, r))"

lemma lay_reads_atom: "(\<And>d. print_lay L ascii d v = print_json ascii v) \<Longrightarrow> json_ok v \<Longrightarrow> lay_reads L ascii v"
  using reads_json [of v ascii] unfolding lay_reads_def reads_back_def by presburger

text \<open>Which characters the text has: printable ASCII and those of the layout.\<close>

definition printable :: "nat \<Rightarrow> bool" where
  "printable c \<longleftrightarrow> 32 \<le> c \<and> c < 127"

lemma printable_digit: "d < 16 \<Longrightarrow> printable (digit_char d)"
  by (simp add: digit_char_def printable_def)

lemma printable_str: "list_all printable (print_str True s)"
proof -
  have "list_all printable (u4 c)" for c unfolding u4_def by (simp add: printable_digit) (simp add: printable_def)
  then have "list_all printable (escape_char True c)" for c by (auto simp: escape_char_def printable_def)
  then have "list_all printable (concat (map (escape_char True) s))" by (induction s) auto
  then show ?thesis by (simp add: print_str_def printable_def)
qed

lemma printable_atom: "json_ok v \<Longrightarrow> (case v of JArr xs \<Rightarrow> False | JObj kvs \<Rightarrow> False | _ \<Rightarrow> True) \<Longrightarrow> list_all printable (print_json True v)"
proof (cases v)
  case (JInt i)
  have "list_all printable (decimal n)" for n using decimal_digits [of _ n] by (fastforce simp: list_all_iff is_digit_def printable_def)
  then show ?thesis by (simp add: JInt print_int_def printable_def)
qed (simp_all add: printable_str printable_def)

lemma lay_chars:
  assumes P: "\<And>c. printable c \<Longrightarrow> P c" and L: "\<And>d. list_all P (lay_break L d)" "\<And>d. list_all P (lay_gap L d)" "list_all P (lay_colon L)"
  shows "json_ok v \<Longrightarrow> list_all P (print_lay L True d v)"
proof (induction v arbitrary: d)
  case (JArr xs)
  have p: "P 91" "P 93" "P 44" by (rule P, simp add: printable_def)+
  have "(\<And>x d. x \<in> set ys \<Longrightarrow> list_all P (print_lay L True d x)) \<Longrightarrow> list_all P (lay_items L True d ys)" for ys
    by (induction ys rule: induct_list012) (auto simp: L p)
  then have "list_all P (lay_items L True d xs)" using JArr by (auto simp: items_ok_iff)
  then show ?case by (simp add: L p)
next
  case (JObj kvs)
  have p: "P 123" "P 125" "P 44" "P 58" by (rule P, simp add: printable_def)+
  have str: "list_all P (print_str True k)" for k using printable_str [of k] P by (auto simp: list_all_iff)
  have "(\<And>k v d. (k, v) \<in> set ys \<Longrightarrow> list_all P (print_lay L True d v)) \<Longrightarrow> list_all P (lay_pairs L True d ys)" for ys
  proof (induction ys rule: induct_list012)
    case (2 y)
    then show ?case by (cases y) (simp add: L p str)
  next
    case (3 y z ys)
    obtain k v where y: "y = (k, v)" by (cases y)
    have "list_all P (print_lay L True (Suc d) v)" using 3(3) [of k v] by (simp add: y)
    moreover have "list_all P (lay_pairs L True d (z # ys))" by (rule 3(2)) (use 3(3) in auto)
    ultimately show ?case by (simp add: y L p str)
  qed simp
  then have "list_all P (lay_pairs L True d kvs)" using JObj by (fastforce simp: pairs_ok_iff)
  then show ?case by (simp add: L p)
qed (use printable_atom P in \<open>fastforce simp: list_all_iff simp del: print_json.simps\<close>)+

text \<open>What a layout promises: only white space.\<close>

locale json_layout =
  fixes L :: layout
  assumes break_blank: "blank (lay_break L d)"
    and gap_blank: "blank (lay_gap L d)"
    and colon_blank: "blank (lay_colon L)"
begin

lemma skip_items: "items_ok xs \<Longrightarrow> xs \<noteq> [] \<Longrightarrow> blank w \<Longrightarrow> skip_ws (w @ lay_items L ascii d xs @ r) = lay_items L ascii d xs @ r"
  using lay_items_head [of xs L ascii d] by (auto simp: skip_blank)

lemma skip_pairs: "kvs \<noteq> [] \<Longrightarrow> blank w \<Longrightarrow> skip_ws (w @ lay_pairs L ascii d kvs @ r) = lay_pairs L ascii d kvs @ r"
  using lay_pairs_head [of kvs L ascii d] by (auto simp: skip_blank)

lemma skip_value: "json_ok v \<Longrightarrow> blank w \<Longrightarrow> skip_ws (w @ print_lay L ascii d v @ r) = print_lay L ascii d v @ r"
  using print_lay_head [of v L ascii d] by (auto simp: skip_blank)

lemma ends_break: "ends_number (lay_break L d @ 93 # r)" "ends_number (lay_break L d @ 125 # r)"
  using blank_ends [OF break_blank] by simp_all

lemma skip_break: "skip_ws (lay_break L d @ 93 # r) = 93 # r" "skip_ws (lay_break L d @ 125 # r) = 125 # r"
  using skip_blank [OF break_blank] by simp_all

lemma parse_lay_items:
  assumes "\<forall>x \<in> set xs. json_ok x \<and> lay_reads L ascii x" "xs \<noteq> []" "2 * length (lay_items L ascii d xs) + 1 < n"
  shows "parse_elements n acc (lay_items L ascii d xs @ r) = Inr (JArr (acc @ xs), r)"
  using assms
proof (induction xs arbitrary: n acc)
  case (Cons x xs)
  then obtain m where n: "n = Suc m" by (cases n) auto
  show ?case
  proof (cases xs)
    case Nil
    have "parse_value m (print_lay L ascii (Suc d) x @ lay_break L d @ 93 # r) = Inr (x, lay_break L d @ 93 # r)"
      using Cons.prems ends_break by (simp add: lay_reads_def n Nil)
    then show ?thesis by (simp add: n Nil parse_elements.simps skip_break)
  next
    case (Cons y ys)
    let ?r = "lay_gap L (Suc d) @ lay_items L ascii d xs @ r"
    have v: "parse_value m (print_lay L ascii (Suc d) x @ 44 # ?r) = Inr (x, 44 # ?r)"
      using Cons.prems by (simp add: lay_reads_def n Cons)
    have "items_ok xs" using Cons.prems(1) by (simp add: items_ok_iff)
    then have ws: "skip_ws ?r = lay_items L ascii d xs @ r" using Cons gap_blank by (intro skip_items) auto
    have "parse_elements m (acc @ [x]) (lay_items L ascii d xs @ r) = Inr (JArr ((acc @ [x]) @ xs), r)"
      using Cons.prems Cons by (intro Cons.IH) (auto simp: n)
    then show ?thesis using v ws by (simp add: n Cons parse_elements.simps)
  qed
qed simp

lemma parse_lay_pairs:
  assumes "\<forall>(k, v) \<in> set kvs. list_all is_scalar k \<and> json_ok v \<and> lay_reads L ascii v" "kvs \<noteq> []"
    "distinct (map fst (acc @ kvs))" "2 * length (lay_pairs L ascii d kvs) + 1 < n"
  shows "parse_members n acc (lay_pairs L ascii d kvs @ r) = Inr (JObj (acc @ kvs), r)"
  using assms
proof (induction kvs arbitrary: n acc)
  case (Cons p kvs)
  obtain k v where p: "p = (k, v)" by (cases p)
  from Cons.prems obtain m where n: "n = Suc m" by (cases n) auto
  have kv: "list_all is_scalar k" "json_ok v" "lay_reads L ascii v" using Cons.prems(1) by (auto simp: p)
  have upd: "AList.update k v acc = acc @ [(k, v)]" using Cons.prems(3) by (intro update_new) (auto simp: p)
  have key: "print_str ascii k @ u = 34 # tl (print_str ascii k) @ u" for u by (simp add: print_str_def)
  note steps = parse_str_print [OF kv(1), of ascii] skip_value [OF kv(2) colon_blank] upd
  show ?case
  proof (cases kvs)
    case Nil
    have "parse_value m (print_lay L ascii (Suc d) v @ lay_break L d @ 125 # r) = Inr (v, lay_break L d @ 125 # r)"
      using kv(3) Cons.prems(4) ends_break by (simp add: lay_reads_def n Nil p)
    then show ?thesis using steps by (simp add: n Nil p key parse_members.simps skip_break)
  next
    case (Cons q qs)
    let ?r = "lay_gap L (Suc d) @ lay_pairs L ascii d kvs @ r"
    have v: "parse_value m (print_lay L ascii (Suc d) v @ 44 # ?r) = Inr (v, 44 # ?r)"
      using kv(3) Cons.prems(4) by (simp add: lay_reads_def n Cons p)
    have ws: "skip_ws ?r = lay_pairs L ascii d kvs @ r" using Cons gap_blank by (intro skip_pairs) auto
    have "parse_members m (acc @ [(k, v)]) (lay_pairs L ascii d kvs @ r) = Inr (JObj ((acc @ [(k, v)]) @ kvs), r)"
      using Cons.prems Cons by (intro Cons.IH) (auto simp: n p)
    then show ?thesis using steps v ws by (simp add: n Cons p key parse_members.simps)
  qed
qed simp

lemma lay_reads_json: "json_ok v \<Longrightarrow> lay_reads L ascii v"
proof (induction v)
  case (JArr xs)
  show ?case unfolding lay_reads_def
  proof (intro allI impI)
    fix d r n assume l: "2 * length (print_lay L ascii d (JArr xs)) < n"
    then obtain m where n: "n = Suc m" by (cases n) auto
    have ok: "\<forall>x \<in> set xs. json_ok x \<and> lay_reads L ascii x" using JArr by (auto simp: items_ok_iff)
    show "parse_value n (print_lay L ascii d (JArr xs) @ r) = Inr (JArr xs, r)"
    proof (cases "xs = []")
      case False
      have i: "items_ok xs" using ok by (simp add: items_ok_iff)
      have "skip_ws (lay_break L (Suc d) @ lay_items L ascii d xs @ r) = lay_items L ascii d xs @ r"
        "expect 93 (lay_items L ascii d xs @ r) = None"
        using skip_items [OF i False break_blank] lay_items_head [OF i False, of L ascii d] by auto
      with parse_lay_items [OF ok False, of d m "[]" r] l False show ?thesis by (simp add: n parse_value.simps)
    qed (simp add: n parse_value.simps)
  qed
next
  case (JObj kvs)
  show ?case unfolding lay_reads_def
  proof (intro allI impI)
    fix d r n assume l: "2 * length (print_lay L ascii d (JObj kvs)) < n"
    then obtain m where n: "n = Suc m" by (cases n) auto
    have ok: "\<forall>(k, v) \<in> set kvs. list_all is_scalar k \<and> json_ok v \<and> lay_reads L ascii v"
      using JObj by (fastforce simp: pairs_ok_iff)
    show "parse_value n (print_lay L ascii d (JObj kvs) @ r) = Inr (JObj kvs, r)"
    proof (cases "kvs = []")
      case False
      have "skip_ws (lay_break L (Suc d) @ lay_pairs L ascii d kvs @ r) = lay_pairs L ascii d kvs @ r"
        "expect 125 (lay_pairs L ascii d kvs @ r) = None"
        using skip_pairs [OF False break_blank] lay_pairs_head [OF False, of L ascii d] by auto
      with parse_lay_pairs [OF ok False, of "[]" d m r] JObj.prems l False show ?thesis by (simp add: n parse_value.simps)
    qed (simp add: n parse_value.simps)
  qed
qed (rule lay_reads_atom; simp)+

lemma loads_layout:
  assumes "json_ok v" "blank trailer"
  shows "loads (dumps_lay L ascii v @ trailer) = Inr (sort_keys v)"
proof -
  let ?v = "sort_keys v"
  have ok: "json_ok ?v" using assms(1) by (rule sort_keys_ok)
  have e: "ends_number trailer" using blank_ends [OF assms(2), of "[]"] by simp
  have "parse_value (2 * length (dumps_lay L ascii v @ trailer) + 2) (print_lay L ascii 0 ?v @ trailer) = Inr (?v, trailer)"
    using lay_reads_json [OF ok, of ascii] e by (simp add: lay_reads_def dumps_lay_def)
  moreover have "skip_ws (print_lay L ascii 0 ?v @ trailer) = print_lay L ascii 0 ?v @ trailer"
    using skip_value [OF ok, of "[]"] by (simp add: blank_def)
  moreover have "skip_ws trailer = []" using skip_blank [OF assms(2), of "[]"] by simp
  ultimately show ?thesis by (simp add: loads_def dumps_lay_def)
qed

lemma ascii_dumps: assumes "json_ok v" shows "ascii_text (dumps_lay L True v)"
proof -
  have "list_all (\<lambda>c. c < 128) (print_lay L True 0 (sort_keys v))"
    by (rule lay_chars [OF _ _ _ _ sort_keys_ok [OF assms]]) (use blank_ascii break_blank gap_blank colon_blank in \<open>auto simp: ascii_text_def list_all_iff printable_def\<close>)
  then show ?thesis by (simp add: dumps_lay_def ascii_text_def list_all_iff)
qed

end

interpretation indent2: json_layout indented
  by unfold_locales (simp_all add: blank_def indented_def is_ws_def list_all_iff)

interpretation spaced: json_layout one_line
  by unfold_locales (simp_all add: blank_def one_line_def is_ws_def)


text \<open>A document on one line has no line break in it.\<close>

lemma one_line_printable: "json_ok v \<Longrightarrow> list_all printable (dumps_lay one_line True v)"
  unfolding dumps_lay_def by (rule lay_chars) (simp_all add: one_line_def printable_def sort_keys_ok)

end
