(* ===== verification/Observations.thy ===== *)
theory Observations
  imports Retrieval JsonLayout Contracts
begin

text \<open>
  \<open>observations.py\<close>: raw-free records about captures, kept beside them in the spool, with their retention actions and
  the import of external artifacts.  The JSON Schema check is an argument (\<open>schema\<close>, the message of the first error; the
  shipped schema is in \<open>ObservationStore\<close>), as are the clock, fresh identifiers, the entries at external paths and
  where symbolic links lead (\<open>links\<close>).  Every operation returns the spool tree it leaves, also when it raises.
  Shown here: the store is append-only under every sequence of its operations.
\<close>

section \<open>The store\<close>

text \<open>Where a symbolic link leads, always outside the spool; \<open>Nowhere b\<close> is a dangling link, and \<open>b\<close> says
  whether opening it for appending creates its target.\<close>

datatype link_end = Nowhere bool | ToDirectory | ToOther

type_synonym links = "path \<Rightarrow> link_end"

definition dangles :: "link_end \<Rightarrow> bool" where
  "dangles l = (case l of Nowhere b \<Rightarrow> True | _ \<Rightarrow> False)"

text \<open>An operation returns the spool it leaves and a result; \<open>bind_s\<close> continues unless it raised.\<close>

type_synonym 'a outcome = "node option \<times> 'a result"

definition bind_s :: "'a outcome \<Rightarrow> ('a \<Rightarrow> node option \<Rightarrow> 'b outcome) \<Rightarrow> 'b outcome" where
  "bind_s m f = (case snd m of Inl e \<Rightarrow> (fst m, Inl e) | Inr x \<Rightarrow> f x (fst m))"

definition OBSERVATIONS :: path where "OBSERVATIONS = [lit ''observations'']"
definition ACTIONS_FILE :: path where "ACTIONS_FILE = [lit ''observation-actions.jsonl'']"

definition entry_exists :: "links \<Rightarrow> node \<Rightarrow> path \<Rightarrow> bool" where
  "entry_exists links tree p = (case node_get tree p of None \<Rightarrow> False | Some Symlink \<Rightarrow> \<not> dangles (links p) | Some _ \<Rightarrow> True)"

text \<open>\<open>mkdir(exist_ok=True)\<close> fails on a link that leads nowhere.\<close>

definition ensure_observations :: "links \<Rightarrow> node \<Rightarrow> node outcome" where
  "ensure_observations links tree = (case node_get tree OBSERVATIONS of
     None \<Rightarrow> (let t = node_put OBSERVATIONS (Dir PRIVATE_DIR []) tree in (Some t, Inr t))
   | Some (Dir m cs) \<Rightarrow> (let t = node_put OBSERVATIONS (Dir PRIVATE_DIR cs) tree in (Some t, Inr t))
   | Some Symlink \<Rightarrow> (Some tree, Inl (if dangles (links OBSERVATIONS) then OSError else ObservationError ''observation directory is not safe''))
   | Some _ \<Rightarrow> (Some tree, Inl (ObservationError ''observation directory is not safe'')))"

text \<open>The result is the tree left behind.\<close>

definition ensure_store :: "links \<Rightarrow> node option \<Rightarrow> node outcome" where
  "ensure_store links spool = (case spool of
     None \<Rightarrow> ensure_observations links (Dir PRIVATE_DIR [])
   | Some (Dir m cs) \<Rightarrow> ensure_observations links (Dir PRIVATE_DIR cs)
   | Some Symlink \<Rightarrow> (spool, Inl (if dangles (links []) then OSError else ObservationError ''spool root is not a safe directory''))
   | Some _ \<Rightarrow> (spool, Inl (ObservationError ''spool root is not a safe directory'')))"

definition regular_content :: "node option \<Rightarrow> bytes option result" where
  "regular_content e = (case e of
     Some (File m b) \<Rightarrow> Inr (Some b)
   | Some (Broken m z) \<Rightarrow> Inr None
   | None \<Rightarrow> Inl (ObservationError ''artifact is unavailable'')
   | Some _ \<Rightarrow> Inl (ObservationError ''artifact is not a regular file''))"

text \<open>\<open>read_text(encoding="utf-8")\<close>; newline translation changes no JSON value.\<close>

definition text_of :: "bytes \<Rightarrow> pystr option" where
  "text_of b = (case utf8_strict b of Some t \<Rightarrow> if list_all is_scalar t then Some t else None | None \<Rightarrow> None)"

section \<open>Checked members\<close>

definition bounded_text :: "json \<Rightarrow> pystr result" where
  "bounded_text v = (case v of
     JStr s \<Rightarrow> if s = [] \<or> 512 < length s then Inl (ObservationError ''must be a bounded non-empty string'') else Inr s
   | _ \<Rightarrow> Inl (ObservationError ''must be a bounded non-empty string''))"

definition hex_digest :: "json \<Rightarrow> pystr result" where
  "hex_digest v = (case v of
     JStr s \<Rightarrow> if length s = 64 \<and> list_all is_hex s then Inr s else Inl (ObservationError ''must be a lowercase SHA-256 digest'')
   | _ \<Rightarrow> Inl (ObservationError ''must be a lowercase SHA-256 digest''))"

definition object_member :: "jdict \<Rightarrow> string \<Rightarrow> string \<Rightarrow> jdict result" where
  "object_member kvs k msg = (case get kvs k of JObj m \<Rightarrow> Inr m | _ \<Rightarrow> Inl (ObservationError msg))"

definition natural_member :: "jdict \<Rightarrow> string \<Rightarrow> string \<Rightarrow> json result" where
  "natural_member kvs k msg = (case int_like (get kvs k) of
     Some i \<Rightarrow> if i < 0 then Inl (ObservationError msg) else Inr (get kvs k) | None \<Rightarrow> Inl (ObservationError msg))"

section \<open>Capture metadata\<close>

record capture_summary =
  cm_capture_id :: pystr
  cm_manifest_sha256 :: pystr
  cm_stdout :: "json \<times> pystr"
  cm_stderr :: "json \<times> pystr"

definition cm_capture_ref :: "capture_summary \<Rightarrow> pystr" where
  "cm_capture_ref c = lit ''outctl://capture/'' @ cm_capture_id c @ lit ''/manifest/sha256/'' @ cm_manifest_sha256 c"

definition stream_metadata :: "jdict \<Rightarrow> string \<Rightarrow> (json \<times> pystr) result" where
  "stream_metadata streams name =
     bind_r (object_member streams name ''capture manifest has no stream metadata'') (\<lambda>stream.
     bind_r (natural_member stream ''bytes'' ''capture byte count is invalid'') (\<lambda>n.
     bind_r (hex_digest (get stream ''sha256'')) (\<lambda>d. Inr (n, d))))"

definition capture_metadata :: "node option \<Rightarrow> pystr \<Rightarrow> capture_summary result" where
  "capture_metadata spool cid =
     bind_r (inspect_capture spool cid None) (\<lambda>inspected.
     case (if ir_status inspected = AVAILABLE then ir_manifest inspected else None) of
       None \<Rightarrow> Inl (ObservationError ''capture is not available'')
     | Some manifest \<Rightarrow>
         bind_r (verify_capture spool cid None) (\<lambda>verified.
         if vr_status verified \<noteq> AVAILABLE then Inl (ObservationError ''capture failed verification'')
         else bind_r (regular_content (entry_at spool [lit ''captures'', cid, lit ''manifest.json''])) (\<lambda>content.
           bind_r (object_member manifest ''streams'' ''capture manifest has no stream metadata'') (\<lambda>streams.
           bind_r (stream_metadata streams ''stdout'') (\<lambda>out.
           bind_r (stream_metadata streams ''stderr'') (\<lambda>err.
           case content of
             None \<Rightarrow> Inl OSError
           | Some b \<Rightarrow> Inr \<lparr>cm_capture_id = cid, cm_manifest_sha256 = lit (sha256_hex b), cm_stdout = out, cm_stderr = err\<rparr>))))))"

section \<open>Records\<close>

definition artifact_ref :: "pystr \<Rightarrow> json" where
  "artifact_ref d = JStr (lit ''artifact:sha256:'' @ d)"

definition validated :: "(jdict \<Rightarrow> string option) \<Rightarrow> jdict \<Rightarrow> jdict result" where
  "validated schema kvs = (case schema kvs of Some msg \<Rightarrow> Inl (ObservationError msg) | None \<Rightarrow> Inr kvs)"

definition source_members :: "jdict \<Rightarrow> jdict result" where
  "source_members s =
     bind_r (bounded_text (get s ''harness'')) (\<lambda>h. bind_r (bounded_text (get s ''session'')) (\<lambda>n. bind_r (bounded_text (get s ''tool_call'')) (\<lambda>t.
     Inr [(lit ''harness'', JStr h), (lit ''session'', JStr n), (lit ''tool_call'', JStr t)])))"

definition invocation_members :: "jdict \<Rightarrow> jdict result" where
  "invocation_members v =
     bind_r (bounded_text (get v ''tool'')) (\<lambda>t. bind_r (hex_digest (get v ''command_sha256'')) (\<lambda>d.
     Inr [(lit ''tool'', JStr t), (lit ''command_sha256'', JStr d)]))"

definition result_members :: "capture_summary \<Rightarrow> jdict \<Rightarrow> jdict result" where
  "result_members c r =
     (if int_like (get r ''exit_code'') = None \<and> get r ''exit_code'' \<noteq> JNull then Inl (ObservationError ''result.exit_code must be an integer or null'')
      else bind_r (natural_member r ''duration_ms'' ''result.duration_ms must be a non-negative integer'') (\<lambda>d.
        Inr [(lit ''exit_code'', get r ''exit_code''), (lit ''duration_ms'', d), (lit ''stdout'', artifact_ref (snd (cm_stdout c))),
             (lit ''stderr'', artifact_ref (snd (cm_stderr c)))]))"

definition observation_identity :: "capture_summary \<Rightarrow> jdict \<Rightarrow> jdict \<Rightarrow> jdict \<Rightarrow> json" where
  "observation_identity c source invocation res =
     JObj [(lit ''capture_manifest_sha256'', JStr (cm_manifest_sha256 c)), (lit ''source'', JObj source), (lit ''invocation'', JObj invocation),
       (lit ''result'', JObj res)]"

definition observation_id_of :: "json \<Rightarrow> pystr result" where
  "observation_id_of identity =
     (if encodable identity then Inr (lit ''obs-'' @ lit (sha256_hex (utf8_encode (dumps True identity))))
      else Inl (ValueError ''Exceeds the limit for integer string conversion''))"

definition record_of :: "capture_summary \<Rightarrow> pystr \<Rightarrow> pystr \<Rightarrow> jdict \<Rightarrow> jdict \<Rightarrow> jdict \<Rightarrow> jdict" where
  "record_of c oid created_at source invocation res =
     [(lit ''schema_version'', JStr (lit ''vuoro.outctl.observation/v1'')), (lit ''observation_id'', JStr oid)] @
     (lit ''created_at'', JStr created_at) #
     [(lit ''capture_id'', JStr (cm_capture_id c)), (lit ''capture_ref'', JStr (cm_capture_ref c)),
      (lit ''capture_manifest_sha256'', JStr (cm_manifest_sha256 c)), (lit ''source'', JObj source), (lit ''invocation'', JObj invocation),
      (lit ''result'', JObj res)]"

definition checked_metadata :: "capture_summary \<Rightarrow> jdict \<Rightarrow> (jdict \<times> jdict \<times> jdict) result" where
  "checked_metadata c metadata =
     bind_r (object_member metadata ''source'' ''observation source must be an object'') (\<lambda>s.
     bind_r (object_member metadata ''invocation'' ''observation invocation must be an object'') (\<lambda>v.
     bind_r (object_member metadata ''result'' ''observation result must be an object'') (\<lambda>r.
     bind_r (source_members s) (\<lambda>source.
     bind_r (invocation_members v) (\<lambda>invocation.
     bind_r (result_members c r) (\<lambda>res. Inr (source, invocation, res)))))))"

definition observation_record :: "(jdict \<Rightarrow> string option) \<Rightarrow> capture_summary \<Rightarrow> jdict \<Rightarrow> pystr \<Rightarrow> jdict result" where
  "observation_record schema c metadata created_at =
     bind_r (checked_metadata c metadata) (\<lambda>(source, invocation, res).
     bind_r (observation_id_of (observation_identity c source invocation res)) (\<lambda>oid.
     validated schema (record_of c oid created_at source invocation res)))"

section \<open>Writing and reading\<close>

definition observation_id_ok :: "pystr \<Rightarrow> bool" where
  "observation_id_ok oid \<longleftrightarrow> prefix (lit ''obs-'') oid \<and> length oid = 68 \<and> list_all is_hex (drop 4 oid)"

definition observation_file :: "pystr \<Rightarrow> path" where
  "observation_file oid = OBSERVATIONS @ [oid @ lit ''.json'']"

definition INT_TOO_LONG :: string where "INT_TOO_LONG = ''Exceeds the limit for integer string conversion''"

text \<open>\<open>json.loads\<close> of a text: a \<open>JSONDecodeError\<close> is a \<open>ValueError\<close>, and so is the plain one for an over-long integer.\<close>

definition json_text :: "pystr \<Rightarrow> json result" where
  "json_text t = (case loads t of Inr v \<Rightarrow> Inr v | Inl IntTooLong \<Rightarrow> Inl (ValueError INT_TOO_LONG) | Inl _ \<Rightarrow> Inl (ValueError ''not a JSON document''))"

definition loaded :: "bytes option \<Rightarrow> json result" where
  "loaded content = (case content of
     None \<Rightarrow> Inl OSError
   | Some b \<Rightarrow> (case text_of b of None \<Rightarrow> Inl (ValueError ''codec can't decode'') | Some t \<Rightarrow> json_text t))"

definition stored_record :: "(jdict \<Rightarrow> string option) \<Rightarrow> jdict \<Rightarrow> json \<Rightarrow> jdict result" where
  "stored_record schema rec existing =
     (if py_eq existing (JObj rec) then Inr rec
      else case existing of
        JObj kvs \<Rightarrow> if py_eq (JObj (without ''created_at'' kvs)) (JObj (without ''created_at'' rec)) then validated schema kvs
          else Inl (ObservationError ''observation id collision with different content'')
      | _ \<Rightarrow> Inl (ObservationError ''observation id collision with different content''))"

text \<open>\<open>str(record["observation_id"])\<close>; the text of a value that is no string is never a valid id, like the empty one.\<close>

definition named_id :: "jdict \<Rightarrow> pystr result" where
  "named_id rec = (case jget rec ''observation_id'' of
     None \<Rightarrow> Inl (KeyError (lit ''observation_id'')) | Some (JStr oid) \<Rightarrow> Inr oid | Some _ \<Rightarrow> Inr [])"

definition write_immutable :: "links \<Rightarrow> (jdict \<Rightarrow> string option) \<Rightarrow> jdict \<Rightarrow> node option \<Rightarrow> jdict outcome" where
  "write_immutable links schema rec spool = bind_s (ensure_store links spool) (\<lambda>tree s.
     case named_id rec of
       Inl e \<Rightarrow> (s, Inl e)
     | Inr oid \<Rightarrow>
         if \<not> observation_id_ok oid then (s, Inl (ObservationError ''invalid observation id''))
         else if \<not> encodable (JObj rec) then (s, Inl (ValueError INT_TOO_LONG))
         else if entry_exists links tree (observation_file oid) then
           (s, bind_r (regular_content (node_get tree (observation_file oid))) (\<lambda>content. bind_r (loaded content) (stored_record schema rec)))
         else (Some (node_put (observation_file oid) (File PRIVATE_FILE (utf8_encode (dumps_lay indented True (JObj rec) @ [10]))) tree), Inr rec))"

definition ingest_observation :: "links \<Rightarrow> (jdict \<Rightarrow> string option) \<Rightarrow> pystr \<Rightarrow> pystr \<Rightarrow> jdict \<Rightarrow> node option \<Rightarrow> jdict outcome" where
  "ingest_observation links schema now cid metadata spool =
     bind_s (spool, bind_r (capture_metadata spool cid) (\<lambda>c. observation_record schema c metadata now)) (\<lambda>rec s.
     write_immutable links schema rec s)"

definition unreadable_as :: "json result \<Rightarrow> json result" where
  "unreadable_as r = (case r of
     Inl OSError \<Rightarrow> Inl (ObservationError ''observation is unreadable'')
   | Inl (ValueError m) \<Rightarrow> if m = INT_TOO_LONG then r else Inl (ObservationError ''observation is unreadable'')
   | _ \<Rightarrow> r)"

definition read_observation :: "links \<Rightarrow> (jdict \<Rightarrow> string option) \<Rightarrow> pystr \<Rightarrow> node option \<Rightarrow> jdict outcome" where
  "read_observation links schema oid spool = bind_s (ensure_store links spool) (\<lambda>tree s. (s,
     if \<not> observation_id_ok oid then Inl (ObservationError ''invalid observation id'')
     else if \<not> entry_exists links tree (observation_file oid) then Inl (ObservationError ''observation is unavailable'')
     else bind_r (regular_content (node_get tree (observation_file oid))) (\<lambda>content.
       bind_r (unreadable_as (loaded content)) (\<lambda>v. case v of
         JObj kvs \<Rightarrow> validated schema kvs | _ \<Rightarrow> Inl (ObservationError ''observation is not an object'')))))"

definition observation_capture_id :: "links \<Rightarrow> (jdict \<Rightarrow> string option) \<Rightarrow> pystr \<Rightarrow> node option \<Rightarrow> pystr outcome" where
  "observation_capture_id links schema oid spool = bind_s (read_observation links schema oid spool) (\<lambda>kvs s.
     (s, case get kvs ''capture_id'' of JStr c \<Rightarrow> Inr c | _ \<Rightarrow> Inl (ObservationError ''observation has no capture binding'')))"

section \<open>Retention actions\<close>

definition action_path :: "links \<Rightarrow> node option \<Rightarrow> node outcome" where
  "action_path links spool = bind_s (ensure_store links spool) (\<lambda>tree s. (s,
     if entry_exists links tree ACTIONS_FILE then bind_r (regular_content (node_get tree ACTIONS_FILE)) (\<lambda>content. Inr tree) else Inr tree))"

text \<open>\<open>str.splitlines\<close>; a CRLF pair is one boundary, which also accounts for the newline translation of
  \<open>read_text\<close>.\<close>

definition line_boundary :: "nat \<Rightarrow> bool" where
  "line_boundary c \<longleftrightarrow> c \<in> {10, 11, 12, 13, 28, 29, 30, 133, 8232, 8233}"

fun text_lines :: "pystr \<Rightarrow> pystr \<Rightarrow> pystr list" where
  "text_lines cur [] = (if cur = [] then [] else [cur])"
| "text_lines cur (c # s) =
     (if \<not> line_boundary c then text_lines (cur @ [c]) s
      else cur # (case s of d # s' \<Rightarrow> if c = 13 \<and> d = 10 then text_lines [] s' else text_lines [] s | [] \<Rightarrow> []))"

fun actions_in :: "pystr \<Rightarrow> pystr list \<Rightarrow> jdict list result" where
  "actions_in oid [] = Inr []"
| "actions_in oid (l # ls) =
     bind_r (json_text l) (\<lambda>v. bind_r (actions_in oid ls) (\<lambda>rest. Inr (case v of
       JObj kvs \<Rightarrow> if get kvs ''observation_id'' = JStr oid then kvs # rest else rest
     | _ \<Rightarrow> rest)))"

definition actions :: "links \<Rightarrow> pystr \<Rightarrow> node option \<Rightarrow> jdict list outcome" where
  "actions links oid spool = bind_s (action_path links spool) (\<lambda>tree s. (s,
     if \<not> entry_exists links tree ACTIONS_FILE then Inr []
     else bind_r (regular_content (node_get tree ACTIONS_FILE)) (\<lambda>content. case content of
         None \<Rightarrow> Inl OSError
       | Some b \<Rightarrow> (case text_of b of
           None \<Rightarrow> Inl (ValueError ''codec can't decode'')
         | Some t \<Rightarrow> actions_in oid (text_lines [] t)))))"

definition action_record :: "pystr \<Rightarrow> pystr \<Rightarrow> pystr \<Rightarrow> pystr \<Rightarrow> pystr option \<Rightarrow> jdict" where
  "action_record action_id now oid action reason =
     [(lit ''schema_version'', JStr (lit ''vuoro.outctl.observation-action/v1'')), (lit ''action_id'', JStr action_id),
      (lit ''observation_id'', JStr oid), (lit ''action'', JStr action),
      (lit ''reason'', JStr (case reason of Some r \<Rightarrow> r
         | None \<Rightarrow> if action = lit ''promote'' then lit ''promoted evidence'' else lit ''pinned evidence'')),
      (lit ''occurred_at'', JStr now)]"

text \<open>Appending to the action file.  Through a dangling link the line is written outside the spool.\<close>

definition append_action :: "links \<Rightarrow> bytes \<Rightarrow> node \<Rightarrow> unit outcome" where
  "append_action links line tree = (case node_get tree ACTIONS_FILE of
     None \<Rightarrow> (Some (node_put ACTIONS_FILE (File PRIVATE_FILE line) tree), Inr ())
   | Some (File m b) \<Rightarrow> (Some (node_put ACTIONS_FILE (File PRIVATE_FILE (b @ line)) tree), Inr ())
   | Some Symlink \<Rightarrow> (Some tree, if links ACTIONS_FILE = Nowhere True then Inr () else Inl OSError)
   | Some _ \<Rightarrow> (Some tree, Inl OSError))"

definition action_reason :: "pystr \<Rightarrow> pystr option \<Rightarrow> pystr option result" where
  "action_reason action reason =
     (if action \<noteq> lit ''pin'' \<and> action \<noteq> lit ''promote'' then Inl (ObservationError ''unsupported observation action'')
      else case reason of None \<Rightarrow> Inr None | Some t \<Rightarrow> bind_r (bounded_text (JStr t)) (\<lambda>t'. Inr (Some t')))"

definition record_observation_action ::
  "links \<Rightarrow> (jdict \<Rightarrow> string option) \<Rightarrow> pystr \<Rightarrow> pystr \<Rightarrow> pystr \<Rightarrow> pystr \<Rightarrow> pystr option \<Rightarrow> node option \<Rightarrow> jdict outcome" where
  "record_observation_action links schema action_id now oid action reason spool =
     bind_s (read_observation links schema oid spool) (\<lambda>kvs s1.
     bind_s (s1, action_reason action reason) (\<lambda>bounded s1.
       let rec = action_record action_id now oid action bounded in
       bind_s (action_path links s1) (\<lambda>tree s2.
       bind_s (append_action links (utf8_encode (dumps_lay one_line True (JObj rec) @ [10])) tree) (\<lambda>u s3. (s3, Inr rec)))))"

section \<open>Summaries and comparison\<close>

text \<open>\<open>str(value["capture_id"])\<close>; the schema lets only strings reach it.\<close>

definition str_value :: "json \<Rightarrow> pystr" where
  "str_value v = (case v of
     JStr s \<Rightarrow> s | JNull \<Rightarrow> lit ''None'' | JBool b \<Rightarrow> (if b then lit ''True'' else lit ''False'') | _ \<Rightarrow> print_json False v)"

definition summary_of :: "jdict \<Rightarrow> jdict list \<Rightarrow> capture_summary \<Rightarrow> jdict" where
  "summary_of kvs acts c =
     AList.update (lit ''retention'') (JObj (if acts \<noteq> [] then last acts else [(lit ''state'', JStr (lit ''temporary''))]))
      (AList.update (lit ''capture'') (JObj [(lit ''stdout_bytes'', fst (cm_stdout c)), (lit ''stderr_bytes'', fst (cm_stderr c)),
         (lit ''verified'', JBool True)]) kvs)"

definition observation_summary :: "links \<Rightarrow> (jdict \<Rightarrow> string option) \<Rightarrow> pystr \<Rightarrow> node option \<Rightarrow> jdict outcome" where
  "observation_summary links schema oid spool =
     bind_s (read_observation links schema oid spool) (\<lambda>kvs s1.
     bind_s (actions links oid s1) (\<lambda>acts s2. (s2,
       case jget kvs ''capture_id'' of
         None \<Rightarrow> Inl (KeyError (lit ''capture_id''))
       | Some cid \<Rightarrow> bind_r (capture_metadata s2 (str_value cid)) (\<lambda>c. Inr (summary_of kvs acts c)))))"

definition result_of :: "jdict \<Rightarrow> json result" where
  "result_of kvs = (case jget kvs ''result'' of None \<Rightarrow> Inl (KeyError (lit ''result'')) | Some v \<Rightarrow> Inr v)"

definition compared_stream :: "jdict \<Rightarrow> jdict \<Rightarrow> string \<Rightarrow> json" where
  "compared_stream l r name = JObj [(lit ''same'', JBool (py_eq (get l name) (get r name))), (lit ''left'', get l name), (lit ''right'', get r name)]"

definition same_result :: "jdict \<Rightarrow> jdict \<Rightarrow> bool" where
  "same_result l r \<longleftrightarrow> py_eq (get l ''exit_code'') (get r ''exit_code'') \<and>
     py_eq (get l ''stdout'') (get r ''stdout'') \<and> py_eq (get l ''stderr'') (get r ''stderr'')"

definition comparison_of :: "pystr \<Rightarrow> pystr \<Rightarrow> jdict \<Rightarrow> jdict \<Rightarrow> jdict result" where
  "comparison_of left_id right_id left right =
     bind_r (result_of left) (\<lambda>vl. bind_r (result_of right) (\<lambda>vr. case (vl, vr) of
       (JObj l, JObj r) \<Rightarrow> Inr [(lit ''status'', JStr (lit ''AVAILABLE'')), (lit ''left'', JStr left_id), (lit ''right'', JStr right_id),
          (lit ''same_result'', JBool (same_result l r)),
          (lit ''streams'', JObj [(lit ''stdout'', compared_stream l r ''stdout''), (lit ''stderr'', compared_stream l r ''stderr'')])]
     | _ \<Rightarrow> Inl AssertionError))"

definition compare_observations :: "links \<Rightarrow> (jdict \<Rightarrow> string option) \<Rightarrow> pystr \<Rightarrow> pystr \<Rightarrow> node option \<Rightarrow> jdict outcome" where
  "compare_observations links schema left_id right_id spool =
     bind_s (observation_summary links schema left_id spool) (\<lambda>left s1.
     bind_s (observation_summary links schema right_id s1) (\<lambda>right s2. (s2, comparison_of left_id right_id left right)))"

section \<open>Importing external artifacts\<close>

text \<open>The external files are given as the entries at their paths; \<open>cid\<close> is the fresh capture id.\<close>

definition readable :: "node option \<Rightarrow> bytes result" where
  "readable e = (case e of Some (File m b) \<Rightarrow> Inr b | _ \<Rightarrow> Inl OSError)"

definition import_stream :: "bytes \<Rightarrow> json" where
  "import_stream b = JObj [(lit ''bytes'', JInt (int (length b))), (lit ''sha256'', JStr (lit (sha256_hex b)))]"

definition import_manifest :: "pystr \<Rightarrow> json \<Rightarrow> bytes \<Rightarrow> bytes \<Rightarrow> jdict" where
  "import_manifest cid exit_code out err =
     [(lit ''capture_id'', JStr cid), (lit ''capture_status'', JStr (lit ''COMPLETE'')),
      (lit ''command'', JObj [(lit ''started'', JBool True), (lit ''exit_code'', exit_code), (lit ''signal'', JNull), (lit ''timed_out'', JBool False),
         (lit ''cancelled'', JBool False)]),
      (lit ''streams'', JObj [(lit ''stdout'', import_stream out), (lit ''stderr'', import_stream err)]),
      (lit ''event_index'', JObj [(lit ''events'', JInt 0), (lit ''sha256'', JStr (lit (sha256_hex [])))])]"

definition CAPTURES :: path where "CAPTURES = [lit ''captures'']"

definition ensure_captures :: "links \<Rightarrow> node \<Rightarrow> node outcome" where
  "ensure_captures links tree = (case node_get tree CAPTURES of
     None \<Rightarrow> (let t = node_put CAPTURES (Dir PRIVATE_DIR []) tree in (Some t, Inr t))
   | Some (Dir m cs) \<Rightarrow> (let t = node_put CAPTURES (Dir PRIVATE_DIR cs) tree in (Some t, Inr t))
   | Some Symlink \<Rightarrow> (Some tree, if links CAPTURES = ToDirectory then Inr tree else Inl OSError)
   | Some _ \<Rightarrow> (Some tree, Inl OSError))"

definition import_dir :: "pystr \<Rightarrow> json \<Rightarrow> bytes \<Rightarrow> bytes \<Rightarrow> node" where
  "import_dir cid exit_code out err = Dir PRIVATE_DIR
     [(lit ''stdout.raw'', File PRIVATE_FILE out), (lit ''stderr.raw'', File PRIVATE_FILE err), (lit ''events.ndjson'', File PRIVATE_FILE []),
      (lit ''manifest.json'', File PRIVATE_FILE (utf8_encode (dumps_lay one_line True (JObj (import_manifest cid exit_code out err)) @ [10])))]"

text \<open>\<open>os.replace\<close> of the finished directory; under a linked \<open>captures\<close> it lands outside the spool.\<close>

definition publish_import :: "pystr \<Rightarrow> node \<Rightarrow> node \<Rightarrow> unit outcome" where
  "publish_import cid dir tree =
     (if node_get tree CAPTURES = Some Symlink then (Some tree, Inr ())
      else case node_get tree (CAPTURES @ [cid]) of
        None \<Rightarrow> (Some (node_put (CAPTURES @ [cid]) dir tree), Inr ())
      | Some (Dir m []) \<Rightarrow> (Some (node_put (CAPTURES @ [cid]) dir tree), Inr ())
      | Some _ \<Rightarrow> (Some tree, Inl OSError))"

definition import_content :: "pystr \<Rightarrow> node option \<Rightarrow> node option option \<Rightarrow> json \<Rightarrow> node result" where
  "import_content cid stdout stderr exit_code =
     bind_r (readable stdout) (\<lambda>out. bind_r (case stderr of None \<Rightarrow> Inr [] | Some e \<Rightarrow> readable e) (\<lambda>err.
       if encodable (JObj (import_manifest cid exit_code out err)) then Inr (import_dir cid exit_code out err)
       else Inl (ValueError ''Exceeds the limit for integer string conversion'')))"

definition import_capture :: "links \<Rightarrow> pystr \<Rightarrow> node option \<Rightarrow> node option option \<Rightarrow> json \<Rightarrow> node option \<Rightarrow> unit outcome" where
  "import_capture links cid stdout stderr exit_code spool =
     bind_s (ensure_store links spool) (\<lambda>tree s.
     bind_s (s, regular_content stdout) (\<lambda>c s.
     bind_s (s, case stderr of None \<Rightarrow> Inr None | Some e \<Rightarrow> regular_content e) (\<lambda>c s.
     bind_s (ensure_captures links tree) (\<lambda>tree' s.
     bind_s (s, import_content cid stdout stderr exit_code) (\<lambda>dir s.
     publish_import cid dir tree')))))"

definition import_observation ::
  "links \<Rightarrow> (jdict \<Rightarrow> string option) \<Rightarrow> pystr \<Rightarrow> pystr \<Rightarrow> node option \<Rightarrow> node option option \<Rightarrow> jdict \<Rightarrow> json \<Rightarrow> node option \<Rightarrow>
     jdict outcome" where
  "import_observation links schema now cid stdout stderr metadata exit_code spool =
     bind_s (import_capture links cid stdout stderr exit_code spool) (\<lambda>u s. ingest_observation links schema now cid metadata s)"

section \<open>Files are never changed\<close>

lemma bind_s_simps [simp]: "bind_s (s, Inl e) f = (s, Inl e)" "bind_s (s, Inr x) f = f x s"
  by (simp_all add: bind_s_def)

lemma bind_s_InrE:
  assumes "bind_s m f = (s', Inr y)"
  obtains s x where "m = (s, Inr x)" "f x s = (s', Inr y)"
  using assms by (cases m; cases "snd m") auto

lemma put_keeps_file:
  assumes "node_get tree p = Some (File m b)" "\<And>r. p = q @ r \<Longrightarrow> node_get x r = Some (File m b)"
  shows "node_get (node_put q x tree) p = Some (File m b)"
  using assms
proof (induction q x tree arbitrary: p rule: node_put.induct)
  case (2 q qs new mode cs)
  then show ?case by (cases p) (auto simp: update_conv' split: option.splits if_splits)
qed (auto simp: node_get.simps)

text \<open>What the operations promise: files keep their content, and the action file only grows.\<close>

definition grows :: "path \<Rightarrow> node option \<Rightarrow> node option \<Rightarrow> bool" where
  "grows p s s' \<longleftrightarrow> (\<forall>m b. entry_at s p = Some (File m b) \<longrightarrow>
     (if p = ACTIONS_FILE then \<exists>m' line. entry_at s' p = Some (File m' (b @ line)) else entry_at s' p = Some (File m b)))"

definition appends_only :: "node option \<Rightarrow> node option \<Rightarrow> bool" where
  "appends_only s s' \<longleftrightarrow> (\<forall>p. grows p s s')"

lemma appends_only_refl [simp]: "appends_only s s"
  by (auto simp: appends_only_def grows_def intro: exI [of _ "[]"])

lemma appends_only_trans: "appends_only s t \<Longrightarrow> appends_only t u \<Longrightarrow> appends_only s u"
  by (fastforce simp: appends_only_def grows_def split: if_splits)

lemma appends_nothing [simp]: "appends_only None s"
  by (simp add: appends_only_def grows_def entry_at_def)

lemma appends_keep: "(\<And>p m b. entry_at s p = Some (File m b) \<Longrightarrow> entry_at s' p = Some (File m b)) \<Longrightarrow> appends_only s s'"
  by (auto simp: appends_only_def grows_def intro: exI [of _ "[]"])

lemma appends_put:
  "(\<And>p m b. node_get tree (q @ p) = Some (File m b) \<Longrightarrow> node_get x p = Some (File m b)) \<Longrightarrow> appends_only (Some tree) (Some (node_put q x tree))"
  by (rule appends_keep) (auto simp: entry_at_def intro!: put_keeps_file)

lemma get_dir_mode: "node_get (Dir m cs) p = Some (File k b) \<Longrightarrow> node_get (Dir m' cs) p = Some (File k b)"
  by (cases p) auto

lemma appends_dir_mode: "appends_only (Some (Dir m cs)) (Some (Dir m' cs))"
  by (rule appends_keep) (unfold entry_at_def option.case, rule get_dir_mode)

lemma appends_bind_s:
  assumes "appends_only s (fst m)" "\<And>x. m = (fst m, Inr x) \<Longrightarrow> appends_only (fst m) (fst (f x (fst m)))"
  shows "appends_only s (fst (bind_s m f))"
proof (cases "snd m")
  case (Inr x)
  then have "m = (fst m, Inr x)" by (simp add: prod_eq_iff)
  with assms Inr show ?thesis by (auto simp: bind_s_def intro: appends_only_trans)
qed (use assms in \<open>simp add: bind_s_def\<close>)

lemma appends_put_over:
  assumes "node_get tree q = None \<or> (\<exists>m. node_get tree q = Some (Dir m [])) \<or> node_get tree q = Some Symlink"
  shows "appends_only (Some tree) (Some (node_put q x tree))"
proof (rule appends_put)
  fix p m b assume f: "node_get tree (q @ p) = Some (File m b)"
  then obtain n where n: "node_get tree q = Some n" "node_get n p = Some (File m b)" by (auto simp: node_get_append split: option.splits)
  with assms have "(\<exists>m. n = Dir m []) \<or> n = Symlink" by auto
  with n(2) show "node_get x p = Some (File m b)" by (cases p) auto
qed

lemma appends_put_dir: "node_get tree q = Some (Dir m cs) \<Longrightarrow> appends_only (Some tree) (Some (node_put q (Dir m' cs) tree))"
  by (rule appends_put) (auto simp: node_get_append intro: get_dir_mode)

lemma appends_ensure_observations: "appends_only (Some tree) (fst (ensure_observations links tree))"
proof (cases "node_get tree OBSERVATIONS")
  case None
  then show ?thesis by (simp add: ensure_observations_def Let_def appends_put_over)
next
  case (Some n)
  then show ?thesis by (cases n) (simp_all add: ensure_observations_def Let_def appends_put_dir)
qed

lemma appends_ensure_store: "appends_only s (fst (ensure_store links s))"
proof (cases s)
  case (Some n)
  show ?thesis
  proof (cases n)
    case (Dir m cs)
    show ?thesis using appends_only_trans [OF appends_dir_mode appends_ensure_observations]
      by (simp add: Some Dir ensure_store_def)
  qed (simp_all add: ensure_store_def Some)
qed simp

lemma ensure_store_tree: "ensure_store links s = (s', Inr tree) \<Longrightarrow> s' = Some tree"
  by (auto simp: ensure_store_def ensure_observations_def Let_def split: option.splits node.splits)

lemma appends_write_immutable: "appends_only s (fst (write_immutable links schema rec s))"
  unfolding write_immutable_def
proof (rule appends_bind_s [OF appends_ensure_store])
  fix tree let ?s = "fst (ensure_store links s)"
  assume "ensure_store links s = (?s, Inr tree)"
  then have t: "?s = Some tree" by (rule ensure_store_tree)
  have "appends_only (Some tree) (Some (node_put (observation_file oid) x tree))" if "\<not> entry_exists links tree (observation_file oid)" for x oid
    using that by (intro appends_put_over) (auto simp: entry_exists_def split: option.splits node.splits)
  then show "appends_only ?s (fst (case named_id rec of Inl e \<Rightarrow> (?s, Inl e) | Inr oid \<Rightarrow>
     if \<not> observation_id_ok oid then (?s, Inl (ObservationError ''invalid observation id''))
     else if \<not> encodable (JObj rec) then (?s, Inl (ValueError INT_TOO_LONG))
     else if entry_exists links tree (observation_file oid) then
       (?s, bind_r (regular_content (node_get tree (observation_file oid))) (\<lambda>content. bind_r (loaded content) (stored_record schema rec)))
     else (Some (node_put (observation_file oid) (File PRIVATE_FILE (utf8_encode (dumps_lay indented True (JObj rec) @ [10]))) tree), Inr rec)))"
    by (cases "named_id rec") (simp_all add: t)
qed

lemma appends_ingest: "appends_only s (fst (ingest_observation links schema now cid metadata s))"
  unfolding ingest_observation_def by (rule appends_bind_s) (simp_all add: appends_write_immutable)

lemma appends_read: "appends_only s (fst (read_observation links schema oid s))"
  unfolding read_observation_def by (rule appends_bind_s [OF appends_ensure_store]) simp

lemma appends_action_path: "appends_only s (fst (action_path links s))"
  unfolding action_path_def by (rule appends_bind_s [OF appends_ensure_store]) simp

lemma appends_actions: "appends_only s (fst (actions links oid s))"
  unfolding actions_def by (rule appends_bind_s [OF appends_action_path]) simp

lemma appends_summary: "appends_only s (fst (observation_summary links schema oid s))"
  unfolding observation_summary_def by (rule appends_bind_s [OF appends_read], rule appends_bind_s [OF appends_actions]) simp

lemma appends_compare: "appends_only s (fst (compare_observations links schema l r s))"
  unfolding compare_observations_def by (rule appends_bind_s [OF appends_summary], rule appends_bind_s [OF appends_summary]) simp

lemma action_path_tree: "action_path links s = (s', Inr tree) \<Longrightarrow> s' = Some tree"
  by (auto simp: action_path_def bind_r_Inr_iff elim!: bind_s_InrE dest: ensure_store_tree split: if_splits)

lemma ensure_captures_tree: "ensure_captures links t = (s', Inr tree) \<Longrightarrow> s' = Some tree"
  by (auto simp: ensure_captures_def Let_def split: option.splits node.splits if_splits)

lemma appends_ensure_captures: "appends_only (Some tree) (fst (ensure_captures links tree))"
proof (cases "node_get tree CAPTURES")
  case None
  then show ?thesis by (simp add: ensure_captures_def Let_def appends_put_over)
next
  case (Some n)
  then show ?thesis by (cases n) (simp_all add: ensure_captures_def Let_def appends_put_dir)
qed

lemma appends_publish: "appends_only (Some tree) (fst (publish_import cid dir tree))"
  by (auto simp: publish_import_def intro!: appends_put_over split: option.splits node.splits list.splits)

lemma appends_import_capture: "appends_only s (fst (import_capture links cid out err code s))"
  unfolding import_capture_def
proof (intro appends_bind_s [OF appends_ensure_store] appends_bind_s [OF appends_only_refl, of "(_, _)", unfolded fst_conv])
  fix tree c d let ?s = "fst (ensure_store links s)"
  assume "ensure_store links s = (?s, Inr tree)"
  then have t: "?s = Some tree" by (rule ensure_store_tree)
  show "appends_only ?s (fst (bind_s (ensure_captures links tree) (\<lambda>tree' s. bind_s (s, import_content cid out err code) (\<lambda>dir s. publish_import cid dir tree'))))"
    unfolding t
    by (rule appends_bind_s [OF appends_ensure_captures], rule appends_bind_s)
      (auto dest: ensure_captures_tree simp: appends_publish)
qed

lemma appends_import: "appends_only s (fst (import_observation links schema now cid out err md code s))"
  unfolding import_observation_def by (rule appends_bind_s [OF appends_import_capture]) (simp add: appends_ingest)

lemma appends_to_file:
  assumes "node_get tree ACTIONS_FILE = Some (File m b)"
  shows "appends_only (Some tree) (Some (node_put ACTIONS_FILE (File m' (b @ line)) tree))"
proof -
  have ok: "parent_ok tree ACTIONS_FILE" using assms by (cases tree) (auto simp: parent_ok_def ACTIONS_FILE_def is_dir_def)
  have "node_get (node_put ACTIONS_FILE (File m' (b @ line)) tree) p = Some (File k c)"
    if "node_get tree p = Some (File k c)" "p \<noteq> ACTIONS_FILE" for p k c
    using that(1) by (rule put_keeps_file) (use that assms in \<open>auto simp: node_get_append\<close>)
  with node_put_get_same [OF ok] assms show ?thesis by (auto simp: appends_only_def grows_def entry_at_def)
qed

lemma appends_append: "appends_only (Some tree) (fst (append_action links line tree))"
proof (cases "node_get tree ACTIONS_FILE")
  case None
  then show ?thesis by (simp add: append_action_def appends_put_over)
next
  case (Some n)
  then show ?thesis by (cases n) (simp_all add: append_action_def appends_to_file)
qed

lemma appends_record_action: "appends_only s (fst (record_observation_action links schema aid now oid act reason s))"
  unfolding record_observation_action_def Let_def
proof (intro appends_bind_s [OF appends_read] appends_bind_s [OF appends_only_refl, of "(_, _)", unfolded fst_conv]
    appends_bind_s [OF appends_action_path])
  fix kvs bounded tree line rec let ?s = "fst (action_path links (fst (read_observation links schema oid s)))"
  assume "action_path links (fst (read_observation links schema oid s)) = (?s, Inr tree)"
  then have t: "?s = Some tree" by (rule action_path_tree)
  show "appends_only ?s (fst (bind_s (append_action links
     (utf8_encode (dumps_lay one_line True (JObj (action_record aid now oid act bounded)) @ [10])) tree) (\<lambda>u s3. (s3, Inr (action_record aid now oid act bounded)))))"
    unfolding t by (rule appends_bind_s [OF appends_append]) simp
qed

text \<open>One use of the store, by any of its operations, in any environment.\<close>

inductive store_step :: "node option \<Rightarrow> node option \<Rightarrow> bool" where
  ingested: "store_step s (fst (ingest_observation links schema now cid metadata s))"
| imported: "store_step s (fst (import_observation links schema now cid out err metadata code s))"
| was_read: "store_step s (fst (read_observation links schema oid s))"
| acted_on: "store_step s (fst (record_observation_action links schema aid now oid act reason s))"
| summarized: "store_step s (fst (observation_summary links schema oid s))"
| compared: "store_step s (fst (compare_observations links schema l r s))"

lemma store_step_appends: "store_step s s' \<Longrightarrow> appends_only s s'"
  by (cases rule: store_step.cases)
    (auto simp: appends_ingest appends_import appends_read appends_record_action appends_summary appends_compare)

text \<open>
  C36.  The observation store is append-only: however the operations of the store are interleaved and whatever they
  return, no file of the spool - observation record, capture stream or manifest - is ever changed, and
  the action file keeps everything that was written to it and only grows at its end.
\<close>

theorem observation_store_append_only:
  assumes "store_step\<^sup>*\<^sup>* s s'" "entry_at s p = Some (File m b)"
  shows "if p = ACTIONS_FILE then \<exists>m' line. entry_at s' p = Some (File m' (b @ line)) else entry_at s' p = Some (File m b)"
proof -
  have "appends_only s s'" using assms(1)
    by (induction rule: rtranclp_induct) (auto intro: appends_only_trans store_step_appends)
  then show ?thesis using assms(2) unfolding appends_only_def grows_def by blast
qed

definition logged_spool :: "node option" where
  "logged_spool = Some (Dir 493 [(lit ''observation-actions.jsonl'', File 420 ''{}''), (lit ''notes'', File 420 ''kept'')])"

theorem observation_store_append_only_witness:
  "\<exists>s'. store_step\<^sup>*\<^sup>* logged_spool s' \<and> s' \<noteq> logged_spool \<and> entry_at s' [lit ''notes''] = Some (File 420 ''kept'') \<and>
    (\<exists>m' line. entry_at s' ACTIONS_FILE = Some (File m' (''{}'' @ line)))"
proof -
  let ?s = "fst (read_observation (\<lambda>p. ToOther) (\<lambda>kvs. None) [] logged_spool)"
  have step: "store_step\<^sup>*\<^sup>* logged_spool ?s" by (intro r_into_rtranclp was_read)
  have "\<not> node_get (the ?s) OBSERVATIONS = node_get (the logged_spool) OBSERVATIONS" by code_simp
  moreover have "entry_at logged_spool [lit ''notes''] = Some (File 420 ''kept'')" "[lit ''notes''] \<noteq> ACTIONS_FILE"
    "entry_at logged_spool ACTIONS_FILE = Some (File 420 ''{}'')"
    by (simp_all add: logged_spool_def entry_at_def ACTIONS_FILE_def)
  ultimately show ?thesis using step observation_store_append_only [OF step, of "[lit ''notes'']"]
    observation_store_append_only [OF step, of ACTIONS_FILE] by auto
qed

end
