(* ===== verification/ObservationStore.thy ===== *)
theory ObservationStore
  imports Observations
begin

text \<open>
  What the observation store promises: the shipped schema, and for it that a new observation reads back, that
  ingesting it again changes nothing and returns the first record, that imported artifacts become a capture that
  verifies and reads back, and that the last recorded action is the retention a summary reports.  The locale
  \<open>record_schema\<close> is what the store relies on in a schema, interpreted on the shipped one.
\<close>

section \<open>Captures are read the same after a write\<close>

definition captures_agree :: "node option \<Rightarrow> node option \<Rightarrow> bool" where
  "captures_agree a b \<longleftrightarrow> safe_directory a \<and> safe_directory b \<and>
     (\<forall>c p. c \<noteq> lit ''observations'' \<longrightarrow> entry_at a (c # p) = entry_at b (c # p))"

lemma captures_agreeD: "captures_agree a b \<Longrightarrow> c \<noteq> lit ''observations'' \<Longrightarrow> entry_at a (c # p) = entry_at b (c # p)"
  by (simp add: captures_agree_def)

lemma resolve_groups_agree:
  assumes "\<And>g p. g \<in> fst ` set gs \<Longrightarrow> node_get t (g # p) = node_get u (g # p)"
  shows "resolve_groups t cid gs = resolve_groups u cid gs"
  using assms by (induction t cid gs rule: resolve_groups.induct) auto

lemma resolve_agree: assumes "captures_agree a b" shows "resolve_capture a cid = resolve_capture b cid"
proof -
  obtain t u where trees: "a = Some t" "b = Some u" using assms by (cases a; cases b) (auto simp: captures_agree_def safe_directory_def)
  have groups: "resolve_groups t cid gs = resolve_groups u cid gs" if "lit ''observations'' \<notin> fst ` set gs" for gs
  proof (rule resolve_groups_agree)
    fix g p assume "g \<in> fst ` set gs"
    with that have "g \<noteq> lit ''observations''" by blast
    with captures_agreeD [OF assms this, of p] trees show "node_get t (g # p) = node_get u (g # p)" by (simp add: entry_at_def)
  qed
  have "resolve_groups t cid [(lit ''captures'', cid, AVAILABLE), (lit ''partial'', cid @ lit ''.partial'', INCOMPLETE)] =
      resolve_groups u cid [(lit ''captures'', cid, AVAILABLE), (lit ''partial'', cid @ lit ''.partial'', INCOMPLETE)]"
    by (rule groups) simp
  moreover have "safe_directory (Some t)" "safe_directory (Some u)" using assms by (simp_all add: captures_agree_def flip: trees)
  ultimately show ?thesis unfolding resolve_capture_def trees by (simp only: option.case simp_thms if_False)
qed

lemma resolved_group:
  assumes "resolve_capture s cid = Inr r" "rc_path r = Some dir"
  shows "\<exists>g n. dir = [g, n] \<and> g \<noteq> lit ''observations''"
proof -
  have "resolve_groups t cid gs = Inr r \<Longrightarrow> lit ''observations'' \<notin> fst ` set gs \<Longrightarrow> ?thesis" for t gs
    using assms(2) by (induction t cid gs rule: resolve_groups.induct) (auto simp: unresolved_def split: if_splits)
  then show ?thesis using assms by (auto simp: resolve_capture_def unresolved_def split: if_splits option.splits)
qed

lemma load_agree:
  assumes "captures_agree a b" "resolve_capture a cid = Inr r"
  shows "authorized_manifest a r ws = authorized_manifest b r ws"
proof -
  have "entry_at a (dir @ q) = entry_at b (dir @ q)" if "rc_path r = Some dir" for dir q
    using resolved_group [OF assms(2) that] captures_agreeD [OF assms(1)] by auto
  then show ?thesis by (auto simp: authorized_manifest_def load_manifest_def split: option.splits)
qed

lemma inspect_agree: assumes "captures_agree a b" shows "inspect_capture a cid ws = inspect_capture b cid ws"
  unfolding inspect_capture_def using load_agree [OF assms] by (cases "resolve_capture a cid") (auto simp: resolve_agree [OF assms, symmetric])

lemma verify_agree: assumes "captures_agree a b" shows "verify_capture a cid ws = verify_capture b cid ws"
proof (cases "resolve_capture a cid")
  case (Inr r)
  have "check_digest a dir art = check_digest b dir art" if "rc_path r = Some dir" for dir art
    using resolved_group [OF Inr that] captures_agreeD [OF assms] by (auto simp: check_digest_def split: prod.splits)
  then have d: "rc_path r = Some dir \<Longrightarrow> check_digest a dir = check_digest b dir" for dir by blast
  show ?thesis unfolding verify_capture_def resolve_agree [OF assms, symmetric] Inr bind_r_simps load_agree [OF assms Inr]
    using d by (cases "rc_path r") (simp_all only: option.case prod.case)
qed (simp add: verify_capture_def resolve_agree [OF assms, symmetric])

lemma metadata_agree: assumes "captures_agree a b" shows "capture_metadata a cid = capture_metadata b cid"
proof -
  have "entry_at a (lit ''captures'' # p) = entry_at b (lit ''captures'' # p)" for p by (rule captures_agreeD [OF assms]) simp
  then show ?thesis unfolding capture_metadata_def inspect_agree [OF assms] verify_agree [OF assms] by (simp only:)
qed

section \<open>The shipped schema\<close>

text \<open>\<open>schemas/observation.schema.json\<close> under Draft 2020-12: a number with an integral value is an integer and a boolean is
  not, and \<open>$\<close> in a pattern also matches before a final line feed.  Which message an error has is the argument \<open>msg\<close>.\<close>

definition hex_pattern :: "string \<Rightarrow> json \<Rightarrow> bool" where
  "hex_pattern start v = (case v of
     JStr s \<Rightarrow> prefix (lit start) s \<and> (let h = drop (length start) s in
       list_all is_hex (take 64 h) \<and> 64 \<le> length h \<and> (drop 64 h = [] \<or> drop 64 h = [10]))
   | _ \<Rightarrow> False)"

definition text_between :: "nat \<Rightarrow> nat option \<Rightarrow> json \<Rightarrow> bool" where
  "text_between lo hi v = (case v of JStr s \<Rightarrow> lo \<le> length s \<and> (case hi of Some h \<Rightarrow> length s \<le> h | None \<Rightarrow> True) | _ \<Rightarrow> False)"

definition integral :: "json \<Rightarrow> rat option" where
  "integral v = (case v of JInt i \<Rightarrow> Some (of_int i)
     | JFloat t \<Rightarrow> (case float_of_text t of Finite q \<Rightarrow> if of_int \<lfloor>q\<rfloor> = q then Some q else None | _ \<Rightarrow> None) | _ \<Rightarrow> None)"

definition exit_code_ok :: "json \<Rightarrow> bool" where
  "exit_code_ok v \<longleftrightarrow> v = JNull \<or> integral v \<noteq> None"

definition duration_ok :: "json \<Rightarrow> bool" where
  "duration_ok v = (case integral v of Some q \<Rightarrow> 0 \<le> q | None \<Rightarrow> False)"

text \<open>An object with exactly the named members, each accepted by its check.\<close>

definition closed_object :: "(string \<times> (json \<Rightarrow> bool)) list \<Rightarrow> jdict \<Rightarrow> bool" where
  "closed_object checks kvs \<longleftrightarrow> list_all (\<lambda>(k, v). list_ex (\<lambda>(n, c). lit n = k) checks) kvs \<and>
     list_all (\<lambda>(n, c). case jget kvs n of Some v \<Rightarrow> c v | None \<Rightarrow> False) checks"

definition object_of :: "(string \<times> (json \<Rightarrow> bool)) list \<Rightarrow> json \<Rightarrow> bool" where
  "object_of checks v = (case v of JObj kvs \<Rightarrow> closed_object checks kvs | _ \<Rightarrow> False)"

definition SOURCE_CHECKS :: "(string \<times> (json \<Rightarrow> bool)) list" where
  "SOURCE_CHECKS = [(''harness'', text_between 1 (Some 512)), (''session'', text_between 1 (Some 512)), (''tool_call'', text_between 1 (Some 512))]"

definition INVOCATION_CHECKS :: "(string \<times> (json \<Rightarrow> bool)) list" where
  "INVOCATION_CHECKS = [(''tool'', text_between 1 (Some 512)), (''command_sha256'', hex_pattern [])]"

definition RESULT_CHECKS :: "(string \<times> (json \<Rightarrow> bool)) list" where
  "RESULT_CHECKS = [(''exit_code'', exit_code_ok), (''duration_ms'', duration_ok),
     (''stdout'', hex_pattern ''artifact:sha256:''), (''stderr'', hex_pattern ''artifact:sha256:'')]"

definition OBSERVATION_CHECKS :: "(string \<times> (json \<Rightarrow> bool)) list" where
  "OBSERVATION_CHECKS = [(''schema_version'', \<lambda>v. v = JStr (lit ''vuoro.outctl.observation/v1'')), (''observation_id'', hex_pattern ''obs-''),
     (''created_at'', text_between 1 None), (''capture_id'', text_between 1 None),
     (''capture_ref'', \<lambda>v. case v of JStr s \<Rightarrow> prefix (lit ''outctl://capture/'') s | _ \<Rightarrow> False), (''capture_manifest_sha256'', hex_pattern []),
     (''source'', object_of SOURCE_CHECKS), (''invocation'', object_of INVOCATION_CHECKS), (''result'', object_of RESULT_CHECKS)]"

definition shipped_schema :: "(jdict \<Rightarrow> string) \<Rightarrow> jdict \<Rightarrow> string option" where
  "shipped_schema msg kvs = (if closed_object OBSERVATION_CHECKS kvs then None else Some (msg kvs))"

text \<open>A check does not see the order of keys.\<close>

definition order_free :: "(json \<Rightarrow> bool) \<Rightarrow> bool" where
  "order_free c \<longleftrightarrow> (\<forall>v. json_ok v \<longrightarrow> c (sort_keys v) = c v)"

lemma list_all_keys: "list_all (\<lambda>(k, v). P k) kvs \<longleftrightarrow> (\<forall>k \<in> fst ` set kvs. P k)"
  by (auto simp: list_all_iff)

lemma closed_object_sorted:
  assumes "json_ok (JObj kvs)" "\<forall>(n, c) \<in> set checks. order_free c"
  shows "closed_object checks (sort_key fst (sort_pairs kvs)) \<longleftrightarrow> closed_object checks kvs"
proof -
  have d: "distinct (map fst kvs)" using assms(1) by simp
  have ok: "jget kvs n = Some v \<Longrightarrow> json_ok v" for n v using assms(1) by (auto simp: jget_def pairs_ok_iff dest!: map_of_SomeD)
  have keys: "fst ` set (sort_key fst (sort_pairs kvs)) = fst ` set kvs"
    using arg_cong [OF sort_pairs_keys [of kvs], of set] by simp
  have "list_all (\<lambda>(k, v). P k) (sort_key fst (sort_pairs kvs)) = list_all (\<lambda>(k, v). P k) kvs" for P
    by (simp only: list_all_keys keys)
  moreover have "(case map_option sort_keys (jget kvs n) of Some v \<Rightarrow> c v | None \<Rightarrow> False) = (case jget kvs n of Some v \<Rightarrow> c v | None \<Rightarrow> False)"
    if "(n, c) \<in> set checks" for n c
    using assms(2) that ok [of n] by (cases "jget kvs n") (auto simp: order_free_def)
  then have "list_all (\<lambda>(n, c). case map_option sort_keys (jget kvs n) of Some v \<Rightarrow> c v | None \<Rightarrow> False) checks =
      list_all (\<lambda>(n, c). case jget kvs n of Some v \<Rightarrow> c v | None \<Rightarrow> False) checks"
    by (intro list.pred_cong) auto
  ultimately show ?thesis unfolding closed_object_def jget_sorted [OF d] by simp
qed


lemma order_freeI: assumes "\<And>xs. \<not> c (JArr xs)" "\<And>kvs. \<not> c (JObj kvs)" shows "order_free c"
  unfolding order_free_def
proof (intro allI impI)
  fix v show "c (sort_keys v) = c v" using assms by (cases v) simp_all
qed

lemma order_free_atoms [simp]:
  "order_free (hex_pattern p)" "order_free (text_between lo hi)" "order_free (\<lambda>v. v = JStr t)"
  "order_free exit_code_ok" "order_free duration_ok" "order_free (\<lambda>v. case v of JStr s \<Rightarrow> P s | _ \<Rightarrow> False)"
  by (rule order_freeI; simp add: hex_pattern_def text_between_def exit_code_ok_def duration_ok_def integral_def)+

lemma order_free_object: "\<forall>(n, c) \<in> set checks. order_free c \<Longrightarrow> order_free (object_of checks)"
  unfolding order_free_def
proof (intro allI impI)
  fix v assume c: "\<forall>(n, c) \<in> set checks. \<forall>v. json_ok v \<longrightarrow> c (sort_keys v) = c v" and v: "json_ok v"
  show "object_of checks (sort_keys v) = object_of checks v"
  proof (cases v)
    case (JObj kvs)
    then show ?thesis using closed_object_sorted [of kvs checks] c v by (simp add: object_of_def order_free_def)
  qed (simp_all add: object_of_def)
qed

text \<open>What the store needs of a schema: neither the order of keys nor the time of ingestion decides.\<close>

locale record_schema =
  fixes schema :: "jdict \<Rightarrow> string option"
  assumes order_blind: "json_ok (JObj kvs) \<Longrightarrow> schema kvs = None \<Longrightarrow> schema (sort_key fst (sort_pairs kvs)) = None"
    and time_blind: "u \<noteq> [] \<Longrightarrow> schema (a @ (lit ''created_at'', JStr t) # b) = None \<Longrightarrow> schema (a @ (lit ''created_at'', JStr u) # b) = None"

lemma time_blind_object:
  assumes "closed_object checks (a @ (k, v) # b)" "\<And>n c. (n, c) \<in> set checks \<Longrightarrow> lit n = k \<Longrightarrow> c w"
  shows "closed_object checks (a @ (k, w) # b)"
proof -
  have "case jget (a @ (k, w) # b) n of Some x \<Rightarrow> c x | None \<Rightarrow> False" if n: "(n, c) \<in> set checks" for n c
  proof -
    have "case jget (a @ (k, v) # b) n of Some x \<Rightarrow> c x | None \<Rightarrow> False" using assms(1) n by (auto simp: closed_object_def list_all_iff)
    then show ?thesis using assms(2) [OF n] by (auto simp: jget_def map_add_def split: option.splits if_splits)
  qed
  then show ?thesis using assms(1) by (auto simp: closed_object_def list_all_iff)
qed

interpretation shipped: record_schema "shipped_schema msg"
proof
  fix kvs assume ok: "json_ok (JObj kvs)" and "shipped_schema msg kvs = None"
  moreover have "\<forall>(n, c) \<in> set OBSERVATION_CHECKS. order_free c"
    by (simp add: OBSERVATION_CHECKS_def order_free_object SOURCE_CHECKS_def INVOCATION_CHECKS_def RESULT_CHECKS_def del: lit_simps)
  ultimately show "shipped_schema msg (sort_key fst (sort_pairs kvs)) = None"
    using closed_object_sorted [OF ok] by (simp add: shipped_schema_def split: if_splits)
next
  fix u t :: pystr and a b :: jdict assume "u \<noteq> []" "shipped_schema msg (a @ (lit ''created_at'', JStr t) # b) = None"
  moreover have "c (JStr u)" if "(n, c) \<in> set OBSERVATION_CHECKS" "lit n = lit ''created_at''" "u \<noteq> []" for n c
    using that by (auto simp: OBSERVATION_CHECKS_def text_between_def lit_eq_iff Suc_le_eq simp del: lit_simps)
  ultimately have "closed_object OBSERVATION_CHECKS (a @ (lit ''created_at'', JStr u) # b)"
    by (intro time_blind_object [of OBSERVATION_CHECKS a "lit ''created_at''" "JStr t" b "JStr u"])
      (auto simp: shipped_schema_def simp del: lit_simps split: if_splits)
  then show "shipped_schema msg (a @ (lit ''created_at'', JStr u) # b) = None" by (simp add: shipped_schema_def del: lit_simps)
qed

section \<open>What was ingested is read\<close>

text \<open>A spool whose directories are in place is left as it is.\<close>

definition ready :: "node \<Rightarrow> bool" where
  "ready tree \<longleftrightarrow> (\<exists>cs os. tree = Dir PRIVATE_DIR cs \<and> map_of cs (lit ''observations'') = Some (Dir PRIVATE_DIR os))"

lemma node_get_observations: "node_get (Dir m cs) OBSERVATIONS = map_of cs (lit ''observations'')"
  by (simp add: OBSERVATIONS_def del: lit_simps split: option.splits)

lemma ready_put: "node_put OBSERVATIONS (Dir PRIVATE_DIR os) (Dir PRIVATE_DIR cs) = Dir PRIVATE_DIR (AList.update (lit ''observations'') (Dir PRIVATE_DIR os) cs)"
  by (simp add: OBSERVATIONS_def del: lit_simps split: option.splits)

lemma ensured_ready: "ensure_observations links (Dir PRIVATE_DIR cs) = (s', Inr t) \<Longrightarrow> ready t"
  by (auto simp: ensure_observations_def Let_def ready_put ready_def update_conv' simp del: lit_simps split: option.splits node.splits)

lemma ensure_store_ready: "ensure_store links s = (s', Inr t) \<Longrightarrow> ready t"
  by (auto simp: ensure_store_def dest: ensured_ready split: option.splits node.splits)

lemma ensure_store_done: assumes "ready t" shows "ensure_store links (Some t) = (Some t, Inr t)"
proof -
  obtain cs os where t: "t = Dir PRIVATE_DIR cs" and o: "map_of cs (lit ''observations'') = Some (Dir PRIVATE_DIR os)"
    using assms by (auto simp: ready_def)
  have "node_put OBSERVATIONS (Dir PRIVATE_DIR os) t = t" unfolding t ready_put using o by (simp only: update_triv)
  with o show ?thesis unfolding t ensure_store_def ensure_observations_def node_get_observations by (simp add: Let_def del: lit_simps)
qed

lemma ready_put_file: "ready t \<Longrightarrow> ready (node_put (observation_file oid) x t)"
  by (auto simp: ready_def observation_file_def OBSERVATIONS_def update_conv' simp del: lit_simps split: option.splits)

lemma ready_parent: "ready t \<Longrightarrow> parent_ok t (observation_file oid)"
  by (auto simp: ready_def parent_ok_def observation_file_def OBSERVATIONS_def is_dir_def simp del: lit_simps)

lemma ready_agree: "ready t \<Longrightarrow> captures_agree (Some t) (Some (node_put (observation_file oid) x t))"
  by (auto simp: captures_agree_def ready_def safe_directory_def entry_at_def observation_file_def OBSERVATIONS_def update_conv'
      simp del: lit_simps split: option.splits)

lemma ensure_store_agree:
  assumes "ensure_store links s = (s', Inr t)" "safe_directory s" shows "captures_agree s (Some t)"
proof -
  obtain m cs where s: "s = Some (Dir m cs)" using assms(2) by (auto simp: safe_directory_def split: option.splits node.splits)
  with assms(1) show ?thesis
    by (auto simp: ensure_store_def ensure_observations_def Let_def ready_put captures_agree_def safe_directory_def entry_at_def update_conv'
        simp del: lit_simps split: option.splits node.splits)
qed

lemma text_of_ascii: assumes "ascii_text t" shows "text_of (utf8_encode t) = Some t"
proof -
  have "is_scalar c" if "c \<in> set t" for c using assms that by (auto simp: ascii_text_def is_scalar_def)
  then show ?thesis using utf8_strict_encode [of t] by (simp add: text_of_def list_all_iff)
qed

lemma loaded_written:
  assumes "json_ok (JObj kvs)"
  shows "loaded (Some (utf8_encode (dumps_lay indented True (JObj kvs) @ [10]))) = Inr (sort_keys (JObj kvs))"
  using text_of_ascii [of "dumps_lay indented True (JObj kvs) @ [10]"] indent2.ascii_dumps [OF assms]
    indent2.loads_layout [OF assms, of "[10]" True] by (simp add: loaded_def json_text_def blank_def is_ws_def)

lemma read_stored:
  assumes "ready t" "observation_id_ok oid" "node_get t (observation_file oid) = Some (File m b)" "loaded (Some b) = Inr (JObj kvs)"
  shows "read_observation links schema oid (Some t) = (Some t, validated schema kvs)"
  using assms by (simp add: read_observation_def ensure_store_done entry_exists_def regular_content_def unreadable_as_def)

lemma id_ok: "observation_id_of v = Inr oid \<Longrightarrow> observation_id_ok oid"
  using hex_digits_ok by (auto simp: observation_id_of_def observation_id_ok_def length_lit split: if_splits)

lemma bounded_text_Inr: "bounded_text v = Inr t \<longleftrightarrow> v = JStr t \<and> t \<noteq> [] \<and> length t \<le> 512"
  by (auto simp: bounded_text_def split: json.splits)

lemma hex_digest_Inr: "hex_digest v = Inr t \<longleftrightarrow> v = JStr t \<and> length t = 64 \<and> list_all is_hex t"
  by (auto simp: hex_digest_def split: json.splits if_splits)

lemma object_member_Inr: "object_member kvs k msg = Inr m \<longleftrightarrow> get kvs k = JObj m"
  by (auto simp: object_member_def split: json.splits)

lemma hex_scalar: "list_all is_hex t \<Longrightarrow> list_all is_scalar t"
  by (auto simp: list_all_iff is_hex_def is_digit_def is_scalar_def)

lemma get_ok: "json_ok (JObj kvs) \<Longrightarrow> json_ok (get kvs k)"
  by (auto simp: get_def jget_def pairs_ok_iff split: option.splits dest!: map_of_SomeD)

definition summary_ok :: "capture_summary \<Rightarrow> bool" where
  "summary_ok c \<longleftrightarrow> list_all is_scalar (cm_capture_id c) \<and> list_all is_scalar (cm_manifest_sha256 c) \<and>
     list_all is_hex (snd (cm_stdout c)) \<and> list_all is_hex (snd (cm_stderr c))"

lemma capture_metadata_ok: "capture_metadata s cid = Inr c \<Longrightarrow> list_all is_scalar cid \<Longrightarrow> summary_ok c"
  by (auto simp: capture_metadata_def summary_ok_def stream_metadata_def bind_r_Inr_iff hex_digest_Inr simp del: lit_simps
      split: option.splits if_splits)

lemma capture_metadata_safe: "capture_metadata s cid = Inr c \<Longrightarrow> safe_directory s"
  by (auto simp: capture_metadata_def inspect_capture_def resolve_capture_def unresolved_def authorized_manifest_def load_manifest_def
      bind_r_Inr_iff split: if_splits option.splits)

lemma members_ok:
  assumes "json_ok (JObj md)" "summary_ok c" "checked_metadata c md = Inr (src, ivc, res)"
  shows "json_ok (JObj src)" "json_ok (JObj ivc)" "json_ok (JObj res)"
proof -
  from assms(3) obtain s v r where m: "get md ''source'' = JObj s" "get md ''invocation'' = JObj v" "get md ''result'' = JObj r"
    and x: "source_members s = Inr src" "invocation_members v = Inr ivc" "result_members c r = Inr res"
    by (auto simp: checked_metadata_def bind_r_Inr_iff object_member_Inr)
  have ok: "json_ok (JObj s)" "json_ok (JObj v)" "json_ok (JObj r)" using get_ok [OF assms(1)] m by metis+
  have scalars: "get kvs k = JStr t \<Longrightarrow> json_ok (JObj kvs) \<Longrightarrow> list_all is_scalar t" for kvs k t using get_ok [of kvs k] by simp
  show "json_ok (JObj src)" using x(1) scalars [OF _ ok(1)]
    by (auto simp: source_members_def bind_r_Inr_iff bounded_text_Inr lit_eq_iff simp del: lit_simps)
  show "json_ok (JObj ivc)" using x(2) scalars [OF _ ok(2)]
    by (auto simp: invocation_members_def bind_r_Inr_iff bounded_text_Inr hex_digest_Inr lit_eq_iff simp del: lit_simps)
  show "json_ok (JObj res)" using x(3) get_ok [OF ok(3)] assms(2)
    by (auto simp: result_members_def natural_member_def bind_r_Inr_iff lit_eq_iff artifact_ref_def summary_ok_def hex_scalar
        simp del: lit_simps split: if_splits option.splits)
qed

lemma record_of_ok:
  assumes "json_ok (JObj md)" "summary_ok c" "checked_metadata c md = Inr (src, ivc, res)" "list_all is_scalar oid" "list_all is_scalar now"
  shows "json_ok (JObj (record_of c oid now src ivc res))"
  using assms(2,4,5) members_ok [OF assms(1-3)]
  by (simp add: record_of_def cm_capture_ref_def summary_ok_def lit_eq_iff del: lit_simps)

lemma id_scalar: "observation_id_of v = Inr oid \<Longrightarrow> list_all is_scalar oid"
  by (auto simp: observation_id_of_def simp del: lit_simps split: if_splits)

text \<open>Equality of documents ignores the order of keys.\<close>

lemma py_eq_pairs_iff: "py_eq_pairs xs ys \<longleftrightarrow> (\<forall>(k, v) \<in> set xs. \<exists>w. map_of ys k = Some w \<and> py_eq v w)"
  by (induction xs) (auto split: option.splits)

lemma py_eq_items_iff: "py_eq_items xs ys \<longleftrightarrow> list_all2 py_eq xs ys"
  by (induction xs arbitrary: ys) (auto split: list.splits simp: list_all2_Cons1)

lemma sort_pairs_map: "sort_pairs kvs = map (\<lambda>(k, v). (k, sort_keys v)) kvs"
  by (induction kvs) auto

lemma sort_items_map: "sort_items xs = map sort_keys xs"
  by (induction xs) auto

lemma py_eq_sorted: "json_ok v \<Longrightarrow> py_eq (sort_keys v) v"
proof (induction v)
  case (JArr xs)
  then show ?case by (auto simp: py_eq_items_iff sort_items_map list_all2_map1 items_ok_iff intro: list.rel_refl_strong)
next
  case (JObj kvs)
  have d: "distinct (map fst kvs)" using JObj by simp
  have "py_eq (sort_keys v) v" if "(k, v) \<in> set kvs" for k v using JObj that by (fastforce simp: pairs_ok_iff)
  moreover have "\<exists>v. (k, v) \<in> set kvs \<and> w = sort_keys v" if "(k, w) \<in> set (sort_pairs kvs)" for k w
    using that unfolding sort_pairs_map by auto
  moreover have "length (sort_pairs kvs) = length kvs" using arg_cong [OF sort_pairs_keys [of kvs], of length] by simp
  ultimately show ?case using map_of_is_SomeI [OF d] by (fastforce simp: py_eq_pairs_iff)
qed (simp_all add: number_of_def)

lemma sort_pairs_filter: "sort_pairs (filter (\<lambda>(k, v). P k) kvs) = filter (\<lambda>(k, v). P k) (sort_pairs kvs)"
  by (induction kvs) auto

lemma without_sorted: "JObj (without k (sort_key fst (sort_pairs kvs))) = sort_keys (JObj (without k kvs))"
  by (simp add: without_def sort_pairs_filter filter_sort)

lemma without_ok: "json_ok (JObj kvs) \<Longrightarrow> json_ok (JObj (without k kvs))"
  by (auto simp: without_def pairs_ok_iff distinct_map_filter case_prod_beta intro: distinct_map_filter)

lemma without_time: "without ''created_at'' (record_of c oid t src ivc res) = without ''created_at'' (record_of c oid u src ivc res)"
  by (simp add: without_def record_of_def lit_eq_iff del: lit_simps)

lemma get_time: "jget (record_of c oid t src ivc res) ''created_at'' = Some (JStr t)"
  by (simp add: jget_def record_of_def lit_eq_iff del: lit_simps)

lemma same_time:
  assumes "json_ok (JObj (record_of c oid t src ivc res))"
    "py_eq (sort_keys (JObj (record_of c oid t src ivc res))) (JObj (record_of c oid u src ivc res))"
  shows "t = u"
proof -
  let ?r = "record_of c oid t src ivc res"
  have d: "distinct (map fst ?r)" using assms(1) by simp
  have "map_of (sort_key fst (sort_pairs ?r)) (lit ''created_at'') = Some (JStr t)"
    using jget_sorted [OF d, of "''created_at''"] get_time [of c oid t src ivc res] by (simp add: jget_def del: lit_simps)
  then have "(lit ''created_at'', JStr t) \<in> set (sort_key fst (sort_pairs ?r))" by (rule map_of_SomeD)
  then obtain w where "map_of (record_of c oid u src ivc res) (lit ''created_at'') = Some w" "py_eq (JStr t) w"
    using assms(2) by (auto simp: py_eq_pairs_iff simp del: lit_simps set_sort)
  with get_time [of c oid u src ivc res] show ?thesis by (auto simp: jget_def number_of_def simp del: lit_simps)
qed

lemma ensured_file:
  assumes "ensure_store links s = (s', Inr t)" "safe_directory s"
  shows "node_get t (observation_file oid) = entry_at s (observation_file oid)"
proof -
  obtain m cs where s: "s = Some (Dir m cs)" using assms(2) by (auto simp: safe_directory_def split: option.splits node.splits)
  with assms(1) show ?thesis
    by (auto simp: ensure_store_def ensure_observations_def Let_def node_get_observations ready_put entry_at_def update_conv' observation_file_def
        OBSERVATIONS_def simp del: lit_simps split: option.splits node.splits)
qed

lemma record_of_id:
  "jget (record_of c oid t src ivc res) ''observation_id'' = Some (JStr oid)" "named_id (record_of c oid t src ivc res) = Inr oid"
  by (simp_all add: named_id_def jget_def record_of_def lit_eq_iff del: lit_simps)

text \<open>A record that compares equal to the stored one, but for its time, has the same id.\<close>

lemma same_id:
  assumes "py_eq (JObj (without ''created_at'' kvs)) (JObj (without ''created_at'' (record_of c oid' t src ivc res)))"
    and "jget kvs ''observation_id'' = Some (JStr oid)"
  shows "oid = oid'"
proof -
  let ?r = "record_of c oid' t src ivc res"
  have "(lit ''observation_id'', JStr oid) \<in> set (without ''created_at'' kvs)"
    using assms(2) by (auto simp: jget_def without_def lit_eq_iff simp del: lit_simps dest: map_of_SomeD)
  then obtain w where "map_of (without ''created_at'' ?r) (lit ''observation_id'') = Some w" "py_eq (JStr oid) w"
    using assms(1) by (auto simp: py_eq_pairs_iff simp del: lit_simps)
  moreover have "map_of (without ''created_at'' ?r) (lit ''observation_id'') = Some (JStr oid')"
    by (simp add: without_def record_of_def lit_eq_iff del: lit_simps)
  ultimately show ?thesis by (simp add: number_of_def)
qed

lemma observation_recordD:
  assumes "bind_r (capture_metadata s cid) (\<lambda>c. observation_record schema c md now) = Inr rec"
  obtains c src ivc res oid where "capture_metadata s cid = Inr c" "checked_metadata c md = Inr (src, ivc, res)"
    "observation_id_of (observation_identity c src ivc res) = Inr oid" "rec = record_of c oid now src ivc res" "schema rec = None"
  using assms unfolding observation_record_def validated_def by (auto simp: bind_r_Inr_iff split: option.splits prod.splits)

text \<open>Whatever record is returned under an id that was free before, its file is there afterwards.\<close>

lemma ingest_named:
  assumes ing: "ingest_observation links schema now cid md s = (s', Inr rec)"
    and oid: "jget rec ''observation_id'' = Some (JStr oid)" and free: "entry_at s (observation_file oid) = None"
  shows "entry_at s' (observation_file oid) \<noteq> None"
proof -
  from ing obtain rec' where w: "bind_r (capture_metadata s cid) (\<lambda>c. observation_record schema c md now) = Inr rec'"
    "write_immutable links schema rec' s = (s', Inr rec)"
    unfolding ingest_observation_def by (elim bind_s_InrE) auto
  from w(1) obtain c src ivc res oid' where c: "capture_metadata s cid = Inr c"
    "observation_id_of (observation_identity c src ivc res) = Inr oid'" "rec' = record_of c oid' now src ivc res" by (rule observation_recordD)
  obtain t0 where e: "ensure_store links s = (Some t0, Inr t0)"
    using w(2) unfolding write_immutable_def by (elim bind_s_InrE) (metis ensure_store_tree)
  have id: "named_id rec' = Inr oid'" "observation_id_ok oid'" using record_of_id(2) id_ok [OF c(2)] c(3) by simp_all
  have get0: "node_get t0 (observation_file oid) = None" using ensured_file [OF e capture_metadata_safe [OF c(1)]] free by simp
  show ?thesis
  proof (cases "entry_exists links t0 (observation_file oid')")
    case True
    then obtain existing where "stored_record schema rec' existing = Inr rec"
      using w(2) id unfolding write_immutable_def e by (auto simp: bind_r_Inr_iff split: if_splits)
    then have "rec = rec' \<or> (\<exists>kvs. rec = kvs \<and> py_eq (JObj (without ''created_at'' kvs)) (JObj (without ''created_at'' rec')))"
      by (auto simp: stored_record_def validated_def split: if_splits json.splits option.splits)
    then have "oid = oid'" using oid record_of_id(1) same_id unfolding c(3) by (metis json.inject(4) option.inject)
    with True get0 show ?thesis by (simp add: entry_exists_def)
  next
    case False
    then have put: "rec = rec'" "s' = Some (node_put (observation_file oid') (File PRIVATE_FILE (utf8_encode (dumps_lay indented True (JObj rec') @ [10]))) t0)"
      using w(2) id unfolding write_immutable_def e by (auto split: if_splits)
    have "oid = oid'" using oid record_of_id(1) unfolding put(1) c(3) by (metis json.inject(4) option.inject)
    then show ?thesis using node_put_get_same [OF ready_parent [OF ensure_store_ready [OF e]]] by (simp add: put(2) entry_at_def)
  qed
qed

lemma map_sort_key: assumes "\<And>x. f (g x) = f x" shows "map g (sort_key f xs) = sort_key f (map g xs)"
proof -
  have "map g (insort_key f x ys) = insort_key f (g x) (map g ys)" for x ys by (induction ys) (auto simp: assms)
  then show ?thesis by (induction xs) (auto simp: sort_key_def)
qed

lemma sort_keys_twice: "json_ok v \<Longrightarrow> sort_keys (sort_keys v) = sort_keys v"
proof (induction v)
  case (JArr xs)
  then show ?case by (simp add: sort_items_map items_ok_iff)
next
  case (JObj kvs)
  have "sort_keys (sort_keys v) = sort_keys v" if "(k, v) \<in> set kvs" for k v using JObj that by (fastforce simp: pairs_ok_iff)
  then have "map (\<lambda>(k, v). (k, sort_keys v)) (sort_pairs kvs) = sort_pairs kvs" by (auto simp: sort_pairs_map)
  moreover have "map (\<lambda>(k, v). (k, sort_keys v)) (sort_key fst ps) = sort_key fst (map (\<lambda>(k, v). (k, sort_keys v)) ps)" for ps :: jdict
    by (rule map_sort_key) auto
  ultimately have "sort_pairs (sort_key fst (sort_pairs kvs)) = sort_key fst (sort_pairs kvs)" by (simp add: sort_pairs_map [of "sort_key fst _"])
  then show ?case by (simp add: sort_key_id_if_sorted)
qed simp_all

context record_schema
begin

lemma ingest_fresh:
  assumes ing: "ingest_observation links schema now cid md s = (s', Inr rec)" 
    and new: "entry_at s (observation_file oid) = None" "entry_at s' (observation_file oid) \<noteq> None"
    and ok: "json_ok (JObj md)" "list_all is_scalar cid" "list_all is_scalar now"
  obtains c src ivc res t where "capture_metadata s cid = Inr c" "checked_metadata c md = Inr (src, ivc, res)"
    "observation_id_of (observation_identity c src ivc res) = Inr oid" "rec = record_of c oid now src ivc res" "json_ok (JObj rec)"
    "schema rec = None" "summary_ok c" "s' = Some t" "ready t" "captures_agree s s'" "observation_id_ok oid"
    "node_get t (observation_file oid) = Some (File PRIVATE_FILE (utf8_encode (dumps_lay indented True (JObj rec) @ [10])))"
proof -
  from ing obtain rec' where w: "bind_r (capture_metadata s cid) (\<lambda>c. observation_record schema c md now) = Inr rec'"
    "write_immutable links schema rec' s = (s', Inr rec)"
    unfolding ingest_observation_def by (elim bind_s_InrE) auto
  from w(1) obtain c src ivc res oid' where c: "capture_metadata s cid = Inr c" "checked_metadata c md = Inr (src, ivc, res)"
    "observation_id_of (observation_identity c src ivc res) = Inr oid'" "rec' = record_of c oid' now src ivc res" "schema rec' = None"
    by (rule observation_recordD)
  have i: "named_id rec' = Inr oid'" by (simp add: c(4) record_of_id(2))
  have so: "summary_ok c" using capture_metadata_ok [OF c(1) ok(2)] .
  have ok': "json_ok (JObj rec')" unfolding c(4) using record_of_ok [OF ok(1) so c(2) id_scalar [OF c(3)] ok(3)] .
  obtain t0 where e: "ensure_store links s = (Some t0, Inr t0)"
    using w(2) unfolding write_immutable_def by (elim bind_s_InrE) (metis ensure_store_tree)
  note safe = capture_metadata_safe [OF c(1)]
  have get0: "node_get t0 (observation_file oid) = None" using ensured_file [OF e safe] new(1) by simp
  let ?put = "\<lambda>f. node_put f (File PRIVATE_FILE (utf8_encode (dumps_lay indented True (JObj rec') @ [10]))) t0"
  have "\<not> entry_exists links t0 (observation_file oid')"
    using w(2) id_ok [OF c(3)] json_ok_finite [OF ok'] new(2) get0 i unfolding write_immutable_def e by (auto simp: entry_at_def)
  then have put: "rec = rec'" "s' = Some (?put (observation_file oid'))"
    using w(2) id_ok [OF c(3)] json_ok_finite [OF ok'] i unfolding write_immutable_def e by auto
  have same: "oid = oid'"
  proof (rule ccontr)
    assume "oid \<noteq> oid'"
    then have "node_get (?put (observation_file oid')) (observation_file oid) = node_get t0 (observation_file oid)"
      by (intro node_put_get_other) (auto simp: observation_file_def OBSERVATIONS_def simp del: lit_simps)
    with new(2) get0 show False by (simp add: put(2) entry_at_def)
  qed
  note rd = ensure_store_ready [OF e]
  have agree: "captures_agree s s'"
    using ensure_store_agree [OF e safe] ready_agree [OF rd, of oid'] unfolding put(2) captures_agree_def by auto
  show ?thesis
    using that [of c src ivc res "?put (observation_file oid')"] c so ok' agree put ready_put_file [OF rd] node_put_get_same [OF ready_parent [OF rd]]
      id_ok [OF c(3)] by (simp add: same del: utf8_encode_simps)
qed

lemma ingested_reads_back:
  assumes ing: "ingest_observation links schema now cid md s = (s', Inr rec)"
    and new: "entry_at s (observation_file oid) = None" "entry_at s' (observation_file oid) \<noteq> None"
    and ok: "json_ok (JObj md)" "list_all is_scalar cid" "list_all is_scalar now"
  shows "\<exists>kvs. read_observation links' schema oid s' = (s', Inr kvs) \<and> JObj kvs = sort_keys (JObj rec)"
proof (rule ingest_fresh [OF assms])
  fix t assume t: "s' = Some t" "ready t" "observation_id_ok oid" and r: "json_ok (JObj rec)" "schema rec = None"
    and f: "node_get t (observation_file oid) = Some (File PRIVATE_FILE (utf8_encode (dumps_lay indented True (JObj rec) @ [10])))"
  have "read_observation links' schema oid s' = (s', validated schema (sort_key fst (sort_pairs rec)))"
    unfolding t(1) by (rule read_stored [OF t(2,3) f]) (use loaded_written [OF r(1)] in \<open>simp del: utf8_encode_simps\<close>)
  then show ?thesis using order_blind [OF r] by (simp add: validated_def)
qed

lemma ingested_again:
  assumes ing: "ingest_observation links schema now cid md s = (s', Inr rec)"
    and new: "entry_at s (observation_file oid) = None" "entry_at s' (observation_file oid) \<noteq> None"
    and ok: "json_ok (JObj md)" "list_all is_scalar cid" "list_all is_scalar now" and later: "u \<noteq> []" "list_all is_scalar u"
  shows "\<exists>kvs. ingest_observation links' schema u cid md s' = (s', Inr kvs) \<and> sort_keys (JObj kvs) = sort_keys (JObj rec)"
proof (rule ingest_fresh [OF ing new ok])
  fix c src ivc res t
  assume c: "capture_metadata s cid = Inr c" "checked_metadata c md = Inr (src, ivc, res)"
    "observation_id_of (observation_identity c src ivc res) = Inr oid" "summary_ok c" "captures_agree s s'"
    and rec: "rec = record_of c oid now src ivc res" "json_ok (JObj rec)" "schema rec = None"
    and t: "s' = Some t" "ready t" "observation_id_ok oid"
    and f: "node_get t (observation_file oid) = Some (File PRIVATE_FILE (utf8_encode (dumps_lay indented True (JObj rec) @ [10])))"
  let ?rec = "record_of c oid u src ivc res"
  have u: "schema ?rec = None" using time_blind [OF later(1)] rec(3) unfolding rec(1) record_of_def by blast
  have ok': "json_ok (JObj ?rec)" by (rule record_of_ok [OF ok(1) c(4,2) id_scalar [OF c(3)] later(2)])
  have "observation_record schema c md u = Inr ?rec" using c(2,3) u by (simp add: observation_record_def validated_def)
  then have w: "ingest_observation links' schema u cid md s' = write_immutable links' schema ?rec s'"
    using c(1) metadata_agree [OF c(5)] by (simp add: ingest_observation_def)
  have "write_immutable links' schema ?rec s' = (s', stored_record schema ?rec (sort_keys (JObj rec)))"
    using t f ensure_store_done [OF t(2)] json_ok_finite [OF ok'] loaded_written [OF rec(2)]
    by (simp add: write_immutable_def record_of_id(2) entry_exists_def regular_content_def del: utf8_encode_simps)
  moreover have "\<exists>kvs. stored_record schema ?rec (sort_keys (JObj rec)) = Inr kvs \<and> sort_keys (JObj kvs) = sort_keys (JObj rec)"
  proof (cases "py_eq (sort_keys (JObj rec)) (JObj ?rec)")
    case True
    then have "?rec = rec" using same_time rec(1,2) by blast
    with True show ?thesis by (simp add: stored_record_def)
  next
    case False
    have "py_eq (JObj (without ''created_at'' (sort_key fst (sort_pairs rec)))) (JObj (without ''created_at'' ?rec))"
      unfolding without_sorted without_time [of c oid u src ivc res now] rec(1) [symmetric] by (rule py_eq_sorted [OF without_ok [OF rec(2)]])
    with False show ?thesis using order_blind [OF rec(2,3)] sort_keys_twice [OF rec(2)] by (auto simp: stored_record_def validated_def)
  qed
  ultimately show ?thesis using w by auto
qed

end

text \<open>
  C37.  An observation round-trips through the store: when \<open>ingest_observation\<close> returns a record under an id for
  which the spool had no file, \<open>read_observation\<close> of the id that the record names returns this record, up
  to the order of keys, and reading leaves the spool as it is.  The metadata are JSON values without
  floats, and the capture id and the time can be encoded.
\<close>

theorem observation_reads_back:
  assumes "ingest_observation links (shipped_schema msg) now cid metadata s = (s', Inr rec)"
    and "jget rec ''observation_id'' = Some (JStr oid)" "entry_at s (observation_file oid) = None"
    and "json_ok (JObj metadata)" "list_all is_scalar cid" "list_all is_scalar now"
  shows "\<exists>kvs. read_observation links' (shipped_schema msg) oid s' = (s', Inr kvs) \<and> JObj kvs = sort_keys (JObj rec)"
  using shipped.ingested_reads_back [OF assms(1,3) ingest_named [OF assms(1-3)] assms(4-6)] .

text \<open>
  C38.  Ingesting is idempotent: ingesting the same metadata about the same capture again, at whatever time, changes
  nothing in the spool and returns the record stored first, with its time.
\<close>

theorem observation_ingested_once:
  assumes "ingest_observation links (shipped_schema msg) now cid metadata s = (s', Inr rec)"
    and "entry_at s (observation_file oid) = None" "entry_at s' (observation_file oid) \<noteq> None"
    and "json_ok (JObj metadata)" "list_all is_scalar cid" "list_all is_scalar now" "later \<noteq> []" "list_all is_scalar later"
  shows "\<exists>kvs. ingest_observation links' (shipped_schema msg) later cid metadata s' = (s', Inr kvs) \<and>
    sort_keys (JObj kvs) = sort_keys (JObj rec)"
  using assms by (rule shipped.ingested_again)

section \<open>Imported captures\<close>

lemma json_load_line:
  assumes "json_ok (JObj kvs)" "kvs \<noteq> []"
  shows "json_load (utf8_encode (dumps_lay one_line True (JObj kvs) @ [10])) = Inr (sort_keys (JObj kvs))"
proof -
  let ?t = "dumps_lay one_line True (JObj kvs) @ [10]"
  have ne: "sort_key fst (sort_pairs kvs) \<noteq> []" using assms(2) by (metis length_0_conv length_sort sort_pairs_length)
  obtain r where "lay_pairs one_line True 0 (sort_key fst (sort_pairs kvs)) = 34 # r" using lay_pairs_head [OF ne] by blast
  then have "?t = 123 # 34 # r @ [10]" using ne by (simp add: dumps_lay_def one_line_def)
  moreover have "ascii_text ?t" using spaced.ascii_dumps [OF assms(1)] by simp
  ultimately have "decode_bytes (utf8_encode ?t) = Some ?t" by (intro decode_ascii) simp_all
  moreover have "loads ?t = Inr (sort_keys (JObj kvs))" using spaced.loads_layout [OF assms(1), of "[10]" True] by (simp add: blank_def is_ws_def)
  ultimately show ?thesis by (simp add: json_load_def del: utf8_encode_simps)
qed

definition import_paths :: "node \<Rightarrow> pystr \<Rightarrow> node \<Rightarrow> bool" where
  "import_paths t cid dir \<longleftrightarrow> (\<exists>m cs m' ds. t = Dir m cs \<and> map_of cs (lit ''captures'') = Some (Dir m' ds) \<and> map_of ds cid = Some dir)"

lemma import_paths_get:
  assumes "import_paths t cid dir"
  shows "node_get t (lit ''captures'' # cid # p) = node_get dir p" "safe_directory (Some t)" "safe_directory (node_get t [lit ''captures''])"
  using assms by (auto simp: import_paths_def safe_directory_def simp del: lit_simps split: option.splits)

lemma import_id:
  assumes "cid = lit ''import-'' @ u" "list_all is_hex u"
  shows "valid_capture_id cid" "os_name cid" "list_all is_scalar cid"
  using assms hex_scalar [OF assms(2)] by (auto simp: valid_capture_id_def os_name_def list_all_iff is_hex_def is_digit_def is_scalar_def)

lemma import_resolves:
  assumes p: "import_paths t cid (import_dir cid code out err)" and cid: "valid_capture_id cid" "os_name cid"
    and ok: "json_ok (JObj (import_manifest cid code out err))"
  shows "resolve_capture (Some t) cid = Inr (finalized_at cid)"
    and "authorized_manifest (Some t) (finalized_at cid) None = Inr (AVAILABLE, Some (sort_key fst (sort_pairs (import_manifest cid code out err))), None)"
proof -
  note g = import_paths_get [OF p]
  have d: "node_get t [lit ''captures'', cid] = Some (import_dir cid code out err)" using g(1) [of "[]"] by simp
  then show "resolve_capture (Some t) cid = Inr (finalized_at cid)" using g(2,3) cid
    by (auto simp: resolve_capture_def finalized_at_def import_dir_def safe_directory_def simp del: lit_simps split: option.splits node.splits)
  have "node_get t [lit ''captures'', cid, lit ''manifest.json''] =
      Some (File PRIVATE_FILE (utf8_encode (dumps_lay one_line True (JObj (import_manifest cid code out err)) @ [10])))"
    unfolding g(1) import_dir_def by (simp add: lit_eq_iff del: lit_simps utf8_encode_simps)
  moreover have "import_manifest cid code out err \<noteq> []" by (simp add: import_manifest_def)
  ultimately show "authorized_manifest (Some t) (finalized_at cid) None =
      Inr (AVAILABLE, Some (sort_key fst (sort_pairs (import_manifest cid code out err))), None)"
    using json_load_line [OF ok] by (simp add: authorized_manifest_def authorize_workspace_def load_manifest_def finalized_at_def entry_at_def
        del: lit_simps utf8_encode_simps)
qed

lemma import_fields:
  "jget (import_manifest cid code out err) ''streams'' = Some (JObj [(lit ''stdout'', import_stream out), (lit ''stderr'', import_stream err)])"
  "jget (import_manifest cid code out err) ''event_index'' = Some (JObj [(lit ''events'', JInt 0), (lit ''sha256'', JStr (lit (sha256_hex [])))])"
  "jget (import_manifest cid code out err) ''capture_status'' = Some (JStr (lit ''COMPLETE''))"
  by (simp_all add: import_manifest_def jget_def lit_eq_iff del: lit_simps)

lemma import_streams_sorted:
  "sort_keys (JObj [(lit ''stdout'', import_stream out), (lit ''stderr'', import_stream err)]) =
     JObj [(lit ''stderr'', import_stream err), (lit ''stdout'', import_stream out)]"
  "sort_keys (JObj [(lit ''events'', JInt 0), (lit ''sha256'', JStr (lit (sha256_hex [])))]) =
     JObj [(lit ''events'', JInt 0), (lit ''sha256'', JStr (lit (sha256_hex [])))]"
  by (simp_all add: import_stream_def)

lemma import_sorted_fields:
  assumes "json_ok (JObj (import_manifest cid code out err))"
  shows "jget (sort_key fst (sort_pairs (import_manifest cid code out err))) ''streams'' =
      Some (JObj [(lit ''stderr'', import_stream err), (lit ''stdout'', import_stream out)])"
    "jget (sort_key fst (sort_pairs (import_manifest cid code out err))) ''event_index'' =
      Some (JObj [(lit ''events'', JInt 0), (lit ''sha256'', JStr (lit (sha256_hex [])))])"
    "jget (sort_key fst (sort_pairs (import_manifest cid code out err))) ''capture_status'' = Some (JStr (lit ''COMPLETE''))"
proof -
  have d: "distinct (map fst (import_manifest cid code out err))" using assms by simp
  show "jget (sort_key fst (sort_pairs (import_manifest cid code out err))) ''streams'' =
      Some (JObj [(lit ''stderr'', import_stream err), (lit ''stdout'', import_stream out)])"
    "jget (sort_key fst (sort_pairs (import_manifest cid code out err))) ''event_index'' =
      Some (JObj [(lit ''events'', JInt 0), (lit ''sha256'', JStr (lit (sha256_hex [])))])"
    "jget (sort_key fst (sort_pairs (import_manifest cid code out err))) ''capture_status'' = Some (JStr (lit ''COMPLETE''))"
    unfolding jget_sorted [OF d] import_fields by (simp_all only: option.map import_streams_sorted sort_keys.simps(3,4,5,6,7))
qed

lemma import_digests:
  "nested_digest [(lit ''stderr'', import_stream err), (lit ''stdout'', import_stream out)] ''stdout'' = Some (JStr (lit (sha256_hex out)))"
  "nested_digest [(lit ''stderr'', import_stream err), (lit ''stdout'', import_stream out)] ''stderr'' = Some (JStr (lit (sha256_hex err)))"
  "jget [(lit ''events'', JInt 0), (lit ''sha256'', JStr (lit (sha256_hex [])))] ''sha256'' = Some (JStr (lit (sha256_hex [])))"
  by (simp_all add: nested_digest_def jget_def import_stream_def lit_eq_iff del: lit_simps)

lemma import_files:
  assumes "import_paths t cid (import_dir cid code out err)"
  shows "entry_at (Some t) (raw_path cid (lit ''stdout'')) = Some (File PRIVATE_FILE out)"
    "entry_at (Some t) (raw_path cid (lit ''stderr'')) = Some (File PRIVATE_FILE err)"
    "entry_at (Some t) [lit ''captures'', cid, lit ''events.ndjson''] = Some (File PRIVATE_FILE [])"
    "entry_at (Some t) [lit ''captures'', cid, lit ''manifest.json''] =
       Some (File PRIVATE_FILE (utf8_encode (dumps_lay one_line True (JObj (import_manifest cid code out err)) @ [10])))"
proof -
  have l: "lit ''stdout'' @ lit ''.raw'' = lit ''stdout.raw''" "lit ''stderr'' @ lit ''.raw'' = lit ''stderr.raw''" by simp_all
  show "entry_at (Some t) (raw_path cid (lit ''stdout'')) = Some (File PRIVATE_FILE out)"
    "entry_at (Some t) (raw_path cid (lit ''stderr'')) = Some (File PRIVATE_FILE err)"
    "entry_at (Some t) [lit ''captures'', cid, lit ''events.ndjson''] = Some (File PRIVATE_FILE [])"
    "entry_at (Some t) [lit ''captures'', cid, lit ''manifest.json''] =
       Some (File PRIVATE_FILE (utf8_encode (dumps_lay one_line True (JObj (import_manifest cid code out err)) @ [10])))"
    unfolding entry_at_def option.case raw_path_def append_Cons append_Nil l import_paths_get(1) [OF assms] import_dir_def
    by (simp_all add: lit_eq_iff del: lit_simps utf8_encode_simps)
qed

lemma import_verifies:
  assumes p: "import_paths t cid (import_dir cid code out err)" and cid: "valid_capture_id cid" "os_name cid"
    and ok: "json_ok (JObj (import_manifest cid code out err))"
  shows "\<exists>v. verify_capture (Some t) cid None = Inr v \<and> vr_status v = AVAILABLE"
    and "\<exists>i. inspect_capture (Some t) cid None = Inr i \<and> ir_status i = AVAILABLE \<and>
      ir_manifest i = Some (sort_key fst (sort_pairs (import_manifest cid code out err)))"
proof -
  note r = import_resolves [OF assms] and f = import_sorted_fields [OF ok] and e = import_files [OF p]
  have "digest_holds (Some t) (raw_path cid (lit ''stdout'')) (Some (JStr (lit (sha256_hex out))))"
    "digest_holds (Some t) (raw_path cid (lit ''stderr'')) (Some (JStr (lit (sha256_hex err))))"
    "digest_holds (Some t) [lit ''captures'', cid, lit ''events.ndjson''] (Some (JStr (lit (sha256_hex []))))"
    using e by (auto intro!: digest_holdsI simp del: lit_simps)
  note held = this
  obtain v where "verify_capture (Some t) cid None = Inr v" "vr_status v = AVAILABLE"
    by (rule verify_capture_manifest [OF r f(1,2), unfolded import_digests]) (simp only: held simp_thms if_True)
  then show "\<exists>v. verify_capture (Some t) cid None = Inr v \<and> vr_status v = AVAILABLE" by blast
  show "\<exists>i. inspect_capture (Some t) cid None = Inr i \<and> ir_status i = AVAILABLE \<and>
      ir_manifest i = Some (sort_key fst (sort_pairs (import_manifest cid code out err)))"
    using r f(3) by (simp add: inspect_capture_def)
qed

definition import_summary :: "pystr \<Rightarrow> json \<Rightarrow> bytes \<Rightarrow> bytes \<Rightarrow> capture_summary" where
  "import_summary cid code out err = \<lparr>cm_capture_id = cid,
     cm_manifest_sha256 = lit (sha256_hex (utf8_encode (dumps_lay one_line True (JObj (import_manifest cid code out err)) @ [10]))),
     cm_stdout = (JInt (int (length out)), lit (sha256_hex out)), cm_stderr = (JInt (int (length err)), lit (sha256_hex err))\<rparr>"

lemma import_stream_metadata:
  "stream_metadata [(lit ''stderr'', import_stream err), (lit ''stdout'', import_stream out)] ''stdout'' = Inr (JInt (int (length out)), lit (sha256_hex out))"
  "stream_metadata [(lit ''stderr'', import_stream err), (lit ''stdout'', import_stream out)] ''stderr'' = Inr (JInt (int (length err)), lit (sha256_hex err))"
  by (simp_all add: stream_metadata_def object_member_def natural_member_def hex_digest_def get_def jget_def import_stream_def int_like_def
      hex_digits_ok length_lit lit_eq_iff del: lit_simps)

lemma import_metadata:
  assumes p: "import_paths t cid (import_dir cid code out err)" and cid: "valid_capture_id cid" "os_name cid"
    and ok: "json_ok (JObj (import_manifest cid code out err))"
  shows "capture_metadata (Some t) cid = Inr (import_summary cid code out err)"
proof -
  obtain v i where v: "verify_capture (Some t) cid None = Inr v" "vr_status v = AVAILABLE"
    and i: "inspect_capture (Some t) cid None = Inr i" "ir_status i = AVAILABLE"
      "ir_manifest i = Some (sort_key fst (sort_pairs (import_manifest cid code out err)))"
    using import_verifies [OF assms] by blast
  have "object_member (sort_key fst (sort_pairs (import_manifest cid code out err))) ''streams'' m =
      Inr [(lit ''stderr'', import_stream err), (lit ''stdout'', import_stream out)]" for m
    using import_sorted_fields(1) [OF ok] by (simp add: object_member_def get_def del: lit_simps)
  with v i show ?thesis unfolding capture_metadata_def import_files(4) [OF p]
    by (simp add: regular_content_def import_stream_metadata import_summary_def del: lit_simps utf8_encode_simps)
qed

lemma ensured_dir: "ensure_store links s = (s', Inr t) \<Longrightarrow> \<exists>m cs. t = Dir m cs"
  using ensure_store_ready by (fastforce simp: ready_def)

lemma import_published:
  assumes "import_capture links cid stdout stderr code s = (Some t, Inr ())" "node_get t CAPTURES \<noteq> Some Symlink"
    "readable stdout = Inr out" "(case stderr of None \<Rightarrow> Inr [] | Some e \<Rightarrow> readable e) = Inr err"
  shows "import_paths t cid (import_dir cid code out err)"
proof -
  from assms(1,3,4) obtain t0 t1 where e: "ensure_store links s = (Some t0, Inr t0)" and c: "ensure_captures links t0 = (Some t1, Inr t1)"
    and p: "publish_import cid (import_dir cid code out err) t1 = (Some t, Inr ())"
    unfolding import_capture_def import_content_def
    by (elim bind_s_InrE) (auto dest!: ensure_store_tree ensure_captures_tree split: if_splits)
  obtain m cs where t0: "t0 = Dir m cs" using ensured_dir [OF e] by blast
  have "(\<exists>m cs ds m'. t1 = Dir m cs \<and> map_of cs (lit ''captures'') = Some (Dir m' ds)) \<or> node_get t1 CAPTURES = Some Symlink"
    using c by (auto simp: ensure_captures_def t0 CAPTURES_def Let_def update_conv' simp del: lit_simps split: option.splits node.splits if_splits)
  then show ?thesis
  proof
    assume "node_get t1 CAPTURES = Some Symlink"
    with p assms(2) show ?thesis by (simp add: publish_import_def)
  next
    assume "\<exists>m cs ds m'. t1 = Dir m cs \<and> map_of cs (lit ''captures'') = Some (Dir m' ds)"
    with p show ?thesis
      by (auto simp: publish_import_def CAPTURES_def import_paths_def update_conv' simp del: lit_simps
          split: option.splits node.splits list.splits if_splits)
  qed
qed

lemma write_agree:
  assumes "write_immutable links schema rec s = (s', Inr r)" "safe_directory s"
  shows "captures_agree s s'"
proof -
  obtain t where e: "ensure_store links s = (Some t, Inr t)"
    using assms(1) unfolding write_immutable_def by (elim bind_s_InrE) (metis ensure_store_tree)
  note rd = ensure_store_ready [OF e]
  have "s' = Some t \<or> (\<exists>oid x. s' = Some (node_put (observation_file oid) x t))"
    using assms(1) unfolding write_immutable_def e by (auto split: if_splits sum.splits)
  with ready_agree [OF rd] ensure_store_agree [OF e assms(2)] show ?thesis unfolding captures_agree_def by auto
qed

lemma ingest_agree:
  assumes "ingest_observation links schema now cid md s = (s', Inr r)"
  shows "\<exists>c. capture_metadata s cid = Inr c \<and> captures_agree s s'"
proof -
  from assms obtain i where i: "bind_r (capture_metadata s cid) (\<lambda>c. observation_record schema c md now) = Inr i"
    "write_immutable links schema i s = (s', Inr r)"
    unfolding ingest_observation_def by (elim bind_s_InrE) auto
  then obtain c where "capture_metadata s cid = Inr c" by (auto simp: bind_r_Inr_iff)
  with write_agree [OF i(2) capture_metadata_safe] show ?thesis by blast
qed

lemma linked_captures_refused:
  assumes "node_get t CAPTURES = Some Symlink" shows "capture_metadata (Some t) cid \<noteq> Inr c"
proof
  assume c: "capture_metadata (Some t) cid = Inr c"
  have "valid_capture_id cid \<Longrightarrow> resolve_capture (Some t) cid = Inr (unresolved DENIED cid ''symlinked spool path'')"
    using assms capture_metadata_safe [OF c]
    by (auto simp: resolve_capture_def CAPTURES_def safe_directory_def simp del: lit_simps split: node.splits)
  moreover have "\<not> valid_capture_id cid \<Longrightarrow> resolve_capture (Some t) cid = Inr (unresolved DENIED cid ''invalid capture id'')"
    by (simp add: resolve_capture_def)
  ultimately obtain d where "resolve_capture (Some t) cid = Inr (unresolved DENIED cid d)" by blast
  then show False using c by (simp add: capture_metadata_def inspect_capture_def authorized_manifest_def load_manifest_def unresolved_def)
qed

lemma import_manifest_ok:
  assumes "encodable (JObj (import_manifest cid code out err))" "code = JNull \<or> (\<exists>i. code = JInt i)" "list_all is_scalar cid"
  shows "json_ok (JObj (import_manifest cid code out err))"
  using assms by (auto simp: import_manifest_def import_stream_def lit_eq_iff simp del: lit_simps)

lemma import_content_Inr:
  assumes "import_content cid stdout stderr code = Inr dir"
  obtains out err where "readable stdout = Inr out" "(case stderr of None \<Rightarrow> Inr [] | Some e \<Rightarrow> readable e) = Inr err"
    "encodable (JObj (import_manifest cid code out err))"
  using assms by (auto simp: import_content_def bind_r_Inr_iff split: if_splits)

lemma import_paths_agree:
  assumes "import_paths t cid dir" "captures_agree (Some t) (Some t')" shows "import_paths t' cid dir"
proof -
  obtain m cs m' ds where t: "t = Dir m cs" "map_of cs (lit ''captures'') = Some (Dir m' ds)" "map_of ds cid = Some dir"
    using assms(1) by (auto simp: import_paths_def)
  obtain k es where t': "t' = Dir k es" using assms(2) by (auto simp: captures_agree_def safe_directory_def split: node.splits)
  have "node_get t' [lit ''captures''] = node_get t [lit ''captures'']"
    using captures_agreeD [OF assms(2), of "lit ''captures''" "[]"] by (simp add: entry_at_def)
  then have "map_of es (lit ''captures'') = Some (Dir m' ds)" using t(2) by (simp add: t(1) t' del: lit_simps split: option.splits)
  then show ?thesis using t(3) by (simp add: import_paths_def t' del: lit_simps)
qed

lemma import_slices:
  assumes p: "import_paths t cid (import_dir cid code out err)" and cid: "valid_capture_id cid" "os_name cid"
    and ok: "json_ok (JObj (import_manifest cid code out err))" and n: "int (length out) \<le> limit" "0 < limit"
  shows "\<exists>r. slice_stream (Some t) cid (lit ''stdout'') 0 (int (length out)) limit None = Inr r \<and> sl_status r = AVAILABLE \<and> sl_data r = out"
proof -
  note r = import_resolves [OF p cid ok] and raw = import_files(1) [OF p]
  have "stream_path (Some t) (finalized_at cid) (lit ''stdout'') None = Inr (AVAILABLE, Some (raw_path cid (lit ''stdout'')), None)"
    using r(2) raw by (simp add: stream_path_def finalized_at_def raw_path_def safe_file_def)
  then show ?thesis unfolding slice_stream_def Let_def using r(1) raw n by (simp add: read_range_def del: lit_simps)
qed

text \<open>
  C39.  Imported artifacts become retrievable evidence: when \<open>import_observation\<close> returns, both external files were
  regular, the new capture verifies, a slice over its whole stdout returns the bytes of the imported file, and the
  metadata read for it carries the sizes and digests of the two files and the digest of the stored manifest.
\<close>

theorem import_observation_retrievable:
  assumes i: "import_observation links schema now cid stdout stderr metadata code s = (s', Inr rec)"
    and cid: "cid = lit ''import-'' @ u" "list_all is_hex u" and code: "code = JNull \<or> (\<exists>i. code = JInt i)"
  shows "\<exists>out err. readable stdout = Inr out \<and> (case stderr of None \<Rightarrow> Inr [] | Some e \<Rightarrow> readable e) = Inr err \<and>
    (\<exists>v. verify_capture s' cid None = Inr v \<and> vr_status v = AVAILABLE) \<and>
    (\<forall>limit. int (length out) \<le> limit \<longrightarrow> 0 < limit \<longrightarrow>
       (\<exists>r. slice_stream s' cid (lit ''stdout'') 0 (int (length out)) limit None = Inr r \<and> sl_status r = AVAILABLE \<and> sl_data r = out)) \<and>
    capture_metadata s' cid = Inr (import_summary cid code out err)"
proof -
  from i obtain s1 where imp: "import_capture links cid stdout stderr code s = (s1, Inr ())"
    and ing: "ingest_observation links schema now cid metadata s1 = (s', Inr rec)"
    unfolding import_observation_def by (elim bind_s_InrE) auto
  obtain t t' where t: "s1 = Some t" "s' = Some t'" using ingest_agree [OF ing] by (auto simp: captures_agree_def safe_directory_def split: option.splits)
  have "\<exists>dir. import_content cid stdout stderr code = Inr dir" using imp unfolding import_capture_def by (elim bind_s_InrE) auto
  then obtain out err where b: "readable stdout = Inr out" "(case stderr of None \<Rightarrow> Inr [] | Some e \<Rightarrow> readable e) = Inr err"
    and en: "encodable (JObj (import_manifest cid code out err))" using import_content_Inr by blast
  note id = import_id [OF cid]
  have ok: "json_ok (JObj (import_manifest cid code out err))" by (rule import_manifest_ok [OF en code id(3)])
  have "node_get t CAPTURES \<noteq> Some Symlink" using linked_captures_refused ingest_agree [OF ing] t(1) by blast
  then have "import_paths t cid (import_dir cid code out err)" using import_published imp b unfolding t by blast
  then have p: "import_paths t' cid (import_dir cid code out err)" using import_paths_agree ingest_agree [OF ing] unfolding t by blast
  show ?thesis unfolding t using b import_verifies(1) [OF p id(1,2) ok] import_slices [OF p id(1,2) ok] import_metadata [OF p id(1,2) ok] by blast
qed

section \<open>Records pass the shipped schema\<close>

lemma hex_pattern_ok: "length h = 64 \<Longrightarrow> list_all is_hex h \<Longrightarrow> hex_pattern p (JStr (lit p @ h))"
  by (simp add: hex_pattern_def length_lit Let_def del: lit_simps)

lemma hex_pattern_plain: "length h = 64 \<Longrightarrow> list_all is_hex h \<Longrightarrow> hex_pattern [] (JStr h)"
  using hex_pattern_ok [of h "[]"] by simp

definition digests_ok :: "capture_summary \<Rightarrow> bool" where
  "digests_ok c \<longleftrightarrow> cm_capture_id c \<noteq> [] \<and>
     list_all (\<lambda>d. length d = 64 \<and> list_all is_hex d) [cm_manifest_sha256 c, snd (cm_stdout c), snd (cm_stderr c)]"

lemma members_accepted:
  assumes "checked_metadata c md = Inr (src, ivc, res)" "digests_ok c" "exit_code_ok (get res ''exit_code'')" "duration_ok (get res ''duration_ms'')"
  shows "closed_object SOURCE_CHECKS src" "closed_object INVOCATION_CHECKS ivc" "closed_object RESULT_CHECKS res"
proof -
  from assms(1) obtain s v r where x: "source_members s = Inr src" "invocation_members v = Inr ivc" "result_members c r = Inr res"
    by (auto simp: checked_metadata_def bind_r_Inr_iff)
  show "closed_object SOURCE_CHECKS src" using x(1)
    by (auto simp: closed_object_def SOURCE_CHECKS_def source_members_def bind_r_Inr_iff bounded_text_Inr text_between_def jget_def lit_eq_iff Suc_le_eq
        simp del: lit_simps)
  show "closed_object INVOCATION_CHECKS ivc" using x(2) hex_pattern_plain
    by (auto simp: closed_object_def INVOCATION_CHECKS_def invocation_members_def bind_r_Inr_iff bounded_text_Inr hex_digest_Inr text_between_def jget_def
        lit_eq_iff Suc_le_eq simp del: lit_simps)
  have "hex_pattern ''artifact:sha256:'' (artifact_ref d)" if "length d = 64" "list_all is_hex d" for d
    unfolding artifact_ref_def using that by (rule hex_pattern_ok)
  then show "closed_object RESULT_CHECKS res" using x(3) assms(2-4)
    by (auto simp: closed_object_def RESULT_CHECKS_def result_members_def bind_r_Inr_iff digests_ok_def get_def jget_def lit_eq_iff
        simp del: lit_simps split: if_splits)
qed

lemma record_accepted:
  assumes "checked_metadata c md = Inr (src, ivc, res)" "digests_ok c" "exit_code_ok (get res ''exit_code'')" "duration_ok (get res ''duration_ms'')"
    "now \<noteq> []"
  shows "shipped_schema msg (record_of c (lit ''obs-'' @ lit (sha256_hex b)) now src ivc res) = None"
proof -
  have "hex_pattern ''obs-'' (JStr (lit ''obs-'' @ lit (sha256_hex b)))" by (rule hex_pattern_ok) (simp_all add: length_lit hex_digits_ok)
  moreover have "hex_pattern [] (JStr (cm_manifest_sha256 c))" using assms(2) by (intro hex_pattern_plain) (simp_all add: digests_ok_def)
  ultimately have "closed_object OBSERVATION_CHECKS (record_of c (lit ''obs-'' @ lit (sha256_hex b)) now src ivc res)"
    using members_accepted [OF assms(1-4)] assms(2,5)
    by (simp add: closed_object_def OBSERVATION_CHECKS_def record_of_def object_of_def jget_def lit_eq_iff text_between_def digests_ok_def cm_capture_ref_def
        Suc_le_eq del: lit_simps)
  then show ?thesis by (simp add: shipped_schema_def)
qed

section \<open>An example\<close>

definition example_cid :: pystr where "example_cid = lit ''import-ab''"

definition example_metadata :: jdict where
  "example_metadata =
     [(lit ''source'', JObj [(lit ''harness'', JStr (lit ''h'')), (lit ''session'', JStr (lit ''s'')), (lit ''tool_call'', JStr (lit ''t''))]),
      (lit ''invocation'', JObj [(lit ''tool'', JStr (lit ''sh'')), (lit ''command_sha256'', JStr (List.replicate 64 97))]),
      (lit ''result'', JObj [(lit ''exit_code'', JInt 0), (lit ''duration_ms'', JInt 7)])]"

definition example_tree :: node where
  "example_tree = Dir PRIVATE_DIR [(lit ''observations'', Dir PRIVATE_DIR []),
     (lit ''captures'', Dir PRIVATE_DIR [(example_cid, import_dir example_cid (JInt 0) ''ok'' [])])]"

definition nowhere :: links where "nowhere = (\<lambda>p. Nowhere False)"

lemma example_import: "import_capture nowhere example_cid (Some (File 420 ''ok'')) None (JInt 0) None = (Some example_tree, Inr ())"
proof -
  have "length (decimal 2) \<le> MAX_INT_DIGITS" "length (decimal 0) \<le> MAX_INT_DIGITS" by code_simp+
  then have "encodable (JObj (import_manifest example_cid (JInt 0) ''ok'' []))" by (simp add: import_manifest_def import_stream_def)
  then show ?thesis
    by (simp add: import_capture_def ensure_store_def ensure_observations_def ensure_captures_def OBSERVATIONS_def CAPTURES_def regular_content_def
        import_content_def readable_def publish_import_def example_tree_def Let_def lit_eq_iff del: lit_simps)
qed

lemma example_paths: "import_paths example_tree example_cid (import_dir example_cid (JInt 0) ''ok'' [])"
  by (simp add: import_paths_def example_tree_def lit_eq_iff del: lit_simps)

lemma example_id: "example_cid = lit ''import-'' @ lit ''ab''" "list_all is_hex (lit ''ab'')"
  by (simp_all add: example_cid_def is_hex_def)

lemma import_example_ok: "json_ok (JObj (import_manifest example_cid (JInt 0) ''ok'' []))"
proof -
  have "length (decimal 2) \<le> MAX_INT_DIGITS" "length (decimal 0) \<le> MAX_INT_DIGITS" by code_simp+
  then show ?thesis using import_id(3) [OF example_id] by (simp add: import_manifest_def import_stream_def lit_eq_iff del: lit_simps)
qed

definition observed_summary :: capture_summary where
  "observed_summary = import_summary example_cid (JInt 0) ''ok'' []"

lemma example_capture: "capture_metadata (Some example_tree) example_cid = Inr observed_summary"
  unfolding observed_summary_def by (rule import_metadata [OF example_paths import_id(1,2) [OF example_id] import_example_ok])

lemma lit_not_empty: "lit (c # t) \<noteq> []"
  by simp

lemma example_checked:
  obtains src ivc res where "checked_metadata observed_summary example_metadata = Inr (src, ivc, res)"
    "get res ''exit_code'' = JInt 0" "get res ''duration_ms'' = JInt 7"
  by (rule that [of "[(lit ''harness'', JStr (lit ''h'')), (lit ''session'', JStr (lit ''s'')), (lit ''tool_call'', JStr (lit ''t''))]"
        "[(lit ''tool'', JStr (lit ''sh'')), (lit ''command_sha256'', JStr (List.replicate 64 97))]"
        "[(lit ''exit_code'', JInt 0), (lit ''duration_ms'', JInt 7), (lit ''stdout'', artifact_ref (snd (cm_stdout observed_summary))),
          (lit ''stderr'', artifact_ref (snd (cm_stderr observed_summary)))]"])
    (simp_all add: checked_metadata_def example_metadata_def object_member_def get_def jget_def source_members_def invocation_members_def result_members_def
      bounded_text_def hex_digest_def natural_member_def int_like_def is_hex_def list_all_iff length_lit lit_eq_iff lit_not_empty del: lit_simps)

lemma example_metadata_ok: "json_ok (JObj example_metadata)"
proof -
  have "length (decimal 7) \<le> MAX_INT_DIGITS" "length (decimal 0) \<le> MAX_INT_DIGITS" by code_simp+
  moreover have "list_all is_scalar (List.replicate 64 97)" by (simp add: list_all_iff is_scalar_def)
  ultimately show ?thesis by (simp add: example_metadata_def lit_eq_iff del: lit_simps)
qed

lemma digests_summary: "cid \<noteq> [] \<Longrightarrow> digests_ok (import_summary cid code out err)"
  by (simp add: digests_ok_def import_summary_def hex_digits_ok length_lit del: lit_simps utf8_encode_simps)

lemma example_recorded:
  assumes "now \<noteq> []" "list_all is_scalar now"
  shows "\<exists>oid rec. observation_record (shipped_schema msg) observed_summary example_metadata now = Inr rec \<and> encodable (JObj rec) \<and>
    jget rec ''observation_id'' = Some (JStr oid) \<and> observation_id_ok oid"
proof -
  have cid: "example_cid \<noteq> []" "list_all is_scalar example_cid" using import_id(3) [OF example_id] by (simp_all add: example_cid_def)
  have so: "summary_ok observed_summary"
    using cid(2) by (simp add: summary_ok_def observed_summary_def import_summary_def hex_digits_ok del: lit_simps utf8_encode_simps)
  obtain src ivc res where m: "checked_metadata observed_summary example_metadata = Inr (src, ivc, res)"
    and r: "get res ''exit_code'' = JInt 0" "get res ''duration_ms'' = JInt 7" by (rule example_checked)
  have j: "json_ok (JObj src)" "json_ok (JObj ivc)" "json_ok (JObj res)" using members_ok [OF example_metadata_ok so m] .
  have "json_ok (observation_identity observed_summary src ivc res)"
    using j so by (simp add: observation_identity_def summary_ok_def lit_eq_iff del: lit_simps)
  then have o: "observation_id_of (observation_identity observed_summary src ivc res) =
      Inr (lit ''obs-'' @ lit (sha256_hex (utf8_encode (dumps True (observation_identity observed_summary src ivc res)))))" (is "_ = Inr ?oid")
    using json_ok_finite by (simp add: observation_id_of_def)
  let ?rec = "record_of observed_summary ?oid now src ivc res"
  have "shipped_schema msg ?rec = None"
    by (rule record_accepted [OF m _ _ _ assms(1)]) (simp_all add: observed_summary_def digests_summary cid r exit_code_ok_def duration_ok_def integral_def)
  moreover have "encodable (JObj ?rec)"
    by (rule json_ok_finite, rule record_of_ok [OF example_metadata_ok so m id_scalar [OF o] assms(2)])
  ultimately show ?thesis using m o id_ok [OF o] record_of_id(1) [of observed_summary ?oid now src ivc res]
    by (auto simp: observation_record_def validated_def simp del: lit_simps)
qed

lemma example_ingest:
  assumes "now \<noteq> []" "list_all is_scalar now"
  shows "\<exists>s' rec oid. ingest_observation nowhere (shipped_schema msg) now example_cid example_metadata (Some example_tree) = (s', Inr rec) \<and>
    jget rec ''observation_id'' = Some (JStr oid) \<and> entry_at (Some example_tree) (observation_file oid) = None \<and> entry_at s' (observation_file oid) \<noteq> None"
proof -
  obtain oid rec where r: "observation_record (shipped_schema msg) observed_summary example_metadata now = Inr rec" "encodable (JObj rec)"
    "jget rec ''observation_id'' = Some (JStr oid)" "observation_id_ok oid" using example_recorded [OF assms] by blast
  have rd: "ready example_tree" by (simp add: ready_def example_tree_def del: lit_simps)
  have n: "node_get example_tree (observation_file oid) = None"
    by (simp add: example_tree_def observation_file_def OBSERVATIONS_def lit_eq_iff del: lit_simps)
  have "ingest_observation nowhere (shipped_schema msg) now example_cid example_metadata (Some example_tree) =
      (Some (node_put (observation_file oid) (File PRIVATE_FILE (utf8_encode (dumps_lay indented True (JObj rec) @ [10]))) example_tree), Inr rec)"
    using r n unfolding ingest_observation_def example_capture
    by (simp add: write_immutable_def named_id_def ensure_store_done [OF rd] entry_exists_def del: utf8_encode_simps)
  then show ?thesis using n r(3) node_put_get_same [OF ready_parent [OF rd], of oid] by (fastforce simp: entry_at_def simp del: utf8_encode_simps)
qed

lemma now_ok: "lit ''2026-01-01'' \<noteq> []" "list_all is_scalar (lit ''2026-01-01'')" "lit ''2027-01-01'' \<noteq> []" "list_all is_scalar (lit ''2027-01-01'')"
  by (simp_all add: is_scalar_def)

theorem observation_reads_back_witness:
  "\<exists>oid kvs s' rec. jget rec ''observation_id'' = Some (JStr oid) \<and> ingest_observation nowhere (shipped_schema (\<lambda>k. [])) (lit ''2026-01-01'') example_cid example_metadata (Some example_tree) = (s', Inr rec) \<and>
     read_observation nowhere (shipped_schema (\<lambda>k. [])) oid s' = (s', Inr kvs) \<and> JObj kvs = sort_keys (JObj rec)"
proof -
  obtain s' rec oid where i: "ingest_observation nowhere (shipped_schema (\<lambda>k. [])) (lit ''2026-01-01'') example_cid example_metadata (Some example_tree) = (s', Inr rec)"
    and n: "jget rec ''observation_id'' = Some (JStr oid)" "entry_at (Some example_tree) (observation_file oid) = None"
    using example_ingest [OF now_ok(1,2)] by blast
  from observation_reads_back [OF i n example_metadata_ok import_id(3) [OF example_id] now_ok(2)] i n(1) show ?thesis by blast
qed

theorem observation_ingested_once_witness:
  "\<exists>kvs s' rec. ingest_observation nowhere (shipped_schema (\<lambda>k. [])) (lit ''2026-01-01'') example_cid example_metadata (Some example_tree) = (s', Inr rec) \<and>
     ingest_observation nowhere (shipped_schema (\<lambda>k. [])) (lit ''2027-01-01'') example_cid example_metadata s' = (s', Inr kvs) \<and>
     sort_keys (JObj kvs) = sort_keys (JObj rec)"
proof -
  obtain s' rec oid where i: "ingest_observation nowhere (shipped_schema (\<lambda>k. [])) (lit ''2026-01-01'') example_cid example_metadata (Some example_tree) = (s', Inr rec)"
    and n: "entry_at (Some example_tree) (observation_file oid) = None" "entry_at s' (observation_file oid) \<noteq> None"
    using example_ingest [OF now_ok(1,2)] by blast
  from observation_ingested_once [OF i n example_metadata_ok import_id(3) [OF example_id] now_ok(2,3,4)] i show ?thesis by blast
qed

theorem import_observation_retrievable_witness:
  "\<exists>s' rec v. import_observation nowhere (shipped_schema (\<lambda>k. [])) (lit ''2026-01-01'') example_cid (Some (File 420 ''ok'')) None example_metadata (JInt 0) None =
       (s', Inr rec) \<and> verify_capture s' example_cid None = Inr v \<and> vr_status v = AVAILABLE"
proof -
  obtain s' rec where "ingest_observation nowhere (shipped_schema (\<lambda>k. [])) (lit ''2026-01-01'') example_cid example_metadata (Some example_tree) = (s', Inr rec)"
    using example_ingest [OF now_ok(1,2)] by blast
  then have i: "import_observation nowhere (shipped_schema (\<lambda>k. [])) (lit ''2026-01-01'') example_cid (Some (File 420 ''ok'')) None example_metadata (JInt 0) None =
      (s', Inr rec)" by (simp add: import_observation_def example_import)
  from import_observation_retrievable [OF i example_id] i show ?thesis by blast
qed

section \<open>Retention\<close>

lemma text_lines_plain: "list_all (\<lambda>c. \<not> line_boundary c) l \<Longrightarrow> text_lines cur (l @ [10]) = [cur @ l]"
  by (induction l arbitrary: cur) (auto simp: line_boundary_def)

lemma text_lines_append:
  "(if t = [] then cur = [] else last t = 10) \<Longrightarrow> text_lines cur (t @ u) = text_lines cur t @ text_lines [] u"
proof (induction cur t rule: text_lines.induct)
  case (2 cur c s)
  show ?case
  proof (cases "line_boundary c")
    case True
    show ?thesis
    proof (cases s)
      case Nil
      with 2 have "c = 10" by simp
      then show ?thesis using True Nil by (cases u) auto
    next
      case (Cons d s')
      with 2 True show ?thesis by (auto split: if_splits)
    qed
  next
    case False
    with 2 have "s \<noteq> []" by (auto simp: line_boundary_def split: if_splits)
    with 2 False show ?thesis by simp
  qed
qed simp

lemma actions_in_append:
  "actions_in oid (xs @ ys) = bind_r (actions_in oid xs) (\<lambda>as. bind_r (actions_in oid ys) (\<lambda>bs. Inr (as @ bs)))"
proof (induction oid xs rule: actions_in.induct)
  case (2 oid l ls)
  then show ?case by (cases "json_text l"; cases "actions_in oid ls"; cases "actions_in oid ys") (auto split: json.splits)
next
  case (1 oid)
  show ?case by (cases "actions_in oid ys") simp_all
qed

lemma printable_no_boundary: "list_all printable l \<Longrightarrow> list_all (\<lambda>c. \<not> line_boundary c) l"
  by (auto simp: list_all_iff printable_def line_boundary_def)

lemma action_record_ok:
  "list_all is_scalar aid \<Longrightarrow> list_all is_scalar now \<Longrightarrow> list_all is_scalar oid \<Longrightarrow> list_all is_scalar act \<Longrightarrow>
   (case r of Some t \<Rightarrow> list_all is_scalar t | None \<Rightarrow> True) \<Longrightarrow> json_ok (JObj (action_record aid now oid act r))"
  by (simp add: action_record_def lit_eq_iff del: lit_simps split: option.splits)

text \<open>An action file that only \<open>record_observation_action\<close> has written to: text that ends with a line feed.\<close>

definition log_ok :: "node option \<Rightarrow> pystr \<Rightarrow> bool" where
  "log_ok e t \<longleftrightarrow> list_all is_scalar t \<and> (t \<noteq> [] \<longrightarrow> last t = 10) \<and>
     (case e of None \<Rightarrow> t = [] | Some (File m b) \<Rightarrow> b = utf8_encode t | _ \<Rightarrow> False)"

lemma text_of_encode: assumes "list_all is_scalar t" shows "text_of (utf8_encode t) = Some t"
  using utf8_strict_encode [of t] assms by (simp add: text_of_def list_all_iff)

lemma ready_actions: "ready t \<Longrightarrow> node_get (node_put ACTIONS_FILE x t) ACTIONS_FILE = Some x \<and> ready (node_put ACTIONS_FILE x t)"
  by (auto simp: ready_def ACTIONS_FILE_def update_conv' lit_eq_iff simp del: lit_simps split: option.splits)

lemma action_path_done: assumes "action_path links s = (s', Inr t)" shows "ready t" "s' = Some t"
  using assms ensure_store_ready ensure_store_tree unfolding action_path_def
  by (elim bind_s_InrE; auto simp: bind_r_Inr_iff split: if_splits)+

lemma appended:
  assumes "append_action links line tree = (s', Inr ())" "ready tree" "log_ok (node_get tree ACTIONS_FILE) t"
  shows "\<exists>tree' m. s' = Some tree' \<and> ready tree' \<and> node_get tree' ACTIONS_FILE = Some (File m (utf8_encode t @ line))"
  using assms ready_actions [OF assms(2)]
  by (cases "node_get tree ACTIONS_FILE"; cases "the (node_get tree ACTIONS_FILE)") (auto simp: append_action_def log_ok_def split: if_splits)

lemma actions_read:
  assumes "ready tree" "node_get tree ACTIONS_FILE = Some (File m (utf8_encode t))" "list_all is_scalar t"
  shows "actions links oid (Some tree) = (Some tree, actions_in oid (text_lines [] t))"
  using assms text_of_encode [OF assms(3)]
  by (simp add: actions_def action_path_def ensure_store_done entry_exists_def regular_content_def)

lemma ensured_actions: "ensure_store links s = (s', Inr u) \<Longrightarrow> node_get u ACTIONS_FILE = entry_at s ACTIONS_FILE"
  by (auto simp: ensure_store_def ensure_observations_def Let_def ready_put entry_at_def update_conv' ACTIONS_FILE_def lit_eq_iff OBSERVATIONS_def
      simp del: lit_simps split: option.splits node.splits)

lemma read_ensures:
  assumes "read_observation links schema oid s = (s1, Inr kvs)"
  obtains t where "ensure_store links s = (Some t, Inr t)" "s1 = Some t" "observation_id_ok oid"
  using assms ensure_store_tree unfolding read_observation_def by (elim bind_s_InrE) (auto split: if_splits)

lemma recorded_action:
  assumes act: "record_observation_action links schema aid now oid action reason s = (s', Inr rec)"
    and log: "log_ok (entry_at s ACTIONS_FILE) t"
  obtains tree' m r where "s' = Some tree'" "ready tree'" "rec = action_record aid now oid action r" "observation_id_ok oid"
    "action = lit ''pin'' \<or> action = lit ''promote''" "r = reason"
    "node_get tree' ACTIONS_FILE = Some (File m (utf8_encode (t @ dumps_lay one_line True (JObj rec) @ [10])))"
proof -
  from act obtain kvs s1 r tree s2 where rd: "read_observation links schema oid s = (s1, Inr kvs)" and r: "action_reason action reason = Inr r"
    and p: "action_path links s1 = (s2, Inr tree)"
    and a: "append_action links (utf8_encode (dumps_lay one_line True (JObj (action_record aid now oid action r)) @ [10])) tree = (s', Inr ())"
    and rec: "rec = action_record aid now oid action r"
    unfolding record_observation_action_def Let_def by (elim bind_s_InrE) auto
  obtain t0 where e: "ensure_store links s = (Some t0, Inr t0)" "s1 = Some t0" "observation_id_ok oid" using read_ensures [OF rd] by blast
  have "tree = t0" using p ensure_store_done [OF ensure_store_ready [OF e(1)]] unfolding action_path_def e(2)
    by (auto simp: bind_r_Inr_iff split: if_splits)
  then have "log_ok (node_get tree ACTIONS_FILE) t" using ensured_actions [OF e(1)] log by simp
  from appended [OF a action_path_done(1) [OF p] this] obtain tree' m where "s' = Some tree'" "ready tree'"
    "node_get tree' ACTIONS_FILE = Some (File m (utf8_encode t @ utf8_encode (dumps_lay one_line True (JObj rec) @ [10])))"
    unfolding rec by blast
  moreover have "r = reason" "action = lit ''pin'' \<or> action = lit ''promote''"
    using r by (auto simp: action_reason_def bind_r_Inr_iff bounded_text_Inr simp del: lit_simps split: if_splits option.splits)
  ultimately show ?thesis using that rec e(3) by (simp del: lit_simps)
qed

lemma id_ok_scalar: "observation_id_ok oid \<Longrightarrow> list_all is_scalar oid"
  using hex_scalar [of "drop 4 oid"] lit_scalar [of "''obs-''"] by (auto simp: observation_id_ok_def prefix_def length_lit simp del: lit_simps lit_scalar)

lemma get_updated: "get (AList.update (lit k) v kvs) k = v"
  by (simp add: get_def jget_def update_conv' del: lit_simps)

text \<open>
  C40.  The last action decides retention: after an action was recorded into an action file that ends with a complete
  line, every summary of the observation reports exactly that action as its retention.
\<close>

theorem retention_is_last_action:
  assumes act: "record_observation_action links schema aid now oid action reason s = (s', Inr rec)"
    and log: "log_ok (entry_at s ACTIONS_FILE) t"
    and scalar: "list_all is_scalar aid" "list_all is_scalar now" "case reason of Some r \<Rightarrow> list_all is_scalar r | None \<Rightarrow> True"
    and summary: "observation_summary links' schema oid s' = (s'', Inr summary)"
  shows "get summary ''retention'' = sort_keys (JObj rec)"
proof -
  obtain tree m where w: "s' = Some tree" "ready tree" "rec = action_record aid now oid action reason" "observation_id_ok oid"
    "action = lit ''pin'' \<or> action = lit ''promote''"
    "node_get tree ACTIONS_FILE = Some (File m (utf8_encode (t @ dumps_lay one_line True (JObj rec) @ [10])))"
    using recorded_action [OF act log] by metis
  let ?line = "dumps_lay one_line True (JObj rec)"
  have ok: "json_ok (JObj rec)" unfolding w(3) using w(5) id_ok_scalar [OF w(4)] scalar by (intro action_record_ok) (auto simp: is_scalar_def)
  have oid: "jget rec ''observation_id'' = Some (JStr oid)" by (simp add: w(3) action_record_def jget_def lit_eq_iff del: lit_simps)
  have pr: "list_all printable ?line" by (rule one_line_printable [OF ok])
  have sc: "list_all is_scalar (t @ ?line @ [10])"
    using pr log by (auto simp: list_all_iff printable_def is_scalar_def log_ok_def)
  have "text_lines [] (t @ ?line @ [10]) = text_lines [] t @ [?line]"
    using text_lines_append [of t "[]" "?line @ [10]"] text_lines_plain [OF printable_no_boundary [OF pr], of "[]"] log by (auto simp: log_ok_def)
  moreover have "actions_in oid [?line] = Inr [sort_key fst (sort_pairs rec)]"
    using spaced.loads_layout [OF ok, of "[]" True] jget_sorted [of rec "''observation_id''"] ok oid by (simp add: json_text_def blank_def get_def)
  ultimately have acts: "actions_in oid (text_lines [] (t @ ?line @ [10])) =
      bind_r (actions_in oid (text_lines [] t)) (\<lambda>as. Inr (as @ [sort_key fst (sort_pairs rec)]))" by (simp only: actions_in_append bind_r_simps)
  from summary obtain kvs acts c where "actions links' oid (Some tree) = (s'', Inr acts)" "summary = summary_of kvs acts c"
    unfolding observation_summary_def w(1)
    by (elim bind_s_InrE) (auto elim!: read_ensures simp: ensure_store_done [OF w(2)] bind_r_Inr_iff split: option.splits)
  with actions_read [OF w(2,6) sc] acts have "last acts = sort_key fst (sort_pairs rec)" "acts \<noteq> []" by (auto simp: bind_r_Inr_iff)
  with \<open>summary = _\<close> show ?thesis by (simp add: summary_of_def get_updated del: lit_simps)
qed

lemma record_capture_id: "jget (record_of c oid t src ivc res) ''capture_id'' = Some (JStr (cm_capture_id c))"
  by (simp add: jget_def record_of_def lit_eq_iff del: lit_simps)

lemma example_observed:
  obtains t oid m b kvs where "ready t" "observation_id_ok oid" "node_get t (observation_file oid) = Some (File m b)" "loaded (Some b) = Inr (JObj kvs)"
    "shipped_schema msg kvs = None" "jget kvs ''capture_id'' = Some (JStr example_cid)" "node_get t ACTIONS_FILE = None"
    "import_paths t example_cid (import_dir example_cid (JInt 0) ''ok'' [])"
proof -
  obtain s' rec oid where i: "ingest_observation nowhere (shipped_schema msg) (lit ''2026-01-01'') example_cid example_metadata (Some example_tree) = (s', Inr rec)"
    and n: "entry_at (Some example_tree) (observation_file oid) = None" "entry_at s' (observation_file oid) \<noteq> None"
    using example_ingest [OF now_ok(1,2)] by blast
  show ?thesis
  proof (rule shipped.ingest_fresh [OF i n example_metadata_ok import_id(3) [OF example_id] now_ok(2)])
    fix c src ivc res t
    assume c: "capture_metadata (Some example_tree) example_cid = Inr c" and rec: "rec = record_of c oid (lit ''2026-01-01'') src ivc res"
      and ok: "json_ok (JObj rec)" "shipped_schema msg rec = None" and t: "s' = Some t" "ready t" "captures_agree (Some example_tree) s'" "observation_id_ok oid"
      and f: "node_get t (observation_file oid) = Some (File PRIVATE_FILE (utf8_encode (dumps_lay indented True (JObj rec) @ [10])))"
    have "cm_capture_id c = example_cid" using c example_capture by (auto simp: observed_summary_def import_summary_def)
    then have "jget (sort_key fst (sort_pairs rec)) ''capture_id'' = Some (JStr example_cid)"
      using jget_sorted [of rec "''capture_id''"] ok(1) record_capture_id [of c oid _ src ivc res] by (simp add: rec)
    moreover have "node_get t ACTIONS_FILE = None"
      using captures_agreeD [OF t(3), of "lit ''observation-actions.jsonl''" "[]"]
      by (simp add: t(1) entry_at_def ACTIONS_FILE_def example_tree_def lit_eq_iff del: lit_simps)
    moreover have "import_paths t example_cid (import_dir example_cid (JInt 0) ''ok'' [])"
      using import_paths_agree [OF example_paths] t(1,3) by simp
    ultimately show ?thesis using that [OF t(2,4) f] loaded_written [OF ok(1)] shipped.order_blind [OF ok] by simp
  qed
qed

lemma actions_put_other:
  assumes "ready t" "import_paths t cid dir" "node_get t (observation_file oid) = Some n"
  shows "import_paths (node_put ACTIONS_FILE x t) cid dir" "node_get (node_put ACTIONS_FILE x t) (observation_file oid) = Some n"
proof -
  show "import_paths (node_put ACTIONS_FILE x t) cid dir" using assms(2)
    by (auto simp: import_paths_def ACTIONS_FILE_def update_conv' lit_eq_iff simp del: lit_simps split: option.splits)
  show "node_get (node_put ACTIONS_FILE x t) (observation_file oid) = Some n"
    using node_put_get_other [of ACTIONS_FILE "observation_file oid" x t] assms(3)
    by (simp add: ACTIONS_FILE_def observation_file_def OBSERVATIONS_def lit_eq_iff del: lit_simps)
qed

theorem retention_is_last_action_witness:
  "\<exists>oid s s' rec s'' summary. record_observation_action nowhere (shipped_schema (\<lambda>k. [])) (lit ''a1'') (lit ''2026-01-01'') oid (lit ''pin'') None s = (s', Inr rec) \<and>
     observation_summary nowhere (shipped_schema (\<lambda>k. [])) oid s' = (s'', Inr summary) \<and> get summary ''retention'' = sort_keys (JObj rec)"
proof -
  obtain t oid m b kvs where t: "ready t" "observation_id_ok oid" "node_get t (observation_file oid) = Some (File m b)" "loaded (Some b) = Inr (JObj kvs)"
    and k: "shipped_schema (\<lambda>k. []) kvs = None" "jget kvs ''capture_id'' = Some (JStr example_cid)" and n: "node_get t ACTIONS_FILE = None"
    and p: "import_paths t example_cid (import_dir example_cid (JInt 0) ''ok'' [])" by (rule example_observed)
  let ?rec = "action_record (lit ''a1'') (lit ''2026-01-01'') oid (lit ''pin'') None"
  let ?l = "dumps_lay one_line True (JObj ?rec) @ [10]"
  let ?t = "node_put ACTIONS_FILE (File PRIVATE_FILE (utf8_encode ?l)) t"
  have act: "record_observation_action nowhere (shipped_schema (\<lambda>k. [])) (lit ''a1'') (lit ''2026-01-01'') oid (lit ''pin'') None (Some t) = (Some ?t, Inr ?rec)"
    using read_stored [OF t] k(1) n
    by (simp add: record_observation_action_def validated_def action_reason_def action_path_def ensure_store_done [OF t(1)] entry_exists_def append_action_def
        Let_def del: lit_simps utf8_encode_simps)
  have sc: "list_all is_scalar (lit ''a1'')" "list_all is_scalar (lit ''pin'')" by (simp_all add: is_scalar_def)
  have ok: "json_ok (JObj ?rec)" using sc now_ok(2) id_ok_scalar [OF t(2)] by (intro action_record_ok) auto
  have l: "list_all is_scalar ?l" using one_line_printable [OF ok] by (auto simp: list_all_iff printable_def is_scalar_def)
  note rd = ready_actions [OF t(1), of "File PRIVATE_FILE (utf8_encode ?l)"] and o = actions_put_other [OF t(1) p t(3), of "File PRIVATE_FILE (utf8_encode ?l)"]
  have c: "capture_metadata (Some ?t) example_cid = Inr observed_summary"
    unfolding observed_summary_def by (rule import_metadata [OF o(1) import_id(1,2) [OF example_id] import_example_ok])
  have "text_lines [] ?l = [dumps_lay one_line True (JObj ?rec)]"
    using text_lines_plain [OF printable_no_boundary [OF one_line_printable [OF ok]], of "[]"] by simp
  then have "\<exists>as. actions_in oid (text_lines [] ?l) = Inr as" using spaced.loads_layout [OF ok, of "[]" True] by (simp add: json_text_def blank_def)
  then have "\<exists>summary. observation_summary nowhere (shipped_schema (\<lambda>k. [])) oid (Some ?t) = (Some ?t, Inr summary)"
    using read_stored [OF rd [THEN conjunct2] t(2) o(2) t(4)] k c actions_read [OF rd [THEN conjunct2] rd [THEN conjunct1] l]
    by (auto simp: observation_summary_def validated_def str_value_def simp del: lit_simps utf8_encode_simps)
  then obtain summary where s: "observation_summary nowhere (shipped_schema (\<lambda>k. [])) oid (Some ?t) = (Some ?t, Inr summary)" by blast
  have "log_ok (entry_at (Some t) ACTIONS_FILE) []" using n by (simp add: log_ok_def entry_at_def)
  then have "get summary ''retention'' = sort_keys (JObj ?rec)" by (rule retention_is_last_action [OF act _ sc(1) now_ok(2) _ s]) simp
  with act s show ?thesis by blast
qed

end
