(* ===== verification/Spec2Isabelle.thy ===== *)
theory Spec2Isabelle
  imports Projection Serialization Capture Retrieval Lint Rollout OutputPolicy Kubernetes Harness ObservationStore
begin

text \<open>
  \<^bold>\<open>Verification of outctl.\<close>

  outctl runs a command once, keeps what it wrote as private evidence, shows a model a bounded and
  redacted projection of it, lets authorized callers read the evidence back, and decides by compiled
  policy and rollout evidence which engine may run and what may be disclosed.  This development models
  the Python implementation under \<open>src/outctl\<close> operation by operation and proves what each promises.

  \<^bold>\<open>Conventions\<close> (\<open>Prelude\<close>).  Python text is a list of code points (\<open>pystr\<close>, surrogates included), bytes
  are characters, a dataclass is a record and its \<open>__post_init__\<close> a constructor \<open>mk_...\<close> that returns the
  record or raises.  A raise is \<open>Inl\<close> of a value of \<open>exn\<close>, one constructor for each exception class; calls are
  chained with \<open>bind_r\<close> in the order of the source, so the first failing check decides.  Mutable
  objects are passed and returned.  A dict is an association list in insertion order.

  \<^bold>\<open>Parts and theories.\<close>
  \<^item> Standard library, modelled where the program depends on it: \<open>Sha256\<close> (hashlib), \<open>Utf8\<close> (the incremental
    decoder with replacement, casefold and control categories), \<open>Json\<close>, \<open>JsonBytes\<close> and \<open>JsonLayout\<close> (json.dumps in
    its layouts, loads and load), \<open>Floats\<close> (IEEE 754 doubles, equality of JSON values), \<open>DateTime\<close> (fromisoformat, isoformat, the calendar), \<open>Formats\<close> (the regular expressions used as
    field formats, canonical encoding and digests), \<open>Spool\<close> (a directory tree with permissions).
  \<^item> \<open>projection.py\<close>: \<open>Collector\<close> (limits and the three collectors), \<open>Redactor\<close> (exact multi-value redaction),
    \<open>Normalizer\<close> (progress and repetition collapsing, control neutralization), \<open>Projection\<close> (\<open>project_bytes\<close>),
    \<open>Transparent\<close> (plain output within the limits passes unchanged).  Bounded output, lossless when nothing was dropped, no control characters, independence of chunking,
    leftmost-longest redaction, explicit gaps, exact error conditions.
  \<^item> \<open>serialization.py\<close>: \<open>Serialization\<close>.  For contents without floats, canonical bytes determine the value up to
    key order and the None members of dictionaries.
  \<^item> \<open>capture/runner.py\<close>, \<open>storage.py\<close>, \<open>recovery.py\<close>: \<open>Capture\<close>.  A complete capture holds exactly what the
    command wrote, the quota is respected, the event index tiles the streams, recovery marks every abandoned directory,
    loses nothing and is idempotent.  The
    run is a sequence of chunks with the outcome of each write; any interleaving of the pipes is such a sequence.
  \<^item> \<open>retrieval.py\<close>: \<open>Retrieval\<close>.  A capture that did not fail reads back, both streams; nothing is read through a link or for
    another workspace; slicing and verification are exact, and so is search for patterns of up to 64 KiB and a byte.
  \<^item> \<open>extensions/contracts.py\<close>: \<open>Extensions\<close>; \<open>discovery.py\<close> (pins), \<open>protocol.py\<close>, \<open>commissioning.py\<close>: \<open>ExtProtocol\<close>.
    Extension results are bounded and carry no authority, the size iteration ends, ids bind their
    invocation, contribution order is immaterial.
  \<^item> \<open>control/contracts.py\<close>: \<open>Control\<close>.  Snapshots never widen trust, negotiation fails closed, capability
    documents round-trip.
  \<^item> \<open>control/policy.py\<close>: \<open>Policy\<close> (secret registry as a state machine, values read from YAML, commissioning),
    \<open>Compiler\<close> (reading, validating, compiling), \<open>CompileTotal\<close> (compilation returns and stays within its
    context, digests are recomputable), \<open>Lint\<close> (exceptions, order of sinks).
  \<^item> \<open>native/rollout.py\<close>, \<open>native/selector.py\<close>: \<open>Rollout\<close>.  A native engine runs only behind every gate and
    only as the pinned bytes; canary cohorts only grow; accepted evidence is complete.
  \<^item> \<open>models.py\<close>: \<open>Models\<close>.  The schema dataclasses are data interpreted by the functions that read and write
    them; reading, writing and reading again gives the same instance, and a member named \<open>extra\<close> is lost.
  \<^item> \<open>policy.py\<close>: \<open>OutputPolicy\<close>.  Resolution along \<open>extends\<close> ends and reports cycles and missing names exactly;
    overrides win and everything else is inherited.
  \<^item> \<open>semantic.py\<close>: \<open>Semantic\<close>.  Where STATUS is the fourth column, a pod-health summary marked decision-complete
    counts every row and shows every unhealthy one; a listing without the namespace column is misread.
  \<^item> \<open>envelope.py\<close>: \<open>Envelope\<close>, over the classes of \<open>Models\<close> and the spool tree; \<open>adapter.py\<close>: \<open>Adapter\<close>.  The break-glass
    switch always bypasses, a stored run with acceptable arguments returns an envelope whose reference leads
    back to what was retained, and a secret cut by two slices is returned in the clear.
  \<^item> \<open>kubernetes.py\<close>: \<open>Kubernetes\<close>.  Exactly which argument vectors pass the read boundary, that the argument
    vector that runs names the pinned kubeconfig and context, and where the Secret boundary leaks.
  \<^item> \<open>contracts.py\<close>: \<open>Contracts\<close>.  The forbidden-key scan, evidence links and the semantic checks of each document
    kind; an accepted document satisfies its schema, names no raw body or path and its digest binds its bytes.
  \<^item> \<open>harness.py\<close>: \<open>Harness\<close>.  Plans are matched, counterbalanced and within their limits; the threads of a start
    group are interleaved steps of a transition relation with a barrier that counts its parties.  No session runs
    before all have arrived, every schedule ends, and the outcome is the results in plan order or the error of a
    session that failed in the first group with a failure.
  \<^item> \<open>observations.py\<close>: \<open>Observations\<close> (the operations, and that the store is append-only under any sequence of them)
    and \<open>ObservationStore\<close> (the shipped schema; round trip, idempotence, import and retention).

  \<^bold>\<open>How the parts meet.\<close>  Capture writes the tree that Retrieval reads: \<open>Retrieval.capture_reads_back\<close>
  composes them.  Extension contributions enter the source digest of the policy compiler; a compiled
  snapshot is a \<open>Control\<close> snapshot; the rollout selector reads the artifact's capability document with the
  \<open>Control\<close> parser and negotiates with it.  The adapter captures, projects, wraps the result in an envelope and
  retrieves through its reference; a Kubernetes read is an adapter run.  An observation is recorded about a capture
  that \<open>Retrieval\<close> verifies, and an import writes a capture that it reads.  The harness plans from documents
  \<open>Contracts\<close> accepted.

  \<^bold>\<open>Interfaces.\<close>  Locales state what a client relies on, and each is interpreted on the model's own
  operations: \<open>stream_stage\<close> and \<open>stage_pipeline\<close> (\<open>Prelude\<close>; the redactor, the decoder and their
  composition), \<open>record_sink\<close> and \<open>exact_sink\<close> (\<open>Normalizer\<close>; the collectors), \<open>entry_store\<close> (\<open>Spool\<close>; the
  directory tree), \<open>keyed_store\<close> (\<open>Policy\<close>; the secret registry), \<open>json_layout\<close> (\<open>JsonLayout\<close>; both layouts of
  json.dumps) and \<open>record_schema\<close> (\<open>ObservationStore\<close>; the shipped observation schema).

  \<^bold>\<open>Loops and fuel.\<close>  Loops are total functions with measures, except two: \<open>Json.loads\<close> has fuel
  \<open>2 * length + 2\<close>, proved sufficient for every input, and \<open>Extensions.stable_size\<close> is a partial function
  proved to return for every result.

  \<^bold>\<open>Arguments for code outside the repository.\<close>  The regular-expression engine (\<open>search_stream\<close>), PyYAML's
  composition of nodes (\<open>yaml_loader\<close>), JSON Schema validation (\<open>schema\<close>), the operating system (chunks, write
  outcomes, directory trees, where links lead, the native process in \<open>native_host\<close>), the session runner.

  \<^bold>\<open>Not modelled.\<close>  A spool directory that is a symbolic link to a directory, which \<open>mkdir(exist_ok=True)\<close> accepts:
  in the tree of \<open>Spool\<close> a link is either one to a readable regular file or one that no operation enters.  A broken
  barrier (it has no timeout and is never aborted) and a thread that cannot be started.  Loading and schema-validating a policy set file.  The launch validators of \<open>contracts.py\<close>,
  which read a git checkout, and its conversion of unversioned packets.  The compilers of enablement, study, UX,
  comparison and enforcement evidence, which tabulate documents \<open>Contracts\<close> has accepted.  The scenario and
  fixture files, benchmark, pilot, command line, acceptance drivers and build scripts: input, output and external
  services around the modelled operations.  The extension sandbox and worker are operating-system process
  control.  The Rust crates are another language; what they must satisfy is stated by \<open>Control\<close> and \<open>Rollout\<close>.
\<close>

end
